(* ===== verification/Prelude.thy ===== *)
theory Prelude
  imports Main "HOL-Library.Word" "HOL-Library.Monad_Syntax" "HOL-Library.Multiset"
begin

text \<open>
  Shared vocabulary of the development: how Go values are represented, the slice operations
  the sources use, and the generic list and option lemmas the component theories lean on.

  Conventions.
  \<^item> A Go call that may panic (index out of range, an explicit \<open>panic\<close>) or may not return
    yields an \<open>option\<close>: \<open>None\<close> means that control does not come back to the caller.
  \<^item> A Go \<open>error\<close> result is an \<open>option\<close> of an error datatype (\<open>nil\<close> is \<open>None\<close>); a pair
    \<open>(value, error)\<close> of which exactly one half is meaningful is a sum, \<open>Inl\<close> the error.
  \<^item> A slice is the list of its elements, so its capacity equals its length; where the code
    depends on spare capacity or on aliasing, the component says how it is represented.
  \<^item> Go's \<open>int\<close> is 64 bits wide on the targets of this library. Lengths and indices are
    \<open>nat\<close>, values that can be negative are \<open>int\<close>, and fixed-width fields are words.
\<close>

type_synonym byte = "8 word"
type_synonym uint16 = "16 word"
type_synonym uint32 = "32 word"
type_synonym uint64 = "64 word"

named_theorems slice_simps \<open>lengths and contents of sub-slices and copies\<close>

subsection \<open>Slices\<close>

definition slice :: "nat \<Rightarrow> nat \<Rightarrow> 'a list \<Rightarrow> 'a list" where
  "slice lo hi b = take (hi - lo) (drop lo b)"

definition get_slice :: "nat \<Rightarrow> nat \<Rightarrow> 'a list \<Rightarrow> 'a list option" where
  \<comment> \<open>the expression \<open>b[lo:hi]\<close>, which panics outside the slice\<close>
  "get_slice lo hi b = (if lo \<le> hi \<and> hi \<le> length b then Some (slice lo hi b) else None)"

definition put_slice ::
  "nat \<Rightarrow> nat \<Rightarrow> ('a list \<Rightarrow> 'a list option) \<Rightarrow> 'a list \<Rightarrow> 'a list option" where
  \<comment> \<open>\<open>f(b[lo:hi])\<close> where \<open>f\<close> writes through the sub-slice\<close>
  "put_slice lo hi f b = do {
     s \<leftarrow> get_slice lo hi b;
     s' \<leftarrow> f s;
     Some (take lo b @ s' @ drop hi b)
   }"

definition go_copy :: "nat \<Rightarrow> 'a list \<Rightarrow> 'a list \<Rightarrow> 'a list" where
  \<comment> \<open>the builtin \<open>copy(dst[off:], src)\<close>: the shorter of the two lengths is copied\<close>
  "go_copy off src dst =
     (let n = min (length dst - off) (length src)
      in take off dst @ take n src @ drop (off + n) dst)"

definition copy_count :: "nat \<Rightarrow> 'a list \<Rightarrow> 'a list \<Rightarrow> nat" where
  \<comment> \<open>what \<open>copy\<close> returns\<close>
  "copy_count off src dst = min (length dst - off) (length src)"

definition go_index :: "'a list \<Rightarrow> int \<Rightarrow> 'a option" where
  \<comment> \<open>the expression \<open>xs[i]\<close>\<close>
  "go_index xs i = (if 0 \<le> i \<and> i < int (length xs) then Some (xs ! nat i) else None)"

definition go_rem :: "int \<Rightarrow> int \<Rightarrow> int" where
  \<comment> \<open>the operator \<open>%\<close>, whose result has the sign of the dividend\<close>
  "go_rem n m = sgn n * (\<bar>n\<bar> mod \<bar>m\<bar>)"

lemma length_slice [simp, slice_simps]: "length (slice lo hi b) = min (hi - lo) (length b - lo)"
  by (simp add: slice_def)

lemma slice_zero [simp, slice_simps]: "slice 0 n b = take n b"
  by (simp add: slice_def)

lemma length_go_copy [simp, slice_simps]:
  "off \<le> length dst \<Longrightarrow> length (go_copy off src dst) = length dst"
  by (simp add: go_copy_def Let_def)

lemma get_slice_Some [simp]:
  "lo \<le> hi \<Longrightarrow> hi \<le> length b \<Longrightarrow> get_slice lo hi b = Some (slice lo hi b)"
  by (simp add: get_slice_def)

lemma slice_append_left [slice_simps]:
  "hi \<le> length xs \<Longrightarrow> slice lo hi (xs @ ys) = slice lo hi xs"
  by (simp add: slice_def)

lemma slice_append_right [slice_simps]:
  "length xs \<le> lo \<Longrightarrow> slice lo hi (xs @ ys) = slice (lo - length xs) (hi - length xs) ys"
proof -
  assume "length xs \<le> lo"
  moreover from this have "hi - length xs - (lo - length xs) = hi - lo" by arith
  ultimately show ?thesis by (simp add: slice_def)
qed

lemma put_slice_at:
  assumes "length pre = lo" and "length mid = hi - lo" and "lo \<le> hi"
  shows "put_slice lo hi f (pre @ mid @ post) = map_option (\<lambda>s. pre @ s @ post) (f mid)"
  using assms by (cases "f mid") (simp_all add: put_slice_def get_slice_def slice_def)

lemma put_slice_replicate:
  assumes "f (replicate (hi - lo) z) = Some s" and "length pre = lo" and "lo \<le> hi" and "hi - lo \<le> k"
  shows "put_slice lo hi f (pre @ replicate k z) = Some ((pre @ s) @ replicate (k - (hi - lo)) z)"
proof -
  have "replicate k z = replicate (hi - lo) z @ replicate (k - (hi - lo)) z"
    using assms(4) by (simp flip: replicate_add)
  then show ?thesis
    using put_slice_at [of pre lo "replicate (hi - lo) z" hi f] assms(1,2,3) by simp
qed

lemma go_copy_fits:
  assumes "off + length src \<le> length dst"
  shows "go_copy off src dst = take off dst @ src @ drop (off + length src) dst"
  using assms by (auto simp add: go_copy_def Let_def min_def)

lemma go_index_nat [simp]: "go_index xs (int i) = (if i < length xs then Some (xs ! i) else None)"
  by (simp add: go_index_def)

subsection \<open>Words\<close>

unbundle bit_operations_syntax

lemma and_minus_exp: "(x::int) AND - (2 ^ k) = 2 ^ k * (x div 2 ^ k)"
proof -
  have "x AND NOT (mask k) = push_bit k (drop_bit k x)"
    by (rule bit_eqI) (auto simp: bit_simps not_less)
  then show ?thesis
    by (simp add: minus_exp_eq_not_mask push_bit_eq_mult drop_bit_eq_div mult.commute)
qed

lemma int_less_uint_iff: "int n < uint w \<longleftrightarrow> n < unat w"
  by (metis of_nat_less_iff uint_nat)

lemma uint_less_numeral_iff: "uint w < numeral k \<longleftrightarrow> unat w < numeral k"
  by (simp only: uint_nat of_nat_less_numeral_iff)

subsection \<open>Lists\<close>

lemma take_replicate_append:
  "take n xs @ replicate (n - length xs) z = take n (xs @ replicate n z)"
  by simp

lemma butlast_last_cases [consumes 1, case_names snoc]:
  assumes "xs \<noteq> []"
  obtains ys y where "xs = ys @ [y]"
  using assms by (metis append_butlast_last_id)

lemma map_nth_upt [simp]: "map ((!) xs) [0..<length xs] = xs"
  by (rule map_nth)

lemma mset_remove_nth:
  "i < length xs \<Longrightarrow> mset xs = add_mset (xs ! i) (mset (take i xs @ drop (Suc i) xs))"
  by (metis Cons_nth_drop_Suc append_take_drop_id mset.simps(2) mset_append
      union_mset_add_mset_right)

subsection \<open>Sequences of operations and refinement\<close>

fun run_ops :: "('op \<Rightarrow> 's \<Rightarrow> ('o \<times> 's) option) \<Rightarrow> 'op list \<Rightarrow> 's \<Rightarrow> 'o option list" where
  \<comment> \<open>what a client that calls the operations one after the other sees; a panic ends the sequence\<close>
  "run_ops step [] s = []"
| "run_ops step (x # xs) s =
     (case step x s of None \<Rightarrow> [None] | Some (r, s') \<Rightarrow> Some r # run_ops step xs s')"

inductive reach_ops :: "('op \<Rightarrow> 's \<Rightarrow> ('o \<times> 's) option) \<Rightarrow> 's \<Rightarrow> 's \<Rightarrow> bool" for step s0 where
  reach_start: "reach_ops step s0 s0"
| reach_step: "reach_ops step s0 s \<Longrightarrow> step x s = Some (r, s') \<Longrightarrow> reach_ops step s0 s'"

text \<open>An implementation that simulates a specification step by step, panics included.\<close>

locale refinement =
  fixes inv :: "'s \<Rightarrow> bool"
    and abst :: "'s \<Rightarrow> 'a"
    and step :: "'op \<Rightarrow> 's \<Rightarrow> ('o \<times> 's) option"
    and spec :: "'op \<Rightarrow> 'a \<Rightarrow> ('o \<times> 'a) option"
  assumes step_sim: "inv s \<Longrightarrow>
    rel_option (\<lambda>(r, s') (r', a'). r = r' \<and> inv s' \<and> a' = abst s') (step x s) (spec x (abst s))"
begin

lemma run_refines: "inv s \<Longrightarrow> run_ops step xs s = run_ops spec xs (abst s)"
proof (induction xs arbitrary: s)
  case (Cons x xs)
  with step_sim [of s x] show ?case by (auto elim!: option.rel_cases)
qed simp

lemma reach_inv: "reach_ops step s0 s \<Longrightarrow> inv s0 \<Longrightarrow> inv s"
proof (induction rule: reach_ops.induct)
  case (reach_step s x r s')
  with step_sim [of s x] show ?case by (auto elim: option.rel_cases)
qed

end

end
