(* ===== verification/NlErrors.thy ===== *)
theory NlErrors
  imports Prelude
begin

text \<open>
  \<^verbatim>\<open>netlink-client/errors.go\<close>: the error values of the netlink packages and the wrapper
  \<open>OpError\<close>. Sentinel errors are constructors of one datatype, as are the wrapping types of the
  standard library that the package inspects (\<open>os.SyscallError\<close>, \<open>syscall.Errno\<close>).
  \<open>ForeignError\<close> stands for an error made outside the package, by its text.

  Whether an error value has a \<open>Timeout\<close> or \<open>Temporary\<close> method, and what it answers, belongs to
  code outside this repository: it is the parameter \<open>meth\<close> (\<open>None\<close>: no such method), and so
  is \<open>os.IsNotExist\<close>.
\<close>

datatype nl_error =
    errIncorrectMessageLength
  | errShortMessage
  | errUnalignedMessage
  | errMismatchedSequence
  | errMismatchedPID
  | errShortErrorMessage
  | errNotSupported
  | errInvalidAttribute
  | errDataTooLarge
  | errNoMessageReceived
  | errNetNSDisabled
  | errAttributeLength uint16 string nat
  | errUnexpectedHeaderType uint16 uint16
  | errUnexpectedHeaderFlags uint16 uint16
  | EOF
  | Errno uint64
  | SyscallError string nl_error
  | OpError string nl_error
  | ForeignError string

definition newOpError :: "string \<Rightarrow> nl_error option \<Rightarrow> nl_error option" where
  "newOpError oper err = (case err of None \<Rightarrow> None | Some e \<Rightarrow> Some (OpError oper e))"

definition NewSyscallError :: "string \<Rightarrow> nl_error option \<Rightarrow> nl_error option" where
  \<comment> \<open>\<open>os.NewSyscallError\<close>\<close>
  "NewSyscallError name err = (case err of None \<Rightarrow> None | Some e \<Rightarrow> Some (SyscallError name e))"

definition notSupported :: "string \<Rightarrow> nl_error option" where
  "notSupported oper = newOpError oper (Some errNotSupported)"

fun IsNotExist :: "(nl_error \<Rightarrow> bool) \<Rightarrow> nl_error \<Rightarrow> bool" where
  "IsNotExist os_IsNotExist (OpError _ e) = os_IsNotExist e"
| "IsNotExist os_IsNotExist e = os_IsNotExist e"

fun inner_method :: "(nl_error \<Rightarrow> bool option) \<Rightarrow> nl_error \<Rightarrow> bool" where
  "inner_method meth (SyscallError _ e) = (meth e = Some True)"
| "inner_method meth e = (meth e = Some True)"

definition Timeout :: "(nl_error \<Rightarrow> bool option) \<Rightarrow> string \<times> nl_error \<Rightarrow> bool" where
  \<comment> \<open>\<open>(*OpError).Timeout\<close>, the receiver as the pair of its fields\<close>
  "Timeout meth oe = inner_method meth (snd oe)"

definition Temporary :: "(nl_error \<Rightarrow> bool option) \<Rightarrow> string \<times> nl_error \<Rightarrow> bool" where
  "Temporary meth oe = inner_method meth (snd oe)"

definition is_OpError_or_nil :: "nl_error option \<Rightarrow> bool" where
  \<comment> \<open>the contract conn.go and message.go state for the errors they return\<close>
  "is_OpError_or_nil err = (case err of Some (OpError _ _) \<Rightarrow> True | None \<Rightarrow> True | _ \<Rightarrow> False)"

lemma newOpError_simps [simp]:
  "newOpError oper None = None"
  "newOpError oper (Some e) = Some (OpError oper e)"
  by (simp_all add: newOpError_def)

lemma NewSyscallError_simps [simp]:
  "NewSyscallError name None = None"
  "NewSyscallError name (Some e) = Some (SyscallError name e)"
  by (simp_all add: NewSyscallError_def)

lemma newOpError_None_iff [simp]: "newOpError oper err = None \<longleftrightarrow> err = None"
  by (cases err) simp_all

lemma newOpError_contract [simp]: "is_OpError_or_nil (newOpError oper err)"
  by (cases err) (simp_all add: is_OpError_or_nil_def)

end
