(* ===== verification/NlMessage.thy ===== *)
theory NlMessage
  imports Nlenc NlErrors
begin

unbundle bit_operations_syntax

text \<open>
  \<^verbatim>\<open>netlink-client/align.go\<close> and \<^verbatim>\<open>netlink-client/message.go\<close>: alignment, the message header,
  its binary form, and the check of a received message for an error code.

  The alignment macros are kept as the bit operations of the source, on \<open>int\<close>; they are shown
  to round up to a multiple of four. The two codecs \<open>MarshalBinary\<close> and \<open>UnmarshalBinary\<close> are
  shown never to panic and to be inverse to each other.
\<close>

subsection \<open>Alignment\<close>

definition nlmsgAlignTo :: int where
  "nlmsgAlignTo = 4"

definition nlmsgAlign :: "int \<Rightarrow> int" where
  "nlmsgAlign len = (len + nlmsgAlignTo - 1) AND NOT (nlmsgAlignTo - 1)"

definition sizeofHeader :: int where
  \<comment> \<open>\<open>unsafe.Sizeof(Header{})\<close>: two 4-byte, two 2-byte and one 4-byte field, no padding\<close>
  "sizeofHeader = 4 + 2 + 2 + 4 + 4"

definition nlmsgHeaderLen :: int where
  "nlmsgHeaderLen = nlmsgAlign sizeofHeader"

definition nlmsgLength :: "int \<Rightarrow> int" where
  "nlmsgLength len = len + nlmsgHeaderLen"

definition nlaAlignTo :: int where
  "nlaAlignTo = 4"

definition nlaAlign :: "int \<Rightarrow> int" where
  "nlaAlign len = (len + nlaAlignTo - 1) AND NOT (nlaAlignTo - 1)"

definition sizeofAttribute :: int where
  "sizeofAttribute = 4"

definition nlaHeaderLen :: int where
  "nlaHeaderLen = nlaAlign sizeofAttribute"

lemma and_minus_4: "(x::int) AND -4 = 4 * (x div 4)"
  using and_minus_exp [of x 2] by simp

lemma nlmsgAlign_eq: "nlmsgAlign n = 4 * ((n + 3) div 4)"
  by (simp add: nlmsgAlign_def nlmsgAlignTo_def and_minus_4 add.commute)

lemma nlaAlign_eq: "nlaAlign n = 4 * ((n + 3) div 4)"
  by (simp add: nlaAlign_def nlaAlignTo_def and_minus_4 add.commute)

lemma nlmsgHeaderLen_eq [simp]: "nlmsgHeaderLen = 16"
  by (simp add: nlmsgHeaderLen_def sizeofHeader_def nlmsgAlign_eq)

lemma nlaHeaderLen_eq [simp]: "nlaHeaderLen = 4"
  by (simp add: nlaHeaderLen_def sizeofAttribute_def nlaAlign_eq)

lemma nlmsgAlign_ge: "n \<le> nlmsgAlign n" and nlmsgAlign_less: "nlmsgAlign n < n + 4"
  by (simp_all add: nlmsgAlign_eq)

lemma nlaAlign_ge: "n \<le> nlaAlign n" and nlaAlign_less: "nlaAlign n < n + 4"
  by (simp_all add: nlaAlign_eq)

lemma nlmsgAlign_idem [simp]: "nlmsgAlign (nlmsgAlign n) = nlmsgAlign n"
  by (simp add: nlmsgAlign_eq)

subsection \<open>Headers and messages\<close>

definition Request :: uint16 where "Request = 1"
definition Multi :: uint16 where "Multi = 2"
definition Acknowledge :: uint16 where "Acknowledge = 4"
definition Echo :: uint16 where "Echo = 8"
definition DumpInterrupted :: uint16 where "DumpInterrupted = 16"
definition DumpFiltered :: uint16 where "DumpFiltered = 32"
definition Root :: uint16 where "Root = 0x100"
definition Match :: uint16 where "Match = 0x200"
definition Atomic :: uint16 where "Atomic = 0x400"
definition Dump :: uint16 where "Dump = Root OR Match"
definition Replace :: uint16 where "Replace = 0x100"
definition Excl :: uint16 where "Excl = 0x200"
definition Create :: uint16 where "Create = 0x400"
definition Append :: uint16 where "Append = 0x800"

definition Noop :: uint16 where "Noop = 1"
definition Error :: uint16 where "Error = 2"
definition Done :: uint16 where "Done = 3"
definition Overrun :: uint16 where "Overrun = 4"

record Header =
  hLength :: uint32
  hType :: uint16
  hFlags :: uint16
  hSequence :: uint32
  hPID :: uint32

record Message =
  mHeader :: Header
  mData :: "byte list"

definition emptyMessage :: Message where
  \<comment> \<open>the zero value \<open>Message{}\<close>\<close>
  "emptyMessage = \<lparr>mHeader = \<lparr>hLength = 0, hType = 0, hFlags = 0, hSequence = 0, hPID = 0\<rparr>,
                   mData = []\<rparr>"

definition digit :: "nat \<Rightarrow> char" where
  "digit d = ''0123456789abcdef'' ! d"

fun base_digits :: "nat \<Rightarrow> nat \<Rightarrow> string" where
  \<comment> \<open>\<open>n\<close> in base \<open>b + 2\<close>, as the verbs of \<open>fmt\<close> print it\<close>
  "base_digits b n =
     (if n < b + 2 then [digit n] else base_digits b (n div (b + 2)) @ [digit (n mod (b + 2))])"

declare base_digits.simps [simp del]

definition flag_names :: "string list" where
  "flag_names = [''request'', ''multi'', ''acknowledge'', ''echo'', ''dumpinterrupted'',
                 ''dumpfiltered'']"

definition join_name :: "string \<Rightarrow> string \<Rightarrow> string" where
  "join_name s name = (if s \<noteq> [] then s @ ''|'' @ name else name)"

fun flag_loop :: "uint16 \<Rightarrow> nat \<Rightarrow> string list \<Rightarrow> string \<Rightarrow> uint64 \<Rightarrow> string \<times> uint64" where
  "flag_loop f i [] s left = (s, left)"
| "flag_loop f i (name # names) s left =
     (if f AND push_bit i 1 \<noteq> 0
      then flag_loop f (Suc i) names (join_name s name) (left XOR push_bit i 1)
      else flag_loop f (Suc i) names s left)"

definition HeaderFlags_String :: "uint16 \<Rightarrow> string" where
  "HeaderFlags_String f =
     (let (s, left) = flag_loop f 0 flag_names [] (ucast f);
          s = (if s = [] \<and> left = 0 then ''0'' else s)
      in if left > 0 then join_name s (''0x'' @ base_digits 14 (unat left)) else s)"

definition HeaderType_String :: "uint16 \<Rightarrow> string" where
  "HeaderType_String t =
     (if t = Noop then ''noop''
      else if t = Error then ''error''
      else if t = Done then ''done''
      else if t = Overrun then ''overrun''
      else ''unknown('' @ base_digits 8 (unat t) @ '')'')"

subsection \<open>The binary form\<close>

definition MarshalBinary :: "byte_order \<Rightarrow> Message \<Rightarrow> (nl_error + byte list) option" where
  "MarshalBinary host m =
     (let h = mHeader m; ml = nlmsgAlign (uint (hLength h))
      in if ml < nlmsgHeaderLen \<or> ml \<noteq> uint (hLength h)
         then Some (Inl errIncorrectMessageLength)
         else do {
           let b = replicate (nat ml) 0;
           b \<leftarrow> put_slice 0 4 (PutUint32 host (hLength h)) b;
           b \<leftarrow> put_slice 4 6 (PutUint16 host (hType h)) b;
           b \<leftarrow> put_slice 6 8 (PutUint16 host (hFlags h)) b;
           b \<leftarrow> put_slice 8 12 (PutUint32 host (hSequence h)) b;
           b \<leftarrow> put_slice 12 16 (PutUint32 host (hPID h)) b;
           _ \<leftarrow> get_slice 16 (length b) b;
           Some (Inr (go_copy 16 (mData m) b))
         })"

definition UnmarshalBinary ::
  "byte_order \<Rightarrow> Message \<Rightarrow> byte list \<Rightarrow> (Message \<times> nl_error option) option" where
  \<comment> \<open>the receiver is updated in place, also on the last error path\<close>
  "UnmarshalBinary host m b =
     (if int (length b) < nlmsgHeaderLen then Some (m, Some errShortMessage)
      else if int (length b) \<noteq> nlmsgAlign (int (length b)) then Some (m, Some errUnalignedMessage)
      else do {
        len \<leftarrow> get_slice 0 4 b \<bind> Uint32 host;
        let m = m\<lparr>mHeader := (mHeader m)\<lparr>hLength := len\<rparr>\<rparr>;
        if uint len \<noteq> int (length b) then Some (m, Some errShortMessage)
        else do {
          t \<leftarrow> get_slice 4 6 b \<bind> Uint16 host;
          f \<leftarrow> get_slice 6 8 b \<bind> Uint16 host;
          s \<leftarrow> get_slice 8 12 b \<bind> Uint32 host;
          p \<leftarrow> get_slice 12 16 b \<bind> Uint32 host;
          d \<leftarrow> get_slice 16 (length b) b;
          Some (\<lparr>mHeader = \<lparr>hLength = len, hType = t, hFlags = f, hSequence = s, hPID = p\<rparr>,
                 mData = d\<rparr>, None)
        }
      })"

definition newError :: "int \<Rightarrow> nl_error" where
  \<comment> \<open>\<open>syscall.Errno(errno)\<close> converts to an unsigned machine word\<close>
  "newError errno = Errno (word_of_int errno)"

definition checkMessage :: "byte_order \<Rightarrow> Message \<Rightarrow> nl_error option option" where
  "checkMessage host m =
     (if hType (mHeader m) \<noteq> Error then Some None
      else if length (mData m) < 4 then Some (newOpError ''receive'' (Some errShortErrorMessage))
      else do {
        c \<leftarrow> get_slice 0 4 (mData m) \<bind> Int32 host;
        Some (if c \<noteq> 0 then newOpError ''receive'' (Some (newError (-1 * sint c))) else None)
      })"

subsection \<open>Layout of a marshalled message\<close>

definition header_bytes :: "byte_order \<Rightarrow> Header \<Rightarrow> byte list" where
  "header_bytes host h =
     store_word host 4 (hLength h) @ store_word host 2 (hType h) @ store_word host 2 (hFlags h) @
     store_word host 4 (hSequence h) @ store_word host 4 (hPID h)"

definition pad_data :: "nat \<Rightarrow> byte list \<Rightarrow> byte list" where
  \<comment> \<open>\<open>n\<close> bytes: the data, cut off or filled up with zeros\<close>
  "pad_data n d = take n d @ replicate (n - length d) 0"

definition valid_length :: "uint32 \<Rightarrow> bool" where
  "valid_length l \<longleftrightarrow> 16 \<le> uint l \<and> 4 dvd uint l"

lemma length_header_bytes [simp]: "length (header_bytes host h) = 16"
  by (simp add: header_bytes_def)

lemma length_pad_data [simp]: "length (pad_data n d) = n"
  by (simp add: pad_data_def)

lemma pad_data_id [simp]: "length d = n \<Longrightarrow> pad_data n d = d"
  by (simp add: pad_data_def)

lemma nlmsgAlign_fixpoint: "nlmsgAlign n = n \<longleftrightarrow> 4 dvd n"
  unfolding nlmsgAlign_eq by presburger

lemma valid_length_iff:
  "valid_length l \<longleftrightarrow> \<not> (nlmsgAlign (uint l) < nlmsgHeaderLen \<or> nlmsgAlign (uint l) \<noteq> uint l)"
  using nlmsgAlign_fixpoint [of "uint l"] by (auto simp: valid_length_def)

lemma unat_length_valid: "valid_length l \<Longrightarrow> 16 \<le> unat l \<and> 4 dvd unat l"
proof -
  assume "valid_length l"
  then have "16 \<le> int (unat l)" and "int 4 dvd int (unat l)"
    by (simp_all add: valid_length_def)
  then show ?thesis by (metis int_dvd_int_iff of_nat_le_iff of_nat_numeral)
qed

lemma MarshalBinary_layout:
  assumes "valid_length (hLength (mHeader m))"
  shows "MarshalBinary host m =
    Some (Inr (header_bytes host (mHeader m) @
               pad_data (unat (hLength (mHeader m)) - 16) (mData m)))"
proof -
  define h where "h = mHeader m"
  define n where "n = unat (hLength h)"
  from assms have v: "valid_length (hLength h)" and n: "16 \<le> n"
    by (simp_all add: h_def n_def unat_length_valid)
  then have ml: "nat (nlmsgAlign (uint (hLength h))) = n"
    by (simp add: valid_length_iff n_def)
  let ?L = "store_word host 4 (hLength h)" and ?T = "store_word host 2 (hType h)"
  let ?F = "store_word host 2 (hFlags h)" and ?S = "store_word host 4 (hSequence h)"
  let ?P = "store_word host 4 (hPID h)"
  have s1: "put_slice 0 4 (PutUint32 host (hLength h)) (replicate n 0) =
      Some (?L @ replicate (n - 4) 0)"
    using put_slice_replicate [of "PutUint32 host (hLength h)" 4 0 0 ?L "[]" n] n
    by (simp add: PutUint32_def)
  have s2: "put_slice 4 6 (PutUint16 host (hType h)) (?L @ replicate (n - 4) 0) =
      Some (?L @ ?T @ replicate (n - 6) 0)"
    using put_slice_replicate [of "PutUint16 host (hType h)" 6 4 0 ?T ?L "n - 4"] n
    by (simp add: PutUint16_def)
  have s3: "put_slice 6 8 (PutUint16 host (hFlags h)) (?L @ ?T @ replicate (n - 6) 0) =
      Some (?L @ ?T @ ?F @ replicate (n - 8) 0)"
    using put_slice_replicate [of "PutUint16 host (hFlags h)" 8 6 0 ?F "?L @ ?T" "n - 6"] n
    by (simp add: PutUint16_def)
  have s4: "put_slice 8 12 (PutUint32 host (hSequence h)) (?L @ ?T @ ?F @ replicate (n - 8) 0) =
      Some (?L @ ?T @ ?F @ ?S @ replicate (n - 12) 0)"
    using put_slice_replicate [of "PutUint32 host (hSequence h)" 12 8 0 ?S "?L @ ?T @ ?F" "n - 8"] n
    by (simp add: PutUint32_def)
  have s5: "put_slice 12 16 (PutUint32 host (hPID h))
      (?L @ ?T @ ?F @ ?S @ replicate (n - 12) 0) =
      Some (?L @ ?T @ ?F @ ?S @ ?P @ replicate (n - 16) 0)"
    using put_slice_replicate [of "PutUint32 host (hPID h)" 16 12 0 ?P "?L @ ?T @ ?F @ ?S" "n - 12"] n
    by (simp add: PutUint32_def)
  let ?r = "replicate (n - 16) (0::byte)"
  from v have guard: "\<not> (nlmsgAlign (uint (hLength h)) < nlmsgHeaderLen \<or>
      nlmsgAlign (uint (hLength h)) \<noteq> uint (hLength h))"
    by (simp only: valid_length_iff simp_thms)
  have "MarshalBinary host m = Some (Inr (go_copy 16 (mData m) (header_bytes host h @ ?r)))"
    unfolding MarshalBinary_def Let_def h_def [symmetric] if_not_P [OF guard] ml s1 s2 s3 s4 s5
      Option.bind.simps
    by (simp add: get_slice_def header_bytes_def)
  also have "go_copy 16 (mData m) (header_bytes host h @ ?r) =
      header_bytes host h @ pad_data (n - 16) (mData m)"
    by (simp add: go_copy_def pad_data_def Let_def min_def)
  finally show ?thesis by (simp add: h_def n_def)
qed

lemma MarshalBinary_invalid:
  "\<not> valid_length (hLength (mHeader m)) \<Longrightarrow>
   MarshalBinary host m = Some (Inl errIncorrectMessageLength)"
  by (simp add: MarshalBinary_def Let_def valid_length_iff)

subsection \<open>Reading a message back\<close>

definition header_of :: "byte_order \<Rightarrow> byte list \<Rightarrow> Header" where
  "header_of host b =
     \<lparr>hLength = load_word host (slice 0 4 b), hType = load_word host (slice 4 6 b),
      hFlags = load_word host (slice 6 8 b), hSequence = load_word host (slice 8 12 b),
      hPID = load_word host (slice 12 16 b)\<rparr>"

lemma header_of_header_bytes [simp]: "header_of host (header_bytes host h @ d) = h"
  by (simp add: header_of_def header_bytes_def slice_append_left slice_append_right)

lemma slice_glue: "lo \<le> mid \<Longrightarrow> mid \<le> hi \<Longrightarrow> slice lo mid b @ slice mid hi b = slice lo hi b"
proof -
  assume "lo \<le> mid" and "mid \<le> hi"
  then have "hi - lo = (mid - lo) + (hi - mid)" and "drop mid b = drop (mid - lo) (drop lo b)"
    by simp_all
  then show ?thesis by (simp only: slice_def take_add)
qed

lemma header_bytes_header_of [simp]:
  assumes "16 \<le> length b"
  shows "header_bytes host (header_of host b) = take 16 b"
proof -
  have "header_bytes host (header_of host b) =
      slice 0 4 b @ slice 4 6 b @ slice 6 8 b @ slice 8 12 b @ slice 12 16 b"
    using assms by (simp add: header_bytes_def header_of_def del: slice_zero)
  also have "\<dots> = slice 0 16 b" by (simp add: slice_glue del: slice_zero)
  finally show ?thesis by simp
qed

lemma UnmarshalBinary_cases:
  "UnmarshalBinary host m b =
     Some (if length b < 16 then (m, Some errShortMessage)
           else if \<not> 4 dvd length b then (m, Some errUnalignedMessage)
           else if unat (hLength (header_of host b)) \<noteq> length b
             then (m\<lparr>mHeader := (mHeader m)\<lparr>hLength := hLength (header_of host b)\<rparr>\<rparr>,
                   Some errShortMessage)
           else (\<lparr>mHeader = header_of host b, mData = drop 16 b\<rparr>, None))"
proof -
  have al: "int (length b) = nlmsgAlign (int (length b)) \<longleftrightarrow> 4 dvd length b"
    using nlmsgAlign_fixpoint [of "int (length b)"] by (metis int_dvd_int_iff of_nat_numeral)
  have len: "uint l = int (length b) \<longleftrightarrow> unat l = length b" for l :: uint32
    by (metis of_nat_eq_iff uint_nat)
  consider "length b < 16" | "16 \<le> length b" "\<not> 4 dvd length b" | "16 \<le> length b" "4 dvd length b"
    by linarith
  then show ?thesis
  proof cases
    case 3
    then show ?thesis
      by (simp add: UnmarshalBinary_def al len Uint32_def Uint16_def header_of_def slice_def Let_def)
  qed (simp_all add: UnmarshalBinary_def al)
qed

lemma checkMessage_total: "checkMessage host m \<noteq> None"
  by (simp add: checkMessage_def Int32_def)

lemma checkMessage_contract: "checkMessage host m = Some e \<Longrightarrow> is_OpError_or_nil e"
  by (auto simp: checkMessage_def Int32_def is_OpError_or_nil_def split: if_splits)

lemma checkMessage_error_code:
  assumes "checkMessage host m = Some e"
  shows "e = None \<longleftrightarrow>
    hType (mHeader m) \<noteq> Error \<or> 4 \<le> length (mData m) \<and> load_word host (take 4 (mData m)) = (0 :: uint32)"
  using assms by (auto simp: checkMessage_def Int32_def split: if_splits)

subsection \<open>Properties\<close>

text \<open>C1. Marshalling a message whose header announces an aligned length of at least a header
  succeeds without a panic, produces exactly that many bytes, and unmarshalling those bytes into
  any receiver restores the header and the data, the data cut off or zero-filled to the
  announced length.\<close>
theorem message_roundtrip:
  assumes "16 \<le> uint (hLength (mHeader m))" and "4 dvd uint (hLength (mHeader m))"
  shows "\<exists>b. MarshalBinary host m = Some (Inr b) \<and> length b = unat (hLength (mHeader m)) \<and>
    UnmarshalBinary host m0 b =
      Some (\<lparr>mHeader = mHeader m,
             mData = pad_data (unat (hLength (mHeader m)) - 16) (mData m)\<rparr>, None)"
proof -
  let ?n = "unat (hLength (mHeader m))"
  let ?b = "header_bytes host (mHeader m) @ pad_data (?n - 16) (mData m)"
  from assms have v: "valid_length (hLength (mHeader m))" by (simp add: valid_length_def)
  then have "16 \<le> ?n" and "4 dvd ?n" using unat_length_valid by blast+
  then have "length ?b = ?n" and "UnmarshalBinary host m0 ?b =
      Some (\<lparr>mHeader = mHeader m, mData = pad_data (?n - 16) (mData m)\<rparr>, None)"
    by (simp_all add: UnmarshalBinary_cases)
  with MarshalBinary_layout [OF v] show ?thesis by blast
qed

theorem message_roundtrip_witness:
  "\<exists>b. MarshalBinary LittleEndian
          \<lparr>mHeader = \<lparr>hLength = 20, hType = 3, hFlags = 2, hSequence = 7, hPID = 9\<rparr>,
           mData = [1, 2]\<rparr> = Some (Inr b) \<and> length b = 20 \<and>
       UnmarshalBinary LittleEndian emptyMessage b =
         Some (\<lparr>mHeader = \<lparr>hLength = 20, hType = 3, hFlags = 2, hSequence = 7, hPID = 9\<rparr>,
                mData = [1, 2, 0, 0]\<rparr>, None)"
proof -
  have "pad_data 4 [1, 2] = [1, 2, 0, 0]" by code_simp
  then show ?thesis
    using message_roundtrip [of "\<lparr>mHeader = \<lparr>hLength = 20, hType = 3, hFlags = 2, hSequence = 7,
        hPID = 9\<rparr>, mData = [1, 2]\<rparr>" LittleEndian emptyMessage]
    by simp
qed

text \<open>C2. Whatever bytes are unmarshalled successfully are reproduced exactly by marshalling the
  message obtained: the binary form is canonical.\<close>
theorem unmarshal_marshal:
  assumes "UnmarshalBinary host m0 b = Some (m, None)"
  shows "MarshalBinary host m = Some (Inr b)"
proof -
  from assms have b: "16 \<le> length b" "4 dvd length b"
      "unat (hLength (header_of host b)) = length b"
    and m: "m = \<lparr>mHeader = header_of host b, mData = drop 16 b\<rparr>"
    by (auto simp: UnmarshalBinary_cases split: if_splits)
  then have "int 16 \<le> int (unat (hLength (mHeader m)))" "int 4 dvd int (unat (hLength (mHeader m)))"
    by (simp_all only: int_dvd_int_iff of_nat_le_iff Message.select_convs)
  then have "valid_length (hLength (mHeader m))"
    by (simp add: valid_length_def)
  from MarshalBinary_layout [OF this, of host] b show ?thesis by (simp add: m)
qed

theorem unmarshal_marshal_witness:
  "MarshalBinary LittleEndian
     \<lparr>mHeader = \<lparr>hLength = 16, hType = 0, hFlags = 0, hSequence = 0, hPID = 0\<rparr>, mData = []\<rparr> =
   Some (Inr [16, 0, 0, 0, 0, 0, 0, 0, 0, 0, 0, 0, 0, 0, 0, 0])"
proof (rule unmarshal_marshal [of _ emptyMessage])
  show "UnmarshalBinary LittleEndian emptyMessage [16, 0, 0, 0, 0, 0, 0, 0, 0, 0, 0, 0, 0, 0, 0, 0] =
    Some (\<lparr>mHeader = \<lparr>hLength = 16, hType = 0, hFlags = 0, hSequence = 0, hPID = 0\<rparr>,
           mData = []\<rparr>, None)"
    by code_simp
qed

text \<open>Marshalling and unmarshalling never panic. Marshalling succeeds exactly when the header
  length is aligned and no shorter than a header, and its only error is the one for an incorrect
  length. Unmarshalling succeeds exactly when the bytes make up at least a header, are aligned,
  and their length field tells their number.\<close>
lemma codec_errors:
  "MarshalBinary host m \<in> insert (Some (Inl errIncorrectMessageLength)) (range (Some \<circ> Inr)) \<and>
   ((\<exists>b'. MarshalBinary host m = Some (Inr b')) \<longleftrightarrow>
     16 \<le> uint (hLength (mHeader m)) \<and> 4 dvd uint (hLength (mHeader m))) \<and>
   UnmarshalBinary host m b \<noteq> None \<and>
   ((\<exists>m'. UnmarshalBinary host m b = Some (m', None)) \<longleftrightarrow>
     16 \<le> length b \<and> 4 dvd length b \<and> unat (load_word host (take 4 b) :: uint32) = length b)"
proof -
  have "MarshalBinary host m \<in> insert (Some (Inl errIncorrectMessageLength)) (range (Some \<circ> Inr)) \<and>
      ((\<exists>b'. MarshalBinary host m = Some (Inr b')) \<longleftrightarrow> valid_length (hLength (mHeader m)))"
    by (cases "valid_length (hLength (mHeader m))")
      (auto simp: MarshalBinary_layout MarshalBinary_invalid)
  moreover have "UnmarshalBinary host m b \<noteq> None \<and>
      ((\<exists>m'. UnmarshalBinary host m b = Some (m', None)) \<longleftrightarrow>
        16 \<le> length b \<and> 4 dvd length b \<and> unat (load_word host (take 4 b) :: uint32) = length b)"
    by (auto simp: UnmarshalBinary_cases header_of_def)
  ultimately show ?thesis by (simp add: valid_length_def)
qed

end
