(* ===== verification/NlAttribute.thy ===== *)
theory NlAttribute
  imports NlMessage
begin

text \<open>
  \<^verbatim>\<open>netlink-client/attribute.go\<close>: netlink attributes, their packing into one byte slice, and
  the iterator-like decoder and the encoder built on it.

  A method that writes to its receiver returns the receiver; \<open>None\<close> is a panic. The loop of
  \<open>UnmarshalAttributes\<close> is a terminating function: every iteration advances by at least one
  byte. The lemmas give the byte layout of a packed slice, the round trip through it for
  attributes that fit the 16-bit length field, and what happens to one that does not.
\<close>

subsection \<open>Attributes\<close>

record Attribute =
  aLength :: uint16
  aType :: uint16
  aData :: "byte list"

definition emptyAttribute :: Attribute where
  "emptyAttribute = \<lparr>aLength = 0, aType = 0, aData = []\<rparr>"

definition Attribute_marshal ::
  "byte_order \<Rightarrow> Attribute \<Rightarrow> byte list \<Rightarrow> (nl_error + int \<times> byte list) option" where
  "Attribute_marshal host a b =
     (if uint (aLength a) < nlaHeaderLen then Some (Inl errInvalidAttribute)
      else do {
        b \<leftarrow> put_slice 0 2 (PutUint16 host (aLength a)) b;
        b \<leftarrow> put_slice 2 4 (PutUint16 host (aType a)) b;
        _ \<leftarrow> get_slice (nat nlaHeaderLen) (length b) b;
        let n = copy_count (nat nlaHeaderLen) (aData a) b;
        Some (Inr (nlaHeaderLen + nlaAlign (int n), go_copy (nat nlaHeaderLen) (aData a) b))
      })"

definition Attribute_unmarshal ::
  "byte_order \<Rightarrow> Attribute \<Rightarrow> byte list \<Rightarrow> (Attribute \<times> nl_error option) option" where
  "Attribute_unmarshal host a b =
     (if int (length b) < nlaHeaderLen then Some (a, Some errInvalidAttribute)
      else do {
        len \<leftarrow> get_slice 0 2 b \<bind> Uint16 host;
        t \<leftarrow> get_slice 2 4 b \<bind> Uint16 host;
        let a = a\<lparr>aLength := len, aType := t\<rparr>;
        if uint len > int (length b) then Some (a, Some errInvalidAttribute)
        else if len = 0 then Some (a\<lparr>aData := []\<rparr>, None)
        else if uint len < nlaHeaderLen then Some (a, Some errInvalidAttribute)
        else do {
          d \<leftarrow> get_slice (nat nlaHeaderLen) (unat len) b;
          Some (a\<lparr>aData := go_copy 0 d (replicate (length d) 0)\<rparr>, None)
        }
      })"

fun marshal_count :: "Attribute list \<Rightarrow> int" where
  "marshal_count [] = 0"
| "marshal_count (a # as) = nlaHeaderLen + nlaAlign (int (length (aData a))) + marshal_count as"

definition inferLength :: "Attribute \<Rightarrow> Attribute" where
  \<comment> \<open>the length conversion \<open>uint16(...)\<close> wraps around\<close>
  "inferLength a =
     (if aLength a = 0
      then a\<lparr>aLength := word_of_int (nlaHeaderLen + int (length (aData a)))\<rparr> else a)"

fun marshal_loop ::
  "byte_order \<Rightarrow> Attribute list \<Rightarrow> nat \<Rightarrow> byte list \<Rightarrow> (nl_error + byte list) option" where
  "marshal_loop host [] idx b = Some (Inr b)"
| "marshal_loop host (a # as) idx b =
     (if length b < idx then None
      else case Attribute_marshal host (inferLength a) (drop idx b) of
        None \<Rightarrow> None
      | Some (Inl e) \<Rightarrow> Some (Inl e)
      | Some (Inr (n, b')) \<Rightarrow> marshal_loop host as (idx + nat n) (take idx b @ b'))"

definition MarshalAttributes ::
  "byte_order \<Rightarrow> Attribute list \<Rightarrow> (nl_error + byte list) option" where
  "MarshalAttributes host attrs =
     marshal_loop host attrs 0 (replicate (nat (marshal_count attrs)) 0)"

lemma nlaAlign_pos: "0 < n \<Longrightarrow> 0 < nlaAlign n"
  using nlaAlign_ge [of n] by linarith

lemma uint_pos: "w \<noteq> 0 \<Longrightarrow> 0 < uint (w :: 'a::len word)"
  using uint_ge_0 [of w] by (simp add: order_less_le uint_0_iff)

function unmarshal_loop ::
  "byte_order \<Rightarrow> byte list \<Rightarrow> nat \<Rightarrow> Attribute list \<Rightarrow> (nl_error + Attribute list) option" where
  "unmarshal_loop host b i attrs =
     (if i > length b \<or> length (drop i b) = 0 then Some (Inr attrs)
      else case Attribute_unmarshal host emptyAttribute (drop i b) of
        None \<Rightarrow> None
      | Some (a, Some e) \<Rightarrow> Some (Inl e)
      | Some (a, None) \<Rightarrow>
          if aLength a = 0 then unmarshal_loop host b (i + nat nlaHeaderLen) attrs
          else unmarshal_loop host b (i + nat (nlaAlign (uint (aLength a)))) (attrs @ [a]))"
  by pat_completeness auto

termination
proof (relation "measure (\<lambda>(host, b, i, attrs). Suc (length b) - i)", goal_cases)
  case (3 host b i attrs x a opt)
  then have "0 < nat (nlaAlign (uint (aLength a)))"
    using nlaAlign_pos [OF uint_pos [of "aLength a"]] by simp
  with 3(1) show ?case by (simp; linarith)
qed auto

declare unmarshal_loop.simps [simp del]

definition UnmarshalAttributes ::
  "byte_order \<Rightarrow> byte list \<Rightarrow> (nl_error + Attribute list) option" where
  "UnmarshalAttributes host b = unmarshal_loop host b 0 []"

subsection \<open>The decoder\<close>

record AttributeDecoder =
  adByteOrder :: byte_order
  adAttrs :: "Attribute list"
  adI :: nat
  adErr :: "nl_error option"

definition NewAttributeDecoder ::
  "byte_order \<Rightarrow> byte list \<Rightarrow> (nl_error + AttributeDecoder) option" where
  "NewAttributeDecoder host b = do {
     r \<leftarrow> UnmarshalAttributes host b;
     (case r of
        Inl e \<Rightarrow> Some (Inl e)
      | Inr attrs \<Rightarrow> do {
          bo \<leftarrow> NativeEndian host;
          Some (Inr \<lparr>adByteOrder = bo, adAttrs = attrs, adI = 0, adErr = None\<rparr>)
        })
   }"

definition ad_Next :: "AttributeDecoder \<Rightarrow> bool \<times> AttributeDecoder" where
  "ad_Next ad =
     (if adErr ad \<noteq> None then (False, ad)
      else let ad = ad\<lparr>adI := adI ad + 1\<rparr> in (length (adAttrs ad) \<ge> adI ad, ad))"

definition ad_attr :: "AttributeDecoder \<Rightarrow> Attribute option" where
  "ad_attr ad = go_index (adAttrs ad) (int (adI ad) - 1)"

definition ad_Type :: "AttributeDecoder \<Rightarrow> uint16 option" where
  "ad_Type ad = map_option aType (ad_attr ad)"

definition ad_data :: "AttributeDecoder \<Rightarrow> byte list option" where
  "ad_data ad = map_option aData (ad_attr ad)"

definition ad_Err :: "AttributeDecoder \<Rightarrow> nl_error option" where
  "ad_Err ad = adErr ad"

definition ad_Bytes :: "AttributeDecoder \<Rightarrow> byte list option" where
  "ad_Bytes ad = map_option (\<lambda>src. go_copy 0 src (replicate (length src) 0)) (ad_data ad)"

definition ad_String :: "AttributeDecoder \<Rightarrow> byte list option" where
  "ad_String ad = (if adErr ad \<noteq> None then Some [] else map_option String (ad_data ad))"

definition ad_uint ::
  "nat \<Rightarrow> string \<Rightarrow> AttributeDecoder \<Rightarrow> ('a::len word \<times> AttributeDecoder) option" where
  \<comment> \<open>the common body of the integer accessors, for a width in bytes and the type's name\<close>
  "ad_uint n name ad =
     (if adErr ad \<noteq> None then Some (0, ad)
      else do {
        b \<leftarrow> ad_data ad;
        if length b \<noteq> n
        then do {
          t \<leftarrow> ad_Type ad;
          Some (0, ad\<lparr>adErr := Some (errAttributeLength t name (length b))\<rparr>)
        }
        else Some (load_word (adByteOrder ad) b, ad)
      })"

definition ad_Uint8 :: "AttributeDecoder \<Rightarrow> (byte \<times> AttributeDecoder) option" where
  "ad_Uint8 ad =
     (if adErr ad \<noteq> None then Some (0, ad)
      else do {
        b \<leftarrow> ad_data ad;
        if length b \<noteq> 1
        then do {
          t \<leftarrow> ad_Type ad;
          Some (0, ad\<lparr>adErr := Some (errAttributeLength t ''uint8'' (length b))\<rparr>)
        }
        else do { v \<leftarrow> go_index b 0; Some (v, ad) }
      })"

definition ad_Uint16 :: "AttributeDecoder \<Rightarrow> (uint16 \<times> AttributeDecoder) option" where
  "ad_Uint16 = ad_uint 2 ''uint16''"

definition ad_Uint32 :: "AttributeDecoder \<Rightarrow> (uint32 \<times> AttributeDecoder) option" where
  "ad_Uint32 = ad_uint 4 ''uint32''"

definition ad_Uint64 :: "AttributeDecoder \<Rightarrow> (uint64 \<times> AttributeDecoder) option" where
  "ad_Uint64 = ad_uint 8 ''uint64''"

definition ad_Do ::
  "(byte list \<Rightarrow> nl_error option) \<Rightarrow> AttributeDecoder \<Rightarrow> AttributeDecoder option" where
  "ad_Do fn ad =
     (if adErr ad \<noteq> None then Some ad
      else do {
        b \<leftarrow> ad_data ad;
        Some (case fn b of Some e \<Rightarrow> ad\<lparr>adErr := Some e\<rparr> | None \<Rightarrow> ad)
      })"

subsection \<open>The encoder\<close>

record AttributeEncoder =
  aeByteOrder :: byte_order
  aeAttrs :: "Attribute list"
  aeErr :: "nl_error option"

definition NewAttributeEncoder :: "byte_order \<Rightarrow> AttributeEncoder option" where
  "NewAttributeEncoder host = do {
     bo \<leftarrow> NativeEndian host;
     Some \<lparr>aeByteOrder = bo, aeAttrs = [], aeErr = None\<rparr>
   }"

definition ae_append :: "uint16 \<Rightarrow> byte list \<Rightarrow> AttributeEncoder \<Rightarrow> AttributeEncoder" where
  "ae_append typ d ae = ae\<lparr>aeAttrs := aeAttrs ae @ [\<lparr>aLength = 0, aType = typ, aData = d\<rparr>]\<rparr>"

definition ae_Uint8 :: "uint16 \<Rightarrow> byte \<Rightarrow> AttributeEncoder \<Rightarrow> AttributeEncoder" where
  "ae_Uint8 typ v ae = (if aeErr ae \<noteq> None then ae else ae_append typ [v] ae)"

definition ae_Uint16 :: "uint16 \<Rightarrow> uint16 \<Rightarrow> AttributeEncoder \<Rightarrow> AttributeEncoder" where
  "ae_Uint16 typ v ae =
     (if aeErr ae \<noteq> None then ae else ae_append typ (store_word (aeByteOrder ae) 2 v) ae)"

definition ae_Uint32 :: "uint16 \<Rightarrow> uint32 \<Rightarrow> AttributeEncoder \<Rightarrow> AttributeEncoder" where
  "ae_Uint32 typ v ae =
     (if aeErr ae \<noteq> None then ae else ae_append typ (store_word (aeByteOrder ae) 4 v) ae)"

definition ae_Uint64 :: "uint16 \<Rightarrow> uint64 \<Rightarrow> AttributeEncoder \<Rightarrow> AttributeEncoder" where
  "ae_Uint64 typ v ae =
     (if aeErr ae \<noteq> None then ae else ae_append typ (store_word (aeByteOrder ae) 8 v) ae)"

definition ae_String :: "uint16 \<Rightarrow> byte list \<Rightarrow> AttributeEncoder \<Rightarrow> AttributeEncoder" where
  "ae_String typ s ae = (if aeErr ae \<noteq> None then ae else ae_append typ (Bytes s) ae)"

definition ae_Bytes :: "uint16 \<Rightarrow> byte list \<Rightarrow> AttributeEncoder \<Rightarrow> AttributeEncoder" where
  "ae_Bytes typ b ae = (if aeErr ae \<noteq> None then ae else ae_append typ b ae)"

definition ae_Do ::
  "uint16 \<Rightarrow> (unit \<Rightarrow> nl_error + byte list) \<Rightarrow> AttributeEncoder \<Rightarrow> AttributeEncoder" where
  "ae_Do typ fn ae =
     (if aeErr ae \<noteq> None then ae
      else case fn () of Inl e \<Rightarrow> ae\<lparr>aeErr := Some e\<rparr> | Inr b \<Rightarrow> ae_append typ b ae)"

definition ae_Encode :: "byte_order \<Rightarrow> AttributeEncoder \<Rightarrow> (nl_error + byte list) option" where
  "ae_Encode host ae =
     (case aeErr ae of Some e \<Rightarrow> Some (Inl e) | None \<Rightarrow> MarshalAttributes host (aeAttrs ae))"

subsection \<open>Layout of packed attributes\<close>

definition attr_pad :: "nat \<Rightarrow> nat" where
  "attr_pad n = nat (nlaAlign (int n)) - n"

definition attr_bytes :: "byte_order \<Rightarrow> Attribute \<Rightarrow> byte list" where
  "attr_bytes host a =
     store_word host 2 (aLength a) @ store_word host 2 (aType a) @ aData a @
     replicate (attr_pad (length (aData a))) 0"

definition fits :: "Attribute \<Rightarrow> bool" where
  \<comment> \<open>the length field is left to be inferred, or says the truth\<close>
  "fits a \<longleftrightarrow> length (aData a) + 4 < 2 ^ 16 \<and>
     (aLength a = 0 \<or> unat (aLength a) = length (aData a) + 4)"

lemma nat_nlaAlign: "nat (nlaAlign (int n)) = n + attr_pad n"
  using nlaAlign_ge [of "int n"] by (simp add: attr_pad_def)

lemma nlaAlign_add_4: "nlaAlign (n + 4) = nlaAlign n + 4"
  unfolding nlaAlign_eq by presburger

lemma length_attr_bytes: "length (attr_bytes host a) = 4 + nat (nlaAlign (int (length (aData a))))"
  by (simp add: attr_bytes_def nat_nlaAlign)

lemma nlaAlign_nonneg: "0 \<le> n \<Longrightarrow> 0 \<le> nlaAlign n"
  using nlaAlign_ge [of n] by linarith

lemma marshal_count_nonneg: "0 \<le> marshal_count attrs"
  by (induction attrs) (simp_all add: nlaAlign_nonneg)

lemma nat_marshal_count_Cons:
  "nat (marshal_count (a # as)) =
     4 + nat (nlaAlign (int (length (aData a)))) + nat (marshal_count as)"
  using marshal_count_nonneg [of as] nlaAlign_nonneg [of "int (length (aData a))"] by simp

lemma inferLength_data [simp]: "aData (inferLength a) = aData a" "aType (inferLength a) = aType a"
  by (simp_all add: inferLength_def)

lemma fits_inferLength: "fits a \<Longrightarrow> unat (aLength (inferLength a)) = length (aData a) + 4"
proof -
  assume f: "fits a"
  have "word_of_int (nlaHeaderLen + int (length (aData a))) = (of_nat (length (aData a) + 4) :: uint16)"
    by simp
  with f show ?thesis
    by (auto simp: fits_def inferLength_def unat_of_nat take_bit_eq_mod simp del: of_nat_add)
qed

lemma Attribute_marshal_layout:
  assumes "4 \<le> unat (aLength a)" and "length (aData a) \<le> k"
  shows "Attribute_marshal host a (replicate (4 + k) 0) =
    Some (Inr (4 + nlaAlign (int (length (aData a))),
      store_word host 2 (aLength a) @ store_word host 2 (aType a) @ aData a @
      replicate (k - length (aData a)) 0))"
proof -
  let ?L = "store_word host 2 (aLength a)" and ?T = "store_word host 2 (aType a)"
  have g: "\<not> uint (aLength a) < nlaHeaderLen"
    using assms(1) by (metis nlaHeaderLen_eq not_less of_nat_le_iff of_nat_numeral uint_nat)
  have s1: "put_slice 0 2 (PutUint16 host (aLength a)) (replicate (4 + k) 0) =
      Some (?L @ replicate (2 + k) 0)"
    using put_slice_replicate [of "PutUint16 host (aLength a)" 2 0 0 ?L "[]" "4 + k"]
    by (simp add: PutUint16_def)
  have s2: "put_slice 2 4 (PutUint16 host (aType a)) (?L @ replicate (2 + k) 0) =
      Some (?L @ ?T @ replicate k 0)"
    using put_slice_replicate [of "PutUint16 host (aType a)" 4 2 0 ?T ?L "2 + k"]
    by (simp add: PutUint16_def)
  show ?thesis
    unfolding Attribute_marshal_def if_not_P [OF g] s1 s2 Option.bind.simps Let_def
    using assms(2) by (simp add: copy_count_def go_copy_def Let_def min_def)
qed

lemma marshal_loop_layout:
  assumes "\<forall>a \<in> set as. fits a" and "length pre = idx"
  shows "marshal_loop host as idx (pre @ replicate (nat (marshal_count as)) 0) =
    Some (Inr (pre @ concat (map (attr_bytes host \<circ> inferLength) as)))"
  using assms
proof (induction as arbitrary: pre idx)
  case Nil
  then show ?case by simp
next
  case (Cons a as)
  let ?n = "length (aData a)" and ?c = "nat (marshal_count as)"
  let ?k = "nat (nlaAlign (int ?n)) + ?c"
  have len: "4 \<le> unat (aLength (inferLength a))" and k: "?n \<le> ?k"
    using Cons.prems(1) fits_inferLength [of a] by (simp_all add: nat_nlaAlign)
  have rest: "?k - ?n = attr_pad ?n + ?c"
    by (simp add: nat_nlaAlign)
  have m: "Attribute_marshal host (inferLength a) (replicate (4 + ?k) 0) =
      Some (Inr (4 + nlaAlign (int ?n), attr_bytes host (inferLength a) @ replicate ?c 0))"
    using Attribute_marshal_layout [of "inferLength a" ?k host] len k
    by (simp add: rest attr_bytes_def replicate_add)
  have idx: "length (pre @ attr_bytes host (inferLength a)) = idx + nat (4 + nlaAlign (int ?n))"
    using Cons.prems(2) nlaAlign_nonneg [of "int ?n"] by (simp add: length_attr_bytes)
  have c: "nat (marshal_count (a # as)) = 4 + ?k"
    by (simp only: nat_marshal_count_Cons add.assoc)
  show ?case
    using Cons.IH [OF _ idx] Cons.prems
    by (simp add: c m del: marshal_count.simps)
qed

lemma MarshalAttributes_layout:
  "\<forall>a \<in> set attrs. fits a \<Longrightarrow>
   MarshalAttributes host attrs = Some (Inr (concat (map (attr_bytes host \<circ> inferLength) attrs)))"
  using marshal_loop_layout [of attrs "[]" 0] by (simp add: MarshalAttributes_def)

subsection \<open>Unpacking\<close>

lemma Attribute_unmarshal_layout:
  assumes "unat (aLength a) = length (aData a) + 4"
  shows "Attribute_unmarshal host a0 (attr_bytes host a @ rest) = Some (a0\<lparr>aLength := aLength a,
    aType := aType a, aData := aData a\<rparr>, None)"
proof -
  have nz: "aLength a \<noteq> 0" using assms by auto
  have ui: "uint (aLength a) = int (length (aData a)) + 4"
    using assms by (metis of_nat_add of_nat_numeral uint_nat)
  have sl: "slice 4 (length (aData a) + 4) (attr_bytes host a @ rest) = aData a"
    by (simp add: attr_bytes_def slice_def)
  show ?thesis
    by (simp add: Attribute_unmarshal_def nz ui assms sl length_attr_bytes nat_nlaAlign Let_def)
      (simp add: attr_bytes_def slice_append_left slice_append_right Uint16_def go_copy_def nz ui
        assms Let_def)
qed

lemma unmarshal_loop_layout:
  assumes "\<forall>a \<in> set as. unat (aLength a) = length (aData a) + 4"
  shows "unmarshal_loop host (pre @ concat (map (attr_bytes host) as)) (length pre) acc =
    Some (Inr (acc @ as))"
  using assms
proof (induction as arbitrary: pre acc)
  case Nil
  then show ?case by (simp add: unmarshal_loop.simps)
next
  case (Cons a as)
  let ?rest = "concat (map (attr_bytes host) as)"
  let ?b = "pre @ concat (map (attr_bytes host) (a # as))"
  have ui: "uint (aLength a) = int (length (aData a)) + 4" and nz: "aLength a \<noteq> 0"
    using Cons.prems by (simp_all, metis of_nat_add of_nat_numeral uint_nat, auto)
  have eq: "emptyAttribute\<lparr>aLength := aLength a, aType := aType a, aData := aData a\<rparr> = a"
    by (simp add: emptyAttribute_def)
  have st: "length pre + nat (nlaAlign (uint (aLength a))) = length (pre @ attr_bytes host a)"
    using nlaAlign_nonneg [of "int (length (aData a))"]
    by (simp add: ui nlaAlign_add_4 length_attr_bytes nat_add_distrib)
  have "unmarshal_loop host ?b (length pre) acc =
      unmarshal_loop host ?b (length (pre @ attr_bytes host a)) (acc @ [a])"
    unfolding unmarshal_loop.simps [of host ?b "length pre"] st [symmetric]
    using Cons.prems nz Attribute_unmarshal_layout [of a host emptyAttribute ?rest, unfolded eq]
    by (simp add: attr_bytes_def)
  also have "\<dots> = Some (Inr (acc @ a # as))"
    using Cons.IH [of "pre @ attr_bytes host a" "acc @ [a]"] Cons.prems by simp
  finally show ?case .
qed

lemma Attribute_unmarshal_total: "Attribute_unmarshal host a b \<noteq> None"
proof (cases "length b < 4")
  case False
  then show ?thesis
    by (auto simp: Attribute_unmarshal_def Uint16_def get_slice_def Let_def
        int_less_uint_iff uint_less_numeral_iff split: if_splits)
qed (simp add: Attribute_unmarshal_def)

lemma Attribute_unmarshal_sound:
  assumes "Attribute_unmarshal host a b = Some (a', None)"
  shows "aLength a' = 0 \<and> aData a' = [] \<or> unat (aLength a') = length (aData a') + 4"
proof (cases "length b < 4")
  case True
  with assms show ?thesis by (simp add: Attribute_unmarshal_def)
next
  case False
  with assms show ?thesis
    by (auto simp: Attribute_unmarshal_def Uint16_def get_slice_def Let_def
        int_less_uint_iff uint_less_numeral_iff go_copy_def split: if_splits)
qed

lemma unmarshal_loop_done: "length b \<le> i \<Longrightarrow> unmarshal_loop host b i attrs = Some (Inr attrs)"
  by (subst unmarshal_loop.simps) auto

lemma unmarshal_loop_step:
  assumes "i < length b" and "Attribute_unmarshal host emptyAttribute (drop i b) = Some (a, r)"
  shows "unmarshal_loop host b i attrs =
    (case r of Some e \<Rightarrow> Some (Inl e)
     | None \<Rightarrow> if aLength a = 0 then unmarshal_loop host b (i + 4) attrs
         else unmarshal_loop host b (i + nat (nlaAlign (uint (aLength a)))) (attrs @ [a]))"
  using assms by (subst unmarshal_loop.simps) (auto split: option.splits)

lemma unmarshal_loop_total: "unmarshal_loop host b i attrs \<noteq> None"
proof (induction host b i attrs rule: unmarshal_loop.induct)
  case (1 host b i attrs)
  show ?case
  proof (cases "length b \<le> i")
    case True
    then show ?thesis by (simp add: unmarshal_loop_done)
  next
    case False
    obtain a r where "Attribute_unmarshal host emptyAttribute (drop i b) = Some (a, r)"
      using Attribute_unmarshal_total [of host emptyAttribute "drop i b"] by fastforce
    with False 1 show ?thesis by (auto simp: unmarshal_loop_step split: option.split)
  qed
qed

definition sized :: "Attribute \<Rightarrow> bool" where
  "sized a \<longleftrightarrow> unat (aLength a) = length (aData a) + 4"

lemma unmarshal_loop_sized:
  assumes "\<forall>a \<in> set attrs. sized a" and "unmarshal_loop host b i attrs = Some (Inr as)"
  shows "\<forall>a \<in> set as. sized a"
  using assms
proof (induction "Suc (length b) - i" arbitrary: i attrs rule: less_induct)
  case less
  show ?case
  proof (cases "length b \<le> i")
    case True
    with less.prems show ?thesis by (simp add: unmarshal_loop_done)
  next
    case False
    then have i: "i < length b" by simp
    obtain a r where a: "Attribute_unmarshal host emptyAttribute (drop i b) = Some (a, r)"
      using Attribute_unmarshal_total [of host emptyAttribute "drop i b"] by fastforce
    note st = unmarshal_loop_step [OF i a, of attrs]
    with less.prems(2) have r: "r = None" by (auto split: option.splits)
    show ?thesis
    proof (cases "aLength a = 0")
      case True
      with st r less.prems(2) have "unmarshal_loop host b (i + 4) attrs = Some (Inr as)" by simp
      with less.hyps [of "i + 4" attrs] less.prems(1) i show ?thesis by simp
    next
      case nz: False
      let ?j = "i + nat (nlaAlign (uint (aLength a)))"
      have "i < ?j" using nlaAlign_pos [OF uint_pos [OF nz]] by simp
      with i have j: "Suc (length b) - ?j < Suc (length b) - i" by linarith
      have sz: "sized a"
        using Attribute_unmarshal_sound [of host emptyAttribute "drop i b" a] a r nz
        by (auto simp: sized_def)
      have "unmarshal_loop host b ?j (attrs @ [a]) = Some (Inr as)"
        using st r nz less.prems(2) by simp
      from less.hyps [OF j _ this] less.prems(1) sz show ?thesis by auto
    qed
  qed
qed

lemma UnmarshalAttributes_sized:
  "UnmarshalAttributes host b = Some (Inr as) \<Longrightarrow> a \<in> set as \<Longrightarrow>
   unat (aLength a) = length (aData a) + 4"
  using unmarshal_loop_sized [of "[]" host b 0] by (auto simp: UnmarshalAttributes_def sized_def)

lemma Attribute_unmarshal_error:
  "Attribute_unmarshal host a b = Some (a', Some e) \<Longrightarrow> e = errInvalidAttribute"
  by (auto simp: Attribute_unmarshal_def Let_def bind_eq_Some_conv split: if_splits)

lemma unmarshal_loop_error:
  "unmarshal_loop host b i attrs = Some (Inl e) \<Longrightarrow> e = errInvalidAttribute"
proof (induction host b i attrs rule: unmarshal_loop.induct)
  case (1 host b i attrs)
  show ?case
  proof (cases "length b \<le> i")
    case True
    with 1(3) show ?thesis by (simp add: unmarshal_loop_done)
  next
    case False
    then have i: "i < length b" by simp
    obtain a r where a: "Attribute_unmarshal host emptyAttribute (drop i b) = Some (a, r)"
      using Attribute_unmarshal_total [of host emptyAttribute "drop i b"] by fastforce
    with i 1 show ?thesis
      by (auto simp: unmarshal_loop_step [OF i a] Attribute_unmarshal_error
          split: option.splits if_splits)
  qed
qed

lemma UnmarshalAttributes_error:
  "UnmarshalAttributes host b = Some (Inl e) \<Longrightarrow> e = errInvalidAttribute"
  unfolding UnmarshalAttributes_def by (rule unmarshal_loop_error)

subsection \<open>Encoding and decoding sessions\<close>

text \<open>A client's use of the two classes: a list of typed values goes through the encoder's
  methods in order, and the decoder is driven by \<open>Next\<close> and the accessor of each value's type.\<close>

datatype attr_value =
    VUint8 byte | VUint16 uint16 | VUint32 uint32 | VUint64 uint64
  | VString "byte list" | VBytes "byte list"

fun encode_value :: "uint16 \<times> attr_value \<Rightarrow> AttributeEncoder \<Rightarrow> AttributeEncoder" where
  "encode_value (t, VUint8 v) = ae_Uint8 t v"
| "encode_value (t, VUint16 v) = ae_Uint16 t v"
| "encode_value (t, VUint32 v) = ae_Uint32 t v"
| "encode_value (t, VUint64 v) = ae_Uint64 t v"
| "encode_value (t, VString v) = ae_String t v"
| "encode_value (t, VBytes v) = ae_Bytes t v"

fun decode_value :: "attr_value \<Rightarrow> AttributeDecoder \<Rightarrow> (attr_value \<times> AttributeDecoder) option" where
  "decode_value (VUint8 _) ad = map_option (\<lambda>(v, ad). (VUint8 v, ad)) (ad_Uint8 ad)"
| "decode_value (VUint16 _) ad = map_option (\<lambda>(v, ad). (VUint16 v, ad)) (ad_Uint16 ad)"
| "decode_value (VUint32 _) ad = map_option (\<lambda>(v, ad). (VUint32 v, ad)) (ad_Uint32 ad)"
| "decode_value (VUint64 _) ad = map_option (\<lambda>(v, ad). (VUint64 v, ad)) (ad_Uint64 ad)"
| "decode_value (VString _) ad = map_option (\<lambda>v. (VString v, ad)) (ad_String ad)"
| "decode_value (VBytes _) ad = map_option (\<lambda>v. (VBytes v, ad)) (ad_Bytes ad)"

fun decode_values ::
  "attr_value list \<Rightarrow> AttributeDecoder \<Rightarrow> ((uint16 \<times> attr_value) list \<times> AttributeDecoder) option"
  where
  "decode_values [] ad = Some ([], ad)"
| "decode_values (k # ks) ad =
     (let (more, ad) = ad_Next ad
      in if \<not> more then None
         else do {
           t \<leftarrow> ad_Type ad;
           (v, ad) \<leftarrow> decode_value k ad;
           (vs, ad) \<leftarrow> decode_values ks ad;
           Some ((t, v) # vs, ad)
         })"

fun value_bytes :: "byte_order \<Rightarrow> attr_value \<Rightarrow> byte list" where
  "value_bytes bo (VUint8 v) = [v]"
| "value_bytes bo (VUint16 v) = store_word bo 2 v"
| "value_bytes bo (VUint32 v) = store_word bo 4 v"
| "value_bytes bo (VUint64 v) = store_word bo 8 v"
| "value_bytes bo (VString s) = s @ [0]"
| "value_bytes bo (VBytes b) = b"

fun value_ok :: "attr_value \<Rightarrow> bool" where
  "value_ok (VString s) \<longleftrightarrow> (s = [] \<or> last s \<noteq> 0) \<and> length s + 5 < 2 ^ 16"
| "value_ok (VBytes b) \<longleftrightarrow> length b + 4 < 2 ^ 16"
| "value_ok _ \<longleftrightarrow> True"

definition value_attr :: "byte_order \<Rightarrow> uint16 \<times> attr_value \<Rightarrow> Attribute" where
  "value_attr bo tv = \<lparr>aLength = 0, aType = fst tv, aData = value_bytes bo (snd tv)\<rparr>"

lemma fits_value_attr: "value_ok (snd tv) \<Longrightarrow> fits (value_attr bo tv)"
  by (cases tv; cases "snd tv") (auto simp: fits_def value_attr_def)

lemma encode_value_append:
  "aeErr ae = None \<Longrightarrow>
   encode_value tv ae = ae\<lparr>aeAttrs := aeAttrs ae @ [value_attr (aeByteOrder ae) tv]\<rparr>"
  by (cases tv; cases "snd tv")
    (auto simp: ae_Uint8_def ae_Uint16_def ae_Uint32_def ae_Uint64_def ae_String_def ae_Bytes_def
      ae_append_def value_attr_def Bytes_def)

lemma fold_encode_value:
  "aeErr ae = None \<Longrightarrow>
   fold encode_value tvs ae = ae\<lparr>aeAttrs := aeAttrs ae @ map (value_attr (aeByteOrder ae)) tvs\<rparr>"
  by (induction tvs arbitrary: ae) (simp_all add: encode_value_append)

lemma decode_value_correct:
  assumes "adErr ad = None" and "ad_attr ad = Some a" and "value_ok v"
    and "aData a = value_bytes (adByteOrder ad) v"
  shows "decode_value v ad = Some (v, ad)"
  using assms String_Bytes [unfolded Bytes_def]
  by (cases v)
    (auto simp: ad_Uint8_def ad_Uint16_def ad_Uint32_def ad_Uint64_def ad_uint_def ad_String_def
      ad_Bytes_def ad_data_def ad_Type_def go_index_def go_copy_def)

lemma decode_values_correct:
  assumes "adErr ad = None" and "\<forall>tv \<in> set tvs. value_ok (snd tv)"
    and "drop (adI ad) (adAttrs ad) = map (inferLength \<circ> value_attr (adByteOrder ad)) tvs"
  shows "decode_values (map snd tvs) ad = Some (tvs, ad\<lparr>adI := adI ad + length tvs\<rparr>)"
  using assms
proof (induction tvs arbitrary: ad)
  case Nil
  then show ?case by simp
next
  case (Cons tv tvs)
  let ?ad = "ad\<lparr>adI := adI ad + 1\<rparr>" and ?a = "inferLength (value_attr (adByteOrder ad) tv)"
  from Cons.prems(3) have d: "drop (adI ad) (adAttrs ad) =
      ?a # map (inferLength \<circ> value_attr (adByteOrder ad)) tvs" by simp
  then have i: "adI ad < length (adAttrs ad)" by (cases "adI ad < length (adAttrs ad)") auto
  from d i have a: "adAttrs ad ! adI ad = ?a"
    and rest: "drop (Suc (adI ad)) (adAttrs ad) = map (inferLength \<circ> value_attr (adByteOrder ad)) tvs"
    by (simp_all add: Cons_nth_drop_Suc [symmetric])
  from i a have att: "ad_attr ?ad = Some ?a"
    by (simp add: ad_attr_def go_index_def)
  have "decode_value (snd tv) ?ad = Some (snd tv, ?ad)"
    using Cons.prems att by (intro decode_value_correct [where a = ?a]) (auto simp: value_attr_def)
  moreover have "decode_values (map snd tvs) ?ad = Some (tvs, ?ad\<lparr>adI := adI ?ad + length tvs\<rparr>)"
    using Cons.prems rest by (intro Cons.IH) auto
  ultimately show ?case
    using Cons.prems(1) i att by (simp add: ad_Next_def Let_def ad_Type_def value_attr_def)
qed

subsection \<open>Properties\<close>

text \<open>C3. Packing attributes whose data fits the 16-bit length field, with the length left to be
  inferred or set correctly, succeeds; unpacking the bytes returns the same attributes, in order,
  with their lengths filled in.\<close>
theorem attributes_roundtrip:
  assumes "\<forall>a \<in> set attrs. fits a"
  shows "\<exists>b. MarshalAttributes host attrs = Some (Inr b) \<and>
    int (length b) = marshal_count attrs \<and>
    UnmarshalAttributes host b = Some (Inr (map inferLength attrs))"
proof -
  let ?b = "concat (map (attr_bytes host) (map inferLength attrs))"
  have "UnmarshalAttributes host ?b = Some (Inr (map inferLength attrs))"
    unfolding UnmarshalAttributes_def
    using unmarshal_loop_layout [of "map inferLength attrs" host "[]" "[]"] assms fits_inferLength
    by simp
  moreover have "int (length ?b) = marshal_count attrs"
    by (induction attrs) (simp_all add: length_attr_bytes nlaAlign_nonneg)
  ultimately show ?thesis
    using MarshalAttributes_layout [OF assms, of host] by (auto simp: comp_def)
qed

theorem attributes_roundtrip_witness:
  "\<exists>b. MarshalAttributes BigEndian [\<lparr>aLength = 0, aType = 1, aData = [7, 8, 9]\<rparr>] = Some (Inr b) \<and>
    int (length b) = 8 \<and>
    UnmarshalAttributes BigEndian b = Some (Inr [\<lparr>aLength = 7, aType = 1, aData = [7, 8, 9]\<rparr>])"
  using attributes_roundtrip [of "[\<lparr>aLength = 0, aType = 1, aData = [7, 8, 9]\<rparr>]" BigEndian]
  by (simp add: fits_def inferLength_def nlaAlign_eq)

text \<open>C4. Unpacking terminates without a panic on every input, and every attribute it returns
  carries exactly the number of data bytes that its length field announces.\<close>
theorem unmarshal_attributes_total:
  "\<exists>r. UnmarshalAttributes host b = Some r \<and>
     (case r of Inl e \<Rightarrow> e = errInvalidAttribute
      | Inr as \<Rightarrow> list_all (\<lambda>a. unat (aLength a) = length (aData a) + 4) as)"
proof -
  from unmarshal_loop_total [of host b 0 "[]"] obtain r where r: "UnmarshalAttributes host b = Some r"
    by (auto simp: UnmarshalAttributes_def)
  then show ?thesis
    using UnmarshalAttributes_sized [of host b] UnmarshalAttributes_error [of host b]
    by (cases r) (auto simp: list_all_iff)
qed

text \<open>An attribute with 64 KiB of data or more and an inferred length is packed without an
  error, although its length field wraps around: unpacking the bytes can never return it.\<close>
lemma oversized_attribute_accepted:
  assumes "aLength a = 0" and "2 ^ 16 \<le> length (aData a)" and "length (aData a) mod 2 ^ 16 < 2 ^ 16 - 4"
  shows "\<exists>b. MarshalAttributes host [a] = Some (Inr b) \<and>
    \<not> (\<exists>as. UnmarshalAttributes host b = Some (Inr as) \<and> aData a \<in> aData ` set as)"
proof -
  let ?n = "length (aData a)"
  have "word_of_int (nlaHeaderLen + int ?n) = (of_nat (?n + 4) :: uint16)" by simp
  then have "unat (aLength (inferLength a)) = (?n + 4) mod 2 ^ 16"
    using assms(1) by (simp add: inferLength_def unat_of_nat take_bit_eq_mod del: of_nat_add)
  also have "\<dots> = ?n mod 2 ^ 16 + 4" using assms(3) by (simp add: mod_add_eq [symmetric, of ?n])
  finally have "4 \<le> unat (aLength (inferLength a))" by simp
  from Attribute_marshal_layout [OF this, of "nat (nlaAlign (int ?n))" host]
  have "\<exists>b. MarshalAttributes host [a] = Some (Inr b)"
    using nlaAlign_nonneg [of "int ?n"]
    by (simp add: MarshalAttributes_def nat_marshal_count_Cons nat_nlaAlign del: marshal_count.simps)
      (simp add: nat_nlaAlign)
  moreover have "aData a \<noteq> aData a'" if "unat (aLength a') = length (aData a') + 4" for a'
  proof -
    have "length (aData a') < 2 ^ 16"
      using unsigned_less [of "aLength a'", where 'a = nat] that by simp
    with assms(2) show ?thesis by (metis not_less)
  qed
  ultimately show ?thesis
    using UnmarshalAttributes_sized [of host] by fastforce
qed

text \<open>A client that encodes typed values and decodes the bytes by asking for the same types
  reads every value and type back in order, hits no error, and finds no further attribute.\<close>
lemma encoder_decoder_session:
  assumes "\<forall>tv \<in> set tvs. value_ok (snd tv)"
  shows "\<exists>ae b ad ad'.
    NewAttributeEncoder host = Some ae \<and>
    ae_Encode host (fold encode_value tvs ae) = Some (Inr b) \<and>
    NewAttributeDecoder host b = Some (Inr ad) \<and>
    decode_values (map snd tvs) ad = Some (tvs, ad') \<and>
    ad_Err ad' = None \<and> fst (ad_Next ad') = False"
proof -
  let ?ae = "\<lparr>aeByteOrder = host, aeAttrs = [], aeErr = None\<rparr>"
  let ?as = "map (value_attr host) tvs"
  have fit: "\<forall>a \<in> set ?as. fits a" using assms fits_value_attr by auto
  let ?b = "concat (map (attr_bytes host \<circ> inferLength) ?as)"
  let ?ad = "\<lparr>adByteOrder = host, adAttrs = map inferLength ?as, adI = 0, adErr = None\<rparr>"
  have un: "UnmarshalAttributes host ?b = Some (Inr (map inferLength ?as))"
    using unmarshal_loop_layout [of "map inferLength ?as" host "[]" "[]"] fit fits_inferLength
    by (simp add: UnmarshalAttributes_def comp_def)
  have "NewAttributeEncoder host = Some ?ae"
    by (simp add: NewAttributeEncoder_def NativeEndian_host)
  moreover have "ae_Encode host (fold encode_value tvs ?ae) = Some (Inr ?b)"
    using MarshalAttributes_layout [OF fit] by (simp add: fold_encode_value ae_Encode_def)
  moreover have "NewAttributeDecoder host ?b = Some (Inr ?ad)"
    using un by (simp add: NewAttributeDecoder_def NativeEndian_host)
  moreover have "decode_values (map snd tvs) ?ad = Some (tvs, ?ad\<lparr>adI := 0 + length tvs\<rparr>)"
    using decode_values_correct [of ?ad tvs] assms by (simp add: comp_def)
  ultimately show ?thesis by (fastforce simp: ad_Err_def ad_Next_def Let_def)
qed

end
