(* ===== verification/NlConn.thy ===== *)
theory NlConn
  imports NlMessage
begin

unbundle bit_operations_syntax

text \<open>
  \<^verbatim>\<open>netlink-client/conn.go\<close>: a connection over an operating-system socket. The interface
  \<open>Socket\<close> is a record of operations on a socket state \<open>'s\<close>; an operation that blocks for ever
  or panics is \<open>None\<close>. The optional interfaces that \<open>Conn\<close> finds by type assertion
  (\<open>groupJoinLeaver\<close> and so on) are optional fields.

  \<open>Conn.mu\<close> serialises \<open>Execute\<close> against the other operations, so one call is one transition of
  the connection state. The debugger only prints and is left out.

  The loop of \<open>receive\<close> goes on for as long as the peer announces more parts: it is a
  \<^theory_text>\<open>partial_function\<close>, and the locale \<open>draining_socket\<close> states what a socket must promise for
  it to return.
\<close>

subsection \<open>Sockets\<close>

type_synonym ('r, 's) call = "'s \<Rightarrow> ('r \<times> 's) option"

record 's Socket =
  sockClose :: "(nl_error option, 's) call"
  sockSend :: "Message \<Rightarrow> (nl_error option, 's) call"
  sockSendMessages :: "Message list \<Rightarrow> (nl_error option, 's) call"
  sockReceive :: "(nl_error + Message list, 's) call"
  sockJoinGroup :: "(uint32 \<Rightarrow> (nl_error option, 's) call) option"
  sockLeaveGroup :: "(uint32 \<Rightarrow> (nl_error option, 's) call) option"
  sockSetBPF :: "(uint64 list \<Rightarrow> (nl_error option, 's) call) option"
  sockRemoveBPF :: "((nl_error option, 's) call) option"
  sockSetDeadline :: "(int \<Rightarrow> (nl_error option, 's) call) option"
  sockSetReadDeadline :: "(int \<Rightarrow> (nl_error option, 's) call) option"
  sockSetWriteDeadline :: "(int \<Rightarrow> (nl_error option, 's) call) option"
  sockSetOption :: "(int \<Rightarrow> bool \<Rightarrow> (nl_error option, 's) call) option"
  sockSetReadBuffer :: "(int \<Rightarrow> (nl_error option, 's) call) option"
  sockSetWriteBuffer :: "(int \<Rightarrow> (nl_error option, 's) call) option"

record 's Conn =
  connSock :: 's
  connSeq :: uint32
  connPid :: uint32

definition NewConn :: "'s \<Rightarrow> uint32 \<Rightarrow> uint32 \<Rightarrow> 's Conn" where
  \<comment> \<open>\<open>seed\<close> is the random number that starts the sequence\<close>
  "NewConn sock pid seed = \<lparr>connSock = sock, connSeq = seed, connPid = pid\<rparr>"

definition on_sock :: "('r, 's) call \<Rightarrow> ('r, 's Conn) call" where
  "on_sock f c = map_option (\<lambda>(r, s). (r, c\<lparr>connSock := s\<rparr>)) (f (connSock c))"

definition wrap_op :: "string \<Rightarrow> (nl_error option, 's) call \<Rightarrow> (nl_error option, 's Conn) call" where
  "wrap_op oper f c = map_option (\<lambda>(e, c). (newOpError oper e, c)) (on_sock f c)"

definition Conn_Close :: "'s Socket \<Rightarrow> (nl_error option, 's Conn) call" where
  "Conn_Close ops = wrap_op ''close'' (sockClose ops)"

subsection \<open>Sending\<close>

definition nextSequence :: "'s Conn \<Rightarrow> uint32 \<times> 's Conn" where
  "nextSequence c = (let q = connSeq c + 1 in (q, c\<lparr>connSeq := q\<rparr>))"

definition fixMsg :: "Message \<Rightarrow> int \<Rightarrow> 's Conn \<Rightarrow> Message \<times> 's Conn" where
  "fixMsg m ml c =
     (let h = mHeader m;
          h = (if hLength h = 0 then h\<lparr>hLength := word_of_int (nlmsgAlign ml)\<rparr> else h);
          (q, c) = (if hSequence h = 0 then nextSequence c else (hSequence h, c));
          h = h\<lparr>hSequence := q\<rparr>;
          h = (if hPID h = 0 then h\<lparr>hPID := connPid c\<rparr> else h)
      in (m\<lparr>mHeader := h\<rparr>, c))"

definition lockedSend :: "'s Socket \<Rightarrow> Message \<Rightarrow> (nl_error + Message, 's Conn) call" where
  "lockedSend ops message c =
     (let ml = nlmsgLength (int (length (mData message)))
      in if ml > 1024 * 32 then Some (Inl errDataTooLarge, c)
         else let (message, c) = fixMsg message ml c
              in do {
                (e, c) \<leftarrow> on_sock (sockSend ops message) c;
                Some (case e of Some err \<Rightarrow> Inl (OpError ''send'' err) | None \<Rightarrow> Inr message, c)
              })"

definition Send :: "'s Socket \<Rightarrow> Message \<Rightarrow> (nl_error + Message, 's Conn) call" where
  "Send ops message c = lockedSend ops message c"

fun fix_loop :: "Message list \<Rightarrow> 's Conn \<Rightarrow> bool \<times> Message list \<times> 's Conn" where
  \<comment> \<open>the slice is updated in place: the messages before a failure stay fixed up\<close>
  "fix_loop [] c = (True, [], c)"
| "fix_loop (m # ms) c =
     (let ml = nlmsgLength (int (length (mData m)))
      in if ml > 1024 * 32 then (False, m # ms, c)
         else let (m, c) = fixMsg m ml c; (ok, ms, c) = fix_loop ms c in (ok, m # ms, c))"

definition SendMessages ::
  "'s Socket \<Rightarrow> Message list \<Rightarrow> ((nl_error + Message list) \<times> Message list, 's Conn) call" where
  \<comment> \<open>the result and the caller's slice afterwards\<close>
  "SendMessages ops messages c =
     (let (ok, messages, c) = fix_loop messages c
      in if \<not> ok then Some ((Inl errDataTooLarge, messages), c)
         else do {
           (e, c) \<leftarrow> on_sock (sockSendMessages ops messages) c;
           Some ((case e of Some err \<Rightarrow> Inl (OpError ''send-messages'' err) | None \<Rightarrow> Inr messages,
                  messages), c)
         })"

subsection \<open>Receiving\<close>

fun scan_msgs :: "byte_order \<Rightarrow> Message list \<Rightarrow> bool \<Rightarrow> (nl_error + bool) option" where
  "scan_msgs host [] multi = Some (Inr multi)"
| "scan_msgs host (m # ms) multi = do {
     e \<leftarrow> checkMessage host m;
     (case e of
        Some err \<Rightarrow> Some (Inl err)
      | None \<Rightarrow>
          if hFlags (mHeader m) AND Multi = 0 then scan_msgs host ms multi
          else scan_msgs host ms (hType (mHeader m) \<noteq> Done))
   }"

partial_function (option) receive_loop ::
  "byte_order \<Rightarrow> 's Socket \<Rightarrow> Message list \<Rightarrow> 's Conn \<Rightarrow> ((nl_error + Message list) \<times> 's Conn) option"
  where
  "receive_loop host ops res c =
     Option.bind (on_sock (sockReceive ops) c) (\<lambda>(r, c).
       case r of
         Inl e \<Rightarrow> Some (Inl (OpError ''receive'' e), c)
       | Inr msgs \<Rightarrow>
           Option.bind (scan_msgs host msgs False) (\<lambda>q.
             case q of
               Inl e \<Rightarrow> Some (Inl e, c)
             | Inr multi \<Rightarrow>
                 if \<not> multi then Some (Inr (res @ msgs), c)
                 else receive_loop host ops (res @ msgs) c))"

definition Conn_receive :: "byte_order \<Rightarrow> 's Socket \<Rightarrow> (nl_error + Message list, 's Conn) call" where
  "Conn_receive host ops c = receive_loop host ops [] c"

definition trim_done :: "Message list \<Rightarrow> Message list" where
  "trim_done msgs =
     (if msgs = [] then msgs
      else if hFlags (mHeader (last msgs)) AND Multi \<noteq> 0 \<and> hType (mHeader (last msgs)) = Done
        then butlast msgs
      else msgs)"

definition lockedReceive :: "byte_order \<Rightarrow> 's Socket \<Rightarrow> (nl_error + Message list, 's Conn) call" where
  "lockedReceive host ops c = do {
     (r, c) \<leftarrow> Conn_receive host ops c;
     Some (case r of Inl e \<Rightarrow> Inl e | Inr msgs \<Rightarrow> Inr (trim_done msgs), c)
   }"

definition Receive :: "byte_order \<Rightarrow> 's Socket \<Rightarrow> (nl_error + Message list, 's Conn) call" where
  "Receive host ops c = lockedReceive host ops c"

subsection \<open>Request and response\<close>

fun Validate :: "Message \<Rightarrow> Message list \<Rightarrow> nl_error option" where
  "Validate request [] = None"
| "Validate request (m # replies) =
     (if hSequence (mHeader m) \<noteq> hSequence (mHeader request) \<and> hSequence (mHeader request) \<noteq> 0
      then newOpError ''validate'' (Some errMismatchedSequence)
      else if hPID (mHeader m) \<noteq> hPID (mHeader request) \<and> hPID (mHeader request) \<noteq> 0 \<and>
           hPID (mHeader m) \<noteq> 0
      then newOpError ''validate'' (Some errMismatchedPID)
      else Validate request replies)"

definition Execute ::
  "byte_order \<Rightarrow> 's Socket \<Rightarrow> Message \<Rightarrow> (nl_error + Message list, 's Conn) call" where
  "Execute host ops message c = do {
     (r, c) \<leftarrow> lockedSend ops message c;
     (case r of
        Inl e \<Rightarrow> Some (Inl e, c)
      | Inr req \<Rightarrow> do {
          (r, c) \<leftarrow> lockedReceive host ops c;
          (case r of
             Inl e \<Rightarrow> Some (Inl e, c)
           | Inr replies \<Rightarrow>
               Some (case Validate req replies of Some e \<Rightarrow> Inl e | None \<Rightarrow> Inr replies, c))
        })
   }"

subsection \<open>Optional operations\<close>

definition optional_op ::
  "string \<Rightarrow> (nl_error option, 's) call option \<Rightarrow> (nl_error option, 's Conn) call" where
  "optional_op oper f c =
     (case f of None \<Rightarrow> Some (notSupported oper, c) | Some f \<Rightarrow> wrap_op oper f c)"

definition JoinGroup :: "'s Socket \<Rightarrow> uint32 \<Rightarrow> (nl_error option, 's Conn) call" where
  "JoinGroup ops g = optional_op ''join-group'' (map_option (\<lambda>f. f g) (sockJoinGroup ops))"

definition LeaveGroup :: "'s Socket \<Rightarrow> uint32 \<Rightarrow> (nl_error option, 's Conn) call" where
  "LeaveGroup ops g = optional_op ''leave-group'' (map_option (\<lambda>f. f g) (sockLeaveGroup ops))"

definition SetBPF :: "'s Socket \<Rightarrow> uint64 list \<Rightarrow> (nl_error option, 's Conn) call" where
  "SetBPF ops prog = optional_op ''set-bpf'' (map_option (\<lambda>f. f prog) (sockSetBPF ops))"

definition RemoveBPF :: "'s Socket \<Rightarrow> (nl_error option, 's Conn) call" where
  "RemoveBPF ops = optional_op ''remove-bpf'' (sockRemoveBPF ops)"

definition SetDeadline :: "'s Socket \<Rightarrow> int \<Rightarrow> (nl_error option, 's Conn) call" where
  "SetDeadline ops t = optional_op ''set-deadline'' (map_option (\<lambda>f. f t) (sockSetDeadline ops))"

definition SetReadDeadline :: "'s Socket \<Rightarrow> int \<Rightarrow> (nl_error option, 's Conn) call" where
  "SetReadDeadline ops t =
     optional_op ''set-read-deadline'' (map_option (\<lambda>f. f t) (sockSetReadDeadline ops))"

definition SetWriteDeadline :: "'s Socket \<Rightarrow> int \<Rightarrow> (nl_error option, 's Conn) call" where
  "SetWriteDeadline ops t =
     optional_op ''set-write-deadline'' (map_option (\<lambda>f. f t) (sockSetWriteDeadline ops))"

definition SetOption :: "'s Socket \<Rightarrow> int \<Rightarrow> bool \<Rightarrow> (nl_error option, 's Conn) call" where
  "SetOption ops opt enable =
     optional_op ''set-option'' (map_option (\<lambda>f. f opt enable) (sockSetOption ops))"

definition SetReadBuffer :: "'s Socket \<Rightarrow> int \<Rightarrow> (nl_error option, 's Conn) call" where
  "SetReadBuffer ops n =
     optional_op ''set-read-buffer'' (map_option (\<lambda>f. f n) (sockSetReadBuffer ops))"

definition SetWriteBuffer :: "'s Socket \<Rightarrow> int \<Rightarrow> (nl_error option, 's Conn) call" where
  "SetWriteBuffer ops n =
     optional_op ''set-write-buffer'' (map_option (\<lambda>f. f n) (sockSetWriteBuffer ops))"

subsection \<open>Sequence numbers\<close>

lemma fixMsg_data [simp]: "mData (fst (fixMsg m ml c)) = mData m"
  by (simp add: fixMsg_def Let_def split: prod.split)

lemma fixMsg_frame [simp]:
  "connSock (snd (fixMsg m ml c)) = connSock c" "connPid (snd (fixMsg m ml c)) = connPid c"
  by (simp_all add: fixMsg_def nextSequence_def Let_def)

lemma fixMsg_sequence:
  "hSequence (mHeader (fst (fixMsg m ml c))) =
     (if hSequence (mHeader m) = 0 then connSeq c + 1 else hSequence (mHeader m))"
  "connSeq (snd (fixMsg m ml c)) =
     (if hSequence (mHeader m) = 0 then connSeq c + 1 else connSeq c)"
  by (simp_all add: fixMsg_def nextSequence_def Let_def)

lemma fixMsg_pid:
  "hPID (mHeader (fst (fixMsg m ml c))) =
     (if hPID (mHeader m) = 0 then connPid c else hPID (mHeader m))"
  by (simp add: fixMsg_def nextSequence_def Let_def)

lemma fixMsg_length:
  "hLength (mHeader (fst (fixMsg m ml c))) =
     (if hLength (mHeader m) = 0 then word_of_int (nlmsgAlign ml) else hLength (mHeader m))"
  by (simp add: fixMsg_def nextSequence_def Let_def)

lemmas fixMsg_fields = fixMsg_sequence fixMsg_pid fixMsg_length

lemma fix_loop_frame:
  "fix_loop ms c = (ok, ms', c') \<Longrightarrow> connSock c' = connSock c \<and> connPid c' = connPid c"
proof (induction ms arbitrary: c ok ms' c')
  case (Cons m ms)
  then show ?case
    by (auto simp: Let_def split: if_splits prod.splits)
      (metis fixMsg_frame snd_conv)+
qed simp

lemma fix_loop_sequences:
  assumes "fix_loop ms c = (True, ms', c')" and "\<forall>m \<in> set ms. hSequence (mHeader m) = 0"
  shows "map (\<lambda>m. hSequence (mHeader m)) ms' = map (\<lambda>i. connSeq c + 1 + of_nat i) [0..<length ms]"
  using assms
proof (induction ms arbitrary: c ms')
  case (Cons m ms)
  define ml where "ml = nlmsgLength (int (length (mData m)))"
  obtain m1 c1 where f: "fixMsg m ml c = (m1, c1)" by fastforce
  from Cons.prems(1) f obtain ms1 where l: "fix_loop ms c1 = (True, ms1, c')" and "ms' = m1 # ms1"
    by (auto simp: Let_def ml_def split: if_splits prod.splits)
  moreover have "hSequence (mHeader m1) = connSeq c + 1" "connSeq c1 = connSeq c + 1"
    using fixMsg_sequence [of m ml c] f Cons.prems(2) by auto
  moreover have "map (\<lambda>m. hSequence (mHeader m)) ms1 = map (\<lambda>i. connSeq c1 + 1 + of_nat i) [0..<length ms]"
    using Cons.IH [OF l] Cons.prems(2) by (simp add: comp_def)
  ultimately show ?case
    by (simp add: map_upt_Suc add.assoc del: upt_Suc)
qed simp

lemma distinct_sequences:
  assumes "n \<le> 2 ^ 32"
  shows "distinct (map (\<lambda>i. (q :: uint32) + of_nat i) [0..<n])"
proof -
  have "inj_on (\<lambda>i. q + of_nat i) {0..<n}"
  proof (rule inj_onI)
    fix i j assume i: "i \<in> {0..<n}" and j: "j \<in> {0..<n}" and "q + of_nat i = q + of_nat j"
    then have eq: "(of_nat i :: uint32) = of_nat j" by simp
    have il: "i < 2 ^ LENGTH(32)" and jl: "j < 2 ^ LENGTH(32)" using i j assms by simp_all
    from of_nat_inverse [OF eq il] have "unat (of_nat j :: uint32) = i" .
    moreover from of_nat_inverse [OF refl jl] have "unat (of_nat j :: uint32) = j" .
    ultimately show "i = j" by (rule trans [OF sym])
  qed
  then show ?thesis by (simp add: distinct_map)
qed

subsection \<open>Validation\<close>

lemma Validate_None_iff:
  "Validate request replies = None \<longleftrightarrow>
     (\<forall>m \<in> set replies.
        (hSequence (mHeader m) = hSequence (mHeader request) \<or> hSequence (mHeader request) = 0) \<and>
        (hPID (mHeader m) = hPID (mHeader request) \<or> hPID (mHeader request) = 0 \<or> hPID (mHeader m) = 0))"
  by (induction replies) auto

lemma Validate_contract: "is_OpError_or_nil (Validate request replies)"
  by (induction replies) (simp_all add: is_OpError_or_nil_def)

subsection \<open>The receive loop\<close>

lemma scan_msgs_total: "scan_msgs host ms multi \<noteq> None"
proof (induction ms arbitrary: multi)
  case (Cons m ms)
  then show ?case using checkMessage_total [of host m] by (auto split: option.split)
qed simp

lemma scan_msgs_contract: "scan_msgs host ms multi = Some (Inl e) \<Longrightarrow> is_OpError_or_nil (Some e)"
proof (induction ms arbitrary: multi)
  case (Cons m ms)
  from checkMessage_total [of host m] obtain r where r: "checkMessage host m = Some r" by blast
  with Cons checkMessage_contract [OF r] show ?case
    by (auto split: option.splits if_splits)
qed simp

lemma scan_msgs_clean:
  "scan_msgs host ms multi = Some (Inr b) \<Longrightarrow> m \<in> set ms \<Longrightarrow> checkMessage host m = Some None"
proof (induction ms arbitrary: multi)
  case (Cons m' ms)
  from checkMessage_total [of host m'] obtain r where r: "checkMessage host m' = Some r" by blast
  with Cons show ?case by (auto split: option.splits if_splits)
qed simp

definition op_result :: "(nl_error + 'a) \<times> 'b \<Rightarrow> bool" where
  "op_result y = (case fst y of Inl e \<Rightarrow> is_OpError_or_nil (Some e) | Inr _ \<Rightarrow> True)"

lemma receive_body_cases [consumes 1, case_names err bad last more]:
  assumes "Option.bind (on_sock (sockReceive ops) c) (\<lambda>(r, c).
       case r of
         Inl e \<Rightarrow> Some (Inl (OpError ''receive'' e), c)
       | Inr msgs \<Rightarrow>
           Option.bind (scan_msgs host msgs False) (\<lambda>q.
             case q of
               Inl e \<Rightarrow> Some (Inl e, c)
             | Inr multi \<Rightarrow>
                 if \<not> multi then Some (Inr (res @ msgs), c) else rl host ops (res @ msgs) c)) = Some y"
  obtains e c1 where "y = (Inl (OpError ''receive'' e), c1)"
    | ms e c1 where "scan_msgs host ms False = Some (Inl e)" "y = (Inl e, c1)"
    | ms c1 where "scan_msgs host ms False = Some (Inr False)" "y = (Inr (res @ ms), c1)"
    | ms c1 where "scan_msgs host ms False = Some (Inr True)" "rl host ops (res @ ms) c1 = Some y"
proof -
  obtain r c1 where r: "on_sock (sockReceive ops) c = Some (r, c1)"
    using assms by (cases "on_sock (sockReceive ops) c") auto
  show ?thesis
  proof (cases r)
    case (Inl e)
    with assms r that(1) show ?thesis by auto
  next
    case (Inr ms)
    obtain q where q: "scan_msgs host ms False = Some q" using scan_msgs_total by blast
    with assms r Inr that(2-4) show ?thesis by (cases q) (auto split: if_split_asm)
  qed
qed

lemma receive_loop_contract:
  assumes "receive_loop host ops res c = Some y"
  shows "op_result y"
proof (rule receive_loop.raw_induct [where P = "\<lambda>host ops res c y. op_result y", OF _ assms], goal_cases)
  case (1 rl host ops res c y)
  from 1(2) show ?case
  proof (cases rule: receive_body_cases)
    case (bad ms e c1)
    with scan_msgs_contract [OF bad(1)] show ?thesis by (simp add: op_result_def)
  next
    case (more ms c1)
    show ?thesis by (rule 1(1) [OF more(2)])
  qed (simp_all add: op_result_def is_OpError_or_nil_def)
qed

lemma receive_loop_clean_aux:
  assumes "receive_loop host ops res c = Some y"
  shows "(\<forall>m \<in> set res. checkMessage host m = Some None) \<longrightarrow>
    (case fst y of Inl e \<Rightarrow> True | Inr ms \<Rightarrow> \<forall>m \<in> set ms. checkMessage host m = Some None)"
proof (rule receive_loop.raw_induct [where P = "\<lambda>host ops res c y.
      (\<forall>m \<in> set res. checkMessage host m = Some None) \<longrightarrow>
      (case fst y of Inl e \<Rightarrow> True | Inr ms \<Rightarrow> \<forall>m \<in> set ms. checkMessage host m = Some None)",
      OF _ assms], goal_cases)
  case (1 rl host ops res c y)
  from 1(2) show ?case
  proof (cases rule: receive_body_cases)
    case (last ms c1)
    with scan_msgs_clean [OF last(1)] show ?thesis by auto
  next
    case (more ms c1)
    with 1(1) [OF more(2)] scan_msgs_clean [OF more(1)] show ?thesis by auto
  qed simp_all
qed

lemma receive_loop_clean:
  "receive_loop host ops [] c = Some (Inr ms, c') \<Longrightarrow> m \<in> set ms \<Longrightarrow> checkMessage host m = Some None"
  using receive_loop_clean_aux [of host ops "[]" c "(Inr ms, c')"] by simp

lemma receive_loop_more:
  assumes "sockReceive ops (connSock c) = Some (Inr ms, s)" and "scan_msgs host ms False = Some (Inr True)"
  shows "receive_loop host ops res c = receive_loop host ops (res @ ms) (c\<lparr>connSock := s\<rparr>)"
  using assms by (subst receive_loop.simps) (simp add: on_sock_def)

lemma receive_loop_last:
  assumes "sockReceive ops (connSock c) = Some (Inr ms, s)" and "scan_msgs host ms False = Some (Inr False)"
  shows "receive_loop host ops res c = Some (Inr (res @ ms), c\<lparr>connSock := s\<rparr>)"
  using assms by (subst receive_loop.simps) (simp add: on_sock_def)

lemma receive_loop_stop:
  assumes "sockReceive ops (connSock c) = Some (r, s)"
    and "case r of Inl e \<Rightarrow> True | Inr ms \<Rightarrow> scan_msgs host ms False \<noteq> Some (Inr True)"
  shows "\<exists>r'. receive_loop host ops res c = Some (r', c\<lparr>connSock := s\<rparr>)"
proof (cases r)
  case (Inl e)
  with assms(1) show ?thesis by (subst receive_loop.simps) (simp add: on_sock_def)
next
  case (Inr ms)
  obtain q where "scan_msgs host ms False = Some q" using scan_msgs_total by blast
  with assms Inr show ?thesis
    by (subst receive_loop.simps) (auto simp: on_sock_def split: sum.split)
qed

text \<open>What a socket promises so that the loop of \<open>receive\<close> returns: a call to its \<open>Receive\<close> comes
  back, keeps its invariant, and brings it closer to the end of a multi-part message whenever
  the batch it returned announces more parts.\<close>

locale draining_socket =
  fixes recv :: "(nl_error + Message list, 's) call"
    and sinv :: "'s \<Rightarrow> bool"
    and rank :: "'s \<Rightarrow> nat"
    and host :: byte_order
  assumes recv_returns: "sinv s \<Longrightarrow> \<exists>r s'. recv s = Some (r, s')"
    and recv_inv: "sinv s \<Longrightarrow> recv s = Some (r, s') \<Longrightarrow> sinv s'"
    and recv_rank: "sinv s \<Longrightarrow> recv s = Some (Inr ms, s') \<Longrightarrow>
      scan_msgs host ms False = Some (Inr True) \<Longrightarrow> rank s' < rank s"
begin

lemma receive_loop_returns:
  assumes "sockReceive ops = recv" and "sinv (connSock c)"
  shows "\<exists>r c'. receive_loop host ops res c = Some (r, c') \<and> sinv (connSock c')"
  using assms(2)
proof (induction "rank (connSock c)" arbitrary: c res rule: less_induct)
  case less
  obtain r s where rs: "recv (connSock c) = Some (r, s)" using recv_returns less.prems by blast
  have s: "sinv s" using recv_inv less.prems rs by blast
  show ?case
  proof (cases "case r of Inl e \<Rightarrow> True | Inr ms \<Rightarrow> scan_msgs host ms False \<noteq> Some (Inr True)")
    case True
    with receive_loop_stop [of ops c r s host res] rs assms(1) s show ?thesis by auto
  next
    case False
    then obtain ms where r: "r = Inr ms" and m: "scan_msgs host ms False = Some (Inr True)"
      by (auto split: sum.splits)
    have "rank (connSock (c\<lparr>connSock := s\<rparr>)) < rank (connSock c)"
      using recv_rank less.prems rs r m by simp
    from less.hyps [OF this, of "res @ ms"] s receive_loop_more [of ops c ms s host res] rs r m assms(1)
    show ?thesis by simp
  qed
qed

lemma lockedReceive_returns:
  assumes "sockReceive ops = recv" and "sinv (connSock c)"
  shows "\<exists>r c'. lockedReceive host ops c = Some (r, c') \<and> sinv (connSock c')"
  using receive_loop_returns [OF assms, of "[]"]
  by (auto simp: lockedReceive_def Conn_receive_def)

end

locale request_socket = draining_socket +
  fixes send :: "Message \<Rightarrow> (nl_error option, 's) call"
  assumes send_returns: "sinv s \<Longrightarrow> \<exists>e s'. send m s = Some (e, s') \<and> sinv s'"
begin

lemma lockedSend_returns:
  assumes "sockSend ops = send" and "sinv (connSock c)"
  shows "\<exists>r c'. lockedSend ops m c = Some (r, c') \<and> sinv (connSock c')"
proof (cases "nlmsgLength (int (length (mData m))) > 1024 * 32")
  case True
  with assms show ?thesis by (simp add: lockedSend_def)
next
  case False
  obtain m1 c1 where f: "fixMsg m (nlmsgLength (int (length (mData m)))) c = (m1, c1)" by fastforce
  then have "connSock c1 = connSock c" using fixMsg_frame(1) [of m _ c] by (metis snd_conv)
  with assms obtain e s' where "sockSend ops m1 (connSock c1) = Some (e, s')" and "sinv s'"
    using send_returns [of "connSock c1" m1] by auto
  with False f show ?thesis by (simp add: lockedSend_def on_sock_def Let_def)
qed

lemma Execute_returns:
  assumes "sockSend ops = send" and "sockReceive ops = recv" and "sinv (connSock c)"
  shows "\<exists>r c'. Execute host ops m c = Some (r, c') \<and> sinv (connSock c')"
proof -
  obtain r c1 where s: "lockedSend ops m c = Some (r, c1)" and i: "sinv (connSock c1)"
    using lockedSend_returns [OF assms(1,3)] by blast
  obtain r2 c2 where "lockedReceive host ops c1 = Some (r2, c2)" and "sinv (connSock c2)"
    using lockedReceive_returns [OF assms(2) i] by blast
  with s i show ?thesis by (auto simp: Execute_def split: sum.split)
qed

end

lemma lockedReceive_success:
  assumes "lockedReceive host ops c = Some (Inr replies, c')"
  obtains msgs where "receive_loop host ops [] c = Some (Inr msgs, c')" and "replies = trim_done msgs"
proof -
  obtain r c1 where r: "receive_loop host ops [] c = Some (r, c1)"
    using assms by (cases "receive_loop host ops [] c") (auto simp: lockedReceive_def Conn_receive_def)
  with assms that show ?thesis
    by (cases r) (auto simp: lockedReceive_def Conn_receive_def)
qed

lemma Execute_success:
  assumes "Execute host ops m c = Some (Inr replies, c')"
  obtains req c1 where "lockedSend ops m c = Some (Inr req, c1)"
    and "lockedReceive host ops c1 = Some (Inr replies, c')" and "Validate req replies = None"
proof -
  obtain r1 c1 where s: "lockedSend ops m c = Some (r1, c1)"
    using assms by (cases "lockedSend ops m c") (auto simp: Execute_def)
  with assms obtain req where r1: "r1 = Inr req" by (cases r1) (auto simp: Execute_def)
  obtain r2 c2 where rv: "lockedReceive host ops c1 = Some (r2, c2)"
    using assms s r1 by (cases "lockedReceive host ops c1") (auto simp: Execute_def)
  with assms s r1 obtain ms where "r2 = Inr ms" by (cases r2) (auto simp: Execute_def)
  with assms s r1 rv show ?thesis
    by (cases "Validate req ms") (auto simp: Execute_def intro: that)
qed

inductive delivers :: "(nl_error + Message list, 's) call \<Rightarrow> 's \<Rightarrow> Message list list \<Rightarrow> 's \<Rightarrow> bool"
  for recv where
  delivers_nil: "delivers recv s [] s"
| delivers_cons: "recv s = Some (Inr b, s1) \<Longrightarrow> delivers recv s1 bs s' \<Longrightarrow> delivers recv s (b # bs) s'"

inductive_simps delivers_Nil [simp]: "delivers recv s [] s'"
inductive_simps delivers_Cons [simp]: "delivers recv s (b # bs) s'"

subsection \<open>Properties\<close>

text \<open>C5. When \<open>Execute\<close> succeeds, the replies returned to the caller contain no netlink error, and each answers the request as it was sent. The request is sent with its own sequence number or, if
  that is zero, with the next number of the connection; with its own PID or, if that is zero, with that of the connection. A reply has the same sequence number, unless the number is zero
  (which the next number is after an overflow), and its PID is the same or zero, unless the request was sent with PID zero.\<close>
theorem execute_replies_match:
  assumes "Execute host ops m c = Some (Inr replies, c')" and "r \<in> set replies"
    and "sent = (if hSequence (mHeader m) = 0 then connSeq c + 1 else hSequence (mHeader m))"
    and "pid = (if hPID (mHeader m) = 0 then connPid c else hPID (mHeader m))"
  shows "(sent = 0 \<or> hSequence (mHeader r) = sent) \<and> (pid = 0 \<or> hPID (mHeader r) \<in> {0, pid}) \<and>
    checkMessage host r = Some None"
proof -
  from assms(1) obtain req c1 where s: "lockedSend ops m c = Some (Inr req, c1)"
    and rv: "lockedReceive host ops c1 = Some (Inr replies, c')"
    and v: "Validate req replies = None"
    by (rule Execute_success)
  from s have req: "req = fst (fixMsg m (nlmsgLength (int (length (mData m)))) c)"
    by (auto simp: lockedSend_def Let_def bind_eq_Some_conv split: if_splits prod.splits option.splits)
  from v assms(2) have "hSequence (mHeader r) = hSequence (mHeader req) \<or> hSequence (mHeader req) = 0"
    and "hPID (mHeader r) = hPID (mHeader req) \<or> hPID (mHeader req) = 0 \<or> hPID (mHeader r) = 0"
    by (auto simp: Validate_None_iff)
  moreover from rv obtain msgs where "receive_loop host ops [] c1 = Some (Inr msgs, c')"
    and t: "replies = trim_done msgs"
    by (rule lockedReceive_success)
  from receive_loop_clean [OF this(1)] t assms(2) have "checkMessage host r = Some None"
    by (auto simp: trim_done_def in_set_butlastD split: if_splits)
  ultimately show ?thesis
    using assms(3,4) by (auto simp: req fixMsg_fields)
qed

text \<open>Messages handed to \<open>SendMessages\<close> without sequence numbers go to the socket with the
  consecutive numbers that follow the connection's, modulo 2 to the 32: up to that many messages
  get pairwise different numbers.\<close>
lemma sent_sequences_distinct:
  assumes "\<forall>m \<in> set ms. hSequence (mHeader m) = 0" and "length ms \<le> 2 ^ 32"
    and "SendMessages ops ms c = Some ((Inr sent, ms'), c')"
  shows "map (\<lambda>m. hSequence (mHeader m)) sent = map (\<lambda>i. connSeq c + 1 + of_nat i) [0..<length ms] \<and>
    distinct (map (\<lambda>m. hSequence (mHeader m)) sent)"
proof -
  obtain ok ms1 c1 where f: "fix_loop ms c = (ok, ms1, c1)" by (cases "fix_loop ms c")
  from assms(3) f have "ok" and "sent = ms1"
    by (auto simp: SendMessages_def Let_def bind_eq_Some_conv split: if_splits option.splits)
  with f fix_loop_sequences [of ms c sent c1] assms(1)
  have "map (\<lambda>m. hSequence (mHeader m)) sent = map (\<lambda>i. connSeq c + 1 + of_nat i) [0..<length ms]"
    by simp
  then show ?thesis using distinct_sequences [OF assms(2), of "connSeq c + 1"] by simp
qed

text \<open>A multi-part reply is assembled transparently: if the socket delivers batches each of
  which but the last announces more parts, the messages of all of them are returned in order,
  without a final \<open>Done\<close> message, and the socket is left where the last batch left it.\<close>
lemma receive_multipart:
  assumes "delivers (sockReceive ops) (connSock c) (bs @ [b]) s'"
    and "\<forall>x \<in> set bs. scan_msgs host x False = Some (Inr True)"
    and "scan_msgs host b False = Some (Inr False)"
  shows "Receive host ops c =
    (let msgs = concat bs @ b;
         ends_done = (msgs \<noteq> [] \<and> hFlags (mHeader (last msgs)) AND Multi \<noteq> 0 \<and> hType (mHeader (last msgs)) = Done)
     in Some (Inr (if ends_done then butlast msgs else msgs), c\<lparr>connSock := s'\<rparr>))"
proof -
  have "receive_loop host ops res c = Some (Inr (res @ concat bs @ b), c\<lparr>connSock := s'\<rparr>)" for res
    using assms(1,2)
  proof (induction bs arbitrary: c res)
    case Nil
    then show ?case using receive_loop_last [OF _ assms(3)] by auto
  next
    case (Cons x bs)
    from Cons.prems(1) obtain s1 where r: "sockReceive ops (connSock c) = Some (Inr x, s1)"
      and d: "delivers (sockReceive ops) s1 (bs @ [b]) s'"
      by auto
    with Cons.prems(2) Cons.IH [of "c\<lparr>connSock := s1\<rparr>" "res @ x"] receive_loop_more [OF r, of host res]
    show ?case by simp
  qed
  from this [of "[]"] show ?thesis
    by (auto simp: Receive_def lockedReceive_def Conn_receive_def trim_done_def Let_def)
qed

text \<open>The sequence counter wraps to zero, and zero means \<open>no sequence\<close> to \<open>Validate\<close>: the request
  sent at that moment accepts replies with any sequence number.\<close>
lemma sequence_wrap_disables_check:
  assumes "connSeq c = - 1" and "hSequence (mHeader m) = 0" and "hPID (mHeader m) = 0"
    and "lockedSend ops m c = Some (Inr req, c')"
    and "\<forall>r \<in> set replies. hPID (mHeader r) = connPid c"
  shows "hSequence (mHeader req) = 0 \<and> Validate req replies = None"
proof -
  from assms(4) have req: "req = fst (fixMsg m (nlmsgLength (int (length (mData m)))) c)"
    by (auto simp: lockedSend_def Let_def bind_eq_Some_conv split: if_splits prod.splits option.splits)
  with assms(1-3,5) show ?thesis by (simp add: fixMsg_fields Validate_None_iff)
qed

end
