(* ===== verification/NlTest.thy ===== *)
theory NlTest
  imports NlConn NlAttribute
begin

unbundle bit_operations_syntax

text \<open>
  \<^verbatim>\<open>netlink-client/nltest/nltest.go\<close>: the socket that answers requests by a function. The
  function may keep state of its own, the type \<open>'w\<close>.

  The socket is shown to meet the contracts \<open>draining_socket\<close> and \<open>request_socket\<close> of the
  connection, so that \<open>Execute\<close> over it always returns as long as the function does not answer a
  multicast poll with an unfinished multi-part message.
\<close>

type_synonym 'w Func = "Message list \<Rightarrow> 'w \<Rightarrow> (Message list \<times> nl_error option) \<times> 'w"

definition nltest_PID :: uint32 where
  "nltest_PID = 1"

definition MustMarshalAttributes :: "byte_order \<Rightarrow> Attribute list \<Rightarrow> byte list option" where
  \<comment> \<open>an error becomes a panic\<close>
  "MustMarshalAttributes host attrs = do {
     r \<leftarrow> MarshalAttributes host attrs;
     (case r of Inl _ \<Rightarrow> None | Inr b \<Rightarrow> Some b)
   }"

definition Multipart :: "Message list \<Rightarrow> Message list" where
  "Multipart msgs =
     (if length msgs < 2 then msgs
      else map (\<lambda>i. let m = msgs ! i; h = mHeader m;
                        h = (if i = length msgs - 1 then h\<lparr>hType := Done\<rparr> else h)
                    in m\<lparr>mHeader := h\<lparr>hFlags := hFlags h OR Multi\<rparr>\<rparr>) [0..<length msgs])"

definition nltest_Error :: "byte_order \<Rightarrow> int \<Rightarrow> Message list \<Rightarrow> Message list option" where
  "nltest_Error host number reqs = do {
     req \<leftarrow> go_index reqs 0;
     let h = mHeader req;
     b \<leftarrow> Int32Bytes host (-1 * word_of_int number);
     Some [\<lparr>mHeader = h\<lparr>hLength := hLength h + 4, hType := Error\<rparr>, mData = b @ mData req\<rparr>]
   }"

fun check_loop :: "uint16 list \<Rightarrow> uint16 list \<Rightarrow> Message list \<Rightarrow> nl_error option" where
  "check_loop (t # types) (f # flags) (m # req) =
     (if t \<noteq> 0 \<and> t \<noteq> hType (mHeader m) then Some (errUnexpectedHeaderType (hType (mHeader m)) t)
      else if f \<noteq> 0 \<and> f \<noteq> hFlags (mHeader m)
      then Some (errUnexpectedHeaderFlags (hFlags (mHeader m)) f)
      else check_loop types flags req)"
| "check_loop _ _ _ = None"

definition CheckRequest ::
  "uint16 list \<Rightarrow> uint16 list \<Rightarrow> 'w Func \<Rightarrow>
   (Message list \<Rightarrow> 'w \<Rightarrow> ((Message list \<times> nl_error option) \<times> 'w) option) option" where
  \<comment> \<open>both panics on mismatched lengths are \<open>None\<close>\<close>
  "CheckRequest types flags fn =
     (if length types \<noteq> length flags then None
      else Some (\<lambda>req w.
        if length types \<noteq> length req then None
        else case check_loop types flags req of
               Some e \<Rightarrow> Some (([], Some e), w)
             | None \<Rightarrow> Some (fn req w)))"

record 'w test_socket =
  tsFn :: "'w Func"
  tsMsgs :: "Message list"
  tsErr :: "nl_error option"
  tsWorld :: 'w

definition ts_Close :: "(nl_error option, 'w test_socket) call" where
  "ts_Close c = Some (None, c)"

definition ts_SendMessages :: "Message list \<Rightarrow> (nl_error option, 'w test_socket) call" where
  "ts_SendMessages messages c =
     (let ((msgs, err), w) = tsFn c messages (tsWorld c)
      in Some (None, c\<lparr>tsMsgs := tsMsgs c @ msgs, tsErr := err, tsWorld := w\<rparr>))"

definition ts_Send :: "Message \<Rightarrow> (nl_error option, 'w test_socket) call" where
  "ts_Send m c =
     (let ((msgs, err), w) = tsFn c [m] (tsWorld c)
      in Some (None, c\<lparr>tsMsgs := msgs, tsErr := err, tsWorld := w\<rparr>))"

fun isSyscallError :: "nl_error \<Rightarrow> bool" where
  "isSyscallError (Errno _) = True"
| "isSyscallError _ = False"

definition more_parts :: "Message \<Rightarrow> bool" where
  "more_parts m \<longleftrightarrow> hFlags (mHeader m) AND Multi \<noteq> 0 \<and> hType (mHeader m) \<noteq> Done"

definition go_result :: "'a \<times> nl_error option \<Rightarrow> nl_error + 'a" where
  \<comment> \<open>the pair as \<open>Conn.receive\<close> looks at it: the error first\<close>
  "go_result r = (case snd r of Some e \<Rightarrow> Inl e | None \<Rightarrow> Inr (fst r))"

definition ts_Receive :: "(nl_error + Message list, 'w test_socket) call" where
  "ts_Receive c =
     (if tsMsgs c = [] then
        (case tsErr c of
           None \<Rightarrow>
             let ((msgs, err), w) = tsFn c [] (tsWorld c);
                 err = (if err = Some EOF then None else err)
             in Some (go_result (msgs, err), c\<lparr>tsWorld := w\<rparr>)
         | Some e \<Rightarrow>
             if e = EOF then Some (Inr [], c)
             else if isSyscallError e then Some (Inl (SyscallError ''recvmsg'' e), c)
             else Some (Inl e, c))
      else if list_ex more_parts (tsMsgs c) then
        Some (go_result (butlast (tsMsgs c), tsErr c), c\<lparr>tsMsgs := [last (tsMsgs c)]\<rparr>)
      else Some (go_result (tsMsgs c, tsErr c), c\<lparr>tsMsgs := [], tsErr := None\<rparr>))"

definition test_ops :: "'w test_socket Socket" where
  \<comment> \<open>the test socket implements \<open>Socket\<close> and none of the optional interfaces\<close>
  "test_ops = \<lparr>sockClose = ts_Close, sockSend = ts_Send, sockSendMessages = ts_SendMessages,
     sockReceive = ts_Receive, sockJoinGroup = None, sockLeaveGroup = None, sockSetBPF = None,
     sockRemoveBPF = None, sockSetDeadline = None, sockSetReadDeadline = None,
     sockSetWriteDeadline = None, sockSetOption = None, sockSetReadBuffer = None,
     sockSetWriteBuffer = None\<rparr>"

definition nltest_Dial :: "'w Func \<Rightarrow> 'w \<Rightarrow> uint32 \<Rightarrow> 'w test_socket Conn" where
  "nltest_Dial fn w seed = NewConn \<lparr>tsFn = fn, tsMsgs = [], tsErr = None, tsWorld = w\<rparr> nltest_PID seed"

subsection \<open>The test socket keeps the contracts of the connection\<close>

definition ts_quiet :: "byte_order \<Rightarrow> 'w test_socket \<Rightarrow> bool" where
  "ts_quiet host s \<longleftrightarrow>
     (\<forall>w. scan_msgs host (fst (fst (tsFn s [] w))) False \<noteq> Some (Inr True))"

definition ts_rank :: "'w test_socket \<Rightarrow> nat" where
  "ts_rank s = length (tsMsgs s)"

lemma scan_msgs_more_parts:
  assumes "scan_msgs host ms multi = Some (Inr True)"
  shows "multi \<or> list_ex more_parts ms"
  using assms
proof (induction ms arbitrary: multi)
  case (Cons m ms)
  from checkMessage_total [of host m] obtain r where "checkMessage host m = Some r" by blast
  with Cons show ?case
    by (auto simp: more_parts_def split: option.split_asm if_split_asm)
qed simp

lemma ts_Receive_quiet: "ts_quiet host s \<Longrightarrow> ts_Receive s = Some (r, s') \<Longrightarrow> ts_quiet host s'"
  by (auto simp: ts_Receive_def ts_quiet_def Let_def split: if_split_asm option.split_asm prod.split_asm)

lemma ts_Receive_rank:
  assumes "ts_quiet host s" and "ts_Receive s = Some (Inr ms, s')"
    and more: "scan_msgs host ms False = Some (Inr True)"
  shows "ts_rank s' < ts_rank s"
proof (cases "tsMsgs s = []")
  case True
  then show ?thesis
    using assms
    by (auto simp: ts_Receive_def ts_quiet_def go_result_def Let_def
        split: if_split_asm option.split_asm prod.split_asm) (metis fst_conv)+
next
  case False
  show ?thesis
  proof (cases "list_ex more_parts (tsMsgs s)")
    case True
    with False assms(2) have ms: "ms = butlast (tsMsgs s)" and s': "tsMsgs s' = [last (tsMsgs s)]"
      by (auto simp: ts_Receive_def go_result_def split: option.split_asm)
    from scan_msgs_more_parts [OF more] ms have "butlast (tsMsgs s) \<noteq> []" by auto
    then have "1 < length (tsMsgs s)" by (metis One_nat_def False butlast.simps(2) length_0_conv
          length_Suc_conv less_one linorder_neqE_nat)
    with s' show ?thesis by (simp add: ts_rank_def)
  next
    case none: False
    with False assms(2) have "ms = tsMsgs s"
      by (auto simp: ts_Receive_def go_result_def split: option.split_asm)
    with none scan_msgs_more_parts [OF more] show ?thesis by simp
  qed
qed

interpretation ts: request_socket ts_Receive "ts_quiet host" ts_rank host ts_Send for host
proof
  fix s :: "'a test_socket"
  show "\<exists>r s'. ts_Receive s = Some (r, s')"
    by (auto simp: ts_Receive_def Let_def split: option.split prod.split)
next
  fix s :: "'a test_socket" and m
  assume "ts_quiet host s"
  then show "\<exists>e s'. ts_Send m s = Some (e, s') \<and> ts_quiet host s'"
    by (auto simp: ts_Send_def ts_quiet_def split: prod.split)
qed (auto intro: ts_Receive_quiet ts_Receive_rank)

subsection \<open>Multi-part replies\<close>

definition mark_multi :: "Message \<Rightarrow> Message" where
  "mark_multi m = m\<lparr>mHeader := (mHeader m)\<lparr>hFlags := hFlags (mHeader m) OR Multi\<rparr>\<rparr>"

definition mark_done :: "Message \<Rightarrow> Message" where
  "mark_done m = m\<lparr>mHeader := (mHeader m)\<lparr>hType := Done, hFlags := hFlags (mHeader m) OR Multi\<rparr>\<rparr>"

lemma Multi_nonzero [simp]: "Multi \<noteq> 0"
  by (simp add: Multi_def)

lemma test_ops_fields [simp]:
  "sockReceive test_ops = ts_Receive" "sockSend test_ops = ts_Send"
  "sockSendMessages test_ops = ts_SendMessages"
  by (simp_all add: test_ops_def)

lemma mark_multi_fields [simp]:
  "hType (mHeader (mark_multi m)) = hType (mHeader m)"
  "hSequence (mHeader (mark_multi m)) = hSequence (mHeader m)"
  "hPID (mHeader (mark_multi m)) = hPID (mHeader m)"
  "hFlags (mHeader (mark_multi m)) AND Multi \<noteq> 0"
  by (simp_all add: mark_multi_def)

lemma mark_done_fields [simp]:
  "hType (mHeader (mark_done m)) = Done" "hFlags (mHeader (mark_done m)) AND Multi \<noteq> 0"
  by (simp_all add: mark_done_def)

lemma Multipart_snoc:
  assumes "ms \<noteq> []"
  shows "Multipart (ms @ [m]) = map mark_multi ms @ [mark_done m]"
proof -
  have "1 \<le> length ms" using assms by (cases ms) auto
  moreover have "map (\<lambda>i. if i = length ms then mark_done m else mark_multi (ms ! i)) [0..<length ms] =
      map mark_multi ms"
    by (rule nth_equalityI) auto
  ultimately show ?thesis
    by (auto simp: Multipart_def mark_multi_def mark_done_def Let_def nth_append intro: nth_equalityI)
qed

lemma scan_msgs_parts:
  assumes "\<forall>m \<in> set ms. more_parts m \<and> hType (mHeader m) \<noteq> Error"
  shows "scan_msgs host ms multi = Some (Inr (multi \<or> ms \<noteq> []))"
  using assms
  by (induction ms arbitrary: multi) (auto simp: checkMessage_def more_parts_def)

lemma scan_msgs_done: "scan_msgs host [mark_done m] False = Some (Inr False)"
  by (simp add: checkMessage_def Done_def Error_def)

lemma ts_receive_multipart:
  assumes "tsMsgs (connSock c) = Multipart (ms @ [m])" and "tsErr (connSock c) = None" and "ms \<noteq> []"
    and "\<forall>x \<in> set ms. hType (mHeader x) \<notin> {Error, Done}"
  shows "\<exists>s'. lockedReceive host test_ops c = Some (Inr (map mark_multi ms), c\<lparr>connSock := s'\<rparr>)"
proof -
  let ?s1 = "(connSock c)\<lparr>tsMsgs := [mark_done m]\<rparr>"
  let ?s2 = "?s1\<lparr>tsMsgs := [], tsErr := None\<rparr>"
  have parts: "\<forall>x \<in> set (map mark_multi ms). more_parts x \<and> hType (mHeader x) \<noteq> Error"
    using assms(4) by (auto simp: more_parts_def)
  have "list_ex more_parts (map mark_multi ms @ [mark_done m])"
    using parts assms(3) by (cases ms) auto
  then have "ts_Receive (connSock c) = Some (Inr (map mark_multi ms), ?s1)"
    using assms(1-3) by (simp add: ts_Receive_def Multipart_snoc go_result_def del: list_ex_append)
  moreover have "ts_Receive ?s1 = Some (Inr [mark_done m], ?s2)"
    using assms(2) by (simp add: ts_Receive_def more_parts_def go_result_def)
  moreover have "scan_msgs host (map mark_multi ms) False = Some (Inr True)"
    using scan_msgs_parts [OF parts, of host False] assms(3) by simp
  ultimately have "receive_loop host test_ops [] c =
      Some (Inr (map mark_multi ms @ [mark_done m]), c\<lparr>connSock := ?s2\<rparr>)"
    using receive_loop_more [of test_ops c _ ?s1 host "[]"]
      receive_loop_last [of test_ops "c\<lparr>connSock := ?s1\<rparr>" "[mark_done m]" ?s2 host]
    by (simp add: scan_msgs_done del: scan_msgs.simps)
  then show ?thesis
    by (auto simp: lockedReceive_def Conn_receive_def trim_done_def)
qed

lemma ts_lockedSend:
  assumes "length (mData req) \<le> 32000" and "fixMsg req (nlmsgLength (int (length (mData req)))) c = (req', c1)"
    and "tsFn (connSock c) [req'] (tsWorld (connSock c)) = ((msgs, err), w)"
  shows "lockedSend test_ops req c = Some (Inr req',
    c1\<lparr>connSock := (connSock c)\<lparr>tsMsgs := msgs, tsErr := err, tsWorld := w\<rparr>\<rparr>)"
proof -
  have "connSock c1 = connSock c" using fixMsg_frame(1) [of req _ c] assms(2) by (metis snd_conv)
  moreover have "\<not> nlmsgLength (int (length (mData req))) > 1024 * 32"
    using assms(1) by (simp add: nlmsgLength_def nlmsgAlign_def nlmsgHeaderLen_def nlmsgAlignTo_def)
  ultimately show ?thesis
    using assms(2,3) by (simp add: lockedSend_def on_sock_def test_ops_def ts_Send_def)
qed

subsection \<open>Properties\<close>

text \<open>A request over the test socket always returns, whatever the function answers to the
  request (errors and unfinished multi-part messages included), provided its answers to the poll
  with no request do not announce more parts for ever.\<close>
lemma nltest_execute_returns:
  assumes "ts_quiet host (connSock c)"
  shows "\<exists>r c'. Execute host test_ops m c = Some (r, c') \<and> ts_quiet host (connSock c')"
  by (rule ts.Execute_returns) (use assms in simp_all)

text \<open>A function that answers a request with \<open>Multipart\<close> of at least two ordinary messages
  makes \<open>Execute\<close> return all of them but the last, which \<open>Multipart\<close> turned into the end mark, each
  flagged as a part and otherwise unchanged.\<close>
lemma nltest_multipart_execute:
  assumes "length (mData m) \<le> 32000" and "ms \<noteq> []"
    and "req = fst (fixMsg m (nlmsgLength (int (length (mData m)))) c)"
    and "tsFn (connSock c) [req] (tsWorld (connSock c)) = ((Multipart (ms @ [d]), None), w)"
    and "\<forall>x \<in> set ms. hType (mHeader x) \<notin> {Error, Done} \<and>
      hSequence (mHeader x) = hSequence (mHeader req) \<and> hPID (mHeader x) = hPID (mHeader req)"
  shows "\<exists>c'. Execute host test_ops m c = Some (Inr (map mark_multi ms), c')"
proof -
  obtain c1 where f: "fixMsg m (nlmsgLength (int (length (mData m)))) c = (req, c1)"
    using assms(3) by (metis prod.collapse)
  let ?s = "(connSock c)\<lparr>tsMsgs := Multipart (ms @ [d]), tsErr := None, tsWorld := w\<rparr>"
  have "lockedSend test_ops m c = Some (Inr req, c1\<lparr>connSock := ?s\<rparr>)"
    by (rule ts_lockedSend [OF assms(1) f assms(4)])
  moreover obtain s' where "lockedReceive host test_ops (c1\<lparr>connSock := ?s\<rparr>) =
      Some (Inr (map mark_multi ms), c1\<lparr>connSock := s'\<rparr>)"
    using ts_receive_multipart [of "c1\<lparr>connSock := ?s\<rparr>" ms d host] assms(2,5) by auto
  moreover have "Validate req (map mark_multi ms) = None"
    using assms(5) by (simp add: Validate_None_iff)
  ultimately show ?thesis by (simp add: Execute_def)
qed

subsection \<open>Witnesses\<close>

definition sample_msg :: "uint16 \<Rightarrow> uint16 \<Rightarrow> uint32 \<Rightarrow> uint32 \<Rightarrow> Message" where
  "sample_msg t f q p = \<lparr>mHeader = \<lparr>hLength = 16, hType = t, hFlags = f, hSequence = q, hPID = p\<rparr>,
     mData = []\<rparr>"

definition echo_conn :: "uint32 \<Rightarrow> unit test_socket Conn" where
  \<comment> \<open>a connection whose function echoes the request\<close>
  "echo_conn q = nltest_Dial (\<lambda>req w. ((req, None), w)) () q"

lemmas echo_defs = echo_conn_def nltest_Dial_def NewConn_def nltest_PID_def sample_msg_def

lemma echo_Execute:
  "Execute LittleEndian test_ops (sample_msg 5 1 0 0) (echo_conn 5) =
     Some (Inr [sample_msg 5 1 6 1], echo_conn 6)"
proof -
  have s: "lockedSend test_ops (sample_msg 5 1 0 0) (echo_conn 5) =
      Some (Inr (sample_msg 5 1 6 1), (echo_conn 6)\<lparr>connSock := (connSock (echo_conn 6))
        \<lparr>tsMsgs := [sample_msg 5 1 6 1]\<rparr>\<rparr>)" (is "_ = Some (_, ?c)")
    using ts_lockedSend [of "sample_msg 5 1 0 0" "echo_conn 5" "sample_msg 5 1 6 1" "echo_conn 6"
        "[sample_msg 5 1 6 1]" None "()"]
    by (simp add: echo_defs fixMsg_def nextSequence_def)
  have "receive_loop LittleEndian test_ops [] ?c = Some (Inr [sample_msg 5 1 6 1], echo_conn 6)"
    using receive_loop_last [of test_ops ?c "[sample_msg 5 1 6 1]" "connSock (echo_conn 6)" LittleEndian "[]"]
    by (simp add: ts_Receive_def go_result_def more_parts_def echo_defs checkMessage_def Error_def Multi_def)
  with s show ?thesis
    by (simp add: Execute_def lockedReceive_def Conn_receive_def trim_done_def sample_msg_def Multi_def)
qed

theorem execute_replies_match_witness:
  "hSequence (mHeader (sample_msg 5 1 6 1)) = connSeq (echo_conn 5) + 1 \<and>
   hPID (mHeader (sample_msg 5 1 6 1)) \<in> {0, connPid (echo_conn 5)} \<and>
   checkMessage LittleEndian (sample_msg 5 1 6 1) = Some None"
  using execute_replies_match [OF echo_Execute _ refl refl] by (simp add: echo_defs)

end
