(* ===== verification/NlConnLinux.thy ===== *)
theory NlConnLinux
  imports NlConn
begin

unbundle bit_operations_syntax

text \<open>
  \<^verbatim>\<open>netlink-client/conn_linux.go\<close>, \<^verbatim>\<open>netns_linux.go\<close> and \<^verbatim>\<open>fdcall_gteq_1.12.go\<close>: the Linux
  socket. Three layers, as in the code:
  \<^item> \<open>conn\<close> (\<open>lc_...\<close>) builds messages from datagrams over the interface \<open>socket\<close>, here the record
    \<open>lsocket\<close> of operations on a state \<open>'s\<close>;
  \<^item> \<open>sysSocket\<close> (\<open>ss_...\<close>) implements that interface by system calls run on a locked goroutine;
  \<^item> the system calls themselves and the runtime's poller are the parameter \<open>kernel\<close>, a record of
    functions on a state \<open>'k\<close>; what is relied on of it is a hypothesis (locale
    \<open>netlink_kernel\<close>).

  \<open>None\<close> is a panic or a call that blocks for ever. The two loops that wait for the kernel (the
  poller and the peek loop of \<open>Receive\<close>) are \<^theory_text>\<open>partial_function\<close>s. The page size and the host's
  byte order are parameters. \<open>syscall.ParseNetlinkMessage\<close> is modelled after the standard
  library.
\<close>

record sockaddr_nl =
  saFamily :: uint16
  saGroups :: uint32
  saPid :: uint32

record Config =
  cfgGroups :: uint32
  cfgNetNS :: int
  cfgPid :: uint32

definition zeroConfig :: Config where
  "zeroConfig = \<lparr>cfgGroups = 0, cfgNetNS = 0, cfgPid = 0\<rparr>"

definition AF_NETLINK :: uint16 where "AF_NETLINK = 16"
definition MSG_PEEK :: int where "MSG_PEEK = 2"
definition SOL_SOCKET :: int where "SOL_SOCKET = 1"
definition SOL_NETLINK :: int where "SOL_NETLINK = 270"
definition EAGAIN :: nl_error where "EAGAIN = Errno 11"
definition EBADF :: nl_error where "EBADF = Errno 9"
definition EINVAL :: nl_error where "EINVAL = Errno 22"
definition ENOENT :: nl_error where "ENOENT = Errno 2"
definition ENOPROTOOPT :: nl_error where "ENOPROTOOPT = Errno 92"
definition ErrInvalid :: nl_error where \<comment> \<open>\<open>os.ErrInvalid\<close>\<close> "ErrInvalid = ForeignError ''invalid argument''"

subsection \<open>The socket interface and the connection over it\<close>

record 's lsocket =
  lsBind :: "sockaddr_nl \<Rightarrow> (nl_error option, 's) call"
  lsClose :: "(nl_error option, 's) call"
  lsFD :: "'s \<Rightarrow> int"
  lsGetsockname :: "(nl_error + sockaddr_nl, 's) call"
  lsRecvmsg :: "byte list \<Rightarrow> int \<Rightarrow> (nl_error + int \<times> byte list, 's) call"
  lsSendmsg :: "byte list \<Rightarrow> sockaddr_nl \<Rightarrow> int \<Rightarrow> (nl_error option, 's) call"
  lsSetDeadline :: "int \<Rightarrow> (nl_error option, 's) call"
  lsSetReadDeadline :: "int \<Rightarrow> (nl_error option, 's) call"
  lsSetWriteDeadline :: "int \<Rightarrow> (nl_error option, 's) call"
  lsSetSockoptSockFprog :: "int \<Rightarrow> int \<Rightarrow> uint16 \<times> uint64 list \<Rightarrow> (nl_error option, 's) call"
  lsSetSockoptInt :: "int \<Rightarrow> int \<Rightarrow> int \<Rightarrow> (nl_error option, 's) call"

record 's lconn =
  lcS :: 's
  lcSa :: sockaddr_nl

definition on_ls :: "('r, 's) call \<Rightarrow> ('r, 's lconn) call" where
  "on_ls f c = map_option (\<lambda>(r, s). (r, c\<lparr>lcS := s\<rparr>)) (f (lcS c))"

definition on_ls_wrap :: "string \<Rightarrow> (nl_error option, 's) call \<Rightarrow> (nl_error option, 's lconn) call" where
  "on_ls_wrap name f c = map_option (\<lambda>(e, c). (NewSyscallError name e, c)) (on_ls f c)"

definition bind_socket ::
  "'s lsocket \<Rightarrow> Config option \<Rightarrow> 's \<Rightarrow> ((nl_error + 's lconn \<times> uint32) \<times> 's) option" where
  \<comment> \<open>the function \<open>bind\<close>; the socket afterwards is returned next to the result\<close>
  "bind_socket ls config s =
     (let config = (case config of None \<Rightarrow> zeroConfig | Some c \<Rightarrow> c);
          addr = \<lparr>saFamily = AF_NETLINK, saGroups = cfgGroups config, saPid = cfgPid config\<rparr>
      in do {
        (e, s) \<leftarrow> lsBind ls addr s;
        (case e of
           Some err \<Rightarrow> do { (_, s) \<leftarrow> lsClose ls s; Some (Inl (SyscallError ''bind'' err), s) }
         | None \<Rightarrow> do {
             (r, s) \<leftarrow> lsGetsockname ls s;
             (case r of
                Inl err \<Rightarrow> do { (_, s) \<leftarrow> lsClose ls s; Some (Inl (SyscallError ''getsockname'' err), s) }
              | Inr sa \<Rightarrow> Some (Inr (\<lparr>lcS = s, lcSa = addr\<rparr>, saPid sa), s))
           })
      })"

definition netlink_addr :: sockaddr_nl where
  "netlink_addr = \<lparr>saFamily = AF_NETLINK, saGroups = 0, saPid = 0\<rparr>"

fun marshal_all :: "byte_order \<Rightarrow> Message list \<Rightarrow> byte list \<Rightarrow> (nl_error + byte list) option" where
  "marshal_all host [] buf = Some (Inr buf)"
| "marshal_all host (m # ms) buf = do {
     r \<leftarrow> MarshalBinary host m;
     (case r of Inl e \<Rightarrow> Some (Inl e) | Inr b \<Rightarrow> marshal_all host ms (buf @ b))
   }"

definition lc_SendMessages ::
  "byte_order \<Rightarrow> 's lsocket \<Rightarrow> Message list \<Rightarrow> (nl_error option, 's lconn) call" where
  "lc_SendMessages host ls messages c = do {
     r \<leftarrow> marshal_all host messages [];
     (case r of
        Inl e \<Rightarrow> Some (Some e, c)
      | Inr buf \<Rightarrow> on_ls_wrap ''sendmsg'' (lsSendmsg ls buf netlink_addr 0) c)
   }"

definition lc_Send :: "byte_order \<Rightarrow> 's lsocket \<Rightarrow> Message \<Rightarrow> (nl_error option, 's lconn) call" where
  "lc_Send host ls m c = do {
     r \<leftarrow> MarshalBinary host m;
     (case r of
        Inl e \<Rightarrow> Some (Some e, c)
      | Inr b \<Rightarrow> on_ls_wrap ''sendmsg'' (lsSendmsg ls b netlink_addr 0) c)
   }"

function ParseNetlinkMessage :: "byte_order \<Rightarrow> byte list \<Rightarrow> nl_error + Message list" where
  \<comment> \<open>\<open>syscall.ParseNetlinkMessage\<close> with \<open>sysToHeader\<close>, a cast between equal layouts\<close>
  "ParseNetlinkMessage host b =
     (if length b < 16 then Inr []
      else let h = header_of host b; l = nlmsgAlign (uint (hLength h))
           in if uint (hLength h) < 16 \<or> l > int (length b) then Inl EINVAL
              else case ParseNetlinkMessage host (drop (nat l) b) of
                     Inl e \<Rightarrow> Inl e
                   | Inr ms \<Rightarrow> Inr (\<lparr>mHeader = h, mData = slice 16 (unat (hLength h)) b\<rparr> # ms))"
  by pat_completeness auto
termination
proof (relation "measure (\<lambda>(host, b). length b)", goal_cases)
  case (2 host b h l)
  then have "16 \<le> l" using nlmsgAlign_ge [of "uint (hLength h)"] by linarith
  then have "0 < nat l" by simp
  with 2(1) show ?case by simp
qed simp

declare ParseNetlinkMessage.simps [simp del]

partial_function (option) peek_loop ::
  "'s lsocket \<Rightarrow> byte list \<Rightarrow> 's lconn \<Rightarrow> ((nl_error + byte list) \<times> 's lconn) option" where
  \<comment> \<open>the buffer that is large enough\<close>
  "peek_loop ls b c =
     Option.bind (on_ls (lsRecvmsg ls b MSG_PEEK) c) (\<lambda>(r, c).
       case r of
         Inl e \<Rightarrow> Some (Inl (SyscallError ''recvmsg'' e), c)
       | Inr (n, b) \<Rightarrow>
           if n \<le> 0 then Some (Inl errNoMessageReceived, c)
           else if n < int (length b) then Some (Inr b, c)
           else peek_loop ls (replicate (length b * 2) 0) c)"

definition lc_Receive ::
  "byte_order \<Rightarrow> nat \<Rightarrow> 's lsocket \<Rightarrow> (nl_error + Message list, 's lconn) call" where
  "lc_Receive host pagesize ls c = do {
     (r, c) \<leftarrow> peek_loop ls (replicate pagesize 0) c;
     (case r of
        Inl e \<Rightarrow> Some (Inl e, c)
      | Inr b \<Rightarrow> do {
          (r, c) \<leftarrow> on_ls (lsRecvmsg ls b 0) c;
          (case r of
             Inl e \<Rightarrow> Some (Inl (SyscallError ''recvmsg'' e), c)
           | Inr (n, b) \<Rightarrow> do {
               b \<leftarrow> (if nlmsgAlign n < 0 then None else get_slice 0 (nat (nlmsgAlign n)) b);
               Some (ParseNetlinkMessage host b, c)
             })
        })
   }"

definition lc_Close :: "'s lsocket \<Rightarrow> (nl_error option, 's lconn) call" where
  "lc_Close ls = on_ls_wrap ''close'' (lsClose ls)"

definition lc_FD :: "'s lsocket \<Rightarrow> 's lconn \<Rightarrow> int" where
  "lc_FD ls c = lsFD ls (lcS c)"

definition lc_JoinGroup :: "'s lsocket \<Rightarrow> uint32 \<Rightarrow> (nl_error option, 's lconn) call" where
  "lc_JoinGroup ls g = on_ls_wrap ''setsockopt'' (lsSetSockoptInt ls SOL_NETLINK 1 (uint g))"

definition lc_LeaveGroup :: "'s lsocket \<Rightarrow> uint32 \<Rightarrow> (nl_error option, 's lconn) call" where
  "lc_LeaveGroup ls g = on_ls_wrap ''setsockopt'' (lsSetSockoptInt ls SOL_NETLINK 2 (uint g))"

definition lc_SetBPF :: "'s lsocket \<Rightarrow> uint64 list \<Rightarrow> (nl_error option, 's lconn) call" where
  \<comment> \<open>\<open>&filter[0]\<close> panics on an empty program\<close>
  "lc_SetBPF ls prog c =
     (if prog = [] then None
      else on_ls_wrap ''setsockopt''
             (lsSetSockoptSockFprog ls SOL_SOCKET 26 (word_of_int (int (length prog)), prog)) c)"

definition lc_RemoveBPF :: "'s lsocket \<Rightarrow> (nl_error option, 's lconn) call" where
  "lc_RemoveBPF ls = on_ls_wrap ''setsockopt'' (lsSetSockoptInt ls SOL_SOCKET 27 0)"

definition linuxOption :: "int \<Rightarrow> int \<times> bool" where
  "linuxOption opt =
     (if opt = 0 then (3, True)
      else if opt = 1 then (4, True)
      else if opt = 2 then (5, True)
      else if opt = 3 then (8, True)
      else if opt = 4 then (10, True)
      else if opt = 5 then (11, True)
      else (0, False))"

definition lc_SetOption :: "'s lsocket \<Rightarrow> int \<Rightarrow> bool \<Rightarrow> (nl_error option, 's lconn) call" where
  "lc_SetOption ls opt enable c =
     (let (opt, ok) = linuxOption opt
      in if \<not> ok then Some (Some (SyscallError ''setsockopt'' ENOPROTOOPT), c)
         else on_ls_wrap ''setsockopt'' (lsSetSockoptInt ls SOL_NETLINK opt (if enable then 1 else 0)) c)"

definition lc_SetDeadline :: "'s lsocket \<Rightarrow> int \<Rightarrow> (nl_error option, 's lconn) call" where
  "lc_SetDeadline ls t = on_ls (lsSetDeadline ls t)"

definition lc_SetReadDeadline :: "'s lsocket \<Rightarrow> int \<Rightarrow> (nl_error option, 's lconn) call" where
  "lc_SetReadDeadline ls t = on_ls (lsSetReadDeadline ls t)"

definition lc_SetWriteDeadline :: "'s lsocket \<Rightarrow> int \<Rightarrow> (nl_error option, 's lconn) call" where
  "lc_SetWriteDeadline ls t = on_ls (lsSetWriteDeadline ls t)"

definition lc_SetReadBuffer :: "'s lsocket \<Rightarrow> int \<Rightarrow> (nl_error option, 's lconn) call" where
  "lc_SetReadBuffer ls n = on_ls_wrap ''setsockopt'' (lsSetSockoptInt ls SOL_SOCKET 8 n)"

definition lc_SetWriteBuffer :: "'s lsocket \<Rightarrow> int \<Rightarrow> (nl_error option, 's lconn) call" where
  "lc_SetWriteBuffer ls n = on_ls_wrap ''setsockopt'' (lsSetSockoptInt ls SOL_SOCKET 7 n)"

definition linux_ops :: "byte_order \<Rightarrow> nat \<Rightarrow> 's lsocket \<Rightarrow> 's lconn Socket" where
  \<comment> \<open>\<open>*conn\<close> as the \<open>Socket\<close> of a connection: every optional interface is there\<close>
  "linux_ops host pagesize ls =
     \<lparr>sockClose = lc_Close ls, sockSend = lc_Send host ls, sockSendMessages = lc_SendMessages host ls,
      sockReceive = lc_Receive host pagesize ls,
      sockJoinGroup = Some (lc_JoinGroup ls), sockLeaveGroup = Some (lc_LeaveGroup ls),
      sockSetBPF = Some (lc_SetBPF ls), sockRemoveBPF = Some (lc_RemoveBPF ls),
      sockSetDeadline = Some (lc_SetDeadline ls), sockSetReadDeadline = Some (lc_SetReadDeadline ls),
      sockSetWriteDeadline = Some (lc_SetWriteDeadline ls), sockSetOption = Some (lc_SetOption ls),
      sockSetReadBuffer = Some (lc_SetReadBuffer ls), sockSetWriteBuffer = Some (lc_SetWriteBuffer ls)\<rparr>"

subsection \<open>The kernel\<close>

record 'k kernel =
  kSocket :: "bool \<Rightarrow> int \<Rightarrow> 'k \<Rightarrow> (nl_error + int) \<times> 'k" \<comment> \<open>with \<open>SOCK_CLOEXEC\<close> or not\<close>
  kCloseOnExec :: "int \<Rightarrow> 'k \<Rightarrow> 'k"
  kSetNonblock :: "int \<Rightarrow> 'k \<Rightarrow> nl_error option \<times> 'k"
  kBind :: "int \<Rightarrow> sockaddr_nl \<Rightarrow> 'k \<Rightarrow> nl_error option \<times> 'k"
  kGetsockname :: "int \<Rightarrow> 'k \<Rightarrow> (nl_error + sockaddr_nl) \<times> 'k"
  kRecvmsg :: "int \<Rightarrow> byte list \<Rightarrow> int \<Rightarrow> 'k \<Rightarrow> (nl_error + int \<times> byte list) \<times> 'k"
  kSendmsg :: "int \<Rightarrow> byte list \<Rightarrow> sockaddr_nl \<Rightarrow> int \<Rightarrow> 'k \<Rightarrow> nl_error option \<times> 'k"
  kSetsockoptInt :: "int \<Rightarrow> int \<Rightarrow> int \<Rightarrow> int \<Rightarrow> 'k \<Rightarrow> nl_error option \<times> 'k"
  kSetsockoptSockFprog :: "int \<Rightarrow> int \<Rightarrow> int \<Rightarrow> uint16 \<times> uint64 list \<Rightarrow> 'k \<Rightarrow> nl_error option \<times> 'k"
  kFileSetDeadline :: "bool \<Rightarrow> bool \<Rightarrow> int \<Rightarrow> int \<Rightarrow> 'k \<Rightarrow> nl_error option \<times> 'k" \<comment> \<open>for reading, for writing\<close>
  kFileClose :: "int \<Rightarrow> 'k \<Rightarrow> nl_error option \<times> 'k"
  kWaitRead :: "int \<Rightarrow> (nl_error option, 'k) call" \<comment> \<open>the poller; it may never come back\<close>
  kWaitWrite :: "int \<Rightarrow> (nl_error option, 'k) call"
  kOpenThreadNS :: "'k \<Rightarrow> (nl_error + int) \<times> 'k"
  kSetns :: "int \<Rightarrow> 'k \<Rightarrow> nl_error option \<times> 'k"

subsection \<open>Network namespaces\<close>

record netNS =
  nsF :: int
  nsDisabled :: bool

definition fileNetNS :: "'k kernel \<Rightarrow> 'k \<Rightarrow> (nl_error + netNS) \<times> 'k" where
  "fileNetNS K k =
     (let (r, k) = kOpenThreadNS K k
      in (case r of
            Inr f \<Rightarrow> Inr \<lparr>nsF = f, nsDisabled = False\<rparr>
          | Inl e \<Rightarrow> if e = ENOENT then Inr \<lparr>nsF = 0, nsDisabled = True\<rparr> else Inl e, k))"

definition threadNetNS :: "'k kernel \<Rightarrow> 'k \<Rightarrow> (nl_error + netNS) \<times> 'k" where
  "threadNetNS K k = fileNetNS K k"

definition ns_do :: "netNS \<Rightarrow> ('k \<Rightarrow> nl_error option \<times> 'k) \<Rightarrow> 'k \<Rightarrow> nl_error option \<times> 'k" where
  "ns_do n fn k = (if nsDisabled n then (Some errNetNSDisabled, k) else fn k)"

definition ns_Close :: "'k kernel \<Rightarrow> netNS \<Rightarrow> 'k \<Rightarrow> nl_error option \<times> 'k" where
  "ns_Close K n = ns_do n (kFileClose K (nsF n))"

definition ns_FD :: "netNS \<Rightarrow> int" where
  "ns_FD n = (if nsDisabled n then -1 else nsF n)"

definition ns_Set :: "'k kernel \<Rightarrow> netNS \<Rightarrow> int \<Rightarrow> 'k \<Rightarrow> nl_error option \<times> 'k" where
  "ns_Set K n fd = ns_do n (\<lambda>k. let (e, k) = kSetns K fd k in (NewSyscallError ''setns'' e, k))"

definition ns_Restore :: "'k kernel \<Rightarrow> netNS \<Rightarrow> 'k \<Rightarrow> nl_error option \<times> 'k" where
  "ns_Restore K n = ns_do n (ns_Set K n (ns_FD n))"

record lockedNetNSGoroutine =
  gThreadNS :: netNS
  gRestore :: bool \<comment> \<open>\<open>threadNS.Restore\<close> is deferred\<close>
  gRunning :: bool \<comment> \<open>the loop over \<open>funcC\<close> has not left\<close>

definition newLockedNetNSGoroutine ::
  "'k kernel \<Rightarrow> int \<Rightarrow> ('k \<Rightarrow> (nl_error + netNS) \<times> 'k) \<Rightarrow> 'k \<Rightarrow> (nl_error + lockedNetNSGoroutine) \<times> 'k" where
  \<comment> \<open>the deferred closes of the two handles come last on every path that leaves\<close>
  "newLockedNetNSGoroutine K netNS_fd getNS k =
     (let (r, k) = getNS k
      in case r of
           Inl e \<Rightarrow> (Inl e, k)
         | Inr callerNS \<Rightarrow>
             let (r, k) = getNS k
             in case r of
                  Inl e \<Rightarrow> (Inl e, snd (ns_Close K callerNS k))
                | Inr threadNS \<Rightarrow>
                    let explicitNS = (netNS_fd \<noteq> 0);
                        fd = (if netNS_fd = 0 then ns_FD callerNS else netNS_fd);
                        (e, k) = ns_Set K threadNS fd k
                    in case e of
                         Some err \<Rightarrow>
                           if explicitNS
                           then (Inl err, snd (ns_Close K callerNS (snd (ns_Close K threadNS k))))
                           else (Inr \<lparr>gThreadNS = threadNS, gRestore = False, gRunning = True\<rparr>,
                                 snd (ns_Close K callerNS k))
                       | None \<Rightarrow>
                           (Inr \<lparr>gThreadNS = threadNS, gRestore = True, gRunning = True\<rparr>,
                            snd (ns_Close K callerNS k)))"

subsection \<open>The socket over system calls\<close>

record 'k sysSocket =
  ssFd :: "int option" \<comment> \<open>\<open>None\<close>: the nil \<open>*os.File\<close>\<close>
  ssClosed :: bool
  ssG :: lockedNetNSGoroutine
  ssKernel :: 'k

definition newSysSocket :: "'k kernel \<Rightarrow> Config \<Rightarrow> 'k \<Rightarrow> (nl_error + 'k sysSocket) \<times> 'k" where
  "newSysSocket K config k =
     (let (r, k) = newLockedNetNSGoroutine K (cfgNetNS config) (threadNetNS K) k
      in (case r of
            Inl e \<Rightarrow> Inl e
          | Inr g \<Rightarrow> Inr \<lparr>ssFd = None, ssClosed = False, ssG = g, ssKernel = k\<rparr>, k))"

definition g_run :: "('k \<Rightarrow> ('r \<times> 'k) option) \<Rightarrow> ('r, 'k sysSocket) call" where
  \<comment> \<open>the send on \<open>funcC\<close> blocks for ever once the goroutine has left\<close>
  "g_run f s =
     (if \<not> gRunning (ssG s) then None
      else map_option (\<lambda>(r, k). (r, s\<lparr>ssKernel := k\<rparr>)) (f (ssKernel s)))"

definition g_stop :: "'k kernel \<Rightarrow> 'k sysSocket \<Rightarrow> 'k sysSocket option" where
  \<comment> \<open>closing \<open>doneC\<close> a second time panics\<close>
  "g_stop K s =
     (let g = ssG s
      in if \<not> gRunning g then None
         else let k = ssKernel s;
                  k = (if gRestore g then snd (ns_Restore K (gThreadNS g) k) else k);
                  k = snd (ns_Close K (gThreadNS g) k)
              in Some (s\<lparr>ssG := g\<lparr>gRunning := False\<rparr>, ssKernel := k\<rparr>))"

definition ss_do :: "('k \<Rightarrow> 'r \<times> 'k) \<Rightarrow> (nl_error + 'r, 'k sysSocket) call" where
  "ss_do f s =
     (if ssClosed s then Some (Inl EBADF, s)
      else map_option (\<lambda>(r, s). (Inr r, s)) (g_run (\<lambda>k. Some (f k)) s))"

partial_function (option) poll_loop ::
  "('k \<Rightarrow> (bool \<times> 'r) \<times> 'k) \<Rightarrow> (nl_error option, 'k) call \<Rightarrow> 'k \<Rightarrow> ((nl_error + 'r) \<times> 'k) option" where
  \<comment> \<open>\<open>RawConn.Read\<close> and \<open>Write\<close>: call until done, waiting for readiness in between. The runtime also looks at the
     deadline before the first call; here a deadline that has passed shows only when the call would have to wait.\<close>
  "poll_loop f wait k =
     (let ((stop, r), k) = f k
      in if stop then Some (Inr r, k)
         else Option.bind (wait k) (\<lambda>(e, k).
                case e of Some err \<Rightarrow> Some (Inl err, k) | None \<Rightarrow> poll_loop f wait k))"

definition fdread ::
  "'k kernel \<Rightarrow> int option \<Rightarrow> (int \<Rightarrow> 'k \<Rightarrow> (bool \<times> 'r) \<times> 'k) \<Rightarrow> (nl_error + 'r, 'k) call" where
  "fdread K fd f k =
     (case fd of None \<Rightarrow> Some (Inl ErrInvalid, k) | Some fd \<Rightarrow> poll_loop (f fd) (kWaitRead K fd) k)"

definition fdwrite ::
  "'k kernel \<Rightarrow> int option \<Rightarrow> (int \<Rightarrow> 'k \<Rightarrow> (bool \<times> 'r) \<times> 'k) \<Rightarrow> (nl_error + 'r, 'k) call" where
  "fdwrite K fd f k =
     (case fd of None \<Rightarrow> Some (Inl ErrInvalid, k) | Some fd \<Rightarrow> poll_loop (f fd) (kWaitWrite K fd) k)"

definition fdcontrol :: "int option \<Rightarrow> (int \<Rightarrow> 'k \<Rightarrow> 'r \<times> 'k) \<Rightarrow> (nl_error + 'r, 'k) call" where
  "fdcontrol fd f k =
     (case fd of None \<Rightarrow> Some (Inl ErrInvalid, k)
      | Some fd \<Rightarrow> let (r, k) = f fd k in Some (Inr r, k))"

definition ss_read ::
  "'k kernel \<Rightarrow> (int \<Rightarrow> 'k \<Rightarrow> (bool \<times> 'r) \<times> 'k) \<Rightarrow> (nl_error + 'r, 'k sysSocket) call" where
  "ss_read K f s = (if ssClosed s then Some (Inl EBADF, s) else g_run (fdread K (ssFd s) f) s)"

definition ss_write ::
  "'k kernel \<Rightarrow> (int \<Rightarrow> 'k \<Rightarrow> (bool \<times> 'r) \<times> 'k) \<Rightarrow> (nl_error + 'r, 'k sysSocket) call" where
  "ss_write K f s = (if ssClosed s then Some (Inl EBADF, s) else g_run (fdwrite K (ssFd s) f) s)"

definition ss_control :: "(int \<Rightarrow> 'k \<Rightarrow> 'r \<times> 'k) \<Rightarrow> (nl_error + 'r, 'k sysSocket) call" where
  "ss_control f s = (if ssClosed s then Some (Inl EBADF, s) else g_run (fdcontrol (ssFd s) f) s)"

definition flat_err :: "nl_error + nl_error option \<Rightarrow> nl_error option" where
  \<comment> \<open>\<open>if doErr != nil { return doErr }; return err\<close>\<close>
  "flat_err r = (case r of Inl e \<Rightarrow> Some e | Inr e \<Rightarrow> e)"

definition flat_res :: "nl_error + (nl_error + 'a) \<Rightarrow> nl_error + 'a" where
  "flat_res r = (case r of Inl e \<Rightarrow> Inl e | Inr q \<Rightarrow> q)"

definition ss_Socket :: "'k kernel \<Rightarrow> int \<Rightarrow> (nl_error option, 'k sysSocket) call" where
  "ss_Socket K family s = do {
     (r, s) \<leftarrow> ss_do (\<lambda>k.
       let (r, k) = kSocket K True family k
       in if r = Inl EINVAL
          then let (r, k) = kSocket K False family k
               in (r, case r of Inr fd \<Rightarrow> kCloseOnExec K fd k | Inl _ \<Rightarrow> k)
          else (r, k)) s;
     (case flat_res r of
        Inl e \<Rightarrow> Some (Some e, s)
      | Inr fd \<Rightarrow>
          let (e, k) = kSetNonblock K fd (ssKernel s); s = s\<lparr>ssKernel := k\<rparr>
          in case e of Some err \<Rightarrow> Some (Some err, s) | None \<Rightarrow> Some (None, s\<lparr>ssFd := Some fd\<rparr>))
   }"

definition ss_Bind :: "'k kernel \<Rightarrow> sockaddr_nl \<Rightarrow> (nl_error option, 'k sysSocket) call" where
  "ss_Bind K sa s = map_option (\<lambda>(r, s). (flat_err r, s)) (ss_control (\<lambda>fd. kBind K fd sa) s)"

definition ss_Close :: "'k kernel \<Rightarrow> (nl_error option, 'k sysSocket) call" where
  "ss_Close K s =
     (let (e, k) = (case ssFd s of None \<Rightarrow> (Some ErrInvalid, ssKernel s) | Some fd \<Rightarrow> kFileClose K fd (ssKernel s))
      in map_option (\<lambda>s. (e, s)) (g_stop K (s\<lparr>ssKernel := k, ssClosed := True\<rparr>)))"

definition ss_FD :: "'k sysSocket \<Rightarrow> int" where
  "ss_FD s = (case ssFd s of None \<Rightarrow> -1 | Some fd \<Rightarrow> fd)"

definition ss_Getsockname :: "'k kernel \<Rightarrow> (nl_error + sockaddr_nl, 'k sysSocket) call" where
  "ss_Getsockname K s = map_option (\<lambda>(r, s). (flat_res r, s)) (ss_control (kGetsockname K) s)"

definition ss_Recvmsg ::
  "'k kernel \<Rightarrow> byte list \<Rightarrow> int \<Rightarrow> (nl_error + int \<times> byte list, 'k sysSocket) call" where
  "ss_Recvmsg K p flags s =
     map_option (\<lambda>(r, s). (flat_res r, s))
       (ss_read K (\<lambda>fd k. let (r, k) = kRecvmsg K fd p flags k in ((r \<noteq> Inl EAGAIN, r), k)) s)"

definition ss_Sendmsg ::
  "'k kernel \<Rightarrow> byte list \<Rightarrow> sockaddr_nl \<Rightarrow> int \<Rightarrow> (nl_error option, 'k sysSocket) call" where
  "ss_Sendmsg K p addr flags s =
     map_option (\<lambda>(r, s). (flat_err r, s))
       (ss_write K (\<lambda>fd k. let (e, k) = kSendmsg K fd p addr flags k in ((e \<noteq> Some EAGAIN, e), k)) s)"

definition ss_file_deadline :: "'k kernel \<Rightarrow> bool \<Rightarrow> bool \<Rightarrow> int \<Rightarrow> (nl_error option, 'k sysSocket) call" where
  "ss_file_deadline K r w t s =
     (case ssFd s of
        None \<Rightarrow> Some (Some ErrInvalid, s)
      | Some fd \<Rightarrow> let (e, k) = kFileSetDeadline K r w fd t (ssKernel s) in Some (e, s\<lparr>ssKernel := k\<rparr>))"

definition ss_SetDeadline :: "'k kernel \<Rightarrow> int \<Rightarrow> (nl_error option, 'k sysSocket) call" where
  "ss_SetDeadline K = ss_file_deadline K True True"

definition ss_SetReadDeadline :: "'k kernel \<Rightarrow> int \<Rightarrow> (nl_error option, 'k sysSocket) call" where
  "ss_SetReadDeadline K = ss_file_deadline K True False"

definition ss_SetWriteDeadline :: "'k kernel \<Rightarrow> int \<Rightarrow> (nl_error option, 'k sysSocket) call" where
  "ss_SetWriteDeadline K = ss_file_deadline K False True"

definition ss_SetSockoptInt :: "'k kernel \<Rightarrow> int \<Rightarrow> int \<Rightarrow> int \<Rightarrow> (nl_error option, 'k sysSocket) call" where
  "ss_SetSockoptInt K level opt v s =
     (if v < - (2 ^ 31) \<or> v > 2 ^ 31 - 1 then Some (Some EINVAL, s)
      else map_option (\<lambda>(r, s). (flat_err r, s)) (ss_control (\<lambda>fd. kSetsockoptInt K fd level opt v) s))"

definition ss_SetSockoptSockFprog ::
  "'k kernel \<Rightarrow> int \<Rightarrow> int \<Rightarrow> uint16 \<times> uint64 list \<Rightarrow> (nl_error option, 'k sysSocket) call" where
  "ss_SetSockoptSockFprog K level opt fprog s =
     map_option (\<lambda>(r, s). (flat_err r, s)) (ss_control (\<lambda>fd. kSetsockoptSockFprog K fd level opt fprog) s)"

definition sys_ops :: "'k kernel \<Rightarrow> 'k sysSocket lsocket" where
  "sys_ops K =
     \<lparr>lsBind = ss_Bind K, lsClose = ss_Close K, lsFD = ss_FD, lsGetsockname = ss_Getsockname K,
      lsRecvmsg = ss_Recvmsg K, lsSendmsg = ss_Sendmsg K, lsSetDeadline = ss_SetDeadline K,
      lsSetReadDeadline = ss_SetReadDeadline K, lsSetWriteDeadline = ss_SetWriteDeadline K,
      lsSetSockoptSockFprog = ss_SetSockoptSockFprog K, lsSetSockoptInt = ss_SetSockoptInt K\<rparr>"

definition dial ::
  "'k kernel \<Rightarrow> int \<Rightarrow> Config option \<Rightarrow> 'k \<Rightarrow>
   ((nl_error + 'k sysSocket lconn \<times> uint32) \<times> 'k sysSocket option) option" where
  \<comment> \<open>the socket that was made, if any, is returned next to the result\<close>
  "dial K family config k =
     (let config = (case config of None \<Rightarrow> zeroConfig | Some c \<Rightarrow> c)
      in case fst (newSysSocket K config k) of
           Inl e \<Rightarrow> Some (Inl e, None)
         | Inr sock \<Rightarrow> do {
             (e, sock) \<leftarrow> ss_Socket K family sock;
             (case e of
                Some err \<Rightarrow> Some (Inl (SyscallError ''socket'' err), Some sock)
              | None \<Rightarrow> map_option (\<lambda>(r, s). (r, Some s)) (bind_socket (sys_ops K) (Some config) sock))
           })"

definition Dial ::
  "'k kernel \<Rightarrow> uint32 \<Rightarrow> int \<Rightarrow> Config option \<Rightarrow> 'k \<Rightarrow> (nl_error + 'k sysSocket lconn Conn) option" where
  "Dial K seed family config k = do {
     (r, _) \<leftarrow> dial K family config k;
     Some (case r of Inl e \<Rightarrow> Inl e | Inr (c, pid) \<Rightarrow> Inr (NewConn c pid seed))
   }"

subsection \<open>Datagrams and messages\<close>

definition padded :: "Message \<Rightarrow> Message" where
  "padded m = m\<lparr>mData := pad_data (unat (hLength (mHeader m)) - 16) (mData m)\<rparr>"

definition datagram :: "byte_order \<Rightarrow> Message list \<Rightarrow> byte list" where
  "datagram host ms = concat (map (\<lambda>m. header_bytes host (mHeader m) @ mData (padded m)) ms)"

lemma marshal_all_valid:
  assumes "\<forall>m \<in> set ms. valid_length (hLength (mHeader m))"
  shows "marshal_all host ms buf = Some (Inr (buf @ datagram host ms))"
  using assms
  by (induction ms arbitrary: buf) (simp_all add: datagram_def padded_def MarshalBinary_layout)

lemma ParseNetlinkMessage_Nil [simp]: "ParseNetlinkMessage host [] = Inr []"
  by (subst ParseNetlinkMessage.simps) simp

lemma ParseNetlinkMessage_Cons:
  assumes "valid_length (hLength h)" and "length d = unat (hLength h) - 16"
  shows "ParseNetlinkMessage host (header_bytes host h @ d @ rest) =
    map_sum id ((#) \<lparr>mHeader = h, mData = d\<rparr>) (ParseNetlinkMessage host rest)"
proof -
  let ?b = "header_bytes host h @ d @ rest"
  have n: "16 \<le> unat (hLength h)" using unat_length_valid [OF assms(1)] by simp
  then have l: "length (header_bytes host h @ d) = unat (hLength h)" using assms(2) by simp
  have a: "nlmsgAlign (uint (hLength h)) = int (unat (hLength h))"
    using assms(1) by (simp add: valid_length_iff)
  have d: "drop (unat (hLength h)) ?b = rest" "slice 16 (unat (hLength h)) ?b = d"
    using l n assms(2) by (simp_all add: slice_def)
  have u: "\<not> uint (hLength h) < 16" "\<not> int (length ?b) < nlmsgAlign (uint (hLength h))"
    using assms l a by (simp_all add: valid_length_def)
  have "\<not> length ?b < 16" "header_of host ?b = h" by simp_all
  then show ?thesis
    using u d a by (subst ParseNetlinkMessage.simps) (simp add: Let_def split: sum.split)
qed

lemma ParseNetlinkMessage_datagram:
  assumes "\<forall>m \<in> set ms. valid_length (hLength (mHeader m))"
  shows "ParseNetlinkMessage host (datagram host ms) = Inr (map padded ms)"
  using assms
proof (induction ms)
  case (Cons m ms)
  have "\<lparr>mHeader = mHeader m, mData = mData (padded m)\<rparr> = padded m"
    by (simp add: padded_def)
  with Cons ParseNetlinkMessage_Cons [of "mHeader m" "mData (padded m)" host "datagram host ms"]
  show ?case by (simp add: datagram_def padded_def)
qed (simp add: datagram_def)

subsection \<open>Receiving a datagram\<close>

lemma nlmsgAlign_le: "4 dvd m \<Longrightarrow> n \<le> m \<Longrightarrow> nlmsgAlign n \<le> m"
  by (elim dvdE) (simp add: nlmsgAlign_eq)

text \<open>What the peek loop relies on: a peek returns as much of the oldest pending datagram as the
  buffer holds and leaves it there, a read removes it.\<close>

locale datagram_socket =
  fixes recvmsg :: "byte list \<Rightarrow> int \<Rightarrow> (nl_error + int \<times> byte list, 's) call"
    and pending :: "'s \<Rightarrow> byte list list"
    and up :: "'s \<Rightarrow> bool"
  assumes recvmsg_head: "up s \<Longrightarrow> pending s = d # q \<Longrightarrow> flags \<in> {MSG_PEEK, 0} \<Longrightarrow>
      \<exists>s'. recvmsg p flags s =
          Some (Inr (int (min (length p) (length d)), take (length p) d @ drop (length d) p), s') \<and>
        up s' \<and> pending s' = (if flags = MSG_PEEK then d # q else q)"
begin

lemma peek_loop_returns:
  assumes "lsRecvmsg ls = recvmsg" and "d \<noteq> []" and "up (lcS c)" and "pending (lcS c) = d # q" and "0 < n"
  shows "\<exists>k s'. peek_loop ls (replicate n 0) c =
      Some (Inr (d @ replicate (n * 2 ^ k - length d) 0), c\<lparr>lcS := s'\<rparr>) \<and>
    length d < n * 2 ^ k \<and> up s' \<and> pending s' = d # q"
  using assms(3-5)
proof (induction "Suc (length d) - n" arbitrary: n c rule: less_induct)
  case less
  let ?p = "replicate n 0 :: byte list"
  obtain s1 where r: "recvmsg ?p MSG_PEEK (lcS c) =
      Some (Inr (int (min n (length d)), take n d @ drop (length d) ?p), s1)"
    and s1: "up s1" "pending s1 = d # q"
    using recvmsg_head [OF less.prems(1,2), of MSG_PEEK ?p] by auto
  show ?case
  proof (cases "length d < n")
    case True
    then have "peek_loop ls ?p c = Some (Inr (d @ replicate (n * 2 ^ 0 - length d) 0), c\<lparr>lcS := s1\<rparr>)"
      using r assms(1,2) by (subst peek_loop.simps) (simp add: on_ls_def)
    then show ?thesis using s1 True by (metis mult.right_neutral power_0)
  next
    case False
    then have "peek_loop ls ?p c = peek_loop ls (replicate (n * 2) 0) (c\<lparr>lcS := s1\<rparr>)"
      using r assms(1,2) less.prems(3) by (subst peek_loop.simps) (simp add: on_ls_def)
    moreover have "Suc (length d) - n * 2 < Suc (length d) - n" using False less.prems(3) by simp
    from less.hyps [OF this, of "c\<lparr>lcS := s1\<rparr>"] s1 less.prems(3) obtain k s'
      where "peek_loop ls (replicate (n * 2) 0) (c\<lparr>lcS := s1\<rparr>) =
          Some (Inr (d @ replicate (n * 2 * 2 ^ k - length d) 0), c\<lparr>lcS := s'\<rparr>)"
        and "length d < n * 2 * 2 ^ k" "up s'" "pending s' = d # q"
      by auto
    ultimately show ?thesis by (intro exI [of _ "Suc k"] exI [of _ s']) (simp add: mult.assoc)
  qed
qed

lemma Receive_datagram:
  assumes "lsRecvmsg ls = recvmsg" and "d \<noteq> []" and "up (lcS c)" and "pending (lcS c) = d # q"
    and "0 < pagesize" and "4 dvd pagesize"
  shows "\<exists>s'. lc_Receive host pagesize ls c =
      Some (ParseNetlinkMessage host (pad_data (nat (nlmsgAlign (int (length d)))) d), c\<lparr>lcS := s'\<rparr>) \<and>
    up s' \<and> pending s' = q"
proof -
  obtain k s1 where pk: "peek_loop ls (replicate pagesize 0) c =
        Some (Inr (d @ replicate (pagesize * 2 ^ k - length d) 0), c\<lparr>lcS := s1\<rparr>)"
    and len: "length d < pagesize * 2 ^ k" and s1: "up s1" "pending s1 = d # q"
    using peek_loop_returns [OF assms(1-5)] by blast
  let ?b = "d @ replicate (pagesize * 2 ^ k - length d) 0"
  obtain s2 where rd: "recvmsg ?b 0 s1 = Some (Inr (int (length d), ?b), s2)" "up s2" "pending s2 = q"
    using recvmsg_head [OF s1, of 0 ?b] len by (auto simp: MSG_PEEK_def)
  let ?n = "nat (nlmsgAlign (int (length d)))"
  have "int 4 dvd int (pagesize * 2 ^ k)" unfolding of_nat_dvd_iff using assms(6) by (rule dvd_mult2)
  moreover have "int (length d) \<le> int (pagesize * 2 ^ k)" unfolding of_nat_le_iff using len by simp
  ultimately have "nlmsgAlign (int (length d)) \<le> int (pagesize * 2 ^ k)"
    by (intro nlmsgAlign_le) simp_all
  then have "?n \<le> pagesize * 2 ^ k" unfolding nat_le_iff .
  then have "?n \<le> length ?b" using len by simp
  moreover have "length d \<le> ?n" using nlmsgAlign_ge [of "int (length d)"] by linarith
  moreover have "\<not> nlmsgAlign (int (length d)) < 0" using nlmsgAlign_ge [of "int (length d)"] by linarith
  ultimately have "get_slice 0 ?n ?b = Some (pad_data ?n d)"
    using len by (simp add: pad_data_def min_def)
  with pk rd assms(1) \<open>\<not> nlmsgAlign (int (length d)) < 0\<close> show ?thesis
    by (intro exI [of _ s2]) (simp add: lc_Receive_def on_ls_def)
qed

end

text \<open>The documented behaviour of the kernel for a netlink socket whose receive queue is not empty.\<close>

locale netlink_kernel =
  fixes K :: "'k kernel" and queue :: "int \<Rightarrow> 'k \<Rightarrow> byte list list"
  assumes kRecvmsg_head: "queue fd k = d # q \<Longrightarrow> flags \<in> {MSG_PEEK, 0} \<Longrightarrow>
      \<exists>k'. kRecvmsg K fd p flags k =
          (Inr (int (min (length p) (length d)), take (length p) d @ drop (length d) p), k') \<and>
        queue fd k' = (if flags = MSG_PEEK then d # q else q)"

definition ss_up :: "'k sysSocket \<Rightarrow> bool" where
  "ss_up s \<longleftrightarrow> \<not> ssClosed s \<and> gRunning (ssG s) \<and> ssFd s \<noteq> None"

sublocale netlink_kernel \<subseteq> datagram_socket "ss_Recvmsg K" "\<lambda>s. queue (the (ssFd s)) (ssKernel s)" ss_up
proof
  fix s :: "'k sysSocket" and d q flags p
  assume up: "ss_up s" and queue: "queue (the (ssFd s)) (ssKernel s) = d # q" and fl: "flags \<in> {MSG_PEEK, 0}"
  obtain fd where fd: "ssFd s = Some fd" using up by (auto simp: ss_up_def)
  obtain k' where k': "kRecvmsg K fd p flags (ssKernel s) =
      (Inr (int (min (length p) (length d)), take (length p) d @ drop (length d) p), k')"
      "queue fd k' = (if flags = MSG_PEEK then d # q else q)"
    using kRecvmsg_head [of fd "ssKernel s" d q flags p] queue fl fd by auto
  then have "ss_Recvmsg K p flags s =
      Some (Inr (int (min (length p) (length d)), take (length p) d @ drop (length d) p), s\<lparr>ssKernel := k'\<rparr>)"
    using up fd
    by (simp add: ss_Recvmsg_def ss_read_def ss_up_def g_run_def fdread_def poll_loop.simps flat_res_def)
  then show "\<exists>s'. ss_Recvmsg K p flags s =
      Some (Inr (int (min (length p) (length d)), take (length p) d @ drop (length d) p), s') \<and> ss_up s' \<and>
      queue (the (ssFd s')) (ssKernel s') = (if flags = MSG_PEEK then d # q else q)"
    using up fd k'(2) by (simp add: ss_up_def)
qed

context netlink_kernel
begin

lemma sys_Receive_datagram:
  assumes "d \<noteq> []" and "ss_up (lcS c)" and "queue (the (ssFd (lcS c))) (ssKernel (lcS c)) = d # q"
    and "0 < pagesize" and "4 dvd pagesize"
  shows "\<exists>s'. lc_Receive host pagesize (sys_ops K) c =
      Some (ParseNetlinkMessage host (pad_data (nat (nlmsgAlign (int (length d)))) d), c\<lparr>lcS := s'\<rparr>) \<and>
    ss_up s' \<and> queue (the (ssFd s')) (ssKernel s') = q"
  using assms by (intro Receive_datagram) (simp_all add: sys_ops_def)

end

subsection \<open>Opening and closing\<close>

lemma g_stop_running: "g_stop K s = Some s' \<Longrightarrow> \<not> gRunning (ssG s') \<and> ssClosed s' = ssClosed s"
  by (auto simp: g_stop_def Let_def split: if_splits)

lemma ss_Close_state: "ss_Close K s = Some (e, s') \<Longrightarrow> \<not> gRunning (ssG s') \<and> ssClosed s'"
  by (auto simp: ss_Close_def split: prod.splits dest!: g_stop_running)

lemma g_run_frame: "g_run f s = Some (r, s') \<Longrightarrow> ssG s' = ssG s \<and> ssClosed s' = ssClosed s \<and> ssFd s' = ssFd s"
  by (auto simp: g_run_def split: if_splits)

lemma ss_control_frame: "ss_control f s = Some (r, s') \<Longrightarrow> ssG s' = ssG s \<and> ssClosed s' = ssClosed s"
  by (auto simp: ss_control_def split: if_splits dest!: g_run_frame)

lemma ss_Socket_frame: "ss_Socket K family s = Some (r, s') \<Longrightarrow> ssG s' = ssG s"
  by (auto simp: ss_Socket_def ss_do_def Let_def
      split: Option.bind_split_asm if_split_asm prod.split_asm sum.split_asm option.split_asm
      dest!: g_run_frame)

lemma newSysSocket_running: "fst (newSysSocket K config k) = Inr s \<Longrightarrow> gRunning (ssG s)"
  by (auto simp: newSysSocket_def newLockedNetNSGoroutine_def Let_def
      split: sum.splits option.splits if_splits prod.splits)

lemma bind_socket_error:
  assumes "bind_socket (sys_ops K) config s = Some (Inl e, s')"
  shows "\<not> gRunning (ssG s') \<and> (\<forall>err. e \<noteq> SyscallError ''socket'' err)"
  using assms
  by (auto simp: bind_socket_def sys_ops_def Let_def
      split: Option.bind_split_asm option.split_asm sum.split_asm dest!: ss_Close_state)

text \<open>Messages with valid lengths go to the kernel as one datagram, and the receiving end parses
  that datagram into the same messages, their data padded to the length the header tells.\<close>
lemma linux_send_parse:
  assumes "\<forall>m \<in> set ms. 16 \<le> uint (hLength (mHeader m)) \<and> 4 dvd uint (hLength (mHeader m))"
  shows "\<exists>b. lc_SendMessages host ls ms c = on_ls_wrap ''sendmsg'' (lsSendmsg ls b netlink_addr 0) c \<and>
    ParseNetlinkMessage host b = Inr (map padded ms)"
proof -
  have "\<forall>m \<in> set ms. valid_length (hLength (mHeader m))" using assms by (simp add: valid_length_def)
  then show ?thesis
    using marshal_all_valid [of ms host "[]"] ParseNetlinkMessage_datagram [of ms host]
    by (intro exI [of _ "datagram host ms"]) (simp add: lc_SendMessages_def)
qed

text \<open>C6. Over a kernel that behaves as documented, an open socket with a pending datagram of any size
  receives it whole: the buffer grows until it fits, \<open>Receive\<close> returns without a panic what the
  datagram parses to, and exactly that datagram is taken off the queue.\<close>
theorem linux_receive_datagram:
  assumes "netlink_kernel K queue" and "ss_up (lcS c)" and "d \<noteq> []"
    and "queue (the (ssFd (lcS c))) (ssKernel (lcS c)) = d # q" and "0 < pagesize" and "4 dvd pagesize"
  shows "\<exists>s'. lc_Receive host pagesize (sys_ops K) c =
      Some (ParseNetlinkMessage host (pad_data (nat (nlmsgAlign (int (length d)))) d), c\<lparr>lcS := s'\<rparr>) \<and>
    ss_up s' \<and> queue (the (ssFd s')) (ssKernel s') = q"
  using netlink_kernel.sys_Receive_datagram [OF assms(1)] assms(2-6) by blast

text \<open>After \<open>Close\<close> every operation on the socket fails with \<open>EBADF\<close> without reaching the kernel,
  but a second \<open>Close\<close> does not return: it panics on closing the channel again.\<close>
lemma closed_socket:
  assumes "ss_Close K s = Some (e, s')"
  shows "ss_Bind K sa s' = Some (Some EBADF, s') \<and> ss_Getsockname K s' = Some (Inl EBADF, s') \<and>
    ss_Recvmsg K p flags s' = Some (Inl EBADF, s') \<and> ss_Sendmsg K p sa flags s' = Some (Some EBADF, s') \<and>
    ss_SetSockoptSockFprog K level opt prog s' = Some (Some EBADF, s') \<and>
    ss_SetSockoptInt K level opt 1 s' = Some (Some EBADF, s') \<and> ss_Close K s' = None"
  using ss_Close_state [OF assms]
  by (simp add: ss_Bind_def ss_Getsockname_def ss_Recvmsg_def ss_Sendmsg_def ss_SetSockoptSockFprog_def
      ss_SetSockoptInt_def ss_control_def ss_read_def ss_write_def ss_Close_def g_stop_def flat_err_def
      flat_res_def split: prod.split)

text \<open>When \<open>dial\<close> fails after the socket's goroutine was started, the goroutine has been stopped
  unless the failing call was \<open>socket\<close> itself: then it is left running, and nobody holds a
  reference to stop it.\<close>
lemma dial_failure_cleanup:
  assumes "dial K family config k = Some (Inl e, Some s)"
  shows "gRunning (ssG s) \<longleftrightarrow> (\<exists>err. e = SyscallError ''socket'' err)"
proof -
  let ?cfg = "case config of None \<Rightarrow> zeroConfig | Some c \<Rightarrow> c"
  obtain s0 where s0: "fst (newSysSocket K ?cfg k) = Inr s0"
    using assms by (auto simp: dial_def Let_def split: sum.splits)
  then obtain r s1 where r: "ss_Socket K family s0 = Some (r, s1)"
    using assms by (cases "ss_Socket K family s0") (auto simp: dial_def Let_def)
  have g: "gRunning (ssG s1)" using ss_Socket_frame [OF r] newSysSocket_running [OF s0] by simp
  show ?thesis
  proof (cases r)
    case None
    then have "bind_socket (sys_ops K) (Some ?cfg) s1 = Some (Inl e, s)"
      using assms s0 r by (auto simp: dial_def Let_def)
    then show ?thesis using bind_socket_error by blast
  next
    case (Some err)
    then show ?thesis using assms s0 r g by (auto simp: dial_def Let_def)
  qed
qed

text \<open>Entering a network namespace is best effort unless one is asked for: the goroutine fails to
  start only if a handle cannot be obtained or an explicit namespace cannot be entered, and it
  restores its thread's namespace at the end exactly if it changed it.\<close>
lemma netns_best_effort:
  "let n1 = getNS k; n2 = getNS (snd n1)
   in case fst (newLockedNetNSGoroutine K fd getNS k) of
        Inl e \<Rightarrow> fst n1 = Inl e \<or> (\<exists>c. fst n1 = Inr c) \<and> fst n2 = Inl e \<or>
          fd \<noteq> 0 \<and> (\<exists>t. fst n2 = Inr t \<and> fst (ns_Set K t fd (snd n2)) = Some e)
      | Inr g \<Rightarrow> gRunning g \<and> (\<exists>c. fst n1 = Inr c \<and> fst n2 = Inr (gThreadNS g) \<and>
          (gRestore g \<longleftrightarrow> fst (ns_Set K (gThreadNS g) (if fd = 0 then ns_FD c else fd) (snd n2)) = None) \<and>
          (gRestore g \<or> fd = 0))"
  by (auto simp: newLockedNetNSGoroutine_def Let_def split: sum.splits option.splits if_splits prod.splits)

subsection \<open>A loopback kernel\<close>

definition loop_kernel :: "byte list list kernel" where
  \<comment> \<open>what is sent is queued for receiving; no namespaces\<close>
  "loop_kernel =
     \<lparr>kSocket = (\<lambda>cloexec family k. (Inr 3, k)), kCloseOnExec = (\<lambda>fd k. k),
      kSetNonblock = (\<lambda>fd k. (None, k)), kBind = (\<lambda>fd sa k. (None, k)),
      kGetsockname = (\<lambda>fd k. (Inr netlink_addr, k)),
      kRecvmsg = (\<lambda>fd p flags k. case k of
         [] \<Rightarrow> (Inl EAGAIN, k)
       | d # q \<Rightarrow> (Inr (int (min (length p) (length d)), take (length p) d @ drop (length d) p),
                  if flags = MSG_PEEK then k else q)),
      kSendmsg = (\<lambda>fd p sa flags k. (None, k @ [p])),
      kSetsockoptInt = (\<lambda>fd level opt v k. (None, k)),
      kSetsockoptSockFprog = (\<lambda>fd level opt v k. (None, k)),
      kFileSetDeadline = (\<lambda>r w fd t k. (None, k)), kFileClose = (\<lambda>fd k. (None, k)),
      kWaitRead = (\<lambda>fd k. None), kWaitWrite = (\<lambda>fd k. None),
      kOpenThreadNS = (\<lambda>k. (Inl ENOENT, k)), kSetns = (\<lambda>fd k. (None, k))\<rparr>"

definition loop_socket :: "byte list list \<Rightarrow> byte list list sysSocket lconn" where
  "loop_socket q = \<lparr>lcS = \<lparr>ssFd = Some 3, ssClosed = False,
     ssG = \<lparr>gThreadNS = \<lparr>nsF = 0, nsDisabled = True\<rparr>, gRestore = False, gRunning = True\<rparr>,
     ssKernel = q\<rparr>, lcSa = netlink_addr\<rparr>"

interpretation lk: netlink_kernel loop_kernel "\<lambda>fd k. k"
  by unfold_locales (auto simp: loop_kernel_def)

definition sample_header :: Header where
  "sample_header = \<lparr>hLength = 20, hType = 5, hFlags = 1, hSequence = 6, hPID = 1\<rparr>"

theorem linux_receive_datagram_witness:
  "\<exists>s'. lc_Receive LittleEndian 4096 (sys_ops loop_kernel) (loop_socket [replicate 5000 1, [2]]) =
      Some (ParseNetlinkMessage LittleEndian (replicate 5000 1), (loop_socket [])\<lparr>lcS := s'\<rparr>) \<and>
    ss_up s' \<and> ssKernel s' = [[2]]"
proof -
  have "pad_data (nat (nlmsgAlign (int (length (replicate 5000 (1 :: byte)))))) (replicate 5000 1) =
      replicate 5000 1"
    by (rule pad_data_id) (simp add: nlmsgAlign_eq)
  then show ?thesis
    using linux_receive_datagram [OF lk.netlink_kernel_axioms, of "loop_socket [replicate 5000 1, [2]]"
        "replicate 5000 1" "[[2]]" 4096 LittleEndian]
    by (simp add: loop_socket_def ss_up_def)
qed

end
