(* ===== verification/Deque.thy ===== *)
theory Deque
  imports Prelude
begin

unbundle bit_operations_syntax

text \<open>
  \<^verbatim>\<open>util/mem/queue.go\<close>: a double-ended queue in a circular buffer whose size is a power of two.
  The element type \<open>interface{}\<close> is \<open>'a option\<close>, \<open>None\<close> being \<open>nil\<close>. An operation is \<open>None\<close>
  where the code panics (empty queue, index out of range).

  The queue refines a list: \<open>contents\<close> reads the elements off the buffer, \<open>deque_inv\<close> is the
  representation invariant.
\<close>

definition minCapacity :: nat where
  "minCapacity = 16"

record 'a Deque =
  dqBuf :: "'a option list"
  dqHead :: nat
  dqTail :: nat
  dqCount :: nat
  dqMinCap :: nat

function double_until :: "nat \<Rightarrow> int \<Rightarrow> nat option" where
  \<comment> \<open>\<open>for c < m { c <<= 1 }\<close>; past 2 to the 62 a 64-bit \<open>c\<close> wraps to negative and then zero and the
     loop never ends\<close>
  "double_until c m =
     (if m \<le> int c then Some c
      else if c = 0 \<or> c \<ge> 2 ^ 62 then None
      else double_until (2 * c) m)"
  by pat_completeness auto
termination by (relation "measure (\<lambda>(c, m). 2 ^ 63 - c)") auto

declare double_until.simps [simp del]

definition NewDeque :: "int list \<Rightarrow> 'a Deque option" where
  \<comment> \<open>\<open>New(size ...int)\<close>\<close>
  "NewDeque sizes =
     (let capacity = (if 1 \<le> length sizes then sizes ! 0 else 0);
          minimum = (if 2 \<le> length sizes then sizes ! 1 else 0)
      in do {
        minCap \<leftarrow> double_until minCapacity minimum;
        buf \<leftarrow> (if capacity \<noteq> 0
                then map_option (\<lambda>n. replicate n None) (double_until minCap capacity)
                else Some []);
        Some \<lparr>dqBuf = buf, dqHead = 0, dqTail = 0, dqCount = 0, dqMinCap = minCap\<rparr>
      })"

definition Cap :: "'a Deque \<Rightarrow> nat" where
  "Cap q = length (dqBuf q)"

definition Len :: "'a Deque \<Rightarrow> nat" where
  "Len q = dqCount q"

definition bit_mod :: "int \<Rightarrow> 'a Deque \<Rightarrow> nat" where
  \<comment> \<open>\<open>i & (len(q.buf) - 1)\<close>\<close>
  "bit_mod i q = nat (i AND (int (length (dqBuf q)) - 1))"

definition prev :: "'a Deque \<Rightarrow> nat \<Rightarrow> nat" where
  "prev q i = bit_mod (int i - 1) q"

definition next_pos :: "'a Deque \<Rightarrow> nat \<Rightarrow> nat" where
  "next_pos q i = bit_mod (int i + 1) q"

definition buf_set :: "nat \<Rightarrow> 'a option \<Rightarrow> 'a Deque \<Rightarrow> 'a Deque option" where
  "buf_set i x q = (if i < length (dqBuf q) then Some (q\<lparr>dqBuf := (dqBuf q)[i := x]\<rparr>) else None)"

definition buf_get :: "nat \<Rightarrow> 'a Deque \<Rightarrow> 'a option option" where
  "buf_get i q = (if i < length (dqBuf q) then Some (dqBuf q ! i) else None)"

definition resize :: "'a Deque \<Rightarrow> 'a Deque option" where
  "resize q = do {
     let newBuf = replicate (dqCount q * 2) None;
     newBuf \<leftarrow> (if dqTail q > dqHead q
                then map_option (\<lambda>s. go_copy 0 s newBuf) (get_slice (dqHead q) (dqTail q) (dqBuf q))
                else do {
                  s1 \<leftarrow> get_slice (dqHead q) (length (dqBuf q)) (dqBuf q);
                  s2 \<leftarrow> get_slice 0 (dqTail q) (dqBuf q);
                  Some (go_copy (copy_count 0 s1 newBuf) s2 (go_copy 0 s1 newBuf))
                });
     Some (q\<lparr>dqHead := 0, dqTail := dqCount q, dqBuf := newBuf\<rparr>)
   }"

definition growIfFull :: "'a Deque \<Rightarrow> 'a Deque option" where
  "growIfFull q =
     (if dqCount q \<noteq> length (dqBuf q) then Some q
      else if length (dqBuf q) = 0 then
        let q = (if dqMinCap q = 0 then q\<lparr>dqMinCap := minCapacity\<rparr> else q)
        in Some (q\<lparr>dqBuf := replicate (dqMinCap q) None\<rparr>)
      else resize q)"

definition shrinkIfExcess :: "'a Deque \<Rightarrow> 'a Deque option" where
  "shrinkIfExcess q =
     (if length (dqBuf q) > dqMinCap q \<and> dqCount q * 4 = length (dqBuf q) then resize q else Some q)"

definition PushBack :: "'a option \<Rightarrow> 'a Deque \<Rightarrow> 'a Deque option" where
  "PushBack x q = do {
     q \<leftarrow> growIfFull q;
     q \<leftarrow> buf_set (dqTail q) x q;
     Some (q\<lparr>dqTail := next_pos q (dqTail q), dqCount := dqCount q + 1\<rparr>)
   }"

definition PushFront :: "'a option \<Rightarrow> 'a Deque \<Rightarrow> 'a Deque option" where
  "PushFront x q = do {
     q \<leftarrow> growIfFull q;
     let q = q\<lparr>dqHead := prev q (dqHead q)\<rparr>;
     q \<leftarrow> buf_set (dqHead q) x q;
     Some (q\<lparr>dqCount := dqCount q + 1\<rparr>)
   }"

definition PopFront :: "'a Deque \<Rightarrow> ('a option \<times> 'a Deque) option" where
  "PopFront q =
     (if dqCount q \<le> 0 then None
      else do {
        ret \<leftarrow> buf_get (dqHead q) q;
        q \<leftarrow> buf_set (dqHead q) None q;
        q \<leftarrow> shrinkIfExcess (q\<lparr>dqHead := next_pos q (dqHead q), dqCount := dqCount q - 1\<rparr>);
        Some (ret, q)
      })"

definition PopBack :: "'a Deque \<Rightarrow> ('a option \<times> 'a Deque) option" where
  "PopBack q =
     (if dqCount q \<le> 0 then None
      else do {
        let q = q\<lparr>dqTail := prev q (dqTail q)\<rparr>;
        ret \<leftarrow> buf_get (dqTail q) q;
        q \<leftarrow> buf_set (dqTail q) None q;
        q \<leftarrow> shrinkIfExcess (q\<lparr>dqCount := dqCount q - 1\<rparr>);
        Some (ret, q)
      })"

definition Front :: "'a Deque \<Rightarrow> 'a option option" where
  "Front q = (if dqCount q \<le> 0 then None else buf_get (dqHead q) q)"

definition Back :: "'a Deque \<Rightarrow> 'a option option" where
  "Back q = (if dqCount q \<le> 0 then None else buf_get (prev q (dqTail q)) q)"

definition At :: "int \<Rightarrow> 'a Deque \<Rightarrow> 'a option option" where
  "At i q = (if i < 0 \<or> i \<ge> int (dqCount q) then None else buf_get (bit_mod (int (dqHead q) + i) q) q)"

definition SetAt :: "int \<Rightarrow> 'a option \<Rightarrow> 'a Deque \<Rightarrow> 'a Deque option" where
  "SetAt i x q =
     (if i < 0 \<or> i \<ge> int (dqCount q) then None else buf_set (bit_mod (int (dqHead q) + i) q) x q)"

fun clear_loop :: "nat \<Rightarrow> nat \<Rightarrow> 'a Deque \<Rightarrow> 'a Deque option" where
  \<comment> \<open>the fuel is the size of the buffer; \<open>Clear\<close> is shown to return\<close>
  "clear_loop fuel h q =
     (if h = dqTail q then Some q
      else case fuel of
             0 \<Rightarrow> None
           | Suc fuel \<Rightarrow> do {
               q \<leftarrow> buf_set h None q;
               clear_loop fuel (bit_mod (int h + 1) q) q
             })"

declare clear_loop.simps [simp del]

definition Clear :: "'a Deque \<Rightarrow> 'a Deque option" where
  "Clear q = do {
     q \<leftarrow> clear_loop (length (dqBuf q)) (dqHead q) q;
     Some (q\<lparr>dqHead := 0, dqTail := 0, dqCount := 0\<rparr>)
   }"

fun rotate_back :: "nat \<Rightarrow> 'a Deque \<Rightarrow> 'a Deque option" where
  "rotate_back 0 q = Some q"
| "rotate_back (Suc n) q = do {
     let q = q\<lparr>dqHead := bit_mod (int (dqHead q) - 1) q, dqTail := bit_mod (int (dqTail q) - 1) q\<rparr>;
     x \<leftarrow> buf_get (dqTail q) q;
     q \<leftarrow> buf_set (dqHead q) x q;
     q \<leftarrow> buf_set (dqTail q) None q;
     rotate_back n q
   }"

fun rotate_front :: "nat \<Rightarrow> 'a Deque \<Rightarrow> 'a Deque option" where
  "rotate_front 0 q = Some q"
| "rotate_front (Suc n) q = do {
     x \<leftarrow> buf_get (dqHead q) q;
     q \<leftarrow> buf_set (dqTail q) x q;
     q \<leftarrow> buf_set (dqHead q) None q;
     rotate_front n (q\<lparr>dqHead := bit_mod (int (dqHead q) + 1) q, dqTail := bit_mod (int (dqTail q) + 1) q\<rparr>)
   }"

definition Rotate :: "int \<Rightarrow> 'a Deque \<Rightarrow> 'a Deque option" where
  "Rotate n q =
     (if dqCount q \<le> 1 then Some q
      else let n = go_rem n (int (dqCount q))
           in if n = 0 then Some q
              else if dqHead q = dqTail q
              then Some (q\<lparr>dqHead := bit_mod (int (dqHead q) + n) q, dqTail := bit_mod (int (dqTail q) + n) q\<rparr>)
              else if n < 0 then rotate_back (nat (- n)) q
              else rotate_front (nat n) q)"

definition SetMinCapacity :: "nat \<Rightarrow> 'a Deque \<Rightarrow> 'a Deque" where
  \<comment> \<open>as a 64-bit \<open>int\<close>, \<open>1 << e\<close> is negative for 63 and zero beyond\<close>
  "SetMinCapacity e q =
     (if e < 63 \<and> 2 ^ e > minCapacity then q\<lparr>dqMinCap := 2 ^ e\<rparr> else q\<lparr>dqMinCap := minCapacity\<rparr>)"

subsection \<open>The list a queue represents\<close>

definition contents :: "'a Deque \<Rightarrow> 'a option list" where
  "contents q = take (dqCount q) (rotate (dqHead q) (dqBuf q))"

definition deque_inv :: "'a Deque \<Rightarrow> bool" where
  "deque_inv q \<longleftrightarrow>
     (dqBuf q = [] \<and> dqHead q = 0 \<and> dqTail q = 0 \<and> dqCount q = 0 \<or>
      (\<exists>k. length (dqBuf q) = 2 ^ k) \<and> 16 \<le> length (dqBuf q) \<and> dqMinCap q \<noteq> 0 \<and>
      dqHead q < length (dqBuf q) \<and> dqCount q \<le> length (dqBuf q) \<and>
      dqTail q = (dqHead q + dqCount q) mod length (dqBuf q)) \<and>
     (dqMinCap q = 0 \<or> (\<exists>j. dqMinCap q = 2 ^ j \<and> 16 \<le> dqMinCap q))"

text \<open>The invariant once the buffer is there, without the minimum capacity.\<close>

definition ring_ok :: "'a Deque \<Rightarrow> bool" where
  "ring_ok q \<longleftrightarrow> (\<exists>k. length (dqBuf q) = 2 ^ k) \<and> dqHead q < length (dqBuf q) \<and>
     dqCount q \<le> length (dqBuf q) \<and> dqTail q = (dqHead q + dqCount q) mod length (dqBuf q)"

lemma and_mask_mod: "(i :: int) AND (2 ^ k - 1) = i mod 2 ^ k"
  by (simp flip: mask_eq_exp_minus_1 take_bit_eq_mask take_bit_eq_mod)

lemma bit_mod_eq: "length (dqBuf q) = 2 ^ k \<Longrightarrow> bit_mod i q = nat (i mod int (length (dqBuf q)))"
  by (simp add: bit_mod_def and_mask_mod)

lemma next_pos_eq:
  assumes "length (dqBuf q) = 2 ^ k"
  shows "next_pos q i = (i + 1) mod length (dqBuf q)"
proof -
  have "(int i + 1) mod int (length (dqBuf q)) = int ((i + 1) mod length (dqBuf q))"
    by (simp add: zmod_int add.commute)
  then show ?thesis unfolding next_pos_def bit_mod_eq [OF assms] by simp
qed

lemma prev_eq:
  assumes "length (dqBuf q) = 2 ^ k"
  shows "prev q i = (i + (length (dqBuf q) - 1)) mod length (dqBuf q)"
proof -
  let ?L = "length (dqBuf q)"
  have pos: "0 < ?L" using assms by simp
  have "(int i - 1) mod int ?L = (int i - 1 + int ?L) mod int ?L" by simp
  also have "\<dots> = int (i + (?L - 1)) mod int ?L" using pos by (simp add: of_nat_diff Suc_le_eq algebra_simps)
  also have "\<dots> = int ((i + (?L - 1)) mod ?L)" by (rule zmod_int [symmetric])
  finally show ?thesis unfolding prev_def bit_mod_eq [OF assms] by simp
qed

lemma length_contents [simp]: "dqCount q \<le> length (dqBuf q) \<Longrightarrow> length (contents q) = dqCount q"
  by (simp add: contents_def)

lemma nth_contents:
  assumes "i < dqCount q" and "dqCount q \<le> length (dqBuf q)"
  shows "contents q ! i = dqBuf q ! ((dqHead q + i) mod length (dqBuf q))"
  using assms by (simp add: contents_def nth_rotate)

lemma mod_add_inj_less:
  fixes i j L :: nat
  assumes "i < j" and "j < L"
  shows "(h + i) mod L \<noteq> (h + j) mod L"
proof
  assume "(h + i) mod L = (h + j) mod L"
  then have "L dvd (h + j) - (h + i)" using assms(1) by (metis mod_eq_dvd_iff_nat add_le_cancel_left less_imp_le)
  then have "L dvd j - i" by simp
  moreover have "0 < j - i" "j - i < L" using assms by auto
  ultimately show False by (simp add: nat_dvd_not_less)
qed

lemma mod_add_inj:
  fixes i j L :: nat
  assumes "i < L" and "j < L"
  shows "(h + i) mod L = (h + j) mod L \<longleftrightarrow> i = j"
  using mod_add_inj_less [of i j L h] mod_add_inj_less [of j i L h] assms
  by (metis linorder_neqE_nat)

subsection \<open>Rings\<close>

definition ring :: "'a list \<Rightarrow> nat \<Rightarrow> nat \<Rightarrow> 'a list" where
  \<comment> \<open>\<open>n\<close> elements of a circular buffer from position \<open>h\<close> on\<close>
  "ring b h n = take n (rotate h b)"

lemma contents_ring: "contents q = ring (dqBuf q) (dqHead q) (dqCount q)"
  by (simp add: contents_def ring_def)

lemma length_ring [simp]: "n \<le> length b \<Longrightarrow> length (ring b h n) = n"
  by (simp add: ring_def)

lemma nth_ring [simp]: "i < n \<Longrightarrow> n \<le> length b \<Longrightarrow> ring b h n ! i = b ! ((h + i) mod length b)"
  by (simp add: ring_def nth_rotate)

lemma ring_update_outside:
  assumes "n \<le> m" and "m < length b"
  shows "ring (b[(h + m) mod length b := x]) h n = ring b h n"
  using assms by (intro nth_equalityI) (auto simp: nth_list_update mod_add_inj)

lemma ring_push_back:
  assumes "n < length b"
  shows "ring (b[(h + n) mod length b := x]) h (Suc n) = ring b h n @ [x]"
proof -
  have "(h + n) mod length b < length b" using assms by (intro mod_less_divisor) linarith
  with assms show ?thesis
    by (intro nth_equalityI) (auto simp: nth_append nth_list_update mod_add_inj less_Suc_eq)
qed

lemma ring_Suc:
  assumes "Suc n \<le> length b" and "p < length b"
  shows "ring b p (Suc n) = b ! p # ring b ((p + 1) mod length b) n"
proof (rule nth_equalityI)
  fix i assume "i < length (ring b p (Suc n))"
  then show "ring b p (Suc n) ! i = (b ! p # ring b ((p + 1) mod length b) n) ! i"
    using assms by (cases i) (simp_all add: mod_add_left_eq)
qed (use assms in simp)

lemma ring_snoc:
  assumes "Suc n \<le> length b"
  shows "ring b h (Suc n) = ring b h n @ [b ! ((h + n) mod length b)]"
  using assms by (intro nth_equalityI) (auto simp: nth_append less_Suc_eq)

lemma ring_update_before:
  assumes "n < length b" and "p < length b"
  shows "ring (b[p := x]) ((p + 1) mod length b) n = ring b ((p + 1) mod length b) n"
proof -
  have "p + 1 + (length b - 1) = p + length b" using assms by simp
  then have "(p + 1 + (length b - 1)) mod length b = p" using assms by simp
  then have "((p + 1) mod length b + (length b - 1)) mod length b = p" by (simp add: mod_add_left_eq)
  then show ?thesis
    using ring_update_outside [of n "length b - 1" b "(p + 1) mod length b" x] assms by simp
qed

lemma ring_push_front:
  assumes "n < length b" and "p < length b"
  shows "ring (b[p := x]) p (Suc n) = x # ring b ((p + 1) mod length b) n"
  using ring_update_before [OF assms, of x] ring_Suc [of n "b[p := x]" p] assms by simp

lemma ring_full_shift:
  "ring b ((h + m) mod length b) (length b) = rotate m (ring b h (length b))"
  by (simp add: ring_def rotate_conv_mod [symmetric] rotate_rotate add.commute)

lemma ring_split:
  assumes "h < length b" and "n \<le> length b"
  shows "ring b h n = take n (drop h b @ take h b)"
  using assms by (simp add: ring_def rotate_drop_take)

subsection \<open>Resizing\<close>

lemma go_copy_fresh:
  "length s \<le> n \<Longrightarrow> go_copy 0 s (replicate n z) = s @ replicate (n - length s) z"
  by (simp add: go_copy_fits)

lemma resize_contents:
  assumes "ring_ok q" and "0 < dqCount q"
  shows "resize q = Some (q\<lparr>dqHead := 0, dqTail := dqCount q,
    dqBuf := contents q @ replicate (dqCount q) None\<rparr>)"
proof -
  let ?b = "dqBuf q" and ?h = "dqHead q" and ?t = "dqTail q" and ?c = "dqCount q"
  from assms have h: "?h < length ?b" and c: "?c \<le> length ?b" and t: "?t = (?h + ?c) mod length ?b"
    by (simp_all add: ring_ok_def)
  have ring: "contents q = take ?c (drop ?h ?b @ take ?h ?b)"
    using ring_split [OF h c] by (simp add: contents_ring)
  show ?thesis
  proof (cases "?h + ?c < length ?b")
    case True
    then have "?t = ?h + ?c" using t by simp
    moreover have "contents q = slice ?h (?h + ?c) ?b" using ring True by (simp add: slice_def)
    ultimately show ?thesis
      using True assms(2) go_copy_fresh [of "contents q" "?c * 2" None] c
      by (simp add: resize_def)
  next
    case False
    then have t': "?t = ?h + ?c - length ?b" using t h c by (simp add: mod_if)
    then have le: "\<not> ?t > ?h" "?t \<le> length ?b" using c h by auto
    have "contents q = drop ?h ?b @ take ?t ?b" using ring False t' h le(1) by (auto simp: min_def add.commute)
    moreover have "go_copy (length ?b - ?h) (take ?t ?b) (drop ?h ?b @ replicate (?c * 2 - (length ?b - ?h)) None)
        = drop ?h ?b @ take ?t ?b @ replicate ?c None"
      using t' h c False by (subst go_copy_fits) (simp_all add: min_def)
    ultimately show ?thesis
      using le h c False go_copy_fresh [of "drop ?h ?b" "?c * 2" None]
      by (simp add: resize_def copy_count_def slice_def)
  qed
qed

lemma resize_ok:
  assumes "ring_ok q" and "0 < dqCount q" and "2 * dqCount q = 2 ^ k" and "resize q = Some q'"
  shows "ring_ok q' \<and> contents q' = contents q \<and> dqCount q' = dqCount q \<and> dqMinCap q' = dqMinCap q \<and>
    length (dqBuf q') = 2 * dqCount q"
proof -
  have c: "length (contents q) = dqCount q" using assms(1) by (simp add: ring_ok_def)
  have q': "q' = q\<lparr>dqHead := 0, dqTail := dqCount q, dqBuf := contents q @ replicate (dqCount q) None\<rparr>"
    using resize_contents [OF assms(1,2)] assms(4) by simp
  then have l: "length (dqBuf q') = 2 * dqCount q" using c by simp
  moreover have "contents q' = contents q" using c by (simp add: q' contents_def [of "_ \<lparr> dqBuf := _ \<rparr>"])
  moreover have "ring_ok q'" unfolding ring_ok_def l using assms(2,3) q' by auto
  ultimately show ?thesis using q' by simp
qed

lemma deque_inv_ring: "deque_inv q \<Longrightarrow> dqBuf q \<noteq> [] \<Longrightarrow> ring_ok q \<and> 16 \<le> length (dqBuf q)"
  by (auto simp: deque_inv_def ring_ok_def)

lemma deque_inv_intro:
  assumes "ring_ok q" and "16 \<le> length (dqBuf q)" and "dqMinCap q = 2 ^ j" and "16 \<le> dqMinCap q"
  shows "deque_inv q"
  using assms by (auto simp: deque_inv_def ring_ok_def)

lemma deque_inv_minCap:
  assumes "deque_inv q" and "dqBuf q \<noteq> []"
  obtains j where "dqMinCap q = 2 ^ j" and "16 \<le> dqMinCap q"
  using assms by (auto simp: deque_inv_def)

lemma growIfFull_ok:
  assumes "deque_inv q"
  obtains q' where "growIfFull q = Some q'" and "deque_inv q'" and "contents q' = contents q"
    and "dqCount q' = dqCount q" and "dqCount q < length (dqBuf q')"
proof (cases "dqBuf q = []")
  case True
  with assms obtain q' where q': "growIfFull q = Some q'"
    "q' = q\<lparr>dqMinCap := dqMinCap q', dqBuf := replicate (dqMinCap q') None\<rparr>"
    "\<exists>j. dqMinCap q' = 2 ^ j" "16 \<le> dqMinCap q'" "dqCount q = 0"
    using exI [of "\<lambda>j. 2 ^ j = (16 :: nat)" 4]
    by (cases "dqMinCap q = 0") (auto simp: growIfFull_def deque_inv_def minCapacity_def)
  then have "deque_inv q'" "contents q' = contents q" "dqCount q' = 0" "0 < length (dqBuf q')"
    using True assms by (auto simp: deque_inv_def contents_def)
  with q' that show ?thesis by simp
next
  case False
  have ok: "ring_ok q" "16 \<le> length (dqBuf q)" using deque_inv_ring [OF assms False] by auto
  obtain j where j: "dqMinCap q = 2 ^ j" "16 \<le> dqMinCap q" using deque_inv_minCap [OF assms False] .
  obtain k where k: "length (dqBuf q) = 2 ^ k" using ok(1) by (auto simp: ring_ok_def)
  show ?thesis
  proof (cases "dqCount q = length (dqBuf q)")
    case full: True
    then have two: "2 * dqCount q = 2 ^ Suc k" and pos: "0 < dqCount q" using k by simp_all
    from resize_contents [OF ok(1) pos] obtain q' where q': "resize q = Some q'" by blast
    note r = resize_ok [OF ok(1) pos two q']
    moreover have "deque_inv q'" using r full ok j by (intro deque_inv_intro) auto
    ultimately show ?thesis using that q' full False pos by (simp add: growIfFull_def)
  next
    case notfull: False
    then have "dqCount q < length (dqBuf q)" using ok(1) by (simp add: ring_ok_def)
    with notfull that assms show ?thesis by (simp add: growIfFull_def)
  qed
qed

lemma shrinkIfExcess_ok:
  assumes "ring_ok q" and "16 \<le> length (dqBuf q)" and "dqMinCap q = 2 ^ j" and "16 \<le> dqMinCap q"
  obtains q' where "shrinkIfExcess q = Some q'" and "deque_inv q'" and "contents q' = contents q"
proof (cases "length (dqBuf q) > dqMinCap q \<and> dqCount q * 4 = length (dqBuf q)")
  case True
  obtain k where k: "length (dqBuf q) = 2 ^ k" using assms(1) by (auto simp: ring_ok_def)
  have pos: "0 < dqCount q" using True assms(2) by simp
  from k True assms(2) obtain k' where "k = Suc k'" by (cases k) auto
  then have two: "2 * dqCount q = 2 ^ k'" using k True by simp
  from resize_contents [OF assms(1) pos] obtain q' where q': "resize q = Some q'" by blast
  note r = resize_ok [OF assms(1) pos two q']
  have "16 \<le> 2 * dqCount q"
  proof -
    have "(2 :: nat) ^ j < 2 ^ k" using True k assms(3) by simp
    then have "j < k" by simp
    then have "2 ^ j \<le> (2 :: nat) ^ k'" using \<open>k = Suc k'\<close> by (intro power_increasing) auto
    then show ?thesis using two assms(3,4) by linarith
  qed
  then have "deque_inv q'" using r assms(3,4) by (intro deque_inv_intro) auto
  with r q' True that show ?thesis by (simp add: shrinkIfExcess_def)
next
  case False
  have "deque_inv q" using assms by (rule deque_inv_intro)
  with False that show ?thesis by (auto simp: shrinkIfExcess_def)
qed

subsection \<open>The operations on the contents\<close>

lemma contents_update [simp]:
  "contents (q\<lparr>dqTail := t\<rparr>) = contents q" "contents (q\<lparr>dqMinCap := m\<rparr>) = contents q"
  by (simp_all add: contents_def)

lemma deque_inv_full:
  assumes "deque_inv q" and "dqCount q < length (dqBuf q) \<or> 0 < dqCount q"
  obtains k j where "length (dqBuf q) = 2 ^ k" and "16 \<le> length (dqBuf q)" and "dqMinCap q = 2 ^ j"
    and "16 \<le> dqMinCap q" and "dqHead q < length (dqBuf q)" and "dqCount q \<le> length (dqBuf q)"
    and "dqTail q = (dqHead q + dqCount q) mod length (dqBuf q)" and "dqTail q < length (dqBuf q)"
proof -
  have "dqBuf q \<noteq> []" using assms by (auto simp: deque_inv_def)
  with assms(1) that show ?thesis by (auto simp: deque_inv_def)
qed

lemma PushBack_ok:
  assumes "deque_inv q"
  obtains q' where "PushBack x q = Some q'" and "deque_inv q'" and "contents q' = contents q @ [x]"
proof -
  obtain q1 where g: "growIfFull q = Some q1" "deque_inv q1" "contents q1 = contents q"
    "dqCount q1 < length (dqBuf q1)" using growIfFull_ok [OF assms] by metis
  obtain k j where I: "length (dqBuf q1) = 2 ^ k" "16 \<le> length (dqBuf q1)" "dqMinCap q1 = 2 ^ j"
    "16 \<le> dqMinCap q1" "dqHead q1 < length (dqBuf q1)"
    "dqTail q1 = (dqHead q1 + dqCount q1) mod length (dqBuf q1)" "dqTail q1 < length (dqBuf q1)"
    using deque_inv_full [OF g(2)] g(4) by metis
  define q2 where "q2 = q1\<lparr>dqBuf := (dqBuf q1)[dqTail q1 := x]\<rparr>"
  define q3 where "q3 = q2\<lparr>dqTail := next_pos q2 (dqTail q1), dqCount := dqCount q1 + 1\<rparr>"
  have l2: "length (dqBuf q2) = 2 ^ k" using I by (simp add: q2_def)
  have "PushBack x q = Some q3" using g I by (simp add: PushBack_def buf_set_def q3_def q2_def)
  moreover have "contents q3 = contents q @ [x]"
    using ring_push_back [OF g(4), of "dqHead q1" x] I(6) g(3) by (simp add: contents_ring q3_def q2_def)
  moreover have "deque_inv q3"
  proof (rule deque_inv_intro)
    show "ring_ok q3"
      using I g(4) l2 next_pos_eq [OF l2] by (auto simp: ring_ok_def q3_def q2_def mod_Suc_eq)
  qed (use I in \<open>simp_all add: q3_def q2_def\<close>)
  ultimately show ?thesis using that by blast
qed

lemma prev_next: "h < L \<Longrightarrow> ((h + (L - 1)) mod L + 1) mod L = (h :: nat)"
proof -
  assume h: "h < L"
  then have "((h + (L - 1)) mod L + 1) mod L = (h + (L - 1) + 1) mod L" by (simp only: mod_add_left_eq)
  also have "h + (L - 1) + 1 = h + L" using h by simp
  finally show ?thesis using h by simp
qed

lemma PushFront_ok:
  assumes "deque_inv q"
  obtains q' where "PushFront x q = Some q'" and "deque_inv q'" and "contents q' = x # contents q"
proof -
  obtain q1 where g: "growIfFull q = Some q1" "deque_inv q1" "contents q1 = contents q"
    "dqCount q1 < length (dqBuf q1)" using growIfFull_ok [OF assms] by metis
  obtain k j where I: "length (dqBuf q1) = 2 ^ k" "16 \<le> length (dqBuf q1)" "dqMinCap q1 = 2 ^ j"
    "16 \<le> dqMinCap q1" "dqHead q1 < length (dqBuf q1)"
    "dqTail q1 = (dqHead q1 + dqCount q1) mod length (dqBuf q1)"
    using deque_inv_full [OF g(2)] g(4) by metis
  let ?L = "length (dqBuf q1)"
  define p where "p = prev q1 (dqHead q1)"
  have p: "p < ?L" "(p + 1) mod ?L = dqHead q1"
    using I prev_eq [OF I(1)] prev_next [of "dqHead q1" ?L] by (simp_all add: p_def)
  define q3 where "q3 = q1\<lparr>dqHead := p, dqBuf := (dqBuf q1)[p := x], dqCount := dqCount q1 + 1\<rparr>"
  have "PushFront x q = Some q3" using g p by (simp add: PushFront_def buf_set_def q3_def p_def)
  moreover have "contents q3 = x # contents q"
    using ring_push_front [OF g(4) p(1), of x] p(2) g(3) by (simp add: contents_ring q3_def)
  moreover have "deque_inv q3"
  proof (rule deque_inv_intro)
    have "(p + (dqCount q1 + 1)) mod ?L = (p + 1 + dqCount q1) mod ?L" by simp
    also have "\<dots> = ((p + 1) mod ?L + dqCount q1) mod ?L" by (rule mod_add_left_eq [symmetric])
    finally show "ring_ok q3" using I g(4) p by (simp add: ring_ok_def q3_def)
  qed (use I in \<open>simp_all add: q3_def\<close>)
  ultimately show ?thesis using that by blast
qed

lemma PopFront_ok:
  assumes "deque_inv q" and "0 < dqCount q"
  obtains q' where "PopFront q = Some (hd (contents q), q')" and "deque_inv q'"
    and "contents q' = tl (contents q)"
proof -
  obtain k j where I: "length (dqBuf q) = 2 ^ k" "16 \<le> length (dqBuf q)" "dqMinCap q = 2 ^ j"
    "16 \<le> dqMinCap q" "dqHead q < length (dqBuf q)" "dqCount q \<le> length (dqBuf q)"
    "dqTail q = (dqHead q + dqCount q) mod length (dqBuf q)"
    using deque_inv_full [OF assms(1)] assms(2) by metis
  let ?L = "length (dqBuf q)" and ?h = "dqHead q"
  obtain n where n: "dqCount q = Suc n" using assms(2) by (cases "dqCount q") auto
  define q1 where "q1 = q\<lparr>dqBuf := (dqBuf q)[?h := None]\<rparr>"
  define q2 where "q2 = q1\<lparr>dqHead := next_pos q1 ?h, dqCount := n\<rparr>"
  have l1: "length (dqBuf q1) = 2 ^ k" using I by (simp add: q1_def)
  have h2: "dqHead q2 = (?h + 1) mod ?L" using next_pos_eq [OF l1] by (simp add: q2_def q1_def)
  have c: "contents q = dqBuf q ! ?h # ring (dqBuf q) ((?h + 1) mod ?L) n"
    using ring_Suc [of n "dqBuf q" ?h] I n by (simp add: contents_ring)
  have c2: "contents q2 = tl (contents q)"
    using ring_push_front [of n "dqBuf q" ?h None] ring_Suc [of n "(dqBuf q)[?h := None]" ?h] I n c h2
    by (simp add: contents_ring q2_def q1_def)
  have ok: "ring_ok q2"
  proof -
    have "((?h + 1) mod ?L + n) mod ?L = (?h + dqCount q) mod ?L" using n by (simp add: mod_add_left_eq)
    then show ?thesis using I n h2 by (simp add: ring_ok_def q2_def q1_def)
  qed
  obtain q3 where s: "shrinkIfExcess q2 = Some q3" "deque_inv q3" "contents q3 = contents q2"
    using shrinkIfExcess_ok [OF ok] I by (auto simp: q2_def q1_def)
  have "PopFront q = Some (hd (contents q), q3)"
    using s(1) I assms(2) n c by (simp add: PopFront_def buf_get_def buf_set_def q2_def q1_def)
  then show ?thesis using that s c2 by simp
qed

lemma PopBack_ok:
  assumes "deque_inv q" and "0 < dqCount q"
  obtains q' where "PopBack q = Some (last (contents q), q')" and "deque_inv q'"
    and "contents q' = butlast (contents q)"
proof -
  obtain k j where I: "length (dqBuf q) = 2 ^ k" "16 \<le> length (dqBuf q)" "dqMinCap q = 2 ^ j"
    "16 \<le> dqMinCap q" "dqHead q < length (dqBuf q)" "dqCount q \<le> length (dqBuf q)"
    "dqTail q = (dqHead q + dqCount q) mod length (dqBuf q)"
    using deque_inv_full [OF assms(1)] assms(2) by metis
  let ?L = "length (dqBuf q)"
  obtain n where n: "dqCount q = Suc n" using assms(2) by (cases "dqCount q") auto
  define t where "t = prev q (dqTail q)"
  have t: "t = (dqHead q + n) mod ?L"
  proof -
    have "t = ((dqHead q + dqCount q) mod ?L + (?L - 1)) mod ?L" using prev_eq [OF I(1)] I(7) by (simp add: t_def)
    also have "\<dots> = (dqHead q + dqCount q + (?L - 1)) mod ?L" by (rule mod_add_left_eq)
    also have "dqHead q + dqCount q + (?L - 1) = dqHead q + n + ?L" using n I(2) by simp
    finally show ?thesis by simp
  qed
  have tl: "t < ?L" using I by (simp add: t)
  define q2 where "q2 = q\<lparr>dqTail := t, dqBuf := (dqBuf q)[t := None], dqCount := n\<rparr>"
  have c: "contents q = ring (dqBuf q) (dqHead q) n @ [dqBuf q ! t]"
    using ring_snoc [of n "dqBuf q"] I n by (simp add: contents_ring t)
  have c2: "contents q2 = butlast (contents q)"
    using ring_update_outside [of n n "dqBuf q" "dqHead q" None] I n c by (simp add: contents_ring q2_def t)
  have ok: "ring_ok q2" using I n by (simp add: ring_ok_def q2_def t)
  obtain q3 where s: "shrinkIfExcess q2 = Some q3" "deque_inv q3" "contents q3 = contents q2"
    using shrinkIfExcess_ok [OF ok] I by (auto simp: q2_def)
  have "PopBack q = Some (last (contents q), q3)"
    using s(1) tl assms(2) n c by (simp add: PopBack_def buf_get_def buf_set_def q2_def t_def)
  then show ?thesis using that s c2 by simp
qed

lemma bit_mod_nat:
  assumes "length (dqBuf q) = 2 ^ k"
  shows "bit_mod (int i) q = i mod length (dqBuf q)"
  unfolding bit_mod_eq [OF assms] by (simp add: nat_mod_as_int)

lemma At_ok:
  assumes "deque_inv q" and "i < dqCount q"
  shows "At (int i) q = Some (contents q ! i)"
proof -
  obtain k where I: "length (dqBuf q) = 2 ^ k" "dqCount q \<le> length (dqBuf q)" "16 \<le> length (dqBuf q)"
    using deque_inv_full [OF assms(1)] assms(2) by (metis gr_zeroI not_less_zero)
  then have "bit_mod (int (dqHead q) + int i) q = (dqHead q + i) mod length (dqBuf q)"
    using bit_mod_nat [OF I(1), of "dqHead q + i"] by simp
  moreover have "(dqHead q + i) mod length (dqBuf q) < length (dqBuf q)" using I by (intro mod_less_divisor) simp
  ultimately show ?thesis using assms(2) I by (simp add: At_def buf_get_def nth_contents)
qed

lemma Front_ok: "deque_inv q \<Longrightarrow> 0 < dqCount q \<Longrightarrow> Front q = Some (hd (contents q))"
  by (erule deque_inv_full) (auto simp: Front_def buf_get_def hd_conv_nth nth_contents
      simp flip: length_greater_0_conv)

lemma Back_ok:
  assumes "deque_inv q" and "0 < dqCount q"
  shows "Back q = Some (last (contents q))"
proof -
  obtain r q' where "PopBack q = Some (last (contents q), q')" using PopBack_ok [OF assms] by metis
  with assms(2) show ?thesis
    by (auto simp: PopBack_def Back_def buf_get_def Let_def bind_eq_Some_conv split: if_splits)
qed

lemma SetAt_ok:
  assumes "deque_inv q" and "i < dqCount q"
  obtains q' where "SetAt (int i) x q = Some q'" and "deque_inv q'" and "contents q' = (contents q)[i := x]"
proof -
  obtain k where I: "length (dqBuf q) = 2 ^ k" "dqCount q \<le> length (dqBuf q)" "16 \<le> length (dqBuf q)"
    using deque_inv_full [OF assms(1)] assms(2) by (metis gr_zeroI not_less_zero)
  let ?p = "(dqHead q + i) mod length (dqBuf q)"
  have "bit_mod (int (dqHead q) + int i) q = ?p"
    using bit_mod_nat [OF I(1), of "dqHead q + i"] by simp
  moreover have p: "?p < length (dqBuf q)" using I by (intro mod_less_divisor) simp
  ultimately have "SetAt (int i) x q = Some (q\<lparr>dqBuf := (dqBuf q)[?p := x]\<rparr>)"
    using assms(2) by (simp add: SetAt_def buf_set_def)
  moreover have "deque_inv (q\<lparr>dqBuf := (dqBuf q)[?p := x]\<rparr>)"
    using assms(1) by (simp add: deque_inv_def)
  moreover have "contents (q\<lparr>dqBuf := (dqBuf q)[?p := x]\<rparr>) = (contents q)[i := x]"
    using I assms(2) p
    by (intro nth_equalityI) (auto simp: nth_contents nth_list_update mod_add_inj)
  ultimately show ?thesis using that by blast
qed

lemma clear_loop_ok:
  assumes "ring_ok q" and "dqTail q = (h + n) mod length (dqBuf q)" and "h < length (dqBuf q)"
    and "n < length (dqBuf q)" and "n \<le> fuel"
  shows "\<exists>b. clear_loop fuel h q = Some (q\<lparr>dqBuf := b\<rparr>) \<and> length b = length (dqBuf q)"
  using assms
proof (induction n arbitrary: fuel h q)
  case 0
  then show ?case by (subst clear_loop.simps) (auto intro: exI [of _ "dqBuf q"])
next
  case (Suc n)
  let ?L = "length (dqBuf q)" and ?q = "q\<lparr>dqBuf := (dqBuf q)[h := None]\<rparr>"
  obtain k where k: "?L = 2 ^ k" using Suc.prems(1) by (auto simp: ring_ok_def)
  obtain f where f: "fuel = Suc f" using Suc.prems(5) by (cases fuel) auto
  have ne: "h \<noteq> dqTail q"
    using Suc.prems(2-4) mod_add_inj [of 0 ?L "Suc n" h] by fastforce
  have nx: "bit_mod (int h + 1) ?q = (h + 1) mod ?L"
    using next_pos_eq [of ?q k h] k by (simp add: next_pos_def)
  have "clear_loop fuel h q = clear_loop f ((h + 1) mod ?L) ?q"
    using ne f Suc.prems(3) nx by (subst clear_loop.simps) (simp add: buf_set_def)
  moreover have "ring_ok ?q" using Suc.prems(1) by (simp add: ring_ok_def)
  moreover have "dqTail ?q = ((h + 1) mod ?L + n) mod ?L" using Suc.prems(2) by (simp add: mod_add_left_eq)
  moreover have "(h + 1) mod ?L < ?L" using k by simp
  ultimately show ?case
    using Suc.IH [of ?q "(h + 1) mod ?L" f] Suc.prems(4,5) f by auto
qed

lemma Clear_ok:
  assumes "deque_inv q"
  obtains q' where "Clear q = Some q'" and "deque_inv q'" and "contents q' = []" and "Cap q' = Cap q"
proof -
  have "\<exists>b. clear_loop (length (dqBuf q)) (dqHead q) q = Some (q\<lparr>dqBuf := b\<rparr>) \<and> length b = length (dqBuf q)"
  proof (cases "dqHead q = dqTail q")
    case True
    then show ?thesis by (subst clear_loop.simps) (auto intro: exI [of _ "dqBuf q"])
  next
    case False
    then have "dqBuf q \<noteq> []" using assms by (auto simp: deque_inv_def)
    with assms have ok: "ring_ok q" using deque_inv_ring by blast
    then have "dqCount q < length (dqBuf q)" using False by (auto simp: ring_ok_def le_less)
    with ok show ?thesis using clear_loop_ok [of q "dqHead q" "dqCount q"] by (simp add: ring_ok_def)
  qed
  then obtain b where b: "clear_loop (length (dqBuf q)) (dqHead q) q = Some (q\<lparr>dqBuf := b\<rparr>)"
    "length b = length (dqBuf q)" by blast
  let ?q = "q\<lparr>dqBuf := b, dqHead := 0, dqTail := 0, dqCount := 0\<rparr>"
  have "Clear q = Some ?q" using b by (simp add: Clear_def)
  moreover have "deque_inv ?q" using assms b(2) by (auto simp: deque_inv_def)
  ultimately show ?thesis using that b(2) by (simp add: contents_def Cap_def)
qed

subsection \<open>Rotation\<close>

definition same_shape :: "'a Deque \<Rightarrow> 'a Deque \<Rightarrow> bool" where
  "same_shape q q' \<longleftrightarrow> length (dqBuf q') = length (dqBuf q) \<and> dqCount q' = dqCount q \<and> dqMinCap q' = dqMinCap q"

lemma rotate_front_step:
  assumes "ring_ok q" and "0 < dqCount q" and "dqCount q < length (dqBuf q)"
  obtains q' where "rotate_front (Suc m) q = rotate_front m q'" and "ring_ok q'" and "same_shape q q'"
    and "contents q' = rotate1 (contents q)"
proof -
  let ?L = "length (dqBuf q)" and ?b = "dqBuf q" and ?h = "dqHead q" and ?c = "dqCount q" and ?t = "dqTail q"
  obtain k where I: "?L = 2 ^ k" "?h < ?L" "?t = (?h + ?c) mod ?L" "?t < ?L"
    using assms by (auto simp: ring_ok_def)
  define b1 where "b1 = ?b[?t := ?b ! ?h]"
  define q1 where "q1 = q\<lparr>dqBuf := b1[?h := None]\<rparr>"
  define q2 where "q2 = q1\<lparr>dqHead := (?h + 1) mod ?L, dqTail := (?t + 1) mod ?L\<rparr>"
  have l: "length (dqBuf q1) = 2 ^ k" "length b1 = ?L" using I(1) by (simp_all add: q1_def b1_def)
  have nx: "bit_mod (int i + 1) q1 = (i + 1) mod ?L" for i
    using next_pos_eq [OF l(1), of i] l I(1) by (simp add: next_pos_def)
  have step: "rotate_front (Suc m) q = rotate_front m q2"
    using I nx by (simp add: buf_get_def buf_set_def q1_def q2_def b1_def)
  have ok: "ring_ok q2"
    using I assms(3) l by (auto simp: ring_ok_def q2_def q1_def b1_def mod_add_left_eq mod_Suc_eq)
  have "ring b1 ?h (Suc ?c) = contents q @ [?b ! ?h]"
    using ring_push_back [OF assms(3), of ?h "?b ! ?h"] I(3) by (simp add: b1_def contents_ring)
  moreover have "ring b1 ?h (Suc ?c) = b1 ! ?h # ring b1 ((?h + 1) mod ?L) ?c"
    using ring_Suc [of ?c b1 ?h] assms(3) I l by simp
  moreover have "contents q2 = ring b1 ((?h + 1) mod ?L) ?c"
    using ring_update_before [of ?c b1 ?h None] assms(3) I l by (simp add: contents_ring q2_def q1_def)
  moreover have ne: "contents q \<noteq> []" using assms length_contents [of q] by (metis less_imp_le list.size(3) nat_neq_iff)
  moreover have "hd (contents q) = ?b ! ?h"
    using hd_conv_nth [OF ne] assms(2,3) I nth_contents [of 0 q] by simp
  ultimately have "contents q2 = rotate1 (contents q)"
    by (metis append_Cons list.sel(3) list.collapse rotate1.simps(2))
  moreover have "same_shape q q2" using l by (simp add: same_shape_def q2_def q1_def)
  ultimately show ?thesis using that step ok by blast
qed

lemma rotate_back_step:
  assumes "ring_ok q" and "0 < dqCount q" and "dqCount q < length (dqBuf q)"
  obtains q' where "rotate_back (Suc m) q = rotate_back m q'" and "ring_ok q'" and "same_shape q q'"
    and "rotate1 (contents q') = contents q"
proof -
  let ?L = "length (dqBuf q)" and ?b = "dqBuf q" and ?h = "dqHead q"
  obtain k where I: "?L = 2 ^ k" "?h < ?L" "dqTail q = (?h + dqCount q) mod ?L"
    using assms by (auto simp: ring_ok_def)
  obtain n where n: "dqCount q = Suc n" using assms(2) by (cases "dqCount q") auto
  define h t where "h = prev q ?h" and "t = prev q (dqTail q)"
  have h: "h < ?L" "(h + 1) mod ?L = ?h"
    using I prev_eq [OF I(1)] prev_next [of ?h ?L] by (simp_all add: h_def)
  have t: "t = (?h + n) mod ?L" "t < ?L"
  proof -
    have "t = (?h + dqCount q + (?L - 1)) mod ?L" using prev_eq [OF I(1)] I(3) by (simp add: t_def mod_add_left_eq)
    also have "?h + dqCount q + (?L - 1) = ?h + n + ?L" using n I(2) by simp
    finally show "t = (?h + n) mod ?L" by simp
    then show "t < ?L" using I by simp
  qed
  have ht: "(h + Suc n) mod ?L = t"
  proof -
    have "(h + Suc n) mod ?L = ((h + 1) mod ?L + n) mod ?L" by (simp add: mod_add_left_eq)
    then show ?thesis using h t by simp
  qed
  define b1 where "b1 = ?b[h := ?b ! t]"
  define q2 where "q2 = q\<lparr>dqHead := h, dqTail := t, dqBuf := b1[t := None]\<rparr>"
  have step: "rotate_back (Suc m) q = rotate_back m q2"
    using h(1) t(2) by (simp add: buf_get_def buf_set_def q2_def b1_def h_def t_def prev_def)
  have ok: "ring_ok q2" using I h(1) n ht assms(3) by (simp add: ring_ok_def q2_def b1_def)
  have c: "contents q = ring ?b ?h n @ [?b ! t]"
    using ring_snoc [of n ?b ?h] assms(3) n t by (simp add: contents_ring)
  have "ring b1 h (Suc (Suc n)) = ?b ! t # contents q"
    using ring_push_front [of "Suc n" ?b h "?b ! t"] assms(3) n h by (simp add: b1_def contents_ring)
  moreover have "ring b1 h (Suc (Suc n)) = ring b1 h (Suc n) @ [b1 ! t]"
    using ring_snoc [of "Suc n" b1 h] assms(3) n ht by (simp add: b1_def)
  ultimately have "ring b1 h (Suc n) = ?b ! t # ring ?b ?h n"
    using c by (metis append_Cons butlast_snoc)
  moreover have "contents q2 = ring b1 h (Suc n)"
    using ring_update_outside [of "Suc n" "Suc n" b1 h None] assms(3) n ht
    by (simp add: contents_ring q2_def b1_def)
  ultimately have "rotate1 (contents q2) = contents q" using c by simp
  moreover have "same_shape q q2" by (simp add: same_shape_def q2_def b1_def)
  ultimately show ?thesis using that step ok by blast
qed

lemma rotate_front_ok:
  assumes "ring_ok q" and "0 < dqCount q" and "dqCount q < length (dqBuf q)"
  shows "\<exists>q'. rotate_front n q = Some q' \<and> ring_ok q' \<and> same_shape q q' \<and> contents q' = rotate n (contents q)"
  using assms
proof (induction n arbitrary: q)
  case (Suc n)
  obtain q1 where q1: "rotate_front (Suc n) q = rotate_front n q1" "ring_ok q1" "same_shape q q1"
    "contents q1 = rotate1 (contents q)" using rotate_front_step [OF Suc.prems] by metis
  from Suc.IH [OF q1(2)] Suc.prems(2,3) q1(3) obtain q2 where "rotate_front n q1 = Some q2"
    "ring_ok q2" "same_shape q1 q2" "contents q2 = rotate n (contents q1)"
    by (auto simp: same_shape_def)
  with q1 show ?case by (auto simp: same_shape_def rotate1_rotate_swap)
qed (simp add: same_shape_def)

lemma rotate_back_ok:
  assumes "ring_ok q" and "0 < dqCount q" and "dqCount q < length (dqBuf q)"
  shows "\<exists>q'. rotate_back n q = Some q' \<and> ring_ok q' \<and> same_shape q q' \<and> rotate n (contents q') = contents q"
  using assms
proof (induction n arbitrary: q)
  case (Suc n)
  obtain q1 where q1: "rotate_back (Suc n) q = rotate_back n q1" "ring_ok q1" "same_shape q q1"
    "rotate1 (contents q1) = contents q" using rotate_back_step [OF Suc.prems] by metis
  from Suc.IH [OF q1(2)] Suc.prems(2,3) q1(3) obtain q2 where "rotate_back n q1 = Some q2"
    "ring_ok q2" "same_shape q1 q2" "rotate n (contents q2) = contents q1"
    by (auto simp: same_shape_def)
  with q1 show ?case by (auto simp: same_shape_def)
qed (simp add: same_shape_def)

lemma go_rem_cong: "0 < m \<Longrightarrow> go_rem n m mod m = n mod m"
proof -
  assume m: "0 < m"
  show ?thesis
  proof (cases "0 \<le> n")
    case True
    then show ?thesis using m by (cases "n = 0") (simp_all add: go_rem_def)
  next
    case False
    then have "go_rem n m = - ((- n) mod m)" using m by (simp add: go_rem_def)
    then show ?thesis by (simp add: mod_minus_eq)
  qed
qed

lemma go_rem_bounds: "0 < m \<Longrightarrow> \<bar>go_rem n m\<bar> < m" "0 < m \<Longrightarrow> go_rem n m < 0 \<Longrightarrow> n mod m = m + go_rem n m"
proof -
  assume m: "0 < m"
  then show b: "\<bar>go_rem n m\<bar> < m"
    by (auto simp: go_rem_def abs_mult abs_sgn_eq)
  assume "go_rem n m < 0"
  then have "(m + go_rem n m) mod m = m + go_rem n m" using b m by (intro mod_pos_pos_trivial) auto
  then show "n mod m = m + go_rem n m" using go_rem_cong [OF m, of n] by simp
qed

lemma Rotate_full:
  assumes "ring_ok q" and "dqCount q = length (dqBuf q)"
  shows "ring_ok (q\<lparr>dqHead := bit_mod (int (dqHead q) + r) q, dqTail := bit_mod (int (dqTail q) + r) q\<rparr>) \<and>
    contents (q\<lparr>dqHead := bit_mod (int (dqHead q) + r) q, dqTail := bit_mod (int (dqTail q) + r) q\<rparr>) =
      rotate (nat (r mod int (length (dqBuf q)))) (contents q)"
proof -
  let ?L = "length (dqBuf q)" and ?m = "nat (r mod int (length (dqBuf q)))"
  obtain k where I: "?L = 2 ^ k" "dqHead q < ?L" "dqTail q = (dqHead q + dqCount q) mod ?L"
    using assms by (auto simp: ring_ok_def)
  have "dqTail q = dqHead q" using I assms(2) by simp
  have pos: "0 < int ?L" using I(1) by simp
  then have "(int (dqHead q) + r) mod int ?L = int ((dqHead q + ?m) mod ?L)"
    by (simp add: zmod_int mod_add_right_eq)
  then have h: "bit_mod (int (dqHead q) + r) q = (dqHead q + ?m) mod ?L"
    unfolding bit_mod_eq [OF I(1)] by simp
  moreover have "(dqHead q + ?m) mod ?L < ?L" using pos by (intro mod_less_divisor) simp
  ultimately show ?thesis
    using I \<open>dqTail q = dqHead q\<close> assms(2) ring_full_shift [of "dqBuf q" "dqHead q" ?m]
    by (auto simp: ring_ok_def contents_ring)
qed

lemma deque_inv_shape:
  assumes "deque_inv q" and "dqBuf q \<noteq> []" and "ring_ok q'" and "same_shape q q'"
  shows "deque_inv q'"
proof -
  obtain j where "dqMinCap q = 2 ^ j" "16 \<le> dqMinCap q" using deque_inv_minCap [OF assms(1,2)] .
  then show ?thesis
    using assms(3,4) deque_inv_ring [OF assms(1,2)]
    by (intro deque_inv_intro [of q' j]) (simp_all add: same_shape_def)
qed

lemma rotate_inverse:
  assumes "rotate m ys = xs" and "m \<le> length xs"
  shows "ys = rotate (length xs - m) xs"
proof -
  have l: "length xs = length ys" using assms(1) by auto
  have "rotate (length xs - m) xs = rotate (length xs - m + m) ys"
    unfolding assms(1) [symmetric] by (rule rotate_rotate)
  also have "\<dots> = ys" using assms(2) l by (simp add: rotate_id)
  finally show ?thesis by simp
qed

lemma Rotate_full_ok:
  assumes "deque_inv q" and "1 < dqCount q" and "go_rem n (int (dqCount q)) \<noteq> 0" and "dqHead q = dqTail q"
  obtains q' where "Rotate n q = Some q'" and "deque_inv q'"
    and "contents q' = rotate (nat (n mod int (dqCount q))) (contents q)"
proof -
  let ?c = "int (dqCount q)" and ?r = "go_rem n (int (dqCount q))"
  have ne: "dqBuf q \<noteq> []" using assms by (auto simp: deque_inv_def)
  have ok: "ring_ok q" using deque_inv_ring [OF assms(1) ne] by simp
  have full: "dqCount q = length (dqBuf q)"
    using mod_add_inj [of 0 "length (dqBuf q)" "dqCount q" "dqHead q"] assms(2,4) ok ne
    by (fastforce simp: ring_ok_def le_less)
  let ?q = "q\<lparr>dqHead := bit_mod (int (dqHead q) + ?r) q, dqTail := bit_mod (int (dqTail q) + ?r) q\<rparr>"
  have q': "ring_ok ?q" "contents ?q = rotate (nat (n mod ?c)) (contents q)"
    using Rotate_full [OF ok full, of ?r] go_rem_cong [of ?c n] ne full by simp_all
  have "deque_inv ?q" by (rule deque_inv_shape [OF assms(1) ne q'(1)]) (simp add: same_shape_def)
  moreover have "Rotate n q = Some ?q" using assms(2-4) by (simp add: Rotate_def Let_def)
  ultimately show ?thesis using q'(2) that by blast
qed

lemma Rotate_part_ok:
  assumes "deque_inv q" and "1 < dqCount q" and r: "go_rem n (int (dqCount q)) \<noteq> 0" and "dqHead q \<noteq> dqTail q"
  obtains q' where "Rotate n q = Some q'" and "deque_inv q'"
    and "contents q' = rotate (nat (n mod int (dqCount q))) (contents q)"
proof -
  let ?c = "int (dqCount q)" and ?r = "go_rem n (int (dqCount q))"
  have pos: "0 < ?c" "0 < dqCount q" using assms(2) by simp_all
  note bnd = go_rem_bounds [OF pos(1), of n]
  have ne: "dqBuf q \<noteq> []" using assms by (auto simp: deque_inv_def)
  have ok: "ring_ok q" using deque_inv_ring [OF assms(1) ne] by simp
  then have lt: "dqCount q < length (dqBuf q)" using assms(4) by (auto simp: ring_ok_def le_less)
  show ?thesis
  proof (cases "?r < 0")
    case True
    obtain q' where q': "rotate_back (nat (- ?r)) q = Some q'" "ring_ok q'" "same_shape q q'"
      "rotate (nat (- ?r)) (contents q') = contents q" using rotate_back_ok [OF ok pos(2) lt] by blast
    have "contents q' = rotate (dqCount q - nat (- ?r)) (contents q)"
      using rotate_inverse [OF q'(4)] bnd(1) lt by simp
    moreover have "dqCount q - nat (- ?r) = nat (n mod ?c)" using bnd True by simp
    ultimately show ?thesis
      using that q' deque_inv_shape [OF assms(1) ne q'(2,3)] assms(2-4) True by (simp add: Rotate_def)
  next
    case False
    obtain q' where q': "rotate_front (nat ?r) q = Some q'" "ring_ok q'" "same_shape q q'"
      "contents q' = rotate (nat ?r) (contents q)" using rotate_front_ok [OF ok pos(2) lt] by blast
    have "?r = n mod ?c" using False bnd(1) go_rem_cong [OF pos(1), of n] by simp
    then show ?thesis
      using that q' deque_inv_shape [OF assms(1) ne q'(2,3)] assms(2-4) False by (simp add: Rotate_def)
  qed
qed

lemma Rotate_ok:
  assumes "deque_inv q"
  obtains q' where "Rotate n q = Some q'" and "deque_inv q'"
    and "contents q' = rotate (nat (n mod int (dqCount q))) (contents q)"
proof -
  consider "dqCount q \<le> 1" | "1 < dqCount q" "go_rem n (int (dqCount q)) = 0"
    | "1 < dqCount q" "go_rem n (int (dqCount q)) \<noteq> 0" by linarith
  then show ?thesis
  proof cases
    case 1
    then have "length (contents q) \<le> 1" by (simp add: contents_def)
    then have "rotate m (contents q) = contents q" for m
      using rotate_conv_mod [of m "contents q"] by (cases "contents q") auto
    with 1 assms that show ?thesis by (simp add: Rotate_def)
  next
    case 2
    then show ?thesis using that assms go_rem_cong [of "int (dqCount q)" n] by (simp add: Rotate_def)
  next
    case 3
    then show ?thesis using Rotate_full_ok [OF assms] Rotate_part_ok [OF assms] that by metis
  qed
qed

subsection \<open>New queues\<close>

lemma double_until_power:
  assumes "double_until c m = Some n" and "c = 2 ^ j"
  shows "\<exists>i. n = 2 ^ i \<and> c \<le> n \<and> m \<le> int n"
  using assms
proof (induction c m arbitrary: j rule: double_until.induct)
  case (1 c m)
  show ?case
  proof (cases "m \<le> int c")
    case True
    with "1.prems" show ?thesis by (subst (asm) double_until.simps) auto
  next
    case False
    with "1.prems" have "\<not> (c = 0 \<or> c \<ge> 2 ^ 62)" "double_until (2 * c) m = Some n"
      by (subst (asm) double_until.simps, simp split: if_split_asm)+
    from "1.IH" [OF False this, of "Suc j"] "1.prems"(2) obtain i
      where "n = 2 ^ i" "2 * c \<le> n" "m \<le> int n" by auto
    then show ?thesis by auto
  qed
qed

lemma NewDeque_ok:
  assumes "NewDeque sizes = Some q"
  shows "deque_inv q \<and> contents q = []"
proof -
  obtain minimum capacity minCap where mc: "double_until minCapacity minimum = Some minCap"
    and q: "q = \<lparr>dqBuf = [], dqHead = 0, dqTail = 0, dqCount = 0, dqMinCap = minCap\<rparr> \<or>
      (\<exists>n. double_until minCap capacity = Some n \<and>
        q = \<lparr>dqBuf = replicate n None, dqHead = 0, dqTail = 0, dqCount = 0, dqMinCap = minCap\<rparr>)"
    using assms by (auto simp: NewDeque_def Let_def bind_eq_Some_conv split: if_split_asm)
  have "minCapacity = 2 ^ 4" by (simp add: minCapacity_def)
  from double_until_power [OF mc this] obtain i where i: "minCap = 2 ^ i" "16 \<le> minCap"
    by (auto simp: minCapacity_def)
  from q show ?thesis
  proof
    assume "\<exists>n. double_until minCap capacity = Some n \<and>
        q = \<lparr>dqBuf = replicate n None, dqHead = 0, dqTail = 0, dqCount = 0, dqMinCap = minCap\<rparr>"
    then obtain n where n: "double_until minCap capacity = Some n"
      "q = \<lparr>dqBuf = replicate n None, dqHead = 0, dqTail = 0, dqCount = 0, dqMinCap = minCap\<rparr>" by blast
    with double_until_power [OF n(1) i(1)] i show ?thesis by (auto simp: deque_inv_def contents_def)
  qed (use i in \<open>auto simp: deque_inv_def contents_def\<close>)
qed

subsection \<open>The queue refines a list\<close>

datatype 'a dq_op =
    OpPushBack "'a option" | OpPushFront "'a option" | OpPopFront | OpPopBack | OpFront | OpBack
  | OpAt int | OpSet int "'a option" | OpClear | OpRotate int | OpSetMinCapacity nat | OpLen

datatype 'a dq_obs = Unit | Elem "'a option" | Number nat

fun dq_step :: "'a dq_op \<Rightarrow> 'a Deque \<Rightarrow> ('a dq_obs \<times> 'a Deque) option" where
  "dq_step (OpPushBack x) q = map_option (Pair Unit) (PushBack x q)"
| "dq_step (OpPushFront x) q = map_option (Pair Unit) (PushFront x q)"
| "dq_step OpPopFront q = map_option (map_prod Elem id) (PopFront q)"
| "dq_step OpPopBack q = map_option (map_prod Elem id) (PopBack q)"
| "dq_step OpFront q = map_option (\<lambda>x. (Elem x, q)) (Front q)"
| "dq_step OpBack q = map_option (\<lambda>x. (Elem x, q)) (Back q)"
| "dq_step (OpAt i) q = map_option (\<lambda>x. (Elem x, q)) (At i q)"
| "dq_step (OpSet i x) q = map_option (Pair Unit) (SetAt i x q)"
| "dq_step OpClear q = map_option (Pair Unit) (Clear q)"
| "dq_step (OpRotate n) q = map_option (Pair Unit) (Rotate n q)"
| "dq_step (OpSetMinCapacity e) q = Some (Unit, SetMinCapacity e q)"
| "dq_step OpLen q = Some (Number (Len q), q)"

fun list_step :: "'a dq_op \<Rightarrow> 'a option list \<Rightarrow> ('a dq_obs \<times> 'a option list) option" where
  "list_step (OpPushBack x) xs = Some (Unit, xs @ [x])"
| "list_step (OpPushFront x) xs = Some (Unit, x # xs)"
| "list_step OpPopFront xs = (if xs = [] then None else Some (Elem (hd xs), tl xs))"
| "list_step OpPopBack xs = (if xs = [] then None else Some (Elem (last xs), butlast xs))"
| "list_step OpFront xs = (if xs = [] then None else Some (Elem (hd xs), xs))"
| "list_step OpBack xs = (if xs = [] then None else Some (Elem (last xs), xs))"
| "list_step (OpAt i) xs = map_option (\<lambda>x. (Elem x, xs)) (go_index xs i)"
| "list_step (OpSet i x) xs = (if 0 \<le> i \<and> i < int (length xs) then Some (Unit, xs[nat i := x]) else None)"
| "list_step OpClear xs = Some (Unit, [])"
| "list_step (OpRotate n) xs = Some (Unit, rotate (nat (n mod int (length xs))) xs)"
| "list_step (OpSetMinCapacity e) xs = Some (Unit, xs)"
| "list_step OpLen xs = Some (Number (length xs), xs)"

lemma deque_inv_count: "deque_inv q \<Longrightarrow> length (contents q) = dqCount q"
  by (auto simp: deque_inv_def)

lemma dq_step_At:
  assumes "deque_inv q"
  shows "At i q = go_index (contents q) i"
proof (cases "0 \<le> i \<and> i < int (dqCount q)")
  case True
  then show ?thesis
    using At_ok [OF assms, of "nat i"] deque_inv_count [OF assms] by (auto simp: go_index_def)
next
  case False
  then show ?thesis using deque_inv_count [OF assms] by (auto simp: At_def go_index_def)
qed

lemma dq_step_Set:
  assumes "deque_inv q"
  obtains "i < 0 \<or> i \<ge> int (dqCount q)" "SetAt i x q = None"
  | q' where "0 \<le> i" "i < int (dqCount q)" "SetAt i x q = Some q'" "deque_inv q'"
      "contents q' = (contents q)[nat i := x]"
proof (cases "i < 0 \<or> i \<ge> int (dqCount q)")
  case False
  then show ?thesis
    using SetAt_ok [OF assms, of "nat i" x] that(2) by (auto simp: nat_less_iff)
qed (use that(1) in \<open>simp add: SetAt_def\<close>)

interpretation dq: refinement deque_inv contents dq_step list_step
proof
  fix q :: "'a Deque" and x
  assume inv: "deque_inv q"
  note len = deque_inv_count [OF inv]
  have pos: "contents q \<noteq> [] \<longleftrightarrow> 0 < dqCount q" using len by (metis length_greater_0_conv)
  show "rel_option (\<lambda>(r, s') (r', a'). r = r' \<and> deque_inv s' \<and> a' = contents s') (dq_step x q)
      (list_step x (contents q))"
  proof (cases x)
    case (OpPushBack a)
    with PushBack_ok [OF inv, of a] show ?thesis by fastforce
  next
    case (OpPushFront a)
    with PushFront_ok [OF inv, of a] show ?thesis by fastforce
  next
    case OpPopFront
    show ?thesis
    proof (cases "0 < dqCount q")
      case True
      with PopFront_ok [OF inv] pos OpPopFront show ?thesis by fastforce
    qed (use pos OpPopFront in \<open>simp add: PopFront_def\<close>)
  next
    case OpPopBack
    show ?thesis
    proof (cases "0 < dqCount q")
      case True
      with PopBack_ok [OF inv] pos OpPopBack show ?thesis by fastforce
    qed (use pos OpPopBack in \<open>simp add: PopBack_def\<close>)
  next
    case OpFront
    with Front_ok [OF inv] pos inv show ?thesis by (auto simp: Front_def)
  next
    case OpBack
    with Back_ok [OF inv] pos inv show ?thesis by (auto simp: Back_def)
  next
    case (OpAt i)
    with inv show ?thesis by (simp add: dq_step_At option.rel_map option.rel_refl)
  next
    case (OpSet i a)
    from dq_step_Set [OF inv, of i a] show ?thesis by cases (use OpSet len in auto)
  next
    case OpClear
    with Clear_ok [OF inv] show ?thesis by fastforce
  next
    case (OpRotate n)
    with Rotate_ok [OF inv, of n] len show ?thesis by fastforce
  next
    case (OpSetMinCapacity e)
    then show ?thesis using inv exI [of "\<lambda>j. 2 ^ j = (16 :: nat)" 4]
      by (auto simp: SetMinCapacity_def deque_inv_def minCapacity_def)
  next
    case OpLen
    with inv len show ?thesis by (simp add: Len_def)
  qed
qed

subsection \<open>Properties\<close>

text \<open>C7. A queue made by \<open>New\<close> behaves as a list under every sequence of operations: all results are
  those of the list, and the operations panic exactly where the list has no such element.\<close>
theorem deque_refines_list:
  assumes "NewDeque sizes = Some q"
  shows "run_ops dq_step ops q = run_ops list_step ops []"
  using dq.run_refines [of q ops] NewDeque_ok [OF assms] by simp

theorem deque_refines_list_witness:
  "\<exists>q. NewDeque [20, 3] = Some q \<and>
    run_ops dq_step [OpPushBack (Some 1), OpPushFront (Some (2 :: nat)), OpRotate (- 1), OpPopFront, OpLen,
        OpPopBack, OpPopBack] q =
      [Some Unit, Some Unit, Some Unit, Some (Elem (Some 1)), Some (Number 1), Some (Elem (Some 2)), None]"
proof -
  have q: "NewDeque [20, 3] = Some \<lparr>dqBuf = replicate 32 None, dqHead = 0, dqTail = 0, dqCount = 0,
      dqMinCap = 16\<rparr>"
    by (simp add: NewDeque_def minCapacity_def double_until.simps)
  from deque_refines_list [OF this, of "[OpPushBack (Some 1), OpPushFront (Some (2 :: nat)), OpRotate (- 1),
      OpPopFront, OpLen, OpPopBack, OpPopBack]"] q
  show ?thesis by (intro exI conjI) (assumption, simp del: run_ops.simps(2) add: run_ops.simps(2) [of list_step])
qed

text \<open>In every state a queue can get into its capacity is zero or a power of two no smaller than 16,
  and holds all elements.\<close>
lemma deque_capacity:
  assumes "NewDeque sizes = Some q0" and "reach_ops dq_step q0 q"
  shows "(Cap q = 0 \<or> 16 \<le> Cap q \<and> (\<exists>k. Cap q = 2 ^ k)) \<and> Len q \<le> Cap q"
  using dq.reach_inv [OF assms(2)] NewDeque_ok [OF assms(1)]
  by (auto simp: deque_inv_def Cap_def Len_def)

text \<open>\<open>Clear\<close> of a full queue leaves every element in the buffer although the queue is then empty;
  the elements stay reachable from it.\<close>
lemma full_clear_retains:
  assumes "deque_inv q" and "dqCount q = length (dqBuf q)"
  shows "Clear q = Some (q\<lparr>dqHead := 0, dqTail := 0, dqCount := 0\<rparr>)"
proof -
  have "dqHead q = dqTail q" using assms by (auto simp: deque_inv_def)
  then have "clear_loop (length (dqBuf q)) (dqHead q) q = Some q" by (subst clear_loop.simps) simp
  then show ?thesis by (simp add: Clear_def)
qed

end
