(* ===== verification/WorkerArray.thy ===== *)
theory WorkerArray
  imports Deque
begin

text \<open>
  \<^verbatim>\<open>gpool/work_stack.go\<close>, \<^verbatim>\<open>gpool/worker_loop_queue.go\<close> and the interface \<open>workerArray\<close> of
  \<^verbatim>\<open>gpool/worker.go\<close>: the idle workers of a pool. A worker is its identity and the time it was put
  back; \<open>time.Now().Add(-duration)\<close> is passed in as \<open>expiryTime\<close>. \<open>None\<close> is a panic or a call that
  never returns; sending \<open>nil\<close> on a worker's channel, which makes it quit, is the list of workers
  that \<open>reset\<close> returns.

  The locale \<open>worker_array\<close> is the contract the pool relies on, interpreted for both.
\<close>

record goWorker =
  wkId :: nat
  recycleTime :: int

datatype gpool_error =
    ErrInvalidPoolSize | ErrLackPoolFunc | ErrInvalidPoolExpiry | ErrPoolClosed | ErrPoolOverload
  | ErrInvalidPreAllocSize | errQueueIsFull | errQueueIsReleased

subsection \<open>The stack\<close>

record workerStack =
  stItems :: "goWorker list"
  stExpiry :: "goWorker list"
  stSize :: int

definition newWorkerStack :: "int \<Rightarrow> workerStack" where
  "newWorkerStack n = \<lparr>stItems = [], stExpiry = [], stSize = n\<rparr>"

definition st_len :: "workerStack \<Rightarrow> nat" where
  "st_len wq = length (stItems wq)"

definition st_isEmpty :: "workerStack \<Rightarrow> bool" where
  "st_isEmpty wq \<longleftrightarrow> length (stItems wq) = 0"

definition st_insert :: "goWorker \<Rightarrow> workerStack \<Rightarrow> gpool_error option \<times> workerStack" where
  "st_insert w wq = (None, wq\<lparr>stItems := stItems wq @ [w]\<rparr>)"

definition st_detach :: "workerStack \<Rightarrow> (goWorker option \<times> workerStack) option" where
  "st_detach wq =
     (let l = st_len wq
      in if l = 0 then Some (None, wq)
         else Some (Some (stItems wq ! (l - 1)), wq\<lparr>stItems := take (l - 1) (stItems wq)\<rparr>))"

function binarySearch :: "goWorker list \<Rightarrow> int \<Rightarrow> int \<Rightarrow> int \<Rightarrow> int option" where
  "binarySearch items l r expiryTime =
     (if l \<le> r then
        let mid = (l + r) div 2
        in do {
          w \<leftarrow> go_index items mid;
          (if expiryTime < recycleTime w then binarySearch items l (mid - 1) expiryTime
           else binarySearch items (mid + 1) r expiryTime)
        }
      else Some r)"
  by pat_completeness auto
termination by (relation "measure (\<lambda>(items, l, r, t). nat (r - l + 1))") auto

declare binarySearch.simps [simp del]

definition st_retrieveExpiry :: "int \<Rightarrow> workerStack \<Rightarrow> (goWorker list \<times> workerStack) option" where
  "st_retrieveExpiry expiryTime wq =
     (let n = st_len wq
      in if n = 0 then Some ([], wq)
         else do {
           index \<leftarrow> binarySearch (stItems wq) 0 (int n - 1) expiryTime;
           let wq = wq\<lparr>stExpiry := []\<rparr>;
           (if index \<noteq> -1 then do {
              gone \<leftarrow> get_slice 0 (nat (index + 1)) (stItems wq);
              kept \<leftarrow> get_slice (nat (index + 1)) n (stItems wq);
              let wq = wq\<lparr>stExpiry := gone, stItems := take (length kept) (go_copy 0 kept (stItems wq))\<rparr>;
              Some (stExpiry wq, wq)
            }
            else Some (stExpiry wq, wq))
         })"

definition st_reset :: "workerStack \<Rightarrow> (goWorker list \<times> workerStack) option" where
  "st_reset wq = Some (stItems wq, wq\<lparr>stItems := []\<rparr>)"

subsection \<open>The loop queue\<close>

record loopQueue =
  lqItems :: "goWorker option list"
  lqExpiry :: "goWorker list"
  lqHead :: nat
  lqTail :: nat
  lqSize :: nat
  lqIsFull :: bool

definition newWorkerLoopQueue :: "nat \<Rightarrow> loopQueue" where
  "newWorkerLoopQueue n = \<lparr>lqItems = replicate n None, lqExpiry = [], lqHead = 0, lqTail = 0,
     lqSize = n, lqIsFull = False\<rparr>"

definition lq_len :: "loopQueue \<Rightarrow> nat" where
  "lq_len wq =
     (if lqSize wq = 0 then 0
      else if lqHead wq = lqTail wq then (if lqIsFull wq then lqSize wq else 0)
      else if lqTail wq > lqHead wq then lqTail wq - lqHead wq
      else lqSize wq - lqHead wq + lqTail wq)"

definition lq_isEmpty :: "loopQueue \<Rightarrow> bool" where
  "lq_isEmpty wq \<longleftrightarrow> lqHead wq = lqTail wq \<and> \<not> lqIsFull wq"

definition lq_insert :: "goWorker \<Rightarrow> loopQueue \<Rightarrow> (gpool_error option \<times> loopQueue) option" where
  "lq_insert w wq =
     (if lqSize wq = 0 then Some (Some errQueueIsReleased, wq)
      else if lqIsFull wq then Some (Some errQueueIsFull, wq)
      else if lqTail wq < length (lqItems wq) then
        let wq = wq\<lparr>lqItems := (lqItems wq)[lqTail wq := Some w], lqTail := lqTail wq + 1\<rparr>;
            wq = (if lqTail wq = lqSize wq then wq\<lparr>lqTail := 0\<rparr> else wq);
            wq = (if lqTail wq = lqHead wq then wq\<lparr>lqIsFull := True\<rparr> else wq)
        in Some (None, wq)
      else None)"

definition lq_pop :: "loopQueue \<Rightarrow> loopQueue" where
  \<comment> \<open>clears the slot at the head and moves the head on\<close>
  "lq_pop wq =
     (let wq = wq\<lparr>lqItems := (lqItems wq)[lqHead wq := None], lqHead := lqHead wq + 1\<rparr>;
          wq = (if lqHead wq = lqSize wq then wq\<lparr>lqHead := 0\<rparr> else wq)
      in wq\<lparr>lqIsFull := False\<rparr>)"

definition lq_detach :: "loopQueue \<Rightarrow> (goWorker option \<times> loopQueue) option" where
  "lq_detach wq =
     (if lq_isEmpty wq then Some (None, wq)
      else if lqHead wq < length (lqItems wq) then Some (lqItems wq ! lqHead wq, lq_pop wq)
      else None)"

fun expiry_loop :: "nat \<Rightarrow> int \<Rightarrow> loopQueue \<Rightarrow> loopQueue option" where
  \<comment> \<open>at most as many rounds as there are slots are taken; \<open>retrieveExpiry\<close> is shown to return\<close>
  "expiry_loop fuel expiryTime wq =
     (if lq_isEmpty wq then Some wq
      else if lqHead wq < length (lqItems wq) then
        (case lqItems wq ! lqHead wq of
           None \<Rightarrow> None
         | Some w \<Rightarrow>
             if expiryTime < recycleTime w then Some wq
             else case fuel of
                    0 \<Rightarrow> None
                  | Suc fuel \<Rightarrow> expiry_loop fuel expiryTime (lq_pop (wq\<lparr>lqExpiry := lqExpiry wq @ [w]\<rparr>)))
      else None)"

declare expiry_loop.simps [simp del]

definition lq_retrieveExpiry :: "int \<Rightarrow> loopQueue \<Rightarrow> (goWorker list \<times> loopQueue) option" where
  "lq_retrieveExpiry expiryTime wq =
     (if lq_isEmpty wq then Some ([], wq)
      else do {
        wq \<leftarrow> expiry_loop (lqSize wq) expiryTime (wq\<lparr>lqExpiry := []\<rparr>);
        Some (lqExpiry wq, wq)
      })"

partial_function (option) send_nil_loop :: "goWorker option \<Rightarrow> goWorker list \<Rightarrow> goWorker list option" where
  \<comment> \<open>\<open>for w := wq.detach(); w != nil; { w.args <- nil }\<close>, where nothing assigns \<open>w\<close> again\<close>
  "send_nil_loop w sent =
     (case w of None \<Rightarrow> Some sent | Some x \<Rightarrow> send_nil_loop w (sent @ [x]))"

definition lq_reset :: "loopQueue \<Rightarrow> (goWorker list \<times> loopQueue) option" where
  "lq_reset wq =
     (if lq_isEmpty wq then Some ([], wq)
      else do {
        (w, wq) \<leftarrow> lq_detach wq;
        sent \<leftarrow> send_nil_loop w [];
        Some (sent, wq\<lparr>lqItems := [], lqSize := 0, lqHead := 0, lqTail := 0\<rparr>)
      })"

subsection \<open>The contract of a worker array\<close>

text \<open>No worker is lost or made up: what goes in comes out, in whatever order.\<close>

locale worker_array =
  fixes ainv :: "'q \<Rightarrow> bool"
    and idle :: "'q \<Rightarrow> goWorker list"
    and len :: "'q \<Rightarrow> nat"
    and isEmpty :: "'q \<Rightarrow> bool"
    and ins :: "goWorker \<Rightarrow> 'q \<Rightarrow> (gpool_error option \<times> 'q) option"
    and detach :: "'q \<Rightarrow> (goWorker option \<times> 'q) option"
    and retrieveExpiry :: "int \<Rightarrow> 'q \<Rightarrow> (goWorker list \<times> 'q) option"
    and reset :: "'q \<Rightarrow> (goWorker list \<times> 'q) option"
  assumes len_idle: "ainv q \<Longrightarrow> len q = length (idle q)"
    and isEmpty_idle: "ainv q \<Longrightarrow> isEmpty q \<longleftrightarrow> idle q = []"
    and insert_idle: "ainv q \<Longrightarrow> \<exists>e q'. ins w q = Some (e, q') \<and> ainv q' \<and>
      mset (idle q') = (if e = None then add_mset w (mset (idle q)) else mset (idle q))"
    and detach_idle: "ainv q \<Longrightarrow> \<exists>r q'. detach q = Some (r, q') \<and> ainv q' \<and>
      (r = None \<longleftrightarrow> idle q = []) \<and> mset (idle q) = mset (case r of None \<Rightarrow> [] | Some w \<Rightarrow> [w]) + mset (idle q')"
    and retrieve_idle: "ainv q \<Longrightarrow> \<exists>gone q'. retrieveExpiry t q = Some (gone, q') \<and> ainv q' \<and>
      mset (idle q) = mset gone + mset (idle q')"
    and reset_idle: "ainv q \<Longrightarrow> reset q = Some (gone, q') \<Longrightarrow> ainv q' \<and>
      mset (idle q) = mset gone + mset (idle q') \<and> idle q' = []"

subsection \<open>The binary search\<close>

lemma binarySearch_range:
  assumes "0 \<le> l" and "r < int (length items)" and "l \<le> r + 1"
  shows "\<exists>i. binarySearch items l r t = Some i \<and> l - 1 \<le> i \<and> i \<le> r"
  using assms
proof (induction items l r t rule: binarySearch.induct)
  case (1 items l r t)
  show ?case
  proof (cases "l \<le> r")
    case True
    define mid where "mid = (l + r) div 2"
    have mid: "l \<le> mid" "mid \<le> r" using True by (auto simp: mid_def)
    then have g: "go_index items mid = Some (items ! nat mid)" using "1.prems" by (simp add: go_index_def)
    show ?thesis
    proof (cases "t < recycleTime (items ! nat mid)")
      case less: True
      with "1.IH"(1) [OF True mid_def g less] "1.prems" mid g True show ?thesis
        by (subst binarySearch.simps) (force simp: mid_def [symmetric])
    next
      case ge: False
      with "1.IH"(2) [OF True mid_def g ge] "1.prems" mid g True show ?thesis
        by (subst binarySearch.simps) (force simp: mid_def [symmetric])
    qed
  next
    case False
    with "1.prems" show ?thesis by (subst binarySearch.simps) simp
  qed
qed

definition expired :: "int \<Rightarrow> goWorker \<Rightarrow> bool" where
  "expired t w \<longleftrightarrow> \<not> t < recycleTime w"

lemma binarySearch_sorted:
  assumes "sorted (map recycleTime items)" and "0 \<le> l" and "r < int (length items)" and "l \<le> r + 1"
    and "\<forall>j < nat l. expired t (items ! j)" and "\<forall>j < length items. r < int j \<longrightarrow> \<not> expired t (items ! j)"
    and "binarySearch items l r t = Some i"
  shows "(\<forall>j < nat (i + 1). expired t (items ! j)) \<and>
    (\<forall>j < length items. i < int j \<longrightarrow> \<not> expired t (items ! j))"
  using assms
proof (induction items l r t rule: binarySearch.induct)
  case (1 items l r t)
  show ?case
  proof (cases "l \<le> r")
    case True
    define mid where "mid = (l + r) div 2"
    have mid: "l \<le> mid" "mid \<le> r" using True by (auto simp: mid_def)
    then have g: "go_index items mid = Some (items ! nat mid)" using "1.prems" by (simp add: go_index_def)
    have mono: "recycleTime (items ! a) \<le> recycleTime (items ! b)" if "a \<le> b" "b < length items" for a b
      using sorted_nth_mono [OF "1.prems"(1), of a b] that by simp
    have mid': "nat mid < length items" using mid "1.prems"(2,3) by linarith
    show ?thesis
    proof (cases "t < recycleTime (items ! nat mid)")
      case less: True
      have rec: "binarySearch items l (mid - 1) t = Some i"
        using "1.prems"(7) True g less by (subst (asm) binarySearch.simps) (simp add: mid_def [symmetric])
      have "\<forall>j < length items. mid - 1 < int j \<longrightarrow> \<not> expired t (items ! j)"
      proof (intro allI impI)
        fix j assume j: "j < length items" "mid - 1 < int j"
        then have "recycleTime (items ! nat mid) \<le> recycleTime (items ! j)" by (intro mono) auto
        with less show "\<not> expired t (items ! j)" by (simp add: expired_def)
      qed
      with "1.IH"(1) [OF True mid_def g less] "1.prems" rec mid show ?thesis by simp
    next
      case ge: False
      have rec: "binarySearch items (mid + 1) r t = Some i"
        using "1.prems"(7) True g ge by (subst (asm) binarySearch.simps) (simp add: mid_def [symmetric])
      have "\<forall>j < nat (mid + 1). expired t (items ! j)"
      proof (intro allI impI)
        fix j assume "j < nat (mid + 1)"
        then have "recycleTime (items ! j) \<le> recycleTime (items ! nat mid)" using mid' by (intro mono) auto
        with ge show "expired t (items ! j)" by (simp add: expired_def)
      qed
      with "1.IH"(2) [OF True mid_def g ge] "1.prems" rec mid show ?thesis by simp
    qed
  next
    case False
    then have "i = r" "l = r + 1" using "1.prems"(4,7) by (subst (asm) binarySearch.simps, simp)+
    with "1.prems"(5,6) show ?thesis by simp
  qed
qed

lemma st_retrieveExpiry_split:
  obtains k wq' where "st_retrieveExpiry t wq = Some (take k (stItems wq), wq')"
    and "stItems wq' = drop k (stItems wq)" and "k \<le> length (stItems wq)"
    and "stItems wq \<noteq> [] \<Longrightarrow> binarySearch (stItems wq) 0 (int (length (stItems wq)) - 1) t = Some (int k - 1)"
proof (cases "stItems wq = []")
  case True
  then show ?thesis using that [of 0 wq] by (simp add: st_retrieveExpiry_def st_len_def)
next
  case False
  let ?n = "length (stItems wq)"
  have pos: "0 < ?n" using False by simp
  obtain i where i: "binarySearch (stItems wq) 0 (int ?n - 1) t = Some i" "-1 \<le> i" "i \<le> int ?n - 1"
    using binarySearch_range [of 0 "int ?n - 1" "stItems wq" t] by auto
  define k where "k = nat (i + 1)"
  have k: "i = int k - 1" "k \<le> ?n" using i by (simp_all add: k_def)
  have *: "take (?n - k) (go_copy 0 (drop k (stItems wq)) (stItems wq)) = drop k (stItems wq)"
    by (simp add: go_copy_fits)
  show ?thesis
  proof (cases "k = 0")
    case True
    then show ?thesis using that [of 0 "wq\<lparr>stExpiry := []\<rparr>"] i k False pos
      by (simp add: st_retrieveExpiry_def st_len_def)
  next
    case k0: False
    have "st_retrieveExpiry t wq = Some (take k (stItems wq),
        wq\<lparr>stExpiry := take k (stItems wq), stItems := drop k (stItems wq)\<rparr>)"
      using i k k0 False pos * by (simp add: st_retrieveExpiry_def st_len_def slice_def)
    with that k i show ?thesis by simp
  qed
qed

interpretation ws: worker_array "\<lambda>q. True" stItems st_len st_isEmpty "\<lambda>w q. Some (st_insert w q)" st_detach
    st_retrieveExpiry st_reset
proof
  fix q :: workerStack
  show "\<exists>r q'. st_detach q = Some (r, q') \<and> True \<and> (r = None \<longleftrightarrow> stItems q = []) \<and>
      mset (stItems q) = mset (case r of None \<Rightarrow> [] | Some w \<Rightarrow> [w]) + mset (stItems q')"
    by (cases "stItems q" rule: rev_cases) (simp_all add: st_detach_def st_len_def)
next
  fix q :: workerStack and t
  obtain k q' where "st_retrieveExpiry t q = Some (take k (stItems q), q')" "stItems q' = drop k (stItems q)"
    by (rule st_retrieveExpiry_split)
  then show "\<exists>gone q'. st_retrieveExpiry t q = Some (gone, q') \<and> True \<and>
      mset (stItems q) = mset gone + mset (stItems q')"
    by (auto simp flip: mset_append)
qed (auto simp: st_len_def st_isEmpty_def st_insert_def st_reset_def)

subsection \<open>The loop queue as a ring\<close>

definition lq_inv :: "loopQueue \<Rightarrow> bool" where
  "lq_inv wq \<longleftrightarrow> 0 < lqSize wq \<and> length (lqItems wq) = lqSize wq \<and> lqHead wq < lqSize wq \<and>
     lqTail wq < lqSize wq \<and> (lqIsFull wq \<longrightarrow> lqHead wq = lqTail wq) \<and>
     (\<forall>x \<in> set (ring (lqItems wq) (lqHead wq) (lq_len wq)). x \<noteq> None)"

definition lq_idle :: "loopQueue \<Rightarrow> goWorker list" where
  "lq_idle wq = map the (ring (lqItems wq) (lqHead wq) (lq_len wq))"

lemma lq_len_props:
  assumes "lq_inv wq"
  shows "lq_len wq \<le> lqSize wq" and "lqTail wq = (lqHead wq + lq_len wq) mod lqSize wq"
    and "lq_isEmpty wq \<longleftrightarrow> lq_len wq = 0" and "lqIsFull wq \<longleftrightarrow> lq_len wq = lqSize wq"
  using assms by (auto simp: lq_inv_def lq_len_def lq_isEmpty_def mod_if)

lemma lq_idle_length: "lq_inv wq \<Longrightarrow> length (lq_idle wq) = lq_len wq"
  using lq_len_props(1) by (simp add: lq_idle_def lq_inv_def)

lemma mod_succ_wrap: "p < n \<Longrightarrow> (if p + 1 = n then 0 else p + 1) = (p + 1) mod (n :: nat)"
  by auto

lemma lq_len_eqI:
  assumes "lqHead wq < lqSize wq" and "n \<le> lqSize wq" and "lqTail wq = (lqHead wq + n) mod lqSize wq"
    and "lqIsFull wq \<longleftrightarrow> n = lqSize wq"
  shows "lq_len wq = n"
proof -
  show ?thesis using assms by (cases "n = lqSize wq") (auto simp: lq_len_def mod_if)
qed

lemma lq_insert_ok:
  assumes "lq_inv wq" and "\<not> lqIsFull wq"
  obtains wq' where "lq_insert w wq = Some (None, wq')" and "lq_inv wq'" and "lq_idle wq' = lq_idle wq @ [w]"
proof -
  let ?n = "lq_len wq" and ?S = "lqSize wq" and ?h = "lqHead wq" and ?t = "lqTail wq"
  have I: "0 < ?S" "length (lqItems wq) = ?S" "?h < ?S" "?t < ?S" using assms(1) by (simp_all add: lq_inv_def)
  have n: "?n < ?S" using lq_len_props(1,4) [OF assms(1)] assms(2) by simp
  have t: "?t = (?h + ?n) mod ?S" by (rule lq_len_props(2) [OF assms(1)])
  define wq' where "wq' = wq\<lparr>lqItems := (lqItems wq)[?t := Some w], lqTail := (?t + 1) mod ?S,
    lqIsFull := ((?t + 1) mod ?S = ?h)\<rparr>"
  have "lq_insert w wq = Some (None, wq')"
    using I assms(2) mod_succ_wrap [of ?t ?S] by (auto simp: lq_insert_def Let_def wq'_def)
  moreover have t': "(?t + 1) mod ?S = (?h + Suc ?n) mod ?S" using t by (simp add: mod_Suc_eq)
  have l: "lq_len wq' = Suc ?n"
  proof (rule lq_len_eqI)
    show "lqIsFull wq' \<longleftrightarrow> Suc ?n = lqSize wq'"
      using mod_add_inj [of 0 ?S "Suc ?n" ?h] n I t' by (cases "Suc ?n = ?S") (auto simp: wq'_def)
  qed (use I n t' in \<open>simp_all add: wq'_def\<close>)
  moreover have r: "ring (lqItems wq') ?h (Suc ?n) = ring (lqItems wq) ?h ?n @ [Some w]"
    using ring_push_back [of ?n "lqItems wq" ?h "Some w"] n I t by (simp add: wq'_def)
  moreover have "lq_inv wq'" using assms(1) l r I by (auto simp: lq_inv_def wq'_def)
  ultimately show ?thesis using that by (simp add: lq_idle_def wq'_def)
qed

lemma lq_pop_ok:
  assumes "lq_inv wq" and "\<not> lq_isEmpty wq"
  obtains w where "lqItems wq ! lqHead wq = Some w" and "lqHead wq < length (lqItems wq)"
    and "lq_inv (lq_pop wq)" and "lq_idle wq = w # lq_idle (lq_pop wq)"
    and "lqSize (lq_pop wq) = lqSize wq" and "lqExpiry (lq_pop wq) = lqExpiry wq"
proof -
  let ?S = "lqSize wq" and ?h = "lqHead wq" and ?b = "lqItems wq"
  have I: "0 < ?S" "length ?b = ?S" "?h < ?S" "lqTail wq < ?S" using assms(1) by (simp_all add: lq_inv_def)
  obtain n where n: "lq_len wq = Suc n" using lq_len_props(3) [OF assms(1)] assms(2) by (cases "lq_len wq") auto
  have le: "Suc n \<le> ?S" using lq_len_props(1) [OF assms(1)] n by simp
  have t: "lqTail wq = (?h + Suc n) mod ?S" using lq_len_props(2) [OF assms(1)] n by simp
  have pop: "lq_pop wq = wq\<lparr>lqItems := ?b[?h := None], lqHead := (?h + 1) mod ?S, lqIsFull := False\<rparr>"
    using mod_succ_wrap [OF I(3)] by (auto simp: lq_pop_def Let_def)
  have l: "lq_len (lq_pop wq) = n"
  proof (rule lq_len_eqI)
    show "lqTail (lq_pop wq) = (lqHead (lq_pop wq) + n) mod lqSize (lq_pop wq)"
      using t by (simp add: pop mod_add_left_eq)
  qed (use I le in \<open>auto simp: pop\<close>)
  have r: "ring ?b ?h (Suc n) = ?b ! ?h # ring ?b ((?h + 1) mod ?S) n"
    using ring_Suc [of n ?b ?h] I le by simp
  have r': "ring (?b[?h := None]) ((?h + 1) mod ?S) n = ring ?b ((?h + 1) mod ?S) n"
    using ring_update_before [of n ?b ?h None] I le by simp
  obtain w where w: "?b ! ?h = Some w" using assms(1) r n by (auto simp: lq_inv_def)
  moreover have "lq_inv (lq_pop wq)"
    unfolding lq_inv_def l using assms(1) r r' n I by (auto simp: lq_inv_def pop)
  moreover have "lq_idle wq = w # lq_idle (lq_pop wq)"
    unfolding lq_idle_def l n using r r' w by (simp add: pop)
  ultimately show ?thesis using that I by (simp add: pop)
qed

lemma lq_detach_ok:
  assumes "lq_inv wq" and "\<not> lq_isEmpty wq"
  obtains wq' where "lq_detach wq = Some (Some (hd (lq_idle wq)), wq')" and "lq_inv wq'"
    and "lq_idle wq' = tl (lq_idle wq)" and "lq_idle wq \<noteq> []"
proof (rule lq_pop_ok [OF assms])
  fix w
  assume w: "lqItems wq ! lqHead wq = Some w" "lqHead wq < length (lqItems wq)" and i: "lq_inv (lq_pop wq)"
    and l: "lq_idle wq = w # lq_idle (lq_pop wq)"
  have "lq_detach wq = Some (Some w, lq_pop wq)" using w assms(2) by (simp add: lq_detach_def)
  then show ?thesis by (rule that [unfolded l list.sel, OF _ i refl list.distinct(2)])
qed

lemma lq_empty_idle: "lq_inv wq \<Longrightarrow> lq_isEmpty wq \<longleftrightarrow> lq_idle wq = []"
  using lq_len_props(3) [of wq] lq_idle_length [of wq] by auto

lemma lq_inv_expiry [simp]:
  "lq_inv (wq\<lparr>lqExpiry := e\<rparr>) = lq_inv wq" "lq_idle (wq\<lparr>lqExpiry := e\<rparr>) = lq_idle wq"
  "lq_isEmpty (wq\<lparr>lqExpiry := e\<rparr>) = lq_isEmpty wq"
  by (simp_all add: lq_inv_def lq_idle_def lq_isEmpty_def lq_len_def)

lemma expiry_loop_ok:
  assumes "lq_inv wq" and "length (lq_idle wq) \<le> fuel"
  shows "\<exists>wq'. expiry_loop fuel t wq = Some wq' \<and> lq_inv wq' \<and>
    lqExpiry wq' = lqExpiry wq @ takeWhile (expired t) (lq_idle wq) \<and>
    lq_idle wq' = dropWhile (expired t) (lq_idle wq)"
  using assms
proof (induction "lq_idle wq" arbitrary: wq fuel)
  case Nil
  then show ?case using lq_empty_idle [of wq] by (subst expiry_loop.simps) simp
next
  case (Cons x xs)
  have ne: "\<not> lq_isEmpty wq" using Cons.hyps(2) lq_empty_idle [OF Cons.prems(1)] by (metis list.distinct(1))
  let ?wq = "wq\<lparr>lqExpiry := lqExpiry wq @ [x]\<rparr>"
  obtain w where w: "lqItems wq ! lqHead wq = Some w" "lqHead wq < length (lqItems wq)"
    "lq_inv (lq_pop ?wq)" "lq_idle wq = w # lq_idle (lq_pop ?wq)"
    "lqExpiry (lq_pop ?wq) = lqExpiry wq @ [x]"
    using lq_pop_ok [of ?wq] Cons.prems(1) ne by auto
  then have x: "w = x" "xs = lq_idle (lq_pop ?wq)" using Cons.hyps(2) by simp_all
  show ?case
  proof (cases "t < recycleTime w")
    case True
    then show ?thesis using w x Cons.prems(1) ne Cons.hyps(2)
      by (subst expiry_loop.simps) (simp add: expired_def)
  next
    case False
    obtain f where f: "fuel = Suc f" using Cons.prems(2) Cons.hyps(2) by (cases fuel) auto
    have "expiry_loop fuel t wq = expiry_loop f t (lq_pop ?wq)"
      using w x ne False f by (subst expiry_loop.simps) simp
    with Cons.hyps(1) [OF x(2) w(3), of f] Cons.prems(2) Cons.hyps(2) f w x False show ?thesis
      by (simp add: expired_def)
  qed
qed

lemma lq_retrieveExpiry_ok:
  assumes "lq_inv wq"
  shows "\<exists>wq'. lq_retrieveExpiry t wq = Some (takeWhile (expired t) (lq_idle wq), wq') \<and> lq_inv wq' \<and>
    lq_idle wq' = dropWhile (expired t) (lq_idle wq)"
proof (cases "lq_isEmpty wq")
  case True
  then show ?thesis using assms lq_empty_idle [OF assms] by (simp add: lq_retrieveExpiry_def)
next
  case False
  have "length (lq_idle wq) \<le> lqSize wq" using assms lq_idle_length lq_len_props(1) by simp
  then show ?thesis
    using expiry_loop_ok [of "wq\<lparr>lqExpiry := []\<rparr>" "lqSize wq" t] assms False
    by (auto simp: lq_retrieveExpiry_def)
qed

lemma send_nil_loop_diverges: "send_nil_loop (Some w) sent = None"
proof -
  have "v = None" if "send_nil_loop v s = Some y" for v s y
    using that
    by (rule send_nil_loop.raw_induct [of "\<lambda>v s y. v = None", rotated]) (auto split: option.splits)
  then show ?thesis by (cases "send_nil_loop (Some w) sent") auto
qed

lemma lq_reset_diverges:
  assumes "lq_inv wq" and "lq_idle wq \<noteq> []"
  shows "lq_reset wq = None"
proof -
  have ne: "\<not> lq_isEmpty wq" using lq_empty_idle [OF assms(1)] assms(2) by simp
  then obtain w wq' where "lq_detach wq = Some (Some w, wq')" using lq_detach_ok [OF assms(1)] by metis
  with ne show ?thesis by (simp add: lq_reset_def send_nil_loop_diverges)
qed

interpretation lq: worker_array lq_inv lq_idle lq_len lq_isEmpty lq_insert lq_detach lq_retrieveExpiry lq_reset
proof
  fix q w
  assume inv: "lq_inv q"
  show "\<exists>e q'. lq_insert w q = Some (e, q') \<and> lq_inv q' \<and>
      mset (lq_idle q') = (if e = None then add_mset w (mset (lq_idle q)) else mset (lq_idle q))"
  proof (cases "lqIsFull q")
    case True
    then show ?thesis using inv by (simp add: lq_insert_def lq_inv_def)
  next
    case False
    with lq_insert_ok [OF inv False, of w] show ?thesis by fastforce
  qed
next
  fix q
  assume inv: "lq_inv q"
  show "\<exists>r q'. lq_detach q = Some (r, q') \<and> lq_inv q' \<and> (r = None \<longleftrightarrow> lq_idle q = []) \<and>
      mset (lq_idle q) = mset (case r of None \<Rightarrow> [] | Some w \<Rightarrow> [w]) + mset (lq_idle q')"
  proof (cases "lq_isEmpty q")
    case True
    then show ?thesis using inv lq_empty_idle [OF inv] by (simp add: lq_detach_def)
  next
    case False
    then obtain q' where "lq_detach q = Some (Some (hd (lq_idle q)), q')" "lq_inv q'"
      "lq_idle q' = tl (lq_idle q)" "lq_idle q \<noteq> []" using lq_detach_ok [OF inv] by metis
    then show ?thesis by (cases "lq_idle q") auto
  qed
next
  fix q t
  assume "lq_inv q"
  from lq_retrieveExpiry_ok [OF this, of t]
  show "\<exists>gone q'. lq_retrieveExpiry t q = Some (gone, q') \<and> lq_inv q' \<and> mset (lq_idle q) = mset gone + mset (lq_idle q')"
    by (auto simp flip: mset_append)
next
  fix q gone q'
  assume inv: "lq_inv q" and r: "lq_reset q = Some (gone, q')"
  then have e: "lq_idle q = []" using lq_reset_diverges by fastforce
  then show "lq_inv q' \<and> mset (lq_idle q) = mset gone + mset (lq_idle q') \<and> lq_idle q' = []"
    using inv r lq_empty_idle [OF inv] by (simp add: lq_reset_def)
qed (simp_all add: lq_idle_length lq_empty_idle)

subsection \<open>Properties\<close>

text \<open>C8. On a stack in order of recycle times, which is how workers are put back one after the other,
  the binary search of \<open>retrieveExpiry\<close> finds the workers a linear scan would: exactly the expired
  prefix is taken out and returned, without an index out of range.\<close>
theorem stack_expiry_scan:
  assumes "sorted (map recycleTime (stItems wq))"
  shows "\<exists>wq'. st_retrieveExpiry t wq = Some (takeWhile (expired t) (stItems wq), wq') \<and>
    stItems wq' = dropWhile (expired t) (stItems wq)"
proof -
  let ?xs = "stItems wq"
  obtain k wq' where r: "st_retrieveExpiry t wq = Some (take k ?xs, wq')" "stItems wq' = drop k ?xs"
      "k \<le> length ?xs"
    and bs: "?xs \<noteq> [] \<Longrightarrow> binarySearch ?xs 0 (int (length ?xs) - 1) t = Some (int k - 1)"
    using st_retrieveExpiry_split [of t wq] by blast
  have "takeWhile (expired t) ?xs = take k ?xs"
  proof (cases "?xs = []")
    case False
    from binarySearch_sorted [OF assms _ _ _ _ _ bs [OF False]]
    have "(\<forall>j < k. expired t (?xs ! j)) \<and> (\<forall>j < length ?xs. int k - 1 < int j \<longrightarrow> \<not> expired t (?xs ! j))"
      by auto
    then show ?thesis by (intro takeWhile_eq_take_P_nth) auto
  qed simp
  moreover from this have "dropWhile (expired t) ?xs = drop k ?xs"
    using r(3) by (metis dropWhile_eq_drop length_take min.absorb2)
  ultimately show ?thesis using r by auto
qed

theorem stack_expiry_scan_witness:
  "\<exists>wq'. st_retrieveExpiry 5 \<lparr>stItems = [\<lparr>wkId = 1, recycleTime = 3\<rparr>, \<lparr>wkId = 2, recycleTime = 5\<rparr>,
      \<lparr>wkId = 3, recycleTime = 9\<rparr>], stExpiry = [], stSize = 0\<rparr> =
      Some ([\<lparr>wkId = 1, recycleTime = 3\<rparr>, \<lparr>wkId = 2, recycleTime = 5\<rparr>], wq') \<and>
    stItems wq' = [\<lparr>wkId = 3, recycleTime = 9\<rparr>]"
  using stack_expiry_scan [of "\<lparr>stItems = [\<lparr>wkId = 1, recycleTime = 3\<rparr>, \<lparr>wkId = 2, recycleTime = 5\<rparr>,
      \<lparr>wkId = 3, recycleTime = 9\<rparr>], stExpiry = [], stSize = 0\<rparr>" 5]
  by (simp add: expired_def)

text \<open>The loop queue is a bounded first-in first-out queue of workers: inserting appends unless the
  queue is full, detaching takes the oldest worker, and \<open>retrieveExpiry\<close> takes exactly the expired
  workers from the front; none of these panics.\<close>
lemma loop_queue_fifo:
  assumes "lq_inv wq"
  shows "(\<exists>q1. lq_insert w wq = Some (if length (lq_idle wq) = lqSize wq then Some errQueueIsFull else None, q1) \<and>
      lq_inv q1 \<and> lq_idle q1 = lq_idle wq @ (if length (lq_idle wq) = lqSize wq then [] else [w])) \<and>
    (\<exists>q2. lq_detach wq = Some (if lq_idle wq = [] then None else Some (hd (lq_idle wq)), q2) \<and>
      lq_inv q2 \<and> lq_idle q2 = tl (lq_idle wq)) \<and>
    (\<exists>q3. lq_retrieveExpiry t wq = Some (takeWhile (expired t) (lq_idle wq), q3) \<and>
      lq_inv q3 \<and> lq_idle q3 = dropWhile (expired t) (lq_idle wq))"
proof (intro conjI)
  show "\<exists>q1. lq_insert w wq = Some (if length (lq_idle wq) = lqSize wq then Some errQueueIsFull else None, q1) \<and>
      lq_inv q1 \<and> lq_idle q1 = lq_idle wq @ (if length (lq_idle wq) = lqSize wq then [] else [w])"
  proof (cases "lqIsFull wq")
    case True
    then show ?thesis using assms lq_len_props(4) [OF assms] lq_idle_length [OF assms]
      by (simp add: lq_insert_def lq_inv_def)
  next
    case False
    with lq_insert_ok [OF assms False, of w] lq_len_props(4) [OF assms] lq_idle_length [OF assms]
    show ?thesis by fastforce
  qed
  show "\<exists>q2. lq_detach wq = Some (if lq_idle wq = [] then None else Some (hd (lq_idle wq)), q2) \<and>
      lq_inv q2 \<and> lq_idle q2 = tl (lq_idle wq)"
  proof (cases "lq_isEmpty wq")
    case True
    then show ?thesis using assms lq_empty_idle [OF assms] by (simp add: lq_detach_def)
  next
    case False
    with lq_detach_ok [OF assms False] show ?thesis by fastforce
  qed
qed (rule lq_retrieveExpiry_ok [OF assms])

end
