(* ===== verification/Gpool.thy ===== *)
theory Gpool
  imports WorkerArray
begin

text \<open>
  \<^verbatim>\<open>gpool/pool.go\<close>, \<^verbatim>\<open>gpool/options.go\<close> and the loop of \<^verbatim>\<open>gpool/worker.go\<close>: a pool that runs tasks on
  at most \<open>capacity\<close> goroutines. The worker array is a record of operations, so that every statement
  holds for the stack and for the loop queue.

  Concurrency. A section between \<open>lock\<close> and \<open>unlock\<close> (up to a \<open>cond.Wait\<close>) is one step, and so is a
  condition tested outside the lock, whose atomic reads are taken together. A caller that has found the
  pool open but has not yet locked it is in \<open>psCallers\<close>; one woken when no worker runs, which has yet to
  look whether the pool is closed, is in \<open>psDeciding\<close>; one allowed to start a worker that it has not yet
  counted is in \<open>psSpawning\<close>; one in \<open>cond.Wait\<close> is in \<open>psWaiting\<close>, with the capacity it read before.
  A worker is idle (in the array), busy, about to be put back, on the list of the purging goroutine, or
  about to quit. The purging goroutine waits for its tick, has found the pool open and goes for the lock,
  or tells the workers of its list to quit, one by one and without the lock; it ends at the first tick
  that finds the pool closed. The relation \<open>pool_step\<close> lets all of them interleave. Task bodies, the
  logger and the panic handler do not touch the pool and are left out; a task that panics makes its
  worker quit.

  \<open>Reboot\<close> of a closed pool starts a purging goroutine whether or not the previous one has ended. Two
  of them would share the slice \<open>expiry\<close> of the array, which the one refills while the other, outside
  the lock, still tells the workers of its old contents to quit and clears them. That case is left out:
  here a closed pool is rebooted only once its purging goroutine has ended.

  \<open>running\<close> counts live goroutines and is an integer here; \<open>capacity\<close> keeps the conversion to
  \<open>int32\<close>.
\<close>

record Options =
  ExpiryDuration :: int
  PreAlloc :: bool
  MaxBlockingTasks :: int
  Nonblocking :: bool
  PanicHandler :: "nat option"
  OptLogger :: "nat option"

definition zeroOptions :: Options where
  "zeroOptions = \<lparr>ExpiryDuration = 0, PreAlloc = False, MaxBlockingTasks = 0, Nonblocking = False,
     PanicHandler = None, OptLogger = None\<rparr>"

type_synonym Opt = "Options \<Rightarrow> Options"

definition loadOptions :: "Opt list \<Rightarrow> Options" where
  "loadOptions options = fold (\<lambda>f opts. f opts) options zeroOptions"

definition WithOptions :: "Options \<Rightarrow> Opt" where
  "WithOptions options opts = options"

definition WithExpiryDuration :: "int \<Rightarrow> Opt" where
  "WithExpiryDuration d opts = opts\<lparr>ExpiryDuration := d\<rparr>"

definition WithPreAlloc :: "bool \<Rightarrow> Opt" where
  "WithPreAlloc b opts = opts\<lparr>PreAlloc := b\<rparr>"

definition WithMaxBlockingTasks :: "int \<Rightarrow> Opt" where
  "WithMaxBlockingTasks n opts = opts\<lparr>MaxBlockingTasks := n\<rparr>"

definition WithNonblocking :: "bool \<Rightarrow> Opt" where
  "WithNonblocking b opts = opts\<lparr>Nonblocking := b\<rparr>"

definition WithPanicHandler :: "nat \<Rightarrow> Opt" where
  "WithPanicHandler h opts = opts\<lparr>PanicHandler := Some h\<rparr>"

definition WithLogger :: "nat \<Rightarrow> Opt" where
  "WithLogger l opts = opts\<lparr>OptLogger := Some l\<rparr>"

subsection \<open>The pool\<close>

datatype PoolType = PoolTypeWorker | PoolTypeWorkerFunc

record 'q warray =
  waInsert :: "goWorker \<Rightarrow> 'q \<Rightarrow> (gpool_error option \<times> 'q) option"
  waDetach :: "'q \<Rightarrow> (goWorker option \<times> 'q) option"
  waRetrieveExpiry :: "int \<Rightarrow> 'q \<Rightarrow> (goWorker list \<times> 'q) option"
  waReset :: "'q \<Rightarrow> (goWorker list \<times> 'q) option"

definition stack_array :: "workerStack warray" where
  "stack_array = \<lparr>waInsert = \<lambda>w q. Some (st_insert w q), waDetach = st_detach,
     waRetrieveExpiry = st_retrieveExpiry, waReset = st_reset\<rparr>"

definition loop_array :: "loopQueue warray" where
  "loop_array = \<lparr>waInsert = lq_insert, waDetach = lq_detach,
     waRetrieveExpiry = lq_retrieveExpiry, waReset = lq_reset\<rparr>"

record 'q Pool =
  pCapacity :: int
  pRunning :: int
  pWorkers :: 'q
  pClosed :: bool
  pBlockingNum :: int
  pOptions :: Options
  pType :: PoolType

definition int32 :: "int \<Rightarrow> int" where
  "int32 n = sint (word_of_int n :: 32 word)"

definition DefaultCleanIntervalTime :: int where
  "DefaultCleanIntervalTime = 1000000000"

definition newPool :: "PoolType \<Rightarrow> int \<Rightarrow> Options \<Rightarrow> gpool_error + (workerStack Pool + loopQueue Pool)" where
  \<comment> \<open>the common part of the two constructors, from the check of the expiry on; logger 0 is the default\<close>
  "newPool ty n opts =
     (if ExpiryDuration opts < 0 then Inl ErrInvalidPoolExpiry
      else let opts = (if ExpiryDuration opts = 0
                       then opts\<lparr>ExpiryDuration := DefaultCleanIntervalTime\<rparr> else opts);
               opts = (if OptLogger opts = None then opts\<lparr>OptLogger := Some 0\<rparr> else opts)
           in if PreAlloc opts then
                if n = -1 then Inl ErrInvalidPreAllocSize
                else Inr (Inr \<lparr>pCapacity = int32 n, pRunning = 0, pWorkers = newWorkerLoopQueue (nat n),
                       pClosed = False, pBlockingNum = 0, pOptions = opts, pType = ty\<rparr>)
              else Inr (Inl \<lparr>pCapacity = int32 n, pRunning = 0, pWorkers = newWorkerStack 0,
                       pClosed = False, pBlockingNum = 0, pOptions = opts, pType = ty\<rparr>))"

definition NewPool :: "int \<Rightarrow> Opt list \<Rightarrow> gpool_error + (workerStack Pool + loopQueue Pool)" where
  "NewPool n options =
     (let opts = loadOptions options; n = (if n \<le> 0 then -1 else n) in newPool PoolTypeWorker n opts)"

definition NewPoolWithFunc :: "int \<Rightarrow> 'f option \<Rightarrow> Opt list \<Rightarrow> gpool_error + (workerStack Pool + loopQueue Pool)" where
  \<comment> \<open>the function \<open>pf\<close> is only told from nil\<close>
  "NewPoolWithFunc n pf options =
     (let n = (if n \<le> 0 then -1 else n)
      in if pf = None then Inl ErrLackPoolFunc else newPool PoolTypeWorkerFunc n (loadOptions options))"

definition IsClosed :: "'q Pool \<Rightarrow> bool" where
  "IsClosed p = pClosed p"

definition Running :: "'q Pool \<Rightarrow> int" where
  "Running p = pRunning p"

definition PoolCap :: "'q Pool \<Rightarrow> int" where
  "PoolCap p = pCapacity p"

definition Free :: "'q Pool \<Rightarrow> int" where
  "Free p = (let c = PoolCap p in if c < 0 then -1 else c - Running p)"

definition Tune :: "int \<Rightarrow> 'q Pool \<Rightarrow> 'q Pool" where
  "Tune n p =
     (let capacity = PoolCap p
      in if capacity = -1 \<or> n \<le> 0 \<or> n = capacity \<or> PreAlloc (pOptions p) then p
         else p\<lparr>pCapacity := int32 n\<rparr>)"

definition Release :: "'q warray \<Rightarrow> 'q Pool \<Rightarrow> (goWorker list \<times> 'q Pool) option" where
  \<comment> \<open>the workers told to quit; waking the waiters is not a change of state\<close>
  "Release A p =
     (let p = p\<lparr>pClosed := True\<rparr>
      in do { (gone, q) \<leftarrow> waReset A (pWorkers p); Some (gone, p\<lparr>pWorkers := q\<rparr>) })"

definition Reboot :: "'q Pool \<Rightarrow> 'q Pool" where
  "Reboot p = (if pClosed p then p\<lparr>pClosed := False\<rparr> else p)"

definition incRunning :: "'q Pool \<Rightarrow> 'q Pool" where
  "incRunning p = p\<lparr>pRunning := pRunning p + 1\<rparr>"

definition decRunning :: "'q Pool \<Rightarrow> 'q Pool" where
  "decRunning p = p\<lparr>pRunning := pRunning p - 1\<rparr>"

subsection \<open>Obtaining and returning workers\<close>

text \<open>The sections of \<open>retrieveWorker\<close>: up to the first unlock or wait, and from a wake-up to the next.\<close>

datatype retrieved = Got goWorker | MaySpawn | NoneRunning | Refused | WaitWith int

definition block_or_refuse :: "int \<Rightarrow> 'q Pool \<Rightarrow> retrieved \<times> 'q Pool" where
  "block_or_refuse capacity p =
     (if MaxBlockingTasks (pOptions p) \<noteq> 0 \<and> pBlockingNum p \<ge> MaxBlockingTasks (pOptions p)
      then (Refused, p)
      else (WaitWith capacity, p\<lparr>pBlockingNum := pBlockingNum p + 1\<rparr>))"

definition retrieve_first :: "'q warray \<Rightarrow> 'q Pool \<Rightarrow> (retrieved \<times> 'q Pool) option" where
  "retrieve_first A p = do {
     (w, q) \<leftarrow> waDetach A (pWorkers p);
     let p = p\<lparr>pWorkers := q\<rparr>;
     Some (case w of
        Some w \<Rightarrow> (Got w, p)
      | None \<Rightarrow>
          let capacity = PoolCap p
          in if capacity = -1 \<or> capacity > Running p then (MaySpawn, p)
             else if Nonblocking (pOptions p) then (Refused, p)
             else block_or_refuse capacity p)
   }"

definition retrieve_woken :: "'q warray \<Rightarrow> int \<Rightarrow> 'q Pool \<Rightarrow> (retrieved \<times> 'q Pool) option" where
  "retrieve_woken A capacity p =
     (let p = p\<lparr>pBlockingNum := pBlockingNum p - 1\<rparr>; nw = Running p
      in if nw = 0 then Some (NoneRunning, p) \<comment> \<open>then, without the lock, a worker is started unless closed\<close>
         else do {
           (w, q) \<leftarrow> waDetach A (pWorkers p);
           let p = p\<lparr>pWorkers := q\<rparr>;
           Some (case w of
              Some w \<Rightarrow> (Got w, p)
            | None \<Rightarrow> if nw < capacity then (MaySpawn, p) else block_or_refuse capacity p)
         })"

text \<open>The sections of \<open>revertWorker\<close>: the check before the lock and the locked part.\<close>

definition revert_check :: "'q Pool \<Rightarrow> bool" where
  "revert_check p \<longleftrightarrow>
     \<not> (let capacity = PoolCap p in capacity > 0 \<and> Running p > capacity \<or> IsClosed p)"

definition revert_insert :: "'q warray \<Rightarrow> int \<Rightarrow> goWorker \<Rightarrow> 'q Pool \<Rightarrow> (bool \<times> 'q Pool) option" where
  "revert_insert A now w p =
     (if IsClosed p then Some (False, p)
      else do {
        (e, q) \<leftarrow> waInsert A (w\<lparr>recycleTime := now\<rparr>) (pWorkers p);
        Some (e = None, p\<lparr>pWorkers := q\<rparr>)
      })"

datatype task_end = NilTask | Panicked | Completed

definition after_task :: "'q Pool \<Rightarrow> task_end \<Rightarrow> bool" where
  \<comment> \<open>the loop of \<open>run\<close>: a worker goes on to put itself back only after a task that completed; a nil
     argument, a panic or a failed check makes it leave\<close>
  "after_task p e \<longleftrightarrow> e = Completed \<and> revert_check p"

datatype purger = Ticking | Locking | Telling "goWorker list" | Ended

definition purge_tick :: "'q Pool \<Rightarrow> purger" where
  \<comment> \<open>a tick of \<open>purgePeriodically\<close>, up to the lock\<close>
  "purge_tick p = (if IsClosed p then Ended else Locking)"

definition purge_collect :: "'q warray \<Rightarrow> int \<Rightarrow> 'q Pool \<Rightarrow> (goWorker list \<times> 'q Pool) option" where
  \<comment> \<open>its locked part: the workers to be told to quit\<close>
  "purge_collect A now p = do {
     (gone, q) \<leftarrow> waRetrieveExpiry A (now - ExpiryDuration (pOptions p)) (pWorkers p);
     Some (gone, p\<lparr>pWorkers := q\<rparr>)
   }"

definition purge_list :: "purger \<Rightarrow> goWorker list" where
  "purge_list g = (case g of Telling ws \<Rightarrow> ws | _ \<Rightarrow> [])"

lemma purge_list_simps [simp]:
  "purge_list (Telling ws) = ws" "purge_list Ticking = []" "purge_list Locking = []" "purge_list Ended = []"
  by (simp_all add: purge_list_def)

lemma purge_list_tick [simp]: "purge_list (purge_tick p) = []"
  by (simp add: purge_tick_def)

definition defaultAntsPool :: "gpool_error + (workerStack Pool + loopQueue Pool)" where
  "defaultAntsPool = NewPool 2147483647 []"

definition Submit_outcome :: "'q warray \<Rightarrow> 'q Pool \<Rightarrow> (gpool_error option \<times> 'q Pool) option" where
  \<comment> \<open>\<open>Submit\<close> and \<open>Invoke\<close> when they do not have to wait: the error, or nil once a worker has the task\<close>
  "Submit_outcome A p =
     (if IsClosed p then Some (Some ErrPoolClosed, p)
      else do {
        (r, p) \<leftarrow> retrieve_first A p;
        (case r of
           Got w \<Rightarrow> Some (None, p)
         | MaySpawn \<Rightarrow> Some (None, incRunning p)
         | NoneRunning \<Rightarrow> None
         | Refused \<Rightarrow> Some (Some ErrPoolOverload, p)
         | WaitWith c \<Rightarrow> None)
      })"

subsection \<open>The pool with its callers and workers\<close>

record 'q pool_sys =
  psPool :: "'q Pool"
  psPurger :: purger
  psCallers :: nat
  psDeciding :: nat
  psSpawning :: nat
  psWaiting :: "int multiset"
  psBusy :: "goWorker multiset"
  psReverting :: "goWorker multiset"
  psExiting :: "goWorker multiset"
  psReleasing :: nat

definition start_sys :: "'q Pool \<Rightarrow> 'q pool_sys" where
  "start_sys p = \<lparr>psPool = p, psPurger = Ticking, psCallers = 0, psDeciding = 0, psSpawning = 0, psWaiting = {#}, psBusy = {#}, psReverting = {#},
     psExiting = {#}, psReleasing = 0\<rparr>"

definition deliver :: "retrieved \<Rightarrow> 'q Pool \<Rightarrow> 'q pool_sys \<Rightarrow> 'q pool_sys" where
  \<comment> \<open>what a caller of \<open>retrieveWorker\<close> does next\<close>
  "deliver r p s =
     (let s = s\<lparr>psPool := p\<rparr>
      in case r of
           Got w \<Rightarrow> s\<lparr>psBusy := add_mset w (psBusy s)\<rparr>
         | MaySpawn \<Rightarrow> s\<lparr>psSpawning := psSpawning s + 1\<rparr>
         | NoneRunning \<Rightarrow> s\<lparr>psDeciding := psDeciding s + 1\<rparr>
         | Refused \<Rightarrow> s
         | WaitWith c \<Rightarrow> s\<lparr>psWaiting := add_mset c (psWaiting s)\<rparr>)"

definition live :: "'q pool_sys \<Rightarrow> goWorker multiset" where
  \<comment> \<open>the workers outside the array\<close>
  "live s = psBusy s + psReverting s + mset (purge_list (psPurger s)) + psExiting s"

inductive pool_step ::
  "'q warray \<Rightarrow> ('q \<Rightarrow> goWorker list) \<Rightarrow> 'q pool_sys \<Rightarrow> 'q pool_sys \<Rightarrow> bool" for A idle where
  submit: "\<not> IsClosed (psPool s) \<Longrightarrow> pool_step A idle s (s\<lparr>psCallers := psCallers s + 1\<rparr>)"
| retrieve: "0 < psCallers s \<Longrightarrow> retrieve_first A (psPool s) = Some (r, p) \<Longrightarrow>
    pool_step A idle s (deliver r p (s\<lparr>psCallers := psCallers s - 1\<rparr>))"
| woken: "c \<in># psWaiting s \<Longrightarrow> retrieve_woken A c (psPool s) = Some (r, p) \<Longrightarrow>
    pool_step A idle s (deliver r p (s\<lparr>psWaiting := psWaiting s - {#c#}\<rparr>))"
| decide_open: "0 < psDeciding s \<Longrightarrow> \<not> IsClosed (psPool s) \<Longrightarrow>
    pool_step A idle s (s\<lparr>psDeciding := psDeciding s - 1, psSpawning := psSpawning s + 1\<rparr>)"
| decide_closed: "0 < psDeciding s \<Longrightarrow> IsClosed (psPool s) \<Longrightarrow>
    pool_step A idle s (s\<lparr>psDeciding := psDeciding s - 1\<rparr>)"
| spawn: "0 < psSpawning s \<Longrightarrow>
    \<comment> \<open>the cache hands out a worker that is not in use\<close>
    wkId w \<notin> wkId ` set_mset (live s) \<union> wkId ` set (idle (pWorkers (psPool s))) \<Longrightarrow>
    pool_step A idle s (s\<lparr>psSpawning := psSpawning s - 1, psPool := incRunning (psPool s),
      psBusy := add_mset w (psBusy s)\<rparr>)"
| done_revert: "w \<in># psBusy s \<Longrightarrow> after_task (psPool s) e \<Longrightarrow>
    pool_step A idle s (s\<lparr>psBusy := psBusy s - {#w#}, psReverting := add_mset w (psReverting s)\<rparr>)"
| done_exit: "w \<in># psBusy s \<Longrightarrow> \<not> after_task (psPool s) e \<Longrightarrow>
    pool_step A idle s (s\<lparr>psBusy := psBusy s - {#w#}, psExiting := add_mset w (psExiting s)\<rparr>)"
| revert_ok: "w \<in># psReverting s \<Longrightarrow> revert_insert A now w (psPool s) = Some (True, p) \<Longrightarrow>
    pool_step A idle s (s\<lparr>psPool := p, psReverting := psReverting s - {#w#}\<rparr>)"
| revert_fail: "w \<in># psReverting s \<Longrightarrow> revert_insert A now w (psPool s) = Some (False, p) \<Longrightarrow>
    pool_step A idle s (s\<lparr>psPool := p, psReverting := psReverting s - {#w#},
      psExiting := add_mset (w\<lparr>recycleTime := now\<rparr>) (psExiting s)\<rparr>)"
| quit: "w \<in># psExiting s \<Longrightarrow>
    pool_step A idle s (s\<lparr>psPool := decRunning (psPool s), psExiting := psExiting s - {#w#}\<rparr>)"
| tick: "psPurger s = Ticking \<Longrightarrow> pool_step A idle s (s\<lparr>psPurger := purge_tick (psPool s)\<rparr>)"
| purge: "psPurger s = Locking \<Longrightarrow> purge_collect A now (psPool s) = Some (gone, p) \<Longrightarrow>
    pool_step A idle s (s\<lparr>psPool := p, psPurger := Telling gone\<rparr>)"
| tell: "psPurger s = Telling (w # ws) \<Longrightarrow>
    pool_step A idle s (s\<lparr>psPurger := Telling ws, psExiting := add_mset w (psExiting s)\<rparr>)"
| told: "psPurger s = Telling [] \<Longrightarrow> pool_step A idle s (s\<lparr>psPurger := Ticking\<rparr>)"
| release_close: "pool_step A idle s (s\<lparr>psPool := (psPool s)\<lparr>pClosed := True\<rparr>, psReleasing := psReleasing s + 1\<rparr>)"
| release_reset: "0 < psReleasing s \<Longrightarrow> waReset A (pWorkers (psPool s)) = Some (gone, q) \<Longrightarrow>
    pool_step A idle s (s\<lparr>psPool := (psPool s)\<lparr>pWorkers := q\<rparr>, psReleasing := psReleasing s - 1,
      psExiting := psExiting s + mset gone\<rparr>)"
| reboot: "psPurger s = Ended \<Longrightarrow> pClosed (psPool s) \<Longrightarrow>
    pool_step A idle s (s\<lparr>psPool := Reboot (psPool s), psPurger := Ticking\<rparr>)"
| reboot_open: "\<not> pClosed (psPool s) \<Longrightarrow> pool_step A idle s (s\<lparr>psPool := Reboot (psPool s)\<rparr>)"
| tune: "pool_step A idle s (s\<lparr>psPool := Tune n (psPool s)\<rparr>)"

inductive pool_reach :: "'q warray \<Rightarrow> ('q \<Rightarrow> goWorker list) \<Rightarrow> 'q pool_sys \<Rightarrow> 'q pool_sys \<Rightarrow> bool"
  for A idle s0 where
  pool_start: "pool_reach A idle s0 s0"
| pool_next: "pool_reach A idle s0 s \<Longrightarrow> pool_step A idle s s' \<Longrightarrow> pool_reach A idle s0 s'"

definition worker_ids :: "('q \<Rightarrow> goWorker list) \<Rightarrow> 'q pool_sys \<Rightarrow> nat multiset" where
  "worker_ids idle s = image_mset wkId (live s + mset (idle (pWorkers (psPool s))))"

definition pool_inv :: "('q \<Rightarrow> bool) \<Rightarrow> ('q \<Rightarrow> goWorker list) \<Rightarrow> 'q pool_sys \<Rightarrow> bool" where
  \<comment> \<open>every worker is in exactly one place and counted, and so is every waiting caller\<close>
  "pool_inv ainv idle s \<longleftrightarrow>
     ainv (pWorkers (psPool s)) \<and>
     pRunning (psPool s) = int (size (worker_ids idle s)) \<and>
     (\<forall>i. count (worker_ids idle s) i \<le> 1) \<and>
     pBlockingNum (psPool s) = int (size (psWaiting s)) \<and>
     (MaxBlockingTasks (pOptions (psPool s)) > 0 \<longrightarrow>
        pBlockingNum (psPool s) \<le> MaxBlockingTasks (pOptions (psPool s)))"

subsection \<open>The invariant\<close>

lemma pool_inv_ids:
  assumes "pool_inv ainv idle s" and "ainv (pWorkers (psPool s'))"
    and "worker_ids idle s' = worker_ids idle s" and "pRunning (psPool s') = pRunning (psPool s)"
    and "pOptions (psPool s') = pOptions (psPool s)"
    and "pBlockingNum (psPool s') = int (size (psWaiting s'))"
    and "MaxBlockingTasks (pOptions (psPool s)) > 0 \<Longrightarrow>
      pBlockingNum (psPool s') \<le> MaxBlockingTasks (pOptions (psPool s))"
  shows "pool_inv ainv idle s'"
  using assms(1-6) assms(7) unfolding pool_inv_def by auto

lemma pool_inv_same:
  assumes "pool_inv ainv idle s" and "ainv (pWorkers (psPool s'))"
    and "worker_ids idle s' = worker_ids idle s" and "pRunning (psPool s') = pRunning (psPool s)"
    and "pBlockingNum (psPool s') = pBlockingNum (psPool s)" and "psWaiting s' = psWaiting s"
    and "pOptions (psPool s') = pOptions (psPool s)"
  shows "pool_inv ainv idle s'"
  by (rule pool_inv_ids [OF assms(1)]) (use assms in \<open>auto simp: pool_inv_def\<close>)

lemma worker_ids_split:
  "worker_ids idle s = image_mset wkId (psBusy s) + image_mset wkId (psReverting s) +
     image_mset wkId (mset (purge_list (psPurger s))) + image_mset wkId (psExiting s) +
     image_mset wkId (mset (idle (pWorkers (psPool s))))"
  by (simp add: worker_ids_def live_def)

definition retrieve_effect :: "('q \<Rightarrow> bool) \<Rightarrow> ('q \<Rightarrow> goWorker list) \<Rightarrow> 'q Pool \<Rightarrow> retrieved \<Rightarrow> 'q Pool \<Rightarrow> bool" where
  "retrieve_effect ainv idle p r p' \<longleftrightarrow>
     ainv (pWorkers p') \<and> pRunning p' = pRunning p \<and> pOptions p' = pOptions p \<and> pCapacity p' = pCapacity p \<and>
     pClosed p' = pClosed p \<and>
     mset (idle (pWorkers p)) = (case r of Got w \<Rightarrow> {#w#} | _ \<Rightarrow> {#}) + mset (idle (pWorkers p')) \<and>
     pBlockingNum p' = pBlockingNum p + (case r of WaitWith c \<Rightarrow> 1 | _ \<Rightarrow> 0) \<and>
     (case r of WaitWith c \<Rightarrow> MaxBlockingTasks (pOptions p) > 0 \<longrightarrow>
        pBlockingNum p' \<le> MaxBlockingTasks (pOptions p) | _ \<Rightarrow> True)"

lemma block_or_refuse_effect:
  assumes "ainv (pWorkers p)" and "block_or_refuse c p = (r, p')"
  shows "retrieve_effect ainv idle p r p'"
  using assms by (auto simp: block_or_refuse_def retrieve_effect_def split: if_splits)

lemma deliver_ids:
  assumes "retrieve_effect ainv idle p0 r p" and "pWorkers p0 = pWorkers (psPool s)"
  shows "worker_ids idle (deliver r p s) = worker_ids idle s"
  using assms by (cases r) (simp_all add: worker_ids_split deliver_def retrieve_effect_def)

lemma deliver_fields:
  "psPool (deliver r p s) = p"
  "psWaiting (deliver r p s) = psWaiting s + (case r of WaitWith c \<Rightarrow> {#c#} | _ \<Rightarrow> {#})"
  by (cases r; simp add: deliver_def)+

lemma deliver_inv:
  assumes inv: "pool_inv ainv idle s" and e: "retrieve_effect ainv idle (psPool s) r p"
  shows "pool_inv ainv idle (deliver r p s)"
  by (rule pool_inv_ids [OF inv _ deliver_ids [OF e refl]])
    (use inv e in \<open>cases r; auto simp: deliver_fields pool_inv_def retrieve_effect_def\<close>)+

lemma deliver_woken_inv:
  assumes inv: "pool_inv ainv idle s" and c: "c \<in># psWaiting s"
    and e: "retrieve_effect ainv idle ((psPool s)\<lparr>pBlockingNum := pBlockingNum (psPool s) - 1\<rparr>) r p"
  shows "pool_inv ainv idle (deliver r p (s\<lparr>psWaiting := psWaiting s - {#c#}\<rparr>))"
proof -
  obtain W where W: "psWaiting s = add_mset c W" using c by (metis insert_DiffM)
  have ids: "worker_ids idle (deliver r p (s\<lparr>psWaiting := psWaiting s - {#c#}\<rparr>)) = worker_ids idle s"
    using deliver_ids [OF e, of "s\<lparr>psWaiting := psWaiting s - {#c#}\<rparr>"] by (simp add: worker_ids_split)
  show ?thesis
    by (rule pool_inv_ids [OF inv _ ids]) (use inv e in \<open>cases r; auto simp: W deliver_fields pool_inv_def retrieve_effect_def\<close>)+
qed

lemma move_worker:
  assumes "w \<in># M" and "wkId w' = wkId w"
  shows "image_mset wkId M = add_mset (wkId w') (image_mset wkId (M - {#w#}))"
proof -
  obtain N where "M = add_mset w N" using assms(1) by (metis insert_DiffM)
  then show ?thesis using assms(2) by simp
qed

context worker_array
begin

definition ops_of :: "'q warray" where
  "ops_of = \<lparr>waInsert = ins, waDetach = detach, waRetrieveExpiry = retrieveExpiry, waReset = reset\<rparr>"

lemma retrieve_first_effect:
  assumes "ainv (pWorkers p)" and "retrieve_first ops_of p = Some (r, p')"
  shows "retrieve_effect ainv idle p r p'"
proof -
  obtain w q where d: "detach (pWorkers p) = Some (w, q)" "ainv q"
    "mset (idle (pWorkers p)) = mset (case w of None \<Rightarrow> [] | Some w \<Rightarrow> [w]) + mset (idle q)"
    using detach_idle [OF assms(1)] by blast
  show ?thesis
  proof (cases w)
    case (Some x)
    then show ?thesis using assms(2) d by (auto simp: retrieve_first_def ops_of_def retrieve_effect_def)
  next
    case None
    let ?p = "p\<lparr>pWorkers := q\<rparr>"
    have e: "retrieve_effect ainv idle ?p r p'"
      using assms(2) d None block_or_refuse_effect [of ainv ?p _ r p' idle]
      by (auto simp: retrieve_first_def ops_of_def Let_def retrieve_effect_def split: if_splits)
    then show ?thesis using d None by (cases r) (auto simp: retrieve_effect_def)
  qed
qed

lemma retrieve_woken_effect:
  assumes "ainv (pWorkers p)" and "retrieve_woken ops_of c p = Some (r, p')"
  shows "retrieve_effect ainv idle (p\<lparr>pBlockingNum := pBlockingNum p - 1\<rparr>) r p'"
proof (cases "pRunning p = 0")
  case True
  then show ?thesis using assms
    by (auto simp: retrieve_woken_def Let_def Running_def retrieve_effect_def split: if_splits)
next
  case False
  obtain w q where d: "detach (pWorkers p) = Some (w, q)" "ainv q"
    "mset (idle (pWorkers p)) = mset (case w of None \<Rightarrow> [] | Some w \<Rightarrow> [w]) + mset (idle q)"
    using detach_idle [OF assms(1)] by blast
  show ?thesis
  proof (cases w)
    case (Some x)
    then show ?thesis using assms(2) d False
      by (auto simp: retrieve_woken_def ops_of_def Let_def Running_def retrieve_effect_def)
  next
    case None
    let ?p = "p\<lparr>pBlockingNum := pBlockingNum p - 1, pWorkers := q\<rparr>"
    have e: "retrieve_effect ainv idle ?p r p'"
      using assms(2) d None False block_or_refuse_effect [of ainv ?p _ r p' idle]
      by (auto simp: retrieve_woken_def ops_of_def Let_def Running_def retrieve_effect_def split: if_splits)
    then show ?thesis using d None by (cases r) (auto simp: retrieve_effect_def)
  qed
qed

lemma revert_insert_effect:
  assumes "ainv (pWorkers p)" and "revert_insert ops_of now w p = Some (ok, p')"
  shows "ainv (pWorkers p') \<and> mset (idle (pWorkers p')) =
      (if ok then add_mset (w\<lparr>recycleTime := now\<rparr>) (mset (idle (pWorkers p))) else mset (idle (pWorkers p))) \<and>
    pRunning p' = pRunning p \<and> pBlockingNum p' = pBlockingNum p \<and> pOptions p' = pOptions p \<and>
    pCapacity p' = pCapacity p"
  using assms insert_idle [OF assms(1), of "w\<lparr>recycleTime := now\<rparr>"]
  by (auto simp: revert_insert_def ops_of_def split: if_splits)

lemma purge_collect_effect:
  assumes "ainv (pWorkers p)" and "purge_collect ops_of now p = Some (gone, p')"
  shows "ainv (pWorkers p') \<and> mset (idle (pWorkers p)) = mset gone + mset (idle (pWorkers p')) \<and>
    pRunning p' = pRunning p \<and> pBlockingNum p' = pBlockingNum p \<and> pOptions p' = pOptions p"
  using assms retrieve_idle [OF assms(1), of "now - ExpiryDuration (pOptions p)"]
  by (auto simp: purge_collect_def ops_of_def)

lemma spawn_inv:
  assumes "pool_inv ainv idle s"
    and "wkId w \<notin> wkId ` set_mset (live s) \<union> wkId ` set (idle (pWorkers (psPool s)))"
  shows "pool_inv ainv idle (s\<lparr>psSpawning := psSpawning s - 1, psPool := incRunning (psPool s),
      psBusy := add_mset w (psBusy s)\<rparr>)" (is "pool_inv _ _ ?s'")
proof -
  have "wkId w \<notin># worker_ids idle s" using assms(2) by (auto simp: worker_ids_def)
  moreover have "worker_ids idle ?s' = add_mset (wkId w) (worker_ids idle s)"
    by (simp add: worker_ids_def live_def incRunning_def)
  ultimately show ?thesis
    using assms(1) by (auto simp: pool_inv_def incRunning_def not_in_iff)
qed

lemma quit_inv:
  assumes "pool_inv ainv idle s" and "w \<in># psExiting s"
  shows "pool_inv ainv idle (s\<lparr>psPool := decRunning (psPool s), psExiting := psExiting s - {#w#}\<rparr>)"
    (is "pool_inv _ _ ?s'")
proof -
  have "worker_ids idle s = add_mset (wkId w) (worker_ids idle ?s')"
    using move_worker [OF assms(2), of w] by (simp add: worker_ids_split decRunning_def)
  then have "count (worker_ids idle ?s') i \<le> count (worker_ids idle s) i"
    "pRunning (psPool s) = int (size (worker_ids idle s)) \<Longrightarrow> pRunning (psPool s) - 1 = int (size (worker_ids idle ?s'))" for i
    by simp_all
  with assms(1) show ?thesis unfolding pool_inv_def by (auto simp: decRunning_def intro: order_trans)
qed

lemma pool_step_inv:
  assumes "pool_step ops_of idle s s'" and "pool_inv ainv idle s"
  shows "pool_inv ainv idle s'"
  using assms
proof (induction rule: pool_step.induct)
  case (retrieve s r p)
  then have "ainv (pWorkers (psPool s))" by (simp add: pool_inv_def)
  note e = retrieve_first_effect [OF this retrieve.hyps(2)]
  have "pool_inv ainv idle (s\<lparr>psCallers := psCallers s - 1\<rparr>)"
    by (rule pool_inv_same [OF retrieve.prems]) (use retrieve.prems in \<open>auto simp: pool_inv_def worker_ids_split\<close>)
  with e show ?case by (intro deliver_inv) simp_all
next
  case (woken c s r p)
  then have "ainv (pWorkers (psPool s))" by (simp add: pool_inv_def)
  from deliver_woken_inv [OF woken.prems woken.hyps(1) retrieve_woken_effect [OF this woken.hyps(2)]]
  show ?case .
next
  case (spawn s w)
  then show ?case by (blast intro: spawn_inv)
next
  case (done_revert w s e)
  then show ?case
    by (intro pool_inv_same [OF done_revert.prems])
      (auto simp: pool_inv_def worker_ids_split move_worker [of w "psBusy s" w])
next
  case (done_exit w s e)
  then show ?case
    by (intro pool_inv_same [OF done_exit.prems])
      (auto simp: pool_inv_def worker_ids_split move_worker [of w "psBusy s" w])
next
  case (revert_ok w s now p)
  then have "ainv (pWorkers (psPool s))" by (simp add: pool_inv_def)
  note e = revert_insert_effect [OF this revert_ok.hyps(2)]
  then show ?case using revert_ok.hyps(1)
    by (intro pool_inv_same [OF revert_ok.prems])
      (auto simp: worker_ids_split move_worker [of w "psReverting s" w])
next
  case (revert_fail w s now p)
  then have "ainv (pWorkers (psPool s))" by (simp add: pool_inv_def)
  note e = revert_insert_effect [OF this revert_fail.hyps(2)]
  then show ?case using revert_fail.hyps(1)
    by (intro pool_inv_same [OF revert_fail.prems])
      (auto simp: worker_ids_split move_worker [of w "psReverting s" w])
next
  case (quit w s)
  then show ?case by (blast intro: quit_inv)
next
  case (purge s now gone p)
  then have "ainv (pWorkers (psPool s))" by (simp add: pool_inv_def)
  from purge_collect_effect [OF this purge.hyps(2)] purge.hyps(1) show ?case
    by (intro pool_inv_same [OF purge.prems]) (auto simp: worker_ids_def live_def)
next
  case (release_reset s gone q)
  then have "ainv q" "mset (idle (pWorkers (psPool s))) = mset gone + mset (idle q)"
    using reset_idle [of "pWorkers (psPool s)" gone q] by (auto simp: pool_inv_def ops_of_def)
  then show ?case
    by (intro pool_inv_same [OF release_reset.prems]) (auto simp: worker_ids_def live_def)
qed (auto simp: pool_inv_def worker_ids_def live_def Reboot_def Tune_def Let_def)

lemma pool_reach_inv: "pool_reach ops_of idle s0 s \<Longrightarrow> pool_inv ainv idle s0 \<Longrightarrow> pool_inv ainv idle s"
  by (induction rule: pool_reach.induct) (auto intro: pool_step_inv)

lemma closed_step_idle:
  assumes "pool_step ops_of idle s s'" and "pool_inv ainv idle s" and "pClosed (psPool s)" and "pClosed (psPool s')"
  shows "mset (idle (pWorkers (psPool s'))) \<subseteq># mset (idle (pWorkers (psPool s)))"
proof -
  have inv: "ainv (pWorkers (psPool s))" using assms(2) by (simp add: pool_inv_def)
  from assms(1) show ?thesis
  proof cases
    case (retrieve r p)
    with retrieve_first_effect [OF inv retrieve(3)] show ?thesis
      by (auto simp: deliver_fields retrieve_effect_def)
  next
    case (woken c r p)
    with retrieve_woken_effect [OF inv woken(3)] show ?thesis
      by (auto simp: deliver_fields retrieve_effect_def)
  next
    case (revert_ok w now p)
    then show ?thesis using assms(3) by (simp add: revert_insert_def IsClosed_def)
  next
    case (revert_fail w now p)
    then show ?thesis using assms(3) by (simp add: revert_insert_def IsClosed_def)
  next
    case (purge now gone p)
    from purge_collect_effect [OF inv purge(3)] purge(1) show ?thesis by auto
  next
    case (release_reset gone q)
    then show ?thesis using reset_idle [OF inv, of gone q] by (auto simp: ops_of_def)
  qed (auto simp: incRunning_def decRunning_def Reboot_def Tune_def Let_def)
qed

end

lemma ops_of_arrays: "ws.ops_of = stack_array" "lq.ops_of = loop_array"
  by (simp_all add: ws.ops_of_def lq.ops_of_def stack_array_def loop_array_def)

lemma newPool_start:
  assumes "newPool ty n opts = Inr r" and "n = -1 \<or> 0 < n"
  shows "case r of Inl p \<Rightarrow> pool_inv (\<lambda>q. True) stItems (start_sys p)
    | Inr p \<Rightarrow> pool_inv lq_inv lq_idle (start_sys p)"
  using assms
  by (auto simp: newPool_def Let_def pool_inv_def start_sys_def worker_ids_def live_def newWorkerStack_def
      newWorkerLoopQueue_def lq_inv_def lq_idle_def lq_len_def ring_def split: if_split_asm)

lemma NewPool_start:
  assumes "NewPool n options = Inr r"
  shows "case r of Inl p \<Rightarrow> pool_inv (\<lambda>q. True) stItems (start_sys p)
    | Inr p \<Rightarrow> pool_inv lq_inv lq_idle (start_sys p)"
  using newPool_start [of PoolTypeWorker "if n \<le> 0 then -1 else n" "loadOptions options" r] assms
  by (simp add: NewPool_def Let_def)

subsection \<open>How far the number of workers can exceed the capacity\<close>

definition starting :: "'q pool_sys \<Rightarrow> nat" where
  \<comment> \<open>the callers that are about to start a worker\<close>
  "starting s = psDeciding s + psSpawning s"

inductive few_starting ::
  "'q warray \<Rightarrow> ('q \<Rightarrow> goWorker list) \<Rightarrow> int \<Rightarrow> nat \<Rightarrow> 'q pool_sys \<Rightarrow> 'q pool_sys \<Rightarrow> bool" for A idle c k s0 where
  \<comment> \<open>runs in which the capacity is always positive and at most \<open>c\<close>, and in which at most \<open>k\<close> callers are
     starting a worker at the same time\<close>
  few_start: "0 < pCapacity (psPool s0) \<Longrightarrow> pCapacity (psPool s0) \<le> c \<Longrightarrow> few_starting A idle c k s0 s0"
| few_next: "few_starting A idle c k s0 s \<Longrightarrow> pool_step A idle s s' \<Longrightarrow> starting s' \<le> k \<Longrightarrow>
    0 < pCapacity (psPool s') \<Longrightarrow> pCapacity (psPool s') \<le> c \<Longrightarrow> few_starting A idle c k s0 s'"

definition spawn_bound :: "int \<Rightarrow> nat \<Rightarrow> 'q pool_sys \<Rightarrow> bool" where
  "spawn_bound c k s \<longleftrightarrow> 0 < pCapacity (psPool s) \<and> pCapacity (psPool s) \<le> c \<and>
     (\<forall>x \<in># psWaiting s. x \<le> c) \<and> pRunning (psPool s) + int (starting s) < c + int k"

lemma retrieve_first_spawn:
  assumes "retrieve_first A p = Some (r, p')"
  shows "pCapacity p' = pCapacity p \<and> pRunning p' = pRunning p \<and>
    r \<noteq> NoneRunning \<and> (r = MaySpawn \<longrightarrow> pCapacity p = -1 \<or> pRunning p < pCapacity p) \<and>
    (\<forall>c. r = WaitWith c \<longrightarrow> c = pCapacity p)"
  using assms
  by (auto simp: retrieve_first_def block_or_refuse_def PoolCap_def Running_def Let_def
      split: Option.bind_split_asm option.split_asm if_split_asm)

lemma retrieve_woken_spawn:
  assumes "retrieve_woken A c p = Some (r, p')"
  shows "pCapacity p' = pCapacity p \<and> pRunning p' = pRunning p \<and>
    (r = NoneRunning \<longrightarrow> pRunning p = 0) \<and> (r = MaySpawn \<longrightarrow> pRunning p < c) \<and> (\<forall>c'. r = WaitWith c' \<longrightarrow> c' = c)"
  using assms
  by (auto simp: retrieve_woken_def block_or_refuse_def Running_def Let_def
      split: Option.bind_split_asm option.split_asm if_split_asm)

lemma spawn_bound_step:
  assumes "pool_step A idle s s'" and "spawn_bound c k s" and "starting s' \<le> k"
    and "0 < pCapacity (psPool s')" and "pCapacity (psPool s') \<le> c"
  shows "spawn_bound c k s'"
  using assms(1)
proof cases
  case (retrieve r p)
  with retrieve_first_spawn [OF retrieve(3)] assms(2-5) show ?thesis
    by (cases r) (auto simp: spawn_bound_def deliver_def starting_def)
next
  case (woken x r p)
  have all: "\<forall>y \<in># psWaiting s. y \<le> c" using assms(2) unfolding spawn_bound_def by blast
  then have "x \<le> c" using woken(2) by blast
  moreover from all have "\<forall>y \<in># psWaiting s - {#x#}. y \<le> c" by (metis in_diffD)
  ultimately show ?thesis
    using retrieve_woken_spawn [OF woken(3)] woken(1) assms(2-5)
    by (cases r) (auto simp: spawn_bound_def deliver_def starting_def)
next
  case (revert_ok w now p)
  with assms(2) show ?thesis
    by (auto simp: spawn_bound_def starting_def revert_insert_def split: if_split_asm Option.bind_split_asm)
next
  case (revert_fail w now p)
  with assms(2) show ?thesis
    by (auto simp: spawn_bound_def starting_def revert_insert_def split: if_split_asm Option.bind_split_asm)
next
  case (purge now gone p)
  with assms(2) show ?thesis
    by (auto simp: spawn_bound_def starting_def purge_collect_def split: Option.bind_split_asm)
next
  case (tune n)
  with assms(2-5) show ?thesis by (auto simp: spawn_bound_def starting_def Tune_def Let_def)
qed (use assms(2) in \<open>auto simp: spawn_bound_def starting_def incRunning_def decRunning_def Reboot_def\<close>)

lemma few_starting_bound:
  assumes "few_starting A idle c k s0 s" and "starting s0 = 0" and "psWaiting s0 = {#}"
    and "pRunning (psPool s0) = 0"
  shows "spawn_bound c k s"
  using assms(1)
proof induction
  case few_start
  then show ?case using assms(2-) by (simp add: spawn_bound_def)
next
  case (few_next s s')
  then show ?case by (auto intro: spawn_bound_step)
qed

lemma reach_retrieve:
  assumes "pool_reach A idle s0 s" and "\<not> pClosed (psPool s)" and "retrieve_first A (psPool s) = Some (r, p)"
  shows "pool_reach A idle s0 (deliver r p s)"
proof -
  let ?s = "s\<lparr>psCallers := psCallers s + 1\<rparr>"
  have "pool_reach A idle s0 ?s"
    using assms(2) by (intro pool_next [OF assms(1)] submit) (simp add: IsClosed_def)
  moreover have "pool_step A idle ?s (deliver r p (?s\<lparr>psCallers := psCallers ?s - 1\<rparr>))"
    using assms(3) by (intro retrieve) simp_all
  ultimately show ?thesis using pool_next by fastforce
qed

lemma submit_many:
  assumes "pCapacity p > 0" and "pRunning p = 0" and "\<not> pClosed p" and "stItems (pWorkers p) = []"
  shows "pool_reach stack_array stItems (start_sys p) ((start_sys p)\<lparr>psSpawning := m\<rparr>)"
proof (induction m)
  case 0
  have "(start_sys p)\<lparr>psSpawning := 0\<rparr> = start_sys p" by (simp add: start_sys_def)
  then show ?case by (simp add: pool_start)
next
  case (Suc m)
  let ?s = "(start_sys p)\<lparr>psSpawning := m\<rparr>"
  have "retrieve_first stack_array p = Some (MaySpawn, p)"
    using assms by (simp add: retrieve_first_def stack_array_def st_detach_def st_len_def PoolCap_def Running_def)
  then have "pool_reach stack_array stItems (start_sys p) (deliver MaySpawn p ?s)"
    using assms(3) by (intro reach_retrieve [OF Suc.IH]) (simp_all add: start_sys_def)
  moreover have "deliver MaySpawn p ?s = (start_sys p)\<lparr>psSpawning := Suc m\<rparr>"
    by (simp add: deliver_def start_sys_def)
  ultimately show ?case by simp
qed

lemma spawn_many:
  assumes "pool_reach A idle s0 s" and "psSpawning s = m"
  shows "\<exists>s'. pool_reach A idle s0 s' \<and> pRunning (psPool s') = pRunning (psPool s) + int m \<and>
    pCapacity (psPool s') = pCapacity (psPool s)"
  using assms
proof (induction m arbitrary: s)
  case (Suc m)
  have "finite (wkId ` set_mset (live s) \<union> wkId ` set (idle (pWorkers (psPool s))))" by simp
  then obtain i where i: "i \<notin> wkId ` set_mset (live s) \<union> wkId ` set (idle (pWorkers (psPool s)))"
    using ex_new_if_finite infinite_UNIV_nat by blast
  let ?s = "s\<lparr>psSpawning := psSpawning s - 1, psPool := incRunning (psPool s),
      psBusy := add_mset \<lparr>wkId = i, recycleTime = 0\<rparr> (psBusy s)\<rparr>"
  have "pool_step A idle s ?s" using Suc.prems(2) i by (intro spawn) auto
  then have "pool_reach A idle s0 ?s" by (rule pool_next [OF Suc.prems(1)])
  from Suc.IH [OF this] Suc.prems(2) show ?case by (auto simp: incRunning_def add.commute)
qed auto

subsection \<open>Properties\<close>

text \<open>C9. In every interleaving of submissions, finished tasks, the purging goroutine, releases and tuning,
  and of reboots made after the purging goroutine of the closed pool has ended, and with either worker
  array, each worker is in exactly one place (idle, busy, about to be put back, on the list of the
  purging goroutine, or about to quit), the running count is the number of workers, and the number of
  blocked callers is counted and stays within its limit.\<close>
theorem pool_accounting:
  assumes "NewPool n options = Inr r"
  shows "case r of
      Inl p \<Rightarrow> \<not> (\<exists>s. pool_reach stack_array stItems (start_sys p) s \<and> \<not> pool_inv (\<lambda>q. True) stItems s)
    | Inr p \<Rightarrow> \<not> (\<exists>s. pool_reach loop_array lq_idle (start_sys p) s \<and> \<not> pool_inv lq_inv lq_idle s)"
  using NewPool_start [OF assms] ws.pool_reach_inv lq.pool_reach_inv
  by (auto simp: ops_of_arrays split: sum.splits)

text \<open>C10. In a pool whose capacity is, throughout the run, positive and at most \<open>c\<close> (\<open>Tune\<close> may change it
  within these limits), and in which at most \<open>k\<close> callers are starting a worker at the same time, fewer
  than \<open>c + k\<close> workers run, with either worker array: a pool whose callers start workers one at a time
  never has more workers than the largest capacity it was given.\<close>
theorem pool_running_bound:
  assumes "NewPool n options = Inr r"
  shows "case r of
      Inl p \<Rightarrow> \<forall>s. few_starting stack_array stItems c k (start_sys p) s \<longrightarrow> pRunning (psPool s) < c + int k
    | Inr p \<Rightarrow> \<forall>s. few_starting loop_array lq_idle c k (start_sys p) s \<longrightarrow> pRunning (psPool s) < c + int k"
proof -
  have run: "pRunning (psPool s) < c + int k"
    if "few_starting A idle c k (start_sys p) s" and "pRunning p = 0" for A and idle :: "'q \<Rightarrow> _" and p s
    using few_starting_bound [OF that(1)] that(2) by (simp add: spawn_bound_def starting_def start_sys_def)
  then show ?thesis
    using assms by (auto simp: NewPool_def newPool_def Let_def run split: sum.splits if_split_asm)
qed

text \<open>The capacity is not enforced against concurrent callers: it is checked before the worker is
  counted, so any number of workers can come to run in a pool of any positive capacity.\<close>
lemma pool_capacity_exceeded:
  assumes "NewPool n options = Inr (Inl p)" and "0 < pCapacity p"
  shows "\<exists>s. pool_reach stack_array stItems (start_sys p) s \<and> pCapacity (psPool s) = pCapacity p \<and>
    pRunning (psPool s) = int m"
proof -
  have p: "pRunning p = 0" "\<not> pClosed p" "stItems (pWorkers p) = []"
    using assms(1) by (auto simp: NewPool_def newPool_def newWorkerStack_def Let_def split: if_split_asm)
  then show ?thesis
    using spawn_many [OF submit_many [OF assms(2) p, of m], of m] by (auto simp: start_sys_def)
qed

text \<open>Releasing a pre-allocated pool that has an idle worker never returns (and keeps the lock): the
  loop of \<open>reset\<close> does not fetch the next worker.\<close>
lemma release_prealloc_hangs:
  assumes "NewPool n options = Inr (Inr p)" and "pool_reach loop_array lq_idle (start_sys p) s"
    and "lq_idle (pWorkers (psPool s)) \<noteq> []"
  shows "Release loop_array (psPool s) = None"
proof -
  have "pool_inv lq_inv lq_idle s"
    using lq.pool_reach_inv assms(2) NewPool_start [OF assms(1)] by (simp add: ops_of_arrays)
  then have "lq_reset (pWorkers (psPool s)) = None"
    using lq_reset_diverges assms(3) by (simp add: pool_inv_def)
  then show ?thesis by (simp add: Release_def loop_array_def)
qed

text \<open>While a pool is closed no worker goes back into the array, whatever the other callers and
  workers do, and submissions are refused; so after \<open>Release\<close> the array stays empty until a reboot.\<close>
lemma closed_pool_drains:
  assumes "pool_step stack_array stItems s s'" and "pool_inv (\<lambda>q. True) stItems s"
    and "pClosed (psPool s)" and "pClosed (psPool s')"
  shows "mset (stItems (pWorkers (psPool s'))) \<subseteq># mset (stItems (pWorkers (psPool s))) \<and>
    Submit_outcome stack_array (psPool s') = Some (Some ErrPoolClosed, psPool s') \<and>
    Release stack_array (psPool s) =
      Some (stItems (pWorkers (psPool s)), (psPool s)\<lparr>pWorkers := (pWorkers (psPool s))\<lparr>stItems := []\<rparr>\<rparr>)"
  using ws.closed_step_idle [of s s'] assms
  by (simp add: ops_of_arrays Submit_outcome_def IsClosed_def Release_def stack_array_def st_reset_def)

text \<open>The constructors report exactly these errors: a negative expiry, pre-allocation of an unlimited
  pool, and a missing function; otherwise the pool is open, has no workers, and its capacity is the
  requested size, or \<open>-1\<close> for none.\<close>
lemma new_pool_result:
  "NewPoolWithFunc n (pf :: 'f option) options =
     (if pf = None then Inl ErrLackPoolFunc
      else case NewPool n options of
             Inl e \<Rightarrow> Inl e
           | Inr (Inl p) \<Rightarrow> Inr (Inl (p\<lparr>pType := PoolTypeWorkerFunc\<rparr>))
           | Inr (Inr p) \<Rightarrow> Inr (Inr (p\<lparr>pType := PoolTypeWorkerFunc\<rparr>))) \<and>
   (case NewPool n options of
      Inl e \<Rightarrow> e = ErrInvalidPoolExpiry \<and> ExpiryDuration (loadOptions options) < 0 \<or>
        e = ErrInvalidPreAllocSize \<and> 0 \<le> ExpiryDuration (loadOptions options) \<and>
        PreAlloc (loadOptions options) \<and> n \<le> 0
    | Inr r \<Rightarrow> 0 \<le> ExpiryDuration (loadOptions options) \<and>
        (case r of
           Inl p \<Rightarrow> \<not> PreAlloc (loadOptions options) \<and> \<not> IsClosed p \<and> Running p = 0 \<and>
             PoolCap p = int32 (if n \<le> 0 then -1 else n) \<and> 0 < ExpiryDuration (pOptions p)
         | Inr p \<Rightarrow> PreAlloc (loadOptions options) \<and> 0 < n \<and> \<not> IsClosed p \<and> Running p = 0 \<and>
             PoolCap p = int32 n \<and> lqSize (pWorkers p) = nat n \<and> 0 < ExpiryDuration (pOptions p)))"
  by (auto simp: NewPoolWithFunc_def NewPool_def newPool_def Let_def IsClosed_def Running_def PoolCap_def
      newWorkerLoopQueue_def DefaultCleanIntervalTime_def)

subsection \<open>Witnesses\<close>

definition one_opts :: "bool \<Rightarrow> Options" where
  "one_opts pre = \<lparr>ExpiryDuration = 1000000000, PreAlloc = pre, MaxBlockingTasks = 0, Nonblocking = False,
     PanicHandler = None, OptLogger = Some 0\<rparr>"

definition one_pool :: "workerStack Pool" where
  "one_pool = \<lparr>pCapacity = 1, pRunning = 0, pWorkers = newWorkerStack 0, pClosed = False, pBlockingNum = 0,
     pOptions = one_opts False, pType = PoolTypeWorker\<rparr>"

definition one_loop_pool :: "loopQueue Pool" where
  "one_loop_pool = \<lparr>pCapacity = 1, pRunning = 0, pWorkers = newWorkerLoopQueue 1, pClosed = False,
     pBlockingNum = 0, pOptions = one_opts True, pType = PoolTypeWorker\<rparr>"

lemmas new_pool_defs = NewPool_def newPool_def loadOptions_def zeroOptions_def one_opts_def
  DefaultCleanIntervalTime_def int32_def

lemma one_pool_new: "NewPool 1 [] = Inr (Inl one_pool)"
  by (simp add: new_pool_defs one_pool_def)

lemma one_loop_pool_new: "NewPool 1 [WithPreAlloc True] = Inr (Inr one_loop_pool)"
  by (simp add: new_pool_defs one_loop_pool_def WithPreAlloc_def)

theorem pool_accounting_witness:
  "\<not> (\<exists>s. pool_reach stack_array stItems (start_sys one_pool) s \<and> \<not> pool_inv (\<lambda>q. True) stItems s)"
  using pool_accounting [OF one_pool_new] by simp

theorem pool_running_bound_witness:
  "\<exists>s. few_starting stack_array stItems 1 1 (start_sys one_pool) s \<and> pRunning (psPool s) = 1 \<and>
    pRunning (psPool s) < 1 + int 1"
proof -
  let ?P = "few_starting stack_array stItems 1 1 (start_sys one_pool)" and ?s0 = "start_sys one_pool"
  let ?s1 = "?s0\<lparr>psCallers := 1\<rparr>" and ?s2 = "?s0\<lparr>psSpawning := 1\<rparr>"
  let ?s3 = "?s0\<lparr>psPool := incRunning one_pool, psBusy := {#\<lparr>wkId = 0, recycleTime = 0\<rparr>#}\<rparr>"
  note defs = start_sys_def one_pool_def newWorkerStack_def IsClosed_def starting_def
  have "?P ?s0" by (rule few_start) (simp_all add: defs)
  moreover have "pool_step stack_array stItems ?s0 ?s1"
    using submit [of ?s0 stack_array stItems] by (simp add: defs)
  ultimately have 1: "?P ?s1" by (rule few_next) (simp_all add: defs)
  have "retrieve_first stack_array one_pool = Some (MaySpawn, one_pool)"
    by (simp add: retrieve_first_def stack_array_def st_detach_def st_len_def PoolCap_def Running_def defs)
  then have "pool_step stack_array stItems ?s1 ?s2"
    using retrieve [of ?s1 stack_array MaySpawn one_pool stItems] by (simp add: start_sys_def deliver_def)
  with 1 have 2: "?P ?s2" by (rule few_next) (simp_all add: defs)
  have "pool_step stack_array stItems ?s2 ?s3"
    using spawn [of ?s2 "\<lparr>wkId = 0, recycleTime = 0\<rparr>" stItems stack_array] by (simp add: defs live_def)
  with 2 have 3: "?P ?s3" by (rule few_next) (simp_all add: defs incRunning_def)
  have "pRunning (psPool ?s3) < 1 + int 1"
    using pool_running_bound [OF one_pool_new, of 1 1, unfolded sum.case] 3 by blast
  with 3 show ?thesis by (intro exI [of _ ?s3]) (simp add: defs incRunning_def)
qed

lemma loop_pool_idle:
  "\<exists>s. pool_reach loop_array lq_idle (start_sys one_loop_pool) s \<and> lq_idle (pWorkers (psPool s)) \<noteq> []"
proof -
  let ?s0 = "start_sys one_loop_pool" and ?w = "\<lparr>wkId = 0, recycleTime = 0\<rparr>"
  let ?s1 = "?s0\<lparr>psSpawning := 1\<rparr>"
  let ?s2 = "?s0\<lparr>psPool := incRunning one_loop_pool, psBusy := {#?w#}\<rparr>"
  let ?s3 = "?s0\<lparr>psPool := incRunning one_loop_pool, psReverting := {#?w#}\<rparr>"
  let ?q = "\<lparr>lqItems = [Some ?w], lqExpiry = [], lqHead = 0, lqTail = 0, lqSize = 1, lqIsFull = True\<rparr>"
  let ?s4 = "?s0\<lparr>psPool := (incRunning one_loop_pool)\<lparr>pWorkers := ?q\<rparr>\<rparr>"
  have "retrieve_first loop_array one_loop_pool = Some (MaySpawn, one_loop_pool)"
    by (simp add: retrieve_first_def loop_array_def lq_detach_def lq_isEmpty_def PoolCap_def Running_def
        one_loop_pool_def newWorkerLoopQueue_def)
  then have "pool_reach loop_array lq_idle ?s0 (deliver MaySpawn one_loop_pool ?s0)"
    by (intro reach_retrieve [OF pool_start]) (simp_all add: start_sys_def one_loop_pool_def)
  then have 1: "pool_reach loop_array lq_idle ?s0 ?s1" by (simp add: deliver_def start_sys_def)
  have "pool_step loop_array lq_idle ?s1 (?s1\<lparr>psSpawning := psSpawning ?s1 - 1,
      psPool := incRunning (psPool ?s1), psBusy := add_mset ?w (psBusy ?s1)\<rparr>)"
    by (rule spawn) (simp_all add: live_def start_sys_def one_loop_pool_def newWorkerLoopQueue_def lq_idle_def
        lq_len_def ring_def)
  then have 2: "pool_reach loop_array lq_idle ?s0 ?s2" using pool_next [OF 1] by (simp add: start_sys_def)
  have "pool_step loop_array lq_idle ?s2 (?s2\<lparr>psBusy := psBusy ?s2 - {#?w#},
      psReverting := add_mset ?w (psReverting ?s2)\<rparr>)"
    by (rule done_revert [of _ _ Completed]) (simp_all add: after_task_def revert_check_def incRunning_def one_loop_pool_def PoolCap_def
        Running_def IsClosed_def)
  then have 3: "pool_reach loop_array lq_idle ?s0 ?s3" using pool_next [OF 2] by (simp add: start_sys_def)
  have "pool_step loop_array lq_idle ?s3 (?s3\<lparr>psPool := (incRunning one_loop_pool)\<lparr>pWorkers := ?q\<rparr>,
      psReverting := psReverting ?s3 - {#?w#}\<rparr>)"
    by (rule revert_ok [of ?w _ _ 0]) (simp_all add: revert_insert_def loop_array_def lq_insert_def incRunning_def
        one_loop_pool_def newWorkerLoopQueue_def IsClosed_def)
  then have "pool_reach loop_array lq_idle ?s0 ?s4" using pool_next [OF 3] by (simp add: start_sys_def)
  moreover have "lq_idle ?q \<noteq> []" by (simp add: lq_idle_def lq_len_def ring_def)
  ultimately show ?thesis by (intro exI [of _ ?s4]) simp
qed

end
