(* ===== verification/Fsm.thy ===== *)
theory Fsm
  imports Prelude
begin

text \<open>
  \<^verbatim>\<open>util/fsm/fsm.go\<close>, \<^verbatim>\<open>event.go\<close> and \<^verbatim>\<open>errors.go\<close>: a state machine with named events, a check before a
  transition and a callback after it. A callback gets a pointer to the event and through it to the
  machine: it is a function that may change the event, the machine's current and wildcard state, and
  a state \<open>'w\<close> of its own. It may not call \<open>Event\<close> again, which would wait for \<open>eventMu\<close> for ever.

  The constructor ranges over two Go maps, whose order is unspecified: it takes the entries as lists,
  in the order of the iteration.
\<close>

datatype fsm_error =
    InvalidEventError string int
  | UnknownEventError string
  | InTransitionError string
  | NotInTransitionError
  | NoTransitionError "fsm_error option"
  | CanceledError "fsm_error option"
  | AsyncError "fsm_error option"
  | InternalError
  | CallbackError string

fun nat_digits :: "nat \<Rightarrow> string" where
  "nat_digits n = (if n < 10 then [] else nat_digits (n div 10)) @ [char_of (48 + n mod 10)]"

declare nat_digits.simps [simp del]

definition Itoa :: "int \<Rightarrow> string" where
  \<comment> \<open>\<open>strconv.Itoa\<close>\<close>
  "Itoa i = (if i < 0 then ''-'' @ nat_digits (nat (- i)) else nat_digits (nat i))"

fun fsm_Error :: "fsm_error \<Rightarrow> string" where
  "fsm_Error (InvalidEventError e s) = ''event '' @ e @ '' inappropriate in current state '' @ Itoa s"
| "fsm_Error (UnknownEventError e) = ''event '' @ e @ '' does not exist''"
| "fsm_Error (InTransitionError e) =
     ''event '' @ e @ '' inappropriate because previous transition did not complete''"
| "fsm_Error NotInTransitionError = ''transition inappropriate because no state change in progress''"
| "fsm_Error (NoTransitionError e) =
     (case e of Some x \<Rightarrow> ''no transition with error: '' @ fsm_Error x | None \<Rightarrow> ''no transition'')"
| "fsm_Error (CanceledError e) =
     (case e of Some x \<Rightarrow> ''transition canceled with error: '' @ fsm_Error x | None \<Rightarrow> ''transition canceled'')"
| "fsm_Error (AsyncError e) =
     (case e of Some x \<Rightarrow> ''async started with error: '' @ fsm_Error x | None \<Rightarrow> ''async started'')"
| "fsm_Error InternalError = ''internal error on state transition''"
| "fsm_Error (CallbackError s) = s"

record 'a Event =
  eEvent :: string
  eSrc :: int
  eDst :: int
  eErr :: "fsm_error option"
  eSeq :: int
  eArgs :: "'a list"

record fsm_vars =
  fCurrent :: int
  fStatusAny :: int

type_synonym ('a, 'w) ctx = "'a Event \<times> fsm_vars \<times> 'w"
type_synonym ('a, 'w) Callback = "('a, 'w) ctx \<Rightarrow> ('a, 'w) ctx"
type_synonym ('a, 'w) CheckCall = "('a, 'w) ctx \<Rightarrow> bool \<times> ('a, 'w) ctx"

record eKey =
  kEvent :: string
  kSrc :: int
  kDst :: int

record EventDesc =
  edName :: string
  edSrc :: "int list"
  edDst :: int

record ('a, 'w) FSM = fsm_vars +
  fTransitions :: "eKey list"
  fChecks :: "(('a, 'w) CheckCall \<times> int) list"
  fCallbacks :: "(('a, 'w) Callback \<times> int) list"

definition NewFSM ::
  "int \<Rightarrow> EventDesc list \<Rightarrow> (int \<times> ('a, 'w) Callback) list \<Rightarrow> (int \<times> ('a, 'w) CheckCall) list \<Rightarrow> ('a, 'w) FSM"
  where
  "NewFSM initial events callbacks checks =
     \<lparr>fCurrent = initial, fStatusAny = -1,
      fTransitions = concat (map (\<lambda>e. map (\<lambda>src. \<lparr>kEvent = edName e, kSrc = src, kDst = edDst e\<rparr>) (edSrc e)) events),
      fChecks = map (\<lambda>(dst, fn). (fn, dst)) (filter (\<lambda>(dst, fn). dst \<ge> 0) checks),
      fCallbacks = map (\<lambda>(dst, fn). (fn, dst)) (filter (\<lambda>(dst, fn). dst > 0) callbacks)\<rparr>"

definition Current :: "('a, 'w) FSM \<Rightarrow> int" where
  "Current f = fCurrent f"

definition Reset :: "('a, 'w) FSM \<Rightarrow> ('a, 'w) FSM" where
  "Reset f = f\<lparr>fCurrent := 0\<rparr>"

definition Is :: "int \<Rightarrow> ('a, 'w) FSM \<Rightarrow> bool" where
  "Is s f \<longleftrightarrow> s = fCurrent f"

definition SetAnyState :: "int \<Rightarrow> ('a, 'w) FSM \<Rightarrow> ('a, 'w) FSM" where
  "SetAnyState s f = f\<lparr>fStatusAny := s\<rparr>"

definition SetState :: "int \<Rightarrow> ('a, 'w) FSM \<Rightarrow> ('a, 'w) FSM" where
  "SetState s f = f\<lparr>fCurrent := s\<rparr>"

definition applies :: "('a, 'w) FSM \<Rightarrow> eKey \<Rightarrow> bool" where
  "applies f ts \<longleftrightarrow> kSrc ts = fCurrent f \<or> kSrc ts = fStatusAny f"

definition GetDestState :: "string \<Rightarrow> ('a, 'w) FSM \<Rightarrow> int \<times> bool" where
  "GetDestState event f =
     (case find (\<lambda>ts. kEvent ts = event \<and> applies f ts) (fTransitions f) of
        Some ts \<Rightarrow> (kDst ts, True) | None \<Rightarrow> (0, False))"

definition Can :: "string \<Rightarrow> ('a, 'w) FSM \<Rightarrow> bool" where
  "Can event f \<longleftrightarrow> list_ex (\<lambda>ts. kEvent ts = event \<and> applies f ts) (fTransitions f)"

definition AvailableTransitions :: "('a, 'w) FSM \<Rightarrow> string list" where
  "AvailableTransitions f = map kEvent (filter (applies f) (fTransitions f))"

definition Cannot :: "string \<Rightarrow> ('a, 'w) FSM \<Rightarrow> bool" where
  "Cannot event f \<longleftrightarrow> \<not> Can event f"

definition call_ctx :: "('a, 'w) FSM \<Rightarrow> 'a Event \<Rightarrow> 'w \<Rightarrow> ('a, 'w) ctx" where
  "call_ctx f e w = (e, \<lparr>fCurrent = fCurrent f, fStatusAny = fStatusAny f\<rparr>, w)"

definition after_call :: "('a, 'w) FSM \<Rightarrow> fsm_vars \<Rightarrow> ('a, 'w) FSM" where
  "after_call f v = f\<lparr>fCurrent := fCurrent v, fStatusAny := fStatusAny v\<rparr>"

definition enterStateCallbacks ::
  "('a, 'w) FSM \<Rightarrow> 'a Event \<Rightarrow> 'w \<Rightarrow> fsm_error option \<times> ('a, 'w) FSM \<times> 'a Event \<times> 'w" where
  "enterStateCallbacks f e w =
     (case find (\<lambda>ts. snd ts = fCurrent f) (fCallbacks f) of
        Some ts \<Rightarrow> let (e, v, w) = fst ts (call_ctx f e w) in (eErr e, after_call f v, e, w)
      | None \<Rightarrow> (None, f, e, w))"

definition beforeEventCallbacks ::
  "('a, 'w) FSM \<Rightarrow> 'a Event \<Rightarrow> 'w \<Rightarrow> bool \<times> ('a, 'w) FSM \<times> 'a Event \<times> 'w" where
  "beforeEventCallbacks f e w =
     (case find (\<lambda>ts. snd ts = fCurrent f \<or> snd ts = 0) (fChecks f) of
        Some ts \<Rightarrow> let (ok, e, v, w) = fst ts (call_ctx f e w) in (ok, after_call f v, e, w)
      | None \<Rightarrow> (True, f, e, w))"

definition fire ::
  "('a Event \<Rightarrow> string) \<Rightarrow> 'a Event \<Rightarrow> int \<Rightarrow> ('a, 'w) FSM \<Rightarrow> 'w \<Rightarrow> fsm_error option \<times> ('a, 'w) FSM \<times> 'w" where
  \<comment> \<open>the common second half of \<open>Event\<close> and \<open>EventNoArgs\<close>, once the destination is known; \<open>name\<close> is the
     event name in the error of a refused transition\<close>
  "fire name e dst f w =
     (let (ok, f, e, w) = beforeEventCallbacks f e w
      in if \<not> ok then (Some (InvalidEventError (name e) (fCurrent f)), f, w)
         else let f = SetState dst f; (err, f, e, w) = enterStateCallbacks f e w
              in (case err of Some x \<Rightarrow> Some x | None \<Rightarrow> eErr e, f, w))"

definition no_transition :: "string \<Rightarrow> ('a, 'w) FSM \<Rightarrow> fsm_error" where
  "no_transition event f =
     (if list_ex (\<lambda>eke. kEvent eke = event) (fTransitions f)
      then InvalidEventError event (fCurrent f) else UnknownEventError event)"

definition EventNoArgs :: "'a Event \<Rightarrow> ('a, 'w) FSM \<Rightarrow> 'w \<Rightarrow> fsm_error option \<times> ('a, 'w) FSM \<times> 'w" where
  "EventNoArgs e f w =
     (let (dst, ok) = GetDestState (eEvent e) f
      in if \<not> ok then (Some (no_transition (eEvent e) f), f, w) else fire eEvent e dst f w)"

definition Event_call ::
  "string \<Rightarrow> int \<Rightarrow> 'a list \<Rightarrow> ('a, 'w) FSM \<Rightarrow> 'w \<Rightarrow> fsm_error option \<times> ('a, 'w) FSM \<times> 'w" where
  \<comment> \<open>the method \<open>Event\<close>\<close>
  "Event_call event q args f w =
     (let (dst, ok) = GetDestState event f
      in if \<not> ok then (Some (no_transition event f), f, w)
         else fire (\<lambda>_. event) \<lparr>eEvent = event, eSrc = fCurrent f, eDst = dst, eErr = None, eSeq = q, eArgs = args\<rparr>
           dst f w)"

subsection \<open>Machines whose callbacks leave the state alone\<close>

definition neutral :: "('a, 'w) FSM \<Rightarrow> bool" where
  "neutral f \<longleftrightarrow> (\<forall>c \<in> fst ` set (fChecks f). \<forall>e v w. fst (snd (snd (c (e, v, w)))) = v) \<and>
     (\<forall>c \<in> fst ` set (fCallbacks f). \<forall>e v w. fst (snd (c (e, v, w))) = v)"

lemma after_call_same [simp]: "after_call f \<lparr>fCurrent = fCurrent f, fStatusAny = fStatusAny f\<rparr> = f"
  by (simp add: after_call_def)

lemma find_in_set: "find P xs = Some x \<Longrightarrow> x \<in> set xs \<and> P x"
  by (metis find_Some_iff nth_mem)

lemma beforeEventCallbacks_neutral:
  assumes "neutral f"
  shows "fst (snd (beforeEventCallbacks f e w)) = f"
proof (cases "find (\<lambda>ts. snd ts = fCurrent f \<or> snd ts = 0) (fChecks f)")
  case (Some ts)
  then have "ts \<in> set (fChecks f)" using find_in_set by fastforce
  with assms have "fst (snd (snd (fst ts (call_ctx f e w)))) = \<lparr>fCurrent = fCurrent f, fStatusAny = fStatusAny f\<rparr>"
    by (simp add: neutral_def call_ctx_def)
  with Some show ?thesis by (auto simp: beforeEventCallbacks_def split: prod.split)
qed (simp add: beforeEventCallbacks_def)

lemma enterStateCallbacks_neutral:
  assumes "neutral f"
  shows "fst (snd (enterStateCallbacks f e w)) = f"
proof (cases "find (\<lambda>ts. snd ts = fCurrent f) (fCallbacks f)")
  case (Some ts)
  then have "ts \<in> set (fCallbacks f)" using find_in_set by fastforce
  with assms have "fst (snd (fst ts (call_ctx f e w))) = \<lparr>fCurrent = fCurrent f, fStatusAny = fStatusAny f\<rparr>"
    by (simp add: neutral_def call_ctx_def)
  with Some show ?thesis by (auto simp: enterStateCallbacks_def split: prod.split)
qed (simp add: enterStateCallbacks_def)

lemma neutral_SetState [simp]: "neutral (SetState s f) = neutral f"
  by (simp add: neutral_def SetState_def)

lemma fire_neutral:
  assumes "neutral f"
  shows "fst (snd (fire name e dst f w)) = (if fst (beforeEventCallbacks f e w) then SetState dst f else f)"
proof -
  obtain ok f1 e1 w1 where b: "beforeEventCallbacks f e w = (ok, f1, e1, w1)" by (cases "beforeEventCallbacks f e w")
  then have "f1 = f" using beforeEventCallbacks_neutral [OF assms, of e w] by simp
  moreover have "fst (snd (enterStateCallbacks (SetState dst f) e1 w1)) = SetState dst f"
    by (rule enterStateCallbacks_neutral) (simp add: assms)
  ultimately show ?thesis using b by (auto simp: fire_def split: prod.split)
qed

lemma GetDestState_cases:
  obtains (found) ts where "GetDestState event f = (kDst ts, True)" and "ts \<in> set (fTransitions f)"
    and "kEvent ts = event" and "applies f ts" and "Can event f"
  | (missing) "GetDestState event f = (0, False)" and "\<not> Can event f"
proof (cases "find (\<lambda>ts. kEvent ts = event \<and> applies f ts) (fTransitions f)")
  case None
  then have "\<not> Can event f" by (auto simp: Can_def find_None_iff list_ex_iff)
  with None missing show ?thesis by (simp add: GetDestState_def)
next
  case (Some ts)
  from find_in_set [OF this] Some found show ?thesis by (auto simp: GetDestState_def Can_def list_ex_iff)
qed


subsection \<open>The machine that the description means\<close>







definition machine :: "EventDesc list \<Rightarrow> (int \<times> ('a, 'w) Callback) list \<Rightarrow> (int \<times> ('a, 'w) CheckCall) list \<Rightarrow> int \<Rightarrow> ('a, 'w) FSM" where
  \<comment> \<open>the machine of a description in a state\<close>
  "machine events callbacks checks s = NewFSM s events callbacks checks"

lemma machine_simps [simp]:
  "fCurrent (machine events callbacks checks s) = s" "fStatusAny (machine events callbacks checks s) = -1"
  "SetState d (machine events callbacks checks s) = machine events callbacks checks d"
  by (simp_all add: machine_def NewFSM_def SetState_def)







subsection \<open>Properties\<close>


text \<open>An event is accepted exactly if a declared transition with its name starts in the current or
  wildcard state: \<open>Can\<close>, \<open>GetDestState\<close> and \<open>AvailableTransitions\<close> agree on it; otherwise nothing is
  called or changed and the error tells an unknown event from an inappropriate one.\<close>
lemma fsm_event_accepted:
  "(Can event f \<longleftrightarrow> snd (GetDestState event f)) \<and> (Can event f \<longleftrightarrow> event \<in> set (AvailableTransitions f)) \<and>
   (Cannot event f \<longleftrightarrow> Event_call event q args f w = (Some (no_transition event f), f, w) \<and> \<not> Can event f) \<and>
   (no_transition event f = UnknownEventError event \<longleftrightarrow> event \<notin> kEvent ` set (fTransitions f))"
proof -
  have "Can event f \<longleftrightarrow> snd (GetDestState event f)" by (cases event f rule: GetDestState_cases) auto
  moreover have "Can event f \<longleftrightarrow> event \<in> set (AvailableTransitions f)"
    by (auto simp: Can_def AvailableTransitions_def list_ex_iff)
  moreover have "Event_call event q args f w = (Some (no_transition event f), f, w)" if "\<not> Can event f"
    using that by (cases event f rule: GetDestState_cases) (auto simp: Event_call_def)
  ultimately show ?thesis by (auto simp: Cannot_def no_transition_def list_ex_iff)
qed

text \<open>A refused or failing event does not mean an unchanged machine: a check that returns false stops the
  transition, but an error from the callback of the new state is returned with the transition made.\<close>
lemma fsm_error_after_transition:
  assumes "neutral f" and "Can event f"
    and "Event_call event q args f w = (err, f', w')"
  shows "Current f' = (if fst (beforeEventCallbacks f \<lparr>eEvent = event, eSrc = fCurrent f,
        eDst = fst (GetDestState event f), eErr = None, eSeq = q, eArgs = args\<rparr> w)
      then fst (GetDestState event f) else Current f)"
proof (cases event f rule: GetDestState_cases)
  case (found ts)
  then have "f' = fst (snd (fire (\<lambda>_. event) \<lparr>eEvent = event, eSrc = fCurrent f, eDst = kDst ts, eErr = None,
      eSeq = q, eArgs = args\<rparr> (kDst ts) f w))" using assms(3) by (simp add: Event_call_def)
  then show ?thesis unfolding fire_neutral [OF assms(1)] using found(1) by (simp add: Current_def SetState_def)
qed (use assms(2) in simp)

text \<open>When both a check for the current state and a default check (state 0) are given, which of the two
  runs depends on the iteration order of the Go map they were given in.\<close>
lemma fsm_check_order:
  assumes "0 < s"
  shows "fst (beforeEventCallbacks (NewFSM s events callbacks [(0, c0), (s, c)]) e w) =
      fst (c0 (e, \<lparr>fCurrent = s, fStatusAny = -1\<rparr>, w)) \<and>
    fst (beforeEventCallbacks (NewFSM s events callbacks [(s, c), (0, c0)]) e w) =
      fst (c (e, \<lparr>fCurrent = s, fStatusAny = -1\<rparr>, w))"
  using assms by (auto simp: beforeEventCallbacks_def NewFSM_def call_ctx_def split: prod.split)

subsection \<open>Witnesses\<close>




end
