(* ===== verification/EventManager.thy ===== *)
theory EventManager
  imports Prelude
begin

text \<open>
  \<^verbatim>\<open>event/\<close>: events, listeners and the manager that fires them.

  Representation. An event is the record \<open>BasicEvent\<close>; user data are of type \<open>'d\<close>, \<open>nil\<close> being \<open>None\<close>.
  A listener is an identity (what \<open>%p\<close> prints) and a handler, a function on the event and a world
  \<open>'w\<close>; handlers do not change the manager. A \<open>ListenerItem\<close> is reached through pointers, and the code
  shares one between several queues: the manager has a store of items, and queues hold addresses.
  Names are ASCII strings. The iteration order of the listener map does not matter to any operation.

  \<open>sort.Sort\<close> is not stable and its order of equal elements is unspecified: it is the parameter
  \<open>srt\<close>, and what is relied on is the hypothesis \<open>sorts_down\<close>. \<open>AddSubscriber\<close> takes the address of the
  loop variable, which up to Go 1.21 (the module asks for 1.14) is one variable for the whole loop.
\<close>

subsection \<open>Events\<close>

record 'd BasicEvent =
  beName :: string
  beData :: "'d option list"
  beTarget :: string
  beAborted :: bool

definition NewBasic :: "string \<Rightarrow> 'd option list option \<Rightarrow> 'd BasicEvent" where
  "NewBasic name d =
     \<lparr>beName = name, beData = (case d of None \<Rightarrow> [None] | Some d \<Rightarrow> d), beTarget = [], beAborted = False\<rparr>"

definition be_Abort :: "bool \<Rightarrow> 'd BasicEvent \<Rightarrow> 'd BasicEvent" where
  "be_Abort b e = e\<lparr>beAborted := b\<rparr>"

definition be_SetData :: "'d option list option \<Rightarrow> 'd BasicEvent \<Rightarrow> 'd BasicEvent" where
  "be_SetData d e = (case d of None \<Rightarrow> e | Some d \<Rightarrow> e\<lparr>beData := d\<rparr>)"

definition be_Fill :: "string \<Rightarrow> 'd option list option \<Rightarrow> 'd BasicEvent \<Rightarrow> 'd BasicEvent" where
  "be_Fill target d e = (case d of None \<Rightarrow> e | Some d \<Rightarrow> e\<lparr>beData := d\<rparr>)\<lparr>beTarget := target\<rparr>"

definition be_Get :: "int \<Rightarrow> 'd BasicEvent \<Rightarrow> 'd option option" where
  \<comment> \<open>a negative index panics\<close>
  "be_Get i e = (if int (length (beData e)) < i + 1 then Some None else go_index (beData e) i)"

definition be_Add :: "'d option \<Rightarrow> 'd BasicEvent \<Rightarrow> 'd BasicEvent" where
  "be_Add v e = e\<lparr>beData := beData e @ [v]\<rparr>"

definition be_Set :: "int \<Rightarrow> 'd option \<Rightarrow> 'd BasicEvent \<Rightarrow> bool \<times> 'd BasicEvent" where
  \<comment> \<open>whether the error ''data not exist'' is returned; a negative index is silently ignored\<close>
  "be_Set i v e =
     (if length (beData e) = 0 \<or> int (length (beData e)) < i + 1 then (True, e)
      else if 0 \<le> i then (False, e\<lparr>beData := (beData e)[nat i := v]\<rparr>)
      else (False, e))"

definition be_SetName :: "string \<Rightarrow> 'd BasicEvent \<Rightarrow> 'd BasicEvent" where
  "be_SetName n e = e\<lparr>beName := n\<rparr>"

definition be_SetTarget :: "string \<Rightarrow> 'd BasicEvent \<Rightarrow> 'd BasicEvent" where
  "be_SetTarget t e = e\<lparr>beTarget := t\<rparr>"

record 'd EventData =
  edAborted :: bool
  edName :: string
  edData :: "'d option list"

definition ed_Abort :: "'d EventData \<Rightarrow> 'd EventData" where
  "ed_Abort e = e\<lparr>edAborted := True\<rparr>"

definition ed_init :: "string \<Rightarrow> 'd option list \<Rightarrow> 'd EventData \<Rightarrow> 'd EventData" where
  "ed_init n d e = e\<lparr>edName := n, edData := d\<rparr>"

definition ed_reset :: "'d EventData \<Rightarrow> 'd EventData" where
  "ed_reset e = e\<lparr>edName := [], edData := [], edAborted := False\<rparr>"

subsection \<open>Names\<close>

definition is_space :: "char \<Rightarrow> bool" where
  "is_space c \<longleftrightarrow> c \<in> {CHR 0x09, CHR 0x0A, CHR 0x0B, CHR 0x0C, CHR 0x0D, CHR '' ''}"

definition TrimSpace :: "string \<Rightarrow> string" where
  "TrimSpace s = rev (dropWhile is_space (rev (dropWhile is_space s)))"

definition is_letter :: "char \<Rightarrow> bool" where
  "is_letter c \<longleftrightarrow> (65 \<le> (of_char c :: nat) \<and> (of_char c :: nat) \<le> 90) \<or> (97 \<le> (of_char c :: nat) \<and> (of_char c :: nat) \<le> 122)"

definition is_name_char :: "char \<Rightarrow> bool" where
  \<comment> \<open>\<open>[\w-.*]\<close>\<close>
  "is_name_char c \<longleftrightarrow> is_letter c \<or> (48 \<le> (of_char c :: nat) \<and> (of_char c :: nat) \<le> 57) \<or> c \<in> set ''_-.*''"

definition goodNameReg :: "string \<Rightarrow> bool" where
  \<comment> \<open>\<open>^[a-zA-Z][\w-.*]*$\<close>\<close>
  "goodNameReg s = (case s of [] \<Rightarrow> False | c # cs \<Rightarrow> is_letter c \<and> list_all is_name_char cs)"

datatype name_error = NameEmpty | NameInvalid

definition goodName :: "string \<Rightarrow> string \<times> name_error option" where
  "goodName name =
     (let name = TrimSpace name
      in if name = [] then ([], Some NameEmpty)
         else if \<not> goodNameReg name then ([], Some NameInvalid)
         else (name, None))"

definition Wildcard :: string where
  "Wildcard = ''*''"

subsection \<open>Listeners and the manager\<close>

record ('d, 'w) Listener =
  lsId :: nat
  lsHandle :: "'d BasicEvent \<Rightarrow> 'w \<Rightarrow> string option \<times> 'd BasicEvent \<times> 'w"

record ('d, 'w) ListenerItem =
  liKey :: string
  liPriority :: int
  liListener :: "('d, 'w) Listener option"

record ('d, 'w) Manager =
  emName :: string
  emEvents :: "string \<rightharpoonup> 'd BasicEvent"
  emListeners :: "string \<rightharpoonup> nat list"
  emItems :: "('d, 'w) ListenerItem list" \<comment> \<open>the store of items\<close>

definition NewManager :: "string \<Rightarrow> ('d, 'w) Manager" where
  "NewManager name = \<lparr>emName = name, emEvents = Map.empty, emListeners = Map.empty, emItems = []\<rparr>"

definition Normal :: int where "Normal = 0"

definition lq_Push :: "nat \<Rightarrow> nat list option \<Rightarrow> nat list" where
  \<comment> \<open>\<open>Push\<close> on the queue, or on a new one\<close>
  "lq_Push a q = (case q of None \<Rightarrow> [a] | Some q \<Rightarrow> q @ [a])"

definition addListenerItem :: "string \<Rightarrow> nat \<Rightarrow> ('d, 'w) Manager \<Rightarrow> ('d, 'w) Manager" where
  "addListenerItem name a em =
     (let name = (if name \<noteq> Wildcard then fst (goodName name) else name)
      in if liListener (emItems em ! a) = None \<or> name = [] then em
         else em\<lparr>emListeners := (emListeners em)(name \<mapsto> lq_Push a (emListeners em name))\<rparr>)"

definition em_On :: "string \<Rightarrow> ('d, 'w) Listener option \<Rightarrow> int \<Rightarrow> ('d, 'w) Manager \<Rightarrow> ('d, 'w) Manager" where
  "em_On name listener priority em =
     (let pv = (if priority > 0 then priority else Normal);
          a = length (emItems em)
      in addListenerItem name a
           (em\<lparr>emItems := emItems em @ [\<lparr>liKey = name, liPriority = pv, liListener = listener\<rparr>]\<rparr>))"

definition AddListener :: "string \<Rightarrow> ('d, 'w) Listener option \<Rightarrow> int \<Rightarrow> ('d, 'w) Manager \<Rightarrow> ('d, 'w) Manager" where
  "AddListener = em_On"

fun subscribe_loop :: "nat \<Rightarrow> ('d, 'w) ListenerItem list \<Rightarrow> ('d, 'w) Manager \<Rightarrow> ('d, 'w) Manager" where
  \<comment> \<open>\<open>a\<close> is the address of the loop variable\<close>
  "subscribe_loop a [] em = em"
| "subscribe_loop a (li # lis) em =
     subscribe_loop a lis (addListenerItem (liKey li) a (em\<lparr>emItems := (emItems em)[a := li]\<rparr>))"

definition AddSubscriber :: "('d, 'w) ListenerItem list \<Rightarrow> ('d, 'w) Manager \<Rightarrow> ('d, 'w) Manager" where
  "AddSubscriber subscribed em =
     (let a = length (emItems em); zero = \<lparr>liKey = [], liPriority = 0, liListener = None\<rparr>
      in subscribe_loop a subscribed (em\<lparr>emItems := emItems em @ [zero]\<rparr>))"

definition HasListeners :: "string \<Rightarrow> ('d, 'w) Manager \<Rightarrow> bool" where
  "HasListeners name em \<longleftrightarrow> emListeners em name \<noteq> None"

definition ListenersCount :: "string \<Rightarrow> ('d, 'w) Manager \<Rightarrow> nat" where
  "ListenersCount name em = (case emListeners em name of Some q \<Rightarrow> length q | None \<Rightarrow> 0)"

definition lq_Remove :: "('d, 'w) Listener option \<Rightarrow> ('d, 'w) Manager \<Rightarrow> nat list \<Rightarrow> nat list" where
  "lq_Remove listener em q =
     (case listener of
        None \<Rightarrow> q
      | Some l \<Rightarrow> filter (\<lambda>a. map_option lsId (liListener (emItems em ! a)) \<noteq> Some (lsId l)) q)"

definition drop_empty :: "nat list \<Rightarrow> nat list option" where
  "drop_empty q = (if q = [] then None else Some q)"

definition RemoveListener :: "string \<Rightarrow> ('d, 'w) Listener option \<Rightarrow> ('d, 'w) Manager \<Rightarrow> ('d, 'w) Manager" where
  "RemoveListener name listener em =
     (if name \<noteq> [] then
        (case emListeners em name of
           Some q \<Rightarrow> em\<lparr>emListeners := (emListeners em)(name := drop_empty (lq_Remove listener em q))\<rparr>
         | None \<Rightarrow> em)
      else em\<lparr>emListeners := \<lambda>n. Option.bind (emListeners em n) (\<lambda>q. drop_empty (lq_Remove listener em q))\<rparr>)"

definition RemoveListeners :: "string \<Rightarrow> ('d, 'w) Manager \<Rightarrow> ('d, 'w) Manager" where
  "RemoveListeners name em = em\<lparr>emListeners := (emListeners em)(name := None)\<rparr>"

definition em_Reset :: "('d, 'w) Manager \<Rightarrow> ('d, 'w) Manager" where
  "em_Reset em = em\<lparr>emName := [], emEvents := Map.empty, emListeners := Map.empty\<rparr>"

definition AddEvent :: "'d BasicEvent \<Rightarrow> ('d, 'w) Manager \<Rightarrow> ('d, 'w) Manager" where
  "AddEvent e em = em\<lparr>emEvents := (emEvents em)(fst (goodName (beName e)) \<mapsto> e)\<rparr>"

definition GetEvent :: "string \<Rightarrow> ('d, 'w) Manager \<Rightarrow> 'd BasicEvent option" where
  "GetEvent name em = emEvents em name"

definition HasEvent :: "string \<Rightarrow> ('d, 'w) Manager \<Rightarrow> bool" where
  "HasEvent name em \<longleftrightarrow> emEvents em name \<noteq> None"

definition RemoveEvent :: "string \<Rightarrow> ('d, 'w) Manager \<Rightarrow> ('d, 'w) Manager" where
  "RemoveEvent name em = em\<lparr>emEvents := (emEvents em)(name := None)\<rparr>"

definition RemoveEvents :: "('d, 'w) Manager \<Rightarrow> ('d, 'w) Manager" where
  "RemoveEvents em = em\<lparr>emEvents := Map.empty\<rparr>"

subsection \<open>Firing\<close>

type_synonym prio_sort = "(nat \<Rightarrow> int) \<Rightarrow> nat list \<Rightarrow> nat list"

fun run_listeners ::
  "('d, 'w) Listener option list \<Rightarrow> 'd BasicEvent \<Rightarrow> 'w \<Rightarrow> (string option \<times> 'd BasicEvent \<times> 'w) option" where
  \<comment> \<open>calling a nil listener panics\<close>
  "run_listeners [] e w = Some (None, e, w)"
| "run_listeners (l # ls) e w =
     (case l of
        None \<Rightarrow> None
      | Some l \<Rightarrow>
          let (err, e, w) = lsHandle l e w
          in if err \<noteq> None \<or> beAborted e then Some (err, e, w) else run_listeners ls e w)"

definition listeners_at :: "nat list \<Rightarrow> ('d, 'w) Manager \<Rightarrow> ('d, 'w) Listener option list" where
  "listeners_at q em = map (\<lambda>a. liListener (emItems em ! a)) q"

definition queue_of :: "string \<Rightarrow> ('d, 'w) Manager \<Rightarrow> nat list" where
  "queue_of name em = (case emListeners em name of Some q \<Rightarrow> q | None \<Rightarrow> [])"

definition lq_Sort :: "prio_sort \<Rightarrow> ('d, 'w) Manager \<Rightarrow> nat list \<Rightarrow> nat list" where
  "lq_Sort srt em q =
     (let prio = (\<lambda>a. liPriority (emItems em ! a))
      in if sorted_wrt (\<lambda>a b. prio a \<ge> prio b) q then q else srt prio q)"

definition FireEvent ::
  "prio_sort \<Rightarrow> 'd BasicEvent \<Rightarrow> ('d, 'w) Manager \<Rightarrow> 'w \<Rightarrow>
   (string option \<times> 'd BasicEvent \<times> ('d, 'w) Manager \<times> 'w) option" where
  "FireEvent srt e em w = do {
     let e = be_Abort False e;
     let name = beName e;
     (err, e, w) \<leftarrow> run_listeners (listeners_at (queue_of name em) em) e w;
     (if err \<noteq> None \<or> beAborted e then Some (err, e, em, w)
      else case emListeners em Wildcard of
             None \<Rightarrow> Some (err, e, em, w)
           | Some q \<Rightarrow> do {
               let q = lq_Sort srt em q;
               let em = em\<lparr>emListeners := (emListeners em)(Wildcard \<mapsto> q)\<rparr>;
               (err, e, w) \<leftarrow> run_listeners (listeners_at q em) e w;
               Some (err, e, em, w)
             })
   }"

definition AwaitFire ::
  "prio_sort \<Rightarrow> 'd BasicEvent \<Rightarrow> ('d, 'w) Manager \<Rightarrow> 'w \<Rightarrow>
   (string option \<times> 'd BasicEvent \<times> ('d, 'w) Manager \<times> 'w) option" where
  \<comment> \<open>a goroutine runs \<open>FireEvent\<close> and the caller waits for its result\<close>
  "AwaitFire = FireEvent"

definition Fire ::
  "prio_sort \<Rightarrow> string \<Rightarrow> 'd option list option \<Rightarrow> ('d, 'w) Manager \<Rightarrow> 'w \<Rightarrow>
   ((string option \<times> 'd BasicEvent option) \<times> ('d, 'w) Manager \<times> 'w) option" where
  "Fire srt name params em w =
     (let name = fst (goodName name)
      in if \<not> HasListeners name em \<and> \<not> HasListeners Wildcard em then Some ((None, None), em, w)
         else case emEvents em name of
                Some e \<Rightarrow> do {
                  (err, e, em, w) \<leftarrow> FireEvent srt (be_SetData params e) em w;
                  Some ((err, Some e), em\<lparr>emEvents := (emEvents em)(name \<mapsto> e)\<rparr>, w)
                }
              | None \<Rightarrow> do {
                  let e = \<lparr>beName = name, beData = (case params of None \<Rightarrow> [] | Some d \<Rightarrow> d),
                           beTarget = [], beAborted = False\<rparr>;
                  (err, e, em, w) \<leftarrow> FireEvent srt e em w;
                  Some ((err, Some e), em, w)
                })"

datatype 'd batch_arg = ByName string | ByEvent "'d BasicEvent" | OtherArg

fun batch_loop ::
  "prio_sort \<Rightarrow> 'd batch_arg list \<Rightarrow> string option \<Rightarrow> string list \<Rightarrow> ('d, 'w) Manager \<Rightarrow> 'w \<Rightarrow>
   (string list \<times> ('d, 'w) Manager \<times> 'w) option" where
  \<comment> \<open>\<open>err\<close> is declared outside the loop and keeps its value over an argument that is neither\<close>
  "batch_loop srt [] err ers em w = Some (ers, em, w)"
| "batch_loop srt (x # xs) err ers em w = do {
     (err, em, w) \<leftarrow>
       (case x of
          ByName n \<Rightarrow> map_option (\<lambda>((err, _), em, w). (err, em, w)) (Fire srt n None em w)
        | ByEvent e \<Rightarrow> map_option (\<lambda>(err, _, em, w). (err, em, w)) (FireEvent srt e em w)
        | OtherArg \<Rightarrow> Some (err, em, w));
     batch_loop srt xs err (case err of Some s \<Rightarrow> ers @ [s] | None \<Rightarrow> ers) em w
   }"

definition FireBatch ::
  "prio_sort \<Rightarrow> 'd batch_arg list \<Rightarrow> ('d, 'w) Manager \<Rightarrow> 'w \<Rightarrow> (string list \<times> ('d, 'w) Manager \<times> 'w) option" where
  "FireBatch srt es em w = batch_loop srt es None [] em w"

subsection \<open>Registration\<close>

definition em_ok :: "('d, 'w) Manager \<Rightarrow> bool" where
  "em_ok em \<longleftrightarrow> (\<forall>n q. emListeners em n = Some q \<longrightarrow>
     q \<noteq> [] \<and> (n = Wildcard \<or> goodNameReg n) \<and> (\<forall>a \<in> set q. a < length (emItems em)))"

lemma goodName_cases: "fst (goodName name) = [] \<or> goodNameReg (fst (goodName name))"
  by (simp add: goodName_def Let_def)

lemma addListenerItem_ok:
  assumes "em_ok em" and "a < length (emItems em)"
  shows "em_ok (addListenerItem name a em)"
  using assms goodName_cases [of name]
  by (auto simp: em_ok_def addListenerItem_def lq_Push_def Let_def split: option.split)

lemma addListenerItem_items [simp]: "emItems (addListenerItem name a em) = emItems em"
  by (simp add: addListenerItem_def Let_def)

lemma em_ok_items: "em_ok em \<Longrightarrow> length (emItems em) \<le> length is \<Longrightarrow> em_ok (em\<lparr>emItems := is\<rparr>)"
  by (fastforce simp: em_ok_def)

lemma subscribe_loop_ok:
  "em_ok em \<Longrightarrow> a < length (emItems em) \<Longrightarrow>
    em_ok (subscribe_loop a lis em) \<and> length (emItems (subscribe_loop a lis em)) = length (emItems em)"
  by (induction lis arbitrary: em) (auto simp: addListenerItem_ok em_ok_items)

lemma subscribe_loop_items:
  "a < length (emItems em) \<Longrightarrow> lis \<noteq> [] \<Longrightarrow> emItems (subscribe_loop a lis em) ! a = last lis"
  by (induction lis arbitrary: em) auto

lemma subscribe_loop_addresses:
  assumes "emListeners (subscribe_loop a lis em) n = Some q" and "x \<in> set q"
  shows "x = a \<or> x \<in> set (queue_of n em)"
  using assms
proof (induction lis arbitrary: em)
  case (Cons li lis)
  from Cons.IH [of "addListenerItem (liKey li) a (em\<lparr>emItems := (emItems em)[a := li]\<rparr>)"] Cons.prems
  have "x = a \<or> x \<in> set (queue_of n (addListenerItem (liKey li) a (em\<lparr>emItems := (emItems em)[a := li]\<rparr>)))"
    by simp
  then show ?case
    by (auto simp: queue_of_def addListenerItem_def lq_Push_def Let_def split: option.splits if_splits)
qed (simp add: queue_of_def)

datatype ('d, 'w) em_op =
    DoOn string "('d, 'w) Listener option" int
  | DoSubscribe "('d, 'w) ListenerItem list"
  | DoRemoveListener string "('d, 'w) Listener option"
  | DoRemoveListeners string
  | DoReset
  | DoAddEvent "'d BasicEvent"
  | DoRemoveEvent string

fun em_apply :: "('d, 'w) em_op \<Rightarrow> ('d, 'w) Manager \<Rightarrow> ('d, 'w) Manager" where
  "em_apply (DoOn n l p) em = em_On n l p em"
| "em_apply (DoSubscribe lis) em = AddSubscriber lis em"
| "em_apply (DoRemoveListener n l) em = RemoveListener n l em"
| "em_apply (DoRemoveListeners n) em = RemoveListeners n em"
| "em_apply DoReset em = em_Reset em"
| "em_apply (DoAddEvent e) em = AddEvent e em"
| "em_apply (DoRemoveEvent n) em = RemoveEvent n em"

lemma lq_Remove_subset: "set (lq_Remove l em q) \<subseteq> set q"
  by (auto simp: lq_Remove_def split: option.splits)

lemma em_apply_ok:
  assumes "em_ok em"
  shows "em_ok (em_apply x em)"
proof (cases x)
  case (DoOn n l p)
  then show ?thesis using assms by (simp add: em_On_def Let_def addListenerItem_ok em_ok_items)
next
  case (DoSubscribe lis)
  then show ?thesis
    using subscribe_loop_ok [of "em\<lparr>emItems := emItems em @ [\<lparr>liKey = [], liPriority = 0, liListener = None\<rparr>]\<rparr>"
        "length (emItems em)" lis] assms em_ok_items [OF assms]
    by (simp add: AddSubscriber_def Let_def)
next
  case (DoRemoveListener n l)
  have sub: "set (lq_Remove l em q) \<subseteq> set q" for q by (rule lq_Remove_subset)
  show ?thesis
  proof (cases "n = []")
    case True
    then show ?thesis using assms sub DoRemoveListener
      by (fastforce simp: em_ok_def RemoveListener_def drop_empty_def bind_eq_Some_conv split: if_splits)
  next
    case False
    then show ?thesis using assms sub DoRemoveListener
      by (fastforce simp: em_ok_def RemoveListener_def drop_empty_def split: option.splits if_splits)
  qed
qed (use assms in \<open>auto simp: em_ok_def RemoveListeners_def em_Reset_def AddEvent_def RemoveEvent_def\<close>)

lemma em_run_ok: "em_ok em \<Longrightarrow> em_ok (fold em_apply xs em)"
  by (induction xs arbitrary: em) (auto simp: em_apply_ok)

subsection \<open>Order of the listeners\<close>

definition sorts_down :: "prio_sort \<Rightarrow> bool" where
  "sorts_down srt \<longleftrightarrow> (\<forall>prio q. mset (srt prio q) = mset q \<and> sorted_wrt (\<lambda>a b. prio a \<ge> prio b) (srt prio q))"

lemma run_listeners_append:
  assumes "\<not> beAborted e"
  shows "run_listeners (xs @ ys) e w = Option.bind (run_listeners xs e w) (\<lambda>(err, e, w).
    if err \<noteq> None \<or> beAborted e then Some (err, e, w) else run_listeners ys e w)"
  using assms
  by (induction xs arbitrary: e w) (auto split: option.split prod.split)

lemma be_Abort_simps [simp]: "beName (be_Abort b e) = beName e" "beAborted (be_Abort b e) = b"
  by (simp_all add: be_Abort_def)

lemma listeners_at_same [simp]: "listeners_at q (em\<lparr>emListeners := m\<rparr>) = listeners_at q em"
  by (simp add: listeners_at_def)

lemma lq_Sort_sorted:
  assumes "sorts_down srt"
  shows "mset (lq_Sort srt em q) = mset q \<and>
    sorted_wrt (\<lambda>a b. liPriority (emItems em ! a) \<ge> liPriority (emItems em ! b)) (lq_Sort srt em q)"
  using assms by (auto simp: lq_Sort_def sorts_down_def Let_def)

subsection \<open>Properties\<close>

text \<open>Firing an event calls the listeners of its name in the order of registration, whatever their
  priorities, then those of the wildcard by decreasing priority, and stops at the first error or
  abort: the outcome is that of one pass over that list.\<close>
lemma fire_event_order:
  assumes "sorts_down srt"
  shows "\<exists>wild. mset wild = mset (queue_of Wildcard em) \<and>
    sorted_wrt (\<lambda>a b. liPriority (emItems em ! a) \<ge> liPriority (emItems em ! b)) wild \<and>
    map_option (\<lambda>(err, e, em, w). (err, e, w)) (FireEvent srt e em w) =
      run_listeners (listeners_at (queue_of (beName e) em @ wild) em) (be_Abort False e) w"
proof -
  define wild where "wild = lq_Sort srt em (queue_of Wildcard em)"
  have "map_option (\<lambda>(err, e, em, w). (err, e, w)) (FireEvent srt e em w) =
      run_listeners (listeners_at (queue_of (beName e) em) em @ listeners_at wild em) (be_Abort False e) w"
  proof (cases "run_listeners (listeners_at (queue_of (beName e) em) em) (be_Abort False e) w")
    case None
    then show ?thesis by (simp add: FireEvent_def run_listeners_append)
  next
    case (Some r)
    obtain err e1 w1 where r: "r = (err, e1, w1)" by (cases r)
    show ?thesis
    proof (cases "emListeners em Wildcard")
      case None
      then have "wild = []" by (simp add: wild_def queue_of_def lq_Sort_def)
      with None Some r show ?thesis by (simp add: FireEvent_def run_listeners_append listeners_at_def)
    next
      case q: (Some q)
      then have "wild = lq_Sort srt em q" by (simp add: wild_def queue_of_def)
      with q Some r show ?thesis
        by (cases "run_listeners (listeners_at (lq_Sort srt em q) em) e1 w1")
          (auto simp: FireEvent_def run_listeners_append)
    qed
  qed
  then show ?thesis
    using lq_Sort_sorted [OF assms, of em "queue_of Wildcard em"]
    by (intro exI [of _ wild]) (simp add: wild_def listeners_at_def)
qed

text \<open>After any sequence of registrations, subscriptions and removals every name with listeners is the
  wildcard or a valid name, and has at least one listener: \<open>HasListeners\<close> and \<open>ListenersCount\<close> agree.\<close>
lemma manager_names_valid:
  "HasListeners n (fold em_apply ops (NewManager name)) =
     (0 < ListenersCount n (fold em_apply ops (NewManager name))) \<and>
   \<not> (HasListeners n (fold em_apply ops (NewManager name)) \<and> n \<noteq> Wildcard \<and> \<not> goodNameReg n)"
proof -
  have "em_ok (fold em_apply ops (NewManager name))"
    by (rule em_run_ok) (simp add: em_ok_def NewManager_def)
  then show ?thesis
    by (auto simp: em_ok_def HasListeners_def ListenersCount_def split: option.splits)
qed

text \<open>All listeners that one \<open>AddSubscriber\<close> call registers are the subscriber's last one: every queue
  entry points to the loop variable.\<close>
lemma subscriber_aliases_last:
  assumes "lis \<noteq> []" and "emListeners (AddSubscriber lis (NewManager name)) n = Some q" and "a \<in> set q"
  shows "emItems (AddSubscriber lis (NewManager name)) ! a = last lis"
proof -
  let ?em = "(NewManager name)\<lparr>emItems := [\<lparr>liKey = [], liPriority = 0, liListener = None\<rparr>]\<rparr>"
  have s: "AddSubscriber lis (NewManager name) = subscribe_loop 0 lis ?em"
    by (simp add: AddSubscriber_def NewManager_def)
  have "a = 0" using subscribe_loop_addresses [of 0 lis ?em n q a, OF assms(2) [unfolded s] assms(3)]
    by (simp add: queue_of_def NewManager_def)
  then show ?thesis using subscribe_loop_items [of 0 ?em lis] assms(1) by (simp add: s)
qed

text \<open>An argument of \<open>FireBatch\<close> that is neither a name nor an event is not ignored if the event before it
  failed: that event's error is reported once more.\<close>
lemma batch_repeats_error:
  assumes "Fire srt n None em w = Some ((Some err, ev), em', w')"
  shows "FireBatch srt [ByName n, OtherArg] em w = Some ([err, err], em', w')"
  using assms by (simp add: FireBatch_def)

subsection \<open>Witnesses\<close>

definition rec_listener :: "nat \<Rightarrow> string option \<Rightarrow> (nat, nat list) Listener" where
  \<comment> \<open>records its identity\<close>
  "rec_listener i r = \<lparr>lsId = i, lsHandle = \<lambda>e w. (r, e, w @ [i])\<rparr>"

definition plain_sort :: prio_sort where
  "plain_sort prio q = sort_key (\<lambda>a. - prio a) q"

lemma plain_sort_sorts: "sorts_down plain_sort"
proof -
  have "sorted_wrt (\<lambda>a b. prio a \<ge> prio b) (plain_sort prio q)" for prio q
    using sorted_sort_key [of "\<lambda>a. - prio a" q] unfolding plain_sort_def by (simp add: sorted_map)
  then show ?thesis by (simp add: sorts_down_def plain_sort_def)
qed

definition two_listeners :: "(nat, nat list) Manager" where
  "two_listeners = em_On ''*'' (Some (rec_listener 2 None)) 5
     (em_On ''*'' (Some (rec_listener 1 None)) 0 (NewManager ''m''))"

end
