(* ===== verification/Rcache.thy ===== *)
theory Rcache
  imports Prelude
begin

text \<open>
  \<^verbatim>\<open>registry/base.go\<close>, \<^verbatim>\<open>registry/watcher.go\<close> and \<^verbatim>\<open>rcache/\<close>: the service records and the cache
  in front of a registry.

  Representation. Structs behind pointers are values: the cache hands out copies, and results of a
  watcher are fresh objects, so no two entries share a node that an update changes. A Go map that may be
  \<open>nil\<close> is an optional map. Times and durations are nanoseconds (\<open>int\<close>), the time being an argument of
  the operations that read the clock; the zero \<open>time.Time\<close> is the absence of an entry.
  The registry is a parameter \<open>reg\<close>, the answer to one call of \<open>GetService\<close>, with errors of type \<open>'e\<close>.
  A panic (writing to a \<open>nil\<close> map) is \<open>None\<close>. The read section of \<open>get\<close> and the part after it run under
  different locks; they are two definitions, which \<open>rc_get\<close> composes.
\<close>

subsection \<open>Registry data\<close>

datatype Value = Value string string "Value list"

record Endpoint =
  epName :: string
  epRequest :: "Value option"
  epResponse :: "Value option"
  epMetadata :: "(string \<rightharpoonup> string) option"

record Node =
  ndId :: string
  ndAddress :: string
  ndPort :: int
  ndMetadata :: "(string \<rightharpoonup> string) option"

record Service =
  svName :: string
  svVersion :: string
  svMetadata :: "(string \<rightharpoonup> string) option"
  svEndpoints :: "Endpoint list"
  svNodes :: "Node list"

record Result =
  resAction :: string
  resService :: "Service option"

definition ServiceStatus :: string where "ServiceStatus = ''ServiceStatus''"

definition NormalState :: string where "NormalState = ''normal''"

definition DeleteState :: string where "DeleteState = ''deleted''"

subsection \<open>The cache\<close>

datatype 'e rc_error = RegNotFound | RegErr 'e

record cache =
  rcTTL :: int
  rcCache :: "string \<rightharpoonup> Service list"
  rcTtls :: "string \<rightharpoonup> int"
  rcWatched :: "string set"
  rcExit :: bool \<comment> \<open>the channel \<open>exit\<close> is closed\<close>

definition DefaultTTL :: int where
  "DefaultTTL = 60 * 10 ^ 9"

definition WithTTL :: "int \<Rightarrow> int \<Rightarrow> int" where
  \<comment> \<open>the only field of the options is the TTL\<close>
  "WithTTL t = (\<lambda>_. t)"

definition New_cache :: "(int \<Rightarrow> int) list \<Rightarrow> cache" where
  "New_cache opts =
     \<lparr>rcTTL = fold (\<lambda>f. f) opts DefaultTTL, rcCache = Map.empty, rcTtls = Map.empty,
      rcWatched = {}, rcExit = False\<rparr>"

definition backoff :: "nat \<Rightarrow> nat" where
  \<comment> \<open>in milliseconds\<close>
  "backoff attempts = (if attempts = 0 then 0 else 10 ^ attempts)"

definition isValid :: "int \<Rightarrow> Service list \<Rightarrow> int option \<Rightarrow> cache \<Rightarrow> bool" where
  "isValid now services ttl c =
     (if length services = 0 then False
      else case ttl of
        None \<Rightarrow> False
      | Some ttl \<Rightarrow> \<not> now - ttl > rcTTL c)"

definition rc_quit :: "cache \<Rightarrow> bool" where
  "rc_quit c = rcExit c"

definition cp_service :: "Service \<Rightarrow> Service" where
  "cp_service s =
     \<lparr>svName = svName s, svVersion = svVersion s, svMetadata = svMetadata s,
      svEndpoints = map (\<lambda>e. \<lparr>epName = epName e, epRequest = epRequest e, epResponse = epResponse e,
        epMetadata = epMetadata e\<rparr>) (svEndpoints s),
      svNodes = map (\<lambda>n. \<lparr>ndId = ndId n, ndAddress = ndAddress n, ndPort = ndPort n,
        ndMetadata = ndMetadata n\<rparr>) (svNodes s)\<rparr>"

definition cp :: "Service list \<Rightarrow> Service list" where
  "cp current = map cp_service current"

definition rc_del :: "string \<Rightarrow> cache \<Rightarrow> cache" where
  "rc_del service c =
     c\<lparr>rcCache := (rcCache c)(service := None), rcTtls := (rcTtls c)(service := None)\<rparr>"

definition rc_set :: "int \<Rightarrow> string \<Rightarrow> Service list \<Rightarrow> cache \<Rightarrow> cache" where
  "rc_set now service services c =
     c\<lparr>rcCache := (rcCache c)(service \<mapsto> services), rcTtls := (rcTtls c)(service \<mapsto> now + rcTTL c)\<rparr>"

datatype lookup = Hit "Service list" | Miss "Service list" bool
  \<comment> \<open>a miss carries the stale copy and whether a watcher goroutine is started\<close>

definition rc_lookup :: "int \<Rightarrow> string \<Rightarrow> cache \<Rightarrow> lookup" where
  \<comment> \<open>the part of \<open>get\<close> under the read lock; a missing key reads as the empty slice\<close>
  "rc_lookup now service c =
     (let services = (case rcCache c service of None \<Rightarrow> [] | Some ss \<Rightarrow> ss);
          ttl = rcTtls c service
      in if isValid now services ttl c then Hit (cp services)
         else Miss (cp services) (service \<notin> rcWatched c))"

definition rc_fetch ::
  "('e + Service list) \<Rightarrow> int \<Rightarrow> string \<Rightarrow> Service list \<Rightarrow> cache \<Rightarrow> ('e + Service list) \<times> cache" where
  \<comment> \<open>the inner \<open>get\<close>: ask the registry, fall back on the stale copy, store what it answered\<close>
  "rc_fetch reg now service invalidServices c =
     (case reg of
        Inl err \<Rightarrow>
          if length invalidServices > 0 then (Inr invalidServices, c) else (Inl err, c)
      | Inr services \<Rightarrow> (Inr services, rc_set now service (cp services) c))"

definition rc_watch_start :: "string \<Rightarrow> cache \<Rightarrow> cache" where
  \<comment> \<open>the first section of \<open>run\<close>\<close>
  "rc_watch_start service c = c\<lparr>rcWatched := insert service (rcWatched c)\<rparr>"

definition rc_watch_end :: "string \<Rightarrow> cache \<Rightarrow> cache" where
  \<comment> \<open>the deferred function of \<open>run\<close>\<close>
  "rc_watch_end service c = c\<lparr>rcWatched := rcWatched c - {service}\<rparr>"

definition rc_get ::
  "(string \<Rightarrow> 'e + Service list) \<Rightarrow> int \<Rightarrow> int \<Rightarrow> string \<Rightarrow> cache \<Rightarrow> ('e + Service list) \<times> cache" where
  \<comment> \<open>\<open>get\<close> with nothing in between: looked up at \<open>now\<close>, the answer stored at \<open>now'\<close>, the goroutine
    that watches the service being started in between\<close>
  "rc_get reg now now' service c =
     (case rc_lookup now service c of
        Hit services \<Rightarrow> (Inr services, c)
      | Miss invalid spawn \<Rightarrow>
          rc_fetch (reg service) now' service invalid (if spawn then rc_watch_start service c else c))"

definition rc_GetService ::
  "(string \<Rightarrow> 'e + Service list) \<Rightarrow> int \<Rightarrow> int \<Rightarrow> string \<Rightarrow> cache \<Rightarrow>
   ('e rc_error + Service list) \<times> cache" where
  "rc_GetService reg now now' service c =
     (case rc_get reg now now' service c of
        (Inl err, c') \<Rightarrow> (Inl (RegErr err), c')
      | (Inr services, c') \<Rightarrow>
          (if length services = 0 then (Inl RegNotFound, c') else (Inr services, c')))"

definition rc_Deregister :: "'e option \<Rightarrow> cache \<Rightarrow> 'e option \<times> cache" where
  \<comment> \<open>given what the registry's \<open>Deregister\<close> returned\<close>
  "rc_Deregister err c = (case err of Some e \<Rightarrow> (Some e, c) | None \<Rightarrow> (None, c))"

definition rc_Stop :: "cache \<Rightarrow> cache" where
  "rc_Stop c = (if rcExit c then c else c\<lparr>rcExit := True\<rparr>)"

subsection \<open>Updates from the watcher\<close>

fun find_node :: "string \<Rightarrow> Node list \<Rightarrow> Node option" where
  \<comment> \<open>the innermost loop: the first new node with the id\<close>
  "find_node i [] = None"
| "find_node i (n # ns) = (if i \<noteq> ndId n then find_node i ns else Some n)"

definition mark_deleted :: "Node \<Rightarrow> Node option" where
  "mark_deleted n =
     (case ndMetadata n of
        None \<Rightarrow> None
      | Some m \<Rightarrow> Some (n\<lparr>ndMetadata := Some (m(ServiceStatus \<mapsto> DeleteState))\<rparr>))"

fun replace_nodes :: "(Node \<Rightarrow> Node option) \<Rightarrow> Node list \<Rightarrow> Node list \<Rightarrow> Node list option" where
  \<comment> \<open>the loop over \<open>service.Nodes\<close>; \<open>f\<close> is what happens to the target node\<close>
  "replace_nodes f new [] = Some []"
| "replace_nodes f new (n # ns) = do {
     n' \<leftarrow> (case find_node (ndId n) new of None \<Rightarrow> Some n | Some t \<Rightarrow> f t);
     ns' \<leftarrow> replace_nodes f new ns;
     Some (n' # ns')
   }"

fun replace_services ::
  "(Node \<Rightarrow> Node option) \<Rightarrow> Service \<Rightarrow> Service list \<Rightarrow> Service list option" where
  \<comment> \<open>the loop over the cached services\<close>
  "replace_services f r [] = Some []"
| "replace_services f r (s # ss) = do {
     s' \<leftarrow> (if svVersion s \<noteq> svVersion r then Some s
           else map_option (\<lambda>ns. s\<lparr>svNodes := ns\<rparr>) (replace_nodes f (svNodes r) (svNodes s)));
     ss' \<leftarrow> replace_services f r ss;
     Some (s' # ss')
   }"

definition update_create :: "int \<Rightarrow> Service \<Rightarrow> Service list \<Rightarrow> cache \<Rightarrow> cache option" where
  "update_create now r services c = do {
     services' \<leftarrow> replace_services Some r services;
     let c' = c\<lparr>rcCache := (rcCache c)(svName r \<mapsto> services')\<rparr>;
     let newService = (\<forall>s \<in> set services. svVersion s \<noteq> svVersion r);
     Some (if newService then rc_set now (svName r) (services' @ [r]) c' else c')
   }"

definition update_delete :: "Service \<Rightarrow> Service list \<Rightarrow> cache \<Rightarrow> cache option" where
  "update_delete r services c = do {
     services' \<leftarrow> replace_services mark_deleted r services;
     Some (c\<lparr>rcCache := (rcCache c)(svName r \<mapsto> services')\<rparr>)
   }"

definition rc_update :: "int \<Rightarrow> Result option \<Rightarrow> cache \<Rightarrow> cache option" where
  "rc_update now res c =
     (case res of None \<Rightarrow> Some c | Some res \<Rightarrow>
      case resService res of None \<Rightarrow> Some c | Some r \<Rightarrow>
      case rcCache c (svName r) of None \<Rightarrow> Some c | Some services \<Rightarrow>
        if length (svNodes r) = 0 then
          Some (if resAction res = ''delete'' then rc_del (svName r) c else c)
        else if resAction res = ''create'' \<or> resAction res = ''update'' then update_create now r services c
        else if resAction res = ''delete'' then update_delete r services c
        else Some c)"

fun rc_watch :: "(int \<times> Result option) list \<Rightarrow> cache \<Rightarrow> cache option" where
  \<comment> \<open>the results \<open>Next\<close> yields, with the time each is handled, up to its first error\<close>
  "rc_watch [] c = Some c"
| "rc_watch ((now, res) # rs) c = do { c' \<leftarrow> rc_update now res c; rc_watch rs c' }"

subsection \<open>The watcher loop\<close>

text \<open>
  One turn of \<open>run\<close>, as the environment decides it: whether \<open>Watch\<close> fails, what the watcher then
  yields before \<open>Next\<close> fails, and whether \<open>Stop\<close> is called meanwhile. \<open>watch\<close> returns only with an
  error, so the reset of \<open>b\<close> at the end of the loop is never reached.
\<close>

datatype attempt = WatchFails bool | Watches "(int \<times> Result option) list" bool

definition next_delay :: "nat \<Rightarrow> nat \<times> nat" where
  \<comment> \<open>the pause and the next value of the counter \<open>a\<close> or \<open>b\<close>\<close>
  "next_delay a = (backoff a, Suc (if a > 3 then 0 else a))"

fun rc_run :: "string \<Rightarrow> attempt list \<Rightarrow> nat \<Rightarrow> nat \<Rightarrow> cache \<Rightarrow> (nat list \<times> bool \<times> cache) option" where
  \<comment> \<open>the pauses made, whether \<open>run\<close> has returned, and the cache\<close>
  "rc_run service [] a b c =
     Some (if rc_quit c then ([], True, rc_watch_end service c) else ([], False, c))"
| "rc_run service (t # ts) a b c =
     (if rc_quit c then Some ([], True, rc_watch_end service c)
      else case t of
        WatchFails stop \<Rightarrow>
          let c = (if stop then rc_Stop c else c)
          in if rc_quit c then Some ([], True, rc_watch_end service c)
             else do {
               (ds, q, c') \<leftarrow> rc_run service ts (snd (next_delay a)) b c;
               Some (fst (next_delay a) # ds, q, c') }
      | Watches rs stop \<Rightarrow> do {
          c \<leftarrow> rc_watch rs c;
          let c = (if stop then rc_Stop c else c);
          if rc_quit c then Some ([], True, rc_watch_end service c)
          else do {
            (ds, q, c') \<leftarrow> rc_run service ts 0 (snd (next_delay b)) c;
            Some (fst (next_delay b) # ds, q, c') } })"

subsection \<open>Copies, look-ups\<close>

lemma cp_service_id [simp]: "cp_service s = s"
  by (cases s) (simp add: cp_service_def map_idI)

lemma cp_id [simp]: "cp ss = ss"
  by (simp add: cp_def map_idI)

lemma rc_set_simps [simp]:
  "rcCache (rc_set t name ss c) = (rcCache c)(name \<mapsto> ss)"
  "rcTtls (rc_set t name ss c) = (rcTtls c)(name \<mapsto> t + rcTTL c)"
  "rcTTL (rc_set t name ss c) = rcTTL c"
  "rcWatched (rc_set t name ss c) = rcWatched c"
  by (simp_all add: rc_set_def)

lemma rc_lookup_after_set:
  "ss \<noteq> [] \<Longrightarrow> rc_lookup now name (rc_set t name ss c) =
     (if now \<le> t + 2 * rcTTL c then Hit ss else Miss ss (name \<notin> rcWatched c))"
  by (auto simp: rc_lookup_def isValid_def)

lemma rc_watch_start_absorb: "name \<in> rcWatched c \<Longrightarrow> rc_watch_start name c = c"
  by (simp add: rc_watch_start_def insert_absorb)

text \<open>The stored deadline is already one TTL in the future and the check adds another, so that an entry is served for two of them.\<close>

lemma served_for_two_ttls:
  assumes "ss \<noteq> []" and "now \<le> t + 2 * rcTTL c"
  shows "rc_GetService reg now now' name (rc_set t name ss c) = (Inr ss, rc_set t name ss c)"
  using assms by (cases ss) (simp_all add: rc_GetService_def rc_get_def rc_lookup_after_set)

text \<open>C12. An entry written at time \<open>t\<close> is served from the cache, without asking the registry, for the time TTL. Once it has
  expired the registry is asked and the service is watched: what it answers is stored and
  returned, an empty answer is reported as not found, and when it fails the expired entry is
  returned and kept. After \<open>t + 2 * TTL\<close> it has expired; between the two times one of the two happens, and nothing else.\<close>

theorem rcache_get_after_set:
  assumes "ss \<noteq> []" and "0 \<le> rcTTL c"
    and "served = (Inr ss, rc_set t name ss c)"
    and "asked = (let c' = rc_watch_start name (rc_set t name ss c) in
       case reg name of
         Inl err \<Rightarrow> (Inr ss, c')
       | Inr [] \<Rightarrow> (Inl RegNotFound, rc_set now' name [] c')
       | Inr (s # ss') \<Rightarrow> (Inr (s # ss'), rc_set now' name (s # ss') c'))"
  shows "(now \<le> t + rcTTL c \<longrightarrow> rc_GetService reg now now' name (rc_set t name ss c) = served) \<and>
    (now > t + 2 * rcTTL c \<longrightarrow> rc_GetService reg now now' name (rc_set t name ss c) = asked) \<and>
    rc_GetService reg now now' name (rc_set t name ss c) \<in> {served, asked}"
  using assms
  by (auto simp: rc_GetService_def rc_get_def rc_lookup_after_set rc_fetch_def rc_watch_start_absorb Let_def
      split: sum.split list.split)

subsection \<open>What updates keep\<close>

definition shape :: "Service list \<Rightarrow> (string \<times> string list) list" where
  "shape = map (\<lambda>s. (svVersion s, map ndId (svNodes s)))"

lemma find_node_Some: "find_node i ns = Some n \<Longrightarrow> ndId n = i \<and> n \<in> set ns"
  by (induction ns) (auto split: if_splits)

lemma find_node_None: "find_node i ns = None \<longleftrightarrow> i \<notin> ndId ` set ns"
  by (induction ns) auto

lemma mark_deleted_Some:
  "mark_deleted n = Some n' \<Longrightarrow> ndId n' = ndId n \<and> (\<exists>m. ndMetadata n' = Some m \<and> m ServiceStatus = Some DeleteState)"
  by (auto simp: mark_deleted_def split: option.splits)

lemma replace_nodes_ids:
  assumes "\<And>t t'. f t = Some t' \<Longrightarrow> ndId t' = ndId t"
  shows "replace_nodes f new ns = Some ns' \<Longrightarrow> map ndId ns' = map ndId ns"
  by (induction ns arbitrary: ns')
    (fastforce split: option.splits Option.bind_splits dest: assms find_node_Some)+

lemma replace_nodes_marked:
  "replace_nodes mark_deleted new ns = Some ns' \<Longrightarrow> n \<in> set ns' \<Longrightarrow> ndId n \<in> ndId ` set new \<Longrightarrow>
   \<exists>m. ndMetadata n = Some m \<and> m ServiceStatus = Some DeleteState"
  by (induction ns arbitrary: ns')
    (fastforce simp: find_node_None split: option.splits Option.bind_splits dest: mark_deleted_Some)+

lemma replace_services_shape:
  assumes "\<And>t t'. f t = Some t' \<Longrightarrow> ndId t' = ndId t"
  shows "replace_services f r ss = Some ss' \<Longrightarrow> shape ss' = shape ss"
  by (induction ss arbitrary: ss')
    (auto simp: shape_def split: if_splits Option.bind_splits dest!: replace_nodes_ids [OF assms, rotated])

lemma replace_services_marked:
  "replace_services mark_deleted r ss = Some ss' \<Longrightarrow> s \<in> set ss' \<Longrightarrow> svVersion s = svVersion r \<Longrightarrow>
   n \<in> set (svNodes s) \<Longrightarrow> ndId n \<in> ndId ` set (svNodes r) \<Longrightarrow>
   \<exists>m. ndMetadata n = Some m \<and> m ServiceStatus = Some DeleteState"
proof (induction ss arbitrary: ss')
  case (Cons a ss)
  from Cons.prems(1) obtain x xs where ss': "ss' = x # xs" "replace_services mark_deleted r ss = Some xs"
    and x: "if svVersion a \<noteq> svVersion r then x = a
      else \<exists>ns. replace_nodes mark_deleted (svNodes r) (svNodes a) = Some ns \<and> x = a\<lparr>svNodes := ns\<rparr>"
    by (auto split: if_splits Option.bind_splits)
  show ?case
  proof (cases "s \<in> set xs")
    case True
    with Cons.IH ss' Cons.prems(3-5) show ?thesis by blast
  next
    case False
    with Cons.prems ss' x show ?thesis
      by (auto split: if_splits simp del: image_iff intro: replace_nodes_marked)
  qed
qed simp

definition extends :: "Service list option \<Rightarrow> Service list option \<Rightarrow> bool" where
  \<comment> \<open>an entry disappeared, or kept its services and their node ids and got services of new versions only\<close>
  "extends old new =
     (case (old, new) of
        (_, None) \<Rightarrow> True
      | (None, Some _) \<Rightarrow> False
      | (Some ss, Some ss') \<Rightarrow>
          \<exists>ys. shape ss' = shape ss @ ys \<and> fst ` set ys \<inter> svVersion ` set ss = {})"

lemma extends_refl [simp]: "extends x x"
  by (auto simp: extends_def split: option.split)

lemma versions_of_shape: "fst ` set (shape ss) = svVersion ` set ss"
  by (force simp: shape_def)

lemma extends_trans: 
  assumes "extends x y" "extends y z"
  shows "extends x z"
proof (cases z)
  case (Some zs)
  with assms obtain xs ys as bs where
    "x = Some xs" "y = Some ys" "shape ys = shape xs @ as" "fst ` set as \<inter> svVersion ` set xs = {}"
    "shape zs = shape ys @ bs" "fst ` set bs \<inter> svVersion ` set ys = {}"
    by (auto simp: extends_def split: option.splits)
  moreover from this have "svVersion ` set ys = svVersion ` set xs \<union> fst ` set as"
    by (metis image_Un set_append versions_of_shape)
  ultimately show ?thesis
    using Some by (auto simp: extends_def intro!: exI [of _ "as @ bs"])
qed (simp add: extends_def split: option.split)

lemma update_create_extends:
  assumes "update_create now r ss c = Some c'" and "rcCache c (svName r) = Some ss"
  shows "extends (rcCache c name) (rcCache c' name)"
proof -
  from assms obtain ss' where ss': "replace_services Some r ss = Some ss'"
    and c': "rcCache c' = (rcCache c)(svName r \<mapsto> (if \<forall>s \<in> set ss. svVersion s \<noteq> svVersion r then ss' @ [r] else ss'))"
    by (auto simp: update_create_def Let_def split: Option.bind_splits)
  from ss' have "shape ss' = shape ss" by (rule replace_services_shape [rotated]) simp
  moreover have "shape (ss' @ [r]) = shape ss' @ [(svVersion r, map ndId (svNodes r))]" by (simp add: shape_def)
  ultimately show ?thesis
    using assms(2) by (cases "name = svName r") (auto simp: c' extends_def)
qed

lemma update_delete_extends:
  assumes "update_delete r ss c = Some c'" and "rcCache c (svName r) = Some ss"
  shows "extends (rcCache c name) (rcCache c' name)"
proof -
  from assms obtain ss' where ss': "replace_services mark_deleted r ss = Some ss'"
    and c': "rcCache c' = (rcCache c)(svName r \<mapsto> ss')"
    by (auto simp: update_delete_def split: Option.bind_splits)
  from ss' have "shape ss' = shape ss" by (rule replace_services_shape [rotated]) (simp add: mark_deleted_Some)
  then show ?thesis
    using assms(2) by (cases "name = svName r") (auto simp: c' extends_def)
qed

lemma rc_update_extends:
  "rc_update now res c = Some c' \<Longrightarrow> extends (rcCache c name) (rcCache c' name)"
  by (auto simp: rc_update_def rc_del_def split: option.splits if_splits
      intro: update_create_extends update_delete_extends)
    (auto simp: extends_def split: option.split)

text \<open>C13. Whatever results a watcher delivers, they leave the versions and node ids of a cached
  service alone: the entry disappears, or every version that was cached keeps exactly its nodes (by id
  and in order) and only services of other versions are appended. In particular a node that registers
  after the look-up under a cached version is not seen before the entry expires. A service that is
  not cached stays so.\<close>

theorem watch_keeps_nodes:
  "rc_watch rs c = Some c' \<Longrightarrow> extends (rcCache c name) (rcCache c' name)"
proof (induction rs arbitrary: c)
  case (Cons r rs)
  then show ?case
    by (cases r) (auto split: Option.bind_splits intro: extends_trans [OF rc_update_extends])
qed simp

subsection \<open>Concrete inputs\<close>

definition ex_node :: "string \<Rightarrow> (string \<rightharpoonup> string) \<Rightarrow> Node" where
  "ex_node i m = \<lparr>ndId = i, ndAddress = ''10.0.0.1'', ndPort = 80, ndMetadata = Some m\<rparr>"

definition ex_service :: "string \<Rightarrow> Node list \<Rightarrow> Service" where
  "ex_service v ns =
     \<lparr>svName = ''greeter'', svVersion = v, svMetadata = None, svEndpoints = [], svNodes = ns\<rparr>"

definition ex_result :: "string \<Rightarrow> Service \<Rightarrow> Result" where
  "ex_result a s = \<lparr>resAction = a, resService = Some s\<rparr>"

theorem rcache_get_after_set_witness:
  "rc_GetService (\<lambda>_. Inl ''registry down'') 301 302 ''greeter''
     (rc_set 100 ''greeter'' [ex_service ''1'' []] (New_cache [WithTTL 100])) =
   (Inr [ex_service ''1'' []],
    rc_watch_start ''greeter'' (rc_set 100 ''greeter'' [ex_service ''1'' []] (New_cache [WithTTL 100])))"
  using rcache_get_after_set [of "[ex_service ''1'' []]" "New_cache [WithTTL 100]", OF _ _ refl refl, of 301 100 "\<lambda>_. Inl ''registry down''" 302 "''greeter''"]
  by (simp add: New_cache_def WithTTL_def Let_def)

definition ex_cache :: cache where
  "ex_cache = rc_set 0 ''greeter'' [ex_service ''1'' [ex_node ''a'' Map.empty, ex_node ''b'' Map.empty]] (New_cache [])"

definition ex_results :: "(int \<times> Result option) list" where
  "ex_results =
     [(1, Some (ex_result ''create'' (ex_service ''1'' [ex_node ''c'' Map.empty]))),
      (2, Some (ex_result ''delete'' (ex_service ''1'' [ex_node ''b'' Map.empty]))),
      (3, Some (ex_result ''create'' (ex_service ''2'' [ex_node ''d'' Map.empty])))]"

theorem watch_keeps_nodes_witness:
  "\<exists>c'. rc_watch ex_results ex_cache = Some c' \<and> extends (rcCache ex_cache ''greeter'') (rcCache c' ''greeter'') \<and>
     map_option shape (rcCache c' ''greeter'') = Some [(''1'', [''a'', ''b'']), (''2'', [''d''])]"
proof -
  have "map_option (\<lambda>c'. map_option shape (rcCache c' ''greeter'')) (rc_watch ex_results ex_cache) =
      Some (Some [(''1'', [''a'', ''b'']), (''2'', [''d''])])"
    by (simp add: ex_results_def ex_cache_def ex_result_def ex_service_def ex_node_def New_cache_def rc_update_def
        update_create_def update_delete_def mark_deleted_def Let_def shape_def)
  then obtain c' where "rc_watch ex_results ex_cache = Some c'"
    "map_option shape (rcCache c' ''greeter'') = Some [(''1'', [''a'', ''b'']), (''2'', [''d''])]"
    by auto
  with watch_keeps_nodes [of ex_results ex_cache c' "''greeter''"] show ?thesis by blast
qed

end
