(* ===== verification/Strconv.thy ===== *)
theory Strconv
  imports Prelude
begin

text \<open>
  The functions of Go's \<open>strconv\<close> and \<open>strings\<close> packages that several components use, on ASCII strings: decimal
  numbers in both directions, splitting at a separator, searching for a byte. Formatting and
  parsing are shown to be inverse.
\<close>

subsection \<open>Decimal numbers\<close>

fun dec_value :: "string \<Rightarrow> nat \<Rightarrow> nat option" where
  \<comment> \<open>the digits of \<open>ParseUint\<close>, without its range check\<close>
  "dec_value [] n = Some n"
| "dec_value (c # cs) n =
     (if 48 \<le> (of_char c :: nat) \<and> (of_char c :: nat) \<le> 57 then dec_value cs (10 * n + (of_char c - 48)) else None)"

definition ParseInt :: "string \<Rightarrow> int" where
  \<comment> \<open>the value \<open>strconv.ParseInt(s, 10, 64)\<close> returns: 0 with a syntax error, the nearest bound with a range error\<close>
  "ParseInt s =
     (let (neg, ds) = (case s of [] \<Rightarrow> (False, []) | c # cs \<Rightarrow>
            if c = CHR ''-'' then (True, cs) else if c = CHR ''+'' then (False, cs) else (False, s))
      in if ds = [] then 0
         else case dec_value ds 0 of
           None \<Rightarrow> 0
         | Some n \<Rightarrow> if neg then max (- int n) (- (2 ^ 63)) else min (int n) (2 ^ 63 - 1))"

fun digits :: "nat \<Rightarrow> string" where
  "digits n = (if n < 10 then [char_of (48 + n)] else digits (n div 10) @ [char_of (48 + n mod 10)])"

declare digits.simps [simp del]

definition itoa :: "int \<Rightarrow> string" where
  \<comment> \<open>\<open>strconv.Itoa\<close> and the verb \<open>%d\<close>\<close>
  "itoa i = (if i < 0 then CHR ''-'' # digits (nat (- i)) else digits (nat i))"

definition Atoi :: "string \<Rightarrow> int option" where
  \<comment> \<open>\<open>None\<close>: a syntax or range error\<close>
  "Atoi s =
     (let (neg, ds) = (case s of [] \<Rightarrow> (False, []) | c # cs \<Rightarrow>
            if c = CHR ''-'' then (True, cs) else if c = CHR ''+'' then (False, cs) else (False, s))
      in if ds = [] then None
         else case dec_value ds 0 of
           None \<Rightarrow> None
         | Some n \<Rightarrow>
             let i = (if neg then - int n else int n)
             in if - (2 ^ 63) \<le> i \<and> i < 2 ^ 63 then Some i else None)"

definition is_digit :: "char \<Rightarrow> bool" where
  "is_digit c \<longleftrightarrow> 48 \<le> (of_char c :: nat) \<and> (of_char c :: nat) \<le> 57"

lemma of_char_digit [simp]: "d < 10 \<Longrightarrow> (of_char (char_of (48 + d :: nat)) :: nat) = 48 + d"
  by simp

lemma digits_not_Nil [simp]: "digits n \<noteq> []"
  by (subst digits.simps) simp

lemma digits_digit: "c \<in> set (digits n) \<Longrightarrow> is_digit c"
  by (induction n rule: digits.induct) (subst (asm) (2) digits.simps, auto simp: is_digit_def split: if_splits)

lemma dec_value_append: "dec_value (xs @ ys) n = (case dec_value xs n of None \<Rightarrow> None | Some m \<Rightarrow> dec_value ys m)"
  by (induction xs arbitrary: n) auto

lemma dec_value_digits [simp]: "dec_value (digits n) 0 = Some n"
proof (induction n rule: digits.induct)
  case (1 n)
  have "n mod 10 \<le> 9" using mod_less_divisor [of 10 n] by linarith
  with 1 show ?case by (subst digits.simps) (simp add: dec_value_append)
qed

lemma digits_first: "\<exists>c cs. digits n = c # cs \<and> is_digit c"
  using digits_digit [of "hd (digits n)" n] by (cases "digits n") auto

lemma Atoi_itoa:
  assumes "- (2 ^ 63) \<le> i" and "i < 2 ^ 63"
  shows "Atoi (itoa i) = Some i"
proof -
  obtain c cs where "digits (nat i) = c # cs" "is_digit c" using digits_first by blast
  moreover from this have "c \<noteq> CHR ''-''" "c \<noteq> CHR ''+''" by (auto simp: is_digit_def)
  ultimately show ?thesis using assms dec_value_digits [of "nat i"] by (auto simp: Atoi_def itoa_def simp del: dec_value.simps)
qed

lemma ParseInt_itoa:
  assumes "0 \<le> i" and "i < 2 ^ 63"
  shows "ParseInt (itoa i) = i"
proof -
  obtain c cs where c: "digits (nat i) = c # cs" "is_digit c" using digits_first by blast
  then have "c \<noteq> CHR ''-''" "c \<noteq> CHR ''+''" by (auto simp: is_digit_def)
  with assms c dec_value_digits [of "nat i"] show ?thesis by (simp add: ParseInt_def itoa_def)
qed

lemma digits_inj: "digits m = digits n \<Longrightarrow> m = n"
  by (metis dec_value_digits option.inject)

lemma itoa_inj: "itoa i = itoa j \<Longrightarrow> i = j"
proof -
  assume e: "itoa i = itoa j"
  have n: "CHR ''-'' # xs \<noteq> digits n" for xs n
    using digits_first [of n] by (auto simp: is_digit_def)
  have "i < 0 \<longleftrightarrow> j < 0"
    using e n [of _ "nat j"] n [of _ "nat i"] unfolding itoa_def by metis
  with e have "digits (nat \<bar>i\<bar>) = digits (nat \<bar>j\<bar>)" by (auto simp: itoa_def split: if_splits)
  then have "nat \<bar>i\<bar> = nat \<bar>j\<bar>" by (rule digits_inj)
  with \<open>i < 0 \<longleftrightarrow> j < 0\<close> show "i = j" by linarith
qed

subsection \<open>Bytes in strings\<close>

fun split_at_char :: "char \<Rightarrow> string \<Rightarrow> string list" where
  \<comment> \<open>\<open>strings.Split\<close> with a separator of one byte\<close>
  "split_at_char c [] = [[]]"
| "split_at_char c (x # xs) =
     (if x = c then [] # split_at_char c xs
      else case split_at_char c xs of [] \<Rightarrow> [[x]] | y # ys \<Rightarrow> (x # y) # ys)"

definition index_byte :: "char \<Rightarrow> string \<Rightarrow> nat option" where
  \<comment> \<open>\<open>strings.IndexByte\<close>\<close>
  "index_byte c s = (if c \<in> set s then Some (length (takeWhile (\<lambda>x. x \<noteq> c) s)) else None)"

definition last_index_byte :: "char \<Rightarrow> string \<Rightarrow> nat option" where
  "last_index_byte c s =
     (if c \<in> set s then Some (length s - 1 - length (takeWhile (\<lambda>x. x \<noteq> c) (rev s))) else None)"

lemma split_not_Nil [simp]: "split_at_char c s \<noteq> []"
  by (induction s) (auto split: list.split)

lemma split_none: "c \<notin> set s \<Longrightarrow> split_at_char c s = [s]"
  by (induction s) auto

lemma split_sep: "c \<notin> set s \<Longrightarrow> split_at_char c (s @ c # t) = s # split_at_char c t"
  by (induction s) auto

lemma takeWhile_no: "c \<notin> set s \<Longrightarrow> takeWhile (\<lambda>x. x \<noteq> c) (s @ c # t) = s"
  by (induction s) auto

lemma last_index_sep: "c \<notin> set t \<Longrightarrow> last_index_byte c (s @ c # t) = Some (length s)"
  using takeWhile_no [of c "rev t" "rev s"] by (simp add: last_index_byte_def)

lemma index_sep: "c \<notin> set s \<Longrightarrow> index_byte c (s @ c # t) = Some (length s)"
  by (simp add: index_byte_def takeWhile_no)

lemma index_none: "index_byte c s = None \<longleftrightarrow> c \<notin> set s"
  by (simp add: index_byte_def)

end
