(* ===== verification/Selector.thy ===== *)
theory Selector
  imports Rcache Strconv
begin

text \<open>
  \<^verbatim>\<open>selector/\<close>: choosing a node of a service.

  Representation. A \<open>Next\<close> is a closure: the constructor says which strategy made it, its arguments are
  the variables it captured (the list of nodes; for \<open>RoundRobin\<close> also the counter, a signed 64-bit \<open>int\<close>).
  The package variable \<open>selectKey\<close> (\<open>uint\<close>, 64 bits) is passed and returned; what \<open>rand.Int()\<close> draws and
  the wall clock (seconds) are arguments. An index out of range is a panic, \<open>None\<close>.
  The registry behind the selector is the interface \<open>service_source\<close>; the cache provides it.
\<close>

datatype sel_error = ErrNotFound | ErrNoneAvailable

datatype 'e select_error = SelSource 'e | SelErr sel_error

datatype Next =
    NextRandom "Node list"
  | NextRoundRobin "Node list" uint64
  | NextNotFound
  | NextRoundBin "Node list"

type_synonym Filter = "Service list \<Rightarrow> Service list"

type_synonym Strategy = "Service list \<Rightarrow> Next"

subsection \<open>Filters\<close>

fun has_endpoint :: "string \<Rightarrow> Endpoint list \<Rightarrow> bool" where
  "has_endpoint name [] = False"
| "has_endpoint name (ep # eps) = (if epName ep = name then True else has_endpoint name eps)"

fun FilterEndpoint :: "string \<Rightarrow> Filter" where
  "FilterEndpoint name [] = []"
| "FilterEndpoint name (service # old) =
     (if has_endpoint name (svEndpoints service) then service # FilterEndpoint name old
      else FilterEndpoint name old)"

definition has_label :: "string \<Rightarrow> string \<Rightarrow> Node \<Rightarrow> bool" where
  \<comment> \<open>a missing key reads as the empty string\<close>
  "has_label key val node =
     (case ndMetadata node of
        None \<Rightarrow> False
      | Some m \<Rightarrow> (case m key of None \<Rightarrow> [] | Some v \<Rightarrow> v) = val)"

fun FilterLabel :: "string \<Rightarrow> string \<Rightarrow> Filter" where
  "FilterLabel key val [] = []"
| "FilterLabel key val (service # old) =
     (let nodes = filter (has_label key val) (svNodes service)
      in if length nodes > 0 then service\<lparr>svNodes := nodes\<rparr> # FilterLabel key val old
         else FilterLabel key val old)"

fun FilterVersion :: "string \<Rightarrow> Filter" where
  "FilterVersion version [] = []"
| "FilterVersion version (service # old) =
     (if svVersion service = version then service # FilterVersion version old
      else FilterVersion version old)"

subsection \<open>Strategies\<close>

definition all_nodes :: "Service list \<Rightarrow> Node list" where
  "all_nodes services = concat (map svNodes services)"

definition Random :: Strategy where
  "Random services = NextRandom (all_nodes services)"

definition RoundRobin :: "nat \<Rightarrow> Strategy" where
  \<comment> \<open>given what \<open>rand.Int()\<close> draws\<close>
  "RoundRobin r services = NextRoundRobin (all_nodes services) (of_nat r)"

definition HeartBeatTTL :: int where
  \<comment> \<open>in seconds\<close>
  "HeartBeatTTL = 60"

definition meta :: "Node \<Rightarrow> string \<Rightarrow> string option" where
  \<comment> \<open>reading a \<open>nil\<close> map finds nothing\<close>
  "meta node key = (case ndMetadata node of None \<Rightarrow> None | Some m \<Rightarrow> m key)"

definition bHealthNodesByWeights :: "int \<Rightarrow> Node \<Rightarrow> bool" where
  \<comment> \<open>the sum of the timestamp and the TTL is an \<open>int64\<close>\<close>
  "bHealthNodesByWeights timeNow node =
     (if case meta node ''timestamp'' of
           None \<Rightarrow> False
         | Some ts \<Rightarrow> sint (of_int (ParseInt ts) + of_int HeartBeatTTL :: 64 word) < timeNow
      then False
      else case meta node ServiceStatus of
        None \<Rightarrow> True
      | Some status \<Rightarrow> if status \<noteq> NormalState then False else True)"

definition bDeletedNodes :: "Node \<Rightarrow> bool" where
  "bDeletedNodes node =
     (case meta node ServiceStatus of
        None \<Rightarrow> False
      | Some status \<Rightarrow> if status = DeleteState then True else False)"

fun split_nodes :: "int \<Rightarrow> Node list \<Rightarrow> Node list \<times> Node list" where
  \<comment> \<open>the loop over the nodes: the healthy and the deleted ones\<close>
  "split_nodes now [] = ([], [])"
| "split_nodes now (node # ns) =
     (let (nodes, delNodes) = split_nodes now ns
      in if bHealthNodesByWeights now node then (node # nodes, delNodes)
         else if bDeletedNodes node then (nodes, node # delNodes)
         else (nodes, delNodes))"

definition RoundBinSelect :: "int \<Rightarrow> Strategy" where
  "RoundBinSelect now services =
     (if length services = 0 then NextNotFound
      else
        let (nodes, delNodes) = split_nodes now (all_nodes services)
        in if length nodes = 0 then
             if length delNodes = 0 then NextNotFound else NextRoundBin delNodes
           else NextRoundBin nodes)"

fun next_call ::
  "nat \<Rightarrow> Next \<times> uint64 \<Rightarrow> ((sel_error + Node) \<times> Next \<times> uint64) option" where
  \<comment> \<open>calling the closure, with the draw of \<open>rand.Int()\<close> and the variable \<open>selectKey\<close>\<close>
  "next_call r (NextRandom nodes, key) =
     (if length nodes = 0 then Some (Inl ErrNoneAvailable, NextRandom nodes, key)
      else if length nodes = 1 then Some (Inr (nodes ! 0), NextRandom nodes, key)
      else do { n \<leftarrow> go_index nodes (int r mod int (length nodes)); Some (Inr n, NextRandom nodes, key) })"
| "next_call r (NextRoundRobin nodes i, key) =
     (if length nodes = 0 then Some (Inl ErrNoneAvailable, NextRoundRobin nodes i, key)
      else do {
        node \<leftarrow> go_index nodes (go_rem (sint i) (int (length nodes)));
        Some (Inr node, NextRoundRobin nodes (i + 1), key) })"
| "next_call r (NextNotFound, key) = Some (Inl ErrNotFound, NextNotFound, key)"
| "next_call r (NextRoundBin nodes, key) = do {
     let key = key + 1;
     node \<leftarrow> go_index nodes (uint key mod int (length nodes));
     Some (Inr node, NextRoundBin nodes, key) }"

fun next_calls :: "nat list \<Rightarrow> Next \<times> uint64 \<Rightarrow> (sel_error + Node) list option" where
  \<comment> \<open>one call after the other\<close>
  "next_calls [] s = Some []"
| "next_calls (r # rs) s = do { (x, s') \<leftarrow> next_call r s; xs \<leftarrow> next_calls rs s'; Some (x # xs) }"

subsection \<open>The selector\<close>

record SelectOptions =
  soFilters :: "Filter list"
  soStrategy :: Strategy

definition WithFilter :: "Filter list \<Rightarrow> SelectOptions \<Rightarrow> SelectOptions" where
  "WithFilter fn o' = o'\<lparr>soFilters := soFilters o' @ fn\<rparr>"

definition WithStrategy :: "Strategy \<Rightarrow> SelectOptions \<Rightarrow> SelectOptions" where
  "WithStrategy fn o' = o'\<lparr>soStrategy := fn\<rparr>"

record selector_options =
  soptStrategy :: Strategy
  soptTtl :: "int option" \<comment> \<open>the value \<open>selector_ttl\<close> of the context\<close>

definition SetStrategy :: "Strategy \<Rightarrow> selector_options \<Rightarrow> selector_options" where
  "SetStrategy fn o' = o'\<lparr>soptStrategy := fn\<rparr>"

record registrySelector =
  rsOptions :: selector_options
  rsCache :: cache

definition newRCache :: "selector_options \<Rightarrow> cache" where
  "newRCache so = New_cache (case soptTtl so of None \<Rightarrow> [] | Some t \<Rightarrow> [WithTTL t])"

definition NewSelector :: "(selector_options \<Rightarrow> selector_options) list \<Rightarrow> registrySelector" where
  "NewSelector opts =
     (let so = fold (\<lambda>f. f) opts \<lparr>soptStrategy = Random, soptTtl = None\<rparr>
      in \<lparr>rsOptions = so, rsCache = newRCache so\<rparr>)"

definition sel_Init :: "(selector_options \<Rightarrow> selector_options) list \<Rightarrow> registrySelector \<Rightarrow> registrySelector \<times> cache" where
  \<comment> \<open>with the old cache, which is stopped\<close>
  "sel_Init opts c =
     (let so = fold (\<lambda>f. f) opts (rsOptions c)
      in (c\<lparr>rsOptions := so, rsCache := newRCache so\<rparr>, rc_Stop (rsCache c)))"

definition sel_Close :: "registrySelector \<Rightarrow> registrySelector" where
  "sel_Close c = c\<lparr>rsCache := rc_Stop (rsCache c)\<rparr>"

definition select_from ::
  "(string \<Rightarrow> 'c \<Rightarrow> ('e + Service list) \<times> 'c) \<Rightarrow> SelectOptions \<Rightarrow> string \<Rightarrow> 'c \<Rightarrow>
   ('e select_error + Next) \<times> 'c" where
  \<comment> \<open>\<open>Select\<close> after its options, over any source of services\<close>
  "select_from getService sopts service c =
     (case getService service c of
        (Inl err, c') \<Rightarrow> (Inl (SelSource err), c')
      | (Inr services, c') \<Rightarrow>
          let services = fold (\<lambda>f. f) (soFilters sopts) services
          in (if length services = 0 then Inl (SelErr ErrNoneAvailable)
              else Inr (soStrategy sopts services), c'))"

definition Select ::
  "(string \<Rightarrow> 'e + Service list) \<Rightarrow> int \<Rightarrow> int \<Rightarrow> (SelectOptions \<Rightarrow> SelectOptions) list \<Rightarrow> string \<Rightarrow>
   registrySelector \<Rightarrow> ('e rc_error select_error + Next) \<times> registrySelector" where
  "Select reg now now' opts service c =
     (let sopts = fold (\<lambda>f. f) opts \<lparr>soFilters = [], soStrategy = soptStrategy (rsOptions c)\<rparr>;
          (r, rc) = select_from (rc_GetService reg now now') sopts service (rsCache c)
      in (r, c\<lparr>rsCache := rc\<rparr>))"

subsection \<open>Sources of services\<close>

text \<open>What the selector relies on: a source that answers at all has at least one service.\<close>

locale service_source =
  fixes getService :: "string \<Rightarrow> 'c \<Rightarrow> ('e + Service list) \<times> 'c"
  assumes services_found: "getService name c = (Inr ss, c') \<Longrightarrow> ss \<noteq> []"
begin

lemma select_unfiltered:
  assumes "soFilters sopts = []"
  shows "fst (select_from getService sopts name c) =
    (case fst (getService name c) of Inl err \<Rightarrow> Inl (SelSource err) | Inr ss \<Rightarrow> Inr (soStrategy sopts ss))"
  using assms services_found [of name c]
  by (auto simp: select_from_def split: prod.split sum.split)

lemma select_none_available:
  assumes "fst (select_from getService sopts name c) = Inl (SelErr e)"
  shows "e = ErrNoneAvailable \<and> soFilters sopts \<noteq> []"
  using assms select_unfiltered [of sopts name c]
  by (auto simp: select_from_def Let_def split: prod.splits sum.splits if_splits)

end

interpretation rcs: service_source "rc_GetService reg now now'" for reg now now'
  by unfold_locales (auto simp: rc_GetService_def split: prod.splits sum.splits if_splits)

subsection \<open>Filters only remove nodes\<close>

lemma FilterVersion_nodes: "set (all_nodes (FilterVersion v ss)) \<subseteq> set (all_nodes ss)"
  by (induction ss) (auto simp: all_nodes_def)

lemma FilterEndpoint_nodes: "set (all_nodes (FilterEndpoint e ss)) \<subseteq> set (all_nodes ss)"
  by (induction ss) (auto simp: all_nodes_def)

lemma FilterLabel_nodes:
  "set (all_nodes (FilterLabel k v ss)) = {n \<in> set (all_nodes ss). has_label k v n}"
  by (induction ss) (auto simp: all_nodes_def Let_def filter_empty_conv)

subsection \<open>The round-robin strategies\<close>

lemma split_nodes_filter:
  "split_nodes now ns =
     (filter (bHealthNodesByWeights now) ns, filter (\<lambda>n. \<not> bHealthNodesByWeights now n \<and> bDeletedNodes n) ns)"
  by (induction ns) auto

lemma RoundBinSelect_healthy:
  assumes "n \<in> set (all_nodes ss)" and "bHealthNodesByWeights now n"
  shows "RoundBinSelect now ss = NextRoundBin (filter (bHealthNodesByWeights now) (all_nodes ss))"
  using assms by (auto simp: RoundBinSelect_def split_nodes_filter filter_empty_conv all_nodes_def)

lemma deleted_not_healthy:
  "ndMetadata n = Some m \<Longrightarrow> m ServiceStatus = Some DeleteState \<Longrightarrow> \<not> bHealthNodesByWeights now n"
  by (simp add: bHealthNodesByWeights_def meta_def NormalState_def DeleteState_def)

lemma next_call_RoundBin:
  assumes "nodes \<noteq> []"
  shows "next_call r (NextRoundBin nodes, key) =
    Some (Inr (nodes ! (unat (key + 1) mod length nodes)), NextRoundBin nodes, key + 1)"
proof -
  have "uint k mod int (length nodes) = int (unat k mod length nodes)" for k :: uint64
    by (simp only: zmod_int uint_nat)
  with assms show ?thesis by (simp only: next_call.simps Let_def go_index_nat) simp
qed

lemma next_call_RoundRobin:
  assumes "nodes \<noteq> []" and "unat i < 2 ^ 63"
  shows "next_call r (NextRoundRobin nodes i, key) =
    Some (Inr (nodes ! (unat i mod length nodes)), NextRoundRobin nodes (i + 1), key)"
proof -
  have u: "uint i = int (unat i)" by (rule uint_nat)
  have "int (unat i) < 2 ^ 63" using assms(2) by (metis of_nat_less_iff of_nat_numeral of_nat_power)
  then have "uint i < 2 ^ 63" by (simp only: u)
  then have "sint i = uint i" unfolding sint_uint
    by (intro signed_take_bit_int_eq_self) (simp_all add: order_trans [OF _ uint_ge_0])
  with u have "sint i = int (unat i)" by (simp only:)
  moreover have "go_rem (int k) (int (length nodes)) = int (k mod length nodes)" for k
    by (cases "k = 0") (simp_all add: go_rem_def zmod_int)
  ultimately show ?thesis using assms(1) by (simp only: next_call.simps go_index_nat) simp
qed

text \<open>The nodes returned by \<open>m\<close> calls that start at counter \<open>k\<close>.\<close>

definition turns :: "'a list \<Rightarrow> nat \<Rightarrow> nat \<Rightarrow> 'a list" where
  "turns nodes k m = map (\<lambda>j. nodes ! ((k + j) mod length nodes)) [0..<m]"

lemma turns_Suc: "turns nodes k (Suc m) = nodes ! (k mod length nodes) # turns nodes (Suc k) m"
  by (simp add: turns_def upt_conv_Cons flip: map_Suc_upt del: upt_Suc)

lemma turns_round: "turns nodes k (length nodes) = rotate k nodes"
  by (rule nth_equalityI) (simp_all add: turns_def nth_rotate add.commute)

lemma turns_add: "turns nodes k (m + m') = turns nodes k m @ turns nodes (k + m) m'"
proof (induction m arbitrary: k)
  case 0
  show ?case by (simp add: turns_def)
next
  case (Suc m)
  then show ?case by (simp add: turns_Suc)
qed

lemma mset_rotate_eq: "mset (rotate k xs) = mset xs"
  by (metis append_take_drop_id mset_append rotate_drop_take union_commute)

lemma mset_turns: "mset (turns nodes k (q * length nodes)) = repeat_mset q (mset nodes)"
  by (induction q arbitrary: k) (simp_all add: turns_def [of _ _ 0] turns_add turns_round mset_rotate_eq)

lemma unat_Suc64: "unat (k :: uint64) + 1 < 2 ^ 64 \<Longrightarrow> unat (k + 1) = Suc (unat k)"
  using unat_add_lem [of k 1] by simp

lemma next_calls_RoundBin:
  assumes "nodes \<noteq> []" and "unat key + length rs < 2 ^ 64"
  shows "next_calls rs (NextRoundBin nodes, key) = Some (map Inr (turns nodes (Suc (unat key)) (length rs)))"
  using assms(2)
proof (induction rs arbitrary: key)
  case (Cons r rs)
  then have "unat (key + 1) = Suc (unat key)" by (intro unat_Suc64) simp
  with Cons assms(1) show ?case by (simp add: next_call_RoundBin turns_Suc del: next_call.simps)
qed (simp add: turns_def)

lemma next_calls_RoundRobin:
  assumes "nodes \<noteq> []" and "unat i + length rs \<le> 2 ^ 63"
  shows "next_calls rs (NextRoundRobin nodes i, key) = Some (map Inr (turns nodes (unat i) (length rs)))"
  using assms(2)
proof (induction rs arbitrary: i)
  case (Cons r rs)
  then have "unat (i + 1) = Suc (unat i)" by (intro unat_Suc64) simp
  with Cons assms(1) show ?case by (simp add: next_call_RoundRobin turns_Suc del: next_call.simps)
qed (simp add: turns_def)

text \<open>C14. Both round-robin strategies are fair and do not fail: as long as the counter does not wrap,
  \<open>q\<close> rounds of calls return every node exactly \<open>q\<close> times (as often as it is listed). \<open>RoundRobin\<close> goes
  round all nodes of the services; \<open>RoundBinSelect\<close>, when at least one node is healthy, goes round
  exactly the healthy ones.\<close>

theorem round_robin_fair:
  assumes "nodes = all_nodes services" and "healthy = filter (bHealthNodesByWeights now) nodes" and "healthy \<noteq> []"
    and "length rs = q * length nodes" and "r + length rs \<le> 2 ^ 63"
    and "length rs' = q * length healthy" and "unat key + length rs' < 2 ^ 64"
  shows "map_option mset (next_calls rs (RoundRobin r services, key)) =
      Some (image_mset Inr (repeat_mset q (mset nodes))) \<and>
    map_option mset (next_calls rs' (RoundBinSelect now services, key)) =
      Some (image_mset Inr (repeat_mset q (mset healthy)))"
proof -
  obtain n where n: "n \<in> set (all_nodes services)" "bHealthNodesByWeights now n"
    using assms(1-3) by (auto simp: filter_empty_conv)
  have "unat (of_nat r :: uint64) = r" using assms(5) by (simp add: unat_of_nat)
  moreover have "nodes \<noteq> []" using n assms(1) by auto
  ultimately have "next_calls rs (RoundRobin r services, key) = Some (map Inr (turns nodes r (length rs)))"
    using next_calls_RoundRobin [of nodes "of_nat r" rs key] assms(1,5) by (simp add: RoundRobin_def)
  moreover have "next_calls rs' (RoundBinSelect now services, key) = Some (map Inr (turns healthy (Suc (unat key)) (length rs')))"
    using next_calls_RoundBin [OF assms(3,7)] RoundBinSelect_healthy [OF n] assms(1,2) by simp
  ultimately show ?thesis
    by (simp add: assms(4,6) mset_turns)
qed

definition ex_ns :: "Node list" where
  "ex_ns = [ex_node ''a'' [''timestamp'' \<mapsto> ''100''], ex_node ''b'' Map.empty, ex_node ''c'' [ServiceStatus \<mapsto> ''deleted'']]"

lemma ex_ns_healthy: "map (bHealthNodesByWeights 150) ex_ns = [True, True, False]"
  by (simp add: ex_ns_def ex_node_def bHealthNodesByWeights_def meta_def ParseInt_def HeartBeatTTL_def ServiceStatus_def
      NormalState_def)

theorem round_robin_fair_witness:
  "map_option mset (next_calls [0, 0, 0, 0, 0, 0] (RoundRobin 7 [ex_service ''1'' ex_ns], 5)) =
      Some (image_mset Inr (repeat_mset 2 (mset ex_ns))) \<and>
    map_option mset (next_calls [0, 0, 0, 0] (RoundBinSelect 150 [ex_service ''1'' ex_ns], 5)) =
      Some (image_mset Inr (repeat_mset 2 (mset (take 2 ex_ns))))"
proof (rule round_robin_fair)
  show "ex_ns = all_nodes [ex_service ''1'' ex_ns]" by (simp add: all_nodes_def ex_service_def)
  obtain a b c where abc: "ex_ns = [a, b, c]" by (simp add: ex_ns_def)
  show "take 2 ex_ns = filter (bHealthNodesByWeights 150) ex_ns"
    using ex_ns_healthy unfolding abc by simp
qed (simp_all add: ex_ns_def)

end
