(* ===== verification/Slab.thy ===== *)
theory Slab
  imports Prelude
begin

unbundle bit_operations_syntax

text \<open>
  \<^verbatim>\<open>util/mem/SlabBuffer.go\<close>, with the aligned allocation of \<^verbatim>\<open>util/mem/directio.go\<close>: a growing buffer of
  bytes with a read and a write position.

  Representation. The code depends on the capacity of its slice: \<open>sbBack\<close> is the array behind the slice from
  its first byte on, so that its length is the capacity, and \<open>sbLen\<close> is the length of the slice. The
  address that the runtime gives a new array matters for aligned buffers only; it is the argument
  \<open>addr\<close>. \<open>None\<close> is a panic. A slice returned by \<open>Next\<close> is its contents at that moment. The lock makes
  every operation one step.

  The buffer is shown to be a first-in first-out queue of bytes for every sequence of the operations that read and write the queue, with a
  bound on the bytes written that excludes the panic \<open>ErrTooLarge\<close>, and a bound on its capacity.
\<close>

record SlabBuffer =
  sbBack :: "byte list"
  sbLen :: nat
  sbNil :: bool
  sbOff :: nat
  sbOn :: nat
  sbAlign :: bool

definition smallBufferSize :: nat where "smallBufferSize = 409600"

definition maxInt :: int where "maxInt = 2 ^ 63 - 1"

definition blockSize :: nat where "blockSize = 512"

definition defaultBufSize :: int where "defaultBufSize = 8192"

definition align :: "nat \<Rightarrow> nat" where
  \<comment> \<open>of the address of the first byte\<close>
  "align addr = addr mod blockSize"

definition allocAlignedBuf :: "nat \<Rightarrow> nat \<Rightarrow> (byte list \<times> nat) option" where
  \<comment> \<open>the array from the aligned byte on and the length of the slice; \<open>None\<close> is the error\<close>
  "allocAlignedBuf addr n =
     (if n = 0 then None
      else let buf = replicate (n + blockSize) 0;
               a1 = align addr;
               offset = (if a1 \<noteq> 0 then blockSize - a1 else 0);
               back = drop offset buf
           in if a1 = 0 then Some (back, n)
              else if align (addr + offset) \<noteq> 0 then None
              else Some (back, n))"

definition alignSize :: "int \<Rightarrow> int" where
  "alignSize iSize =
     (let iSize = (if go_rem iSize (int blockSize) \<noteq> 0 then iSize AND (- int blockSize) else iSize)
      in if iSize < defaultBufSize then defaultBufSize else iSize)"

definition set_buf :: "(byte list \<times> nat) option \<Rightarrow> SlabBuffer \<Rightarrow> SlabBuffer" where
  \<comment> \<open>\<open>s.buf, _ = allocAlignedBuf(...)\<close>: \<open>nil\<close> on an error\<close>
  "set_buf b s =
     (case b of
        None \<Rightarrow> s\<lparr>sbBack := [], sbLen := 0, sbNil := True\<rparr>
      | Some (back, n) \<Rightarrow> s\<lparr>sbBack := back, sbLen := n, sbNil := False\<rparr>)"

definition zero_slab :: SlabBuffer where
  "zero_slab = \<lparr>sbBack = [], sbLen = 0, sbNil = True, sbOff = 0, sbOn = 0, sbAlign = False\<rparr>"

definition NewSlabBuff :: SlabBuffer where
  "NewSlabBuff = zero_slab\<lparr>sbBack := replicate smallBufferSize 0, sbLen := smallBufferSize, sbNil := False\<rparr>"

definition NewSlabBuffInit :: "int \<Rightarrow> SlabBuffer option" where
  \<comment> \<open>\<open>make\<close> panics on a negative length\<close>
  "NewSlabBuffInit iSize =
     (if iSize < 0 then None
      else Some (zero_slab\<lparr>sbBack := replicate (nat iSize) 0, sbLen := nat iSize, sbNil := False\<rparr>))"

definition NewSlabBuffInitAlign :: "nat \<Rightarrow> int \<Rightarrow> SlabBuffer" where
  "NewSlabBuffInitAlign addr iSize =
     set_buf (allocAlignedBuf addr (nat (alignSize iSize))) (zero_slab\<lparr>sbAlign := True\<rparr>)"

definition BytesUnread :: "SlabBuffer \<Rightarrow> byte list option" where
  "BytesUnread s = get_slice (sbOff s) (sbOn s) (sbBack s)"

definition BytesUnreadLength :: "SlabBuffer \<Rightarrow> int" where
  "BytesUnreadLength s = int (sbOn s) - int (sbOff s)"

definition sb_Empty :: "SlabBuffer \<Rightarrow> bool" where
  "sb_Empty s \<longleftrightarrow> sbOn s \<le> sbOff s \<or> sbNil s"

definition sb_Len :: "SlabBuffer \<Rightarrow> int" where
  "sb_Len s = int (sbLen s) - int (sbOff s)"

definition sb_Cap :: "SlabBuffer \<Rightarrow> nat" where
  "sb_Cap s = length (sbBack s)"

definition BytesWritten :: "SlabBuffer \<Rightarrow> byte list option" where
  "BytesWritten s = get_slice 0 (sbOn s) (sbBack s)"

definition BytesWrittenLen :: "SlabBuffer \<Rightarrow> nat" where
  "BytesWrittenLen s = sbOn s"

definition sb_isFull :: "SlabBuffer \<Rightarrow> bool" where
  "sb_isFull s \<longleftrightarrow> int (sbOn s) \<ge> int (sbLen s) - 1"

definition isEnough :: "nat \<Rightarrow> SlabBuffer \<Rightarrow> bool" where
  "isEnough increment s \<longleftrightarrow> int (sbOn s + increment) \<le> int (sbLen s) - 1"

definition sb_reset :: "SlabBuffer \<Rightarrow> SlabBuffer" where
  \<comment> \<open>also \<open>Reset\<close>, which takes the lock around it\<close>
  "sb_reset s = s\<lparr>sbLen := 0, sbOff := 0, sbOn := 0\<rparr>"

definition ResetOffOnUnSafe :: "SlabBuffer \<Rightarrow> SlabBuffer" where
  "ResetOffOnUnSafe s = s\<lparr>sbOff := 0, sbOn := 0\<rparr>"

definition tryGrowByReSlice :: "nat \<Rightarrow> SlabBuffer \<Rightarrow> (nat \<times> bool) \<times> SlabBuffer" where
  "tryGrowByReSlice n s =
     (if int n \<le> int (sb_Cap s) - int (sbLen s) then ((sbLen s, True), s\<lparr>sbLen := sbLen s + n\<rparr>)
      else ((0, False), s))"

definition grow_restore :: "int \<Rightarrow> nat \<Rightarrow> SlabBuffer \<Rightarrow> (int \<times> SlabBuffer) option" where
  \<comment> \<open>the end of \<open>grow\<close>: the positions and the length of the slice\<close>
  "grow_restore m n s =
     (let s = s\<lparr>sbOn := sbOn s - sbOff s, sbOff := 0\<rparr>
      in if 0 \<le> m + int n \<and> m + int n \<le> int (sb_Cap s) then Some (m, s\<lparr>sbLen := nat (m + int n)\<rparr>) else None)"

definition grow_alloc :: "nat \<Rightarrow> nat \<Rightarrow> SlabBuffer \<Rightarrow> SlabBuffer" where
  \<comment> \<open>the new array of \<open>grow\<close>\<close>
  "grow_alloc addr n s =
     (let c = sb_Cap s
      in if sbAlign s then set_buf (allocAlignedBuf addr (nat (alignSize (int (2 * c + n))))) s
         else s\<lparr>sbBack := replicate (2 * c + n) 0, sbLen := 2 * c + n, sbNil := False\<rparr>)"

definition grow_body :: "nat \<Rightarrow> nat \<Rightarrow> int \<Rightarrow> SlabBuffer \<Rightarrow> (int \<times> SlabBuffer) option" where
  \<comment> \<open>\<open>grow\<close> after its reset\<close>
  "grow_body addr n m s =
     (case tryGrowByReSlice n s of
        ((i, True), s) \<Rightarrow> Some (int i, s)
      | ((_, False), s) \<Rightarrow>
          if sbNil s \<and> n \<le> smallBufferSize then
            Some (0, if sbAlign s then set_buf (allocAlignedBuf addr (nat (alignSize (int n)))) s
                     else s\<lparr>sbBack := replicate smallBufferSize 0, sbLen := n, sbNil := False\<rparr>)
          else
            let c = sb_Cap s
            in if int n \<le> int c div 2 - m then do {
                 tl \<leftarrow> get_slice (sbOff s) (sbLen s) (sbBack s);
                 grow_restore m n (s\<lparr>sbBack := go_copy 0 tl (sbBack s)\<rparr>) }
               else if int c > maxInt - int c - int n then None
               else do {
                 let new = grow_alloc addr n s;
                 tl \<leftarrow> get_slice (sbOff s) (sbLen s) (sbBack s);
                 grow_restore m n (new\<lparr>sbBack := go_copy 0 (take (sbLen new) tl) (sbBack new)\<rparr>) })"

definition grow :: "nat \<Rightarrow> nat \<Rightarrow> SlabBuffer \<Rightarrow> (int \<times> SlabBuffer) option" where
  "grow addr n s =
     (let m = sb_Len s;
          s = (if m = 0 \<and> sbOff s \<noteq> 0 then sb_reset s else s)
      in grow_body addr n m s)"

definition WriteUnsafeDirectly :: "nat \<Rightarrow> byte list \<Rightarrow> SlabBuffer \<Rightarrow> (nat \<times> SlabBuffer) option" where
  \<comment> \<open>the error is always \<open>nil\<close>\<close>
  "WriteUnsafeDirectly addr p s = do {
     s \<leftarrow> (if \<not> isEnough (length p) s then
            case tryGrowByReSlice (length p) s of
              ((_, True), s) \<Rightarrow> Some s
            | ((_, False), s) \<Rightarrow> map_option snd (grow addr (length p) s)
          else Some s);
     dst \<leftarrow> get_slice (sbOn s) (sbLen s) (sbBack s);
     let count = min (length dst) (length p);
     Some (count, s\<lparr>sbBack := go_copy (sbOn s) (take count p) (sbBack s), sbOn := sbOn s + count\<rparr>)
   }"

definition sb_Write :: "nat \<Rightarrow> byte list \<Rightarrow> SlabBuffer \<Rightarrow> (nat \<times> SlabBuffer) option" where
  "sb_Write addr p s = WriteUnsafeDirectly addr p s"

definition sb_Read :: "nat \<Rightarrow> SlabBuffer \<Rightarrow> ((byte list \<times> bool) \<times> SlabBuffer) option" where
  \<comment> \<open>into a slice of the given length: the bytes copied, and whether the error is \<open>io.EOF\<close>\<close>
  "sb_Read bufLen s =
     (if sb_Empty s then
        let s = sb_reset s in if bufLen = 0 then Some (([], False), s) else Some (([], True), s)
      else
        let m = sbOn s - sbOff s
        in if m \<le> 0 then Some (([], True), s)
           else
             let bufLen = (if m < bufLen then m else bufLen)
             in if bufLen \<le> 0 then Some (([], True), s)
                else do {
                  d \<leftarrow> get_slice (sbOff s) (sbOff s + bufLen) (sbBack s);
                  Some ((d, False), s\<lparr>sbOff := sbOff s + bufLen\<rparr>) })"

definition sb_Next :: "int \<Rightarrow> SlabBuffer \<Rightarrow> (byte list \<times> SlabBuffer) option" where
  "sb_Next n s =
     (let m = int (sbOn s) - int (sbOff s);
          n = (if n > m then m else n)
      in if n < 0 then None
         else do {
           d \<leftarrow> get_slice (sbOff s) (sbOff s + nat n) (sbBack s);
           Some (d, s\<lparr>sbOff := sbOff s + nat n\<rparr>) })"

subsection \<open>The queue a client sees\<close>

datatype slab_op =
    Write nat "byte list" | Read nat | NextBytes int | Reset | ResetOffOn | Unread | UnreadLength | IsEmpty

datatype slab_out = Count nat | Bytes "byte list" | BytesEOF "byte list" bool | Amount int | Flag bool | Done

fun slab_step :: "slab_op \<Rightarrow> SlabBuffer \<Rightarrow> (slab_out \<times> SlabBuffer) option" where
  "slab_step (Write addr p) s = map_option (apfst Count) (sb_Write addr p s)"
| "slab_step (Read n) s = map_option (apfst (\<lambda>(d, eof). BytesEOF d eof)) (sb_Read n s)"
| "slab_step (NextBytes n) s = map_option (apfst Bytes) (sb_Next n s)"
| "slab_step Reset s = Some (Done, sb_reset s)"
| "slab_step ResetOffOn s = Some (Done, ResetOffOnUnSafe s)"
| "slab_step Unread s = map_option (\<lambda>d. (Bytes d, s)) (BytesUnread s)"
| "slab_step UnreadLength s = Some (Amount (BytesUnreadLength s), s)"
| "slab_step IsEmpty s = Some (Flag (sb_Empty s), s)"

fun fifo_step :: "slab_op \<Rightarrow> byte list \<Rightarrow> (slab_out \<times> byte list) option" where
  \<comment> \<open>the specification: a queue of bytes. Reading nothing is an end of file unless the queue is empty\<close>
  "fifo_step (Write addr p) q = Some (Count (length p), q @ p)"
| "fifo_step (Read n) q =
     Some (BytesEOF (take n q) (if q = [] then n \<noteq> 0 else n = 0), drop n q)"
| "fifo_step (NextBytes n) q =
     (if n < 0 then None else Some (Bytes (take (nat n) q), drop (nat n) q))"
| "fifo_step Reset q = Some (Done, [])"
| "fifo_step ResetOffOn q = Some (Done, [])"
| "fifo_step Unread q = Some (Bytes q, q)"
| "fifo_step UnreadLength q = Some (Amount (int (length q)), q)"
| "fifo_step IsEmpty q = Some (Flag (q = []), q)"

fun written :: "slab_op list \<Rightarrow> nat" where
  "written [] = 0"
| "written (Write addr p # xs) = length p + written xs"
| "written (x # xs) = written xs"

fun end_state :: "('op \<Rightarrow> 's \<Rightarrow> ('o \<times> 's) option) \<Rightarrow> 'op list \<Rightarrow> 's \<Rightarrow> 's option" where
  \<comment> \<open>the state after a sequence of operations none of which panics\<close>
  "end_state step [] s = Some s"
| "end_state step (x # xs) s = (case step x s of None \<Rightarrow> None | Some (r, s') \<Rightarrow> end_state step xs s')"

definition reports :: "SlabBuffer \<Rightarrow> byte list \<Rightarrow> bool" where
  \<comment> \<open>what the methods that look at the buffer itself tell about the queue \<open>q\<close> in it\<close>
  "reports s q \<longleftrightarrow> (\<exists>r. BytesWritten s = Some (r @ q) \<and> BytesWrittenLen s = length (r @ q)) \<and>
     int (length q) \<le> sb_Len s \<and> sb_Len s \<le> int (sb_Cap s)"

definition unread :: "SlabBuffer \<Rightarrow> byte list" where
  "unread s = slice (sbOff s) (sbOn s) (sbBack s)"

definition slab_inv :: "SlabBuffer \<Rightarrow> bool" where
  "slab_inv s \<longleftrightarrow> sbOff s \<le> sbOn s \<and> sbOn s \<le> sbLen s \<and> sbLen s \<le> sb_Cap s \<and>
     (sbNil s \<longrightarrow> sb_Cap s = 0) \<and> (sbAlign s \<longrightarrow> \<not> sbNil s \<and> 8192 \<le> sb_Cap s)"

subsection \<open>Aligned allocation\<close>

lemma alignSize_bounds: "8192 \<le> alignSize n" "n - 511 \<le> alignSize n" "alignSize n \<le> max 8192 n"
proof -
  have "n AND (- 512) = n - n mod 512" for n :: int
    using and_minus_exp [of n 9] by (simp add: minus_mod_eq_mult_div)
  then show "8192 \<le> alignSize n" "n - 511 \<le> alignSize n" "alignSize n \<le> max 8192 n"
    by (auto simp: alignSize_def Let_def defaultBufSize_def blockSize_def)
qed

lemma align_offset: "align (addr + (blockSize - align addr)) = 0"
proof -
  define q r where "q = addr div 512" and "r = addr mod 512"
  have "addr = 512 * q + r" "r \<le> 512" by (simp_all add: q_def r_def)
  then have "addr + (512 - r) = 512 * (q + 1)" by simp
  then show ?thesis unfolding align_def blockSize_def r_def by (metis mod_mult_self1_is_0)
qed

lemma allocAlignedBuf_ok:
  assumes "n \<noteq> 0"
  obtains bk where "allocAlignedBuf addr n = Some (bk, n)" and "n \<le> length bk" and "length bk \<le> n + 512"
proof -
  define off where "off = (if align addr \<noteq> 0 then blockSize - align addr else 0)"
  have "allocAlignedBuf addr n = Some (drop off (replicate (n + blockSize) 0), n)"
    using assms align_offset [of addr] by (auto simp: allocAlignedBuf_def Let_def off_def simp del: drop_replicate)
  moreover have "off \<le> 512" by (simp add: off_def blockSize_def)
  ultimately show ?thesis using that by (simp add: blockSize_def)
qed

subsection \<open>Growing\<close>

lemma length_unread: "slab_inv s \<Longrightarrow> length (unread s) = sbOn s - sbOff s"
  by (auto simp: unread_def slab_inv_def sb_Cap_def min_def)

lemma grow_restore_ok:
  assumes "sbOff s \<le> sbOn s" and "sbOn s \<le> l" and "l - sbOff s + n \<le> sb_Cap s"
    and "take (l - sbOff s) (sbBack s) = slice (sbOff s) l b" and "l \<le> length b"
    and "\<not> sbNil s" and "sbAlign s \<longrightarrow> 8192 \<le> sb_Cap s"
  obtains s' where "grow_restore (int l - int (sbOff s)) n s = Some (int l - int (sbOff s), s')" and "slab_inv s'"
    and "unread s' = slice (sbOff s) (sbOn s) b" and "sbOn s' + n \<le> sbLen s'" and "sb_Cap s' = sb_Cap s"
proof -
  let ?s' = "s\<lparr>sbOn := sbOn s - sbOff s, sbOff := 0, sbLen := l - sbOff s + n\<rparr>"
  have e: "int l - int (sbOff s) + int n = int (l - sbOff s + n)" using assms(1,2) by simp
  have "grow_restore (int l - int (sbOff s)) n s = Some (int l - int (sbOff s), ?s')"
    unfolding grow_restore_def Let_def e using assms(3) by (simp add: sb_Cap_def)
  moreover have "slab_inv ?s'" using assms by (auto simp: slab_inv_def sb_Cap_def)
  moreover have "unread ?s' = slice (sbOff s) (sbOn s) b"
  proof -
    have "take (sbOn s - sbOff s) (sbBack s) = take (sbOn s - sbOff s) (take (l - sbOff s) (sbBack s))"
      using assms(2) by (simp add: min_def)
    also have "\<dots> = slice (sbOff s) (sbOn s) b" using assms(2) by (simp add: assms(4) slice_def min_def)
    finally show ?thesis by (simp add: unread_def)
  qed
  ultimately show ?thesis using that assms(1,2) by (simp add: sb_Cap_def)
qed

lemma copy_front:
  assumes "length ys \<le> length b"
  shows "take (length ys) (go_copy 0 ys b) = ys" "length (go_copy 0 ys b) = length b"
  using assms by (simp_all add: go_copy_fits)

text \<open>Sliding the contents down, and moving them to a new array.\<close>

lemma grow_slide:
  assumes "slab_inv s" and "\<not> sbNil s" and "int n \<le> int (sb_Cap s) div 2 - sb_Len s"
  obtains i s' where "(do {
        tl \<leftarrow> get_slice (sbOff s) (sbLen s) (sbBack s);
        grow_restore (sb_Len s) n (s\<lparr>sbBack := go_copy 0 tl (sbBack s)\<rparr>) }) = Some (i, s')"
    and "slab_inv s'" and "unread s' = unread s" and "sbOn s' + n \<le> sbLen s'" and "sb_Cap s' = sb_Cap s"
proof -
  let ?tl = "slice (sbOff s) (sbLen s) (sbBack s)"
  let ?s = "s\<lparr>sbBack := go_copy 0 ?tl (sbBack s)\<rparr>"
  from assms(1) have I: "sbOff s \<le> sbOn s" "sbOn s \<le> sbLen s" "sbLen s \<le> length (sbBack s)"
    by (auto simp: slab_inv_def sb_Cap_def)
  have l: "length ?tl = sbLen s - sbOff s" using I by simp
  have c: "take (sbLen s - sbOff s) (sbBack ?s) = slice (sbOff s) (sbLen s) (sbBack s)" "sb_Cap ?s = sb_Cap s"
    using copy_front [of ?tl "sbBack s"] I l by (simp_all add: sb_Cap_def)
  have "sbLen s - sbOff s + n \<le> sb_Cap s" using assms(3) I by (simp add: sb_Len_def)
  then obtain s' where "grow_restore (sb_Len s) n ?s = Some (sb_Len s, s')" "slab_inv s'"
    "unread s' = unread s" "sbOn s' + n \<le> sbLen s'" "sb_Cap s' = sb_Cap s"
    using grow_restore_ok [of ?s "sbLen s" n "sbBack s"] I c assms(1,2)
    by (auto simp: sb_Len_def unread_def slab_inv_def)
  then show ?thesis using that I by simp
qed

lemma grow_move:
  assumes "slab_inv s" and "sbOff new = sbOff s" and "sbOn new = sbOn s" and "sbLen s - sbOff s + n \<le> sbLen new"
    and "sbLen new \<le> sb_Cap new" and "\<not> sbNil new" and "sbAlign new \<longrightarrow> 8192 \<le> sb_Cap new"
  obtains i s' where "(do {
        tl \<leftarrow> get_slice (sbOff s) (sbLen s) (sbBack s);
        grow_restore (sb_Len s) n (new\<lparr>sbBack := go_copy 0 (take (sbLen new) tl) (sbBack new)\<rparr>) }) = Some (i, s')"
    and "slab_inv s'" and "unread s' = unread s" and "sbOn s' + n \<le> sbLen s'" and "sb_Cap s' = sb_Cap new"
proof -
  let ?tl = "slice (sbOff s) (sbLen s) (sbBack s)"
  let ?s = "new\<lparr>sbBack := go_copy 0 ?tl (sbBack new)\<rparr>"
  from assms(1) have I: "sbOff s \<le> sbOn s" "sbOn s \<le> sbLen s" "sbLen s \<le> length (sbBack s)"
    by (auto simp: slab_inv_def sb_Cap_def)
  have l: "length ?tl = sbLen s - sbOff s" using I by simp
  have c: "take (sbLen s - sbOff s) (sbBack ?s) = slice (sbOff s) (sbLen s) (sbBack s)" "sb_Cap ?s = sb_Cap new"
    using copy_front [of ?tl "sbBack new"] assms(4,5) l by (simp_all add: sb_Cap_def)
  obtain s' where "grow_restore (sb_Len s) n ?s = Some (sb_Len s, s')" "slab_inv s'"
    "unread s' = unread s" "sbOn s' + n \<le> sbLen s'" "sb_Cap s' = sb_Cap new"
    using grow_restore_ok [of ?s "sbLen s" n "sbBack s"] I c assms
    by (auto simp: sb_Len_def unread_def)
  moreover have "take (sbLen new) ?tl = ?tl" using l assms(4) by simp
  ultimately show ?thesis using that I by simp
qed

lemma grow_alloc_ok:
  assumes "slab_inv s"
  shows "sbOff (grow_alloc addr n s) = sbOff s" "sbOn (grow_alloc addr n s) = sbOn s"
    "sbLen s - sbOff s + n \<le> sbLen (grow_alloc addr n s)" "sbLen (grow_alloc addr n s) \<le> sb_Cap (grow_alloc addr n s)"
    "\<not> sbNil (grow_alloc addr n s)" "sbAlign (grow_alloc addr n s) \<longrightarrow> 8192 \<le> sb_Cap (grow_alloc addr n s)"
    "sb_Cap (grow_alloc addr n s) \<le> 2 * sb_Cap s + n + 512"
proof -
  let ?c = "sb_Cap s" and ?a = "nat (alignSize (int (2 * sb_Cap s + n)))"
  have I: "sbLen s \<le> ?c" "sbAlign s \<longrightarrow> 8192 \<le> ?c" using assms by (auto simp: slab_inv_def)
  note ab = alignSize_bounds [of "int (2 * ?c + n)"]
  then have "?a \<noteq> 0" by linarith
  from allocAlignedBuf_ok [OF this, of addr] obtain bk where bk: "allocAlignedBuf addr ?a = Some (bk, ?a)"
    "?a \<le> length bk" "length bk \<le> ?a + 512" by blast
  have "sbAlign s \<Longrightarrow> 8192 \<le> ?a \<and> sbLen s - sbOff s + n \<le> ?a \<and> ?a \<le> 2 * ?c + n"
    using ab I by (auto simp: nat_le_iff le_nat_iff)
  then show "sbOff (grow_alloc addr n s) = sbOff s" "sbOn (grow_alloc addr n s) = sbOn s"
    "sbLen s - sbOff s + n \<le> sbLen (grow_alloc addr n s)" "sbLen (grow_alloc addr n s) \<le> sb_Cap (grow_alloc addr n s)"
    "\<not> sbNil (grow_alloc addr n s)" "sbAlign (grow_alloc addr n s) \<longrightarrow> 8192 \<le> sb_Cap (grow_alloc addr n s)"
    "sb_Cap (grow_alloc addr n s) \<le> 2 * sb_Cap s + n + 512"
    using I bk by (auto simp: grow_alloc_def set_buf_def sb_Cap_def Let_def split: if_splits)
qed

definition room :: "nat \<Rightarrow> SlabBuffer \<Rightarrow> SlabBuffer \<Rightarrow> bool" where
  \<comment> \<open>the same contents, with room for \<open>n\<close> more bytes, in a capacity that is linear in their number\<close>
  "room n s s' \<longleftrightarrow> slab_inv s' \<and> unread s' = unread s \<and> sbOn s' + n \<le> sbLen s' \<and>
     sb_Cap s' \<le> max (max (sb_Cap s) smallBufferSize) (4 * length (unread s) + 9 * n + 514)"

lemma tryGrow_room:
  assumes "slab_inv s" and "int n \<le> int (sb_Cap s) - int (sbLen s)"
  shows "tryGrowByReSlice n s = ((sbLen s, True), s\<lparr>sbLen := sbLen s + n\<rparr>)" "room n s (s\<lparr>sbLen := sbLen s + n\<rparr>)"
  using assms by (auto simp: tryGrowByReSlice_def room_def slab_inv_def unread_def sb_Cap_def)

lemma grow_body_ok:
  assumes "slab_inv s" and "sbLen s \<le> sbOn s + n"
    and "4 * int (length (unread s)) + 9 * int n + 2 \<le> maxInt"
  obtains i s' where "grow_body addr n (sb_Len s) s = Some (i, s')" and "room n s s'"
proof -
  let ?U = "length (unread s)" and ?c = "sb_Cap s"
  have I: "sbOff s \<le> sbOn s" "sbOn s \<le> sbLen s" "sbLen s \<le> ?c" "sbNil s \<longrightarrow> ?c = 0" "sbAlign s \<longrightarrow> \<not> sbNil s"
    using assms(1) by (auto simp: slab_inv_def)
  have m: "sb_Len s \<le> int (?U + n)" "0 \<le> sb_Len s"
    using I assms(2) by (simp_all add: sb_Len_def length_unread [OF assms(1)])
  consider "int n \<le> int ?c - int (sbLen s)"
    | "int n > int ?c - int (sbLen s)" "sbNil s" "n \<le> smallBufferSize"
    | "int n > int ?c - int (sbLen s)" "\<not> (sbNil s \<and> n \<le> smallBufferSize)" "int n \<le> int ?c div 2 - sb_Len s"
    | "int n > int ?c - int (sbLen s)" "\<not> (sbNil s \<and> n \<le> smallBufferSize)" "int n > int ?c div 2 - sb_Len s"
    by linarith
  then show ?thesis
  proof cases
    case 1
    from tryGrow_room [OF assms(1) this] show ?thesis using that by (simp add: grow_body_def)
  next
    case 2
    then have "sbLen s = 0" "sbOn s = 0" "sbOff s = 0" "\<not> sbAlign s" using I by auto
    with 2 that show ?thesis
      by (auto simp: grow_body_def tryGrowByReSlice_def room_def slab_inv_def unread_def sb_Cap_def)
  next
    case 3
    then have "\<not> sbNil s" using I m by (auto simp: smallBufferSize_def)
    obtain i s' where
      "(do { tl \<leftarrow> get_slice (sbOff s) (sbLen s) (sbBack s);
        grow_restore (sb_Len s) n (s\<lparr>sbBack := go_copy 0 tl (sbBack s)\<rparr>) }) = Some (i, s')"
      and "slab_inv s'" "unread s' = unread s" "sbOn s' + n \<le> sbLen s'" "sb_Cap s' = sb_Cap s"
      by (rule grow_slide [OF assms(1) \<open>\<not> sbNil s\<close> 3(3)])
    moreover from this(2-5) have "room n s s'" by (simp add: room_def)
    moreover from calculation(1) 3 \<open>\<not> sbNil s\<close> have "grow_body addr n (sb_Len s) s = Some (i, s')"
      by (simp add: grow_body_def tryGrowByReSlice_def Let_def)
    ultimately show ?thesis using that by blast
  next
    case 4
    have c: "int ?c \<le> 2 * int (?U + 2 * n) + 1" using 4(3) m(1) by simp
    then have small: "\<not> int ?c > maxInt - int ?c - int n" using assms(3) by simp
    note a = grow_alloc_ok [OF assms(1), where addr = addr and n = n]
    have "sb_Cap (grow_alloc addr n s) \<le> 4 * ?U + 9 * n + 514" using a(7) c by simp
    moreover obtain i s' where
      "(do { tl \<leftarrow> get_slice (sbOff s) (sbLen s) (sbBack s);
        grow_restore (sb_Len s) n (grow_alloc addr n s\<lparr>sbBack := go_copy 0 (take (sbLen (grow_alloc addr n s)) tl)
          (sbBack (grow_alloc addr n s))\<rparr>) }) = Some (i, s')"
      and "slab_inv s'" "unread s' = unread s" "sbOn s' + n \<le> sbLen s'" "sb_Cap s' = sb_Cap (grow_alloc addr n s)"
      by (rule grow_move [OF assms(1) a(1-6)])
    moreover from calculation(1,3-6) have "room n s s'" by (simp add: room_def)
    moreover from calculation(2) 4 small have "grow_body addr n (sb_Len s) s = Some (i, s')"
      by (simp add: grow_body_def tryGrowByReSlice_def Let_def) metis
    ultimately show ?thesis using that by blast
  qed
qed

lemma grow_ok:
  assumes "slab_inv s" and "sbLen s \<le> sbOn s + n"
    and "4 * int (length (unread s)) + 9 * int n + 2 \<le> maxInt"
  obtains i s' where "grow addr n s = Some (i, s')" and "room n s s'"
proof (cases "sb_Len s = 0 \<and> sbOff s \<noteq> 0")
  case True
  have r: "slab_inv (sb_reset s)" "unread (sb_reset s) = unread s" "sb_Len (sb_reset s) = sb_Len s"
    "sb_Cap (sb_reset s) = sb_Cap s"
    using True assms(1) by (auto simp: slab_inv_def sb_reset_def unread_def slice_def sb_Len_def sb_Cap_def)
  have "sbLen (sb_reset s) \<le> sbOn (sb_reset s) + n" by (simp add: sb_reset_def)
  with r(1) obtain i s' where g: "grow_body addr n (sb_Len (sb_reset s)) (sb_reset s) = Some (i, s')"
    and "room n (sb_reset s) s'"
    by (rule grow_body_ok) (simp add: r assms(3))
  then have "room n s s'" by (simp add: room_def r)
  moreover from g True have "grow addr n s = Some (i, s')" by (simp add: grow_def r Let_def)
  ultimately show ?thesis using that by blast
next
  case False
  obtain i s' where "grow_body addr n (sb_Len s) s = Some (i, s')" and r: "room n s s'"
    by (rule grow_body_ok [OF assms])
  with False have "grow addr n s = Some (i, s')" by (auto simp: grow_def Let_def)
  then show ?thesis using that r by blast
qed

subsection \<open>The operations\<close>

lemma write_room:
  assumes "room (length p) s s1"
    and "s' = s1\<lparr>sbBack := go_copy (sbOn s1) p (sbBack s1), sbOn := sbOn s1 + length p\<rparr>"
  shows "(do {
      dst \<leftarrow> get_slice (sbOn s1) (sbLen s1) (sbBack s1);
      let count = min (length dst) (length p);
      Some (count, s1\<lparr>sbBack := go_copy (sbOn s1) (take count p) (sbBack s1), sbOn := sbOn s1 + count\<rparr>)
    }) = Some (length p, s')"
    and "slab_inv s'" and "unread s' = unread s @ p" and "sb_Cap s' = sb_Cap s1"
proof -
  have I: "sbOff s1 \<le> sbOn s1" "sbOn s1 + length p \<le> sbLen s1" "sbLen s1 \<le> length (sbBack s1)" "slab_inv s1"
    using assms(1) by (auto simp: room_def slab_inv_def sb_Cap_def)
  then have g: "go_copy (sbOn s1) p (sbBack s1) = take (sbOn s1) (sbBack s1) @ p @ drop (sbOn s1 + length p) (sbBack s1)"
    by (intro go_copy_fits) simp
  show "(do {
      dst \<leftarrow> get_slice (sbOn s1) (sbLen s1) (sbBack s1);
      let count = min (length dst) (length p);
      Some (count, s1\<lparr>sbBack := go_copy (sbOn s1) (take count p) (sbBack s1), sbOn := sbOn s1 + count\<rparr>)
    }) = Some (length p, s')"
    using I by (simp add: assms(2) Let_def)
  show "slab_inv s'" "sb_Cap s' = sb_Cap s1" using I by (auto simp: assms(2) slab_inv_def sb_Cap_def go_copy_def)
  have "unread s1 = unread s" using assms(1) by (simp add: room_def)
  then have "drop (sbOff s1) (take (sbOn s1) (sbBack s1)) = unread s" by (simp add: unread_def slice_def drop_take)
  moreover have "unread s' = drop (sbOff s1) (take (sbOn s1) (sbBack s1)) @ p"
    using I by (simp add: assms(2) unread_def g slice_def)
  ultimately show "unread s' = unread s @ p" by simp
qed

lemma sb_Write_ok:
  assumes "slab_inv s" and "4 * int (length (unread s)) + 9 * int (length p) + 2 \<le> maxInt"
  obtains s' where "sb_Write addr p s = Some (length p, s')" and "slab_inv s'" and "unread s' = unread s @ p"
    and "sb_Cap s' \<le> max (max (sb_Cap s) smallBufferSize) (4 * length (unread s) + 9 * length p + 514)"
proof -
  obtain s1 where s1: "(if \<not> isEnough (length p) s then
            case tryGrowByReSlice (length p) s of
              ((_, True), s) \<Rightarrow> Some s
            | ((_, False), s) \<Rightarrow> map_option snd (grow addr (length p) s)
          else Some s) = Some s1" and r: "room (length p) s s1"
  proof (cases "isEnough (length p) s")
    case True
    then have "room (length p) s s" using assms(1) by (auto simp: room_def isEnough_def)
    with True that show ?thesis by simp
  next
    case False
    then have le: "sbLen s \<le> sbOn s + length p" by (simp add: isEnough_def)
    show ?thesis
    proof (cases "int (length p) \<le> int (sb_Cap s) - int (sbLen s)")
      case True
      from tryGrow_room [OF assms(1) True] False that show ?thesis by simp
    next
      case nogrow: False
      obtain i s' where "grow addr (length p) s = Some (i, s')" "room (length p) s s'"
        by (rule grow_ok [OF assms(1) le assms(2)])
      with False nogrow that [of s'] show ?thesis by (simp add: tryGrowByReSlice_def)
    qed
  qed
  note w = write_room [OF r refl]
  have "sb_Write addr p s =
      Some (length p, s1\<lparr>sbBack := go_copy (sbOn s1) p (sbBack s1), sbOn := sbOn s1 + length p\<rparr>)"
    unfolding sb_Write_def WriteUnsafeDirectly_def s1 Option.bind.simps by (rule w(1))
  moreover have "sb_Cap s1 \<le> max (max (sb_Cap s) smallBufferSize) (4 * length (unread s) + 9 * length p + 514)"
    using r by (simp add: room_def)
  ultimately show ?thesis using that w(2-4) by metis
qed

lemma unread_Nil: "slab_inv s \<Longrightarrow> unread s = [] \<longleftrightarrow> sb_Empty s"
  by (auto simp: unread_def slice_def sb_Empty_def slab_inv_def sb_Cap_def)

lemma get_unread:
  assumes "slab_inv s" and "k \<le> length (unread s)"
  shows "get_slice (sbOff s) (sbOff s + k) (sbBack s) = Some (take k (unread s))"
    "slab_inv (s\<lparr>sbOff := sbOff s + k\<rparr>)" "unread (s\<lparr>sbOff := sbOff s + k\<rparr>) = drop k (unread s)"
proof -
  have "sbOff s + k \<le> sbOn s" "sbOn s \<le> length (sbBack s)"
    using assms length_unread [OF assms(1)] by (auto simp: slab_inv_def sb_Cap_def)
  then show "get_slice (sbOff s) (sbOff s + k) (sbBack s) = Some (take k (unread s))"
    "slab_inv (s\<lparr>sbOff := sbOff s + k\<rparr>)" "unread (s\<lparr>sbOff := sbOff s + k\<rparr>) = drop k (unread s)"
    using assms(1) by (auto simp: slab_inv_def unread_def sb_Cap_def slice_def drop_take add.commute)
qed

lemma sb_reset_ok: "slab_inv s \<Longrightarrow> slab_inv (sb_reset s) \<and> unread (sb_reset s) = []"
  by (auto simp: slab_inv_def sb_reset_def unread_def sb_Cap_def)

lemma sb_Read_ok:
  assumes "slab_inv s"
  obtains s' where "sb_Read n s = Some ((take n (unread s), if unread s = [] then n \<noteq> 0 else n = 0), s')"
    and "slab_inv s'" and "unread s' = drop n (unread s)"
proof (cases "unread s = []")
  case True
  then have "sb_Read n s = Some (([], n \<noteq> 0), sb_reset s)"
    using unread_Nil [OF assms] by (simp add: sb_Read_def Let_def)
  with True sb_reset_ok [OF assms] that show ?thesis by simp
next
  case False
  let ?k = "min n (length (unread s))"
  have k: "?k = (if sbOn s - sbOff s < n then sbOn s - sbOff s else n)" "sbOn s - sbOff s \<noteq> 0"
    using False length_unread [OF assms] by auto
  note g = get_unread [OF assms, of ?k]
  show ?thesis
  proof (cases "n = 0")
    case True
    with False k unread_Nil [OF assms] have "sb_Read n s = Some (([], True), s)" by (simp add: sb_Read_def)
    with True False assms that [of s] show ?thesis by simp
  next
    case n: False
    have "sb_Read n s = Some ((take ?k (unread s), False), s\<lparr>sbOff := sbOff s + ?k\<rparr>)"
      using False n g(1) unread_Nil [OF assms] k by (auto simp: sb_Read_def Let_def)
    moreover have "take ?k (unread s) = take n (unread s)" "drop ?k (unread s) = drop n (unread s)"
      by (auto simp: min_def)
    ultimately show ?thesis using False n g(2,3) that by simp
  qed
qed

lemma sb_Next_ok:
  assumes "slab_inv s" and "0 \<le> n"
  obtains s' where "sb_Next n s = Some (take (nat n) (unread s), s')" and "slab_inv s'"
    and "unread s' = drop (nat n) (unread s)"
proof -
  let ?k = "min (nat n) (length (unread s))"
  have k: "(if n > int (sbOn s) - int (sbOff s) then int (sbOn s) - int (sbOff s) else n) = int ?k"
    using assms length_unread [OF assms(1)] by (auto simp: slab_inv_def)
  note g = get_unread [OF assms(1), of ?k]
  have "sb_Next n s = Some (take ?k (unread s), s\<lparr>sbOff := sbOff s + ?k\<rparr>)"
    using g(1) unfolding sb_Next_def Let_def k by simp
  moreover have "take ?k (unread s) = take (nat n) (unread s)" "drop ?k (unread s) = drop (nat n) (unread s)"
    by (auto simp: min_def)
  ultimately show ?thesis using g(2,3) that by simp
qed

lemma slab_step_refines:
  assumes "slab_inv s" and "9 * int (length (unread s) + written [x]) + 2 \<le> maxInt"
  shows "rel_option (\<lambda>(r, s') (r', q'). r = r' \<and> slab_inv s' \<and> q' = unread s' \<and>
      length q' \<le> length (unread s) + written [x]) (slab_step x s) (fifo_step x (unread s))"
proof (cases x)
  case (Write addr p)
  with assms(2) have b: "4 * int (length (unread s)) + 9 * int (length p) + 2 \<le> maxInt" by simp
  obtain s' where "sb_Write addr p s = Some (length p, s')" "slab_inv s'" "unread s' = unread s @ p"
    by (rule sb_Write_ok [OF assms(1) b])
  with Write show ?thesis by simp
next
  case (Read n)
  obtain s' where "sb_Read n s = Some ((take n (unread s), if unread s = [] then n \<noteq> 0 else n = 0), s')"
    "slab_inv s'" "unread s' = drop n (unread s)" by (rule sb_Read_ok [OF assms(1)])
  with Read show ?thesis by simp
next
  case (NextBytes n)
  show ?thesis
  proof (cases "n < 0")
    case True
    with NextBytes assms(1) show ?thesis by (auto simp: sb_Next_def Let_def slab_inv_def)
  next
    case False
    then obtain s' where "sb_Next n s = Some (take (nat n) (unread s), s')" "slab_inv s'"
      "unread s' = drop (nat n) (unread s)" using sb_Next_ok [OF assms(1), of n] by auto
    with NextBytes False show ?thesis by simp
  qed
next
  case Reset
  with sb_reset_ok [OF assms(1)] show ?thesis by simp
next
  case ResetOffOn
  with assms(1) show ?thesis by (auto simp: ResetOffOnUnSafe_def slab_inv_def unread_def sb_Cap_def)
next
  case Unread
  with get_unread(1) [OF assms(1), of "length (unread s)"] assms(1) show ?thesis
    by (simp add: BytesUnread_def length_unread slab_inv_def)
next
  case UnreadLength
  with assms(1) length_unread [OF assms(1)] show ?thesis by (simp add: BytesUnreadLength_def slab_inv_def)
next
  case IsEmpty
  with assms(1) unread_Nil [OF assms(1)] show ?thesis by simp
qed

lemma new_slab_inv:
  "slab_inv zero_slab \<and> unread zero_slab = []" "slab_inv NewSlabBuff \<and> unread NewSlabBuff = []"
  "NewSlabBuffInit n = Some s \<Longrightarrow> slab_inv s \<and> unread s = []"
  "slab_inv (NewSlabBuffInitAlign addr n) \<and> unread (NewSlabBuffInitAlign addr n) = []"
proof -
  show "slab_inv zero_slab \<and> unread zero_slab = []" "slab_inv NewSlabBuff \<and> unread NewSlabBuff = []"
    "NewSlabBuffInit n = Some s \<Longrightarrow> slab_inv s \<and> unread s = []"
    by (auto simp: zero_slab_def NewSlabBuff_def NewSlabBuffInit_def slab_inv_def unread_def sb_Cap_def split: if_splits)
  have "8192 \<le> nat (alignSize n)" using alignSize_bounds(1) [of n] by simp
  moreover from this have "nat (alignSize n) \<noteq> 0" by linarith
  from allocAlignedBuf_ok [OF this, of addr] obtain bk where
    "allocAlignedBuf addr (nat (alignSize n)) = Some (bk, nat (alignSize n))" "nat (alignSize n) \<le> length bk" by blast
  ultimately show "slab_inv (NewSlabBuffInitAlign addr n) \<and> unread (NewSlabBuffInitAlign addr n) = []"
    by (simp add: NewSlabBuffInitAlign_def set_buf_def zero_slab_def slab_inv_def unread_def sb_Cap_def)
qed

lemma slab_reports:
  assumes "slab_inv s"
  shows "reports s (unread s)"
proof -
  have I: "sbOff s \<le> sbOn s" "sbOn s \<le> sbLen s" "sbLen s \<le> length (sbBack s)" using assms by (auto simp: slab_inv_def sb_Cap_def)
  then have "take (sbOn s) (sbBack s) = take (sbOff s) (sbBack s) @ unread s"
    using take_add [of "sbOff s" "sbOn s - sbOff s" "sbBack s"] by (simp add: unread_def slice_def drop_take)
  with I have "BytesWritten s = Some (take (sbOff s) (sbBack s) @ unread s)" by (simp add: BytesWritten_def)
  moreover have "BytesWrittenLen s = length (take (sbOff s) (sbBack s) @ unread s)" using I length_unread [OF assms] by (simp add: BytesWrittenLen_def)
  ultimately show ?thesis using I length_unread [OF assms] by (auto simp: reports_def sb_Len_def sb_Cap_def)
qed

lemma slab_run:
  "slab_inv s \<Longrightarrow> 9 * int (length (unread s) + written xs) + 2 \<le> maxInt \<Longrightarrow>
   run_ops slab_step xs s = run_ops fifo_step xs (unread s) \<and>
   rel_option reports (end_state slab_step xs s) (end_state fifo_step xs (unread s))"
proof (induction xs arbitrary: s)
  case (Cons x xs)
  have w: "written (x # xs) = written [x] + written xs" by (cases x) simp_all
  with Cons.prems have "9 * int (length (unread s) + written [x]) + 2 \<le> maxInt" by simp
  note r = slab_step_refines [OF Cons.prems(1) this]
  show ?case
  proof (cases "fifo_step x (unread s)")
    case None
    with r show ?thesis by simp
  next
    case (Some a)
    with r obtain y s' where s': "slab_step x s = Some (y, s')" "fifo_step x (unread s) = Some (y, unread s')"
      "slab_inv s'" "length (unread s') \<le> length (unread s) + written [x]"
      by (cases a) (auto simp: option_rel_Some2)
    with Cons.IH [of s'] Cons.prems(2) w show ?thesis by simp
  qed
qed (simp add: slab_reports)

text \<open>\<open>Len\<close> is documented as the number of unread bytes, but counts the free part of the slice as well.\<close>

lemma Len_of_new: "sb_Len NewSlabBuff = 409600 \<and> BytesUnreadLength NewSlabBuff = 0 \<and> sb_Empty NewSlabBuff"
  by (simp add: sb_Len_def NewSlabBuff_def zero_slab_def smallBufferSize_def BytesUnreadLength_def sb_Empty_def)

text \<open>C16. A new buffer is a first-in first-out queue of bytes for a client that uses \<open>Write\<close>, \<open>Read\<close>, \<open>Next\<close>, \<open>BytesUnread\<close>, \<open>BytesUnreadLength\<close>,
  \<open>Empty\<close>, \<open>Reset\<close> and \<open>ResetOffOnUnSafe\<close>, in any sequence: every write is complete, the bytes come out in order through growth, sliding and
  reallocation, and only \<open>Next\<close> of a negative number panics; in particular \<open>ErrTooLarge\<close> is not raised as long as
  fewer than a ninth of the maximal integer is written in total. The methods that look at the buffer behind the queue are tied to it less closely: \<open>BytesWritten\<close> ends with
  the queue and has the length \<open>BytesWrittenLen\<close>, and \<open>Len\<close> is between the length of the queue and \<open>Cap\<close>.\<close>

theorem slab_is_fifo:
  assumes "s \<in> {zero_slab, NewSlabBuff, NewSlabBuffInitAlign addr n} \<or> NewSlabBuffInit n = Some s"
    and "9 * int (written ops) + 2 \<le> maxInt"
  shows "run_ops slab_step ops s = run_ops fifo_step ops [] \<and> rel_option reports (end_state slab_step ops s) (end_state fifo_step ops [])"
  using assms new_slab_inv(1,2) new_slab_inv(3) [of n s] new_slab_inv(4) [of addr n] slab_run [of s ops] by auto

theorem slab_is_fifo_witness:
  "run_ops slab_step [Write 0 [1, 2, 3], Read 2, Write 7 [4], NextBytes 9, Read 1] (zero_slab) =
     run_ops fifo_step [Write 0 [1, 2, 3], Read 2, Write 7 [4], NextBytes 9, Read 1] [] \<and>
   rel_option reports (end_state slab_step [Write 0 [1, 2, 3], Read 2, Write 7 [4]] zero_slab) (Some [3, 4])"
  using slab_is_fifo [of zero_slab 0 0 "[Write 0 [1, 2, 3], Read 2, Write 7 [4], NextBytes 9, Read 1]"]
    slab_is_fifo [of zero_slab 0 0 "[Write 0 [1, 2, 3], Read 2, Write 7 [4]]"] by (simp add: maxInt_def)

end
