(* ===== verification/ConnPool.thy ===== *)
theory ConnPool
  imports Prelude
begin

text \<open>
  \<^verbatim>\<open>transport/transport.go\<close>, the dial options of \<^verbatim>\<open>transport/options.go\<close>, and \<^verbatim>\<open>transport/pool/\<close>: the interface
  of a transport and the pool of its connections.

  Representation. A transport is a record of operations on a world \<open>'w\<close>; a connection is a handle. An
  operation that blocks for ever or panics is \<open>None\<close>. Errors keep the identity the code tests for
  (\<open>io.EOF\<close> and so on); all others are their text. The clock is an argument. \<open>Get\<close> holds the lock
  while it looks for an idle connection and dials without it; dialling does not touch the pool, so a
  call is one step.

  The locale \<open>tracked_transport\<close> states what is relied on of a transport for the ownership of connections:
  which handles have been opened and which closed.
\<close>

subsection \<open>Transports\<close>

datatype goerr = IoEOF | UnexpectedEOF | GoErr string

fun errText :: "goerr \<Rightarrow> string" where
  "errText IoEOF = ''EOF''"
| "errText UnexpectedEOF = ''unexpected EOF''"
| "errText (GoErr s) = s"

record TMessage =
  tmHeader :: "string \<rightharpoonup> string"
  tmBody :: "byte list"

record DialOptions =
  doStream :: bool
  doTimeout :: int

definition WithStream :: "DialOptions \<Rightarrow> DialOptions" where
  "WithStream o' = o'\<lparr>doStream := True\<rparr>"

definition WithTimeout :: "int \<Rightarrow> DialOptions \<Rightarrow> DialOptions" where
  "WithTimeout d o' = o'\<lparr>doTimeout := d\<rparr>"

type_synonym DialOption = "DialOptions \<Rightarrow> DialOptions"

record 'w Transport =
  trDial :: "string \<Rightarrow> DialOption list \<Rightarrow> 'w \<Rightarrow> ((goerr + nat) \<times> 'w) option"
  trSend :: "nat \<Rightarrow> TMessage \<Rightarrow> 'w \<Rightarrow> (goerr option \<times> 'w) option"
  trRecv :: "nat \<Rightarrow> 'w \<Rightarrow> ((goerr + TMessage) \<times> 'w) option"
  trClose :: "nat \<Rightarrow> 'w \<Rightarrow> goerr option \<times> 'w"
  trRemote :: "nat \<Rightarrow> 'w \<Rightarrow> string"

subsection \<open>The pool\<close>

record poolConn =
  pcClient :: nat
  pcId :: nat
  pcCreated :: int

record conn_pool =
  cpSize :: int
  cpTtl :: int
  cpConns :: "string \<rightharpoonup> poolConn list"

record pool_options =
  poSize :: int
  poTtl :: int

definition Size :: "int \<Rightarrow> pool_options \<Rightarrow> pool_options" where
  "Size i o' = o'\<lparr>poSize := i\<rparr>"

definition TTL :: "int \<Rightarrow> pool_options \<Rightarrow> pool_options" where
  "TTL t o' = o'\<lparr>poTtl := t\<rparr>"

definition new_conn_pool :: "pool_options \<Rightarrow> conn_pool" where
  "new_conn_pool o' = \<lparr>cpSize = poSize o', cpTtl = poTtl o', cpConns = Map.empty\<rparr>"

definition NewConnPool :: "(pool_options \<Rightarrow> pool_options) list \<Rightarrow> conn_pool" where
  "NewConnPool opts = new_conn_pool (fold (\<lambda>f. f) opts \<lparr>poSize = 0, poTtl = 0\<rparr>)"

definition conns_at :: "string \<Rightarrow> conn_pool \<Rightarrow> poolConn list" where
  \<comment> \<open>a missing key reads as the empty slice\<close>
  "conns_at addr p = (case cpConns p addr of None \<Rightarrow> [] | Some cs \<Rightarrow> cs)"

fun get_loop :: "'w Transport \<Rightarrow> int \<Rightarrow> string \<Rightarrow> poolConn list \<Rightarrow> conn_pool \<Rightarrow> 'w \<Rightarrow>
    poolConn option \<times> conn_pool \<times> 'w" where
  "get_loop tr now addr conns p w =
     (if conns = [] then (None, p, w)
      else
        let conn = last conns;
            conns = butlast conns;
            p = p\<lparr>cpConns := (cpConns p)(addr \<mapsto> conns)\<rparr>
        in if now - pcCreated conn > cpTtl p then
             get_loop tr now addr conns p (snd (trClose tr (pcClient conn) w))
           else (Some conn, p, w))"

declare get_loop.simps [simp del]

definition pool_Get :: "'w Transport \<Rightarrow> int \<Rightarrow> int \<Rightarrow> nat \<Rightarrow> string \<Rightarrow> DialOption list \<Rightarrow> conn_pool \<Rightarrow> 'w \<Rightarrow>
    ((goerr + poolConn) \<times> conn_pool \<times> 'w) option" where
  \<comment> \<open>at \<open>now\<close>; a new connection is made at \<open>now'\<close> with the fresh id \<open>uuid\<close>\<close>
  "pool_Get tr now now' uuid addr opts p w =
     (case get_loop tr now addr (conns_at addr p) p w of
        (Some conn, p, w) \<Rightarrow> Some (Inr conn, p, w)
      | (None, p, w) \<Rightarrow>
          map_option (\<lambda>(r, w). case r of
              Inl err \<Rightarrow> (Inl err, p, w)
            | Inr c \<Rightarrow> (Inr \<lparr>pcClient = c, pcId = uuid, pcCreated = now'\<rparr>, p, w)) (trDial tr addr opts w))"

definition pool_Release :: "'w Transport \<Rightarrow> poolConn \<Rightarrow> goerr option \<Rightarrow> conn_pool \<Rightarrow> 'w \<Rightarrow>
    goerr option \<times> conn_pool \<times> 'w" where
  "pool_Release tr conn err p w =
     (if err \<noteq> None then let (e, w) = trClose tr (pcClient conn) w in (e, p, w)
      else
        let key = trRemote tr (pcClient conn) w;
            conns = conns_at key p
        in if int (length conns) \<ge> cpSize p then
             let (e, w) = trClose tr (pcClient conn) w in (e, p, w)
           else (None, p\<lparr>cpConns := (cpConns p)(key \<mapsto> conns @ [conn])\<rparr>, w))"

definition close_conns :: "'w Transport \<Rightarrow> poolConn list \<Rightarrow> 'w \<Rightarrow> 'w" where
  "close_conns tr cs w = fold (\<lambda>c w. snd (trClose tr (pcClient c) w)) cs w"

definition pool_Close :: "'w Transport \<Rightarrow> string list \<Rightarrow> conn_pool \<Rightarrow> 'w \<Rightarrow> conn_pool \<times> 'w" where
  \<comment> \<open>given the keys of the map in the order of the iteration\<close>
  "pool_Close tr ks p w =
     fold (\<lambda>k (p, w). (p\<lparr>cpConns := (cpConns p)(k := None)\<rparr>, close_conns tr (conns_at k p) w)) ks (p, w)"

definition pc_Close :: "poolConn \<Rightarrow> goerr option" where
  \<comment> \<open>closing a pooled connection does nothing\<close>
  "pc_Close c = None"

subsection \<open>The pool with its clients\<close>

record 'w conn_sys =
  csPool :: conn_pool
  csUsed :: "poolConn set" \<comment> \<open>handed out and not yet released\<close>
  csWorld :: 'w

inductive conn_step :: "'w Transport \<Rightarrow> 'w conn_sys \<Rightarrow> 'w conn_sys \<Rightarrow> bool" for tr where
  conn_get: "pool_Get tr now now' uuid addr opts (csPool s) (csWorld s) = Some (Inr c, p, w) \<Longrightarrow>
    conn_step tr s \<lparr>csPool = p, csUsed = insert c (csUsed s), csWorld = w\<rparr>"
| conn_get_err: "pool_Get tr now now' uuid addr opts (csPool s) (csWorld s) = Some (Inl e, p, w) \<Longrightarrow>
    conn_step tr s \<lparr>csPool = p, csUsed = csUsed s, csWorld = w\<rparr>"
| conn_release: "c \<in> csUsed s \<Longrightarrow> pool_Release tr c err (csPool s) (csWorld s) = (e, p, w) \<Longrightarrow>
    conn_step tr s \<lparr>csPool = p, csUsed = csUsed s - {c}, csWorld = w\<rparr>"
| conn_close: "pool_Close tr ks (csPool s) (csWorld s) = (p, w) \<Longrightarrow>
    conn_step tr s \<lparr>csPool = p, csUsed = csUsed s, csWorld = w\<rparr>"

definition conn_start :: "conn_pool \<Rightarrow> 'w \<Rightarrow> 'w conn_sys" where
  "conn_start p w = \<lparr>csPool = p, csUsed = {}, csWorld = w\<rparr>"

definition idle_conns :: "conn_pool \<Rightarrow> poolConn set" where
  "idle_conns p = (\<Union>a. set (conns_at a p))"

definition stacks_ok :: "conn_pool \<Rightarrow> bool" where
  \<comment> \<open>no connection is stored twice, and no stack is longer than allowed\<close>
  "stacks_ok p \<longleftrightarrow> (\<forall>a. distinct (conns_at a p) \<and> int (length (conns_at a p)) \<le> max 0 (cpSize p)) \<and>
     (\<forall>a b. a \<noteq> b \<longrightarrow> set (conns_at a p) \<inter> set (conns_at b p) = {})"

definition owned :: "poolConn set \<Rightarrow> nat set \<Rightarrow> nat set \<Rightarrow> bool" where
  \<comment> \<open>the connections \<open>A\<close> are exactly the open ones\<close>
  "owned A closed opened \<longleftrightarrow>
     inj_on pcClient A \<and> pcClient ` A \<inter> closed = {} \<and> opened = pcClient ` A \<union> closed"

definition conn_inv :: "('w \<Rightarrow> nat set) \<Rightarrow> ('w \<Rightarrow> nat set) \<Rightarrow> 'w conn_sys \<Rightarrow> bool" where
  \<comment> \<open>every open connection is in use or idle, never both, and no other\<close>
  "conn_inv opened closed s \<longleftrightarrow> stacks_ok (csPool s) \<and> csUsed s \<inter> idle_conns (csPool s) = {} \<and>
     owned (csUsed s \<union> idle_conns (csPool s)) (closed (csWorld s)) (opened (csWorld s))"

lemma conns_at_simps [simp]:
  "conns_at a (p\<lparr>cpConns := (cpConns p)(k \<mapsto> cs)\<rparr>) = (if a = k then cs else conns_at a p)"
  "conns_at a (p\<lparr>cpConns := (cpConns p)(k := None)\<rparr>) = (if a = k then [] else conns_at a p)"
  by (simp_all add: conns_at_def)

lemma owned_close:
  "owned A closed opened \<Longrightarrow> D \<subseteq> A \<Longrightarrow> owned (A - D) (closed \<union> pcClient ` D) opened"
  by (auto simp: owned_def inj_on_def)

lemma owned_open:
  "owned A closed opened \<Longrightarrow> pcClient c \<notin> opened \<Longrightarrow> owned (insert c A) closed (insert (pcClient c) opened)"
  unfolding owned_def inj_on_insert by blast

lemma idle_replace:
  assumes "stacks_ok p" and "conns_at a p = cs @ removed" and "conns_at a p' = cs"
    and "\<And>b. b \<noteq> a \<Longrightarrow> conns_at b p' = conns_at b p" and "cpSize p' = cpSize p"
  shows "stacks_ok p'" and "idle_conns p' = idle_conns p - set removed" and "set removed \<subseteq> idle_conns p"
proof -
  have d: "distinct (cs @ removed)" "int (length (cs @ removed)) \<le> max 0 (cpSize p)"
    and dj: "\<And>b. b \<noteq> a \<Longrightarrow> set (conns_at b p) \<inter> set (cs @ removed) = {}"
    using assms(1,2) unfolding stacks_ok_def by metis+
  have at: "conns_at b p' = (if b = a then cs else conns_at b p)" for b using assms(3,4) by simp
  show "stacks_ok p'"
  proof -
    have "distinct (conns_at b p') \<and> int (length (conns_at b p')) \<le> max 0 (cpSize p)" for b
      using assms(1) d by (simp add: at stacks_ok_def)
    moreover have "set (conns_at b p') \<inter> set (conns_at b' p') = {}" if "b \<noteq> b'" for b b'
      using assms(1) dj [of b] dj [of b'] that by (auto simp: at stacks_ok_def)
    ultimately show ?thesis unfolding stacks_ok_def assms(5) by blast
  qed
  show "set removed \<subseteq> idle_conns p" using assms(2) unfolding idle_conns_def
    by (metis UN_upper Un_upper2 iso_tuple_UNIV_I order_trans set_append)
  show "idle_conns p' = idle_conns p - set removed"
  proof (rule set_eqI)
    fix c
    have "c \<in> set (conns_at b p') \<longleftrightarrow> c \<in> set (conns_at b p) \<and> c \<notin> set removed" for b
      using d(1) dj [of b] assms(2) by (cases "b = a") (auto simp: at)
    then show "c \<in> idle_conns p' \<longleftrightarrow> c \<in> idle_conns p - set removed" by (auto simp: idle_conns_def)
  qed
qed

locale tracked_transport =
  fixes tr :: "'w Transport"
    and opened closed :: "'w \<Rightarrow> nat set"
  assumes dial_opens: "trDial tr a os w = Some (Inr h, w') \<Longrightarrow>
      h \<notin> opened w \<and> opened w' = insert h (opened w) \<and> closed w' = closed w"
    and dial_fails: "trDial tr a os w = Some (Inl e, w') \<Longrightarrow> opened w' = opened w \<and> closed w' = closed w"
    and close_closes: "h \<in> opened w \<Longrightarrow>
      opened (snd (trClose tr h w)) = opened w \<and> closed (snd (trClose tr h w)) = insert h (closed w)"
begin

lemma get_loop_effect:
  assumes "get_loop tr now addr conns p w = (r, p', w')" and "conns_at addr p = conns"
    and "pcClient ` set conns \<subseteq> opened w"
  obtains dropped where "conns = conns_at addr p' @ (case r of None \<Rightarrow> [] | Some c \<Rightarrow> [c]) @ dropped"
    and "closed w' = closed w \<union> pcClient ` set dropped" and "opened w' = opened w"
    and "\<And>b. b \<noteq> addr \<Longrightarrow> conns_at b p' = conns_at b p" and "cpSize p' = cpSize p"
    and "r = None \<Longrightarrow> conns_at addr p' = []" and "\<And>c. r = Some c \<Longrightarrow> now - pcCreated c \<le> cpTtl p"
  using assms
proof (induction conns arbitrary: p w thesis rule: rev_induct)
  case Nil
  then show ?case by (simp add: get_loop.simps)
next
  case (snoc c cs)
  let ?p = "p\<lparr>cpConns := (cpConns p)(addr \<mapsto> cs)\<rparr>" and ?w = "snd (trClose tr (pcClient c) w)"
  show ?case
  proof (cases "now - pcCreated c > cpTtl p")
    case True
    have e: "get_loop tr now addr cs ?p ?w = (r, p', w')" using snoc.prems(2) True
      by (subst (asm) get_loop.simps) simp
    have w: "closed ?w = insert (pcClient c) (closed w)" "opened ?w = opened w"
      using close_closes [of "pcClient c" w] snoc.prems(4) by simp_all
    show ?thesis
    proof (rule snoc.IH [OF _ e])
      fix d
      assume d: "cs = conns_at addr p' @ (case r of None \<Rightarrow> [] | Some c \<Rightarrow> [c]) @ d"
        "closed w' = closed ?w \<union> pcClient ` set d" "opened w' = opened ?w"
        "\<And>b. b \<noteq> addr \<Longrightarrow> conns_at b p' = conns_at b ?p" "cpSize p' = cpSize ?p"
        "r = None \<Longrightarrow> conns_at addr p' = []" "\<And>c. r = Some c \<Longrightarrow> now - pcCreated c \<le> cpTtl ?p"
      show thesis
        by (rule snoc.prems(1) [of "d @ [c]"]) (use d w in simp_all)
    qed (use w snoc.prems(4) in simp_all)
  next
    case False
    then have "r = Some c" "p' = ?p" "w' = w" using snoc.prems(2) by (subst (asm) get_loop.simps, simp)+
    with False snoc.prems(3) show ?thesis by (intro snoc.prems(1) [of "[]"]) simp_all
  qed
qed

lemma get_loop_inv:
  assumes "conn_inv opened closed s" and "get_loop tr now addr (conns_at addr (csPool s)) (csPool s) (csWorld s) = (k, p, w)"
  shows "conn_inv opened closed \<lparr>csPool = p, csUsed = csUsed s \<union> set_option k, csWorld = w\<rparr>"
proof -
  let ?I = "idle_conns (csPool s)" and ?A = "csUsed s \<union> idle_conns (csPool s)"
  have inv: "stacks_ok (csPool s)" "csUsed s \<inter> ?I = {}" "owned ?A (closed (csWorld s)) (opened (csWorld s))"
    using assms(1) by (simp_all add: conn_inv_def)
  have op: "pcClient ` set (conns_at addr (csPool s)) \<subseteq> opened (csWorld s)"
    using inv(3) by (auto simp: owned_def idle_conns_def)
  obtain d where d: "conns_at addr (csPool s) = conns_at addr p @ (case k of None \<Rightarrow> [] | Some c \<Rightarrow> [c]) @ d"
    and c: "closed w = closed (csWorld s) \<union> pcClient ` set d" and o: "opened w = opened (csWorld s)"
    and fr: "\<And>b. b \<noteq> addr \<Longrightarrow> conns_at b p = conns_at b (csPool s)" "cpSize p = cpSize (csPool s)"
    by (rule get_loop_effect [OF assms(2) refl op]) blast
  note ip = idle_replace [OF inv(1) d refl fr]
  have D: "set d \<subseteq> ?A" using ip(3) by auto
  have dist: "distinct ((case k of None \<Rightarrow> [] | Some c \<Rightarrow> [c]) @ d)"
    using inv(1) d unfolding stacks_ok_def by (metis distinct_append)
  have own: "owned (?A - set d) (closed w) (opened w)" using owned_close [OF inv(3) D] c o by simp
  moreover have "csUsed s \<union> set_option k \<union> idle_conns p = ?A - set d"
    using ip(2,3) dist inv(2) by (cases k) auto
  ultimately show ?thesis using inv(2) ip(1,2) by (cases k) (auto simp: conn_inv_def)
qed

lemma pool_Get_inv:
  assumes "conn_inv opened closed s" and "pool_Get tr now now' uuid addr opts (csPool s) (csWorld s) = Some (r, p, w)"
  shows "conn_inv opened closed
    \<lparr>csPool = p, csUsed = (case r of Inl _ \<Rightarrow> csUsed s | Inr c \<Rightarrow> insert c (csUsed s)), csWorld = w\<rparr>"
proof -
  obtain k p1 w1 where l: "get_loop tr now addr (conns_at addr (csPool s)) (csPool s) (csWorld s) = (k, p1, w1)"
    by (metis prod_cases3)
  note inv = get_loop_inv [OF assms(1) l]
  show ?thesis
  proof (cases k)
    case (Some c)
    with assms(2) l have "r = Inr c" "p = p1" "w = w1" by (auto simp: pool_Get_def)
    with inv Some show ?thesis by simp
  next
    case None
    with assms(2) l obtain r' w2 where w2: "trDial tr addr opts w1 = Some (r', w2)" by (auto simp: pool_Get_def)
    with None assms(2) l have r': "trDial tr addr opts w1 = Some (r', w)" "p = p1"
      "r = (case r' of Inl e \<Rightarrow> Inl e | Inr h \<Rightarrow> Inr \<lparr>pcClient = h, pcId = uuid, pcCreated = now'\<rparr>)"
      by (auto simp: pool_Get_def split: sum.splits)
    let ?A = "csUsed s \<union> idle_conns p1"
    have own: "owned ?A (closed w1) (opened w1)" using inv None by (simp add: conn_inv_def)
    show ?thesis
    proof (cases r')
      case (Inl e)
      with dial_fails r' inv None show ?thesis by (auto simp: conn_inv_def)
    next
      case (Inr h)
      let ?c = "\<lparr>pcClient = h, pcId = uuid, pcCreated = now'\<rparr>"
      have h: "h \<notin> opened w1" "opened w = insert h (opened w1)" "closed w = closed w1"
        using dial_opens r'(1) Inr by auto
      have "owned (insert ?c ?A) (closed w) (opened w)" using owned_open [OF own, of ?c] h by simp
      moreover have "?c \<notin> ?A" using own h(1) unfolding owned_def by (metis UnI1 imageI poolConn.select_convs(1))
      ultimately show ?thesis using r' Inr inv None by (auto simp: conn_inv_def Un_insert_left)
    qed
  qed
qed

lemma pool_Get_fresh:
  assumes "conn_inv opened closed s" and "pool_Get tr now now' uuid addr opts (csPool s) (csWorld s) = Some (Inr c, p, w)"
  shows "c \<notin> csUsed s"
proof -
  obtain k p1 w1 where l: "get_loop tr now addr (conns_at addr (csPool s)) (csPool s) (csWorld s) = (k, p1, w1)"
    by (metis prod_cases3)
  have inv: "csUsed s \<inter> idle_conns (csPool s) = {}" "pcClient ` (csUsed s \<union> idle_conns (csPool s)) \<subseteq> opened (csWorld s)"
    using assms(1) by (auto simp: conn_inv_def owned_def)
  have op: "pcClient ` set (conns_at addr (csPool s)) \<subseteq> opened (csWorld s)" using inv(2) by (auto simp: idle_conns_def)
  obtain d where d: "conns_at addr (csPool s) = conns_at addr p1 @ (case k of None \<Rightarrow> [] | Some c \<Rightarrow> [c]) @ d"
    and o: "opened w1 = opened (csWorld s)"
    by (rule get_loop_effect [OF l refl op]) blast
  show ?thesis
  proof (cases k)
    case (Some c')
    with assms(2) l have "c = c'" by (auto simp: pool_Get_def)
    with Some d have "c \<in> set (conns_at addr (csPool s))" by simp
    then have "c \<in> idle_conns (csPool s)" unfolding idle_conns_def by blast
    with inv(1) show ?thesis by blast
  next
    case None
    with assms(2) l obtain r' w2 where d: "trDial tr addr opts w1 = Some (r', w2)" by (auto simp: pool_Get_def)
    with None assms(2) l obtain h where "trDial tr addr opts w1 = Some (Inr h, w)" "pcClient c = h"
      by (cases r') (auto simp: pool_Get_def)
    with o have "pcClient c \<notin> opened (csWorld s)" by (auto dest: dial_opens)
    with inv(2) show ?thesis by blast
  qed
qed

lemma pool_Release_inv:
  assumes "conn_inv opened closed s" and "c \<in> csUsed s"
    and "pool_Release tr c err (csPool s) (csWorld s) = (e, p, w)"
  shows "conn_inv opened closed \<lparr>csPool = p, csUsed = csUsed s - {c}, csWorld = w\<rparr>"
proof -
  let ?I = "idle_conns (csPool s)" and ?k = "trRemote tr (pcClient c) (csWorld s)"
  have inv: "stacks_ok (csPool s)" "csUsed s \<inter> ?I = {}" "owned (csUsed s \<union> ?I) (closed (csWorld s)) (opened (csWorld s))"
    using assms(1) by (simp_all add: conn_inv_def)
  show ?thesis
  proof (cases "err \<noteq> None \<or> int (length (conns_at ?k (csPool s))) \<ge> cpSize (csPool s)")
    case True
    with assms(3) have r: "p = csPool s" "w = snd (trClose tr (pcClient c) (csWorld s))"
      by (auto simp: pool_Release_def Let_def split: if_splits prod.splits)
    have "owned ((csUsed s \<union> ?I) - {c}) (closed (csWorld s) \<union> pcClient ` {c}) (opened (csWorld s))"
      by (rule owned_close [OF inv(3)]) (use assms(2) in simp)
    moreover have "(csUsed s \<union> ?I) - {c} = (csUsed s - {c}) \<union> ?I" using inv(2) assms(2) by auto
    moreover have "pcClient c \<in> opened (csWorld s)" using inv(3) assms(2) by (auto simp: owned_def)
    ultimately show ?thesis using inv r close_closes [of "pcClient c" "csWorld s"] by (simp add: conn_inv_def) blast
  next
    case False
    let ?p = "(csPool s)\<lparr>cpConns := (cpConns (csPool s))(?k \<mapsto> conns_at ?k (csPool s) @ [c])\<rparr>"
    from False assms(3) have r: "p = ?p" "w = csWorld s" by (auto simp: pool_Release_def Let_def)
    have c: "c \<notin> set (conns_at a (csPool s))" for a using inv(2) assms(2) by (auto simp: idle_conns_def)
    have "stacks_ok ?p" using inv(1) False c by (auto simp: stacks_ok_def)
    moreover have "idle_conns ?p = insert c ?I"
    proof (rule set_eqI)
      fix x
      have "x \<in> set (conns_at a ?p) \<longleftrightarrow> x \<in> set (conns_at a (csPool s)) \<or> a = ?k \<and> x = c" for a by auto
      then show "x \<in> idle_conns ?p \<longleftrightarrow> x \<in> insert c ?I" unfolding idle_conns_def by blast
    qed
    moreover have "(csUsed s - {c}) \<union> insert c ?I = csUsed s \<union> ?I" using assms(2) by auto
    ultimately show ?thesis using inv r by (auto simp: conn_inv_def)
  qed
qed

lemma close_conns_effect:
  "pcClient ` set cs \<subseteq> opened w \<Longrightarrow> opened (close_conns tr cs w) = opened w \<and> closed (close_conns tr cs w) = closed w \<union> pcClient ` set cs"
  by (induction cs arbitrary: w) (auto simp: close_conns_def close_closes)

lemma pool_Close_inv:
  assumes "conn_inv opened closed s" and "pool_Close tr ks (csPool s) (csWorld s) = (p, w)"
  shows "conn_inv opened closed \<lparr>csPool = p, csUsed = csUsed s, csWorld = w\<rparr>"
  using assms
proof (induction ks arbitrary: s)
  case Nil
  then show ?case by (auto simp: pool_Close_def conn_inv_def)
next
  case (Cons k ks)
  let ?p = "(csPool s)\<lparr>cpConns := (cpConns (csPool s))(k := None)\<rparr>" and ?cs = "conns_at k (csPool s)"
  let ?s = "\<lparr>csPool = ?p, csUsed = csUsed s, csWorld = close_conns tr ?cs (csWorld s)\<rparr>"
  have inv: "stacks_ok (csPool s)" "csUsed s \<inter> idle_conns (csPool s) = {}"
    "owned (csUsed s \<union> idle_conns (csPool s)) (closed (csWorld s)) (opened (csWorld s))"
    using Cons.prems(1) by (simp_all add: conn_inv_def)
  have ip: "stacks_ok ?p" "idle_conns ?p = idle_conns (csPool s) - set ?cs"
    by (rule idle_replace [OF inv(1), of k "[]" ?cs]; simp)+
  have sub: "set ?cs \<subseteq> idle_conns (csPool s)" by (auto simp: idle_conns_def)
  have op: "pcClient ` set ?cs \<subseteq> opened (csWorld s)" using inv(3) sub by (auto simp: owned_def)
  have "owned (csUsed s \<union> idle_conns (csPool s) - set ?cs) (closed (csWorld s) \<union> pcClient ` set ?cs) (opened (csWorld s))"
    by (rule owned_close [OF inv(3)]) (use sub in blast)
  moreover have "csUsed s \<union> idle_conns (csPool s) - set ?cs = csUsed s \<union> idle_conns ?p" using ip(2) sub inv(2) by auto
  ultimately have "conn_inv opened closed ?s"
    using ip inv(2) close_conns_effect [OF op] by (auto simp: conn_inv_def)
  moreover have "pool_Close tr ks (csPool ?s) (csWorld ?s) = (p, w)" using Cons.prems(2) by (simp add: pool_Close_def)
  ultimately show ?case using Cons.IH [of ?s] by simp
qed

lemma conn_step_inv: "conn_step tr s s' \<Longrightarrow> conn_inv opened closed s \<Longrightarrow> conn_inv opened closed s'"
  by (induction rule: conn_step.induct)
    (use pool_Get_inv pool_Release_inv pool_Close_inv in \<open>fastforce+\<close>)

lemma conn_reach_inv:
  "(conn_step tr)\<^sup>*\<^sup>* s s' \<Longrightarrow> conn_inv opened closed s \<Longrightarrow> conn_inv opened closed s'"
  by (induction rule: rtranclp_induct) (auto intro: conn_step_inv)

end

lemma conn_start_inv:
  assumes "opened w = closed w"
  shows "conn_inv opened closed (conn_start (new_conn_pool o') w)"
  using assms by (simp add: conn_inv_def conn_start_def new_conn_pool_def stacks_ok_def conns_at_def idle_conns_def owned_def)

text \<open>A released connection is stored under its remote address. When that differs from the address it was
  dialled by (a host name, say), a later \<open>Get\<close> of the same address cannot find it.\<close>

lemma release_other_key:
  assumes "pool_Release tr c None p w = (e, p', w')" and "trRemote tr (pcClient c) w \<noteq> addr"
  shows "conns_at addr p' = conns_at addr p"
  using assms by (auto simp: pool_Release_def Let_def split: if_splits prod.splits)

end
