(* ===== verification/NetUtil.thy ===== *)
theory NetUtil
  imports Strconv ConnPool
begin

text \<open>
  \<^verbatim>\<open>util/net/net.go\<close> and \<^verbatim>\<open>util/addr/addr.go\<close>: host and port strings, binding to a range of ports, proxies, and
  IPv4 addresses.

  Representation. \<open>net.SplitHostPort\<close> is modelled after the standard library, its errors by their text.
  Whether a string is an IP address for \<open>net.ParseIP\<close> is a parameter of \<open>HostPort\<close>; for \<^verbatim>\<open>addr.go\<close> IPv4 addresses
  are 32-bit words, and the dotted form is parsed and printed as the library does. The environment variables are
  a function, the empty string standing for an unset one. \<open>Listen\<close> takes the outcome of binding to each
  address as a function.
\<close>

subsection \<open>Hosts and ports\<close>

datatype port_arg = PortString string | PortInt int

definition port_text :: "port_arg \<Rightarrow> string" where
  "port_text p = (case p of PortString s \<Rightarrow> s | PortInt i \<Rightarrow> itoa i)"

definition HostPort :: "(string \<Rightarrow> bool) \<Rightarrow> string \<Rightarrow> port_arg \<Rightarrow> string" where
  "HostPort isIP addr port =
     (let host = (if CHR '':'' \<in> set addr then ''['' @ addr @ '']'' else addr)
      in if port = PortString [] then host
         else if port = PortInt 0 \<and> \<not> isIP host then host
         else host @ '':'' @ port_text port)"

definition SplitHostPort :: "string \<Rightarrow> goerr + string \<times> string" where
  "SplitHostPort hostport =
     (let addrErr = (\<lambda>why. Inl (GoErr (''address '' @ hostport @ '': '' @ why)))
      in case last_index_byte (CHR '':'') hostport of
           None \<Rightarrow> addrErr ''missing port in address''
         | Some i \<Rightarrow>
             let finish = (\<lambda>host j k.
                   if CHR ''['' \<in> set (drop j hostport) then addrErr ''unexpected '[' in address''
                   else if CHR '']'' \<in> set (drop k hostport) then addrErr ''unexpected ']' in address''
                   else Inr (host, drop (i + 1) hostport))
             in if hd hostport = CHR ''['' then
                  (case index_byte (CHR '']'') hostport of
                     None \<Rightarrow> addrErr ''missing ']' in address''
                   | Some end' \<Rightarrow>
                       if end' + 1 = length hostport then addrErr ''missing port in address''
                       else if end' + 1 = i then finish (slice 1 end' hostport) 1 (end' + 1)
                       else if hostport ! (end' + 1) = CHR '':'' then addrErr ''too many colons in address''
                       else addrErr ''missing port in address'')
                else
                  let host = take i hostport
                  in if CHR '':'' \<in> set host then addrErr ''too many colons in address''
                     else finish host 0 0)"

subsection \<open>Binding to a range of ports\<close>

function listen_loop :: "(string \<Rightarrow> goerr + 'l) \<Rightarrow> (string \<Rightarrow> bool) \<Rightarrow> string \<Rightarrow> string \<Rightarrow> int \<Rightarrow> int \<Rightarrow> goerr + 'l" where
  "listen_loop fn isIP addr host port max' =
     (if port \<le> max' then
        case fn (HostPort isIP host (PortInt port)) of
          Inr ln \<Rightarrow> Inr ln
        | Inl err \<Rightarrow> if port = max' then Inl err else listen_loop fn isIP addr host (port + 1) max'
      else Inl (GoErr (''unable to bind to '' @ addr)))"
  by pat_completeness auto
termination by (relation "measure (\<lambda>(fn, isIP, addr, host, port, max'). nat (max' - port))") auto

declare listen_loop.simps [simp del]

definition count_char :: "char \<Rightarrow> string \<Rightarrow> nat" where
  \<comment> \<open>\<open>strings.Count\<close> of one byte\<close>
  "count_char c s = length (filter (\<lambda>x. x = c) s)"

definition Listen :: "(string \<Rightarrow> bool) \<Rightarrow> string \<Rightarrow> (string \<Rightarrow> goerr + 'l) \<Rightarrow> goerr + 'l" where
  "Listen isIP addr fn =
     (if count_char (CHR '':'') addr = 1 \<and> count_char (CHR ''-'') addr = 0 then fn addr
      else case SplitHostPort addr of
        Inl err \<Rightarrow> Inl err
      | Inr (host, ports) \<Rightarrow>
          let prange = split_at_char (CHR ''-'') ports
          in if length prange < 2 then fn addr
             else case Atoi (prange ! 0) of
               None \<Rightarrow> Inl (GoErr ''unable to extract port range'')
             | Some min' \<Rightarrow>
             case Atoi (prange ! 1) of
               None \<Rightarrow> Inl (GoErr ''unable to extract port range'')
             | Some max' \<Rightarrow> listen_loop fn isIP addr host min' max')"

subsection \<open>Proxies\<close>

definition Proxy :: "(string \<Rightarrow> string) \<Rightarrow> string \<Rightarrow> string list \<Rightarrow> string \<times> string list \<times> bool" where
  "Proxy env service address =
     (let prx = env ''MICRO_PROXY''
      in if prx \<noteq> [] then
           let (prx, address) = (if prx = ''service'' then (''go.micro.proxy'', []) else (prx, address));
               address = (if length (split_at_char (CHR '':'') prx) > 1 then [prx] else address)
           in (prx, address, True)
         else
           let prx = env ''MICRO_NETWORK'';
               (service, hasProxy) =
                 (if prx \<noteq> [] then (if prx = ''service'' then ''go.micro.network'' else prx, True) else (service, False));
               prx = env ''MICRO_NETWORK_ADDRESS'';
               (address, hasProxy) = (if prx \<noteq> [] then ([prx], True) else (address, hasProxy))
           in (service, address, hasProxy))"

subsection \<open>IPv4 addresses\<close>

type_synonym ipv4 = "32 word"

definition octet :: "nat \<Rightarrow> ipv4 \<Rightarrow> nat" where
  \<comment> \<open>counted from the most significant\<close>
  "octet i ip = unat (drop_bit (8 * (3 - i)) ip AND 255)"

definition ip_String :: "ipv4 \<Rightarrow> string" where
  "ip_String ip = digits (octet 0 ip) @ ''.'' @ digits (octet 1 ip) @ ''.'' @ digits (octet 2 ip) @ ''.'' @ digits (octet 3 ip)"

definition parse_octet :: "string \<Rightarrow> nat option" where
  \<comment> \<open>no leading zeros, at most 255\<close>
  "parse_octet s =
     (if s = [] \<or> (hd s = CHR ''0'' \<and> length s > 1) then None
      else case dec_value s 0 of None \<Rightarrow> None | Some n \<Rightarrow> if n \<le> 255 then Some n else None)"

definition ParseIPv4 :: "string \<Rightarrow> ipv4 option" where
  \<comment> \<open>\<open>net.ParseIP(s).To4()\<close> for a dotted address\<close>
  "ParseIPv4 s =
     (case map parse_octet (split_at_char (CHR ''.'') s) of
        [Some a, Some b, Some c, Some d] \<Rightarrow>
          Some (of_nat a * 2 ^ 24 + of_nat b * 2 ^ 16 + of_nat c * 2 ^ 8 + of_nat d)
      | _ \<Rightarrow> None)"

definition in_block :: "ipv4 \<Rightarrow> nat \<Rightarrow> ipv4 \<Rightarrow> bool" where
  \<comment> \<open>\<open>IPNet.Contains\<close> for the block with a prefix of the given length\<close>
  "in_block net len ip \<longleftrightarrow> drop_bit (32 - len) ip = drop_bit (32 - len) net"

definition privateBlocks :: "(ipv4 \<times> nat) list" where
  "privateBlocks = [(0x0A000000, 8), (0xAC100000, 12), (0xC0A80000, 16), (0x64400000, 10)]"

definition isPrivateIP :: "string \<Rightarrow> bool" where
  \<comment> \<open>the \<open>nil\<close> that a parse error gives is in no block\<close>
  "isPrivateIP ipAddr =
     (case ParseIPv4 ipAddr of
        None \<Rightarrow> False
      | Some ip \<Rightarrow> list_ex (\<lambda>(net, len). in_block net len ip) privateBlocks)"

datatype raw_addr = IPAddr "ipv4 option" | IPNet "ipv4 option" | OtherAddr
  \<comment> \<open>an \<open>IPAddr\<close> or \<open>IPNet\<close>, with the IPv4 address if \<open>To4\<close> gives one; an address of any other type\<close>

fun raw_ip :: "raw_addr \<Rightarrow> ipv4 option" where
  "raw_ip (IPAddr ip) = ip"
| "raw_ip (IPNet ip) = ip"
| "raw_ip OtherAddr = None"

fun extract_loop :: "raw_addr list \<Rightarrow> ipv4 option \<Rightarrow> ipv4 option \<times> ipv4 option" where
  \<comment> \<open>the private and the public address found\<close>
  "extract_loop [] public = (None, public)"
| "extract_loop (a # as) public =
     (case raw_ip a of
        None \<Rightarrow> extract_loop as public
      | Some ip \<Rightarrow> if \<not> isPrivateIP (ip_String ip) then extract_loop as (Some ip) else (Some ip, public))"

definition Extract :: "goerr + raw_addr list \<Rightarrow> string \<Rightarrow> goerr + string" where
  \<comment> \<open>given what \<open>net.InterfaceAddrs\<close> returns\<close>
  "Extract ifaces addr =
     (if addr \<noteq> [] \<and> addr \<noteq> ''0.0.0.0'' \<and> addr \<noteq> ''[::]'' then Inr addr
      else case ifaces of
        Inl err \<Rightarrow> Inl (GoErr (''Failed to get interface addresses! Err: '' @ errText err))
      | Inr addrs \<Rightarrow>
          (case extract_loop addrs None of
             (Some ip, _) \<Rightarrow> Inr (ip_String ip)
           | (None, Some ip) \<Rightarrow> Inr (ip_String ip)
           | (None, None) \<Rightarrow> Inl (GoErr ''No IP address found, and explicit IP not provided'')))"

definition IsLoopback :: "ipv4 \<Rightarrow> bool" where
  "IsLoopback ip \<longleftrightarrow> octet 0 ip = 127"

fun internal_loop :: "raw_addr list \<Rightarrow> string" where
  "internal_loop (IPNet (Some ip) # as) = (if \<not> IsLoopback ip then ip_String ip else internal_loop as)"
| "internal_loop (_ # as) = internal_loop as"
| "internal_loop [] = []"

definition GetInternal :: "goerr + raw_addr list \<Rightarrow> string \<Rightarrow> string \<times> string" where
  \<comment> \<open>the result and the new value of the variable \<open>internalIp\<close>\<close>
  "GetInternal ifaces internalIp =
     (if internalIp \<noteq> [] then (internalIp, internalIp)
      else case ifaces of
        Inl err \<Rightarrow> ([], internalIp)
      | Inr addrs \<Rightarrow> let ip = internal_loop addrs in (ip, if ip \<noteq> [] then ip else internalIp))"

definition IPs :: "goerr + (goerr + raw_addr list) list \<Rightarrow> string list" where
  \<comment> \<open>given what \<open>net.Interfaces\<close> returns, each interface with what its \<open>Addrs\<close> returns\<close>
  "IPs ifaces =
     (case ifaces of
        Inl err \<Rightarrow> []
      | Inr is \<Rightarrow>
          concat (map (\<lambda>i. case i of
                            Inl err \<Rightarrow> []
                          | Inr addrs \<Rightarrow> map ip_String (List.map_filter raw_ip addrs)) is))"

definition InetNtoA :: "64 word \<Rightarrow> string" where
  \<comment> \<open>the conversions to \<open>byte\<close> keep the low 32 bits of the argument\<close>
  "InetNtoA ip = ip_String (ucast ip)"

definition InetAtoN :: "string \<Rightarrow> 64 word" where
  "InetAtoN ip = (case ParseIPv4 ip of None \<Rightarrow> 0 | Some w \<Rightarrow> ucast w)"

subsection \<open>Splitting what was joined\<close>

definition plain :: "string \<Rightarrow> bool" where
  "plain s \<longleftrightarrow> CHR ''['' \<notin> set s \<and> CHR '']'' \<notin> set s"

lemma SplitHostPort_join:
  assumes "plain host" and "plain port" and "CHR '':'' \<notin> set port"
  shows "SplitHostPort (HostPort isIP host (PortString port)) = (if port = [] then SplitHostPort (HostPort isIP host (PortString [])) else Inr (host, port))"
proof (cases "port = []")
  case False
  show ?thesis
  proof (cases "CHR '':'' \<in> set host")
    case True
    let ?hp = "CHR ''['' # host @ CHR '']'' # CHR '':'' # port"
    have j: "HostPort isIP host (PortString port) = ?hp" using True False by (simp add: HostPort_def port_text_def)
    have "last_index_byte (CHR '':'') ((CHR ''['' # host @ [CHR '']'']) @ CHR '':'' # port) = Some (length (CHR ''['' # host @ [CHR '']'']))"
      by (rule last_index_sep [OF assms(3)])
    then have i: "last_index_byte (CHR '':'') ?hp = Some (length host + 2)" by simp
    have "index_byte (CHR '']'') ((CHR ''['' # host) @ CHR '']'' # CHR '':'' # port) = Some (length (CHR ''['' # host))"
      by (rule index_sep) (use assms(1) in \<open>simp add: plain_def\<close>)
    then have e: "index_byte (CHR '']'') ?hp = Some (length host + 1)" by simp
    show ?thesis unfolding j SplitHostPort_def
      using assms False by (simp add: i e Let_def plain_def slice_def)
  next
    case no: False
    let ?hp = "host @ CHR '':'' # port"
    have j: "HostPort isIP host (PortString port) = ?hp" using no False by (simp add: HostPort_def port_text_def)
    have i: "last_index_byte (CHR '':'') ?hp = Some (length host)" by (rule last_index_sep [OF assms(3)])
    have "hd ?hp \<noteq> CHR ''[''" using assms(1) by (cases host) (auto simp: plain_def)
    then show ?thesis unfolding j SplitHostPort_def
      using assms no False by (simp add: i Let_def plain_def)
  qed
qed simp

subsection \<open>Ranges of ports\<close>

lemma listen_loop_first:
  "listen_loop fn isIP addr host port max' =
     (case filter (\<lambda>p. \<not> isl (fn (HostPort isIP host (PortInt p)))) [port..max'] of
        p # _ \<Rightarrow> fn (HostPort isIP host (PortInt p))
      | [] \<Rightarrow> if port \<le> max' then fn (HostPort isIP host (PortInt max'))
              else Inl (GoErr (''unable to bind to '' @ addr)))"
proof (induction fn isIP addr host port max' rule: listen_loop.induct)
  case (1 fn isIP addr host port max')
  show ?case
  proof (cases "port \<le> max'")
    case True
    show ?thesis
    proof (cases "fn (HostPort isIP host (PortInt port))")
      case (Inl e)
      show ?thesis
      proof (cases "port = max'")
        case True
        with Inl show ?thesis by (subst listen_loop.simps) simp
      next
        case False
        with "1.IH" [OF True Inl] True Inl show ?thesis
          by (subst listen_loop.simps) (simp add: upto_rec1 split: list.splits)
      qed
    next
      case (Inr ln)
      with True show ?thesis by (subst listen_loop.simps) (simp add: upto_rec1)
    qed
  next
    case False
    then show ?thesis by (subst listen_loop.simps) simp
  qed
qed

lemma Listen_range:
  assumes "plain host" and "0 \<le> lo" and "lo < 2 ^ 63" and "0 \<le> hi" and "hi < 2 ^ 63"
    and "addr = HostPort isIP host (PortString (itoa lo @ ''-'' @ itoa hi))"
  shows "Listen isIP addr fn = listen_loop fn isIP addr host lo hi"
proof -
  let ?ports = "itoa lo @ CHR ''-'' # itoa hi"
  have d: "c \<in> set (itoa lo) \<union> set (itoa hi) \<Longrightarrow> is_digit c" for c
    using assms(2,4) digits_digit [of c "nat lo"] digits_digit [of c "nat hi"] by (auto simp: itoa_def)
  then have n: "c \<notin> set (itoa lo) \<and> c \<notin> set (itoa hi)" if "\<not> is_digit c" for c
    using that by blast
  have ps: "plain ?ports" "CHR '':'' \<notin> set ?ports" "CHR ''-'' \<notin> set (itoa lo)" "CHR ''-'' \<notin> set (itoa hi)"
    using n [of "CHR ''[''"] n [of "CHR '']''"] n [of "CHR '':''"] n [of "CHR ''-''"]
    by (simp_all add: plain_def is_digit_def)
  have a: "addr = HostPort isIP host (PortString ?ports)" by (simp add: assms(6))
  have "SplitHostPort addr = Inr (host, ?ports)"
    unfolding a using SplitHostPort_join [OF assms(1) ps(1,2)] by simp
  moreover have "split_at_char (CHR ''-'') ?ports = [itoa lo, itoa hi]"
    using split_sep [OF ps(3)] split_none [OF ps(4)] by simp
  moreover have "count_char (CHR ''-'') addr \<noteq> 0"
    by (simp add: a HostPort_def port_text_def count_char_def Let_def filter_empty_conv)
  moreover have "Atoi (itoa lo) = Some lo" "Atoi (itoa hi) = Some hi" by (rule Atoi_itoa; use assms(2-5) in simp)+
  ultimately show ?thesis by (simp add: Listen_def)
qed

text \<open>\<open>Listen\<close> on a host and a range of ports binds to the first port of the range that can be bound, and if
  none can be, reports the error of the last one; for an empty range it says that it cannot bind.\<close>

lemma listen_first_port:
  assumes "plain host" and "0 \<le> lo" and "lo < 2 ^ 63" and "0 \<le> hi" and "hi < 2 ^ 63"
    and "addr = HostPort isIP host (PortString (itoa lo @ ''-'' @ itoa hi))"
    and "free = filter (\<lambda>p. \<not> isl (fn (HostPort isIP host (PortInt p)))) [lo..hi]"
  shows "Listen isIP addr fn =
    (if free \<noteq> [] then fn (HostPort isIP host (PortInt (hd free)))
     else if lo \<le> hi then fn (HostPort isIP host (PortInt hi))
     else Inl (GoErr (''unable to bind to '' @ addr)))"
  unfolding Listen_range [OF assms(1-6)] listen_loop_first assms(7) [symmetric]
  by (cases free) simp_all

subsection \<open>Dotted addresses\<close>

lemma octet_le: "octet i ip \<le> 255"
proof -
  have "drop_bit (8 * (3 - i)) ip AND 255 \<le> (255 :: ipv4)" by (rule word_and_le1)
  then show ?thesis by (simp add: octet_def word_le_nat_alt)
qed

lemma digits_no_zero: "hd (digits n) = CHR ''0'' \<Longrightarrow> n = 0"
proof (induction n rule: digits.induct)
  case (1 n)
  show ?case
  proof (cases "n < 10")
    case True
    with 1 have "char_of (48 + n) = CHR ''0''" by (simp add: digits.simps [of n])
    then have "(of_char (char_of (48 + n)) :: nat) = of_char CHR ''0''" by simp
    with True show ?thesis by (simp del: of_char_of)
  next
    case False
    with 1 have "n div 10 = 0" by (simp add: digits.simps [of n])
    with False show ?thesis by simp
  qed
qed

lemma parse_octet_digits: "n \<le> 255 \<Longrightarrow> parse_octet (digits n) = Some n"
proof -
  assume "n \<le> 255"
  moreover have "length (digits n) = 1" if "hd (digits n) = CHR ''0''"
    using digits_no_zero [OF that] by (simp add: digits.simps)
  ultimately show ?thesis by (auto simp: parse_octet_def)
qed

lemma octet_nat: "octet i ip = unat ip div 2 ^ (8 * (3 - i)) mod 2 ^ 8"
proof -
  have "(255 :: ipv4) = mask 8" by (simp add: mask_eq_exp_minus_1)
  then have "octet i ip = unat (take_bit 8 (drop_bit (8 * (3 - i)) ip))"
    unfolding octet_def by (simp only: take_bit_eq_mask)
  then show ?thesis
    by (simp only: unsigned_take_bit_eq unat_drop_bit_eq) (simp add: take_bit_eq_mod drop_bit_eq_div)
qed

lemma bytes_join:
  fixes n :: nat
  assumes "n < 256 * (256 * (256 * 256))"
  shows "n div 16777216 mod 256 * 16777216 + n div 65536 mod 256 * 65536 + n div 256 mod 256 * 256 + n mod 256 = n"
proof -
  define a where "a = n div 256"
  define b where "b = a div 256"
  have e: "n div 65536 = b" "n div 16777216 = b div 256"
    using div_mult2_eq [of n 256 256] div_mult2_eq [of n 256 "256 * 256"] div_mult2_eq [of a 256 256]
    by (simp_all add: a_def b_def)
  have "b div 256 < 256" using assms e by (simp add: less_mult_imp_div_less flip: e(2))
  have "n = a * 256 + n mod 256" "a = b * 256 + a mod 256" "b = b div 256 * 256 + b mod 256"
    by (simp_all add: a_def b_def)
  then show ?thesis unfolding e a_def [symmetric] mod_less [OF \<open>b div 256 < 256\<close>] by linarith
qed

lemma octets_join:
  "of_nat (octet 0 ip) * 2 ^ 24 + of_nat (octet 1 ip) * 2 ^ 16 + of_nat (octet 2 ip) * 2 ^ 8 + of_nat (octet 3 ip) = ip"
proof -
  have "unat ip < 2 ^ LENGTH(32)" by (rule unsigned_less)
  then have "octet 0 ip * 2 ^ 24 + octet 1 ip * 2 ^ 16 + octet 2 ip * 2 ^ 8 + octet 3 ip = unat ip"
    using bytes_join [of "unat ip"] unfolding octet_nat by simp
  then have "(of_nat (octet 0 ip * 2 ^ 24 + octet 1 ip * 2 ^ 16 + octet 2 ip * 2 ^ 8 + octet 3 ip) :: ipv4) = ip"
    by simp
  then show ?thesis by simp
qed

lemma digits_no_dot: "CHR ''.'' \<notin> set (digits n)"
  using digits_digit [of "CHR ''.''" n] by (auto simp: is_digit_def)

lemma ParseIPv4_String: "ParseIPv4 (ip_String ip) = Some ip"
proof -
  have "split_at_char (CHR ''.'') (ip_String ip) = map (\<lambda>i. digits (octet i ip)) [0, 1, 2, 3]"
    by (simp add: ip_String_def split_sep split_none digits_no_dot)
  then show ?thesis
    using octets_join [of ip] by (simp add: ParseIPv4_def parse_octet_digits octet_le)
qed

lemma inet_round_trip: "InetAtoN (InetNtoA ip) = take_bit 32 ip"
  by (simp add: InetAtoN_def InetNtoA_def ParseIPv4_String unsigned_ucast_eq)

end
