(* ===== verification/MemTransport.thy ===== *)
theory MemTransport
  imports NetUtil
begin

text \<open>
  \<^verbatim>\<open>transport/memory.go\<close>: a transport whose connections are pairs of unbuffered channels.

  Representation. The world holds the listeners and the sockets; a socket is the state that the client's and
  the server's end share. An unbuffered channel transfers a message when both sides are at it: the server's
  goroutine is a process with state \<open>'p\<close>, a parameter that says whether it now takes a message and whether
  it now offers one. A \<open>select\<close> with several ready cases takes any: the scheduler \<open>mwSched\<close> decides, step by
  step. Without a ready case an operation ends with the context's error if a timeout is set and otherwise
  blocks for ever, \<open>None\<close>. The network interfaces and the random port are parameters of \<open>Listen\<close>. The mutexes only order the operations of one end.
\<close>

record 'p memorySocket =
  msExit :: bool
  msListener :: nat
  msLocal :: string
  msRemote :: string
  msPeer :: 'p

record memoryListener =
  mlAddr :: string
  mlExit :: bool
  mlAccepting :: bool \<comment> \<open>a goroutine is in the loop of \<open>Accept\<close>\<close>

record 'p mem_world =
  mwListeners :: "string \<rightharpoonup> nat"
  mwLis :: "memoryListener list"
  mwSocks :: "'p memorySocket list"
  mwTimeout :: int
  mwSched :: "nat \<Rightarrow> nat"
  mwTick :: nat

record 'p process =
  prStart :: 'p
  prTake :: "TMessage \<Rightarrow> 'p \<Rightarrow> 'p option"
  prOffer :: "'p \<Rightarrow> (TMessage \<times> 'p) option"

definition NewMemoryTransport :: "int \<Rightarrow> (nat \<Rightarrow> nat) \<Rightarrow> 'p mem_world" where
  "NewMemoryTransport timeout sched =
     \<lparr>mwListeners = Map.empty, mwLis = [], mwSocks = [], mwTimeout = timeout, mwSched = sched, mwTick = 0\<rparr>"

definition select_case :: "'a list \<Rightarrow> 'p mem_world \<Rightarrow> 'a option \<times> 'p mem_world" where
  \<comment> \<open>one of the ready cases\<close>
  "select_case ready w =
     (if ready = [] then (None, w)
      else (Some (ready ! (mwSched w (mwTick w) mod length ready)), w\<lparr>mwTick := mwTick w + 1\<rparr>))"

definition lexit :: "'p mem_world \<Rightarrow> 'p memorySocket \<Rightarrow> bool" where
  "lexit w s = mlExit (mwLis w ! msListener s)"

definition deadline_error :: goerr where
  "deadline_error = GoErr ''context deadline exceeded''"

definition ms_Send ::
  "'p process \<Rightarrow> nat \<Rightarrow> TMessage \<Rightarrow> 'p mem_world \<Rightarrow> (goerr option \<times> 'p mem_world) option" where
  "ms_Send P h m w =
     (let s = mwSocks w ! h;
          ready = (if msExit s then [(Some (GoErr ''connection closed''), s)] else []) @
            (if lexit w s then [(Some (GoErr ''server connection closed''), s)] else []) @
            (case prTake P m (msPeer s) of None \<Rightarrow> [] | Some q \<Rightarrow> [(None, s\<lparr>msPeer := q\<rparr>)])
      in case select_case ready w of
           (None, w) \<Rightarrow> if mwTimeout w > 0 then Some (Some deadline_error, w) else None
         | (Some (e, s), w) \<Rightarrow> Some (e, w\<lparr>mwSocks := (mwSocks w)[h := s]\<rparr>))"

definition ms_Recv ::
  "'p process \<Rightarrow> nat \<Rightarrow> 'p mem_world \<Rightarrow> ((goerr + TMessage) \<times> 'p mem_world) option" where
  "ms_Recv P h w =
     (let s = mwSocks w ! h;
          ready = (if msExit s then [(Inl (GoErr ''connection closed''), s)] else []) @
            (if lexit w s then [(Inl (GoErr ''server connection closed''), s)] else []) @
            (case prOffer P (msPeer s) of None \<Rightarrow> [] | Some (m, q) \<Rightarrow> [(Inr m, s\<lparr>msPeer := q\<rparr>)])
      in case select_case ready w of
           (None, w) \<Rightarrow> if mwTimeout w > 0 then Some (Inl deadline_error, w) else None
         | (Some (r, s), w) \<Rightarrow> Some (r, w\<lparr>mwSocks := (mwSocks w)[h := s]\<rparr>))"

definition ms_Close :: "nat \<Rightarrow> 'p mem_world \<Rightarrow> goerr option \<times> 'p mem_world" where
  "ms_Close h w =
     (if msExit (mwSocks w ! h) then (None, w)
      else (None, w\<lparr>mwSocks := (mwSocks w)[h := (mwSocks w ! h)\<lparr>msExit := True\<rparr>]\<rparr>))"

definition ml_Close :: "nat \<Rightarrow> 'p mem_world \<Rightarrow> 'p mem_world" where
  "ml_Close l w =
     (if mlExit (mwLis w ! l) then w else w\<lparr>mwLis := (mwLis w)[l := (mwLis w ! l)\<lparr>mlExit := True\<rparr>]\<rparr>)"

definition Accept_start :: "nat \<Rightarrow> 'p mem_world \<Rightarrow> 'p mem_world" where
  \<comment> \<open>a goroutine enters \<open>Accept\<close>; the connections it takes are served by the process \<open>P\<close>\<close>
  "Accept_start l w = w\<lparr>mwLis := (mwLis w)[l := (mwLis w ! l)\<lparr>mlAccepting := True\<rparr>]\<rparr>"

definition Accept_end :: "nat \<Rightarrow> 'p mem_world \<Rightarrow> 'p mem_world" where
  \<comment> \<open>it leaves, which it may once the listener is closed\<close>
  "Accept_end l w =
     (if mlExit (mwLis w ! l) then w\<lparr>mwLis := (mwLis w)[l := (mwLis w ! l)\<lparr>mlAccepting := False\<rparr>]\<rparr> else w)"

definition mt_Dial ::
  "'p process \<Rightarrow> string \<Rightarrow> DialOption list \<Rightarrow> 'p mem_world \<Rightarrow> ((goerr + nat) \<times> 'p mem_world) option" where
  \<comment> \<open>the dial options are stored in the client and not used\<close>
  "mt_Dial P addr opts w =
     (case mwListeners w addr of
        None \<Rightarrow> Some (Inl (GoErr (''could not dial '' @ addr)), w)
      | Some l \<Rightarrow>
          let lis = mwLis w ! l;
              client = \<lparr>msExit = False, msListener = l, msLocal = addr, msRemote = addr, msPeer = prStart P\<rparr>;
              ready = (if mlExit lis then [Inl (GoErr ''connection error'')] else []) @
                (if mlAccepting lis then [Inr ()] else [])
          in case select_case ready w of
               (None, w) \<Rightarrow> None
             | (Some (Inl e), w) \<Rightarrow> Some (Inl e, w)
             | (Some (Inr _), w) \<Rightarrow> Some (Inr (length (mwSocks w)), w\<lparr>mwSocks := mwSocks w @ [client]\<rparr>))"

definition mt_Listen ::
  "goerr + raw_addr list \<Rightarrow> string \<Rightarrow> string \<Rightarrow> 'p mem_world \<Rightarrow> (goerr + nat) \<times> 'p mem_world" where
  \<comment> \<open>given what \<open>net.InterfaceAddrs\<close> returns and the port drawn at random, in decimal; for a port given as a
    string \<open>HostPort\<close> does not ask whether the host is an address\<close>
  "mt_Listen ifaces rand_port addr w =
     (case SplitHostPort addr of
        Inl err \<Rightarrow> (Inl err, w)
      | Inr (host, port) \<Rightarrow>
      case Extract ifaces host of
        Inl err \<Rightarrow> (Inl err, w)
      | Inr addr \<Rightarrow>
          let port = (if port = ''0'' then rand_port else port);
              addr = HostPort (\<lambda>_. True) addr (PortString port)
          in if mwListeners w addr \<noteq> None then (Inl (GoErr (''already listening on '' @ addr)), w)
             else (Inr (length (mwLis w)),
               w\<lparr>mwLis := mwLis w @ [\<lparr>mlAddr = addr, mlExit = False, mlAccepting = False\<rparr>],
                 mwListeners := (mwListeners w)(addr \<mapsto> length (mwLis w))\<rparr>))"

definition memory_transport :: "'p process \<Rightarrow> 'p mem_world Transport" where
  "memory_transport P =
     \<lparr>trDial = mt_Dial P, trSend = ms_Send P, trRecv = ms_Recv P, trClose = ms_Close,
      trRemote = (\<lambda>h w. msRemote (mwSocks w ! h))\<rparr>"

subsection \<open>Ownership\<close>

definition mt_opened :: "'p mem_world \<Rightarrow> nat set" where
  "mt_opened w = {h. h < length (mwSocks w)}"

definition mt_closed :: "'p mem_world \<Rightarrow> nat set" where
  "mt_closed w = {h. h < length (mwSocks w) \<and> msExit (mwSocks w ! h)}"

lemma select_case_frame:
  "snd (select_case ready w) = w\<lparr>mwTick := mwTick (snd (select_case ready w))\<rparr>"
  by (simp add: select_case_def)

lemma mt_Dial_effect:
  assumes "mt_Dial P addr opts w = Some (r, w')"
  shows "case r of
      Inl e \<Rightarrow> mwSocks w' = mwSocks w
    | Inr h \<Rightarrow> h = length (mwSocks w) \<and> (\<exists>c. mwSocks w' = mwSocks w @ [c] \<and> \<not> msExit c \<and> msRemote c = addr)"
  using assms
  by (auto simp: mt_Dial_def select_case_def Let_def split: option.splits if_splits sum.splits)

lemma select_case_cases:
  assumes "select_case ready w = (x, w')"
  obtains "x = None" "w' = w" | y where "x = Some y" "y \<in> set ready" "w' = w\<lparr>mwTick := mwTick w + 1\<rparr>"
proof (cases "ready = []")
  case True
  with assms that(1) show thesis by (simp add: select_case_def)
next
  case False
  then have "ready ! (mwSched w (mwTick w) mod length ready) \<in> set ready" by simp
  with False assms show thesis by (intro that(2) [of "ready ! (mwSched w (mwTick w) mod length ready)"]) (auto simp: select_case_def)
qed

lemma set_sock_tracked:
  assumes "msExit s = msExit (mwSocks w ! h)"
  shows "mt_opened (w\<lparr>mwTick := n, mwSocks := (mwSocks w)[h := s]\<rparr>) = mt_opened w \<and>
    mt_closed (w\<lparr>mwTick := n, mwSocks := (mwSocks w)[h := s]\<rparr>) = mt_closed w"
proof -
  have "msExit ((mwSocks w)[h := s] ! x) = msExit (mwSocks w ! x)" if "x < length (mwSocks w)" for x
    using assms that by (cases "x = h") simp_all
  then show ?thesis by (auto simp: mt_opened_def mt_closed_def)
qed

lemma ms_Send_tracked:
  assumes "ms_Send P h m w = Some (e, w')"
  shows "mt_opened w' = mt_opened w \<and> mt_closed w' = mt_closed w"
proof -
  let ?s = "mwSocks w ! h"
  let ?ready = "(if msExit ?s then [(Some (GoErr ''connection closed''), ?s)] else []) @
    (if lexit w ?s then [(Some (GoErr ''server connection closed''), ?s)] else []) @
    (case prTake P m (msPeer ?s) of None \<Rightarrow> [] | Some q \<Rightarrow> [(None, ?s\<lparr>msPeer := q\<rparr>)])"
  obtain x w1 where x: "select_case ?ready w = (x, w1)" by (metis prod.exhaust)
  then show ?thesis
  proof (cases rule: select_case_cases)
    case 1
    with assms x show ?thesis by (simp add: ms_Send_def Let_def split: if_splits)
  next
    case (2 y)
    obtain e' s' where y: "y = (e', s')" by (metis prod.exhaust)
    with 2(2) have "msExit s' = msExit ?s" by (auto split: if_splits option.splits)
    moreover have "w' = w\<lparr>mwTick := mwTick w + 1, mwSocks := (mwSocks w)[h := s']\<rparr>"
      using assms x 2 y by (simp add: ms_Send_def Let_def)
    ultimately show ?thesis using set_sock_tracked by blast
  qed
qed

lemma ms_Recv_tracked:
  assumes "ms_Recv P h w = Some (r, w')"
  shows "mt_opened w' = mt_opened w \<and> mt_closed w' = mt_closed w"
proof -
  let ?s = "mwSocks w ! h"
  let ?ready = "(if msExit ?s then [(Inl (GoErr ''connection closed''), ?s)] else []) @
    (if lexit w ?s then [(Inl (GoErr ''server connection closed''), ?s)] else []) @
    (case prOffer P (msPeer ?s) of None \<Rightarrow> [] | Some (m, q) \<Rightarrow> [(Inr m, ?s\<lparr>msPeer := q\<rparr>)])"
  obtain x w1 where x: "select_case ?ready w = (x, w1)" by (metis prod.exhaust)
  then show ?thesis
  proof (cases rule: select_case_cases)
    case 1
    with assms x show ?thesis by (simp add: ms_Recv_def Let_def split: if_splits)
  next
    case (2 y)
    obtain e' s' where y: "y = (e', s')" by (metis prod.exhaust)
    with 2(2) have "msExit s' = msExit ?s" by (auto split: if_splits option.splits)
    moreover have "w' = w\<lparr>mwTick := mwTick w + 1, mwSocks := (mwSocks w)[h := s']\<rparr>"
      using assms x 2 y by (simp add: ms_Recv_def Let_def)
    ultimately show ?thesis using set_sock_tracked by blast
  qed
qed

interpretation mt: tracked_transport "memory_transport P" mt_opened mt_closed for P
proof
  fix a os w h w' e
  show "trDial (memory_transport P) a os w = Some (Inr h, w') \<Longrightarrow>
      h \<notin> mt_opened w \<and> mt_opened w' = insert h (mt_opened w) \<and> mt_closed w' = mt_closed w"
    by (auto simp: memory_transport_def mt_opened_def mt_closed_def nth_append less_Suc_eq dest!: mt_Dial_effect)
  show "trDial (memory_transport P) a os w = Some (Inl e, w') \<Longrightarrow>
      mt_opened w' = mt_opened w \<and> mt_closed w' = mt_closed w"
    by (auto simp: memory_transport_def mt_opened_def mt_closed_def dest!: mt_Dial_effect)
  show "h \<in> mt_opened w \<Longrightarrow> mt_opened (snd (trClose (memory_transport P) h w)) = mt_opened w \<and>
      mt_closed (snd (trClose (memory_transport P) h w)) = insert h (mt_closed w)"
    by (auto simp: memory_transport_def mt_opened_def mt_closed_def ms_Close_def nth_list_update)
qed

text \<open>C17. Over any transport that hands out fresh connections and closes those it is asked to close, and whatever
  clients get, release (with or without an error) and close in whichever order: a connection is never
  closed while it is idle or in use, never idle and in use at once, none is lost (what was opened and not
  closed is idle or in use), and no address has more idle connections than the pool's size.\<close>

theorem pool_conns_owned:
  assumes "tracked_transport tr opened closed" and "opened w = closed w"
    and "(conn_step tr)\<^sup>*\<^sup>* (conn_start (NewConnPool opts) w) s"
  shows "inj_on pcClient (csUsed s \<union> idle_conns (csPool s)) \<and> csUsed s \<inter> idle_conns (csPool s) = {} \<and>
    opened (csWorld s) - closed (csWorld s) = pcClient ` (csUsed s \<union> idle_conns (csPool s)) \<and>
    closed (csWorld s) \<subseteq> opened (csWorld s) \<and>
    (\<forall>a. distinct (conns_at a (csPool s)) \<and> int (length (conns_at a (csPool s))) \<le> max 0 (cpSize (csPool s)))"
proof -
  have "conn_inv opened closed s"
    using tracked_transport.conn_reach_inv [OF assms(1,3)] conn_start_inv [of opened w closed] assms(2)
    by (simp add: NewConnPool_def)
  then show ?thesis by (auto simp: conn_inv_def owned_def stacks_ok_def)
qed

definition ex_listening :: "unit mem_world" where
  "ex_listening = (NewMemoryTransport 0 (\<lambda>_. 0))\<lparr>mwListeners := [''a'' \<mapsto> 0],
     mwLis := [\<lparr>mlAddr = ''a'', mlExit = False, mlAccepting = True\<rparr>]\<rparr>"

definition silent :: "unit process" where
  "silent = \<lparr>prStart = (), prTake = \<lambda>m p. Some (), prOffer = \<lambda>p. None\<rparr>"

theorem pool_conns_owned_witness:
  "\<exists>s. (conn_step (memory_transport silent))\<^sup>*\<^sup>* (conn_start (NewConnPool [Size 2, TTL 10]) ex_listening) s \<and>
    csUsed s = {\<lparr>pcClient = 0, pcId = 7, pcCreated = 1\<rparr>} \<and>
    mt_opened (csWorld s) - mt_closed (csWorld s) = {0}"
proof -
  let ?tr = "memory_transport silent" and ?init = "conn_start (NewConnPool [Size 2, TTL 10]) ex_listening"
  let ?c = "\<lparr>pcClient = 0, pcId = 7, pcCreated = 1\<rparr>"
  obtain w where g: "pool_Get ?tr 0 1 7 ''a'' [] (csPool ?init) (csWorld ?init) = Some (Inr ?c, csPool ?init, w)"
    by (simp add: pool_Get_def get_loop.simps conn_start_def NewConnPool_def new_conn_pool_def conns_at_def memory_transport_def
        mt_Dial_def ex_listening_def NewMemoryTransport_def select_case_def Let_def)
  let ?s = "\<lparr>csPool = csPool ?init, csUsed = insert ?c (csUsed ?init), csWorld = w\<rparr>"
  have r: "(conn_step ?tr)\<^sup>*\<^sup>* ?init ?s" by (rule r_into_rtranclp) (rule conn_get [OF g])
  have e: "mt_opened ex_listening = mt_closed ex_listening"
    by (simp add: mt_opened_def mt_closed_def ex_listening_def NewMemoryTransport_def)
  have "mt_opened w - mt_closed w = {0}"
    using pool_conns_owned [OF mt.tracked_transport_axioms e r]
    by (simp add: conn_start_def NewConnPool_def new_conn_pool_def idle_conns_def conns_at_def)
  then show ?thesis using r by (intro exI [of _ ?s]) (simp add: conn_start_def)
qed

end
