(* ===== verification/RpcCodec.thy ===== *)
theory RpcCodec
  imports MemTransport Selector
begin

text \<open>
  \<^verbatim>\<open>codec/\<close>, \<^verbatim>\<open>client/rpc_codec.go\<close>, \<^verbatim>\<open>client/rpc_request.go\<close>, \<^verbatim>\<open>client/rpc_response.go\<close> and
  \<^verbatim>\<open>client/rpc_stream.go\<close>: the messages of a remote call, their encodings, and a stream of them over a
  connection.

  Representation. A value passed as \<open>interface{}\<close> is a \<open>payload\<close>: \<open>nil\<close>, a raw frame, bytes or any other
  value \<open>'v\<close>; what a reader is to fill in is a \<open>target\<close>. A codec is a record of operations on a state \<open>'c\<close>
  of its own and the pair of buffers it was made for. \<open>encoding/json\<close> is a parameter: the bytes that \<open>Encode\<close>
  writes, and what \<open>Decode\<close> returns for the decoder's state and the unread bytes, with the new state and the
  bytes left. A \<open>nil\<close> map is the empty map. An operation returns, panics (leaving a state behind) or
  blocks for ever. A client of the transport is a connection of the pool, whose \<open>Close\<close> does nothing, or
  a connection of its own. The lock of a stream makes its operations steps; \<open>Recv\<close> reads without it,
  which matters for what may happen meanwhile: see the call in the theory of the client.
\<close>

datatype ('a, 's) outcome = Returns 'a 's | Panics 's | Blocks

subsection \<open>Codecs\<close>

datatype MessageType = CtError | CtRequest | CtResponse | CtEvent

record CMessage =
  cmId :: string
  cmType :: MessageType
  cmTarget :: string
  cmMethod :: string
  cmEndpoint :: string
  cmError :: string
  cmHeader :: "string \<rightharpoonup> string"
  cmBody :: "byte list"

definition zero_message :: CMessage where
  "zero_message = \<lparr>cmId = [], cmType = CtError, cmTarget = [], cmMethod = [], cmEndpoint = [], cmError = [],
     cmHeader = Map.empty, cmBody = []\<rparr>"

definition hdr :: "(string \<rightharpoonup> string) \<Rightarrow> string \<Rightarrow> string" where
  \<comment> \<open>a missing key reads as the empty string\<close>
  "hdr m k = (case m k of None \<Rightarrow> [] | Some v \<Rightarrow> v)"

datatype 'v payload = NilBody | Frame "byte list" | Raw "byte list" | Val 'v

datatype target = ToNil | ToFrame | ToRaw | ToVal

record readWriteCloser =
  rwRbuf :: "byte list"
  rwWbuf :: "byte list"

definition rwc_Read :: "nat \<Rightarrow> readWriteCloser \<Rightarrow> (goerr + byte list) \<times> readWriteCloser" where
  \<comment> \<open>into a slice of the given length, as \<open>bytes.Buffer\<close> does\<close>
  "rwc_Read n b =
     (if rwRbuf b = [] then (if n = 0 then Inr [] else Inl IoEOF, b)
      else (Inr (take n (rwRbuf b)), b\<lparr>rwRbuf := drop n (rwRbuf b)\<rparr>))"

definition rwc_Write :: "byte list \<Rightarrow> readWriteCloser \<Rightarrow> nat \<times> readWriteCloser" where
  "rwc_Write p b = (length p, b\<lparr>rwWbuf := rwWbuf b @ p\<rparr>)"

definition rwc_Close :: "readWriteCloser \<Rightarrow> goerr option \<times> readWriteCloser" where
  "rwc_Close b = (None, b\<lparr>rwRbuf := [], rwWbuf := []\<rparr>)"

record ('c, 'v) Codec =
  cdStart :: 'c
  cdReadHeader :: "CMessage \<Rightarrow> MessageType \<Rightarrow> 'c \<Rightarrow> readWriteCloser \<Rightarrow> (goerr option \<times> CMessage) \<times> 'c \<times> readWriteCloser"
  cdReadBody :: "target \<Rightarrow> 'c \<Rightarrow> readWriteCloser \<Rightarrow> (goerr + 'v payload, 'c \<times> readWriteCloser) outcome"
  cdWrite :: "CMessage \<Rightarrow> 'v payload \<Rightarrow> 'c \<Rightarrow> readWriteCloser \<Rightarrow> (goerr option, 'c \<times> readWriteCloser) outcome"
  cdClose :: "'c \<Rightarrow> readWriteCloser \<Rightarrow> goerr option \<times> 'c \<times> readWriteCloser"

record ('c, 'v) encoding_json =
  \<comment> \<open>the third-party encoder and decoder; \<open>None\<close> is a panic of a marshalling method of the value\<close>
  ejStart :: 'c
  ejEncode :: "'v payload \<Rightarrow> (goerr + byte list) option"
  ejDecode :: "target \<Rightarrow> 'c \<Rightarrow> byte list \<Rightarrow> ((goerr + 'v payload) \<times> 'c \<times> byte list) option"

definition json_ReadHeader :: "CMessage \<Rightarrow> MessageType \<Rightarrow> 'c \<Rightarrow> readWriteCloser \<Rightarrow> (goerr option \<times> CMessage) \<times> 'c \<times> readWriteCloser" where
  "json_ReadHeader m t c b = ((None, m), c, b)"

definition json_ReadBody ::
  "('c, 'v) encoding_json \<Rightarrow> target \<Rightarrow> 'c \<Rightarrow> readWriteCloser \<Rightarrow> (goerr + 'v payload, 'c \<times> readWriteCloser) outcome" where
  "json_ReadBody E t c b =
     (if t = ToNil then Returns (Inr NilBody) (c, b)
      else case ejDecode E t c (rwRbuf b) of
        None \<Rightarrow> Panics (c, b)
      | Some (r, c, rest) \<Rightarrow> Returns r (c, b\<lparr>rwRbuf := rest\<rparr>))"

definition json_Write ::
  "('c, 'v) encoding_json \<Rightarrow> CMessage \<Rightarrow> 'v payload \<Rightarrow> 'c \<Rightarrow> readWriteCloser \<Rightarrow> (goerr option, 'c \<times> readWriteCloser) outcome" where
  "json_Write E m v c b =
     (if v = NilBody then Returns None (c, b)
      else case ejEncode E v of
        None \<Rightarrow> Panics (c, b)
      | Some (Inl err) \<Rightarrow> Returns (Some err) (c, b)
      | Some (Inr bytes) \<Rightarrow> Returns None (c, snd (rwc_Write bytes b)))"

definition json_Close :: "'c \<Rightarrow> readWriteCloser \<Rightarrow> goerr option \<times> 'c \<times> readWriteCloser" where
  "json_Close c b = (let (e, b) = rwc_Close b in (e, c, b))"

definition json_NewCodec :: "('c, 'v) encoding_json \<Rightarrow> ('c, 'v) Codec" where
  "json_NewCodec E = \<lparr>cdStart = ejStart E, cdReadHeader = json_ReadHeader, cdReadBody = json_ReadBody E,
     cdWrite = json_Write E, cdClose = json_Close\<rparr>"

definition bytes_ReadBody ::
  "(target \<Rightarrow> string) \<Rightarrow> target \<Rightarrow> 'c \<Rightarrow> readWriteCloser \<Rightarrow> (goerr + 'v payload, 'c \<times> readWriteCloser) outcome" where
  \<comment> \<open>reads the buffer to its end; \<open>show\<close> is the verb \<open>%v\<close>\<close>
  "bytes_ReadBody show t c b =
     (let buf = rwRbuf b;
          b = b\<lparr>rwRbuf := []\<rparr>
      in case t of
           ToRaw \<Rightarrow> Returns (Inr (Raw buf)) (c, b)
         | ToFrame \<Rightarrow> Returns (Inr (Frame buf)) (c, b)
         | _ \<Rightarrow> Returns (Inl (GoErr (''failed to read body: '' @ show t @ '' is not type of *[]byte''))) (c, b))"

definition bytes_Write ::
  "('v payload \<Rightarrow> string) \<Rightarrow> CMessage \<Rightarrow> 'v payload \<Rightarrow> 'c \<Rightarrow> readWriteCloser \<Rightarrow> (goerr option, 'c \<times> readWriteCloser) outcome" where
  "bytes_Write show m v c b =
     (case v of
        Frame d \<Rightarrow> Returns None (c, snd (rwc_Write d b))
      | Raw d \<Rightarrow> Returns None (c, snd (rwc_Write d b))
      | _ \<Rightarrow> Returns (Some (GoErr (''failed to write: '' @ show v @ '' is not type of *[]byte or []byte''))) (c, b))"

definition bytes_NewCodec :: "(target \<Rightarrow> string) \<Rightarrow> ('v payload \<Rightarrow> string) \<Rightarrow> 'c \<Rightarrow> ('c, 'v) Codec" where
  "bytes_NewCodec show_target show c0 = \<lparr>cdStart = c0, cdReadHeader = json_ReadHeader, cdReadBody = bytes_ReadBody show_target,
     cdWrite = bytes_Write show, cdClose = json_Close\<rparr>"

datatype marshal_arg = MaBytes "byte list" | MaMessage "string \<rightharpoonup> string" "byte list" | MaOther
  \<comment> \<open>bytes or a pointer to them, a pointer to a \<open>Message\<close>, a value of any other type\<close>

definition ErrInvalidMessage :: goerr where
  "ErrInvalidMessage = GoErr ''invalid message''"

definition bytes_Marshal :: "marshal_arg \<Rightarrow> goerr + byte list" where
  "bytes_Marshal v = (case v of MaBytes d \<Rightarrow> Inr d | MaMessage h d \<Rightarrow> Inr d | MaOther \<Rightarrow> Inl ErrInvalidMessage)"

definition bytes_Unmarshal :: "byte list \<Rightarrow> marshal_arg \<Rightarrow> goerr option \<times> marshal_arg" where
  \<comment> \<open>the error is returned in every case\<close>
  "bytes_Unmarshal d v =
     (Some ErrInvalidMessage, case v of MaBytes _ \<Rightarrow> MaBytes d | MaMessage h _ \<Rightarrow> MaMessage h d | MaOther \<Rightarrow> MaOther)"

subsection \<open>Headers\<close>

definition getHeaders :: "CMessage \<Rightarrow> CMessage" where
  "getHeaders m =
     (let set' = (\<lambda>v h. if length v > 0 then v else hdr (cmHeader m) h)
      in m\<lparr>cmError := set' (cmError m) ''Micro-Error'',
           cmEndpoint := set' (cmEndpoint m) ''Micro-Endpoint'',
           cmMethod := set' (cmMethod m) ''Micro-Method'',
           cmId := set' (cmId m) ''Micro-Id''\<rparr>)"

definition set_header :: "string \<Rightarrow> string \<Rightarrow> CMessage \<Rightarrow> CMessage" where
  "set_header h v m = (if length v = 0 then m else m\<lparr>cmHeader := (cmHeader m)(h \<mapsto> v)\<rparr>)"

definition setHeaders :: "string \<Rightarrow> CMessage \<Rightarrow> CMessage" where
  "setHeaders stream m =
     (let m = set_header ''Micro-Id'' (cmId m) m;
          m = set_header ''Micro-Service'' (cmTarget m) m;
          m = set_header ''Micro-Method'' (cmMethod m) m;
          m = set_header ''Micro-Endpoint'' (cmEndpoint m) m;
          m = set_header ''Micro-Error'' (cmError m) m
      in if length stream > 0 then set_header ''Micro-Stream'' stream m else m)"

definition DefaultContentType :: string where
  "DefaultContentType = ''application/json''"

definition DefaultCodecs :: "('c, 'v) encoding_json \<Rightarrow> string \<Rightarrow> ('c, 'v) Codec option" where
  "DefaultCodecs E = [''application/json'' \<mapsto> json_NewCodec E]"

definition setupProtocol ::
  "('c, 'v) encoding_json \<Rightarrow> TMessage \<Rightarrow> Node \<Rightarrow> ('c, 'v) Codec option \<times> TMessage" where
  \<comment> \<open>\<open>None\<close>: the \<open>nil\<close> codec\<close>
  "setupProtocol E msg node =
     (let protocol = (case meta node ''protocol'' of None \<Rightarrow> [] | Some v \<Rightarrow> v)
      in if length protocol > 0 then (None, msg)
         else if length (hdr (tmHeader msg) ''Micro-Topic'') > 0 then (None, msg)
         else
           let ct = hdr (tmHeader msg) ''Content-Type'';
               msg = (if ct = ''application/json'' then msg\<lparr>tmHeader := (tmHeader msg)(''Content-Type'' \<mapsto> ''application/json'')\<rparr>
                      else if ct = ''application/protobuf'' then msg\<lparr>tmHeader := (tmHeader msg)(''Content-Type'' \<mapsto> ''application/proto-rpc'')\<rparr>
                      else msg)
           in (DefaultCodecs E (hdr (tmHeader msg) ''Content-Type''), msg))"

subsection \<open>The codec of a connection\<close>

datatype conn_client = Pooled poolConn | Direct nat

fun cl_handle :: "conn_client \<Rightarrow> nat" where
  "cl_handle (Pooled c) = pcClient c"
| "cl_handle (Direct h) = h"

fun cl_Close :: "'w Transport \<Rightarrow> conn_client \<Rightarrow> 'w \<Rightarrow> goerr option \<times> 'w" where
  "cl_Close tr (Pooled c) w = (pc_Close c, w)"
| "cl_Close tr (Direct h) w = trClose tr h w"

record ('c, 'v) rpcCodec =
  rkClient :: conn_client
  rkCodec :: "('c, 'v) Codec"
  rkState :: 'c
  rkReq :: TMessage
  rkBuf :: readWriteCloser
  rkStream :: string

definition newRpcCodec :: "TMessage \<Rightarrow> conn_client \<Rightarrow> ('c, 'v) Codec \<Rightarrow> string \<Rightarrow> ('c, 'v) rpcCodec" where
  "newRpcCodec req client c stream =
     \<lparr>rkClient = client, rkCodec = c, rkState = cdStart c, rkReq = req, rkBuf = \<lparr>rwRbuf = [], rwWbuf = []\<rparr>, rkStream = stream\<rparr>"

definition wrap_error :: "string \<Rightarrow> goerr option \<Rightarrow> goerr option" where
  "wrap_error where' e = map_option (\<lambda>e. GoErr (where' @ errText e)) e"

definition rk_body ::
  "CMessage \<Rightarrow> 'v payload \<Rightarrow> ('c, 'v) rpcCodec \<Rightarrow> (goerr + CMessage, ('c, 'v) rpcCodec) outcome" where
  \<comment> \<open>the encoding of the body in \<open>Write\<close>\<close>
  "rk_body m body k =
     (case body of
        NilBody \<Rightarrow> Returns (Inr m) k
      | Frame d \<Rightarrow> Returns (Inr (m\<lparr>cmBody := d\<rparr>)) k
      | _ \<Rightarrow>
          case cdWrite (rkCodec k) m body (rkState k) (rkBuf k) of
            Blocks \<Rightarrow> Blocks
          | Panics (c, b) \<Rightarrow> Panics (k\<lparr>rkState := c, rkBuf := b\<rparr>)
          | Returns (Some err) (c, b) \<Rightarrow>
              Returns (Inl (GoErr (''go.micro.client.codec:'' @ errText err))) (k\<lparr>rkState := c, rkBuf := b\<rparr>)
          | Returns None (c, b) \<Rightarrow> Returns (Inr (m\<lparr>cmBody := rwWbuf b\<rparr>)) (k\<lparr>rkState := c, rkBuf := b\<rparr>))"

definition rk_Write ::
  "'w Transport \<Rightarrow> CMessage \<Rightarrow> 'v payload \<Rightarrow> ('c, 'v) rpcCodec \<Rightarrow> 'w \<Rightarrow> (goerr option, ('c, 'v) rpcCodec \<times> 'w) outcome" where
  "rk_Write tr m body k w =
     (let k = k\<lparr>rkBuf := (rkBuf k)\<lparr>rwWbuf := []\<rparr>\<rparr>;
          m = m\<lparr>cmHeader := cmHeader m ++ tmHeader (rkReq k)\<rparr>;
          m = setHeaders (rkStream k) m
      in case rk_body m body k of
           Blocks \<Rightarrow> Blocks
         | Panics k \<Rightarrow> Panics (k, w)
         | Returns (Inl err) k \<Rightarrow> Returns (Some err) (k, w)
         | Returns (Inr m) k \<Rightarrow>
             case trSend tr (cl_handle (rkClient k)) \<lparr>tmHeader = cmHeader m, tmBody = cmBody m\<rparr> w of
               None \<Rightarrow> Blocks
             | Some (e, w) \<Rightarrow> Returns (wrap_error ''go.micro.client.transport:'' e) (k, w))"

definition rk_ReadHeader ::
  "'w Transport \<Rightarrow> CMessage \<Rightarrow> MessageType \<Rightarrow> ('c, 'v) rpcCodec \<Rightarrow> 'w \<Rightarrow>
   (goerr option \<times> CMessage, ('c, 'v) rpcCodec \<times> 'w) outcome" where
  "rk_ReadHeader tr m r k w =
     (case trRecv tr (cl_handle (rkClient k)) w of
        None \<Rightarrow> Blocks
      | Some (Inl err, w) \<Rightarrow> Returns (Some (GoErr (''go.micro.client.transport:'' @ errText err)), m) (k, w)
      | Some (Inr tm, w) \<Rightarrow>
          let k = k\<lparr>rkBuf := (rkBuf k)\<lparr>rwRbuf := tmBody tm\<rparr>\<rparr>;
              m = m\<lparr>cmHeader := tmHeader tm\<rparr>;
              ((err, m), c, b) = cdReadHeader (rkCodec k) m r (rkState k) (rkBuf k)
          in Returns (wrap_error ''go.micro.client.codec:'' err, getHeaders m) (k\<lparr>rkState := c, rkBuf := b\<rparr>, w))"

definition rk_ReadBody ::
  "target \<Rightarrow> ('c, 'v) rpcCodec \<Rightarrow> (goerr + 'v payload, ('c, 'v) rpcCodec) outcome" where
  "rk_ReadBody t k =
     (if t = ToFrame then Returns (Inr (Frame (rwRbuf (rkBuf k)))) k
      else case cdReadBody (rkCodec k) t (rkState k) (rkBuf k) of
        Blocks \<Rightarrow> Blocks
      | Panics (c, b) \<Rightarrow> Panics (k\<lparr>rkState := c, rkBuf := b\<rparr>)
      | Returns (Inl err) (c, b) \<Rightarrow>
          Returns (Inl (GoErr (''go.micro.client.codec:'' @ errText err))) (k\<lparr>rkState := c, rkBuf := b\<rparr>)
      | Returns (Inr v) (c, b) \<Rightarrow> Returns (Inr v) (k\<lparr>rkState := c, rkBuf := b\<rparr>))"

definition rk_Close :: "'w Transport \<Rightarrow> ('c, 'v) rpcCodec \<Rightarrow> 'w \<Rightarrow> goerr option \<times> ('c, 'v) rpcCodec \<times> 'w" where
  "rk_Close tr k w =
     (let b = snd (rwc_Close (rkBuf k));
          (_, c, b) = cdClose (rkCodec k) (rkState k) b;
          (e, w) = cl_Close tr (rkClient k) w
      in (wrap_error ''go.micro.client.transport:'' e, k\<lparr>rkState := c, rkBuf := b\<rparr>, w))"

subsection \<open>Requests and streams\<close>

record RequestOptions =
  rqoContentType :: string
  rqoStream :: bool

definition WithContentType :: "string \<Rightarrow> RequestOptions \<Rightarrow> RequestOptions" where
  "WithContentType ct o' = o'\<lparr>rqoContentType := ct\<rparr>"

definition StreamingRequest :: "RequestOptions \<Rightarrow> RequestOptions" where
  "StreamingRequest o' = o'\<lparr>rqoStream := True\<rparr>"

record 'v rpcRequest =
  rqService :: string
  rqMethod :: string
  rqEndpoint :: string
  rqContentType :: string
  rqBody :: "'v payload"
  rqOpts :: RequestOptions

definition newRequest ::
  "string \<Rightarrow> string \<Rightarrow> 'v payload \<Rightarrow> string \<Rightarrow> (RequestOptions \<Rightarrow> RequestOptions) list \<Rightarrow> 'v rpcRequest" where
  "newRequest service endpoint request contentType reqOpts =
     (let opts = fold (\<lambda>f. f) reqOpts \<lparr>rqoContentType = [], rqoStream = False\<rparr>;
          contentType = (if length (rqoContentType opts) > 0 then rqoContentType opts else contentType)
      in \<lparr>rqService = service, rqMethod = endpoint, rqEndpoint = endpoint, rqContentType = contentType,
          rqBody = request, rqOpts = opts\<rparr>)"

record rpcResponse =
  rrHeader :: "string \<rightharpoonup> string"
  rrBody :: "byte list"

definition rr_Read :: "'w Transport \<Rightarrow> nat \<Rightarrow> rpcResponse \<Rightarrow> 'w \<Rightarrow> ((goerr + byte list) \<times> rpcResponse \<times> 'w) option" where
  \<comment> \<open>the undecoded response\<close>
  "rr_Read tr h r w =
     map_option (\<lambda>(m, w). case m of
         Inl err \<Rightarrow> (Inl err, r, w)
       | Inr msg \<Rightarrow> (Inr (tmBody msg), r\<lparr>rrHeader := tmHeader msg, rrBody := tmBody msg\<rparr>, w)) (trRecv tr h w)"

definition lastStreamResponseError :: string where
  "lastStreamResponseError = ''EOS''"

definition errShutdown :: goerr where
  "errShutdown = GoErr ''connection is shut down''"

record ('c, 'v) rpcStream =
  rsId :: string
  rsClosed :: bool
  rsErr :: "goerr option"
  rsRequest :: "'v rpcRequest"
  rsCodec :: "('c, 'v) rpcCodec"
  rsSendEOS :: bool

definition stream_message :: "('c, 'v) rpcStream \<Rightarrow> MessageType \<Rightarrow> string \<Rightarrow> CMessage" where
  "stream_message r t err =
     \<lparr>cmId = rsId r, cmType = t, cmTarget = rqService (rsRequest r), cmMethod = rqMethod (rsRequest r),
      cmEndpoint = rqEndpoint (rsRequest r), cmError = err, cmHeader = Map.empty, cmBody = []\<rparr>"

definition rs_Send ::
  "'w Transport \<Rightarrow> 'v payload \<Rightarrow> ('c, 'v) rpcStream \<Rightarrow> 'w \<Rightarrow> (goerr option, ('c, 'v) rpcStream \<times> 'w) outcome" where
  "rs_Send tr msg r w =
     (if rsClosed r then Returns (Some errShutdown) (r\<lparr>rsErr := Some errShutdown\<rparr>, w)
      else case rk_Write tr (stream_message r CtRequest []) msg (rsCodec r) w of
        Blocks \<Rightarrow> Blocks
      | Panics (k, w) \<Rightarrow> Panics (r\<lparr>rsCodec := k\<rparr>, w)
      | Returns (Some err) (k, w) \<Rightarrow> Returns (Some err) (r\<lparr>rsCodec := k, rsErr := Some err\<rparr>, w)
      | Returns None (k, w) \<Rightarrow> Returns None (r\<lparr>rsCodec := k\<rparr>, w))"

definition rs_recv_body ::
  "CMessage \<Rightarrow> target \<Rightarrow> ('c, 'v) rpcStream \<Rightarrow> (goerr option \<times> 'v payload option, ('c, 'v) rpcStream) outcome" where
  \<comment> \<open>\<open>Recv\<close> once the header has been read; the error returned is the field \<open>err\<close>\<close>
  "rs_recv_body resp t r =
     (let isErr = length (cmError resp) > 0;
          r = (if isErr then r\<lparr>rsErr := Some (if cmError resp \<noteq> lastStreamResponseError then GoErr (cmError resp) else IoEOF)\<rparr>
               else r)
      in case rk_ReadBody (if isErr then ToNil else t) (rsCodec r) of
           Blocks \<Rightarrow> Blocks
         | Panics k \<Rightarrow> Panics (r\<lparr>rsCodec := k\<rparr>)
         | Returns (Inl err) k \<Rightarrow> Returns (Some err, None) (r\<lparr>rsCodec := k, rsErr := Some err\<rparr>)
         | Returns (Inr v) k \<Rightarrow> Returns (rsErr r, if isErr then None else Some v) (r\<lparr>rsCodec := k\<rparr>))"

definition rs_Recv ::
  "'w Transport \<Rightarrow> target \<Rightarrow> ('c, 'v) rpcStream \<Rightarrow> 'w \<Rightarrow>
   (goerr option \<times> 'v payload option, ('c, 'v) rpcStream \<times> 'w) outcome" where
  \<comment> \<open>the error, and what was put into the target\<close>
  "rs_Recv tr t r w =
     (if rsClosed r then Returns (Some errShutdown, None) (r\<lparr>rsErr := Some errShutdown\<rparr>, w)
      else case rk_ReadHeader tr zero_message CtResponse (rsCodec r) w of
        Blocks \<Rightarrow> Blocks
      | Panics (k, w) \<Rightarrow> Panics (r\<lparr>rsCodec := k\<rparr>, w)
      | Returns (Some err, _) (k, w) \<Rightarrow>
          let r = r\<lparr>rsCodec := k\<rparr>;
              err = (if err = IoEOF \<and> \<not> rsClosed r then UnexpectedEOF else err)
          in Returns (Some err, None) (r\<lparr>rsErr := Some err\<rparr>, w)
      | Returns (None, resp) (k, w) \<Rightarrow>
          (case rs_recv_body resp t (r\<lparr>rsCodec := k\<rparr>) of
             Blocks \<Rightarrow> Blocks
           | Panics r \<Rightarrow> Panics (r, w)
           | Returns x r \<Rightarrow> Returns x (r, w)))"

definition rs_release ::
  "'w Transport \<Rightarrow> ('c, 'v) rpcStream \<Rightarrow> conn_pool \<Rightarrow> 'w \<Rightarrow> conn_pool \<times> 'w" where
  \<comment> \<open>the function \<open>release\<close> of the stream, made by \<open>call\<close> or by \<open>stream\<close>\<close>
  "rs_release tr r p w =
     (case rkClient (rsCodec r) of
        Pooled c \<Rightarrow> snd (pool_Release tr c (rsErr r) p w)
      | Direct h \<Rightarrow> (p, snd (trClose tr h w)))"

definition rs_eos :: "'w Transport \<Rightarrow> ('c, 'v) rpcStream \<Rightarrow> 'w \<Rightarrow> (unit, ('c, 'v) rpcStream \<times> 'w) outcome" where
  \<comment> \<open>the end of stream message of \<open>Close\<close>, its error ignored\<close>
  "rs_eos tr r w =
     (if rsSendEOS r then
        case rk_Write tr (stream_message r CtError lastStreamResponseError) NilBody (rsCodec r) w of
          Blocks \<Rightarrow> Blocks
        | Panics (k, w) \<Rightarrow> Panics (r\<lparr>rsCodec := k\<rparr>, w)
        | Returns _ (k, w) \<Rightarrow> Returns () (r\<lparr>rsCodec := k\<rparr>, w)
      else Returns () (r, w))"

definition rs_Close ::
  "'w Transport \<Rightarrow> ('c, 'v) rpcStream \<Rightarrow> conn_pool \<Rightarrow> 'w \<Rightarrow>
   (goerr option, ('c, 'v) rpcStream \<times> conn_pool \<times> 'w) outcome" where
  "rs_Close tr r p w =
     (if rsClosed r then Returns None (r, p, w)
      else
        case rs_eos tr (r\<lparr>rsClosed := True\<rparr>) w of
          Blocks \<Rightarrow> Blocks
        | Panics (r, w) \<Rightarrow> Panics (r, p, w)
        | Returns _ (r, w) \<Rightarrow>
            let (err, k, w) = rk_Close tr (rsCodec r) w;
                r = r\<lparr>rsCodec := k\<rparr>;
                (p, w) = rs_release tr r p w
            in Returns err (r, p, w))"

definition rs_CloseSend :: "goerr option" where
  "rs_CloseSend = Some (GoErr ''streamer not implemented'')"

subsection \<open>What a message carries\<close>

definition or_else :: "string \<Rightarrow> string \<Rightarrow> string" where
  "or_else v old = (if v = [] then old else v)"

lemma set_header_simps [simp]:
  "cmId (set_header h v m) = cmId m" "cmTarget (set_header h v m) = cmTarget m" "cmMethod (set_header h v m) = cmMethod m"
  "cmEndpoint (set_header h v m) = cmEndpoint m" "cmError (set_header h v m) = cmError m" "cmBody (set_header h v m) = cmBody m"
  "cmType (set_header h v m) = cmType m"
  "hdr (cmHeader (set_header h v m)) k = (if k = h then or_else v (hdr (cmHeader m) k) else hdr (cmHeader m) k)"
  by (simp_all add: set_header_def hdr_def or_else_def)

lemma setHeaders_hdr:
  "hdr (cmHeader (setHeaders stream m)) k =
    (if k = ''Micro-Id'' then or_else (cmId m) (hdr (cmHeader m) k)
     else if k = ''Micro-Service'' then or_else (cmTarget m) (hdr (cmHeader m) k)
     else if k = ''Micro-Method'' then or_else (cmMethod m) (hdr (cmHeader m) k)
     else if k = ''Micro-Endpoint'' then or_else (cmEndpoint m) (hdr (cmHeader m) k)
     else if k = ''Micro-Error'' then or_else (cmError m) (hdr (cmHeader m) k)
     else if k = ''Micro-Stream'' then or_else stream (hdr (cmHeader m) k)
     else hdr (cmHeader m) k)"
  by (simp add: setHeaders_def Let_def) (simp add: or_else_def)

lemma getHeaders_fields [simp]:
  "cmError (getHeaders m) = or_else (cmError m) (hdr (cmHeader m) ''Micro-Error'')"
  "cmEndpoint (getHeaders m) = or_else (cmEndpoint m) (hdr (cmHeader m) ''Micro-Endpoint'')"
  "cmMethod (getHeaders m) = or_else (cmMethod m) (hdr (cmHeader m) ''Micro-Method'')"
  "cmId (getHeaders m) = or_else (cmId m) (hdr (cmHeader m) ''Micro-Id'')"
  "cmHeader (getHeaders m) = cmHeader m"
  by (simp_all add: getHeaders_def or_else_def Let_def)

definition json_restores :: "('c, 'v) encoding_json \<Rightarrow> target \<Rightarrow> 'v payload \<Rightarrow> 'c \<Rightarrow> bool" where
  \<comment> \<open>what is relied on of the encoder: it accepts the value, and a decoder in the given state reads it back\<close>
  "json_restores E t v c \<longleftrightarrow> (case ejEncode E v of
     Some (Inr bytes) \<Rightarrow> (case ejDecode E t c bytes of Some (Inr v', _) \<Rightarrow> v' = v | _ \<Rightarrow> False)
   | _ \<Rightarrow> False)"

definition payload_restored :: "('c, 'v) encoding_json \<Rightarrow> target \<Rightarrow> 'v payload \<Rightarrow> 'c \<Rightarrow> bool" where
  \<comment> \<open>frames bypass the encoder\<close>
  "payload_restored E t v c \<longleftrightarrow> (case v of
     NilBody \<Rightarrow> t = ToNil
   | Frame _ \<Rightarrow> t = ToFrame
   | _ \<Rightarrow> t \<in> {ToRaw, ToVal} \<and> json_restores E t v c)"

definition echoes :: "'w Transport \<Rightarrow> nat \<Rightarrow> 'w \<Rightarrow> (TMessage \<Rightarrow> 'w) \<Rightarrow> (TMessage \<Rightarrow> 'w) \<Rightarrow> bool" where
  \<comment> \<open>the peer of the connection \<open>h\<close> sends back what it gets\<close>
  "echoes tr h w S R \<longleftrightarrow> (\<forall>m. trSend tr h m w = Some (None, S m) \<and> trRecv tr h (S m) = Some (Inr m, R m))"

lemma json_restoresE:
  assumes "json_restores E t v c"
  obtains bytes c' rest where "ejEncode E v = Some (Inr bytes)" and "ejDecode E t c bytes = Some (Inr v, c', rest)"
proof -
  obtain bytes where b: "ejEncode E v = Some (Inr bytes)"
    using assms by (auto simp: json_restores_def split: option.splits sum.splits)
  obtain x c' rest where d: "ejDecode E t c bytes = Some (x, c', rest)"
    using assms b by (cases "ejDecode E t c bytes") (auto simp: json_restores_def)
  with assms b have "x = Inr v" by (cases x) (auto simp: json_restores_def)
  with b d show thesis by (intro that) auto
qed

lemma rk_body_json:
  assumes "payload_restored E t v (rkState k)" and "rkCodec k = json_NewCodec E" and "rwWbuf (rkBuf k) = []"
  obtains m' b where "rk_body m v k = Returns (Inr m') (k\<lparr>rkBuf := b\<rparr>)" and "cmHeader m' = cmHeader m"
    and "\<And>b'. rwRbuf b' = cmBody m' \<Longrightarrow> \<exists>k'. rk_ReadBody t (k\<lparr>rkBuf := b'\<rparr>) = Returns (Inr v) k'"
proof -
  have frames: "t = ToNil \<and> v = NilBody \<or> (\<exists>d. t = ToFrame \<and> v = Frame d) \<or>
      t \<in> {ToRaw, ToVal} \<and> json_restores E t v (rkState k) \<and> v \<noteq> NilBody \<and> (\<forall>d. v \<noteq> Frame d)"
    using assms(1) by (cases v) (auto simp: payload_restored_def)
  then consider "t = ToNil" "v = NilBody" | d where "t = ToFrame" "v = Frame d"
    | "t \<in> {ToRaw, ToVal}" "json_restores E t v (rkState k)" "v \<noteq> NilBody" "\<forall>d. v \<noteq> Frame d" by blast
  then show thesis
  proof cases
    case 1
    with assms show thesis
      by (intro that [of m "rkBuf k"]) (simp_all add: rk_body_def rk_ReadBody_def json_NewCodec_def json_ReadBody_def)
  next
    case 2
    then show thesis
      by (intro that [of "m\<lparr>cmBody := d\<rparr>" "rkBuf k"]) (simp_all add: rk_body_def rk_ReadBody_def)
  next
    case 3
    obtain bytes c' rest where e: "ejEncode E v = Some (Inr bytes)" "ejDecode E t (rkState k) bytes = Some (Inr v, c', rest)"
      using 3(2) by (rule json_restoresE)
    have "rk_body m v k = Returns (Inr (m\<lparr>cmBody := bytes\<rparr>)) (k\<lparr>rkBuf := snd (rwc_Write bytes (rkBuf k))\<rparr>)"
      using 3 e assms(2,3) by (cases v) (auto simp: rk_body_def json_NewCodec_def json_Write_def rwc_Write_def)
    moreover have "\<exists>k'. rk_ReadBody t (k\<lparr>rkBuf := b'\<rparr>) = Returns (Inr v) k'" if "rwRbuf b' = bytes" for b'
      using 3(1) e that assms(2) by (auto simp: rk_ReadBody_def json_NewCodec_def json_ReadBody_def)
    ultimately show thesis by (intro that [of "m\<lparr>cmBody := bytes\<rparr>" "snd (rwc_Write bytes (rkBuf k))"]) auto
  qed
qed

definition sent_hdr :: "('c, 'v) rpcStream \<Rightarrow> string \<Rightarrow> string" where
  \<comment> \<open>the headers of a request sent on the stream\<close>
  "sent_hdr r k =
     (let old = hdr (tmHeader (rkReq (rsCodec r))) k in
         if k = ''Micro-Id'' then or_else (rsId r) old
         else if k = ''Micro-Service'' then or_else (rqService (rsRequest r)) old
         else if k = ''Micro-Method'' then or_else (rqMethod (rsRequest r)) old
         else if k = ''Micro-Endpoint'' then or_else (rqEndpoint (rsRequest r)) old
         else if k = ''Micro-Stream'' then or_else (rkStream (rsCodec r)) old
         else old)"

text \<open>C19. A payload sent on a stream to a peer that echoes is received unchanged, if the encoder restores it: the
  headers of the message are the request's with the identifiers of the stream and the call filled in,
  and the stream records no error.\<close>

theorem rpc_echo:
  assumes "\<not> rsClosed r" and "rsErr r = None" and "rkCodec (rsCodec r) = json_NewCodec E"
    and "echoes tr (cl_handle (rkClient (rsCodec r))) w S R"
    and "payload_restored E t v (rkState (rsCodec r))"
    and "hdr (tmHeader (rkReq (rsCodec r))) ''Micro-Error'' = []"
  shows "\<exists>m r1 r2. rs_Send tr v r w = Returns None (r1, S m) \<and> rs_Recv tr t r1 (S m) = Returns (None, Some v) (r2, R m) \<and>
    rsErr r2 = None \<and>
    (\<forall>k. hdr (tmHeader m) k = sent_hdr r k)"
proof -
  let ?k = "(rsCodec r)\<lparr>rkBuf := (rkBuf (rsCodec r))\<lparr>rwWbuf := []\<rparr>\<rparr>"
  let ?m0 = "stream_message r CtRequest []"
  let ?m1 = "setHeaders (rkStream (rsCodec r)) (?m0\<lparr>cmHeader := cmHeader ?m0 ++ tmHeader (rkReq (rsCodec r))\<rparr>)"
  obtain m' b where b: "rk_body ?m1 v ?k = Returns (Inr m') (?k\<lparr>rkBuf := b\<rparr>)" "cmHeader m' = cmHeader ?m1"
    and rd: "\<And>b'. rwRbuf b' = cmBody m' \<Longrightarrow> \<exists>k'. rk_ReadBody t (?k\<lparr>rkBuf := b'\<rparr>) = Returns (Inr v) k'"
    by (rule rk_body_json [of E t v ?k ?m1]) (use assms(3,5) in simp_all)
  let ?m = "\<lparr>tmHeader = cmHeader m', tmBody = cmBody m'\<rparr>" and ?r1 = "r\<lparr>rsCodec := (rsCodec r)\<lparr>rkBuf := b\<rparr>\<rparr>"
  have send: "rs_Send tr v r w = Returns None (?r1, S ?m)"
    using assms(1,4) b(1) by (simp add: rs_Send_def rk_Write_def echoes_def wrap_error_def Let_def)
  have h: "hdr (tmHeader ?m) k = sent_hdr r k" for k
    by (simp add: b(2) setHeaders_hdr sent_hdr_def stream_message_def or_else_def)
  then have noerr: "hdr (tmHeader ?m) ''Micro-Error'' = []" using assms(6) by (simp add: sent_hdr_def)
  obtain k' where k': "rk_ReadBody t ((rsCodec r)\<lparr>rkBuf := b\<lparr>rwRbuf := cmBody m'\<rparr>\<rparr>) = Returns (Inr v) k'"
    using rd [of "b\<lparr>rwRbuf := cmBody m'\<rparr>"] by auto
  have "rs_Recv tr t ?r1 (S ?m) = Returns (None, Some v) (?r1\<lparr>rsCodec := k'\<rparr>, R ?m)"
    using assms(1-4) noerr k'
    by (simp add: rs_Recv_def rk_ReadHeader_def echoes_def json_NewCodec_def json_ReadHeader_def rs_recv_body_def
        wrap_error_def zero_message_def or_else_def)
  with send h assms(2) show ?thesis by (intro exI [of _ ?m] exI [of _ ?r1] exI [of _ "?r1\<lparr>rsCodec := k'\<rparr>"]) simp
qed

definition echo_process :: "TMessage option process" where
  "echo_process = \<lparr>prStart = None, prTake = \<lambda>m p. if p = None then Some (Some m) else None, prOffer = map_option (\<lambda>m. (m, None))\<rparr>"

definition echo_world :: "TMessage option mem_world" where
  "echo_world = (NewMemoryTransport 0 (\<lambda>_. 0))\<lparr>mwListeners := [''a'' \<mapsto> 0],
     mwLis := [\<lparr>mlAddr = ''a'', mlExit = False, mlAccepting = True\<rparr>],
     mwSocks := [\<lparr>msExit = False, msListener = 0, msLocal = ''a'', msRemote = ''a'', msPeer = None\<rparr>]\<rparr>"

definition byte_json :: "(unit, byte) encoding_json" where
  \<comment> \<open>an encoding of one byte by itself\<close>
  "byte_json = \<lparr>ejStart = (),
     ejEncode = \<lambda>v. case v of Val x \<Rightarrow> Some (Inr [x]) | _ \<Rightarrow> Some (Inl (GoErr ''unsupported'')),
     ejDecode = \<lambda>t c bs. case bs of x # xs \<Rightarrow> Some (Inr (Val x), (), xs) | [] \<Rightarrow> Some (Inl IoEOF, (), [])\<rparr>"

definition ex_stream :: "(unit, byte) rpcStream" where
  "ex_stream = \<lparr>rsId = ''0'', rsClosed = False, rsErr = None, rsRequest = newRequest ''svc'' ''Do'' (Val 7) DefaultContentType [],
     rsCodec = newRpcCodec \<lparr>tmHeader = [''Accept'' \<mapsto> ''x''], tmBody = []\<rparr> (Direct 0) (json_NewCodec byte_json) [], rsSendEOS = True\<rparr>"

lemma ex_stream_hyps:
  "\<not> rsClosed ex_stream" "rsErr ex_stream = None" "rkCodec (rsCodec ex_stream) = json_NewCodec byte_json"
  "cl_handle (rkClient (rsCodec ex_stream)) = 0" "hdr (tmHeader (rkReq (rsCodec ex_stream))) ''Micro-Error'' = []"
  by (simp_all add: ex_stream_def newRpcCodec_def hdr_def)

theorem rpc_echo_witness:
  "\<exists>r1 r2 w1 w2. rs_Send (memory_transport echo_process) (Val 7) ex_stream echo_world = Returns None (r1, w1) \<and>
    rs_Recv (memory_transport echo_process) ToVal r1 w1 = Returns (None, Some (Val 7)) (r2, w2)"
proof -
  let ?tr = "memory_transport echo_process"
  define S where "S = (\<lambda>m. the (map_option snd (trSend ?tr 0 m echo_world)))"
  define R where "R = (\<lambda>m. the (map_option snd (trRecv ?tr 0 (S m))))"
  have "echoes ?tr 0 echo_world S R"
    by (simp add: echoes_def S_def R_def memory_transport_def ms_Send_def ms_Recv_def echo_world_def NewMemoryTransport_def
        echo_process_def lexit_def select_case_def Let_def)
  moreover have "payload_restored byte_json ToVal (Val 7) ()"
    by (simp add: payload_restored_def json_restores_def byte_json_def)
  ultimately show ?thesis
    using rpc_echo [of ex_stream byte_json ?tr echo_world S R ToVal "Val 7"] by (auto simp: ex_stream_hyps)
qed

subsection \<open>Errors of a stream\<close>

lemma rk_ReadBody_error:
  "rk_ReadBody t k = Returns (Inl e) k' \<Longrightarrow> \<exists>s. e = GoErr s"
  by (auto simp: rk_ReadBody_def split: if_splits outcome.splits sum.splits)

lemma rs_recv_body_error:
  assumes "rs_recv_body resp t r = Returns (e, v) r'"
  shows "e = rsErr r'" and "(\<exists>s. e = Some (GoErr s)) \<or>
    e = (if cmError resp = [] then rsErr r else Some (if cmError resp \<noteq> ''EOS'' then GoErr (cmError resp) else IoEOF))"
  using assms
  by (auto simp: rs_recv_body_def lastStreamResponseError_def Let_def
      split: outcome.splits sum.splits if_splits dest: rk_ReadBody_error)

text \<open>On a stream with one of the codecs of the repository, \<open>Recv\<close> never reports an unexpected end of file, although the code
  means to when the connection ends: the transport's error has been wrapped before it is compared. It reports
  \<open>io.EOF\<close> only after an end of stream message, and once the stream has recorded an error no \<open>Recv\<close> succeeds any
  more, not even one that receives a good response.\<close>

lemma rpc_recv_errors:
  assumes "cdReadHeader (rkCodec (rsCodec r)) = json_ReadHeader" and "rs_Recv tr t r w = Returns (e, v) (r', w')"
  shows "e = rsErr r' \<and> (rsErr r \<noteq> None \<longrightarrow> e \<noteq> None) \<and>
    (e = Some UnexpectedEOF \<longrightarrow> rsErr r = Some UnexpectedEOF) \<and>
    (e = Some IoEOF \<longrightarrow> rsErr r = Some IoEOF \<or>
      (\<exists>tm w1. trRecv tr (cl_handle (rkClient (rsCodec r))) w = Some (Inr tm, w1) \<and> hdr (tmHeader tm) ''Micro-Error'' = ''EOS''))"
proof (cases "rsClosed r \<or> (\<nexists>tm w1. trRecv tr (cl_handle (rkClient (rsCodec r))) w = Some (Inr tm, w1))")
  case True
  with assms(2) show ?thesis
    by (auto simp: rs_Recv_def rk_ReadHeader_def errShutdown_def Let_def split: if_splits option.splits sum.splits)
next
  case False
  then obtain tm w1 where tm: "trRecv tr (cl_handle (rkClient (rsCodec r))) w = Some (Inr tm, w1)" "\<not> rsClosed r" by blast
  let ?k = "(rsCodec r)\<lparr>rkBuf := (rkBuf (rsCodec r))\<lparr>rwRbuf := tmBody tm\<rparr>\<rparr>"
  let ?m = "getHeaders (zero_message\<lparr>cmHeader := tmHeader tm\<rparr>)"
  have "rs_recv_body ?m t (r\<lparr>rsCodec := ?k\<rparr>) = Returns (e, v) r'"
    using assms tm by (auto simp: rs_Recv_def rk_ReadHeader_def json_ReadHeader_def wrap_error_def Let_def split: outcome.splits)
  note e = rs_recv_body_error [OF this]
  have m: "cmError ?m = hdr (tmHeader tm) ''Micro-Error''" by (simp add: zero_message_def or_else_def)
  from e(2) show ?thesis unfolding m by (auto simp: tm(1) e(1) [symmetric] split: if_splits)
qed

definition reply_world :: "TMessage option mem_world" where
  \<comment> \<open>the peer offers a good response\<close>
  "reply_world = echo_world\<lparr>mwSocks := [\<lparr>msExit = False, msListener = 0, msLocal = ''a'', msRemote = ''a'',
     msPeer = Some \<lparr>tmHeader = Map.empty, tmBody = [7]\<rparr>\<rparr>]\<rparr>"

end
