(* ===== verification/Metadata.thy ===== *)
theory Metadata
  imports Prelude
begin

text \<open>
  \<^verbatim>\<open>service-wrapper/metadata.go\<close>: key-value pairs carried in a context.

  Representation. The iteration order of a Go map is unspecified and matters where two keys become equal: a
  \<open>MetaData\<close> is the list of its entries in the order the next iteration visits them, with distinct keys, and
  statements quantify over reorderings. Of a context only the metadata value is kept (\<open>None\<close>: none).
  \<open>strings.Title\<close> is given for ASCII.
\<close>

type_synonym MetaData = "(string \<times> string) list"

type_synonym md_context = "MetaData option"

subsection \<open>Title case\<close>

definition is_lower :: "char \<Rightarrow> bool" where
  "is_lower c \<longleftrightarrow> 97 \<le> (of_char c :: nat) \<and> (of_char c :: nat) \<le> 122"

definition to_title :: "char \<Rightarrow> char" where
  "to_title c = (if is_lower c then char_of (of_char c - 32 :: nat) else c)"

definition is_separator :: "char \<Rightarrow> bool" where
  \<comment> \<open>anything but letters, digits and the underscore\<close>
  "is_separator c \<longleftrightarrow>
     \<not> (is_lower c \<or> 65 \<le> (of_char c :: nat) \<and> (of_char c :: nat) \<le> 90 \<or>
        48 \<le> (of_char c :: nat) \<and> (of_char c :: nat) \<le> 57 \<or> c = CHR ''_'')"

fun title_from :: "bool \<Rightarrow> string \<Rightarrow> string" where
  "title_from start [] = []"
| "title_from start (c # cs) = (if start then to_title c else c) # title_from (is_separator c) cs"

definition Title :: "string \<Rightarrow> string" where
  "Title s = title_from True s"

subsection \<open>Entries\<close>

definition md_lookup :: "string \<Rightarrow> MetaData \<Rightarrow> string option" where
  "md_lookup k md = map_of md k"

fun md_put :: "string \<Rightarrow> string \<Rightarrow> MetaData \<Rightarrow> MetaData" where
  \<comment> \<open>the assignment \<open>md[k] = v\<close>\<close>
  "md_put k v [] = [(k, v)]"
| "md_put k v ((k', v') # md) = (if k' = k then (k, v) # md else (k', v') # md_put k v md)"

definition md_remove :: "string \<Rightarrow> MetaData \<Rightarrow> MetaData" where
  \<comment> \<open>the builtin \<open>delete(md, k)\<close>\<close>
  "md_remove k md = filter (\<lambda>(k', _). k' \<noteq> k) md"

subsection \<open>Operations on metadata\<close>

definition md_Get :: "string \<Rightarrow> MetaData \<Rightarrow> string option" where
  "md_Get key md =
     (case md_lookup key md of Some val \<Rightarrow> Some val | None \<Rightarrow> md_lookup (Title key) md)"

definition md_Set :: "string \<Rightarrow> string \<Rightarrow> MetaData \<Rightarrow> MetaData" where
  "md_Set key val md = md_put key val md"

definition md_Delete :: "string \<Rightarrow> MetaData \<Rightarrow> MetaData" where
  "md_Delete key md = md_remove (Title key) (md_remove key md)"

definition md_Copy :: "MetaData \<Rightarrow> MetaData" where
  "md_Copy md = fold (\<lambda>(k, v). md_put k v) md []"

subsection \<open>Operations on contexts\<close>

definition FromContext :: "md_context \<Rightarrow> MetaData option" where
  "FromContext ctx = map_option (\<lambda>md. fold (\<lambda>(k, v). md_put (Title k) v) md []) ctx"

definition md_NewContext :: "MetaData \<Rightarrow> md_context" where
  "md_NewContext md = Some md"

definition ctx_Set :: "string \<Rightarrow> string \<Rightarrow> md_context \<Rightarrow> md_context" where
  "ctx_Set k v ctx =
     (let md = (case FromContext ctx of None \<Rightarrow> [] | Some md \<Rightarrow> md)
      in Some (if v = [] then md_remove k md else md_put k v md))"

definition ctx_Delete :: "string \<Rightarrow> md_context \<Rightarrow> md_context" where
  "ctx_Delete k ctx = ctx_Set k [] ctx"

definition ctx_Get :: "string \<Rightarrow> md_context \<Rightarrow> string option" where
  "ctx_Get key ctx =
     (case FromContext ctx of
        None \<Rightarrow> None
      | Some md \<Rightarrow> (case md_lookup key md of Some val \<Rightarrow> Some val | None \<Rightarrow> md_lookup (Title key) md))"

definition MergeContext :: "MetaData \<Rightarrow> bool \<Rightarrow> md_context \<Rightarrow> md_context" where
  "MergeContext patchMd overwrite ctx =
     (let md = (case ctx of None \<Rightarrow> [] | Some md \<Rightarrow> md);
          cmd = fold (\<lambda>(k, v). md_put k v) md []
      in Some (fold (\<lambda>(k, v) cmd.
           if md_lookup k cmd \<noteq> None \<and> \<not> overwrite then cmd
           else if v \<noteq> [] then md_put k v cmd
           else md_remove k cmd) patchMd cmd))"

subsection \<open>Lemmas\<close>

lemma of_char_to_title: "is_lower c \<Longrightarrow> (of_char (to_title c) :: nat) = of_char c - 32"
  by (auto simp: to_title_def is_lower_def)

lemma to_title_idem [simp]: "to_title (to_title c) = to_title c"
proof (cases "is_lower c")
  case True
  then have "\<not> is_lower (to_title c)" using of_char_to_title [OF True] by (auto simp: is_lower_def)
  then show ?thesis by (simp add: to_title_def [of "to_title c"])
qed (simp add: to_title_def)

lemma is_separator_to_title [simp]: "is_separator (to_title c) = is_separator c"
proof (cases "is_lower c")
  case True
  then show ?thesis using of_char_to_title [OF True] by (auto simp: is_lower_def is_separator_def)
qed (simp add: to_title_def)

lemma title_from_idem: "title_from b (title_from b s) = title_from b s"
  by (induction s arbitrary: b) auto

lemma Title_idem [simp]: "Title (Title s) = Title s"
  by (simp add: Title_def title_from_idem)

lemma lookup_put [simp]: "md_lookup k' (md_put k v md) = (if k' = k then Some v else md_lookup k' md)"
  by (induction md) (auto simp: md_lookup_def)

lemma lookup_remove [simp]: "md_lookup k' (md_remove k md) = (if k' = k then None else md_lookup k' md)"
  by (induction md) (auto simp: md_lookup_def md_remove_def)

lemma keys_put: "fst ` set (md_put k v md) = insert k (fst ` set md)"
proof (induction md)
  case (Cons e md)
  then show ?case by (cases e) (auto simp: insert_commute)
qed simp

lemma distinct_put [simp]: "distinct (map fst (md_put k v md)) = distinct (map fst md)"
proof (induction md)
  case (Cons e md)
  have "fst e \<in> fst ` set (md_put k v md) \<longleftrightarrow> fst e = k \<or> fst e \<in> fst ` set md" by (auto simp: keys_put)
  with Cons show ?case by (cases e) auto
qed simp

definition titled :: "MetaData \<Rightarrow> bool" where
  "titled md \<longleftrightarrow> distinct (map fst md) \<and> (\<forall>k \<in> fst ` set md. Title k = k)"

lemma fold_title_titled:
  "titled acc \<Longrightarrow> titled (fold (\<lambda>(k, v). md_put (Title k) v) md acc)"
proof (induction md arbitrary: acc)
  case (Cons e md)
  have "titled (md_put (Title (fst e)) (snd e) acc)"
    using Cons.prems unfolding titled_def keys_put by simp
  with Cons.IH show ?case by (simp add: case_prod_beta)
qed simp

lemma fold_title_lookup:
  "md_lookup K (fold (\<lambda>(k, v). md_put (Title k) v) md acc) =
     (case filter (\<lambda>(k, _). Title k = K) md of [] \<Rightarrow> md_lookup K acc | xs \<Rightarrow> Some (snd (last xs)))"
  by (induction md arbitrary: acc) (auto split: list.splits)

lemma titled_lookup: "titled md \<Longrightarrow> Title k \<noteq> k \<Longrightarrow> md_lookup k md = None"
  by (force simp: titled_def md_lookup_def map_of_eq_None_iff)

lemma ctx_Get_last:
  "ctx_Get k (Some md) =
     (case filter (\<lambda>(k', _). Title k' = Title k) md of [] \<Rightarrow> None | xs \<Rightarrow> Some (snd (last xs)))"
proof -
  let ?m = "fold (\<lambda>(k, v). md_put (Title k) v) md []"
  have t: "titled ?m" by (rule fold_title_titled) (simp add: titled_def)
  have "ctx_Get k (Some md) = md_lookup (Title k) ?m"
    using titled_lookup [OF t, of k]
    by (cases "Title k = k") (auto simp: ctx_Get_def FromContext_def split: option.split)
  also have "\<dots> = (case filter (\<lambda>(k', _). Title k' = Title k) md of [] \<Rightarrow> None | xs \<Rightarrow> Some (snd (last xs)))"
    unfolding fold_title_lookup by (simp add: md_lookup_def split: list.split)
  finally show ?thesis .
qed

definition md_base :: "md_context \<Rightarrow> MetaData" where
  "md_base ctx = (case FromContext ctx of None \<Rightarrow> [] | Some md \<Rightarrow> md)"

lemma md_base_titled: "titled (md_base ctx)"
  by (auto simp: md_base_def FromContext_def titled_def [of "[]"] intro!: fold_title_titled split: option.split)

lemma ctx_Set_put: "v \<noteq> [] \<Longrightarrow> ctx_Set k v ctx = Some (md_put k v (md_base ctx))"
  by (simp add: ctx_Set_def md_base_def Let_def)

lemma set_md_put: "distinct (map fst md) \<Longrightarrow> set (md_put k v md) = insert (k, v) {e \<in> set md. fst e \<noteq> k}"
proof (induction md)
  case (Cons e md)
  then show ?case by (cases e) (auto simp: rev_image_eqI)
qed simp

text \<open>A value set in a context is read back, whatever the iteration order of the map, exactly if the key
  is in title case already or the title-case key had no other value: otherwise both entries are kept,
  reading brings them to the same key, and which of them is found depends on the iteration order.\<close>

lemma metadata_set_get:
  assumes "v \<noteq> []" and "ctx_Set k v ctx = Some md"
  shows "(\<forall>md'. mset md' = mset md \<longrightarrow> ctx_Get k (Some md') = Some v) \<longleftrightarrow>
    Title k = k \<or> ctx_Get (Title k) ctx \<in> {None, Some v}"
proof -
  let ?b = "md_base ctx"
  have md: "md = md_put k v ?b" using assms by (simp add: ctx_Set_put)
  have b: "distinct (map fst ?b)" "\<forall>k \<in> fst ` set ?b. Title k = k" using md_base_titled [of ctx] by (auto simp: titled_def)
  have set_md: "set md = insert (k, v) {e \<in> set ?b. fst e \<noteq> k}" by (simp add: md set_md_put b(1))
  have get: "ctx_Get (Title k) ctx = md_lookup (Title k) ?b"
    by (simp add: ctx_Get_def md_base_def md_lookup_def split: option.split)
  have at: "(Title k, u) \<in> set ?b \<longleftrightarrow> md_lookup (Title k) ?b = Some u" for u
    by (simp add: md_lookup_def b(1))
  show ?thesis
  proof (cases "Title k = k \<or> md_lookup (Title k) ?b \<in> {None, Some v}")
    case True
    have "ctx_Get k (Some md') = Some v" if "mset md' = mset md" for md'
    proof -
      let ?f = "filter (\<lambda>(k', _). Title k' = Title k) md'"
      have s: "set md' = set md" using that by (metis set_mset_mset)
      have "(k, v) \<in> set ?f" using s set_md by simp
      then have ne: "?f \<noteq> []" by (metis list.set(1) empty_iff)
      have "e \<in> set ?f \<Longrightarrow> snd e = v" for e
        using True s set_md b(2) at by (auto simp: image_iff)
      with ne last_in_set [OF ne] show ?thesis by (auto simp: ctx_Get_last split: list.split)
    qed
    with True show ?thesis by (simp add: get)
  next
    case False
    then obtain u where u: "(Title k, u) \<in> set ?b" "u \<noteq> v" "Title k \<noteq> k" using at by auto
    then have "(Title k, u) \<in> set md" by (simp add: set_md)
    then have "mset (remove1 (Title k, u) md @ [(Title k, u)]) = mset md" by simp
    moreover have "ctx_Get k (Some (remove1 (Title k, u) md @ [(Title k, u)])) = Some u"
      unfolding ctx_Get_last filter_append by (simp split: list.split) (metis last_snoc last_ConsR snd_conv)
    ultimately show ?thesis using False u(2) by (auto simp: get)
  qed
qed

end
