(* ===== verification/RpcClient.thy ===== *)
theory RpcClient
  imports RpcCodec Metadata
begin

text \<open>
  \<^verbatim>\<open>client/rpc_client.go\<close>, \<^verbatim>\<open>client/options.go\<close>, \<^verbatim>\<open>client/backoff.go\<close>, \<^verbatim>\<open>client/retry.go\<close>,
  \<^verbatim>\<open>client/rpc_message.go\<close> and the defaults of \<^verbatim>\<open>client/client.go\<close>: remote calls over pooled connections, with retries,
  streams and publishing.

  Representation. The transport, \<open>encoding/json\<close>, the registry and the broker are parameters; the selector is the one of
  \<^verbatim>\<open>selector/\<close>. Operations return, crash the process (\<open>Panics\<close>) or never return (\<open>Blocks\<close>). Durations are
  nanoseconds. What is decided by time or by the scheduler is an argument: clock readings, random draws, and the
  races of a call. A call starts a goroutine that sends and receives; the call itself waits for it or for the
  context. \<open>race\<close> says which came first and, if the context, how far the goroutine had got: before \<open>Send\<close> took
  the stream's lock it then finds the stream closed and does nothing; once it holds the lock, setting the stream's
  error waits for \<open>Send\<close> to finish. A receive that is still pending when the connection is closed is not followed
  further. The wrappers around a call are an argument of \<open>Call\<close>, not a field of its options, so that the type of the
  function they wrap may mention the options. A transport in the options is a number, an index into the table of transports.
\<close>

subsection \<open>Options\<close>

definition TopicContext :: string where
  "TopicContext = ''Micro-Topic''"

definition Millisecond :: int where
  "Millisecond = 10 ^ 6"

definition Second :: int where
  "Second = 10 ^ 9"

definition pow_int64 :: "nat \<Rightarrow> 64 word" where
  \<comment> \<open>\<open>time.Duration(math.Pow(10, float64(n)))\<close>: exact while it fits; on amd64 any other conversion gives the least value\<close>
  "pow_int64 n = (if n \<le> 18 then 10 ^ n else - (2 ^ 63))"

definition backoffDo :: "nat \<Rightarrow> int" where
  \<comment> \<open>the product wraps around\<close>
  "backoffDo attempts = (if attempts = 0 then 0 else sint (pow_int64 attempts * of_int Millisecond))"

definition exponentialBackoff :: "nat \<Rightarrow> goerr + int" where
  "exponentialBackoff attempts = Inr (backoffDo attempts)"

definition RetryAlways :: "int \<Rightarrow> bool \<times> goerr option" where
  "RetryAlways retryCount = (True, None)"

definition RetryOnError :: "int \<Rightarrow> bool \<times> goerr option" where
  "RetryOnError statusCode =
     (if statusCode \<le> 300 then (False, None)
      else if statusCode = 408 \<or> statusCode = 500 then (True, None)
      else (False, None))"

record CallOptions =
  coSelectOptions :: "(SelectOptions \<Rightarrow> SelectOptions) list"
  coAddress :: "string list"
  coBackoff :: "nat \<Rightarrow> goerr + int"
  coRetry :: "int \<Rightarrow> bool \<times> goerr option"
  coDialTimeout :: int
  coRetries :: int
  coRequestTimeout :: int
  coStreamTimeout :: int
  coServiceToken :: bool
  coCacheExpiry :: int

type_synonym CallOption = "CallOptions \<Rightarrow> CallOptions"

definition WithAddress :: "string list \<Rightarrow> CallOption" where
  "WithAddress a o' = o'\<lparr>coAddress := a\<rparr>"

definition WithSelectOption :: "(SelectOptions \<Rightarrow> SelectOptions) list \<Rightarrow> CallOption" where
  "WithSelectOption so o' = o'\<lparr>coSelectOptions := coSelectOptions o' @ so\<rparr>"

definition WithBackoff :: "(nat \<Rightarrow> goerr + int) \<Rightarrow> CallOption" where
  "WithBackoff fn o' = o'\<lparr>coBackoff := fn\<rparr>"

definition WithRetry :: "(int \<Rightarrow> bool \<times> goerr option) \<Rightarrow> CallOption" where
  "WithRetry fn o' = o'\<lparr>coRetry := fn\<rparr>"

definition WithRetries :: "int \<Rightarrow> CallOption" where
  "WithRetries i o' = o'\<lparr>coRetries := i\<rparr>"

definition WithRequestTimeout :: "int \<Rightarrow> CallOption" where
  "WithRequestTimeout d o' = o'\<lparr>coRequestTimeout := d\<rparr>"

definition WithStreamTimeout :: "int \<Rightarrow> CallOption" where
  "WithStreamTimeout d o' = o'\<lparr>coStreamTimeout := d\<rparr>"

definition WithDialTimeout :: "int \<Rightarrow> CallOption" where
  "WithDialTimeout d o' = o'\<lparr>coDialTimeout := d\<rparr>"

definition WithServiceToken :: CallOption where
  "WithServiceToken o' = o'\<lparr>coServiceToken := True\<rparr>"

definition WithCache :: "int \<Rightarrow> CallOption" where
  "WithCache c o' = o'\<lparr>coCacheExpiry := c\<rparr>"

record ('c, 'v) cl_options =
  opContentType :: string
  opCodecs :: "string \<rightharpoonup> ('c, 'v) Codec"
  opTransport :: nat
  opPoolSize :: int
  opPoolTTL :: int
  opCallOptions :: CallOptions

definition DefaultRetries :: int where
  "DefaultRetries = 1"

definition DefaultRequestTimeout :: int where
  "DefaultRequestTimeout = Second * 5"

definition DefaultDialTimeout :: int where
  "DefaultDialTimeout = Second * 5"

definition DefaultPoolSize :: int where
  "DefaultPoolSize = 100"

definition DefaultPoolTTL :: int where
  "DefaultPoolTTL = 60 * Second"

type_synonym ('c, 'v) cl_option = "('c, 'v) cl_options \<Rightarrow> ('c, 'v) cl_options"

definition NewOptions :: "('c, 'v) cl_option list \<Rightarrow> ('c, 'v) cl_options" where
  \<comment> \<open>the default transport is number 0\<close>
  "NewOptions options = fold (\<lambda>f. f) options
     \<lparr>opContentType = DefaultContentType, opCodecs = Map.empty, opTransport = 0, opPoolSize = DefaultPoolSize,
      opPoolTTL = DefaultPoolTTL,
      opCallOptions = \<lparr>coSelectOptions = [], coAddress = [], coBackoff = exponentialBackoff, coRetry = RetryOnError,
        coDialTimeout = DefaultDialTimeout, coRetries = DefaultRetries, coRequestTimeout = DefaultRequestTimeout,
        coStreamTimeout = 0, coServiceToken = False, coCacheExpiry = 0\<rparr>\<rparr>"

definition opt_Codec :: "string \<Rightarrow> ('c, 'v) Codec \<Rightarrow> ('c, 'v) cl_option" where
  "opt_Codec contentType c o' = o'\<lparr>opCodecs := (opCodecs o')(contentType \<mapsto> c)\<rparr>"

definition opt_ContentType :: "string \<Rightarrow> ('c, 'v) cl_option" where
  "opt_ContentType ct o' = o'\<lparr>opContentType := ct\<rparr>"

definition PoolSize :: "int \<Rightarrow> ('c, 'v) cl_option" where
  "PoolSize d o' = o'\<lparr>opPoolSize := d\<rparr>"

definition PoolTTL :: "int \<Rightarrow> ('c, 'v) cl_option" where
  "PoolTTL d o' = o'\<lparr>opPoolTTL := d\<rparr>"

definition opt_Transport :: "nat \<Rightarrow> ('c, 'v) cl_option" where
  "opt_Transport t o' = o'\<lparr>opTransport := t\<rparr>"

definition on_call :: "CallOption \<Rightarrow> ('c, 'v) cl_option" where
  "on_call f o' = o'\<lparr>opCallOptions := f (opCallOptions o')\<rparr>"

definition opt_Backoff :: "(nat \<Rightarrow> goerr + int) \<Rightarrow> ('c, 'v) cl_option" where
  "opt_Backoff fn = on_call (WithBackoff fn)"

definition opt_Retries :: "int \<Rightarrow> ('c, 'v) cl_option" where
  "opt_Retries i = on_call (WithRetries i)"

definition opt_Retry :: "(int \<Rightarrow> bool \<times> goerr option) \<Rightarrow> ('c, 'v) cl_option" where
  "opt_Retry fn = on_call (WithRetry fn)"

definition opt_RequestTimeout :: "int \<Rightarrow> ('c, 'v) cl_option" where
  "opt_RequestTimeout d = on_call (WithRequestTimeout d)"

definition opt_StreamTimeout :: "int \<Rightarrow> ('c, 'v) cl_option" where
  "opt_StreamTimeout d = on_call (WithStreamTimeout d)"

definition opt_DialTimeout :: "int \<Rightarrow> ('c, 'v) cl_option" where
  "opt_DialTimeout d = on_call (WithDialTimeout d)"

subsection \<open>The client\<close>

record ('c, 'v) rpcClient =
  rlSeq :: uint64
  rlOnce :: bool
  rlOpts :: "('c, 'v) cl_options"
  rlPool :: conn_pool

definition pool_for :: "('c, 'v) cl_options \<Rightarrow> conn_pool" where
  "pool_for opts = NewConnPool [Size (opPoolSize opts), TTL (opPoolTTL opts)]"

definition newRpcClient :: "('c, 'v) cl_option list \<Rightarrow> ('c, 'v) rpcClient" where
  \<comment> \<open>without the wrappers\<close>
  "newRpcClient opt =
     (let opts = NewOptions opt in \<lparr>rlSeq = 0, rlOnce = False, rlOpts = opts, rlPool = pool_for opts\<rparr>)"

definition rc_Init ::
  "(nat \<Rightarrow> 'w Transport) \<Rightarrow> string list \<Rightarrow> ('c, 'v) cl_option list \<Rightarrow> ('c, 'v) rpcClient \<Rightarrow> 'w \<Rightarrow> ('c, 'v) rpcClient \<times> 'w" where
  \<comment> \<open>given the keys of the pool in the order of the iteration that closes it\<close>
  "rc_Init trs ks opts r w =
     (let o' = fold (\<lambda>f. f) opts (rlOpts r);
          old = rlOpts r
      in if opPoolSize old \<noteq> opPoolSize o' \<or> opPoolTTL old \<noteq> opPoolTTL o' \<or> opTransport old \<noteq> opTransport o' then
           let (p, w) = pool_Close (trs (opTransport old)) ks (rlPool r) w
           in (r\<lparr>rlOpts := o', rlPool := pool_for o'\<rparr>, w)
         else (r\<lparr>rlOpts := o'\<rparr>, w))"

definition newCodec :: "('c, 'v) encoding_json \<Rightarrow> ('c, 'v) rpcClient \<Rightarrow> string \<Rightarrow> goerr + ('c, 'v) Codec" where
  "newCodec E r contentType =
     (case opCodecs (rlOpts r) contentType of
        Some c \<Rightarrow> Inr c
      | None \<Rightarrow>
          (case DefaultCodecs E contentType of
             Some cf \<Rightarrow> Inr cf
           | None \<Rightarrow> Inl (GoErr (''unsupported Content-Type: '' @ contentType))))"

definition rc_NewRequest ::
  "('c, 'v) rpcClient \<Rightarrow> string \<Rightarrow> string \<Rightarrow> 'v payload \<Rightarrow> (RequestOptions \<Rightarrow> RequestOptions) list \<Rightarrow> 'v rpcRequest" where
  "rc_NewRequest r service method request reqOpts =
     newRequest service method request (opContentType (rlOpts r)) reqOpts"

record go_context =
  cxMd :: md_context
  cxDeadline :: "int option"
  cxErr :: string \<comment> \<open>the text of \<open>ctx.Err()\<close> once the context is done\<close>

definition copy_md :: "(string \<Rightarrow> bool) \<Rightarrow> go_context \<Rightarrow> string \<rightharpoonup> string" where
  \<comment> \<open>the metadata of the context as headers, without the keys to skip\<close>
  "copy_md skip ctx =
     (case FromContext (cxMd ctx) of
        None \<Rightarrow> Map.empty
      | Some md \<Rightarrow> fold (\<lambda>(k, v) h. if skip k then h else h(k \<mapsto> v)) md Map.empty)"

definition dial_options :: "CallOptions \<Rightarrow> DialOption list" where
  "dial_options opts = [WithStream] @ (if coDialTimeout opts \<ge> 0 then [WithTimeout (coDialTimeout opts)] else [])"

definition choose_codec ::
  "('c, 'v) encoding_json \<Rightarrow> ('c, 'v) rpcClient \<Rightarrow> TMessage \<Rightarrow> Node \<Rightarrow> string \<Rightarrow> (goerr + ('c, 'v) Codec) \<times> TMessage" where
  \<comment> \<open>the codec of the old protocol, or the one of the content type\<close>
  "choose_codec E r msg node ct =
     (case setupProtocol E msg node of
        (Some cf, msg) \<Rightarrow> (Inr cf, msg)
      | (None, msg) \<Rightarrow> (newCodec E r ct, msg))"

subsection \<open>One call\<close>

datatype progress = NotStarted | Sent | Received

datatype race = Finished | CtxDone progress

definition call_header :: "go_context \<Rightarrow> 'v rpcRequest \<Rightarrow> CallOptions \<Rightarrow> string \<rightharpoonup> string" where
  "call_header ctx req opts = (copy_md (\<lambda>k. k = TopicContext) ctx)
     (''Timeout'' \<mapsto> itoa (coRequestTimeout opts), ''Content-Type'' \<mapsto> rqContentType req, ''Accept'' \<mapsto> rqContentType req)"

definition rpc_goroutine ::
  "'w Transport \<Rightarrow> target \<Rightarrow> ('c, 'v) rpcStream \<Rightarrow> 'w \<Rightarrow>
   (goerr option \<times> 'v payload option, ('c, 'v) rpcStream \<times> 'w) outcome" where
  \<comment> \<open>what it sends to the channel, and what it put into the response; a panic is recovered by the caller below\<close>
  "rpc_goroutine tr t st w =
     (case rs_Send tr (rqBody (rsRequest st)) st w of
        Blocks \<Rightarrow> Blocks
      | Panics s \<Rightarrow> Panics s
      | Returns (Some err) s \<Rightarrow> Returns (Some (GoErr (''rpcClient: stream.Send: '' @ errText err)), None) s
      | Returns None (st, w) \<Rightarrow>
          (case rs_Recv tr t st w of
             Blocks \<Rightarrow> Blocks
           | Panics s \<Rightarrow> Panics s
           | Returns (Some err, v) s \<Rightarrow> Returns (Some (GoErr (''rpcClient: stream.Recv: '' @ errText err)), v) s
           | Returns (None, v) s \<Rightarrow> Returns (None, v) s))"

fun ended :: "('a, 's) outcome \<Rightarrow> 's option" where
  "ended (Returns x s) = Some s"
| "ended (Panics s) = Some s"
| "ended Blocks = None"

definition run_to :: "progress \<Rightarrow> 'w Transport \<Rightarrow> target \<Rightarrow> ('c, 'v) rpcStream \<Rightarrow> 'w \<Rightarrow> (('c, 'v) rpcStream \<times> 'w) option" where
  \<comment> \<open>what the goroutine has done when the stream's error is set; \<open>None\<close>: the lock is never free\<close>
  "run_to pr tr t st w =
     (case pr of
        NotStarted \<Rightarrow> Some (st, w)
      | Sent \<Rightarrow> ended (rs_Send tr (rqBody (rsRequest st)) st w)
      | Received \<Rightarrow> ended (rpc_goroutine tr t st w))"

definition call_wait ::
  "'w Transport \<Rightarrow> race \<Rightarrow> go_context \<Rightarrow> target \<Rightarrow> ('c, 'v) rpcStream \<Rightarrow> 'w \<Rightarrow>
   (goerr option \<times> 'v payload option, ('c, 'v) rpcStream \<times> 'w) outcome" where
  \<comment> \<open>the \<open>select\<close> of \<open>call\<close>\<close>
  "call_wait tr rc ctx t st w =
     (case rc of
        Finished \<Rightarrow>
          (case rpc_goroutine tr t st w of
             Blocks \<Rightarrow> Blocks
           | Panics s \<Rightarrow> Returns (Some (GoErr ''go.micro.client panic recovered''), None) s
           | Returns x s \<Rightarrow> Returns x s)
      | CtxDone pr \<Rightarrow>
          (case run_to pr tr t st w of
             None \<Rightarrow> Blocks
           | Some (st, w) \<Rightarrow>
               let grr = GoErr (''rpcClient: go.micro.client '' @ cxErr ctx)
               in Returns (Some grr, None) (st\<lparr>rsErr := Some grr\<rparr>, w)))"

record call_sched =
  csNow :: int \<comment> \<open>the clock at \<open>Get\<close>\<close>
  csNow' :: int \<comment> \<open>and after dialling\<close>
  csUuid :: nat
  csRace :: race

definition call_address :: "Node \<Rightarrow> string" where
  "call_address node = ndAddress node @ '':'' @ itoa (ndPort node)"

definition open_stream ::
  "'v rpcRequest \<Rightarrow> TMessage \<Rightarrow> conn_client \<Rightarrow> ('c, 'v) Codec \<Rightarrow> uint64 \<Rightarrow> bool \<Rightarrow> ('c, 'v) rpcStream" where
  \<comment> \<open>the codec and the stream of a call or, with \<open>eos\<close>, of a stream, which also names it in the codec\<close>
  "open_stream req msg c cf seq eos =
     (let id = digits (unat seq)
      in \<lparr>rsId = id, rsClosed = False, rsErr = None, rsRequest = req,
          rsCodec = newRpcCodec msg c cf (if eos then id else []), rsSendEOS = eos\<rparr>)"

definition rc_call ::
  "'w Transport \<Rightarrow> ('c, 'v) encoding_json \<Rightarrow> call_sched \<Rightarrow> go_context \<Rightarrow> Node \<Rightarrow> 'v rpcRequest \<Rightarrow> target \<Rightarrow> CallOptions \<Rightarrow>
   ('c, 'v) rpcClient \<Rightarrow> 'w \<Rightarrow> (goerr option \<times> 'v payload option, ('c, 'v) rpcClient \<times> 'w) outcome" where
  "rc_call tr E sch ctx node req t opts r w =
     (let msg = \<lparr>tmHeader = call_header ctx req opts, tmBody = []\<rparr>
      in case choose_codec E r msg node (rqContentType req) of
           (Inl err, _) \<Rightarrow> Returns (Some (GoErr (''go.micro.client:'' @ errText err)), None) (r, w)
         | (Inr cf, msg) \<Rightarrow>
             case pool_Get tr (csNow sch) (csNow' sch) (csUuid sch) (call_address node) (dial_options opts) (rlPool r) w of
               None \<Rightarrow> Blocks
             | Some (Inl err, p, w) \<Rightarrow>
                 Returns (Some (GoErr (''go.micro.client: connection error: '' @ errText err)), None) (r\<lparr>rlPool := p\<rparr>, w)
             | Some (Inr c, p, w) \<Rightarrow>
                 let r = r\<lparr>rlPool := p, rlSeq := rlSeq r + 1\<rparr>;
                     st = open_stream req msg (Pooled c) cf (rlSeq r - 1) False
                 in case call_wait tr (csRace sch) ctx t st w of
                      Blocks \<Rightarrow> Blocks
                    | Panics (st, w) \<Rightarrow> Panics (r, w)
                    | Returns x (st, w) \<Rightarrow>
                        (case rs_Close tr st (rlPool r) w of
                           Blocks \<Rightarrow> Blocks
                         | Panics (st, p, w) \<Rightarrow> Panics (r\<lparr>rlPool := p\<rparr>, w)
                         | Returns _ (st, p, w) \<Rightarrow> Returns x (r\<lparr>rlPool := p\<rparr>, w)))"

definition call_stuck ::
  "'w Transport \<Rightarrow> ('c, 'v) encoding_json \<Rightarrow> call_sched \<Rightarrow> go_context \<Rightarrow> Node \<Rightarrow> 'v rpcRequest \<Rightarrow> CallOptions \<Rightarrow>
   ('c, 'v) rpcClient \<Rightarrow> 'w \<Rightarrow> conn_client option \<times> ('c, 'v) rpcClient \<times> 'w" where
  \<comment> \<open>where a call is that does not return: it dials, after taking the idle connections that are too old from
     the pool, or it holds a connection and waits for the end of \<open>Send\<close> or, after it, of \<open>Recv\<close>\<close>
  "call_stuck tr E sch ctx node req opts r w =
     (let (cf, msg) = choose_codec E r \<lparr>tmHeader = call_header ctx req opts, tmBody = []\<rparr> node (rqContentType req)
      in case pool_Get tr (csNow sch) (csNow' sch) (csUuid sch) (call_address node) (dial_options opts) (rlPool r) w of
           None \<Rightarrow>
             (let (_, p, w) = get_loop tr (csNow sch) (call_address node) (conns_at (call_address node) (rlPool r)) (rlPool r) w
              in (None, r\<lparr>rlPool := p\<rparr>, w))
         | Some (Inl err, p, w) \<Rightarrow> (None, r\<lparr>rlPool := p\<rparr>, w)
         | Some (Inr c, p, w) \<Rightarrow>
             (Some (Pooled c), r\<lparr>rlPool := p, rlSeq := rlSeq r + 1\<rparr>,
              case cf of
                Inl _ \<Rightarrow> w
              | Inr cf \<Rightarrow>
                  (case rs_Send tr (rqBody req) (open_stream req msg (Pooled c) cf (rlSeq r) False) w of
                     Returns None (st, w) \<Rightarrow> w
                   | _ \<Rightarrow> w)))"

subsection \<open>Opening a stream\<close>

definition stream_header :: "go_context \<Rightarrow> 'v rpcRequest \<Rightarrow> CallOptions \<Rightarrow> string \<rightharpoonup> string" where
  "stream_header ctx req opts =
     (let h = copy_md (\<lambda>k. False) ctx;
          h = (if coStreamTimeout opts > 0 then h(''Timeout'' \<mapsto> itoa (coStreamTimeout opts)) else h)
      in h(''Content-Type'' \<mapsto> rqContentType req, ''Accept'' \<mapsto> rqContentType req))"

definition stream_wait ::
  "'w Transport \<Rightarrow> race \<Rightarrow> go_context \<Rightarrow> ('c, 'v) rpcStream \<Rightarrow> 'w \<Rightarrow> (goerr option, ('c, 'v) rpcStream \<times> 'w) outcome" where
  \<comment> \<open>the goroutine only sends; nothing recovers its panics\<close>
  "stream_wait tr rc ctx st w =
     (if rc = CtxDone NotStarted then Returns (Some (GoErr (''go.micro.client '' @ cxErr ctx))) (st, w)
      else case rs_Send tr (rqBody (rsRequest st)) st w of
        Blocks \<Rightarrow> Blocks
      | Panics s \<Rightarrow> Panics s
      | Returns e s \<Rightarrow> Returns (if rc = Finished then e else Some (GoErr (''go.micro.client '' @ cxErr ctx))) s)"

definition rc_stream ::
  "'w Transport \<Rightarrow> ('c, 'v) encoding_json \<Rightarrow> race \<Rightarrow> go_context \<Rightarrow> Node \<Rightarrow> 'v rpcRequest \<Rightarrow> CallOptions \<Rightarrow>
   ('c, 'v) rpcClient \<Rightarrow> 'w \<Rightarrow> (goerr + ('c, 'v) rpcStream, ('c, 'v) rpcClient \<times> 'w) outcome" where
  "rc_stream tr E rc ctx node req opts r w =
     (let msg = \<lparr>tmHeader = stream_header ctx req opts, tmBody = []\<rparr>
      in case choose_codec E r msg node (rqContentType req) of
           (Inl err, _) \<Rightarrow> Returns (Inl (GoErr (''go.micro.client '' @ errText err))) (r, w)
         | (Inr cf, msg) \<Rightarrow>
             case trDial tr (ndAddress node) (dial_options opts) w of
               None \<Rightarrow> Blocks
             | Some (Inl err, w) \<Rightarrow> Returns (Inl (GoErr (''go.micro.client connection error: '' @ errText err))) (r, w)
             | Some (Inr h, w) \<Rightarrow>
                 let r = r\<lparr>rlSeq := rlSeq r + 1\<rparr>;
                     st = open_stream req msg (Direct h) cf (rlSeq r - 1) True
                 in case stream_wait tr rc ctx st w of
                      Blocks \<Rightarrow> Blocks
                    | Panics (st, w) \<Rightarrow> Panics (r, w)
                    | Returns None (st, w) \<Rightarrow> Returns (Inr st) (r, w)
                    | Returns (Some grr) (st, w) \<Rightarrow>
                        (case rs_Close tr (st\<lparr>rsErr := Some grr\<rparr>) (rlPool r) w of
                           Blocks \<Rightarrow> Blocks
                         | Panics (st, p, w) \<Rightarrow> Panics (r\<lparr>rlPool := p\<rparr>, w)
                         | Returns _ (st, p, w) \<Rightarrow> Returns (Inl grr) (r\<lparr>rlPool := p\<rparr>, w)))"

definition stream_stuck ::
  "'w Transport \<Rightarrow> ('c, 'v) encoding_json \<Rightarrow> go_context \<Rightarrow> Node \<Rightarrow> 'v rpcRequest \<Rightarrow> CallOptions \<Rightarrow>
   ('c, 'v) rpcClient \<Rightarrow> 'w \<Rightarrow> conn_client option \<times> ('c, 'v) rpcClient \<times> 'w" where
  \<comment> \<open>where an attempt to open a stream is that does not return: dialling, sending, or closing after it has sent\<close>
  "stream_stuck tr E ctx node req opts r w =
     (let (cf, msg) = choose_codec E r \<lparr>tmHeader = stream_header ctx req opts, tmBody = []\<rparr> node (rqContentType req)
      in case trDial tr (ndAddress node) (dial_options opts) w of
           None \<Rightarrow> (None, r, w)
         | Some (Inl err, w) \<Rightarrow> (None, r, w)
         | Some (Inr h, w) \<Rightarrow>
             (Some (Direct h), r\<lparr>rlSeq := rlSeq r + 1\<rparr>,
              case cf of
                Inl _ \<Rightarrow> w
              | Inr cf \<Rightarrow>
                  (case rs_Send tr (rqBody req) (open_stream req msg (Direct h) cf (rlSeq r) True) w of
                     Returns _ (st, w) \<Rightarrow> w
                   | _ \<Rightarrow> w)))"

subsection \<open>Choosing nodes\<close>

datatype rpc_next = FixedNodes "Node list" | Selected Next

fun sel_error_text :: "sel_error \<Rightarrow> string" where
  "sel_error_text ErrNotFound = ''not found''"
| "sel_error_text ErrNoneAvailable = ''none available''"

fun select_error_text :: "('e \<Rightarrow> string) \<Rightarrow> 'e rc_error select_error \<Rightarrow> string" where
  "select_error_text show (SelSource RegNotFound) = ''not found''"
| "select_error_text show (SelSource (RegErr e)) = show e"
| "select_error_text show (SelErr e) = sel_error_text e"

record ('c, 'v, 'w, 'e) rpc_env =
  evTransport :: "'w Transport"
  evJson :: "('c, 'v) encoding_json"
  evVars :: "string \<Rightarrow> string"
  evRegistry :: "string \<Rightarrow> 'e + Service list"
  evShow :: "'e \<Rightarrow> string"

definition address_node :: "string \<Rightarrow> Node" where
  "address_node a = \<lparr>ndId = [], ndAddress = a, ndPort = 0, ndMetadata = Some [''protocol'' \<mapsto> ''mucp'']\<rparr>"

definition rc_next ::
  "('c, 'v, 'w, 'e) rpc_env \<Rightarrow> int \<Rightarrow> int \<Rightarrow> 'v rpcRequest \<Rightarrow> CallOptions \<Rightarrow> registrySelector \<Rightarrow>
   (goerr + rpc_next) \<times> registrySelector" where
  "rc_next ev now now' request opts sel =
     (let (service, address, _) = Proxy (evVars ev) (rqService request) (coAddress opts)
      in if length address > 0 then (Inr (FixedNodes (map address_node address)), sel)
         else case Select (evRegistry ev) now now' (coSelectOptions opts) service sel of
           (Inl err, sel) \<Rightarrow>
             (if err = SelErr ErrNotFound then
                (Inl (GoErr (''go.micro.client service '' @ service @ '':'' @ select_error_text (evShow ev) err)), sel)
              else (Inl (GoErr (''go.micro.client error selecting '' @ service @ '' node: '' @ select_error_text (evShow ev) err)), sel))
         | (Inr next', sel) \<Rightarrow> (Inr (Selected next'), sel))"

fun call_next :: "int \<Rightarrow> nat \<Rightarrow> rpc_next \<times> uint64 \<Rightarrow> ((sel_error + Node) \<times> rpc_next \<times> uint64) option" where
  \<comment> \<open>with the seconds of the clock and the draw of \<open>rand.Int()\<close>\<close>
  "call_next unix rnd (FixedNodes nodes, key) =
     map_option (\<lambda>n. (Inr n, FixedNodes nodes, key)) (go_index nodes (go_rem unix (int (length nodes))))"
| "call_next unix rnd (Selected n, key) = map_option (\<lambda>(x, n, key). (x, Selected n, key)) (next_call rnd (n, key))"

subsection \<open>Attempts\<close>

record ('c, 'v, 'w) rpc_sys =
  ysClient :: "('c, 'v) rpcClient"
  ysNext :: rpc_next
  ysKey :: uint64
  ysWorld :: 'w
  ysHeld :: "conn_client option" \<comment> \<open>the connection of an attempt that was left blocked\<close>

record rpc_sched =
  scNow :: int
  scNow' :: int
  scDone0 :: bool \<comment> \<open>the context is done before the first attempt\<close>
  scDone :: "nat \<Rightarrow> bool" \<comment> \<open>waiting for an attempt, \<open>select\<close> takes the context's channel\<close>
  scUnix :: "nat \<Rightarrow> int"
  scRand :: "nat \<Rightarrow> nat"
  scCall :: "nat \<Rightarrow> call_sched"

definition rc_attempt ::
  "string \<Rightarrow> rpc_sched \<Rightarrow> string \<Rightarrow> CallOptions \<Rightarrow>
   (nat \<Rightarrow> Node \<Rightarrow> ('c, 'v) rpcClient \<Rightarrow> 'w \<Rightarrow> (goerr + 'a, ('c, 'v) rpcClient \<times> 'w) outcome) \<Rightarrow>
   nat \<Rightarrow> ('c, 'v, 'w) rpc_sys \<Rightarrow> (goerr + 'a, ('c, 'v, 'w) rpc_sys) outcome" where
  \<comment> \<open>the function literal \<open>call\<close>: back-off, the next node, the call \<open>f\<close>; \<open>sep\<close> is the text after the service's name\<close>
  "rc_attempt sep sc service opts f i s =
     (case coBackoff opts i of
        Inl err \<Rightarrow> Returns (Inl (GoErr (''go.micro.client backoff error: '' @ errText err))) s
      | Inr _ \<Rightarrow>
          (case call_next (scUnix sc i) (scRand sc i) (ysNext s, ysKey s) of
             None \<Rightarrow> Panics s
           | Some (r, nx, key) \<Rightarrow>
               let s = s\<lparr>ysNext := nx, ysKey := key\<rparr>
               in case r of
                    Inl err \<Rightarrow>
                      Returns (Inl (GoErr (if err = ErrNotFound then ''go.micro.client service '' @ service @ sep @ sel_error_text err
                        else ''go.micro.client error getting next '' @ service @ '' node: '' @ sel_error_text err))) s
                  | Inr node \<Rightarrow>
                      (case f i node (ysClient s) (ysWorld s) of
                         Blocks \<Rightarrow> Blocks
                       | Panics (c, w) \<Rightarrow> Panics (s\<lparr>ysClient := c, ysWorld := w\<rparr>)
                       | Returns x (c, w) \<Rightarrow> Returns x (s\<lparr>ysClient := c, ysWorld := w\<rparr>))))"

definition attempt_stuck ::
  "rpc_sched \<Rightarrow> (nat \<Rightarrow> Node \<Rightarrow> ('c, 'v) rpcClient \<Rightarrow> 'w \<Rightarrow> conn_client option \<times> ('c, 'v) rpcClient \<times> 'w) \<Rightarrow>
   nat \<Rightarrow> ('c, 'v, 'w) rpc_sys \<Rightarrow> ('c, 'v, 'w) rpc_sys" where
  \<comment> \<open>the state an attempt stays in that does not return, given where its call \<open>f\<close> is\<close>
  "attempt_stuck sc f i s =
     (case call_next (scUnix sc i) (scRand sc i) (ysNext s, ysKey s) of
        Some (Inr node, nx, key) \<Rightarrow>
          (let (held, c, w) = f i node (ysClient s) (ysWorld s)
           in s\<lparr>ysNext := nx, ysKey := key, ysClient := c, ysWorld := w, ysHeld := held\<rparr>)
      | _ \<Rightarrow> s)"

function call_loop ::
  "(nat \<Rightarrow> 's \<Rightarrow> (goerr + 'a, 's) outcome) \<Rightarrow> (nat \<Rightarrow> 's \<Rightarrow> 's) \<Rightarrow> bool \<times> goerr option \<Rightarrow> (nat \<Rightarrow> bool) \<Rightarrow> goerr \<Rightarrow> nat \<Rightarrow> int \<Rightarrow> goerr option \<Rightarrow> 's \<Rightarrow>
   (goerr option \<times> 'a option, 's) outcome" where
  \<comment> \<open>when the context is done the attempt goes on, and its result is dropped: the state is the one in which it
     ends or, if it does not return, in which it stays (\<open>stuck\<close>)\<close>
  "call_loop att stuck retry done' timeout i retries gerr s =
     (if int i > retries then Returns (gerr, None) s
      else case att i s of
        Panics s \<Rightarrow> Panics s
      | Blocks \<Rightarrow> if done' i then Returns (Some timeout, None) (stuck i s) else Blocks
      | Returns x s \<Rightarrow>
          if done' i then Returns (Some timeout, None) s
          else case x of
            Inr a \<Rightarrow> Returns (None, Some a) s
          | Inl err \<Rightarrow>
              case retry of
                (_, Some rerr) \<Rightarrow> Returns (Some rerr, None) s
              | (r, None) \<Rightarrow>
                  if \<not> r then Returns (Some err, None) s
                  else call_loop att stuck retry done' timeout (i + 1) retries (Some err) s)"
  by pat_completeness auto
termination
  by (relation "measure (\<lambda>(att, stuck, retry, done', timeout, i, retries, gerr, s). nat (retries + 1 - int i))") auto

declare call_loop.simps [simp del]

definition retries_of :: "('c, 'v, 'w, 'e) rpc_env \<Rightarrow> 'v rpcRequest \<Rightarrow> CallOptions \<Rightarrow> int" where
  \<comment> \<open>no retries when a proxy is used\<close>
  "retries_of ev request opts =
     (if snd (snd (Proxy (evVars ev) (rqService request) (coAddress opts))) then 0 else coRetries opts)"

type_synonym ('c, 'v, 'w) CallFunc =
  "go_context \<Rightarrow> Node \<Rightarrow> 'v rpcRequest \<Rightarrow> target \<Rightarrow> CallOptions \<Rightarrow> ('c, 'v) rpcClient \<Rightarrow> 'w \<Rightarrow>
   (goerr option \<times> 'v payload option, ('c, 'v) rpcClient \<times> 'w) outcome"

fun call_result :: "(goerr option \<times> 'a, 's) outcome \<Rightarrow> (goerr + 'a, 's) outcome" where
  "call_result Blocks = Blocks"
| "call_result (Panics s) = Panics s"
| "call_result (Returns (Some err, v) s) = Returns (Inl err) s"
| "call_result (Returns (None, v) s) = Returns (Inr v) s"

definition call_attempt ::
  "('c, 'v, 'w, 'e) rpc_env \<Rightarrow> rpc_sched \<Rightarrow> (('c, 'v, 'w) CallFunc \<Rightarrow> ('c, 'v, 'w) CallFunc) list \<Rightarrow> go_context \<Rightarrow> 'v rpcRequest \<Rightarrow>
   target \<Rightarrow> CallOptions \<Rightarrow> nat \<Rightarrow> ('c, 'v, 'w) rpc_sys \<Rightarrow> (goerr + 'v payload option, ('c, 'v, 'w) rpc_sys) outcome" where
  \<comment> \<open>one attempt of \<open>Call\<close>, through the wrappers\<close>
  "call_attempt ev sc wrappers ctx request t callOpts =
     (let rcall = (\<lambda>i. foldr (\<lambda>cw f. cw f) wrappers
            (\<lambda>ctx node req t opts r w. rc_call (evTransport ev) (evJson ev) (scCall sc i) ctx node req t opts r w))
      in rc_attempt '':'' sc (rqService request) callOpts (\<lambda>i node r w. call_result (rcall i ctx node request t callOpts r w)))"

definition call_held ::
  "('c, 'v, 'w, 'e) rpc_env \<Rightarrow> rpc_sched \<Rightarrow> go_context \<Rightarrow> 'v rpcRequest \<Rightarrow> CallOptions \<Rightarrow> nat \<Rightarrow> ('c, 'v, 'w) rpc_sys \<Rightarrow> ('c, 'v, 'w) rpc_sys" where
  \<comment> \<open>where an attempt of \<open>Call\<close> stays that does not return, if its wrappers just pass the call on\<close>
  "call_held ev sc ctx request callOpts =
     attempt_stuck sc (\<lambda>i node r w. call_stuck (evTransport ev) (evJson ev) (scCall sc i) ctx node request callOpts r w)"

definition rc_Call ::
  "('c, 'v, 'w, 'e) rpc_env \<Rightarrow> rpc_sched \<Rightarrow> (('c, 'v, 'w) CallFunc \<Rightarrow> ('c, 'v, 'w) CallFunc) list \<Rightarrow> go_context \<Rightarrow> 'v rpcRequest \<Rightarrow>
   target \<Rightarrow> CallOption list \<Rightarrow> registrySelector \<Rightarrow> uint64 \<Rightarrow> ('c, 'v) rpcClient \<Rightarrow> 'w \<Rightarrow>
   (goerr option \<times> 'v payload option option, registrySelector \<times> uint64 \<times> ('c, 'v) rpcClient \<times> 'w \<times> conn_client option) outcome" where
  "rc_Call ev sc wrappers ctx request t opts sel key r w =
     (let callOpts = fold (\<lambda>f. f) opts (opCallOptions (rlOpts r))
      in case rc_next ev (scNow sc) (scNow' sc) request callOpts sel of
           (Inl err, sel) \<Rightarrow> Returns (Some err, None) (sel, key, r, w, None)
         | (Inr next', sel) \<Rightarrow>
             let callOpts = (case cxDeadline ctx of None \<Rightarrow> callOpts | Some d \<Rightarrow> WithRequestTimeout (d - scNow' sc) callOpts)
             in if scDone0 sc then Returns (Some (GoErr (''go.micro.client'' @ cxErr ctx)), None) (sel, key, r, w, None)
                else
                  let retries = retries_of ev request callOpts
                  in if retries < -1 then Panics (sel, key, r, w, None) \<comment> \<open>\<open>makechan: size out of range\<close>\<close>
                     else case call_loop (call_attempt ev sc wrappers ctx request t callOpts) (call_held ev sc ctx request callOpts)
                            (coRetry callOpts 500) (scDone sc)
                            (GoErr (''go.micro.client call timeout: '' @ cxErr ctx)) 0 retries None
                            \<lparr>ysClient = r, ysNext = next', ysKey = key, ysWorld = w, ysHeld = None\<rparr> of
                         Blocks \<Rightarrow> Blocks
                       | Panics s \<Rightarrow> Panics (sel, ysKey s, ysClient s, ysWorld s, ysHeld s)
                       | Returns x s \<Rightarrow> Returns x (sel, ysKey s, ysClient s, ysWorld s, ysHeld s))"

definition stream_attempt ::
  "('c, 'v, 'w, 'e) rpc_env \<Rightarrow> rpc_sched \<Rightarrow> go_context \<Rightarrow> 'v rpcRequest \<Rightarrow> CallOptions \<Rightarrow> nat \<Rightarrow> ('c, 'v, 'w) rpc_sys \<Rightarrow>
   (goerr + ('c, 'v) rpcStream, ('c, 'v, 'w) rpc_sys) outcome" where
  "stream_attempt ev sc ctx request callOpts =
     rc_attempt '': '' sc (rqService request) callOpts
       (\<lambda>i node r w. rc_stream (evTransport ev) (evJson ev) (csRace (scCall sc i)) ctx node request callOpts r w)"

definition rc_Stream ::
  "('c, 'v, 'w, 'e) rpc_env \<Rightarrow> rpc_sched \<Rightarrow> go_context \<Rightarrow> 'v rpcRequest \<Rightarrow>
   CallOption list \<Rightarrow> registrySelector \<Rightarrow> uint64 \<Rightarrow> ('c, 'v) rpcClient \<Rightarrow> 'w \<Rightarrow>
   (goerr option \<times> ('c, 'v) rpcStream option, registrySelector \<times> uint64 \<times> ('c, 'v) rpcClient \<times> 'w \<times> conn_client option) outcome" where
  "rc_Stream ev sc ctx request opts sel key r w =
     (let callOpts = fold (\<lambda>f. f) opts (opCallOptions (rlOpts r))
      in case rc_next ev (scNow sc) (scNow' sc) request callOpts sel of
           (Inl err, sel) \<Rightarrow> Returns (Some err, None) (sel, key, r, w, None)
         | (Inr next', sel) \<Rightarrow>
             if scDone0 sc then Returns (Some (GoErr (''go.micro.client '' @ cxErr ctx)), None) (sel, key, r, w, None)
             else
               let retries = retries_of ev request callOpts
               in if retries < -1 then Panics (sel, key, r, w, None)
                  else case call_loop (stream_attempt ev sc ctx request callOpts)
                         (attempt_stuck sc (\<lambda>i node r w. stream_stuck (evTransport ev) (evJson ev) ctx node request callOpts r w))
                         (coRetry callOpts 500) (scDone sc)
                         (GoErr (''go.micro.client call timeout: '' @ cxErr ctx)) 0 retries None
                         \<lparr>ysClient = r, ysNext = next', ysKey = key, ysWorld = w, ysHeld = None\<rparr> of
                      Blocks \<Rightarrow> Blocks
                    | Panics s \<Rightarrow> Panics (sel, ysKey s, ysClient s, ysWorld s, ysHeld s)
                    | Returns x s \<Rightarrow> Returns x (sel, ysKey s, ysClient s, ysWorld s, ysHeld s))"

subsection \<open>Publishing\<close>

record 'v rpc_message =
  rmTopic :: string
  rmContentType :: string
  rmPayload :: "'v payload"

definition newMessage :: "string \<Rightarrow> 'v payload \<Rightarrow> string \<Rightarrow> string list \<Rightarrow> 'v rpc_message" where
  \<comment> \<open>the options are the content types given by \<open>WithMessageContentType\<close>; the last one counts\<close>
  "newMessage topic payload contentType opts =
     (let ct = fold (\<lambda>c _. c) opts []
      in \<lparr>rmTopic = topic, rmContentType = (if length ct > 0 then ct else contentType), rmPayload = payload\<rparr>)"

definition rc_NewMessage :: "('c, 'v) rpcClient \<Rightarrow> string \<Rightarrow> 'v payload \<Rightarrow> string list \<Rightarrow> 'v rpc_message" where
  "rc_NewMessage r topic message opts = newMessage topic message (opContentType (rlOpts r)) opts"

record 'b Broker =
  bkConnect :: "'b \<Rightarrow> goerr option \<times> 'b"
  bkPublish :: "string \<Rightarrow> TMessage \<Rightarrow> 'b \<Rightarrow> goerr option \<times> 'b"

definition publish_body ::
  "('c, 'v) Codec \<Rightarrow> string \<Rightarrow> string \<Rightarrow> 'v rpc_message \<Rightarrow> (goerr + byte list, unit) outcome" where
  \<comment> \<open>a raw frame as it is, any other payload through a codec on a new buffer\<close>
  "publish_body cf topic uuid msg =
     (case rmPayload msg of
        Frame d \<Rightarrow> Returns (Inr d) ()
      | _ \<Rightarrow>
          let m = zero_message\<lparr>cmTarget := topic, cmType := CtEvent, cmHeader := [''Micro-Id'' \<mapsto> uuid, ''Micro-Topic'' \<mapsto> rmTopic msg]\<rparr>
          in case cdWrite cf m (rmPayload msg) (cdStart cf) \<lparr>rwRbuf = [], rwWbuf = []\<rparr> of
               Blocks \<Rightarrow> Blocks
             | Panics _ \<Rightarrow> Panics ()
             | Returns (Some err) _ \<Rightarrow> Returns (Inl err) ()
             | Returns None (c, b) \<Rightarrow> Returns (Inr (rwWbuf b)) ())"

definition rc_Publish ::
  "'b Broker \<Rightarrow> ('c, 'v) encoding_json \<Rightarrow> string \<Rightarrow> go_context \<Rightarrow> 'v rpc_message \<Rightarrow> string \<Rightarrow> ('c, 'v) rpcClient \<Rightarrow> 'b \<Rightarrow>
   (goerr option, ('c, 'v) rpcClient \<times> 'b) outcome" where
  \<comment> \<open>with a fresh identifier, and the exchange of the options (empty if none)\<close>
  "rc_Publish bk E uuid ctx msg exchange r b =
     (let md = (copy_md (\<lambda>k. False) ctx)(''Content-Type'' \<mapsto> rmContentType msg, ''Micro-Topic'' \<mapsto> rmTopic msg, ''Micro-Id'' \<mapsto> uuid);
          topic = (if length exchange > 0 then exchange else rmTopic msg);
          fail = (\<lambda>err. Some (GoErr (''go.micro.client'' @ errText err)))
      in case newCodec E r (rmContentType msg) of
           Inl err \<Rightarrow> Returns (fail err) (r, b)
         | Inr cf \<Rightarrow>
             case publish_body cf topic uuid msg of
               Blocks \<Rightarrow> Blocks
             | Panics _ \<Rightarrow> Panics (r, b)
             | Returns (Inl err) _ \<Rightarrow> Returns (fail err) (r, b)
             | Returns (Inr body) _ \<Rightarrow>
                 let (e, b) = (if \<not> rlOnce r then bkConnect bk b else (None, b))
                 in case e of
                      Some err \<Rightarrow> Returns (fail err) (r, b)
                    | None \<Rightarrow>
                        let (e, b) = bkPublish bk topic \<lparr>tmHeader = md, tmBody = body\<rparr> b
                        in Returns e (r\<lparr>rlOnce := True\<rparr>, b))"

subsection \<open>Retries\<close>

fun att_state :: "(nat \<Rightarrow> 's \<Rightarrow> (goerr + 'a) \<times> 's) \<Rightarrow> 's \<Rightarrow> nat \<Rightarrow> 's" where
  \<comment> \<open>the state before attempt \<open>k\<close>\<close>
  "att_state g s 0 = s"
| "att_state g s (Suc k) = snd (g k (att_state g s k))"

definition att_result :: "(nat \<Rightarrow> 's \<Rightarrow> (goerr + 'a) \<times> 's) \<Rightarrow> 's \<Rightarrow> nat \<Rightarrow> goerr + 'a" where
  "att_result g s k = fst (g k (att_state g s k))"

lemma call_loop_attempts:
  assumes "\<And>k. k < n \<Longrightarrow> att k (att_state g s k) = Returns (att_result g s k) (att_state g s (Suc k))"
    and "\<And>i. \<not> done' i" and "i \<le> n"
  shows "call_loop att stuck (True, None) done' timeout i (int n - 1) e (att_state g s i) =
    (case find (\<lambda>k. \<not> isl (att_result g s k)) [i..<n] of
       Some j \<Rightarrow> Returns (None, Some (projr (att_result g s j))) (att_state g s (Suc j))
     | None \<Rightarrow> Returns (if i = n then e else Some (projl (att_result g s (n - 1))), None) (att_state g s n))"
  using assms(3)
proof (induction "n - i" arbitrary: i e)
  case 0
  then show ?case by (subst call_loop.simps) simp
next
  case (Suc d)
  then have lt: "i < n" by linarith
  then have up: "[i..<n] = i # [Suc i..<n]" by (rule upt_conv_Cons)
  show ?case
  proof (cases "att_result g s i")
    case (Inr a)
    with lt up show ?thesis by (subst call_loop.simps) (simp add: assms(1) [OF lt] assms(2))
  next
    case (Inl err)
    have "call_loop att stuck (True, None) done' timeout i (int n - 1) e (att_state g s i) =
      call_loop att stuck (True, None) done' timeout (Suc i) (int n - 1) (Some err) (att_state g s (Suc i))"
      using Inl lt by (subst call_loop.simps) (simp add: assms(1) [OF lt] assms(2))
    also have "\<dots> = (case find (\<lambda>k. \<not> isl (att_result g s k)) [Suc i..<n] of
       Some j \<Rightarrow> Returns (None, Some (projr (att_result g s j))) (att_state g s (Suc j))
     | None \<Rightarrow> Returns (if Suc i = n then Some err else Some (projl (att_result g s (n - 1))), None) (att_state g s n))"
      by (rule Suc.hyps(1)) (use Suc.hyps(2) lt in simp_all)
    finally show ?thesis using Inl lt up by (auto split: option.splits)
  qed
qed

text \<open>A call whose context is not done, whose attempts all return and whose retry function agrees makes one
  attempt after the other, at most one more than its number of retries, until one succeeds: it returns the response of the first
  success, and if there is none the error of the last attempt. With \<open>Retries = -1\<close> it makes no attempt and reports
  success.\<close>

lemma call_retries:
  assumes "callOpts = (case cxDeadline ctx of None \<Rightarrow> id | Some d \<Rightarrow> WithRequestTimeout (d - scNow' sc))
      (fold (\<lambda>f. f) opts (opCallOptions (rlOpts r)))"
    and "rc_next ev (scNow sc) (scNow' sc) request (fold (\<lambda>f. f) opts (opCallOptions (rlOpts r))) sel = (Inr nx, sel')"
    and "\<not> scDone0 sc" and "\<And>i. \<not> scDone sc i" and "coRetry callOpts 500 = (True, None)"
    and "retries_of ev request callOpts = int n - 1"
    and "\<And>k. k < n \<Longrightarrow> call_attempt ev sc wrappers ctx request t callOpts k (att_state g s0 k) =
      Returns (att_result g s0 k) (att_state g s0 (Suc k))"
    and "s0 = \<lparr>ysClient = r, ysNext = nx, ysKey = key, ysWorld = w, ysHeld = None\<rparr>"
  shows "rc_Call ev sc wrappers ctx request t opts sel key r w =
    (let s = att_state g s0; end' = (\<lambda>s. (sel', ysKey s, ysClient s, ysWorld s, ysHeld s)) in
     case find (\<lambda>k. \<not> isl (att_result g s0 k)) [0..<n] of
       Some j \<Rightarrow> Returns (None, Some (projr (att_result g s0 j))) (end' (s (Suc j)))
     | None \<Rightarrow> Returns (if n = 0 then None else Some (projl (att_result g s0 (n - 1))), None) (end' (s n)))"
proof -
  have l: "call_loop (call_attempt ev sc wrappers ctx request t callOpts) (call_held ev sc ctx request callOpts) (coRetry callOpts 500) (scDone sc) e 0 (int n - 1) None s0 =
    (case find (\<lambda>k. \<not> isl (att_result g s0 k)) [0..<n] of
       Some j \<Rightarrow> Returns (None, Some (projr (att_result g s0 j))) (att_state g s0 (Suc j))
     | None \<Rightarrow> Returns (if n = 0 then None else Some (projl (att_result g s0 (n - 1))), None) (att_state g s0 n))" for e
    using call_loop_attempts [of n "call_attempt ev sc wrappers ctx request t callOpts" g s0 "scDone sc" 0 "call_held ev sc ctx request callOpts" e None] assms(4,5,7)
    by simp
  have c: "(case cxDeadline ctx of None \<Rightarrow> fold (\<lambda>f. f) opts (opCallOptions (rlOpts r))
      | Some d \<Rightarrow> WithRequestTimeout (d - scNow' sc) (fold (\<lambda>f. f) opts (opCallOptions (rlOpts r)))) = callOpts"
    using assms(1) by (simp split: option.split)
  show ?thesis
    using assms(3,6) by (simp add: rc_Call_def assms(2) c l assms(8) [symmetric] Let_def split: option.split)
qed

subsection \<open>Explicit addresses\<close>

text \<open>With explicit addresses (and no proxy in the environment) every attempt calls a node whose address is one of them, but the connection is made
  to that address followed by \<open>:0\<close>, since the node has no port: an address that contains its port is dialled wrongly.\<close>

lemma explicit_address_port:
  assumes "coAddress opts \<noteq> []" and "evVars ev = (\<lambda>_. [])"
  shows "\<exists>nodes. rc_next ev now now' request opts sel = (Inr (FixedNodes nodes), sel) \<and>
    (\<forall>unix rnd key. 0 \<le> unix \<longrightarrow> (\<exists>a \<in> set (coAddress opts). \<exists>n. call_next unix rnd (FixedNodes nodes, key) = Some (Inr n, FixedNodes nodes, key) \<and>
       ndAddress n = a \<and> call_address n = a @ '':0''))"
proof -
  let ?nodes = "map address_node (coAddress opts)"
  have n: "rc_next ev now now' request opts sel = (Inr (FixedNodes ?nodes), sel)"
    using assms by (simp add: rc_next_def Proxy_def)
  have "\<exists>a \<in> set (coAddress opts). \<exists>n. call_next unix rnd (FixedNodes ?nodes, key) = Some (Inr n, FixedNodes ?nodes, key) \<and>
       ndAddress n = a \<and> call_address n = a @ '':0''" if "0 \<le> unix" for unix rnd key
  proof -
    let ?k = "nat (unix mod int (length ?nodes))"
    have r: "go_rem unix (int (length ?nodes)) = unix mod int (length ?nodes)" using that by (simp add: go_rem_def sgn_if)
    have k: "0 \<le> unix mod int (length ?nodes)" "?k < length (coAddress opts)"
      using assms(1) by (simp_all add: nat_less_iff)
    have "itoa 0 = ''0''" by code_simp
    with k r assms(1) show ?thesis
      by (intro bexI [of _ "coAddress opts ! ?k"]) (auto simp: go_index_def address_node_def call_address_def)
  qed
  with n show ?thesis by blast
qed

subsection \<open>Connections\<close>

definition st_frame :: "('c, 'v) rpcStream \<Rightarrow> ('c, 'v) rpcStream \<Rightarrow> bool" where
  \<comment> \<open>what sending and receiving keep of a stream\<close>
  "st_frame st st' \<longleftrightarrow> rkClient (rsCodec st') = rkClient (rsCodec st) \<and> rsClosed st' = rsClosed st \<and> rsSendEOS st' = rsSendEOS st"

lemma st_frame_refl [simp]: "st_frame st st"
  by (simp add: st_frame_def)

lemma st_frame_trans: "st_frame a b \<Longrightarrow> st_frame b c \<Longrightarrow> st_frame a c"
  by (simp add: st_frame_def)

lemma rk_body_client: "ended (rk_body m v k) = Some k' \<Longrightarrow> rkClient k' = rkClient k"
  by (auto simp: rk_body_def split: payload.splits outcome.splits option.splits)

lemma rk_ReadBody_client: "ended (rk_ReadBody t k) = Some k' \<Longrightarrow> rkClient k' = rkClient k"
  by (auto simp: rk_ReadBody_def split: if_splits outcome.splits sum.splits)

lemma rs_recv_body_frame:
  assumes "ended (rs_recv_body resp t st) = Some st'"
  shows "st_frame st st'"
proof -
  let ?b = "rk_ReadBody (if cmError resp = [] then t else ToNil) (rsCodec st)"
  from assms obtain k where k: "ended ?b = Some k" "rsCodec st' = k" "rsClosed st' = rsClosed st" "rsSendEOS st' = rsSendEOS st"
    by (cases "cmError resp = []") (auto simp: rs_recv_body_def Let_def split: outcome.splits sum.splits)
  from rk_ReadBody_client [OF k(1)] k(2-) show ?thesis by (simp add: st_frame_def)
qed

lemma rs_Close_pooled:
  assumes "rkClient (rsCodec st) = Pooled c" and "\<not> rsClosed st" and "\<not> rsSendEOS st"
  shows "\<exists>e st'. rs_Close tr st p w = Returns e (st', snd (pool_Release tr c (rsErr st) p w))"
  using assms by (simp add: rs_Close_def rs_eos_def rk_Close_def rs_release_def pc_Close_def Let_def split: prod.splits)

lemma call_wait_returns: "call_wait tr rc ctx t st w \<noteq> Panics s"
  by (auto simp: call_wait_def Let_def split: race.splits outcome.splits option.splits)

locale rpc_transport = tracked_transport +
  assumes send_keeps: "trSend tr h m w = Some (e, w') \<Longrightarrow> opened w' = opened w \<and> closed w' = closed w"
    and recv_keeps: "trRecv tr h w = Some (r, w') \<Longrightarrow> opened w' = opened w \<and> closed w' = closed w"
begin

lemma rk_Write_keeps:
  assumes "ended (rk_Write tr m v k w) = Some (k', w')"
  shows "rkClient k' = rkClient k \<and> opened w' = opened w \<and> closed w' = closed w"
proof -
  let ?k = "k\<lparr>rkBuf := (rkBuf k)\<lparr>rwWbuf := []\<rparr>\<rparr>"
  let ?m = "setHeaders (rkStream k) (m\<lparr>cmHeader := cmHeader m ++ tmHeader (rkReq k)\<rparr>)"
  obtain k1 where k1: "ended (rk_body ?m v ?k) = Some k1"
    using assms by (auto simp: rk_Write_def Let_def split: outcome.splits)
  from rk_body_client [OF this] have c: "rkClient k1 = rkClient k" by simp
  from assms k1 have "k' = k1 \<and> (w' = w \<or> (\<exists>e m. trSend tr (cl_handle (rkClient k1)) m w = Some (e, w')))"
    by (auto simp: rk_Write_def Let_def split: outcome.splits sum.splits option.splits)
  with c send_keeps show ?thesis by auto
qed

lemma rk_ReadHeader_keeps:
  assumes "ended (rk_ReadHeader tr m r k w) = Some (k', w')"
  shows "rkClient k' = rkClient k \<and> opened w' = opened w \<and> closed w' = closed w"
proof -
  from assms obtain x where "trRecv tr (cl_handle (rkClient k)) w = Some (x, w')" "rkClient k' = rkClient k"
    by (auto simp: rk_ReadHeader_def Let_def split: option.splits sum.splits prod.splits)
  with recv_keeps show ?thesis by blast
qed

lemma rs_Send_keeps:
  assumes "ended (rs_Send tr v st w) = Some (st', w')"
  shows "st_frame st st' \<and> opened w' = opened w \<and> closed w' = closed w"
proof (cases "rsClosed st")
  case True
  with assms show ?thesis by (auto simp: rs_Send_def st_frame_def)
next
  case False
  with assms obtain k where k: "ended (rk_Write tr (stream_message st CtRequest []) v (rsCodec st) w) = Some (k, w')"
    and st: "rsCodec st' = k" "rsClosed st' = rsClosed st" "rsSendEOS st' = rsSendEOS st"
    by (auto simp: rs_Send_def split: outcome.splits option.splits)
  with rk_Write_keeps [OF k] show ?thesis by (simp add: st_frame_def)
qed

lemma rs_Recv_keeps:
  assumes "ended (rs_Recv tr t st w) = Some (st', w')"
  shows "st_frame st st' \<and> opened w' = opened w \<and> closed w' = closed w"
proof (cases "rsClosed st")
  case True
  with assms show ?thesis by (auto simp: rs_Recv_def st_frame_def)
next
  case False
  with assms obtain k w1 where h: "ended (rk_ReadHeader tr zero_message CtResponse (rsCodec st) w) = Some (k, w1)"
    by (auto simp: rs_Recv_def split: outcome.splits)
  have "w' = w1 \<and> st_frame (st\<lparr>rsCodec := k\<rparr>) st'"
  proof (cases "\<exists>resp. rk_ReadHeader tr zero_message CtResponse (rsCodec st) w = Returns (None, resp) (k, w1)")
    case True
    then obtain resp where resp: "rk_ReadHeader tr zero_message CtResponse (rsCodec st) w = Returns (None, resp) (k, w1)" by blast
    with False assms have "ended (rs_recv_body resp t (st\<lparr>rsCodec := k\<rparr>)) = Some st'" "w' = w1"
      by (auto simp: rs_Recv_def split: outcome.splits)
    then show ?thesis using rs_recv_body_frame by blast
  next
    case no: False
    with False assms h show ?thesis
      by (auto simp: rs_Recv_def st_frame_def Let_def split: outcome.splits option.splits)
  qed
  with rk_ReadHeader_keeps [OF h] show ?thesis by (simp add: st_frame_def)
qed

lemma rpc_goroutine_keeps:
  assumes "ended (rpc_goroutine tr t st w) = Some (st', w')"
  shows "st_frame st st' \<and> opened w' = opened w \<and> closed w' = closed w"
proof -
  from assms obtain st1 w1 where s: "ended (rs_Send tr (rqBody (rsRequest st)) st w) = Some (st1, w1)"
    by (auto simp: rpc_goroutine_def split: outcome.splits)
  from assms s have "(st', w') = (st1, w1) \<or> ended (rs_Recv tr t st1 w1) = Some (st', w')"
    by (auto simp: rpc_goroutine_def split: outcome.splits option.splits)
  with rs_Send_keeps [OF s] rs_Recv_keeps show ?thesis by (metis prod.inject st_frame_trans)
qed

lemma call_wait_keeps:
  assumes "ended (call_wait tr rc ctx t st w) = Some (st', w')"
  shows "st_frame st st' \<and> opened w' = opened w \<and> closed w' = closed w"
proof (cases rc)
  case Finished
  with assms have "ended (rpc_goroutine tr t st w) = Some (st', w')"
    by (auto simp: call_wait_def split: outcome.splits)
  then show ?thesis by (rule rpc_goroutine_keeps)
next
  case (CtxDone pr)
  with assms obtain st1 where st1: "run_to pr tr t st w = Some (st1, w')" "st_frame st1 st'"
    by (auto simp: call_wait_def st_frame_def Let_def split: option.splits)
  then have "st_frame st st1 \<and> opened w' = opened w \<and> closed w' = closed w"
    by (cases pr) (auto simp: run_to_def dest: rs_Send_keeps rpc_goroutine_keeps)
  with st1(2) show ?thesis by (blast intro: st_frame_trans)
qed

lemma rc_call_inv:
  assumes inv: "conn_inv opened closed \<lparr>csPool = rlPool r, csUsed = U, csWorld = w\<rparr>"
    and ret: "ended (rc_call tr E sch ctx node req t opts r w) = Some (r', w')"
  shows "conn_inv opened closed \<lparr>csPool = rlPool r', csUsed = U, csWorld = w'\<rparr>"
proof -
  let ?s0 = "\<lparr>csPool = rlPool r, csUsed = U, csWorld = w\<rparr>"
  let ?get = "pool_Get tr (csNow sch) (csNow' sch) (csUuid sch) (call_address node) (dial_options opts) (rlPool r) w"
  obtain cf msg where cf: "choose_codec E r \<lparr>tmHeader = call_header ctx req opts, tmBody = []\<rparr> node (rqContentType req) = (cf, msg)"
    by (metis prod.exhaust)
  show ?thesis
  proof (cases "isl cf")
    case True
    with ret cf inv show ?thesis by (auto simp: rc_call_def isl_def)
  next
    case False
    then obtain cf' where cf': "cf = Inr cf'" by (cases cf) auto
    with ret cf obtain x p w1 where g: "?get = Some (x, p, w1)" by (auto simp: rc_call_def split: option.splits)
    then have inv1: "conn_inv opened closed \<lparr>csPool = p, csUsed = (case x of Inl _ \<Rightarrow> U | Inr c \<Rightarrow> insert c U), csWorld = w1\<rparr>"
      using pool_Get_inv [OF inv, of "csNow sch" "csNow' sch" "csUuid sch" "call_address node" "dial_options opts" x p w1] by (cases x) simp_all
    show ?thesis
    proof (cases x)
      case (Inl err)
      with ret cf cf' g inv1 show ?thesis by (auto simp: rc_call_def)
    next
      case (Inr c)
      then have c: "c \<notin> U" using pool_Get_fresh [OF inv] g by auto
      let ?st = "open_stream req msg (Pooled c) cf' (rlSeq r) False"
      from ret cf cf' g Inr obtain st2 w2 where k: "ended (call_wait tr (csRace sch) ctx t ?st w1) = Some (st2, w2)"
        by (auto simp: rc_call_def Let_def split: outcome.splits)
      note keeps = call_wait_keeps [OF k]
      have st2: "rkClient (rsCodec st2) = Pooled c" "\<not> rsClosed st2" "\<not> rsSendEOS st2"
        using keeps by (auto simp: st_frame_def open_stream_def newRpcCodec_def Let_def)
      have inv2: "conn_inv opened closed \<lparr>csPool = p, csUsed = insert c U, csWorld = w2\<rparr>"
        using inv1 keeps Inr by (simp add: conn_inv_def)
      obtain e st3 where cl: "rs_Close tr st2 p w2 = Returns e (st3, snd (pool_Release tr c (rsErr st2) p w2))"
        using rs_Close_pooled [OF st2, of tr p w2] by blast
      obtain e' p3 w3 where rel: "pool_Release tr c (rsErr st2) p w2 = (e', p3, w3)" by (metis prod_cases3)
      have inv3: "conn_inv opened closed \<lparr>csPool = p3, csUsed = U, csWorld = w3\<rparr>"
        using pool_Release_inv [OF inv2, of c "rsErr st2" e' p3 w3] rel c by simp
      obtain y where "call_wait tr (csRace sch) ctx t ?st w1 = Returns y (st2, w2)"
        using k call_wait_returns [of tr "csRace sch" ctx t ?st w1] by (cases "call_wait tr (csRace sch) ctx t ?st w1") auto
      with ret cf cf' g Inr cl rel have "rlPool r' = p3" "w' = w3"
        by (auto simp: rc_call_def Let_def split: outcome.splits)
      with inv3 show ?thesis by simp
    qed
  qed
qed

lemma call_stuck_inv:
  assumes inv: "conn_inv opened closed \<lparr>csPool = rlPool r, csUsed = U, csWorld = w\<rparr>"
    and st: "call_stuck tr E sch ctx node req opts r w = (held, r', w')"
  shows "held = None \<and> conn_inv opened closed \<lparr>csPool = rlPool r', csUsed = U, csWorld = w'\<rparr> \<or>
    (\<exists>c. held = Some (Pooled c) \<and> c \<notin> U \<and> conn_inv opened closed \<lparr>csPool = rlPool r', csUsed = insert c U, csWorld = w'\<rparr>)"
proof -
  let ?get = "pool_Get tr (csNow sch) (csNow' sch) (csUuid sch) (call_address node) (dial_options opts) (rlPool r) w"
  obtain cf msg where cf: "choose_codec E r \<lparr>tmHeader = call_header ctx req opts, tmBody = []\<rparr> node (rqContentType req) = (cf, msg)"
    by (metis prod.exhaust)
  show ?thesis
  proof (cases ?get)
    case None
    obtain k p w1 where l: "get_loop tr (csNow sch) (call_address node) (conns_at (call_address node) (rlPool r)) (rlPool r) w = (k, p, w1)"
      by (metis prod_cases3)
    with None have "k = None" by (cases k) (auto simp: pool_Get_def)
    with get_loop_inv [OF inv, of "csNow sch" "call_address node" k p w1] l st None cf show ?thesis by (auto simp: call_stuck_def)
  next
    case (Some y)
    obtain x p w1 where y: "y = (x, p, w1)" by (metis prod_cases3)
    note inv1 = pool_Get_inv [OF inv, of "csNow sch" "csNow' sch" "csUuid sch" "call_address node" "dial_options opts" x p w1]
    show ?thesis
    proof (cases x)
      case (Inl err)
      with inv1 st Some y cf show ?thesis by (auto simp: call_stuck_def)
    next
      case (Inr c)
      have res: "held = Some (Pooled c)" "rlPool r' = p" using st Some y cf Inr by (auto simp: call_stuck_def)
      have "opened w' = opened w1 \<and> closed w' = closed w1"
      proof (cases cf)
        case send: (Inr cf')
        let ?send = "rs_Send tr (rqBody req) (open_stream req msg (Pooled c) cf' (rlSeq r) False) w1"
        show ?thesis
        proof (cases "\<exists>st1. ?send = Returns None (st1, w')")
          case True
          then obtain st1 where "?send = Returns None (st1, w')" by blast
          then have "ended ?send = Some (st1, w')" by simp
          then show ?thesis by (auto dest: rs_Send_keeps)
        next
          case False
          then show ?thesis
            using st Some y cf Inr send by (auto simp: call_stuck_def split: outcome.splits option.splits)
        qed
      qed (use st Some y cf Inr in \<open>auto simp: call_stuck_def\<close>)
      moreover have "c \<notin> U" using pool_Get_fresh [OF inv] Some y Inr by auto
      ultimately show ?thesis using inv1 Some y Inr res by (simp add: conn_inv_def)
    qed
  qed
qed

lemma rs_Close_direct:
  assumes "rkClient (rsCodec st) = Direct h" and "\<not> rsClosed st" and "h \<in> opened w"
    and "ended (rs_Close tr st p w) = Some (st', p', w')" and "\<And>s. rs_Close tr st p w \<noteq> Panics s"
  shows "p' = p \<and> opened w' = opened w \<and> closed w' = insert h (closed w)"
proof -
  let ?st = "st\<lparr>rsClosed := True\<rparr>"
  from assms(2,4,5) obtain u st1 w1 where e: "rs_eos tr ?st w = Returns u (st1, w1)"
    by (auto simp: rs_Close_def split: outcome.splits)
  have k: "rkClient (rsCodec st1) = Direct h \<and> opened w1 = opened w \<and> closed w1 = closed w"
  proof (cases "rsSendEOS st")
    case True
    with e obtain x where "rk_Write tr (stream_message ?st CtError lastStreamResponseError) NilBody (rsCodec st) w = Returns x (rsCodec st1, w1)"
      by (auto simp: rs_eos_def split: outcome.splits)
    with rk_Write_keeps [of "stream_message ?st CtError lastStreamResponseError" NilBody "rsCodec st" w "rsCodec st1" w1] assms(1)
    show ?thesis by simp
  next
    case False
    with e assms(1) show ?thesis by (auto simp: rs_eos_def)
  qed
  obtain e' k' w2 where c1: "rk_Close tr (rsCodec st1) w1 = (e', k', w2)" by (metis prod_cases3)
  then have c: "rk_Close tr (rsCodec st1) w1 = (e', k', w2)" "rkClient k' = Direct h" "w2 = snd (trClose tr h w1)"
    using k by (auto simp: rk_Close_def Let_def split: prod.splits)
  then have "opened w2 = opened w \<and> closed w2 = insert h (closed w)" using close_closes [of h w1] k assms(3) by simp
  moreover have "p' = p" "w' = snd (trClose tr h w2)"
    using assms(2,4) e c by (auto simp: rs_Close_def rs_release_def Let_def)
  ultimately show ?thesis using close_closes [of h w2] assms(3) by simp
qed

lemma rc_stream_conns:
  assumes "rc_stream tr E rc ctx node req opts r w = Returns x (r', w')"
  shows "rlPool r' = rlPool r \<and> (case x of
      Inl _ \<Rightarrow> opened w' - closed w' = opened w - closed w
    | Inr st \<Rightarrow> \<not> rsClosed st \<and> (\<exists>h. rkClient (rsCodec st) = Direct h \<and> h \<notin> opened w \<and>
        opened w' = insert h (opened w) \<and> closed w' = closed w))"
proof -
  obtain cf msg where cf: "choose_codec E r \<lparr>tmHeader = stream_header ctx req opts, tmBody = []\<rparr> node (rqContentType req) = (cf, msg)"
    by (metis prod.exhaust)
  show ?thesis
  proof (cases "isl cf")
    case True
    with assms cf show ?thesis by (auto simp: rc_stream_def isl_def)
  next
    case False
    then obtain cf' where cf': "cf = Inr cf'" by (cases cf) auto
    with assms cf obtain d w1 where d: "trDial tr (ndAddress node) (dial_options opts) w = Some (d, w1)"
      by (auto simp: rc_stream_def split: option.splits)
    show ?thesis
    proof (cases d)
      case (Inl err)
      with assms cf cf' d dial_fails show ?thesis by (auto simp: rc_stream_def)
    next
      case (Inr h)
      with d have h: "h \<notin> opened w" "opened w1 = insert h (opened w)" "closed w1 = closed w" using dial_opens by auto
      let ?st = "open_stream req msg (Direct h) cf' (rlSeq r) True"
      have st0: "rkClient (rsCodec ?st) = Direct h" "\<not> rsClosed ?st" "rsSendEOS ?st"
        by (simp_all add: open_stream_def newRpcCodec_def Let_def)
      from assms cf cf' d Inr obtain e st2 w2 where wt: "stream_wait tr rc ctx ?st w1 = Returns e (st2, w2)"
        by (auto simp: rc_stream_def Let_def split: outcome.splits)
      then have "(st2, w2) = (?st, w1) \<or> ended (rs_Send tr (rqBody (rsRequest ?st)) ?st w1) = Some (st2, w2)"
        by (auto simp: stream_wait_def split: if_splits outcome.splits)
      then have fr: "st_frame ?st st2 \<and> opened w2 = opened w1 \<and> closed w2 = closed w1"
        by (auto dest: rs_Send_keeps)
      show ?thesis
      proof (cases e)
        case None
        with assms cf cf' d Inr wt fr h st0 show ?thesis by (auto simp: rc_stream_def st_frame_def Let_def)
      next
        case (Some grr)
        let ?st2 = "st2\<lparr>rsErr := Some grr\<rparr>"
        from assms cf cf' d Inr wt Some obtain u st3 p3 where cl: "rs_Close tr ?st2 (rlPool r) w2 = Returns u (st3, p3, w')"
          and res: "x = Inl grr" "rlPool r' = p3"
          by (auto simp: rc_stream_def Let_def split: outcome.splits)
        have "p3 = rlPool r \<and> opened w' = opened w2 \<and> closed w' = insert h (closed w2)"
          by (rule rs_Close_direct [of ?st2]) (use fr st0 h cl in \<open>auto simp: st_frame_def\<close>)
        with res fr h show ?thesis by auto
      qed
    qed
  qed
qed

end

interpretation mrt: rpc_transport "memory_transport P" mt_opened mt_closed for P
proof
  fix h m w e w' r
  show "trSend (memory_transport P) h m w = Some (e, w') \<Longrightarrow> mt_opened w' = mt_opened w \<and> mt_closed w' = mt_closed w"
    using ms_Send_tracked [of P h m w e w'] by (simp add: memory_transport_def)
  show "trRecv (memory_transport P) h w = Some (r, w') \<Longrightarrow> mt_opened w' = mt_opened w \<and> mt_closed w' = mt_closed w"
    using ms_Recv_tracked [of P h w r w'] by (simp add: memory_transport_def)
qed

subsection \<open>No connection is lost\<close>

lemma call_loop_inv:
  assumes "\<And>i s s'. P s \<Longrightarrow> ended (att i s) = Some s' \<Longrightarrow> P s'"
  shows "P s \<Longrightarrow> call_loop att stuck retry done' timeout i retries gerr s = Returns y s' \<Longrightarrow>
    P s' \<or> (\<exists>j s1. P s1 \<and> att j s1 = Blocks \<and> done' j \<and> s' = stuck j s1 \<and> y = (Some timeout, None))"
  using assms
proof (induction att stuck retry done' timeout i retries gerr s rule: call_loop.induct)
  case (1 att stuck retry done' timeout i retries gerr s)
  note step = "1.prems"(3) [OF "1.prems"(1), of i]
    and run = "1.prems"(2) [unfolded call_loop.simps [of att stuck retry done' timeout i retries gerr s]]
  show ?case
  proof (cases "att i s")
    case (Returns x s1)
    with step have p: "P s1" by simp
    have IH: "P s' \<or> (\<exists>j s1. P s1 \<and> att j s1 = Blocks \<and> done' j \<and> s' = stuck j s1 \<and> y = (Some timeout, None))"
      if "\<not> int i > retries" "\<not> done' i" "x = Inl err" "retry = (True, None)"
        "call_loop att stuck retry done' timeout (i + 1) retries (Some err) s1 = Returns y s'" for err
      using "1.IH" [OF that(1) Returns that(2,3) that(4) [symmetric]] p that(5) "1.prems"(3) by blast
    with "1.prems"(1) run Returns p show ?thesis
      by (auto split: if_splits sum.splits prod.splits option.splits)
  qed (use "1.prems"(1) run step in \<open>auto split: if_splits\<close>)
qed

lemma rc_attempt_held:
  "ended (rc_attempt sep sc service opts f i s) = Some s' \<Longrightarrow> ysHeld s' = ysHeld s"
  by (auto simp: rc_attempt_def Let_def split: sum.splits option.splits outcome.splits)

lemma rc_attempt_inv:
  assumes "\<And>i node r w r' w'. Q r w \<Longrightarrow> ended (f i node r w) = Some (r', w') \<Longrightarrow> Q r' w'"
    and "Q (ysClient s) (ysWorld s)" and "ended (rc_attempt sep sc service opts f i s) = Some s'"
  shows "Q (ysClient s') (ysWorld s')"
proof (cases "coBackoff opts i")
  case (Inl err)
  with assms(2,3) show ?thesis by (auto simp: rc_attempt_def)
next
  case (Inr d)
  show ?thesis
  proof (cases "call_next (scUnix sc i) (scRand sc i) (ysNext s, ysKey s)")
    case None
    with Inr assms(2,3) show ?thesis by (auto simp: rc_attempt_def)
  next
    case (Some y)
    obtain n nx key where y: "y = (n, nx, key)" by (metis prod_cases3)
    show ?thesis
    proof (cases n)
      case (Inl err)
      with Inr Some y assms(2,3) show ?thesis by (auto simp: rc_attempt_def)
    next
      case node: (Inr node)
      then show ?thesis
        using assms(3) assms(1) [OF assms(2), of i node] Inr Some y
        by (auto simp: rc_attempt_def Let_def split: outcome.splits)
    qed
  qed
qed

lemma ended_call_result [simp]: "ended (call_result x) = ended x"
  by (cases x rule: call_result.cases) auto

definition held_conns :: "conn_client option \<Rightarrow> poolConn set" where
  "held_conns held = (case held of Some (Pooled c) \<Rightarrow> {c} | _ \<Rightarrow> {})"

lemma attempt_stuck_inv:
  assumes "rpc_transport (evTransport ev) opened closed"
    and "conn_inv opened closed \<lparr>csPool = rlPool (ysClient s), csUsed = U, csWorld = ysWorld s\<rparr> \<and> ysHeld s = None"
  shows "conn_inv opened closed \<lparr>csPool = rlPool (ysClient (call_held ev sc ctx request c i s)),
      csUsed = U \<union> held_conns (ysHeld (call_held ev sc ctx request c i s)), csWorld = ysWorld (call_held ev sc ctx request c i s)\<rparr> \<and>
    held_conns (ysHeld (call_held ev sc ctx request c i s)) \<inter> U = {}"
proof (cases "\<exists>node nx key. call_next (scUnix sc i) (scRand sc i) (ysNext s, ysKey s) = Some (Inr node, nx, key)")
  case True
  then obtain node nx key where n: "call_next (scUnix sc i) (scRand sc i) (ysNext s, ysKey s) = Some (Inr node, nx, key)" by blast
  obtain held r w where g: "call_stuck (evTransport ev) (evJson ev) (scCall sc i) ctx node request c (ysClient s) (ysWorld s) = (held, r, w)"
    by (metis prod_cases3)
  from rpc_transport.call_stuck_inv [OF assms(1) conjunct1 [OF assms(2)] g] n g show ?thesis
    by (auto simp: call_held_def attempt_stuck_def held_conns_def)
next
  case False
  then have "call_held ev sc ctx request c i s = s"
    by (auto simp: call_held_def attempt_stuck_def split: option.splits sum.splits)
  with assms(2) show ?thesis by (simp add: held_conns_def)
qed

text \<open>C18. A call, without wrappers, that returns, by whatever number of attempts and whoever wins the races
  with the context, gives back every connection it takes, once its attempts have ended: the open
  connections are then those that others use and those idle in the pool, none is closed while idle or in
  use, and the pool keeps to its size. The one exception is a call that reports a timeout while its last
  attempt does not return (in dialling, sending or receiving): that attempt keeps the one connection it
  has taken, if any.\<close>

theorem rpc_call_releases:
  assumes "rpc_transport (evTransport ev) opened closed"
    and "conn_inv opened closed \<lparr>csPool = rlPool r, csUsed = U, csWorld = w\<rparr>"
    and "rc_Call ev sc [] ctx request t opts sel key r w = Returns x (sel', key', r', w', held)"
  shows "conn_inv opened closed \<lparr>csPool = rlPool r', csUsed = U \<union> held_conns held, csWorld = w'\<rparr> \<and>
    held_conns held \<inter> U = {} \<and>
    (held \<noteq> None \<longrightarrow> x = (Some (GoErr (''go.micro.client call timeout: '' @ cxErr ctx)), None) \<and>
       (\<exists>i s callOpts. scDone sc i \<and> call_attempt ev sc [] ctx request t callOpts i s = Blocks))"
proof -
  let ?Q = "\<lambda>r w. conn_inv opened closed \<lparr>csPool = rlPool r, csUsed = U, csWorld = w\<rparr>"
  let ?P = "\<lambda>s. ?Q (ysClient s) (ysWorld s) \<and> ysHeld s = None"
  have att: "?P s'" if "?P s" "ended (call_attempt ev sc [] ctx request t callOpts i s) = Some s'" for i s s' callOpts
  proof
    show "?Q (ysClient s') (ysWorld s')"
      by (rule rc_attempt_inv [where Q = ?Q, OF _ _ that(2) [unfolded call_attempt_def Let_def]])
        (use that(1) rpc_transport.rc_call_inv [OF assms(1)] in auto)
    show "ysHeld s' = None" using rc_attempt_held that by (metis (no_types, lifting) call_attempt_def)
  qed
  define c where "c = (case cxDeadline ctx of None \<Rightarrow> fold (\<lambda>f. f) opts (opCallOptions (rlOpts r))
    | Some d \<Rightarrow> WithRequestTimeout (d - scNow' sc) (fold (\<lambda>f. f) opts (opCallOptions (rlOpts r))))"
  define e where "e = GoErr (''go.micro.client call timeout: '' @ cxErr ctx)"
  let ?att = "call_attempt ev sc [] ctx request t c" and ?stuck = "call_held ev sc ctx request c"
  from assms(3) consider "r' = r" "w' = w" "held = None" | nx s' where
      "call_loop ?att ?stuck (coRetry c 500) (scDone sc) e 0 (retries_of ev request c) None
        \<lparr>ysClient = r, ysNext = nx, ysKey = key, ysWorld = w, ysHeld = None\<rparr> = Returns x s'"
      "r' = ysClient s'" "w' = ysWorld s'" "held = ysHeld s'"
    unfolding rc_Call_def Let_def c_def [symmetric] e_def [symmetric]
    by (auto split: prod.splits sum.splits if_splits outcome.splits)
  then show ?thesis
  proof cases
    case 1
    with assms(2) show ?thesis by (simp add: held_conns_def)
  next
    case 2
    have "?P s' \<or> (\<exists>j s1. ?P s1 \<and> ?att j s1 = Blocks \<and> scDone sc j \<and> s' = ?stuck j s1 \<and> x = (Some e, None))"
      by (rule call_loop_inv [where P = ?P, OF _ _ 2(1)]) (rule att, use assms(2) in simp_all)
    then consider "?P s'" | j s1 where "?P s1" "?att j s1 = Blocks" "scDone sc j" "s' = ?stuck j s1" "x = (Some e, None)" by blast
    then show ?thesis
    proof cases
      case 1
      with 2 show ?thesis by (simp add: held_conns_def)
    next
      case stuck: 2
      from attempt_stuck_inv [OF assms(1) stuck(1), of sc ctx request c j] stuck(4) 2
      have "conn_inv opened closed \<lparr>csPool = rlPool r', csUsed = U \<union> held_conns held, csWorld = w'\<rparr> \<and> held_conns held \<inter> U = {}"
        by simp
      with stuck(2,3,5) e_def show ?thesis by blast
    qed
  qed
qed

definition rpc_world :: "TMessage option mem_world" where
  \<comment> \<open>an echoing server at \<open>a:0\<close>\<close>
  "rpc_world = (NewMemoryTransport 0 (\<lambda>_. 0))\<lparr>mwListeners := [''a:0'' \<mapsto> 0],
     mwLis := [\<lparr>mlAddr = ''a:0'', mlExit = False, mlAccepting = True\<rparr>]\<rparr>"

definition ex_env :: "(unit, byte, TMessage option mem_world, unit) rpc_env" where
  "ex_env = \<lparr>evTransport = memory_transport echo_process, evJson = byte_json, evVars = \<lambda>_. [],
     evRegistry = \<lambda>_. Inr [], evShow = \<lambda>_. []\<rparr>"

definition ex_sched :: rpc_sched where
  "ex_sched = \<lparr>scNow = 0, scNow' = 0, scDone0 = False, scDone = \<lambda>_. False, scUnix = int, scRand = \<lambda>_. 0,
     scCall = \<lambda>i. \<lparr>csNow = 0, csNow' = 0, csUuid = i, csRace = Finished\<rparr>\<rparr>"

definition ex_ctx :: go_context where
  "ex_ctx = \<lparr>cxMd = None, cxDeadline = None, cxErr = ''context deadline exceeded''\<rparr>"

definition ex_client :: "(unit, byte) rpcClient" where
  "ex_client = newRpcClient []"

definition ex_request :: "byte rpcRequest" where
  "ex_request = rc_NewRequest ex_client ''svc'' ''Do'' (Val 7) []"

lemma ex_call:
  "(case rc_Call ex_env ex_sched [] ex_ctx ex_request ToVal [WithAddress [''a''], WithRequestTimeout 5] (NewSelector []) 0 ex_client rpc_world of
     Returns (e, v) _ \<Rightarrow> e = None \<and> v = Some (Some (Val 7)) | _ \<Rightarrow> False)"
  by code_simp

lemma ex_client_start:
  "conn_inv mt_opened mt_closed \<lparr>csPool = rlPool ex_client, csUsed = {}, csWorld = rpc_world\<rparr>"
  using conn_start_inv [of mt_opened rpc_world mt_closed]
  by (simp add: conn_start_def ex_client_def newRpcClient_def pool_for_def NewConnPool_def Let_def rpc_world_def NewMemoryTransport_def
      mt_opened_def mt_closed_def)

theorem rpc_call_releases_witness:
  "\<exists>sel' key' r' w'. rc_Call ex_env ex_sched [] ex_ctx ex_request ToVal [WithAddress [''a''], WithRequestTimeout 5] (NewSelector []) 0 ex_client rpc_world =
      Returns (None, Some (Some (Val 7))) (sel', key', r', w', None) \<and>
    mt_opened w' - mt_closed w' = pcClient ` idle_conns (rlPool r')"
proof -
  obtain sel' key' r' w' held where c: "rc_Call ex_env ex_sched [] ex_ctx ex_request ToVal [WithAddress [''a''], WithRequestTimeout 5] (NewSelector []) 0 ex_client rpc_world =
      Returns (None, Some (Some (Val 7))) (sel', key', r', w', held)"
    using ex_call by (auto split: outcome.splits)
  have "rpc_transport (evTransport ex_env) mt_opened mt_closed" by (simp add: ex_env_def mrt.rpc_transport_axioms)
  note res = rpc_call_releases [OF this ex_client_start c]
  then have "held = None" by simp
  with res c show ?thesis by (auto simp: conn_inv_def owned_def held_conns_def)
qed

text \<open>Opening a stream takes a new connection that the pool does not know. If it succeeds the stream is open and owns exactly that
  connection; if it fails, by an error or because the context ends first, the connection has been closed.\<close>

lemma rpc_stream_connection:
  assumes "rpc_transport tr opened closed" and "rc_stream tr E rc ctx node req opts r w = Returns x (r', w')"
  shows "rlPool r' = rlPool r \<and> (case x of
      Inl _ \<Rightarrow> opened w' - closed w' = opened w - closed w
    | Inr st \<Rightarrow> \<not> rsClosed st \<and> (\<exists>h. rkClient (rsCodec st) = Direct h \<and> h \<notin> opened w \<and>
        opened w' = insert h (opened w) \<and> closed w' = closed w))"
  using rpc_transport.rc_stream_conns [OF assms] .

lemma ex_stream_call:
  "(case rc_stream (memory_transport echo_process) byte_json Finished ex_ctx (address_node ''a:0'') ex_request (opCallOptions (rlOpts ex_client)) ex_client rpc_world of
     Returns (Inr _) _ \<Rightarrow> True | _ \<Rightarrow> False)"
  by code_simp

text \<open>When the context wins the race in \<open>Stream\<close> while the attempt succeeds, the stream goes nowhere: the caller gets an error and its
  connection stays open.\<close>

lemma stream_timeout_leaks:
  assumes "rc_next ev (scNow sc) (scNow' sc) request (fold (\<lambda>f. f) opts (opCallOptions (rlOpts r))) sel = (Inr nx, sel')"
    and "\<not> scDone0 sc" and "scDone sc 0" and "callOpts = fold (\<lambda>f. f) opts (opCallOptions (rlOpts r))" and "0 \<le> retries_of ev request callOpts"
    and "stream_attempt ev sc ctx request callOpts 0 \<lparr>ysClient = r, ysNext = nx, ysKey = key, ysWorld = w, ysHeld = None\<rparr> = Returns (Inr st) s"
  shows "rc_Stream ev sc ctx request opts sel key r w =
    Returns (Some (GoErr (''go.micro.client call timeout: '' @ cxErr ctx)), None) (sel', ysKey s, ysClient s, ysWorld s, ysHeld s)"
  using assms(2,3,5,6) unfolding rc_Stream_def Let_def assms(4) [symmetric] assms(1) [folded assms(4)]
  by (simp add: call_loop.simps)

subsection \<open>Examples of retries and of an explicit address\<close>

definition ex_opts :: CallOptions where
  "ex_opts = WithAddress [''b''] (opCallOptions (rlOpts ex_client))"

definition ex_failure :: goerr where
  "ex_failure = GoErr ''go.micro.client: connection error: could not dial b:0''"

lemma ex_dial_fails:
  "call_attempt ex_env ex_sched [] ex_ctx ex_request ToVal ex_opts i
     \<lparr>ysClient = ex_client, ysNext = FixedNodes [address_node ''b''], ysKey = 0, ysWorld = rpc_world, ysHeld = None\<rparr> =
   Returns (Inl ex_failure) \<lparr>ysClient = ex_client, ysNext = FixedNodes [address_node ''b''], ysKey = 0, ysWorld = rpc_world, ysHeld = None\<rparr>"
proof -
  let ?r = ex_client
  have b: "coBackoff ex_opts i = Inr (backoffDo i)"
    by (simp add: ex_opts_def WithAddress_def ex_client_def newRpcClient_def NewOptions_def Let_def exponentialBackoff_def)
  have n: "call_next (scUnix ex_sched i) (scRand ex_sched i) (FixedNodes [address_node ''b''], 0) =
      Some (Inr (address_node ''b''), FixedNodes [address_node ''b''], 0)"
    by (simp add: go_index_def go_rem_def)
  have "itoa 0 = ''0''" by code_simp
  then have addr: "call_address (address_node ''b'') = ''b:0''" by (simp add: call_address_def address_node_def)
  have p: "pool_Get (memory_transport echo_process) x y z ''b:0'' os (rlPool ?r) rpc_world =
      Some (Inl (GoErr ''could not dial b:0''), rlPool ?r, rpc_world)" for x y z os
    by (simp add: pool_Get_def get_loop.simps ex_client_def newRpcClient_def pool_for_def NewConnPool_def new_conn_pool_def conns_at_def
        memory_transport_def mt_Dial_def rpc_world_def NewMemoryTransport_def Let_def)
  have cf: "\<exists>cf msg. choose_codec byte_json ?r m (address_node ''b'') (rqContentType ex_request) = (Inr cf, msg)" for m
    by (simp add: choose_codec_def setupProtocol_def address_node_def meta_def ex_request_def rc_NewRequest_def newRequest_def
        newCodec_def ex_client_def newRpcClient_def NewOptions_def DefaultContentType_def DefaultCodecs_def Let_def)
  have "rc_call (memory_transport echo_process) byte_json sch ex_ctx (address_node ''b'') ex_request ToVal ex_opts ?r rpc_world =
      Returns (Some ex_failure, None) (?r, rpc_world)" for sch
    using cf [of "\<lparr>tmHeader = call_header ex_ctx ex_request ex_opts, tmBody = []\<rparr>"]
    by (auto simp: rc_call_def addr p ex_failure_def)
  then show ?thesis by (simp add: call_attempt_def rc_attempt_def b n ex_env_def del: call_next.simps)
qed

end
