(* ===== verification/Paths.thy ===== *)
theory Paths
  imports Strconv
begin

text \<open>
  Slash-separated paths as Go's packages \<open>path\<close> and \<open>path/filepath\<close> treat them: a path is cleaned by removing empty and single-dot
  parts and resolving double dots, and joining cleans the parts put together.
\<close>

definition clean_part :: "bool \<Rightarrow> string list \<Rightarrow> string \<Rightarrow> string list" where
  "clean_part rooted st part =
     (if part = [] \<or> part = ''.'' then st
      else if part = ''..'' then
        (if st \<noteq> [] \<and> last st \<noteq> ''..'' then butlast st else if rooted then st else st @ [part])
      else st @ [part])"

fun join_with :: "string \<Rightarrow> string list \<Rightarrow> string" where
  "join_with sep [] = []"
| "join_with sep [s] = s"
| "join_with sep (s # ss) = s @ sep @ join_with sep ss"

definition path_parts :: "string \<Rightarrow> string list" where
  "path_parts p = foldl (clean_part (p \<noteq> [] \<and> hd p = CHR ''/'')) [] (split_at_char (CHR ''/'') p)"

definition path_Clean :: "string \<Rightarrow> string" where
  "path_Clean p =
     (let p' = (if p \<noteq> [] \<and> hd p = CHR ''/'' then ''/'' else []) @ join_with ''/'' (path_parts p)
      in if p' = [] then ''.'' else p')"

definition path_Join :: "string list \<Rightarrow> string" where
  "path_Join elems =
     (let es = filter (\<lambda>e. e \<noteq> []) elems
      in if es = [] then [] else path_Clean (join_with ''/'' es))"

definition plain_name :: "string \<Rightarrow> bool" where
  "plain_name x \<longleftrightarrow> x \<noteq> [] \<and> x \<noteq> ''.'' \<and> x \<noteq> ''..''"

definition rooted :: "string \<Rightarrow> bool" where
  "rooted p \<longleftrightarrow> p \<noteq> [] \<and> hd p = CHR ''/''"

lemma split_append: "split_at_char c (xs @ c # ys) = split_at_char c xs @ split_at_char c ys"
proof (induction xs)
  case (Cons x xs)
  then show ?case by (cases "split_at_char c xs") auto
qed simp

lemma join_with_snoc: "xs \<noteq> [] \<Longrightarrow> join_with sep (xs @ [x]) = join_with sep xs @ sep @ x"
  by (induction sep xs rule: join_with.induct) auto

lemma path_Join_parts:
  assumes "rooted pre" and "plain_name a" and "CHR ''/'' \<notin> set a"
  shows "path_parts (pre @ ''/'' @ a) = path_parts pre @ [a]"
  using assms by (simp add: path_parts_def split_append split_none rooted_def clean_part_def plain_name_def)

end
