(* ===== verification/HttpTransport.thy ===== *)
theory HttpTransport
  imports RpcClient Paths
begin

text \<open>
  \<^verbatim>\<open>transport/http_transport.go\<close> and \<^verbatim>\<open>transport/http_proxy.go\<close>: the transport over HTTP.

  Representation. Of \<open>net/http\<close> the development keeps whole requests and responses: a connection carries them in
  order, and \<open>wire_request\<close> and \<open>wire_response\<close> say what the other side reads of one that was written (which header
  fields are written, added and changed; the fields \<open>Connection\<close>, \<open>Pragma\<close>, \<open>Upgrade\<close> and \<open>Expect\<close>, which the library
  treats in a special way, are outside, and so are its limits on the size of a head and on the form of a host name). What a server of \<open>net/http\<close> answers to a first request before the handler sees it is \<open>server_refuses\<close>: a header
  value with control characters is a bad request, and a path that is not clean is redirected by the multiplexer. A network \<open>'p net\<close> says what dialling an address gives, what the peer of a connection, with
  state \<open>'p\<close>, does with a request and which response is read next; a read that waits for ever is \<open>None\<close>. The fields of a
  client are those of \<open>httpTransportClient\<close>; the mutex is a flag, because the code leaves it locked on one path, and the
  operations are split where it is held while waiting. The iteration order of a Go map is given by a function \<open>ord\<close>.
  The texts of errors of the network are parameters. What is written to a log or printed is left out.
\<close>

subsection \<open>Header fields\<close>

type_synonym http_header = "string \<rightharpoonup> string list"

type_synonym map_order = "(string \<rightharpoonup> string) \<Rightarrow> string list"

definition to_lower :: "char \<Rightarrow> char" where
  "to_lower c = (if 65 \<le> (of_char c :: nat) \<and> (of_char c :: nat) \<le> 90 then char_of (of_char c + 32 :: nat) else c)"

definition is_token :: "char \<Rightarrow> bool" where
  \<comment> \<open>the characters of field names: letters, digits and these\<close>
  "is_token c \<longleftrightarrow> is_lower c \<or> 65 \<le> (of_char c :: nat) \<and> (of_char c :: nat) \<le> 90 \<or>
     48 \<le> (of_char c :: nat) \<and> (of_char c :: nat) \<le> 57 \<or> c \<in> set ''!#$%&*+-.^_|~'' \<or> of_char c = (39 :: nat) \<or> of_char c = (96 :: nat)"

fun canonical_from :: "bool \<Rightarrow> string \<Rightarrow> string" where
  "canonical_from upper [] = []"
| "canonical_from upper (c # cs) = (let c = (if upper then to_title c else to_lower c) in c # canonical_from (c = CHR ''-'') cs)"

definition CanonicalHeaderKey :: "string \<Rightarrow> string" where
  "CanonicalHeaderKey s = (if list_all is_token s then canonical_from True s else s)"

definition header_Set :: "string \<Rightarrow> string \<Rightarrow> http_header \<Rightarrow> http_header" where
  "header_Set k v h = h(CanonicalHeaderKey k \<mapsto> [v])"

definition set_headers :: "map_order \<Rightarrow> (string \<rightharpoonup> string) \<Rightarrow> http_header \<Rightarrow> http_header" where
  \<comment> \<open>the loop \<open>for k, v := range m { header.Set(k, v) }\<close>\<close>
  "set_headers ord m header = fold (\<lambda>k h. case m k of None \<Rightarrow> h | Some v \<Rightarrow> header_Set k v h) (ord m) header"

definition first_values :: "http_header \<Rightarrow> (string \<rightharpoonup> string)" where
  \<comment> \<open>the assignments \<open>m.Header[k] = v[0]\<close>, or the empty string, for all fields\<close>
  "first_values h k = map_option (\<lambda>v. if length v > 0 then v ! 0 else []) (h k)"

subsection \<open>Requests and responses\<close>

record http_request =
  hqMethod :: string
  hqHost :: string
  hqPath :: string
  hqHeader :: http_header
  hqBody :: "byte list"
  hqProtoMajor :: nat
  hqRemoteAddr :: string

record http_response =
  hpStatusCode :: int
  hpStatus :: string
  hpHeader :: http_header
  hpBody :: "byte list"

definition blank_char :: "char \<Rightarrow> bool" where
  "blank_char c \<longleftrightarrow> of_char c \<in> {9, 10, 13, 32 :: nat}"

definition trim_blanks :: "string \<Rightarrow> string" where
  "trim_blanks s = rev (dropWhile blank_char (rev (dropWhile blank_char s)))"

definition wire_value :: "string \<Rightarrow> string" where
  \<comment> \<open>line ends become blanks, and blanks at both ends go\<close>
  "wire_value v = trim_blanks (map (\<lambda>c. if of_char c \<in> {10, 13 :: nat} then CHR '' '' else c) v)"

definition wire_header :: "string set \<Rightarrow> http_header \<Rightarrow> http_header" where
  \<comment> \<open>fields with an invalid name, without a value or of the given names are not written\<close>
  "wire_header excluded h k =
     (if k \<in> excluded \<or> k = [] \<or> \<not> list_all is_token k then None
      else case h k of None \<Rightarrow> None | Some v \<Rightarrow> if v = [] then None else Some (map wire_value v))"

definition wire_request :: "http_request \<Rightarrow> http_request" where
  \<comment> \<open>a request without content is sent in chunks, with no length\<close>
  "wire_request r =
     (let agent = (case hqHeader r ''User-Agent'' of Some (v # _) \<Rightarrow> wire_value v | _ \<Rightarrow> ''Go-http-client/1.1'');
          h = wire_header {''Host'', ''User-Agent'', ''Content-Length'', ''Transfer-Encoding'', ''Trailer''} (hqHeader r);
          h = (if agent = [] then h else h(''User-Agent'' \<mapsto> [agent]));
          h = (if hqBody r = [] then h else h(''Content-Length'' \<mapsto> [itoa (int (length (hqBody r)))]))
      in r\<lparr>hqPath := (if hqPath r = [] \<and> hqMethod r \<noteq> ''CONNECT'' then ''/'' else hqPath r), hqHeader := h, hqProtoMajor := 1\<rparr>)"

definition wire_response :: "http_response \<Rightarrow> http_response" where
  "wire_response r =
     r\<lparr>hpHeader := (wire_header {''Content-Length'', ''Transfer-Encoding'', ''Trailer''} (hpHeader r))
        (''Content-Length'' \<mapsto> [itoa (int (length (hpBody r)))])\<rparr>"

subsection \<open>The network\<close>

datatype read_result = ReadFails goerr | BodyFails http_response goerr | Got http_response
  \<comment> \<open>reading the head of a response fails, or reading its content, or neither\<close>

record tls_config =
  tcNextProtos :: "string list"
  tcInsecureSkipVerify :: bool
  tcCertificates :: "string list" \<comment> \<open>names that stand for certificates\<close>

record 'p net =
  nwDial :: "tls_config option \<Rightarrow> string \<Rightarrow> int \<Rightarrow> goerr + 'p" \<comment> \<open>with TLS or not, within a time\<close>
  nwTake :: "http_request \<Rightarrow> 'p \<Rightarrow> goerr option \<times> 'p"
  nwOffer :: "'p \<Rightarrow> (read_result \<times> 'p) option"
  nwAddrs :: "string \<Rightarrow> string \<times> string" \<comment> \<open>local and remote address of a connection to this address\<close>

subsection \<open>The client\<close>

record 'p httpTransportClient =
  hcAddr :: string
  hcStream :: bool
  hcLocked :: bool
  hcR :: "http_request list" \<comment> \<open>the channel, of capacity one\<close>
  hcRClosed :: bool
  hcBl :: "http_request list"
  hcClosed :: bool
  hcConnClosed :: bool
  hcPeer :: 'p
  hcLocal :: string
  hcRemote :: string

definition send_request :: "map_order \<Rightarrow> string \<Rightarrow> TMessage \<Rightarrow> http_request" where
  "send_request ord addr m =
     (let header = set_headers ord (tmHeader m) Map.empty;
          endpoint = (case tmHeader m ''Micro-Endpoint'' of None \<Rightarrow> [] | Some e \<Rightarrow> e);
          path = (if length endpoint > 0 \<and> endpoint ! 0 \<noteq> CHR ''/'' then ''/'' @ endpoint else endpoint)
      in \<lparr>hqMethod = ''POST'', hqHost = addr, hqPath = path, hqHeader = header, hqBody = tmBody m,
          hqProtoMajor = 1, hqRemoteAddr = []\<rparr>)"

definition hc_Send ::
  "'p net \<Rightarrow> map_order \<Rightarrow> TMessage \<Rightarrow> 'p httpTransportClient \<Rightarrow> (goerr option \<times> 'p httpTransportClient) option" where
  \<comment> \<open>the \<open>select\<close> panics when the channel is closed\<close>
  "hc_Send N ord m h =
     (let req = send_request ord (hcAddr h) m
      in if hcLocked h \<or> hcRClosed h then None
         else
           let h = h\<lparr>hcBl := hcBl h @ [req]\<rparr>;
               h = (if hcR h = [] then h\<lparr>hcR := [hd (hcBl h)], hcBl := tl (hcBl h)\<rparr> else h);
               (err, p) = nwTake N (wire_request req) (hcPeer h)
           in Some (err, h\<lparr>hcPeer := p\<rparr>))"

definition recv_enter :: "'p httpTransportClient \<Rightarrow> (goerr option \<times> 'p httpTransportClient) option" where
  \<comment> \<open>up to the point where a response is waited for, with the mutex locked; the mutex stays locked when the client
    turns out to be closed\<close>
  "recv_enter h =
     (let lock = (\<lambda>h. if hcLocked h then None
             else if hcClosed h then Some (Some IoEOF, h\<lparr>hcLocked := True\<rparr>)
             else Some (None, h\<lparr>hcLocked := True\<rparr>))
      in if \<not> hcStream h then
           (case hcR h of
              r # rs \<Rightarrow> lock (h\<lparr>hcR := rs\<rparr>)
            | [] \<Rightarrow> if hcRClosed h then Some (Some IoEOF, h) else None)
         else lock h)"

definition recv_read :: "'p net \<Rightarrow> int \<Rightarrow> 'p httpTransportClient \<Rightarrow> (read_result \<times> 'p httpTransportClient) option" where
  \<comment> \<open>reading the response, and unlocking the mutex\<close>
  "recv_read N timeout h =
     (case nwOffer N (hcPeer h) of
        None \<Rightarrow> if timeout > 0 then Some (ReadFails (GoErr ''i/o timeout''), h\<lparr>hcLocked := False\<rparr>) else None
      | Some (r, p) \<Rightarrow> Some (r, h\<lparr>hcLocked := False, hcPeer := p\<rparr>))"

definition body_text :: "byte list \<Rightarrow> string" where
  "body_text b = map (\<lambda>x. char_of (unat x)) b"

definition recv_message :: "TMessage \<Rightarrow> read_result \<Rightarrow> goerr + TMessage" where
  "recv_message m r =
     (case r of
        ReadFails err \<Rightarrow> Inl err
      | BodyFails _ err \<Rightarrow> Inl err
      | Got rsp \<Rightarrow>
          if hpStatusCode rsp \<noteq> 200 then Inl (GoErr (hpStatus rsp @ '': '' @ body_text (hpBody rsp)))
          else Inr \<lparr>tmHeader = tmHeader m ++ first_values (hpHeader rsp), tmBody = hpBody rsp\<rparr>)"

definition hc_Recv ::
  "'p net \<Rightarrow> int \<Rightarrow> TMessage option \<Rightarrow> 'p httpTransportClient \<Rightarrow> ((goerr + TMessage) \<times> 'p httpTransportClient) option" where
  \<comment> \<open>\<open>None\<close> is a \<open>nil\<close> message; the header of a message may be empty for \<open>nil\<close>\<close>
  "hc_Recv N timeout m h =
     (case m of
        None \<Rightarrow> Some (Inl (GoErr ''message passed in is nil''), h)
      | Some m \<Rightarrow>
          case recv_enter h of
            None \<Rightarrow> None
          | Some (Some err, h) \<Rightarrow> Some (Inl err, h)
          | Some (None, h) \<Rightarrow> map_option (\<lambda>(r, h). (recv_message m r, h)) (recv_read N timeout h))"

definition close_blocks :: "'p httpTransportClient \<Rightarrow> bool" where
  \<comment> \<open>the first \<open>Close\<close> takes the mutex\<close>
  "close_blocks h \<longleftrightarrow> \<not> hcClosed h \<and> hcLocked h"

definition hc_Close :: "'p httpTransportClient \<Rightarrow> goerr option \<times> 'p httpTransportClient" where
  \<comment> \<open>once it has the mutex\<close>
  "hc_Close h =
     (let h = (if hcClosed h then h else h\<lparr>hcClosed := True, hcRClosed := True\<rparr>)
      in (if hcConnClosed h then Some (GoErr ''use of closed network connection'') else None, h\<lparr>hcConnClosed := True\<rparr>))"

subsection \<open>Proxies\<close>

definition b64_char :: "nat \<Rightarrow> char" where
  "b64_char n = ''ABCDEFGHIJKLMNOPQRSTUVWXYZabcdefghijklmnopqrstuvwxyz0123456789+/'' ! n"

fun base64 :: "nat list \<Rightarrow> string" where
  "base64 [] = []"
| "base64 [a] = [b64_char (a div 4), b64_char (a mod 4 * 16), CHR ''='', CHR ''='']"
| "base64 [a, b] = [b64_char (a div 4), b64_char (a mod 4 * 16 + b div 16), b64_char (b mod 16 * 4), CHR ''='']"
| "base64 (a # b # c # xs) =
     [b64_char (a div 4), b64_char (a mod 4 * 16 + b div 16), b64_char (b mod 16 * 4 + c div 64), b64_char (c mod 64)] @ base64 xs"

record proxy_url =
  pxHost :: string
  pxUser :: "(string \<times> string) option" \<comment> \<open>user name and password, empty if there is none\<close>

datatype conn_event = ConnOpened string | ConnClosed string
  \<comment> \<open>a network connection to this address is made, or closed\<close>

definition connect_request :: "string \<Rightarrow> proxy_url \<Rightarrow> http_request" where
  "connect_request addr proxyURL =
     (let h = [''User-Agent'' \<mapsto> [''micro/latest'']];
          h = (case pxUser proxyURL of
                 None \<Rightarrow> h
               | Some (u, p) \<Rightarrow> h(''Proxy-Authorization'' \<mapsto> [''Basic '' @ base64 (map of_char (u @ '':'' @ p))]))
      in \<lparr>hqMethod = ''CONNECT'', hqHost = addr, hqPath = [], hqHeader = h, hqBody = [], hqProtoMajor = 1, hqRemoteAddr = []\<rparr>)"

definition proxyDial ::
  "'p net \<Rightarrow> (http_response \<Rightarrow> string) \<Rightarrow> string \<Rightarrow> proxy_url \<Rightarrow> 'p \<Rightarrow> ((goerr + 'p) \<times> conn_event list) option" where
  \<comment> \<open>\<open>dump\<close> prints a response; the deferred function closes the connection when an error is returned\<close>
  "proxyDial N dump addr proxyURL conn =
     (let fail = (\<lambda>t. Some (Inl (GoErr t), [ConnClosed (pxHost proxyURL)]))
      in case nwTake N (wire_request (connect_request addr proxyURL)) conn of
           (Some err, _) \<Rightarrow> fail (''failed to write the HTTP request: '' @ errText err)
         | (None, conn) \<Rightarrow>
             (case nwOffer N conn of
                None \<Rightarrow> None
              | Some (ReadFails err, _) \<Rightarrow> fail (''reading server HTTP response: '' @ errText err)
              | Some (BodyFails rsp err, conn) \<Rightarrow>
                  if hpStatusCode rsp \<noteq> 200 then fail (''failed to do connect handshake, status code: '' @ hpStatus rsp)
                  else Some (Inr conn, [])
              | Some (Got rsp, conn) \<Rightarrow>
                  if hpStatusCode rsp \<noteq> 200 then fail (''failed to do connect handshake, response: '' @ dump rsp)
                  else Some (Inr conn, [])))"

definition newConn ::
  "'p net \<Rightarrow> (http_response \<Rightarrow> string) \<Rightarrow> (string \<Rightarrow> goerr + proxy_url option) \<Rightarrow> (string \<Rightarrow> goerr + 'p) \<Rightarrow> string \<Rightarrow>
   ((goerr + 'p) \<times> conn_event list) option" where
  \<comment> \<open>\<open>getURL\<close> is what the environment says of proxies\<close>
  "newConn N dump getURL dial addr =
     (case getURL addr of
        Inl err \<Rightarrow> Some (Inl err, [])
      | Inr proxyURL \<Rightarrow>
          let callAddr = (case proxyURL of None \<Rightarrow> addr | Some u \<Rightarrow> pxHost u)
          in case dial callAddr of
               Inl err \<Rightarrow> Some (Inl err, [])
             | Inr c \<Rightarrow>
                 (case proxyURL of
                    None \<Rightarrow> Some (Inr c, [ConnOpened callAddr])
                  | Some u \<Rightarrow> map_option (\<lambda>(r, ev). (r, ConnOpened callAddr # ev)) (proxyDial N dump addr u c)))"

subsection \<open>Dialling\<close>

record http_options =
  htSecure :: bool
  htTLSConfig :: "tls_config option"
  htTimeout :: int

record 'p http_world =
  hwOpts :: http_options
  hwClients :: "'p httpTransportClient list"
  hwLog :: "conn_event list"

definition NewHTTPTransport :: "(http_options \<Rightarrow> http_options) list \<Rightarrow> 'p http_world" where
  "NewHTTPTransport opts =
     \<lparr>hwOpts = fold (\<lambda>o'. o') opts \<lparr>htSecure = False, htTLSConfig = None, htTimeout = 0\<rparr>, hwClients = [], hwLog = []\<rparr>"

definition ht_Init :: "(http_options \<Rightarrow> http_options) list \<Rightarrow> 'p http_world \<Rightarrow> 'p http_world" where
  "ht_Init opts w = w\<lparr>hwOpts := fold (\<lambda>o'. o') opts (hwOpts w)\<rparr>"

definition opt_Timeout :: "int \<Rightarrow> http_options \<Rightarrow> http_options" where
  "opt_Timeout t o' = o'\<lparr>htTimeout := t\<rparr>"

definition opt_Secure :: "bool \<Rightarrow> http_options \<Rightarrow> http_options" where
  "opt_Secure b o' = o'\<lparr>htSecure := b\<rparr>"

definition opt_TLSConfig :: "tls_config \<Rightarrow> http_options \<Rightarrow> http_options" where
  "opt_TLSConfig t o' = o'\<lparr>htTLSConfig := Some t\<rparr>"

definition dial_tls :: "http_options \<Rightarrow> tls_config option \<times> http_options" where
  \<comment> \<open>the configuration used, and the options afterwards: a configuration that was given is changed\<close>
  "dial_tls o' =
     (if htSecure o' \<or> htTLSConfig o' \<noteq> None then
        let config = (case htTLSConfig o' of
              None \<Rightarrow> \<lparr>tcNextProtos = [], tcInsecureSkipVerify = True, tcCertificates = []\<rparr>
            | Some c \<Rightarrow> c);
            config = config\<lparr>tcNextProtos := [''http/1.1'']\<rparr>
        in (Some config, if htTLSConfig o' = None then o' else o'\<lparr>htTLSConfig := Some config\<rparr>)
      else (None, o'))"

definition ht_Dial ::
  "'p net \<Rightarrow> (http_response \<Rightarrow> string) \<Rightarrow> (string \<Rightarrow> goerr + proxy_url option) \<Rightarrow> string \<Rightarrow> DialOption list \<Rightarrow> 'p http_world \<Rightarrow>
   ((goerr + nat) \<times> 'p http_world) option" where
  "ht_Dial N dump getURL addr opts w =
     (let dopts = fold (\<lambda>o'. o') opts \<lparr>doStream = False, doTimeout = DefaultDialTimeout\<rparr>;
          (config, hopts) = dial_tls (hwOpts w);
          w = w\<lparr>hwOpts := hopts\<rparr>
      in case newConn N dump getURL (\<lambda>a. nwDial N config a (doTimeout dopts)) addr of
           None \<Rightarrow> None
         | Some (Inl err, ev) \<Rightarrow> Some (Inl err, w\<lparr>hwLog := hwLog w @ ev\<rparr>)
         | Some (Inr conn, ev) \<Rightarrow>
             let called = (case getURL addr of Inr (Some u) \<Rightarrow> pxHost u | _ \<Rightarrow> addr);
                 client = \<lparr>hcAddr = addr, hcStream = doStream dopts, hcLocked = False, hcR = [], hcRClosed = False, hcBl = [],
                   hcClosed = False, hcConnClosed = False, hcPeer = conn,
                   hcLocal = fst (nwAddrs N called), hcRemote = snd (nwAddrs N called)\<rparr>
             in Some (Inr (length (hwClients w)), w\<lparr>hwClients := hwClients w @ [client], hwLog := hwLog w @ ev\<rparr>))"

definition on_client ::
  "('p httpTransportClient \<Rightarrow> ('a \<times> 'p httpTransportClient) option) \<Rightarrow> nat \<Rightarrow> 'p http_world \<Rightarrow> ('a \<times> 'p http_world) option" where
  "on_client f h w = map_option (\<lambda>(x, c). (x, w\<lparr>hwClients := (hwClients w)[h := c]\<rparr>)) (f (hwClients w ! h))"

definition http_close :: "nat \<Rightarrow> 'p http_world \<Rightarrow> goerr option \<times> 'p http_world" where
  "http_close h w = (let (e, c) = hc_Close (hwClients w ! h) in (e, w\<lparr>hwClients := (hwClients w)[h := c]\<rparr>))"

definition http_transport ::
  "'p net \<Rightarrow> map_order \<Rightarrow> (http_response \<Rightarrow> string) \<Rightarrow> (string \<Rightarrow> goerr + proxy_url option) \<Rightarrow> 'p http_world Transport" where
  "http_transport N ord dump getURL =
     \<lparr>trDial = ht_Dial N dump getURL,
      trSend = (\<lambda>h m w. on_client (hc_Send N ord m) h w),
      trRecv = (\<lambda>h w. on_client (hc_Recv N (htTimeout (hwOpts w)) (Some \<lparr>tmHeader = Map.empty, tmBody = []\<rparr>)) h w),
      trClose = http_close,
      trRemote = (\<lambda>h w. hcRemote (hwClients w ! h))\<rparr>"

subsection \<open>The socket of the server\<close>

record httpTransportSocket =
  hsR :: http_request \<comment> \<open>the first request\<close>
  hsCh :: "http_request list" \<comment> \<open>the channel, of capacity one, that holds it at first\<close>
  hsIn :: "(goerr + http_request) list" \<comment> \<open>what reading further requests from the connection gives\<close>
  hsOut :: "http_response list" \<comment> \<open>responses written to the connection\<close>
  hsChunks :: "(goerr + byte list) list" \<comment> \<open>what reading the body of an HTTP/2 request gives\<close>
  hsHeader :: http_header \<comment> \<open>the header of the \<open>ResponseWriter\<close>\<close>
  hsWritten :: "byte list"
  hsBroken :: "goerr option" \<comment> \<open>the error that writing gives, if the peer has gone\<close>
  hsClosed :: bool
  hsConnClosed :: bool
  hsLocal :: string
  hsRemote :: string

definition max_chunk :: nat where
  "max_chunk = 4 * 1024 * 1024"

definition hs_next_request :: "httpTransportSocket \<Rightarrow> ((goerr + http_request) \<times> httpTransportSocket) option" where
  \<comment> \<open>the request in the channel, or the next that is read\<close>
  "hs_next_request s =
     (case hsCh s of
        r # rs \<Rightarrow> Some (Inr r, s\<lparr>hsCh := rs\<rparr>)
      | [] \<Rightarrow>
          if hsConnClosed s then Some (Inl (GoErr ''use of closed network connection''), s)
          else case hsIn s of [] \<Rightarrow> None | x # xs \<Rightarrow> Some (x, s\<lparr>hsIn := xs\<rparr>))"

definition hs_chunk :: "httpTransportSocket \<Rightarrow> ((goerr + byte list) \<times> httpTransportSocket) option" where
  \<comment> \<open>one read into a buffer of four mebibytes\<close>
  "hs_chunk s =
     (case hsChunks s of
        [] \<Rightarrow> None
      | Inl err # xs \<Rightarrow> Some (Inl err, s)
      | Inr b # xs \<Rightarrow>
          let rest = drop max_chunk b
          in Some (Inr (take max_chunk b), s\<lparr>hsChunks := (if rest = [] then xs else Inr rest # xs)\<rparr>))"

definition hs_Recv ::
  "int \<Rightarrow> TMessage option \<Rightarrow> httpTransportSocket \<Rightarrow> ((goerr + TMessage) \<times> httpTransportSocket) option" where
  "hs_Recv timeout m s =
     (case m of
        None \<Rightarrow> Some (Inl (GoErr ''message passed in is nil''), s)
      | Some m \<Rightarrow>
          if hqProtoMajor (hsR s) = 1 then
            (case hs_next_request s of
               None \<Rightarrow> if timeout > 0 then Some (Inl (GoErr ''i/o timeout''), s) else None
             | Some (Inl err, s) \<Rightarrow> Some (Inl err, s)
             | Some (Inr r, s) \<Rightarrow> Some (Inr \<lparr>tmHeader = tmHeader m ++ first_values (hqHeader r), tmBody = hqBody r\<rparr>, s))
          else if hsClosed s then Some (Inl IoEOF, s)
          else
            (case hs_chunk s of
               None \<Rightarrow> None
             | Some (Inl err, s) \<Rightarrow> Some (Inl err, s)
             | Some (Inr b, s) \<Rightarrow>
                 Some (Inr \<lparr>tmHeader = (tmHeader m ++ first_values (hqHeader (hsR s)))('':path'' \<mapsto> hqPath (hsR s)),
                   tmBody = (if length b > 0 then b else tmBody m)\<rparr>, s)))"

definition hs_write :: "http_response \<Rightarrow> httpTransportSocket \<Rightarrow> goerr option \<times> httpTransportSocket" where
  \<comment> \<open>\<open>rsp.Write(h.conn)\<close>\<close>
  "hs_write rsp s =
     (if hsConnClosed s then (Some (GoErr ''use of closed network connection''), s)
      else if hsBroken s \<noteq> None then (hsBroken s, s)
      else (None, s\<lparr>hsOut := hsOut s @ [wire_response rsp]\<rparr>))"

definition hs_Send :: "map_order \<Rightarrow> TMessage \<Rightarrow> httpTransportSocket \<Rightarrow> goerr option \<times> httpTransportSocket" where
  \<comment> \<open>over HTTP/1 the header starts as a copy of that of the first request\<close>
  "hs_Send ord m s =
     (if hqProtoMajor (hsR s) = 1 then
        hs_write \<lparr>hpStatusCode = 200, hpStatus = ''200 OK'', hpHeader = set_headers ord (tmHeader m) (hqHeader (hsR s)),
          hpBody = tmBody m\<rparr> s
      else if hsClosed s then (Some IoEOF, s)
      else
        let s = s\<lparr>hsHeader := set_headers ord (tmHeader m) (hsHeader s)\<rparr>
        in case hsBroken s of
             Some err \<Rightarrow> (Some err, s)
           | None \<Rightarrow> (None, s\<lparr>hsWritten := hsWritten s @ tmBody m\<rparr>))"

definition hs_error :: "map_order \<Rightarrow> TMessage \<Rightarrow> httpTransportSocket \<Rightarrow> goerr option \<times> httpTransportSocket" where
  "hs_error ord m s =
     (if hqProtoMajor (hsR s) = 1 then
        hs_write \<lparr>hpStatusCode = 500, hpStatus = ''500 Internal Server Error'', hpHeader = set_headers ord (tmHeader m) Map.empty,
          hpBody = tmBody m\<rparr> s
      else (None, s))"

definition hs_Close :: "httpTransportSocket \<Rightarrow> goerr option \<times> httpTransportSocket" where
  "hs_Close s =
     (if hsClosed s then (None, s)
      else
        let s = s\<lparr>hsClosed := True\<rparr>
        in if hqProtoMajor (hsR s) = 1 then
             (if hsConnClosed s then Some (GoErr ''use of closed network connection'') else None, s\<lparr>hsConnClosed := True\<rparr>)
           else (None, s))"

datatype hijack = NoHijacker | HijackFails string | Hijacked

definition accept_socket ::
  "string \<Rightarrow> (string + byte list) \<Rightarrow> hijack \<Rightarrow> (goerr + byte list) list \<Rightarrow> http_request \<Rightarrow> (string + httpTransportSocket)" where
  \<comment> \<open>the handler that \<open>Accept\<close> registers: the text of an error it answers with status 500, or the socket it passes on; given
    the outcome of reading the body and of taking over the connection, or what later reads of the body will give\<close>
  "accept_socket addr body hj chunks r =
     (let sock = (\<lambda>r. \<lparr>hsR = r, hsCh = [r], hsIn = [], hsOut = [], hsChunks = chunks, hsHeader = Map.empty, hsWritten = [],
            hsBroken = None, hsClosed = False, hsConnClosed = False, hsLocal = addr, hsRemote = hqRemoteAddr r\<rparr>)
      in if hqProtoMajor r = 1 then
           (case body of
              Inl err \<Rightarrow> Inl err
            | Inr b \<Rightarrow>
                (case hj of
                   NoHijacker \<Rightarrow> Inl ''cannot serve conn''
                 | HijackFails err \<Rightarrow> Inl err
                 | Hijacked \<Rightarrow> Inr (sock (r\<lparr>hqBody := b\<rparr>))))
         else Inr (sock r))"

definition accept_done :: "httpTransportSocket \<Rightarrow> httpTransportSocket" where
  \<comment> \<open>the deferred call when the function given to \<open>Accept\<close> returns\<close>
  "accept_done s = (if hqProtoMajor (hsR s) = 1 then s\<lparr>hsConnClosed := True\<rparr> else s)"

definition listen_config :: "(string list \<Rightarrow> goerr + string) \<Rightarrow> string list \<Rightarrow> tls_config option \<Rightarrow> string \<Rightarrow> goerr + tls_config" where
  \<comment> \<open>without a configuration, one with a certificate for the host; \<open>ips\<close> are the addresses of this machine\<close>
  "listen_config cert ips config addr =
     (case config of
        Some c \<Rightarrow> Inr c
      | None \<Rightarrow>
          let hosts = (case SplitHostPort addr of
                Inl _ \<Rightarrow> [addr]
              | Inr (host, _) \<Rightarrow> if length host = 0 then ips else [host])
          in case cert hosts of
               Inl err \<Rightarrow> Inl err
             | Inr c \<Rightarrow> Inr \<lparr>tcNextProtos = [], tcInsecureSkipVerify = False, tcCertificates = [c]\<rparr>)"

definition ht_Listen ::
  "(string \<Rightarrow> bool) \<Rightarrow> (string list \<Rightarrow> goerr + string) \<Rightarrow> string list \<Rightarrow> (tls_config option \<Rightarrow> string \<Rightarrow> goerr + 'l) \<Rightarrow> string \<Rightarrow>
   'p http_world \<Rightarrow> goerr + 'l" where
  \<comment> \<open>\<open>listen\<close> is \<open>net.Listen\<close> or \<open>tls.Listen\<close>; a certificate made for one port of a range serves for the next\<close>
  "ht_Listen isIP cert ips listen addr w =
     (let o' = hwOpts w
      in if htSecure o' \<or> htTLSConfig o' \<noteq> None then
           Listen isIP addr (\<lambda>a. case listen_config cert ips (htTLSConfig o') a of
                                 Inl err \<Rightarrow> Inl err
                               | Inr c \<Rightarrow> listen (Some c) a)
         else Listen isIP addr (listen None))"

subsection \<open>Connections are tracked\<close>

definition ht_opened :: "'p http_world \<Rightarrow> nat set" where
  "ht_opened w = {h. h < length (hwClients w)}"

definition ht_closed :: "'p http_world \<Rightarrow> nat set" where
  "ht_closed w = {h. h < length (hwClients w) \<and> hcConnClosed (hwClients w ! h)}"

lemma ht_Dial_effect:
  assumes "ht_Dial N dump getURL addr opts w = Some (r, w')"
  shows "r = Inl e \<Longrightarrow> hwClients w' = hwClients w"
    and "r = Inr h \<Longrightarrow> h = length (hwClients w) \<and> (\<exists>c. hwClients w' = hwClients w @ [c] \<and> \<not> hcConnClosed c)"
  using assms by (auto simp: ht_Dial_def Let_def case_prod_beta split: option.splits sum.splits)

lemma client_update_tracked:
  assumes "on_client f h w = Some (y, w')" and "\<And>x c. f (hwClients w ! h) = Some (x, c) \<Longrightarrow> hcConnClosed c = hcConnClosed (hwClients w ! h)"
  shows "ht_opened w' = ht_opened w \<and> ht_closed w' = ht_closed w"
proof -
  from assms(1) obtain c where c: "f (hwClients w ! h) = Some (y, c)" "w' = w\<lparr>hwClients := (hwClients w)[h := c]\<rparr>"
    by (auto simp: on_client_def)
  then show ?thesis using assms(2) [OF c(1)]
    by (cases "h < length (hwClients w)") (auto simp: ht_opened_def ht_closed_def nth_list_update)
qed

lemma hc_Send_conn: "hc_Send N ord m h = Some (x, c) \<Longrightarrow> hcConnClosed c = hcConnClosed h"
  by (auto simp: hc_Send_def Let_def split: prod.splits if_splits)

lemma recv_enter_frame:
  "recv_enter h = Some (x, c) \<Longrightarrow> hcConnClosed c = hcConnClosed h \<and> hcPeer c = hcPeer h \<and> hcBl c = hcBl h \<and> hcClosed c = hcClosed h"
  by (auto simp: recv_enter_def Let_def split: if_splits list.splits)

lemma hc_Recv_conn: "hc_Recv N t m h = Some (x, c) \<Longrightarrow> hcConnClosed c = hcConnClosed h"
  by (auto simp: hc_Recv_def recv_read_def split: option.splits prod.splits if_splits dest!: recv_enter_frame)

interpretation ht: tracked_transport "http_transport N ord dump getURL" ht_opened ht_closed for N ord dump getURL
proof
  fix a os w h w' e
  show "trDial (http_transport N ord dump getURL) a os w = Some (Inr h, w') \<Longrightarrow>
      h \<notin> ht_opened w \<and> ht_opened w' = insert h (ht_opened w) \<and> ht_closed w' = ht_closed w"
    by (auto simp: http_transport_def ht_opened_def ht_closed_def nth_append less_Suc_eq dest!: ht_Dial_effect(2))
  show "trDial (http_transport N ord dump getURL) a os w = Some (Inl e, w') \<Longrightarrow> ht_opened w' = ht_opened w \<and> ht_closed w' = ht_closed w"
    by (auto simp: http_transport_def ht_opened_def ht_closed_def dest!: ht_Dial_effect(1))
  show "h \<in> ht_opened w \<Longrightarrow> ht_opened (snd (trClose (http_transport N ord dump getURL) h w)) = ht_opened w \<and>
      ht_closed (snd (trClose (http_transport N ord dump getURL) h w)) = insert h (ht_closed w)"
    by (auto simp: http_transport_def http_close_def hc_Close_def ht_opened_def ht_closed_def nth_list_update Let_def)
qed

interpretation hrt: rpc_transport "http_transport N ord dump getURL" ht_opened ht_closed for N ord dump getURL
proof
  fix h m w e w' r
  show "trSend (http_transport N ord dump getURL) h m w = Some (e, w') \<Longrightarrow> ht_opened w' = ht_opened w \<and> ht_closed w' = ht_closed w"
    using client_update_tracked [of "hc_Send N ord m"] hc_Send_conn [of N ord m] by (auto simp: http_transport_def)
  show "trRecv (http_transport N ord dump getURL) h w = Some (r, w') \<Longrightarrow> ht_opened w' = ht_opened w \<and> ht_closed w' = ht_closed w"
    using client_update_tracked [of "hc_Recv N (htTimeout (hwOpts w)) (Some \<lparr>tmHeader = Map.empty, tmBody = []\<rparr>)" h w r w']
      hc_Recv_conn [of N "htTimeout (hwOpts w)"] by (auto simp: http_transport_def)
qed

subsection \<open>Header fields on their way\<close>

definition canonical_message :: "map_order \<Rightarrow> TMessage \<Rightarrow> bool" where
  \<comment> \<open>the names are in canonical form, and \<open>ord\<close> enumerates them\<close>
  "canonical_message ord m \<longleftrightarrow> set (ord (tmHeader m)) = dom (tmHeader m) \<and> (\<forall>k \<in> dom (tmHeader m). CanonicalHeaderKey k = k)"

definition ordinary_key :: "string \<Rightarrow> bool" where
  \<comment> \<open>a valid name that \<open>net/http\<close> does not use for itself\<close>
  "ordinary_key k \<longleftrightarrow> k \<noteq> [] \<and> list_all is_token k \<and>
     k \<notin> {''Host'', ''User-Agent'', ''Content-Length'', ''Transfer-Encoding'', ''Trailer''}"

lemma set_headers_fold:
  assumes "\<forall>k \<in> dom m. CanonicalHeaderKey k = k"
  shows "fold (\<lambda>k h. case m k of None \<Rightarrow> h | Some v \<Rightarrow> header_Set k v h) ks h k =
    (if k \<in> set ks \<and> m k \<noteq> None then Some [the (m k)] else h k)"
proof (induction ks arbitrary: h)
  case (Cons a ks)
  have "CanonicalHeaderKey a = a" if "m a = Some v" for v using assms that by blast
  then show ?case by (auto simp: Cons.IH header_Set_def split: option.splits)
qed simp

lemma set_headers_canonical:
  assumes "canonical_message ord m"
  shows "set_headers ord (tmHeader m) h k = (case tmHeader m k of None \<Rightarrow> h k | Some v \<Rightarrow> Some [v])"
  using assms set_headers_fold [of "tmHeader m" "ord (tmHeader m)" h k]
  by (auto simp: set_headers_def canonical_message_def split: option.splits)

lemma wire_request_header:
  assumes "ordinary_key k"
  shows "hqHeader (wire_request r) k = (case hqHeader r k of Some (v # vs) \<Rightarrow> Some (map wire_value (v # vs)) | _ \<Rightarrow> None)"
  using assms by (auto simp: wire_request_def wire_header_def ordinary_key_def Let_def split: option.splits list.splits)

lemma wire_response_header:
  assumes "ordinary_key k"
  shows "hpHeader (wire_response r) k = (case hpHeader r k of Some (v # vs) \<Rightarrow> Some (map wire_value (v # vs)) | _ \<Rightarrow> None)"
  using assms by (auto simp: wire_response_def wire_header_def ordinary_key_def Let_def split: option.splits list.splits)

lemma wire_request_fields [simp]:
  "hqBody (wire_request r) = hqBody r" "hqProtoMajor (wire_request r) = 1"
  by (simp_all add: wire_request_def Let_def)

lemma wire_response_fields [simp]:
  "hpBody (wire_response r) = hpBody r" "hpStatusCode (wire_response r) = hpStatusCode r"
  by (simp_all add: wire_response_def)

lemma dropWhile_idem: "dropWhile P (dropWhile P xs) = dropWhile P xs"
  by (induction xs) simp_all

lemma trim_blanks_idem: "trim_blanks (trim_blanks s) = trim_blanks s"
proof -
  define a where "a = dropWhile blank_char s"
  have hd: "a = [] \<or> \<not> blank_char (hd a)" unfolding a_def using hd_dropWhile [of blank_char s] by auto
  define b where "b = rev (dropWhile blank_char (rev a))"
  have "dropWhile blank_char b = b"
  proof (cases "b = []")
    case False
    obtain p where "rev a = p @ rev b" unfolding b_def
      by (metis dropWhile_eq_drop rev_rev_ident append_take_drop_id)
    then have "a = b @ rev p" by (metis rev_append rev_rev_ident)
    with hd False have "\<not> blank_char (hd b)" by auto
    with False show ?thesis by (cases b) simp_all
  qed simp
  then show ?thesis by (simp add: trim_blanks_def a_def [symmetric] b_def dropWhile_idem)
qed

lemma wire_value_idem [simp]: "wire_value (wire_value v) = wire_value v"
proof -
  let ?sp = "\<lambda>c. if of_char c \<in> {10, 13 :: nat} then CHR '' '' else c"
  have "set (trim_blanks s) \<subseteq> set s" for s
    unfolding trim_blanks_def by (metis set_dropWhileD set_rev subsetI)
  moreover have "\<forall>c \<in> set (map ?sp v). ?sp c = c" by auto
  ultimately have "map ?sp (wire_value v) = wire_value v"
    unfolding wire_value_def by (intro map_idI) blast
  then show ?thesis by (simp only: wire_value_def [of "wire_value v"]) (simp add: wire_value_def trim_blanks_idem)
qed

subsection \<open>A server that answers\<close>

definition no_message :: TMessage where
  "no_message = \<lparr>tmHeader = Map.empty, tmBody = []\<rparr>"

definition mux_clean :: "string \<Rightarrow> string" where
  \<comment> \<open>\<open>cleanPath\<close> of the multiplexer: a slash at the end is kept\<close>
  "mux_clean p =
     (if p = [] then ''/''
      else let p = (if hd p \<noteq> CHR ''/'' then ''/'' @ p else p); np = path_Clean p
           in if last p = CHR ''/'' \<and> np \<noteq> ''/'' then np @ ''/'' else np)"

definition plain_value :: "string \<Rightarrow> bool" where
  \<comment> \<open>no control characters but the tabulator\<close>
  "plain_value v \<longleftrightarrow> list_all (\<lambda>c. of_char c = (9 :: nat) \<or> 32 \<le> (of_char c :: nat) \<and> of_char c \<noteq> (127 :: nat)) v"

definition server_refuses :: "http_request \<Rightarrow> http_response option" where
  "server_refuses r =
     (if \<exists>k vs. hqHeader r k = Some vs \<and> \<not> list_all plain_value vs then
        Some \<lparr>hpStatusCode = 400, hpStatus = ''400 Bad Request'', hpHeader = [''Content-Type'' \<mapsto> [''text/plain; charset=utf-8''], ''Connection'' \<mapsto> [''close'']],
              hpBody = map of_char ''400 Bad Request: invalid header value''\<rparr>
      else if mux_clean (hqPath r) \<noteq> hqPath r then
        Some \<lparr>hpStatusCode = 301, hpStatus = ''301 Moved Permanently'', hpHeader = [''Location'' \<mapsto> [mux_clean (hqPath r)]], hpBody = []\<rparr>
      else None)"

definition serve :: "(TMessage \<Rightarrow> TMessage) \<Rightarrow> map_order \<Rightarrow> httpTransportSocket \<Rightarrow> httpTransportSocket" where
  \<comment> \<open>one round of a server: receive, and send the answer\<close>
  "serve f ord s =
     (case hs_Recv 0 (Some no_message) s of
        Some (Inr m, s) \<Rightarrow> snd (hs_Send ord (f m) s)
      | Some (Inl _, s) \<Rightarrow> s
      | None \<Rightarrow> s)"

definition serve_take ::
  "(TMessage \<Rightarrow> TMessage) \<Rightarrow> map_order \<Rightarrow> string \<Rightarrow> http_request \<Rightarrow> httpTransportSocket option \<Rightarrow>
   goerr option \<times> httpTransportSocket option" where
  \<comment> \<open>the first request of a connection, unless it is refused, makes a socket, the others are read from it\<close>
  "serve_take f ord addr r p =
     (case p of
        None \<Rightarrow> (case accept_socket addr (Inr (hqBody r)) Hijacked [] r of
                   Inr s \<Rightarrow> (None, Some (case server_refuses r of None \<Rightarrow> serve f ord s | Some rsp \<Rightarrow> s\<lparr>hsOut := [rsp]\<rparr>))
                 | Inl _ \<Rightarrow> (None, None))
      | Some s \<Rightarrow> (None, Some (serve f ord (s\<lparr>hsIn := hsIn s @ [Inr r]\<rparr>))))"

definition serve_offer :: "httpTransportSocket option \<Rightarrow> (read_result \<times> httpTransportSocket option) option" where
  "serve_offer p =
     (case p of
        None \<Rightarrow> None
      | Some s \<Rightarrow> (case hsOut s of [] \<Rightarrow> None | r # rs \<Rightarrow> Some (Got r, Some (s\<lparr>hsOut := rs\<rparr>))))"

definition serve_net :: "(TMessage \<Rightarrow> TMessage) \<Rightarrow> map_order \<Rightarrow> httpTransportSocket option net" where
  "serve_net f ord =
     \<lparr>nwDial = (\<lambda>_ _ _. Inr None), nwTake = serve_take f ord ''server'', nwOffer = serve_offer, nwAddrs = (\<lambda>a. (''client'', a))\<rparr>"

fun exchanges :: "'w Transport \<Rightarrow> nat \<Rightarrow> TMessage list \<Rightarrow> 'w \<Rightarrow> ((goerr + TMessage) list \<times> 'w) option" where
  \<comment> \<open>each message is sent and its answer received\<close>
  "exchanges tr h [] w = Some ([], w)"
| "exchanges tr h (m # ms) w =
     (case trSend tr h m w of
        None \<Rightarrow> None
      | Some (Some err, w) \<Rightarrow> Some ([Inl err], w)
      | Some (None, w) \<Rightarrow>
          (case trRecv tr h w of
             None \<Rightarrow> None
           | Some (r, w) \<Rightarrow> map_option (\<lambda>(rs, w). (r # rs, w)) (exchanges tr h ms w)))"

definition idle_client :: "'p httpTransportClient \<Rightarrow> bool" where
  "idle_client h \<longleftrightarrow> \<not> hcLocked h \<and> hcR h = [] \<and> \<not> hcRClosed h \<and> hcBl h = [] \<and> \<not> hcClosed h \<and> \<not> hcStream h"

definition idle_socket :: "http_request \<Rightarrow> httpTransportSocket \<Rightarrow> bool" where
  "idle_socket r s \<longleftrightarrow> hsR s = r \<and> hqProtoMajor r = 1 \<and> hsCh s = [] \<and> hsIn s = [] \<and> hsOut s = [] \<and> hsBroken s = None \<and> \<not> hsConnClosed s"

definition answer :: "(TMessage \<Rightarrow> TMessage) \<Rightarrow> map_order \<Rightarrow> http_request \<Rightarrow> http_request \<Rightarrow> http_response" where
  \<comment> \<open>what is written for a request, when the first was \<open>r0\<close>\<close>
  "answer f ord r0 r =
     (let m = f \<lparr>tmHeader = first_values (hqHeader r), tmBody = hqBody r\<rparr>
      in wire_response \<lparr>hpStatusCode = 200, hpStatus = ''200 OK'', hpHeader = set_headers ord (tmHeader m) (hqHeader r0), hpBody = tmBody m\<rparr>)"

lemma serve_take_answers:
  assumes "hqProtoMajor r = 1" and "case p of None \<Rightarrow> r0 = r \<and> server_refuses r = None | Some s \<Rightarrow> idle_socket r0 s"
  shows "\<exists>s. serve_take f ord addr r p = (None, Some (s\<lparr>hsOut := [answer f ord r0 r]\<rparr>)) \<and> idle_socket r0 s"
proof (cases p)
  case None
  with assms show ?thesis
    by (auto simp: serve_take_def accept_socket_def serve_def hs_Recv_def hs_next_request_def hs_Send_def hs_write_def
        answer_def idle_socket_def no_message_def Let_def
        intro!: exI [of _ "\<lparr>hsR = r, hsCh = [], hsIn = [], hsOut = [], hsChunks = [], hsHeader = Map.empty, hsWritten = [],
          hsBroken = None, hsClosed = False, hsConnClosed = False, hsLocal = addr, hsRemote = hqRemoteAddr r\<rparr>"])
next
  case (Some s)
  with assms show ?thesis
    by (auto simp: serve_take_def serve_def hs_Recv_def hs_next_request_def hs_Send_def hs_write_def
        answer_def idle_socket_def no_message_def Let_def intro!: exI [of _ s])
qed

lemma exchange_one:
  assumes "h < length (hwClients w)" and "idle_client (hwClients w ! h)"
    and "case hcPeer (hwClients w ! h) of None \<Rightarrow> r0 = r \<and> server_refuses r = None | Some s \<Rightarrow> idle_socket r0 s"
    and "r = wire_request (send_request ord (hcAddr (hwClients w ! h)) m)"
  shows "\<exists>w1 w2 c s. trSend (http_transport (serve_net f ord) ord dump getURL) h m w = Some (None, w1) \<and>
    trRecv (http_transport (serve_net f ord) ord dump getURL) h w1 =
      Some (Inr \<lparr>tmHeader = first_values (hpHeader (answer f ord r0 r)), tmBody = hpBody (answer f ord r0 r)\<rparr>, w2) \<and>
    h < length (hwClients w2) \<and> hwClients w2 ! h = c \<and> idle_client c \<and> hcPeer c = Some s \<and> idle_socket r0 s \<and>
    hcAddr c = hcAddr (hwClients w ! h)"
proof -
  let ?c = "hwClients w ! h"
  have p: "hqProtoMajor r = 1" by (simp add: assms(4))
  from serve_take_answers [OF p assms(3), of f ord "''server''"] obtain s where
    s: "serve_take f ord ''server'' r (hcPeer ?c) = (None, Some (s\<lparr>hsOut := [answer f ord r0 r]\<rparr>))" "idle_socket r0 s" by blast
  have o: "hsOut s = []" and st: "hpStatusCode (answer f ord r0 r) = 200"
    using s(2) by (simp_all add: idle_socket_def answer_def Let_def)
  let ?c1 = "?c\<lparr>hcR := [send_request ord (hcAddr ?c) m], hcBl := [], hcPeer := Some (s\<lparr>hsOut := [answer f ord r0 r]\<rparr>)\<rparr>"
  let ?c2 = "?c\<lparr>hcBl := [], hcR := [], hcLocked := False, hcPeer := Some (s\<lparr>hsOut := []\<rparr>)\<rparr>"
  have 1: "trSend (http_transport (serve_net f ord) ord dump getURL) h m w = Some (None, w\<lparr>hwClients := (hwClients w)[h := ?c1]\<rparr>)"
    using assms(2,4) s(1) by (simp add: http_transport_def on_client_def hc_Send_def serve_net_def idle_client_def Let_def)
  have 2: "trRecv (http_transport (serve_net f ord) ord dump getURL) h (w\<lparr>hwClients := (hwClients w)[h := ?c1]\<rparr>) =
      Some (Inr \<lparr>tmHeader = first_values (hpHeader (answer f ord r0 r)), tmBody = hpBody (answer f ord r0 r)\<rparr>,
        w\<lparr>hwClients := (hwClients w)[h := ?c2]\<rparr>)"
    using assms(1,2) st by (simp add: http_transport_def on_client_def hc_Recv_def recv_enter_def recv_read_def recv_message_def
        serve_net_def serve_offer_def idle_client_def Let_def)
  show ?thesis
    by (rule exI [of _ "w\<lparr>hwClients := (hwClients w)[h := ?c1]\<rparr>"], rule exI [of _ "w\<lparr>hwClients := (hwClients w)[h := ?c2]\<rparr>"],
        rule exI [of _ ?c2], rule exI [of _ "s\<lparr>hsOut := []\<rparr>"])
      (use 1 2 assms(1,2) s(2) o in \<open>simp add: idle_client_def idle_socket_def\<close>)
qed

lemma answer_fields:
  assumes "\<And>m. canonical_message ord (f m)" and "canonical_message ord m" and "canonical_message ord m0"
    and "r = wire_request (send_request ord addr m)" and "r0 = wire_request (send_request ord addr m0)"
    and "seen = \<lparr>tmHeader = first_values (hqHeader r), tmBody = hqBody r\<rparr>"
  shows "tmBody seen = tmBody m" and "hpBody (answer f ord r0 r) = tmBody (f seen)"
    and "ordinary_key k \<Longrightarrow> tmHeader seen k = map_option wire_value (tmHeader m k)"
    and "ordinary_key k \<Longrightarrow> first_values (hpHeader (answer f ord r0 r)) k =
      map_option wire_value (case tmHeader (f seen) k of None \<Rightarrow> tmHeader m0 k | Some v \<Rightarrow> Some v)"
proof -
  have q: "hqHeader (send_request ord addr m) k = (case tmHeader m k of None \<Rightarrow> None | Some v \<Rightarrow> Some [v])" if "canonical_message ord m" for m
    using set_headers_canonical [OF that, of Map.empty k] by (simp add: send_request_def Let_def)
  show "tmBody seen = tmBody m" and "hpBody (answer f ord r0 r) = tmBody (f seen)"
    by (simp_all add: assms(4,6) send_request_def answer_def Let_def)
  assume k: "ordinary_key k"
  show "tmHeader seen k = map_option wire_value (tmHeader m k)"
    using q [OF assms(2)] by (simp add: assms(4,6) first_values_def wire_request_header [OF k] split: option.splits)
  have r0: "hqHeader r0 k = (case tmHeader m0 k of None \<Rightarrow> None | Some v \<Rightarrow> Some [wire_value v])"
    using q [OF assms(3)] by (simp add: assms(5) wire_request_header [OF k] split: option.splits)
  show "first_values (hpHeader (answer f ord r0 r)) k =
      map_option wire_value (case tmHeader (f seen) k of None \<Rightarrow> tmHeader m0 k | Some v \<Rightarrow> Some v)"
    unfolding answer_def Let_def assms(6) [symmetric] first_values_def wire_response_header [OF k]
    using r0 by (auto simp: set_headers_canonical [OF assms(1)] split: option.splits)
qed

lemma exchanges_answered:
  assumes "h < length (hwClients w)" and "idle_client (hwClients w ! h)" and "ms \<noteq> []"
    and "case hcPeer (hwClients w ! h) of None \<Rightarrow> r0 = wire_request (send_request ord (hcAddr (hwClients w ! h)) (ms ! 0)) \<and> server_refuses r0 = None
      | Some s \<Rightarrow> idle_socket r0 s"
  shows "\<exists>w'. exchanges (http_transport (serve_net f ord) ord dump getURL) h ms w =
    Some (map (\<lambda>m. let a = answer f ord r0 (wire_request (send_request ord (hcAddr (hwClients w ! h)) m))
               in Inr \<lparr>tmHeader = first_values (hpHeader a), tmBody = hpBody a\<rparr>) ms, w')"
  using assms
proof (induction ms arbitrary: w)
  case (Cons m ms)
  let ?c = "hwClients w ! h"
  have "case hcPeer ?c of None \<Rightarrow> r0 = wire_request (send_request ord (hcAddr ?c) m) \<and> server_refuses (wire_request (send_request ord (hcAddr ?c) m)) = None
      | Some s \<Rightarrow> idle_socket r0 s"
    using Cons.prems(4) by (auto split: option.splits)
  from exchange_one [OF Cons.prems(1,2) this refl, of f dump getURL] obtain w1 w2 c s where
    s: "trSend (http_transport (serve_net f ord) ord dump getURL) h m w = Some (None, w1)"
    and rv: "trRecv (http_transport (serve_net f ord) ord dump getURL) h w1 =
      Some (Inr \<lparr>tmHeader = first_values (hpHeader (answer f ord r0 (wire_request (send_request ord (hcAddr ?c) m)))),
        tmBody = hpBody (answer f ord r0 (wire_request (send_request ord (hcAddr ?c) m)))\<rparr>, w2)"
    and w2: "h < length (hwClients w2)" "idle_client (hwClients w2 ! h)" "hcPeer (hwClients w2 ! h) = Some s" "idle_socket r0 s"
      "hcAddr (hwClients w2 ! h) = hcAddr ?c" by metis
  show ?case
  proof (cases "ms = []")
    case True
    then show ?thesis by (simp add: s rv Let_def)
  next
    case False
    have "case hcPeer (hwClients w2 ! h) of None \<Rightarrow> r0 = wire_request (send_request ord (hcAddr (hwClients w2 ! h)) (ms ! 0)) \<and> server_refuses r0 = None
        | Some s \<Rightarrow> idle_socket r0 s" by (simp add: w2)
    from Cons.IH [OF w2(1,2) False this] show ?thesis by (auto simp: s rv w2(5) Let_def)
  qed
qed simp

definition plain_message :: "TMessage \<Rightarrow> bool" where
  \<comment> \<open>no field that \<open>net/http\<close> treats in a special way, and no control characters but blanks and line ends\<close>
  "plain_message m \<longleftrightarrow> (\<forall>k v. tmHeader m k = Some v \<longrightarrow> k \<notin> {''Connection'', ''Pragma'', ''Upgrade'', ''Expect''} \<and>
     list_all (\<lambda>c. of_char c \<in> {9, 10, 13 :: nat} \<or> 32 \<le> (of_char c :: nat) \<and> of_char c \<noteq> (127 :: nat)) v)"

definition endpoint_path :: "TMessage \<Rightarrow> string" where
  "endpoint_path m = (case tmHeader m ''Micro-Endpoint'' of None \<Rightarrow> ''/'' | Some e \<Rightarrow> if e \<noteq> [] \<and> hd e = CHR ''/'' then e else ''/'' @ e)"

lemma plain_wire_value:
  assumes "list_all (\<lambda>c. of_char c \<in> {9, 10, 13 :: nat} \<or> 32 \<le> (of_char c :: nat) \<and> of_char c \<noteq> (127 :: nat)) v"
  shows "plain_value (wire_value v)"
proof -
  let ?sp = "\<lambda>c. if of_char c \<in> {10, 13 :: nat} then CHR '' '' else c"
  have sub: "set (trim_blanks s) \<subseteq> set s" for s
    unfolding trim_blanks_def by (metis set_dropWhileD set_rev subsetI)
  have w: "set (wire_value v) \<subseteq> set (map ?sp v)" unfolding wire_value_def by (rule sub)
  show ?thesis
    unfolding plain_value_def list_all_iff
  proof
    fix c
    assume "c \<in> set (wire_value v)"
    then obtain d where d: "d \<in> set v" "c = ?sp d" using w by auto
    show "of_char c = (9 :: nat) \<or> 32 \<le> (of_char c :: nat) \<and> of_char c \<noteq> (127 :: nat)"
    proof (cases "of_char d \<in> {10, 13 :: nat}")
      case True
      then have "c = CHR '' ''" using d(2) by metis
      then show ?thesis by simp
    next
      case False
      then have "c = d" using d(2) by metis
      moreover have "of_char d \<in> {9, 10, 13 :: nat} \<or> 32 \<le> (of_char d :: nat) \<and> of_char d \<noteq> (127 :: nat)" using assms d(1) unfolding list_all_iff by (rule bspec)
      ultimately show ?thesis using False by blast
    qed
  qed
qed

lemma plain_itoa: "0 \<le> i \<Longrightarrow> plain_value (itoa i)"
  using digits_digit [of _ "nat i"] by (fastforce simp: plain_value_def list_all_iff itoa_def is_digit_def)

lemma plain_not_refused:
  assumes "canonical_message ord m" and "plain_message m" and "mux_clean (endpoint_path m) = endpoint_path m"
  shows "server_refuses (wire_request (send_request ord addr m)) = None"
proof -
  let ?r = "wire_request (send_request ord addr m)"
  have h: "hqHeader (send_request ord addr m) k = (case tmHeader m k of None \<Rightarrow> None | Some v \<Rightarrow> Some [v])" for k
    using set_headers_canonical [OF assms(1), of Map.empty k] by (simp add: send_request_def Let_def)
  have pv: "plain_value (wire_value v)" if "tmHeader m k = Some v" for k v using assms(2) that unfolding plain_message_def by (intro plain_wire_value) blast
  have "plain_value ''Go-http-client/1.1''" by (simp add: plain_value_def)
  then have "list_all plain_value vs" if "hqHeader ?r k = Some vs" for k vs
    using that pv plain_itoa by (auto simp: wire_request_def wire_header_def h Let_def split: if_splits option.splits)
  moreover have "hqPath ?r = endpoint_path m"
    by (auto simp: wire_request_def send_request_def endpoint_path_def hd_conv_nth Let_def split: option.split)
  ultimately show ?thesis using assms(3) by (auto simp: server_refuses_def)
qed

text \<open>A first request with a path that is not clean is redirected, and the client takes the redirection for an error.\<close>

lemma unclean_endpoint_refused: "server_refuses ((wire_request (send_request ord addr m))\<lparr>hqHeader := Map.empty, hqPath := ''/a//b''\<rparr>) =
    Some \<lparr>hpStatusCode = 301, hpStatus = ''301 Moved Permanently'', hpHeader = [''Location'' \<mapsto> [''/a/b'']], hpBody = []\<rparr>"
proof -
  have "mux_clean ''/a//b'' = ''/a/b''" by code_simp
  then show ?thesis by (simp add: server_refuses_def)
qed

text \<open>C22. Over a connection just dialled to a server that answers each message by a function \<open>f\<close>, any number of exchanges
  succeeds, each with the answer to its own message, provided the messages in both directions have header fields with names in canonical form, none of those that \<open>net/http\<close> treats in a special way (\<open>Connection\<close>, \<open>Pragma\<close>, \<open>Upgrade\<close>, \<open>Expect\<close>),
  and no control characters in their values, and the path made from the field \<open>Micro-Endpoint\<close> of the first message is clean, so that the server does not redirect it. The server sees the body as it was sent and the client gets the body the
  server gave. Header fields arrive with their values (line ends and blanks at the
  ends apart), in both directions. Where the server sets no value of its own, the answer carries the value of the first request
  of the connection, not that of the request it answers.\<close>

theorem http_exchanges:
  assumes "\<And>m. canonical_message ord (f m) \<and> plain_message (f m)" and "\<forall>m \<in> set ms. canonical_message ord m \<and> plain_message m" and "ms \<noteq> []"
    and "mux_clean (endpoint_path (ms ! 0)) = endpoint_path (ms ! 0)"
    and "ht_Dial (serve_net f ord) dump (\<lambda>_. Inr None) addr [] w = Some (Inr h, w1)"
  shows "\<exists>seen rs w2. exchanges (http_transport (serve_net f ord) ord dump getURL) h ms w1 = Some (map Inr rs, w2) \<and>
    length rs = length ms \<and>
    (\<forall>i < length ms. tmBody (seen i) = tmBody (ms ! i) \<and> tmBody (rs ! i) = tmBody (f (seen i)) \<and>
      (\<forall>k. ordinary_key k \<longrightarrow> tmHeader (seen i) k = map_option wire_value (tmHeader (ms ! i) k) \<and>
        tmHeader (rs ! i) k = map_option wire_value (case tmHeader (f (seen i)) k of None \<Rightarrow> tmHeader (ms ! 0) k | Some v \<Rightarrow> Some v)))"
proof -
  let ?req = "\<lambda>m. wire_request (send_request ord addr m)"
  let ?r0 = "?req (ms ! 0)"
  let ?msg = "\<lambda>r. \<lparr>tmHeader = first_values (hqHeader r), tmBody = hqBody r\<rparr>"
  let ?rs = "map (\<lambda>m. let a = answer f ord ?r0 (?req m) in \<lparr>tmHeader = first_values (hpHeader a), tmBody = hpBody a\<rparr>) ms"
  from assms(5) have c: "h < length (hwClients w1)" "idle_client (hwClients w1 ! h)" "hcPeer (hwClients w1 ! h) = None"
    "hcAddr (hwClients w1 ! h) = addr"
    by (auto simp: ht_Dial_def newConn_def serve_net_def idle_client_def Let_def split: prod.splits)
  have "server_refuses ?r0 = None" using assms(2,3,4) by (intro plain_not_refused) simp_all
  then have "case hcPeer (hwClients w1 ! h) of None \<Rightarrow> ?r0 = wire_request (send_request ord (hcAddr (hwClients w1 ! h)) (ms ! 0)) \<and> server_refuses ?r0 = None
    | Some s \<Rightarrow> idle_socket ?r0 s" by (simp add: c)
  from exchanges_answered [OF c(1,2) assms(3) this, of f dump getURL] obtain w2 where
    e: "exchanges (http_transport (serve_net f ord) ord dump getURL) h ms w1 = Some (map Inr ?rs, w2)" by (auto simp: c Let_def comp_def)
  have m0: "canonical_message ord (ms ! 0)" using assms(2,3) by simp
  have "tmBody (?msg (?req (ms ! i))) = tmBody (ms ! i) \<and> tmBody (?rs ! i) = tmBody (f (?msg (?req (ms ! i)))) \<and>
      (\<forall>k. ordinary_key k \<longrightarrow> tmHeader (?msg (?req (ms ! i))) k = map_option wire_value (tmHeader (ms ! i) k) \<and>
        tmHeader (?rs ! i) k = map_option wire_value
          (case tmHeader (f (?msg (?req (ms ! i)))) k of None \<Rightarrow> tmHeader (ms ! 0) k | Some v \<Rightarrow> Some v))" if "i < length ms" for i
  proof -
    have "canonical_message ord (ms ! i)" using assms(2) that by simp
    note a = answer_fields [where f = f and addr = addr, OF conjunct1 [OF assms(1)] this m0 refl refl refl]
    have rs: "?rs ! i = \<lparr>tmHeader = first_values (hpHeader (answer f ord ?r0 (?req (ms ! i)))), tmBody = hpBody (answer f ord ?r0 (?req (ms ! i)))\<rparr>"
      using that by (simp add: Let_def)
    show ?thesis unfolding rs using a by simp
  qed
  then show ?thesis
    by (intro exI [of _ "\<lambda>i. ?msg (?req (ms ! i))"] exI [of _ ?rs] exI [of _ w2] conjI [OF e]) simp
qed

definition ex_ord :: map_order where
  "ex_ord m = filter (\<lambda>k. m k \<noteq> None) [''Micro-Id'', ''X-Reply'']"

definition ex_reply :: "TMessage \<Rightarrow> TMessage" where
  "ex_reply m = \<lparr>tmHeader = [''X-Reply'' \<mapsto> ''yes''], tmBody = rev (tmBody m)\<rparr>"

definition ex_messages :: "TMessage list" where
  "ex_messages = [\<lparr>tmHeader = [''Micro-Id'' \<mapsto> ''1''], tmBody = [1, 2]\<rparr>, \<lparr>tmHeader = [''Micro-Id'' \<mapsto> ''2''], tmBody = [3, 4]\<rparr>]"

lemma ex_keys:
  "CanonicalHeaderKey ''Micro-Id'' = ''Micro-Id''" "CanonicalHeaderKey ''X-Reply'' = ''X-Reply''" "ordinary_key ''Micro-Id''"
  "wire_value ''1'' = ''1''"
  by (simp_all add: CanonicalHeaderKey_def ordinary_key_def is_token_def is_lower_def to_title_def to_lower_def wire_value_def
      trim_blanks_def blank_char_def Let_def)

theorem http_exchanges_witness:
  "\<exists>rs w h w2. ht_Dial (serve_net ex_reply ex_ord) (\<lambda>_. []) (\<lambda>_. Inr None) ''a:1'' [] (NewHTTPTransport []) = Some (Inr h, w) \<and>
    exchanges (http_transport (serve_net ex_reply ex_ord) ex_ord (\<lambda>_. []) (\<lambda>_. Inr None)) h ex_messages w = Some (map Inr rs, w2) \<and>
    map tmBody rs = [[2, 1], [4, 3]] \<and> tmHeader (rs ! 1) ''Micro-Id'' = Some ''1''"
proof -
  have f: "canonical_message ex_ord (ex_reply m) \<and> plain_message (ex_reply m)" for m
    using ex_keys by (auto simp: canonical_message_def plain_message_def ex_ord_def ex_reply_def)
  have ms: "\<forall>m \<in> set ex_messages. canonical_message ex_ord m \<and> plain_message m" "ex_messages \<noteq> []"
    using ex_keys by (auto simp: canonical_message_def plain_message_def ex_ord_def ex_messages_def)
  have "mux_clean ''/'' = ''/''" by code_simp
  then have cl: "mux_clean (endpoint_path (ex_messages ! 0)) = endpoint_path (ex_messages ! 0)" by (simp add: endpoint_path_def ex_messages_def)
  obtain h w where d: "ht_Dial (serve_net ex_reply ex_ord) (\<lambda>_. []) (\<lambda>_. Inr None) ''a:1'' [] (NewHTTPTransport []) = Some (Inr h, w)"
    by (simp add: ht_Dial_def newConn_def serve_net_def dial_tls_def NewHTTPTransport_def Let_def)
  have l: "length ex_messages = 2" "ex_messages ! 0 = \<lparr>tmHeader = [''Micro-Id'' \<mapsto> ''1''], tmBody = [1, 2]\<rparr>" "tmBody (ex_messages ! 1) = [3, 4]"
    by (simp_all add: ex_messages_def)
  have f': "tmBody (ex_reply m) = rev (tmBody m)" "tmHeader (ex_reply m) ''Micro-Id'' = None" for m by (simp_all add: ex_reply_def)
  obtain seen rs w2 where e: "exchanges (http_transport (serve_net ex_reply ex_ord) ex_ord (\<lambda>_. []) (\<lambda>_. Inr None)) h ex_messages w = Some (map Inr rs, w2)"
    and n: "length rs = length ex_messages"
    and all: "\<forall>i < length ex_messages. tmBody (seen i) = tmBody (ex_messages ! i) \<and> tmBody (rs ! i) = tmBody (ex_reply (seen i)) \<and>
      (\<forall>k. ordinary_key k \<longrightarrow> tmHeader (seen i) k = map_option wire_value (tmHeader (ex_messages ! i) k) \<and>
        tmHeader (rs ! i) k = map_option wire_value (case tmHeader (ex_reply (seen i)) k of None \<Rightarrow> tmHeader (ex_messages ! 0) k | Some v \<Rightarrow> Some v))"
    using http_exchanges [OF f ms cl d] by metis
  from all [rule_format, of 0] all [rule_format, of 1] have b: "tmBody (rs ! 0) = [2, 1]" "tmBody (rs ! 1) = [4, 3]" "tmHeader (rs ! 1) ''Micro-Id'' = Some ''1''"
    using ex_keys l f' by simp_all
  from n l(1) obtain a c where "rs = [a, c]" by (metis (no_types) length_0_conv length_Suc_conv numeral_2_eq_2)
  with b(1,2) have "map tmBody rs = [[2, 1], [4, 3]]" by simp
  with b(3) d e show ?thesis by (intro exI [of _ rs] exI [of _ w] exI [of _ h] exI [of _ w2] conjI)
qed

subsection \<open>Pipelining\<close>

fun sends :: "'p net \<Rightarrow> map_order \<Rightarrow> TMessage list \<Rightarrow> 'p httpTransportClient \<Rightarrow> 'p httpTransportClient option" where
  \<comment> \<open>messages sent one after the other, none failing\<close>
  "sends N ord [] h = Some h"
| "sends N ord (m # ms) h =
     (case hc_Send N ord m h of Some (None, h) \<Rightarrow> sends N ord ms h | _ \<Rightarrow> None)"

lemma hc_Send_queues:
  assumes "hc_Send N ord m h = Some (e, h')"
  shows "hcR h' @ hcBl h' = hcR h @ hcBl h @ [send_request ord (hcAddr h) m]"
    and "length (hcR h) \<le> 1 \<Longrightarrow> length (hcR h') = 1"
    and "hcAddr h' = hcAddr h" "hcStream h' = hcStream h" "hcLocked h' = hcLocked h" "hcClosed h' = hcClosed h" "hcRClosed h' = hcRClosed h"
  using assms by (cases "hcR h"; cases "hcBl h"; auto simp: hc_Send_def Let_def split: prod.splits if_splits)+

lemma sends_queues:
  assumes "sends N ord ms h = Some h'" and "length (hcR h) \<le> 1"
  shows "hcR h' @ hcBl h' = hcR h @ hcBl h @ map (send_request ord (hcAddr h)) ms \<and> length (hcR h') \<le> 1 \<and> (ms \<noteq> [] \<longrightarrow> hcR h' \<noteq> []) \<and>
    hcAddr h' = hcAddr h \<and> hcStream h' = hcStream h \<and> hcLocked h' = hcLocked h \<and> hcClosed h' = hcClosed h \<and> hcRClosed h' = hcRClosed h"
  using assms
proof (induction ms arbitrary: h)
  case (Cons m ms)
  then obtain h1 where h1: "hc_Send N ord m h = Some (None, h1)" "sends N ord ms h1 = Some h'"
    by (auto split: option.splits prod.splits)
  note q = hc_Send_queues [OF h1(1)]
  from q(2) Cons.prems(2) have l: "length (hcR h1) = 1" by blast
  from Cons.IH [OF h1(2)] l have IH: "hcR h' @ hcBl h' = hcR h1 @ hcBl h1 @ map (send_request ord (hcAddr h1)) ms" "length (hcR h') \<le> 1"
    "ms \<noteq> [] \<longrightarrow> hcR h' \<noteq> []" "hcAddr h' = hcAddr h1" "hcStream h' = hcStream h1" "hcLocked h' = hcLocked h1" "hcClosed h' = hcClosed h1" "hcRClosed h' = hcRClosed h1"
    by simp_all
  moreover have "hcR h' \<noteq> []" using IH(3) h1(2) l by (cases "ms = []") auto
  ultimately show ?case using q by (simp flip: append_assoc)
qed simp

text \<open>Requests may be sent one after the other without waiting, but then the answers cannot all be received: after any number
  of requests sent on an idle connection the first \<open>Recv\<close> gets an answer, and the second waits for ever, whether an answer is there or
  not and whatever the timeout, while the requests after the first stay in the backlog; the next \<open>Send\<close> lets one more
  \<open>Recv\<close> through.\<close>

lemma http_pipelining:
  assumes "idle_client h" and "sends N ord (m # ms) h = Some h1" and "hc_Recv N t (Some x) h1 = Some (r, h2)"
  shows "hcBl h2 = map (send_request ord (hcAddr h)) ms \<and> hc_Recv N t' (Some x') h2 = None \<and>
    (\<exists>e h3. hc_Send N ord m' h2 = Some (e, h3) \<and> recv_enter h3 \<noteq> None)"
proof -
  from sends_queues [OF assms(2)] assms(1) have q: "hcR h1 @ hcBl h1 = map (send_request ord (hcAddr h)) (m # ms)" "length (hcR h1) \<le> 1"
    "hcR h1 \<noteq> []" "\<not> hcLocked h1" "\<not> hcStream h1" "\<not> hcClosed h1" "\<not> hcRClosed h1" by (auto simp: idle_client_def)
  from q(2,3) obtain a where a: "hcR h1 = [a]" by (cases "hcR h1") auto
  with q(1) have bl: "hcBl h1 = map (send_request ord (hcAddr h)) ms" by simp
  from assms(3) a q have h2: "hcR h2 = []" "hcBl h2 = hcBl h1" "\<not> hcLocked h2" "\<not> hcStream h2" "\<not> hcClosed h2" "\<not> hcRClosed h2"
    by (auto simp: hc_Recv_def recv_enter_def recv_read_def Let_def split: option.splits if_splits)
  then have "hc_Recv N t' (Some x') h2 = None" by (simp add: hc_Recv_def recv_enter_def)
  moreover have "\<exists>e h3. hc_Send N ord m' h2 = Some (e, h3) \<and> recv_enter h3 \<noteq> None"
  proof -
    let ?r = "send_request ord (hcAddr h2) m'"
    obtain e p where "nwTake N (wire_request ?r) (hcPeer h2) = (e, p)" by fastforce
    then have "hc_Send N ord m' h2 = Some (e, h2\<lparr>hcBl := tl (hcBl h2 @ [?r]), hcR := [hd (hcBl h2 @ [?r])], hcPeer := p\<rparr>)"
      using h2 by (simp add: hc_Send_def Let_def)
    then show ?thesis using h2 by (intro exI conjI) (assumption, simp add: recv_enter_def)
  qed
  ultimately show ?thesis using bl h2(2) by simp
qed

definition ex_client :: "unit httpTransportClient" where
  "ex_client = \<lparr>hcAddr = ''a:1'', hcStream = False, hcLocked = False, hcR = [], hcRClosed = False, hcBl = [], hcClosed = False,
     hcConnClosed = False, hcPeer = (), hcLocal = ''c'', hcRemote = ''a:1''\<rparr>"

definition ex_net :: "unit net" where
  \<comment> \<open>a server that always has an answer\<close>
  "ex_net = \<lparr>nwDial = (\<lambda>_ _ _. Inr ()), nwTake = (\<lambda>_ p. (None, p)),
     nwOffer = (\<lambda>p. Some (Got \<lparr>hpStatusCode = 200, hpStatus = ''200 OK'', hpHeader = Map.empty, hpBody = [7]\<rparr>, p)), nwAddrs = (\<lambda>a. (a, a))\<rparr>"

subsection \<open>The mutex of the client\<close>

inductive hc_step :: "'p net \<Rightarrow> map_order \<Rightarrow> int \<Rightarrow> 'p httpTransportClient \<Rightarrow> 'p httpTransportClient \<Rightarrow> bool" for N ord t where
  \<comment> \<open>a whole operation, by one goroutine after the other\<close>
  step_send: "hc_Send N ord m h = Some (e, h') \<Longrightarrow> hc_step N ord t h h'"
| step_recv: "hc_Recv N t m h = Some (r, h') \<Longrightarrow> hc_step N ord t h h'"
| step_close: "hc_Close h = (e, h') \<Longrightarrow> \<not> close_blocks h \<Longrightarrow> hc_step N ord t h h'"

lemma hc_step_lock:
  assumes "hc_step N ord t h h'" and "hcLocked h \<longrightarrow> hcClosed h"
  shows "hcLocked h' \<longrightarrow> hcClosed h'"
  using assms
proof (cases rule: hc_step.cases)
  case (step_send m e)
  with assms(2) show ?thesis using hc_Send_queues [OF step_send] by simp
next
  case (step_recv m r)
  then show ?thesis using assms(2)
    by (auto simp: hc_Recv_def recv_enter_def recv_read_def Let_def split: option.splits if_splits list.splits prod.splits)
next
  case (step_close e)
  then show ?thesis by (auto simp: hc_Close_def Let_def)
qed

text \<open>The mutex of a client, after any sequence of completed operations: it is free unless \<open>Recv\<close> has found the client closed,
  so that \<open>Close\<close> never waits; once \<open>Recv\<close> has found the client of a stream closed, the mutex is never released, and all later calls of
  \<open>Send\<close> and \<open>Recv\<close> wait for ever. While a \<open>Recv\<close> waits for a response, the mutex is held: \<open>Close\<close> and \<open>Send\<close> wait with it, and
  if no response comes and no timeout is set on the transport, they wait for ever.\<close>

lemma http_client_mutex:
  assumes "idle_client h0 \<or> (\<exists>h. idle_client h \<and> h0 = h\<lparr>hcStream := True\<rparr>)" and "(hc_step N ord t)\<^sup>*\<^sup>* h0 h"
  shows "(hcLocked h \<longrightarrow> hcClosed h) \<and> \<not> close_blocks h \<and>
    (hcStream h \<and> hcClosed h \<longrightarrow> (\<forall>r h'. hc_Recv N t (Some x) h = Some (r, h') \<longrightarrow>
      r = Inl IoEOF \<and> hc_Send N ord m h' = None \<and> hc_Recv N t' (Some x') h' = None)) \<and>
    (\<forall>h'. recv_enter h = Some (None, h') \<longrightarrow>
      close_blocks h' \<and> hc_Send N ord m h' = None \<and> (nwOffer N (hcPeer h') = None \<longrightarrow> recv_read N 0 h' = None))"
proof -
  have l: "hcLocked h \<longrightarrow> hcClosed h"
    using assms(2)
  proof (induction rule: rtranclp_induct)
    case base
    then show ?case using assms(1) by (auto simp: idle_client_def)
  next
    case (step y z)
    then show ?case using hc_step_lock by blast
  qed
  moreover have "r = Inl IoEOF \<and> hc_Send N ord m h' = None \<and> hc_Recv N t' (Some x') h' = None"
    if "hcStream h" "hcClosed h" "hc_Recv N t (Some x) h = Some (r, h')" for r h'
    using that by (auto simp: hc_Recv_def recv_enter_def hc_Send_def Let_def split: if_splits)
  moreover have "close_blocks h' \<and> hc_Send N ord m h' = None \<and> (nwOffer N (hcPeer h') = None \<longrightarrow> recv_read N 0 h' = None)"
    if "recv_enter h = Some (None, h')" for h'
    using that by (auto simp: close_blocks_def recv_enter_def hc_Send_def recv_read_def Let_def split: if_splits list.splits)
  ultimately show ?thesis by (auto simp: close_blocks_def)
qed

subsection \<open>Dialling\<close>

text \<open>Dialling, through a proxy or not, makes at most one network connection; when it reports an error, that connection has been
  closed, and when it succeeds, it is open. With a proxy that does not answer, dialling does not return, whatever the dial timeout.\<close>

lemma http_dial_connections:
  "(ht_Dial N dump getURL addr opts w = Some (r, w') \<longrightarrow>
     (\<exists>ev a. hwLog w' = hwLog w @ ev \<and> (if isl r then ev = [] \<or> ev = [ConnOpened a, ConnClosed a] else ev = [ConnOpened a]))) \<and>
   (\<forall>u p q. getURL addr = Inr (Some u) \<and> (\<forall>c a t. nwDial N c a t = Inr p) \<and>
      nwTake N (wire_request (connect_request addr u)) p = (None, q) \<and> nwOffer N q = None \<longrightarrow> ht_Dial N dump getURL addr opts w = None)"
proof (intro conjI impI allI)
  assume "ht_Dial N dump getURL addr opts w = Some (r, w')"
  then show "\<exists>ev a. hwLog w' = hwLog w @ ev \<and> (if isl r then ev = [] \<or> ev = [ConnOpened a, ConnClosed a] else ev = [ConnOpened a])"
    by (auto simp: ht_Dial_def newConn_def proxyDial_def Let_def
        split: prod.splits option.splits sum.splits read_result.splits if_splits)
next
  fix u p q
  assume "getURL addr = Inr (Some u) \<and> (\<forall>c a t. nwDial N c a t = Inr p) \<and>
      nwTake N (wire_request (connect_request addr u)) p = (None, q) \<and> nwOffer N q = None"
  then show "ht_Dial N dump getURL addr opts w = None"
    by (simp add: ht_Dial_def newConn_def proxyDial_def Let_def split: prod.splits)
qed

end
