(* ===== verification/Monitor.thy ===== *)
theory Monitor
  imports Selector ConnPool
begin

text \<open>
  \<^verbatim>\<open>monitor/\<close>: heartbeats of registered services and the load status of their nodes.

  Representation. A \<open>*registry.Service\<close> is an address in a store, since the monitor changes the nodes of the service that its caller holds.
  The map of heartbeats is the list of its entries in the order of the next iteration. Times are seconds (\<open>Unix\<close>), durations are
  nanoseconds. The default registry, to which heartbeats are sent, is a parameter \<open>reg\<close>. A panic (an assignment to a \<open>nil\<close> map, a service without
  nodes) is \<open>None\<close>; one in the goroutine of the monitor is recovered there and ends it. \<open>float32\<close> is modelled by rounding to 24
  significant bits, to even in the middle.
\<close>

subsection \<open>Limits of load\<close>

definition UpThresh :: string where "UpThresh = ''upThresh''"

definition HeartBeatCheck :: int where "HeartBeatCheck = 15 * 10 ^ 9"

record limits =
  lmMaxCalls :: int
  lmUpLimits :: int
  lmDownLimits :: int

definition default_limits :: limits where
  "default_limits = \<lparr>lmMaxCalls = 400000, lmUpLimits = 360000, lmDownLimits = 280000\<rparr>"

fun bit_length :: "nat \<Rightarrow> nat" where
  "bit_length n = (if n = 0 then 0 else 1 + bit_length (n div 2))"

declare bit_length.simps [simp del]

definition round24 :: "nat \<Rightarrow> nat" where
  \<comment> \<open>the nearest number with 24 significant bits\<close>
  "round24 p =
     (let k = bit_length p - 24; q = p div 2 ^ k; r = p mod 2 ^ k
      in (if 2 * r > 2 ^ k \<or> 2 * r = 2 ^ k \<and> odd q then q + 1 else q) * 2 ^ k)"

definition f32_scale :: "int \<Rightarrow> nat \<Rightarrow> int" where
  \<comment> \<open>\<open>int(float32(n) * c)\<close> for the constant \<open>c = m / 2 ^ 24\<close>\<close>
  "f32_scale n m = sgn n * int (round24 (round24 (nat \<bar>n\<bar>) * m) div 2 ^ 24)"

definition SetMaxCalls :: "int \<Rightarrow> limits" where
  \<comment> \<open>\<open>0.9\<close> and \<open>0.7\<close> as \<open>float32\<close>\<close>
  "SetMaxCalls iMax =
     (let up = f32_scale iMax 15099494; down = f32_scale iMax 11744051
      in \<lparr>lmMaxCalls = iMax, lmUpLimits = up, lmDownLimits = (if down = up then up - 1 else down)\<rparr>)"

subsection \<open>The status of a node\<close>

definition load_status :: "limits \<Rightarrow> int \<Rightarrow> string \<Rightarrow> string" where
  "load_status lm weights status =
     (if weights < lmDownLimits lm then NormalState
      else if weights > lmUpLimits lm then UpThresh
      else status)"

definition read_status :: "(string \<rightharpoonup> string) option \<Rightarrow> string" where
  \<comment> \<open>\<open>node.Metadata[ServiceStatus]\<close>\<close>
  "read_status m = (case m of None \<Rightarrow> [] | Some m \<Rightarrow> case m ServiceStatus of None \<Rightarrow> [] | Some s \<Rightarrow> s)"

definition update_node :: "limits \<Rightarrow> int \<Rightarrow> Node \<Rightarrow> Node option" where
  "update_node lm weights node =
     (let status = load_status lm weights (read_status (ndMetadata node))
      in if read_status (ndMetadata node) = status then Some node
         else case ndMetadata node of
           None \<Rightarrow> None
         | Some m \<Rightarrow> Some (node\<lparr>ndMetadata := Some (m(ServiceStatus \<mapsto> status))\<rparr>))"

fun update_nodes :: "limits \<Rightarrow> int \<Rightarrow> Node list \<Rightarrow> Node list option" where
  "update_nodes lm weights [] = Some []"
| "update_nodes lm weights (n # ns) = do { n' \<leftarrow> update_node lm weights n; ns' \<leftarrow> update_nodes lm weights ns; Some (n' # ns') }"

definition UpdateServiceWithoutSync :: "limits \<Rightarrow> int \<Rightarrow> Service \<Rightarrow> Service option" where
  "UpdateServiceWithoutSync lm weights s = map_option (\<lambda>ns. s\<lparr>svNodes := ns\<rparr>) (update_nodes lm weights (svNodes s))"

subsection \<open>Heartbeats\<close>

record Heartbeat =
  hbId :: string
  hbService :: nat
  hbTimestamp :: int
  hbTtl :: int
  hbWeights :: int

record monitor_os =
  moExit :: bool
  moRunning :: bool \<comment> \<open>the goroutine \<open>run\<close> is in its loop\<close>
  moInterval :: int
  moHeartbeats :: "(string \<times> Heartbeat) list"

definition newOS :: "int option \<Rightarrow> monitor_os" where
  \<comment> \<open>given the interval of the options, if one is set\<close>
  "newOS interval =
     (let i = (case interval of None \<Rightarrow> 0 | Some i \<Rightarrow> i)
      in \<lparr>moExit = False, moRunning = True, moInterval = (if i = 0 then HeartBeatCheck else i), moHeartbeats = []\<rparr>)"

definition PushHeartBeat :: "(nat \<Rightarrow> Service) \<Rightarrow> nat \<Rightarrow> int \<Rightarrow> monitor_os \<Rightarrow> monitor_os option" where
  \<comment> \<open>the weights are not stored, nor is a time\<close>
  "PushHeartBeat store service weights o' =
     (case svNodes (store service) of
        [] \<Rightarrow> None
      | n # _ \<Rightarrow>
          let hb = \<lparr>hbId = ndId n, hbService = service, hbTimestamp = 0, hbTtl = moInterval o' * 2 div 10 ^ 9, hbWeights = 0\<rparr>
          in Some (o'\<lparr>moHeartbeats := filter (\<lambda>e. fst e \<noteq> hbId hb) (moHeartbeats o') @ [(hbId hb, hb)]\<rparr>))"

definition beat_node :: "limits \<Rightarrow> int \<Rightarrow> int \<Rightarrow> Node \<Rightarrow> Node option" where
  "beat_node lm timeNow weights node =
     (case ndMetadata node of
        None \<Rightarrow> None
      | Some m \<Rightarrow>
          let m = m(''timestamp'' \<mapsto> itoa timeNow);
              status = load_status lm weights (read_status (Some m))
          in Some (node\<lparr>ndMetadata := Some (m(ServiceStatus \<mapsto> status))\<rparr>))"

fun beat_nodes :: "(Node \<Rightarrow> Node option) \<Rightarrow> string \<Rightarrow> Node list \<Rightarrow> (Node list \<times> bool) option" where
  \<comment> \<open>the loop over the nodes, with whether one had the id\<close>
  "beat_nodes f i [] = Some ([], False)"
| "beat_nodes f i (n # ns) =
     (if ndId n = i then map_option (\<lambda>n'. (n' # ns, True)) (f n)
      else map_option (\<lambda>(ns', b). (n # ns', b)) (beat_nodes f i ns))"

fun beat_all ::
  "(Service \<Rightarrow> int \<Rightarrow> 'w \<Rightarrow> goerr option \<times> 'w) \<Rightarrow> limits \<Rightarrow> int \<Rightarrow> int \<Rightarrow> Heartbeat list \<Rightarrow> (nat \<Rightarrow> Service) \<Rightarrow> 'w \<Rightarrow>
   bool \<times> (nat \<Rightarrow> Service) \<times> 'w" where
  \<comment> \<open>the loop over the heartbeats; \<open>False\<close> when it panics. An error of the registry is only logged.\<close>
  "beat_all reg lm interval timeNow [] store w = (True, store, w)"
| "beat_all reg lm interval timeNow (hb # hbs) store w =
     (let s = store (hbService hb)
      in case beat_nodes (beat_node lm timeNow (hbWeights hb)) (hbId hb) (svNodes s) of
           None \<Rightarrow> (False, store, w)
         | Some (ns, found) \<Rightarrow>
             let s = s\<lparr>svNodes := ns\<rparr>;
                 w = (if found then snd (reg s interval w) else w)
             in beat_all reg lm interval timeNow hbs (store(hbService hb := s)) w)"

definition heartbeat_tick ::
  "(Service \<Rightarrow> int \<Rightarrow> 'w \<Rightarrow> goerr option \<times> 'w) \<Rightarrow> limits \<Rightarrow> int \<Rightarrow> monitor_os \<Rightarrow> (nat \<Rightarrow> Service) \<Rightarrow> 'w \<Rightarrow>
   monitor_os \<times> (nat \<Rightarrow> Service) \<times> 'w" where
  \<comment> \<open>one tick of the loop of \<open>heartbeat\<close>, once it runs\<close>
  "heartbeat_tick reg lm timeNow o' store w =
     (let heartbeats = filter (\<lambda>hb. hbTimestamp hb + hbTtl hb < timeNow) (map snd (moHeartbeats o'));
          o' = (if length (moHeartbeats o') > 1000 then o'\<lparr>moHeartbeats := []\<rparr> else o');
          (ok, store, w) = beat_all reg lm (moInterval o') timeNow heartbeats store w
      in (if ok then o' else o'\<lparr>moRunning := False\<rparr>, store, w))"

definition heartbeat_exit :: "monitor_os \<Rightarrow> monitor_os" where
  "heartbeat_exit o' = (if moExit o' then o'\<lparr>moRunning := False\<rparr> else o')"

definition mo_Close :: "monitor_os \<Rightarrow> monitor_os" where
  "mo_Close o' = (if moExit o' then o' else o'\<lparr>moExit := True\<rparr>)"

subsection \<open>Limits that are set\<close>

lemma bit_length_bounds: "n > 0 \<Longrightarrow> 2 ^ (bit_length n - 1) \<le> n \<and> n < 2 ^ bit_length n"
proof (induction n rule: bit_length.induct)
  case (1 n)
  show ?case
  proof (cases "n div 2 = 0")
    case True
    then have "n = 1" using 1 by simp
    then show ?thesis by (simp add: bit_length.simps [of "Suc 0"] bit_length.simps [of 0])
  next
    case False
    with 1 have "2 ^ (bit_length (n div 2) - 1) \<le> n div 2" "n div 2 < 2 ^ bit_length (n div 2)" by simp_all
    moreover have "bit_length (n div 2) > 0" using False by (subst bit_length.simps) simp
    ultimately have "2 ^ bit_length (n div 2) \<le> n" "n < 2 * 2 ^ bit_length (n div 2)"
      by (cases "bit_length (n div 2)"; simp)+ 
    then show ?thesis using 1 by (simp add: bit_length.simps [of n])
  qed
qed

lemma round24_bounds: "2 ^ 24 * round24 p \<le> (2 ^ 24 + 1) * p" "(2 ^ 24 - 1) * p \<le> 2 ^ 24 * round24 p"
proof -
  define k where "k = bit_length p - 24"
  have k: "2 ^ k * 2 ^ 23 \<le> p" if "k > 0"
  proof -
    have "p > 0" using that by (cases p) (simp_all add: k_def bit_length.simps [of 0])
    moreover have "k + 23 = bit_length p - 1" using that by (simp add: k_def)
    ultimately show ?thesis using bit_length_bounds [of p] by (metis power_add)
  qed
  define A R T where "A = p div 2 ^ k * 2 ^ k" and "R = p mod 2 ^ k" and "T = (2 :: nat) ^ k"
  have p: "p = A + R" "R < T" unfolding A_def R_def T_def by (rule div_mult_mod_eq [symmetric]) simp
  have "round24 p = (if 2 * R > T \<or> 2 * R = T \<and> odd (p div 2 ^ k) then A + T else A)"
    unfolding round24_def Let_def k_def [symmetric] A_def R_def T_def by simp
  then have r: "2 * round24 p \<le> 2 * p + 2 ^ k \<and> 2 * p \<le> 2 * round24 p + 2 ^ k"
    using p unfolding T_def [symmetric] by (auto split: if_splits)
  show "2 ^ 24 * round24 p \<le> (2 ^ 24 + 1) * p" "(2 ^ 24 - 1) * p \<le> 2 ^ 24 * round24 p"
  proof -
    have exact: "round24 p = p" if "k = 0" using that unfolding round24_def Let_def k_def [symmetric] by simp
    show "2 ^ 24 * round24 p \<le> (2 ^ 24 + 1) * p" using r k exact by (cases "k = 0") auto
    show "(2 ^ 24 - 1) * p \<le> 2 ^ 24 * round24 p" using r k exact by (cases "k = 0") auto
  qed
qed

text \<open>Setting the maximal number of calls, with the rounding of \<open>float32\<close>, always leaves room between the limits: for a number that is
  not negative the lower limit is below the upper one, which does not exceed the number.\<close>

lemma max_calls_limits:
  assumes "0 \<le> iMax"
  shows "lmDownLimits (SetMaxCalls iMax) < lmUpLimits (SetMaxCalls iMax) \<and> lmUpLimits (SetMaxCalls iMax) \<le> iMax"
proof (cases "iMax = 0")
  case True
  then show ?thesis by (simp add: SetMaxCalls_def f32_scale_def Let_def)
next
  case False
  define a where "a = round24 (nat iMax)"
  have s: "f32_scale iMax m = int (round24 (a * m) div 2 ^ 24)" for m
    using False assms by (simp add: f32_scale_def a_def sgn_if)
  have "2 ^ 24 * round24 (a * 11744051) \<le> (2 ^ 24 + 1) * (a * 11744051)" by (rule round24_bounds)
  also have "\<dots> \<le> (2 ^ 24 - 1) * (a * 15099494)" by simp
  also have "\<dots> \<le> 2 ^ 24 * round24 (a * 15099494)" by (rule round24_bounds)
  finally have "round24 (a * 11744051) \<le> round24 (a * 15099494)" by simp
  then have le: "f32_scale iMax 11744051 \<le> f32_scale iMax 15099494" unfolding s by (simp add: div_le_mono)
  have "2 ^ 24 * round24 (a * 15099494) \<le> (2 ^ 24 + 1) * 15099494 * a" using round24_bounds(1) [of "a * 15099494"] by (simp add: mult.commute)
  moreover have "2 ^ 24 * a \<le> (2 ^ 24 + 1) * nat iMax" unfolding a_def by (rule round24_bounds)
  ultimately have "round24 (a * 15099494) \<le> 2 ^ 24 * nat iMax" by simp
  then have "round24 (a * 15099494) div 2 ^ 24 \<le> nat iMax" by (metis div_le_mono nonzero_mult_div_cancel_left power_not_zero zero_neq_numeral)
  then have "f32_scale iMax 15099494 \<le> iMax" unfolding s using assms by linarith
  with le show ?thesis by (simp add: SetMaxCalls_def Let_def)
qed

subsection \<open>Load and selection\<close>

fun load_run :: "limits \<Rightarrow> int list \<Rightarrow> Service \<Rightarrow> Service option" where
  \<comment> \<open>the loads reported one after the other\<close>
  "load_run lm [] s = Some s"
| "load_run lm (w # ws) s = do { s \<leftarrow> UpdateServiceWithoutSync lm w s; load_run lm ws s }"

definition over_limit :: "limits \<Rightarrow> int list \<Rightarrow> bool" where
  \<comment> \<open>the load has been above the upper limit, and not below the lower one since\<close>
  "over_limit lm ws \<longleftrightarrow> (\<exists>xs w ys. ws = xs @ w # ys \<and> w > lmUpLimits lm \<and> (\<forall>y \<in> set ys. y \<ge> lmDownLimits lm))"

lemma over_limit_Nil [simp]: "\<not> over_limit lm []"
  by (simp add: over_limit_def)

lemma over_limit_snoc: "over_limit lm (ws @ [w]) \<longleftrightarrow> w > lmUpLimits lm \<or> over_limit lm ws \<and> w \<ge> lmDownLimits lm"
proof
  assume "over_limit lm (ws @ [w])"
  then obtain xs v ys where *: "ws @ [w] = xs @ v # ys" "v > lmUpLimits lm" "\<forall>y \<in> set ys. y \<ge> lmDownLimits lm" by (auto simp: over_limit_def)
  show "w > lmUpLimits lm \<or> over_limit lm ws \<and> w \<ge> lmDownLimits lm"
  proof (cases ys rule: rev_cases)
    case (snoc zs z)
    with * have "ws = xs @ v # zs" "w = z" "\<forall>y \<in> set zs. y \<ge> lmDownLimits lm" "w \<ge> lmDownLimits lm" by auto
    with *(2) show ?thesis by (auto simp: over_limit_def)
  qed (use * in auto)
next
  assume "w > lmUpLimits lm \<or> over_limit lm ws \<and> w \<ge> lmDownLimits lm"
  then show "over_limit lm (ws @ [w])"
  proof
    assume "over_limit lm ws \<and> w \<ge> lmDownLimits lm"
    then obtain xs v ys where "ws = xs @ v # ys" "v > lmUpLimits lm" "\<forall>y \<in> set (ys @ [w]). y \<ge> lmDownLimits lm" by (auto simp: over_limit_def)
    then show ?thesis unfolding over_limit_def by (intro exI [of _ xs] exI [of _ v] exI [of _ "ys @ [w]"]) simp
  next
    assume "w > lmUpLimits lm"
    then show ?thesis unfolding over_limit_def by (intro exI [of _ ws] exI [of _ w] exI [of _ "[]"]) simp
  qed
qed

definition node_state :: "bool \<Rightarrow> Node \<Rightarrow> Node \<Rightarrow> bool" where
  \<comment> \<open>the node, but for its status, which says whether it is overloaded\<close>
  "node_state over n n' \<longleftrightarrow> (\<exists>m m'. ndMetadata n = Some m \<and> n' = n\<lparr>ndMetadata := Some m'\<rparr> \<and> (\<forall>k. k \<noteq> ServiceStatus \<longrightarrow> m' k = m k) \<and>
     (if over then m' ServiceStatus = Some UpThresh else m' ServiceStatus \<in> {None, Some NormalState}))"

lemma update_node_state:
  assumes "node_state over n n'" and "lmDownLimits lm \<le> lmUpLimits lm"
  shows "\<exists>n''. update_node lm w n' = Some n'' \<and> node_state (w > lmUpLimits lm \<or> over \<and> w \<ge> lmDownLimits lm) n n''"
proof -
  from assms(1) obtain m m' where n': "ndMetadata n = Some m" "n' = n\<lparr>ndMetadata := Some m'\<rparr>" "\<forall>k. k \<noteq> ServiceStatus \<longrightarrow> m' k = m k"
    "if over then m' ServiceStatus = Some UpThresh else m' ServiceStatus \<in> {None, Some NormalState}" by (auto simp: node_state_def)
  have ne: "UpThresh \<noteq> NormalState" "NormalState \<noteq> []" "UpThresh \<noteq> []" by (simp_all add: UpThresh_def NormalState_def)
  define st where "st = load_status lm w (read_status (Some m'))"
  let ?n = "if read_status (Some m') = st then n' else n\<lparr>ndMetadata := Some (m'(ServiceStatus \<mapsto> st))\<rparr>"
  have u: "update_node lm w n' = Some ?n" by (simp add: update_node_def n'(2) st_def Let_def)
  have own: "node_state over' n n'" if "if over' then m' ServiceStatus = Some UpThresh else m' ServiceStatus \<in> {None, Some NormalState}" for over'
    unfolding node_state_def using n' that by blast
  have new: "node_state over' n (n\<lparr>ndMetadata := Some (m'(ServiceStatus \<mapsto> st))\<rparr>)" if "st = (if over' then UpThresh else NormalState)" for over'
    unfolding node_state_def using n'(1,3) that by (intro exI [of _ m] exI [of _ "m'(ServiceStatus \<mapsto> st)"]) simp
  have "node_state (w > lmUpLimits lm \<or> over \<and> w \<ge> lmDownLimits lm) n ?n"
  proof (cases "w < lmDownLimits lm \<or> w > lmUpLimits lm")
    case True
    then have st: "st = (if w > lmUpLimits lm \<or> over \<and> w \<ge> lmDownLimits lm then UpThresh else NormalState)"
      using assms(2) by (auto simp: st_def load_status_def)
    have "node_state (w > lmUpLimits lm \<or> over \<and> w \<ge> lmDownLimits lm) n n'" if e: "read_status (Some m') = st"
      by (rule own) (use e st ne in \<open>auto simp: read_status_def split: option.splits if_splits\<close>)
    then show ?thesis using new [OF st] by simp
  next
    case False
    then have "st = read_status (Some m')" "w > lmUpLimits lm \<or> over \<and> w \<ge> lmDownLimits lm \<longleftrightarrow> over" by (auto simp: st_def load_status_def)
    then show ?thesis using assms(1) by simp
  qed
  with u show ?thesis by blast
qed

lemma update_nodes_all:
  assumes "\<And>n. n \<in> set ns \<Longrightarrow> \<exists>n'. update_node lm w n = Some n' \<and> P n n'"
  shows "\<exists>ns'. update_nodes lm w ns = Some ns' \<and> list_all2 P ns ns'"
  using assms
proof (induction ns)
  case (Cons n ns)
  then obtain n' ns' where "update_node lm w n = Some n'" "P n n'" "update_nodes lm w ns = Some ns'" "list_all2 P ns ns'"
    by (metis list.set_intros(1,2))
  then show ?case by simp
qed simp

lemma load_run_snoc: "load_run lm (ws @ [w]) s = do { s \<leftarrow> load_run lm ws s; UpdateServiceWithoutSync lm w s }"
  by (induction ws arbitrary: s) (simp_all split: Option.bind_split)

lemma load_run_state:
  assumes "lmDownLimits lm \<le> lmUpLimits lm" and "list_all2 (node_state False) (svNodes s) (svNodes s)"
  shows "\<exists>ns. load_run lm ws s = Some (s\<lparr>svNodes := ns\<rparr>) \<and> list_all2 (node_state (over_limit lm ws)) (svNodes s) ns"
proof (induction ws rule: rev_induct)
  case Nil
  then show ?case using assms(2) by (intro exI [of _ "svNodes s"]) simp
next
  case (snoc w ws)
  then obtain ns where ns: "load_run lm ws s = Some (s\<lparr>svNodes := ns\<rparr>)" "list_all2 (node_state (over_limit lm ws)) (svNodes s) ns" by blast
  let ?P = "\<lambda>n' n''. \<forall>n. node_state (over_limit lm ws) n n' \<longrightarrow> node_state (over_limit lm (ws @ [w])) n n''"
  have "\<exists>ns'. update_nodes lm w ns = Some ns' \<and> list_all2 ?P ns ns'"
  proof (rule update_nodes_all)
    fix n' assume "n' \<in> set ns"
    with ns(2) obtain n where "node_state (over_limit lm ws) n n'" by (auto simp: list_all2_conv_all_nth in_set_conv_nth)
    from update_node_state [OF this assms(1), of w] obtain n'' where u: "update_node lm w n' = Some n''" by blast
    have "?P n' n''" using update_node_state [OF _ assms(1), of "over_limit lm ws" _ n' w] u by (auto simp: over_limit_snoc)
    with u show "\<exists>n''. update_node lm w n' = Some n'' \<and> ?P n' n''" by blast
  qed
  then obtain ns' where ns': "update_nodes lm w ns = Some ns'" "list_all2 ?P ns ns'" by blast
  have "list_all2 (node_state (over_limit lm (ws @ [w]))) (svNodes s) ns'"
    using ns(2) ns'(2) by (auto simp: list_all2_conv_all_nth)
  with ns(1) ns'(1) show ?case by (auto simp: load_run_snoc UpdateServiceWithoutSync_def)
qed

lemma node_state_healthy:
  assumes "node_state over n n'" and "node_state False n n"
  shows "ndId n' = ndId n \<and> (bHealthNodesByWeights clock n' \<longleftrightarrow> bHealthNodesByWeights clock n \<and> \<not> over)"
proof -
  have ne: "''timestamp'' \<noteq> ServiceStatus" "UpThresh \<noteq> NormalState" by (simp_all add: ServiceStatus_def UpThresh_def NormalState_def)
  from assms(1) obtain m m' where n': "ndMetadata n = Some m" "n' = n\<lparr>ndMetadata := Some m'\<rparr>" "m' ''timestamp'' = m ''timestamp''"
    "if over then m' ServiceStatus = Some UpThresh else m' ServiceStatus \<in> {None, Some NormalState}"
    using ne(1) unfolding node_state_def by blast
  from assms(2) n'(1) have "m ServiceStatus \<in> {None, Some NormalState}"
    unfolding node_state_def by (metis Node.select_convs(4) Node.surjective Node.update_convs(4) option.inject)
  with n' ne(2) show ?thesis
    by (cases over) (auto simp: bHealthNodesByWeights_def meta_def)
qed

text \<open>Load reported through \<open>UpdateServiceWithoutSync\<close> decides whether the selector takes a node: starting from a service whose nodes have metadata and are
  not marked, and after any sequence of loads, a node is healthy for the selector exactly if it was so before and the load has not been above the upper limit
  or has been below the lower limit since. Loads between the limits change nothing.\<close>

lemma load_hysteresis:
  assumes "lmDownLimits lm \<le> lmUpLimits lm"
    and "\<And>n. n \<in> set (svNodes s) \<Longrightarrow> \<exists>m. ndMetadata n = Some m \<and> m ServiceStatus \<in> {None, Some NormalState}"
  shows "\<exists>ns. load_run lm ws s = Some (s\<lparr>svNodes := ns\<rparr>) \<and> length ns = length (svNodes s) \<and>
    (\<forall>i < length ns. ndId (ns ! i) = ndId (svNodes s ! i) \<and>
      (bHealthNodesByWeights clock (ns ! i) \<longleftrightarrow>
        bHealthNodesByWeights clock (svNodes s ! i) \<and>
        \<not> (\<exists>xs w ys. ws = xs @ w # ys \<and> w > lmUpLimits lm \<and> (\<forall>y \<in> set ys. y \<ge> lmDownLimits lm))))"
proof -
  have own: "node_state False n n" if n: "n \<in> set (svNodes s)" for n
  proof -
    obtain m where "ndMetadata n = Some m" "m ServiceStatus \<in> {None, Some NormalState}" using assms(2) [OF n] by blast
    then show ?thesis unfolding node_state_def by (intro exI [of _ m]) (cases n, simp)
  qed
  then have "list_all2 (node_state False) (svNodes s) (svNodes s)" by (simp add: list_all2_conv_all_nth)
  from load_run_state [OF assms(1) this, of ws] obtain ns where
    ns: "load_run lm ws s = Some (s\<lparr>svNodes := ns\<rparr>)" "list_all2 (node_state (over_limit lm ws)) (svNodes s) ns" by blast
  then have "length ns = length (svNodes s)" by (simp add: list_all2_lengthD)
  moreover have "ndId (ns ! i) = ndId (svNodes s ! i) \<and> (bHealthNodesByWeights clock (ns ! i) \<longleftrightarrow>
      bHealthNodesByWeights clock (svNodes s ! i) \<and> \<not> over_limit lm ws)" if "i < length ns" for i
    using node_state_healthy [of "over_limit lm ws" "svNodes s ! i" "ns ! i" clock] own [of "svNodes s ! i"] ns(2) that
    by (simp add: list_all2_conv_all_nth)
  ultimately show ?thesis using ns(1) unfolding over_limit_def by blast
qed

text \<open>The heartbeats of the monitor do not carry the load: whatever weight is pushed with a service, the next tick gives the first node of the service the
  status normal, over whatever status it had, together with the time, and sends the service to the default registry once; the heartbeat stays and is sent
  at every tick.\<close>

lemma heartbeat_ignores_load:
  assumes "moHeartbeats o' = []" and "PushHeartBeat store a weights o' = Some o1" and "svNodes (store a) = n # ns" and "ndMetadata n = Some m"
    and "0 < lmDownLimits lm" and "moInterval o' * 2 div 10 ^ 9 < timeNow" and "heartbeat_tick reg lm timeNow o1 store w = (o2, store', w')"
  shows "\<exists>m'. svNodes (store' a) = n\<lparr>ndMetadata := Some m'\<rparr> # ns \<and> m' ServiceStatus = Some NormalState \<and>
    m' ''timestamp'' = Some (itoa timeNow) \<and> w' = snd (reg (store' a) (moInterval o') w) \<and> o2 = o1"
  using assms
  by (auto simp: PushHeartBeat_def heartbeat_tick_def beat_node_def load_status_def ServiceStatus_def Let_def
      intro!: exI [of _ "m(''timestamp'' \<mapsto> itoa timeNow, ''ServiceStatus'' \<mapsto> NormalState)"])

end
