(* ===== verification/Etcd.thy ===== *)
theory Etcd
  imports Rcache ConnPool Paths "HOL-Library.AList" "HOL-Library.List_Lexorder" "HOL-Library.Char_ord"
begin

text \<open>
  \<^verbatim>\<open>registry/etcdv3.go\<close>, \<^verbatim>\<open>registry/etcdv3watcher.go\<close>, \<^verbatim>\<open>registry/options.go\<close> and \<^verbatim>\<open>registry/authoptions.go\<close>: the registry kept in etcd.

  Representation. The client of etcd is a parameter, a record of its operations on a world \<open>'w\<close>; the locale \<open>etcd_store\<close> states
  what etcd documents of them: keys with values and leases. JSON and the hash of a text are the parameter \<open>js\<close>; a hash that panics is
  \<open>None\<close>. Durations are nanoseconds. \<open>path.Join\<close> is modelled after the standard library. The map \<open>serviceMap\<close> is a list of its values in
  the order they are added; \<open>ord\<close> is the order in which they are visited afterwards. The mutex protects the two maps; \<open>leases\<close> is also read
  without it. What a watcher receives is the list of responses on its channel.
\<close>

subsection \<open>Options\<close>

record tls_settings =
  tsInsecureSkipVerify :: bool
  tsName :: string \<comment> \<open>stands for the rest\<close>

record reg_options =
  roAddrs :: "string list"
  roTimeout :: int
  roSecure :: bool
  roTLSConfig :: "tls_settings option"
  roPrefix :: string
  roAuth :: "(string \<times> string) option" \<comment> \<open>the credentials in the context\<close>

definition ro_Addrs :: "string list \<Rightarrow> reg_options \<Rightarrow> reg_options" where
  "ro_Addrs addrs o' = o'\<lparr>roAddrs := addrs\<rparr>"

definition ro_Timeout :: "int \<Rightarrow> reg_options \<Rightarrow> reg_options" where
  "ro_Timeout t o' = o'\<lparr>roTimeout := t\<rparr>"

definition ro_Secure :: "bool \<Rightarrow> reg_options \<Rightarrow> reg_options" where
  "ro_Secure b o' = o'\<lparr>roSecure := b\<rparr>"

definition ro_TLSConfig :: "tls_settings \<Rightarrow> reg_options \<Rightarrow> reg_options" where
  "ro_TLSConfig t o' = o'\<lparr>roTLSConfig := Some t\<rparr>"

definition ro_Prefix :: "string \<Rightarrow> reg_options \<Rightarrow> reg_options" where
  "ro_Prefix pre o' = o'\<lparr>roPrefix := pre\<rparr>"

definition ro_Auth :: "string \<Rightarrow> string \<Rightarrow> reg_options \<Rightarrow> reg_options" where
  "ro_Auth username password o' = o'\<lparr>roAuth := Some (username, password)\<rparr>"

record register_options =
  rgoTTL :: int

definition RegisterTTL :: "int \<Rightarrow> register_options \<Rightarrow> register_options" where
  "RegisterTTL t o' = o'\<lparr>rgoTTL := t\<rparr>"

record watch_options =
  woService :: string

definition WatchService :: "string \<Rightarrow> watch_options \<Rightarrow> watch_options" where
  "WatchService name o' = o'\<lparr>woService := name\<rparr>"

record etcd_config =
  ecEndpoints :: "string list"
  ecTLS :: "tls_settings option"
  ecUsername :: string
  ecPassword :: string

definition etcd_config_of :: "reg_options \<Rightarrow> etcd_config" where
  \<comment> \<open>the configuration that \<open>configure\<close> puts together\<close>
  "etcd_config_of o' =
     (let cAddrs = filter (\<lambda>addr. length addr \<noteq> 0) (roAddrs o');
          tls = (if roSecure o' \<or> roTLSConfig o' \<noteq> None then
                   Some (case roTLSConfig o' of None \<Rightarrow> \<lparr>tsInsecureSkipVerify = True, tsName = []\<rparr> | Some t \<Rightarrow> t)
                 else None)
      in \<lparr>ecEndpoints = (if length cAddrs > 0 then cAddrs else [''127.0.0.1:2379'']), ecTLS = tls,
          ecUsername = (case roAuth o' of None \<Rightarrow> [] | Some (u, p) \<Rightarrow> u),
          ecPassword = (case roAuth o' of None \<Rightarrow> [] | Some (u, p) \<Rightarrow> p)\<rparr>)"

subsection \<open>Paths\<close>

definition no_slash :: "string \<Rightarrow> string" where
  \<comment> \<open>\<open>strings.Replace(s, "/", "-", -1)\<close>\<close>
  "no_slash s = map (\<lambda>c. if c = CHR ''/'' then CHR ''-'' else c) s"

definition nodePath :: "string \<Rightarrow> string \<Rightarrow> string \<Rightarrow> string" where
  "nodePath pre s i = path_Join [pre, no_slash s, no_slash i]"

definition servicePath :: "string \<Rightarrow> string \<Rightarrow> string" where
  "servicePath pre s = path_Join [pre, no_slash s]"

subsection \<open>The client of etcd\<close>

record 'w etcd =
  etGet :: "string \<Rightarrow> 'w \<Rightarrow> (goerr + (string \<times> string) list) \<times> 'w" \<comment> \<open>keys with the given prefix, in descending order\<close>
  etPut :: "string \<Rightarrow> string \<Rightarrow> int option \<Rightarrow> 'w \<Rightarrow> goerr option \<times> 'w"
  etDelete :: "string \<Rightarrow> 'w \<Rightarrow> goerr option \<times> 'w"
  etGrant :: "int \<Rightarrow> 'w \<Rightarrow> (goerr + int) \<times> 'w"
  etKeepAliveOnce :: "int \<Rightarrow> 'w \<Rightarrow> goerr option \<times> 'w"

record service_json =
  sjEncode :: "Service \<Rightarrow> string"
  sjDecode :: "string \<Rightarrow> Service option"
  sjHash :: "string \<Rightarrow> (goerr + uint64) option"

record etcdv3Registry =
  erOptions :: reg_options
  erPrefix :: string \<comment> \<open>the package variable \<open>prefix\<close>\<close>
  erRegister :: "string \<rightharpoonup> uint64"
  erLeases :: "string \<rightharpoonup> int"

definition et_configure :: "(etcd_config \<Rightarrow> goerr + 'c) \<Rightarrow> (reg_options \<Rightarrow> reg_options) list \<Rightarrow> etcdv3Registry \<Rightarrow> (goerr + 'c) \<times> etcdv3Registry" where
  \<comment> \<open>\<open>new\<close> is \<open>clientv3.New\<close>\<close>
  "et_configure new opts e =
     (let o' = fold (\<lambda>f. f) opts (erOptions e);
          o' = (if roTimeout o' = 0 then o'\<lparr>roTimeout := 5 * 10 ^ 9\<rparr> else o');
          e = e\<lparr>erOptions := o', erPrefix := (if roPrefix o' \<noteq> [] then roPrefix o' else erPrefix e)\<rparr>
      in (new (etcd_config_of o'), e))"

definition et_NewRegistry :: "(etcd_config \<Rightarrow> goerr + 'c) \<Rightarrow> (reg_options \<Rightarrow> reg_options) list \<Rightarrow> string \<Rightarrow> (goerr + 'c) \<times> etcdv3Registry" where
  \<comment> \<open>an error leaves a registry without a client; \<open>pre\<close> is the prefix so far\<close>
  "et_NewRegistry new opts pre =
     et_configure new opts
       \<lparr>erOptions = \<lparr>roAddrs = [], roTimeout = 0, roSecure = False, roTLSConfig = None, roPrefix = [], roAuth = None\<rparr>,
        erPrefix = pre, erRegister = Map.empty, erLeases = Map.empty\<rparr>"

fun delete_nodes :: "'w etcd \<Rightarrow> string \<Rightarrow> string \<Rightarrow> Node list \<Rightarrow> 'w \<Rightarrow> goerr option \<times> 'w" where
  "delete_nodes E pre name [] w = (None, w)"
| "delete_nodes E pre name (n # ns) w =
     (case etDelete E (nodePath pre name (ndId n)) w of
        (Some err, w) \<Rightarrow> (Some err, w)
      | (None, w) \<Rightarrow> delete_nodes E pre name ns w)"

definition et_Deregister :: "'w etcd \<Rightarrow> Service \<Rightarrow> etcdv3Registry \<Rightarrow> 'w \<Rightarrow> goerr option \<times> etcdv3Registry \<times> 'w" where
  "et_Deregister E s e w =
     (if length (svNodes s) = 0 then (Some (GoErr ''Require at least one node ''), e, w)
      else
        let e = e\<lparr>erRegister := (erRegister e)(svName s := None), erLeases := (erLeases e)(svName s := None)\<rparr>;
            (err, w) = delete_nodes E (erPrefix e) (svName s) (svNodes s) w
        in (err, e, w))"

definition EqualFold :: "string \<Rightarrow> string \<Rightarrow> bool" where
  \<comment> \<open>for ASCII\<close>
  "EqualFold s t =
     (let low = (\<lambda>c. if 65 \<le> (of_char c :: nat) \<and> (of_char c :: nat) \<le> 90 then char_of (of_char c + 32 :: nat) else c)
      in map low s = map low t)"

definition lease_not_found :: string where
  \<comment> \<open>\<open>rpctypes.ErrorDesc(rpctypes.ErrGRPCLeaseNotFound)\<close>\<close>
  "lease_not_found = ''etcdserver: requested lease not found''"

definition refresh_lease :: "'w etcd \<Rightarrow> int option \<Rightarrow> 'w \<Rightarrow> (goerr + bool) \<times> 'w" where
  \<comment> \<open>an error, or whether the lease was not found\<close>
  "refresh_lease E lease w =
     (case lease of
        None \<Rightarrow> (Inr False, w)
      | Some i \<Rightarrow>
          (case etKeepAliveOnce E i w of
             (None, w) \<Rightarrow> (Inr False, w)
           | (Some err, w) \<Rightarrow> (if \<not> EqualFold (errText err) lease_not_found then Inl err else Inr True, w)))"

definition node_service :: "Service \<Rightarrow> Node \<Rightarrow> Service" where
  "node_service s n = s\<lparr>svNodes := [n]\<rparr>"

fun put_nodes :: "'w etcd \<Rightarrow> service_json \<Rightarrow> string \<Rightarrow> Service \<Rightarrow> int option \<Rightarrow> Node list \<Rightarrow> 'w \<Rightarrow> goerr option \<times> 'w" where
  "put_nodes E js pre s lease [] w = (None, w)"
| "put_nodes E js pre s lease (n # ns) w =
     (case etPut E (nodePath pre (svName s) (ndId n)) (sjEncode js (node_service s n)) lease w of
        (Some err, w) \<Rightarrow> (Some err, w)
      | (None, w) \<Rightarrow> put_nodes E js pre s lease ns w)"

definition grant_lease :: "'w etcd \<Rightarrow> int \<Rightarrow> 'w \<Rightarrow> (goerr + int option) \<times> 'w" where
  "grant_lease E ttl w =
     (if ttl > 0 then
        (case etGrant E (ttl div 10 ^ 9) w of (Inl err, w) \<Rightarrow> (Inl err, w) | (Inr i, w) \<Rightarrow> (Inr (Some i), w))
      else (Inr None, w))"

definition et_Register ::
  "'w etcd \<Rightarrow> service_json \<Rightarrow> Service \<Rightarrow> (register_options \<Rightarrow> register_options) list \<Rightarrow> etcdv3Registry \<Rightarrow> 'w \<Rightarrow>
   goerr option \<times> etcdv3Registry \<times> 'w" where
  \<comment> \<open>a panic of the hash is recovered, and no error is returned\<close>
  "et_Register E js s opts e w =
     (if length (svNodes s) = 0 then (Some (GoErr ''Require at least one node ''), e, w)
      else case refresh_lease E (erLeases e (svName s)) w of
        (Inl err, w) \<Rightarrow> (Some err, e, w)
      | (Inr leaseNotFound, w) \<Rightarrow>
     case sjHash js (sjEncode js s) of
        None \<Rightarrow> (None, e, w)
      | Some (Inl err) \<Rightarrow> (Some err, e, w)
      | Some (Inr h) \<Rightarrow>
          if erRegister e (svName s) = Some h \<and> \<not> leaseNotFound then (None, e, w)
          else
            let options = fold (\<lambda>f. f) opts \<lparr>rgoTTL = 0\<rparr>
            in case grant_lease E (rgoTTL options) w of
                 (Inl err, w) \<Rightarrow> (Some err, e, w)
               | (Inr lgr, w) \<Rightarrow>
            case put_nodes E js (erPrefix e) s lgr (svNodes s) w of
                 (Some err, w) \<Rightarrow> (Some err, e, w)
               | (None, w) \<Rightarrow>
                   (None, e\<lparr>erRegister := (erRegister e)(svName s \<mapsto> h),
                      erLeases := (case lgr of None \<Rightarrow> erLeases e | Some i \<Rightarrow> (erLeases e)(svName s \<mapsto> i))\<rparr>, w))"

fun add_service :: "Service \<Rightarrow> Service list \<Rightarrow> Service list" where
  \<comment> \<open>one turn of the loop of \<open>GetService\<close>: the nodes are added to the service with the version\<close>
  "add_service sn [] = [sn\<lparr>svNodes := [] @ svNodes sn\<rparr>]"
| "add_service sn (s # ss) =
     (if svVersion s = svVersion sn then s\<lparr>svNodes := svNodes s @ svNodes sn\<rparr> # ss else s # add_service sn ss)"

definition merge_services :: "service_json \<Rightarrow> (string \<times> string) list \<Rightarrow> Service list" where
  "merge_services js kvs =
     fold (\<lambda>(k, v) ss. case sjDecode js v of None \<Rightarrow> ss | Some sn \<Rightarrow> add_service sn ss) kvs []"

definition et_GetService ::
  "'w etcd \<Rightarrow> service_json \<Rightarrow> (Service list \<Rightarrow> Service list) \<Rightarrow> string \<Rightarrow> etcdv3Registry \<Rightarrow> 'w \<Rightarrow> (goerr + Service list) \<times> 'w" where
  "et_GetService E js ord name e w =
     (case etGet E (servicePath (erPrefix e) name @ ''/'') w of
        (Inl err, w) \<Rightarrow> (Inl err, w)
      | (Inr kvs, w) \<Rightarrow> (if length kvs = 0 then Inl (GoErr ''not found'') else Inr (ord (merge_services js kvs)), w))"

definition et_ListServices ::
  "'w etcd \<Rightarrow> service_json \<Rightarrow> (string list \<Rightarrow> string list) \<Rightarrow> etcdv3Registry \<Rightarrow> 'w \<Rightarrow> (goerr + Service list) \<times> 'w" where
  "et_ListServices E js ord e w =
     (case etGet E (erPrefix e) w of
        (Inl err, w) \<Rightarrow> (Inl err, w)
      | (Inr kvs, w) \<Rightarrow>
          (if length kvs = 0 then Inr []
           else Inr (map (\<lambda>k. \<lparr>svName = k, svVersion = [], svMetadata = None, svEndpoints = [], svNodes = []\<rparr>)
             (ord (remdups (List.map_filter (\<lambda>(k, v). map_option svName (sjDecode js v)) kvs)))), w))"

subsection \<open>The watcher\<close>

datatype event_type = EventTypePut | EventTypeDelete

record etcd_event =
  evType :: event_type
  evIsCreate :: bool \<comment> \<open>a put creates the key or modifies it\<close>
  evValue :: string
  evPrevKv :: "string option"

record etcdv3Watcher =
  ewStop :: bool \<comment> \<open>the channel is closed, and the context is cancelled\<close>
  ewW :: "(goerr + etcd_event list) list" \<comment> \<open>responses to come\<close>
  ewClosed :: bool \<comment> \<open>no others follow\<close>
  ewPath :: string

definition newEtcdv3Watcher :: "(watch_options \<Rightarrow> watch_options) list \<Rightarrow> etcdv3Registry \<Rightarrow> (goerr + etcd_event list) list \<Rightarrow> bool \<Rightarrow> etcdv3Watcher" where
  \<comment> \<open>given what the watch will deliver\<close>
  "newEtcdv3Watcher opts r resps closed =
     (let wo = fold (\<lambda>f. f) opts \<lparr>woService = []\<rparr>
      in \<lparr>ewStop = False, ewW = resps, ewClosed = closed,
          ewPath = (if length (woService wo) > 0 then servicePath (erPrefix r) (woService wo) @ ''/'' else erPrefix r)\<rparr>)"

definition event_service :: "service_json \<Rightarrow> etcd_event \<Rightarrow> (string \<times> Service option) option" where
  \<comment> \<open>the action and the service; a deletion without the previous value panics\<close>
  "event_service js ev =
     (case evType ev of
        EventTypePut \<Rightarrow> Some (if evIsCreate ev then ''create'' else ''update'', sjDecode js (evValue ev))
      | EventTypeDelete \<Rightarrow> map_option (\<lambda>v. (''delete'', sjDecode js v)) (evPrevKv ev))"

fun first_result :: "service_json \<Rightarrow> etcd_event list \<Rightarrow> Result option option" where
  \<comment> \<open>the loop over the events of one response\<close>
  "first_result js [] = Some None"
| "first_result js (ev # evs) =
     (case event_service js ev of
        None \<Rightarrow> None
      | Some (action, None) \<Rightarrow> first_result js evs
      | Some (action, Some s) \<Rightarrow> Some (Some \<lparr>resAction = action, resService = Some s\<rparr>))"

fun next_loop :: "service_json \<Rightarrow> bool \<Rightarrow> (goerr + etcd_event list) list \<Rightarrow> ((goerr + Result) \<times> (goerr + etcd_event list) list) option" where
  "next_loop js closed [] = (if closed then Some (Inl (GoErr ''could not get next''), []) else None)"
| "next_loop js closed (Inl err # rs) = Some (Inl err, rs)"
| "next_loop js closed (Inr evs # rs) =
     (case first_result js evs of
        None \<Rightarrow> None
      | Some None \<Rightarrow> next_loop js closed rs
      | Some (Some r) \<Rightarrow> Some (Inr r, rs))"

definition ew_Next :: "service_json \<Rightarrow> etcdv3Watcher \<Rightarrow> ((goerr + Result) \<times> etcdv3Watcher) option" where
  "ew_Next js ew = map_option (\<lambda>(r, rs). (r, ew\<lparr>ewW := rs\<rparr>)) (next_loop js (ewClosed ew) (ewW ew))"

definition ew_Stop :: "etcdv3Watcher \<Rightarrow> etcdv3Watcher" where
  "ew_Stop ew = (if ewStop ew then ew else ew\<lparr>ewStop := True\<rparr>)"

subsection \<open>Paths of nodes\<close>

lemma no_slash_slash: "CHR ''/'' \<notin> set (no_slash s)"
  by (auto simp: no_slash_def)

lemma plain_no_slash: "plain_name x \<Longrightarrow> plain_name (no_slash x)"
  by (auto simp: plain_name_def no_slash_def map_eq_Cons_conv split: if_splits)

definition dir :: "string \<Rightarrow> string" where
  "dir pre = (if path_parts pre = [] then ''/'' else ''/'' @ join_with ''/'' (path_parts pre) @ ''/'')"

lemma servicePath_dir:
  assumes "rooted pre" and "plain_name s"
  shows "servicePath pre s = dir pre @ no_slash s"
proof -
  let ?p = "pre @ ''/'' @ no_slash s"
  have "no_slash s \<noteq> []" "pre \<noteq> []" using assms plain_no_slash [of s] by (auto simp: plain_name_def rooted_def)
  then have "servicePath pre s = path_Clean ?p" by (simp add: servicePath_def path_Join_def)
  also have "\<dots> = ''/'' @ join_with ''/'' (path_parts pre @ [no_slash s])"
    using path_Join_parts [OF assms(1) plain_no_slash [OF assms(2)] no_slash_slash] assms(1) by (simp add: path_Clean_def rooted_def Let_def)
  also have "\<dots> = dir pre @ no_slash s" by (cases "path_parts pre = []") (simp_all add: dir_def join_with_snoc)
  finally show ?thesis .
qed

lemma nodePath_dir:
  assumes "rooted pre" and "plain_name s" and "plain_name i"
  shows "nodePath pre s i = dir pre @ no_slash s @ ''/'' @ no_slash i"
proof -
  let ?q = "pre @ ''/'' @ no_slash s"
  have ne: "no_slash s \<noteq> []" "no_slash i \<noteq> []" "pre \<noteq> []" using assms plain_no_slash [of s] plain_no_slash [of i] by (auto simp: plain_name_def rooted_def)
  then have "nodePath pre s i = path_Clean (?q @ ''/'' @ no_slash i)" by (simp add: nodePath_def path_Join_def)
  also have "path_parts (?q @ ''/'' @ no_slash i) = path_parts pre @ [no_slash s, no_slash i]"
    using path_Join_parts [of ?q "no_slash i"] path_Join_parts [of pre "no_slash s"] assms plain_no_slash no_slash_slash by (simp add: rooted_def)
  then have "path_Clean (?q @ ''/'' @ no_slash i) = ''/'' @ join_with ''/'' ((path_parts pre @ [no_slash s]) @ [no_slash i])"
    using assms(1) by (simp add: path_Clean_def rooted_def Let_def)
  also have "join_with ''/'' ((path_parts pre @ [no_slash s]) @ [no_slash i]) = join_with ''/'' (path_parts pre @ [no_slash s]) @ ''/'' @ no_slash i"
    by (rule join_with_snoc) simp
  also have "''/'' @ \<dots> = dir pre @ no_slash s @ ''/'' @ no_slash i"
    by (cases "path_parts pre = []") (simp_all add: dir_def join_with_snoc)
  finally show ?thesis .
qed

lemma nodePath_inject:
  assumes "rooted pre" and "plain_name s" "plain_name i" "plain_name s'" "plain_name i'" and "nodePath pre s i = nodePath pre s' i'"
  shows "no_slash s = no_slash s' \<and> no_slash i = no_slash i'"
proof -
  have "no_slash s @ CHR ''/'' # no_slash i = no_slash s' @ CHR ''/'' # no_slash i'"
    using assms(6) nodePath_dir [OF assms(1-3)] nodePath_dir [OF assms(1,4,5)] by simp
  then have "split_at_char (CHR ''/'') (no_slash s @ CHR ''/'' # no_slash i) = split_at_char (CHR ''/'') (no_slash s' @ CHR ''/'' # no_slash i')"
    by (rule arg_cong)
  then show ?thesis by (simp add: split_append split_none no_slash_slash)
qed

subsection \<open>What etcd promises\<close>

definition has_prefix :: "string \<Rightarrow> string \<Rightarrow> bool" where
  "has_prefix p k \<longleftrightarrow> take (length p) k = p"

record etcd_view =
  vwKv :: "string \<rightharpoonup> (string \<times> int option)" \<comment> \<open>keys with their values and leases\<close>
  vwLive :: "int set" \<comment> \<open>leases that have not expired\<close>
  vwUsed :: "int set" \<comment> \<open>leases ever granted\<close>

locale etcd_store =
  fixes E :: "'w etcd"
    and view :: "'w \<Rightarrow> etcd_view"
  assumes leased: "vwKv (view w) k = Some (v, Some i) \<Longrightarrow> i \<in> vwLive (view w)"
    and live_used: "vwLive (view w) \<subseteq> vwUsed (view w)"
    and put_ok: "etPut E k v l w = (None, w') \<Longrightarrow> view w' = (view w)\<lparr>vwKv := (vwKv (view w))(k \<mapsto> (v, l))\<rparr>"
    and delete_ok: "etDelete E k w = (None, w') \<Longrightarrow> view w' = (view w)\<lparr>vwKv := (vwKv (view w))(k := None)\<rparr>"
    and get_ok: "etGet E p w = (Inr kvs, w') \<Longrightarrow> view w' = view w \<and> distinct (map fst kvs) \<and> sorted (rev (map fst kvs)) \<and>
      (\<forall>k v. (k, v) \<in> set kvs \<longleftrightarrow> has_prefix p k \<and> (\<exists>l. vwKv (view w) k = Some (v, l)))"
    and grant_ok: "etGrant E t w = (Inr i, w') \<Longrightarrow> i \<notin> vwUsed (view w) \<and>
      view w' = (view w)\<lparr>vwLive := insert i (vwLive (view w)), vwUsed := insert i (vwUsed (view w))\<rparr>"
    and keep_ok: "etKeepAliveOnce E i w = (None, w') \<Longrightarrow> i \<in> vwLive (view w) \<and> view w' = view w"
    and keep_lost: "etKeepAliveOnce E i w = (Some err, w') \<Longrightarrow>
      view w' = view w \<and> (EqualFold (errText err) lease_not_found \<longrightarrow> i \<notin> vwLive (view w))"
    \<comment> \<open>a request that is answered by an error may have been carried out all the same\<close>
    and put_err: "etPut E k v l w = (Some err, w') \<Longrightarrow>
      view w' = view w \<or> view w' = (view w)\<lparr>vwKv := (vwKv (view w))(k \<mapsto> (v, l))\<rparr>"
    and delete_err: "etDelete E k w = (Some err, w') \<Longrightarrow>
      view w' = view w \<or> view w' = (view w)\<lparr>vwKv := (vwKv (view w))(k := None)\<rparr>"
    and grant_err: "etGrant E t w = (Inl err, w') \<Longrightarrow> view w' = view w \<or>
      (\<exists>i. i \<notin> vwUsed (view w) \<and>
        view w' = (view w)\<lparr>vwLive := insert i (vwLive (view w)), vwUsed := insert i (vwUsed (view w))\<rparr>)"
begin

lemma refresh_lease_ok:
  assumes "refresh_lease E l w = (Inr lost, w')"
  shows "view w' = view w \<and> (case l of None \<Rightarrow> \<not> lost | Some i \<Rightarrow> i \<in> vwLive (view w) \<longleftrightarrow> \<not> lost)"
  using assms keep_ok keep_lost
  by (auto simp: refresh_lease_def split: option.splits prod.splits if_splits)

lemma grant_lease_ok:
  assumes "grant_lease E ttl w = (Inr l, w')"
  shows "vwKv (view w') = vwKv (view w) \<and>
    (case l of
       None \<Rightarrow> view w' = view w
     | Some i \<Rightarrow> i \<notin> vwUsed (view w) \<and> vwLive (view w') = insert i (vwLive (view w)) \<and> vwUsed (view w') = insert i (vwUsed (view w)))"
  using assms grant_ok by (auto simp: grant_lease_def split: prod.splits sum.splits if_splits)

lemma put_nodes_ok:
  assumes "put_nodes E js pre s l ns w = (None, w')"
  shows "view w' = (view w)\<lparr>vwKv :=
    fold (\<lambda>n m. m(nodePath pre (svName s) (ndId n) \<mapsto> (sjEncode js (node_service s n), l))) ns (vwKv (view w))\<rparr>"
  using assms
proof (induction ns arbitrary: w)
  case (Cons n ns)
  then obtain w1 where "etPut E (nodePath pre (svName s) (ndId n)) (sjEncode js (node_service s n)) l w = (None, w1)"
    "put_nodes E js pre s l ns w1 = (None, w')" by (auto split: prod.splits option.splits)
  with Cons.IH put_ok show ?case by simp
qed simp

lemma put_nodes_any:
  assumes "put_nodes E js pre s l ns w = (x, w')"
  shows "vwLive (view w') = vwLive (view w) \<and> vwUsed (view w') = vwUsed (view w) \<and>
    (\<forall>k. k \<notin> (\<lambda>n. nodePath pre (svName s) (ndId n)) ` set ns \<longrightarrow> vwKv (view w') k = vwKv (view w) k)"
  using assms
proof (induction ns arbitrary: w)
  case (Cons n ns)
  obtain y w1 where p: "etPut E (nodePath pre (svName s) (ndId n)) (sjEncode js (node_service s n)) l w = (y, w1)" by fastforce
  then have v1: "view w1 = view w \<or> (\<exists>z. view w1 = (view w)\<lparr>vwKv := (vwKv (view w))(nodePath pre (svName s) (ndId n) \<mapsto> z)\<rparr>)"
    using put_ok put_err by (cases y) blast+
  show ?case
  proof (cases y)
    case (Some err)
    with Cons.prems p v1 show ?thesis by auto
  next
    case None
    with Cons.prems p have "put_nodes E js pre s l ns w1 = (x, w')" by simp
    from Cons.IH [OF this] v1 show ?thesis by auto
  qed
qed simp

lemma delete_nodes_any:
  assumes "delete_nodes E pre name ns w = (x, w')"
  shows "vwLive (view w') = vwLive (view w) \<and> vwUsed (view w') = vwUsed (view w) \<and>
    (\<forall>k. k \<notin> (\<lambda>n. nodePath pre name (ndId n)) ` set ns \<longrightarrow> vwKv (view w') k = vwKv (view w) k)"
  using assms
proof (induction ns arbitrary: w)
  case (Cons n ns)
  obtain y w1 where p: "etDelete E (nodePath pre name (ndId n)) w = (y, w1)" by fastforce
  then have v1: "view w1 = view w \<or> view w1 = (view w)\<lparr>vwKv := (vwKv (view w))(nodePath pre name (ndId n) := None)\<rparr>"
    using delete_ok delete_err by (cases y) blast+
  show ?case
  proof (cases y)
    case (Some err)
    with Cons.prems p v1 show ?thesis by auto
  next
    case None
    with Cons.prems p have "delete_nodes E pre name ns w1 = (x, w')" by simp
    from Cons.IH [OF this] v1 show ?thesis by auto
  qed
qed simp

lemma grant_lease_any:
  assumes "grant_lease E ttl w = (x, w')"
  shows "vwKv (view w') = vwKv (view w) \<and> vwUsed (view w) \<subseteq> vwUsed (view w') \<and> vwLive (view w') \<inter> vwUsed (view w) = vwLive (view w)"
proof -
  have "view w' = view w \<or> (\<exists>i. i \<notin> vwUsed (view w) \<and>
      view w' = (view w)\<lparr>vwLive := insert i (vwLive (view w)), vwUsed := insert i (vwUsed (view w))\<rparr>)"
    using assms grant_ok grant_err by (fastforce simp: grant_lease_def split: prod.splits sum.splits if_splits)
  then show ?thesis using live_used [of w] by auto
qed

lemma delete_nodes_ok:
  assumes "delete_nodes E pre name ns w = (None, w')"
  shows "view w' = (view w)\<lparr>vwKv := fold (\<lambda>n m. m(nodePath pre name (ndId n) := None)) ns (vwKv (view w))\<rparr>"
  using assms
proof (induction ns arbitrary: w)
  case (Cons n ns)
  then obtain w1 where "etDelete E (nodePath pre name (ndId n)) w = (None, w1)" "delete_nodes E pre name ns w1 = (None, w')"
    by (auto split: prod.splits option.splits)
  with Cons.IH delete_ok show ?case by simp
qed simp

end

subsection \<open>A registering process\<close>

definition known_services :: "service_json \<Rightarrow> Service set \<Rightarrow> bool" where
  \<comment> \<open>services with names and node ids that are usable in paths and remain distinct there, which JSON restores and whose hashes differ\<close>
  "known_services js S \<longleftrightarrow>
     (\<forall>s \<in> S. plain_name (svName s) \<and> svNodes s \<noteq> [] \<and> (\<forall>n \<in> set (svNodes s). plain_name (ndId n)) \<and>
       distinct (map (\<lambda>n. no_slash (ndId n)) (svNodes s)) \<and> (\<exists>h. sjHash js (sjEncode js s) = Some (Inr h)) \<and>
       (\<forall>n \<in> set (svNodes s). sjDecode js (sjEncode js (node_service s n)) = Some (node_service s n))) \<and>
     inj_on (\<lambda>s. sjHash js (sjEncode js s)) S \<and>
     (\<forall>s \<in> S. \<forall>s' \<in> S. no_slash (svName s) = no_slash (svName s') \<longrightarrow> svName s = svName s')"

definition expires :: "etcd_view \<Rightarrow> etcd_view \<Rightarrow> bool" where
  \<comment> \<open>leases run out, and their keys go\<close>
  "expires v v' \<longleftrightarrow> vwLive v' \<subseteq> vwLive v \<and> vwUsed v' = vwUsed v \<and>
     (\<forall>k. vwKv v' k = (case vwKv v k of Some (x, Some i) \<Rightarrow> if i \<in> vwLive v' then Some (x, Some i) else None | y \<Rightarrow> y))"

definition others_act :: "string set \<Rightarrow> etcd_view \<Rightarrow> etcd_view \<Rightarrow> bool" where
  \<comment> \<open>other clients of etcd get leases and change keys that are not in the set\<close>
  "others_act K v v' \<longleftrightarrow> vwUsed v \<subseteq> vwUsed v' \<and> vwLive v' \<inter> vwUsed v = vwLive v \<and> (\<forall>k \<in> K. vwKv v' k = vwKv v k)"

record 'w reg_sys =
  rzReg :: etcdv3Registry
  rzWorld :: 'w
  rzLast :: "string \<rightharpoonup> Service" \<comment> \<open>what was registered last and not deregistered\<close>

definition node_keys :: "string \<Rightarrow> Service set \<Rightarrow> string set" where
  "node_keys pre S = {nodePath pre (svName s) (ndId n) | s n. s \<in> S \<and> n \<in> set (svNodes s)}"

text \<open>The calls of the process, one after the other. \<open>Deregister\<close> may fail; so may \<open>Register\<close>, except that an update of a
  registered service to other contents does not fail: it could overwrite keys and leave the old hash behind, and then
  registering the old contents again is taken for no change.\<close>

inductive reg_step :: "'w etcd \<Rightarrow> service_json \<Rightarrow> ('w \<Rightarrow> etcd_view) \<Rightarrow> Service set \<Rightarrow> 'w reg_sys \<Rightarrow> 'w reg_sys \<Rightarrow> bool" for E js view S where
  rstep_register: "s \<in> S \<Longrightarrow> et_Register E js s opts (rzReg x) (rzWorld x) = (None, e, w) \<Longrightarrow>
    reg_step E js view S x \<lparr>rzReg = e, rzWorld = w, rzLast = (rzLast x)(svName s \<mapsto> s)\<rparr>"
| rstep_register_fails: "s \<in> S \<Longrightarrow> rzLast x (svName s) \<in> {None, Some s} \<Longrightarrow>
    et_Register E js s opts (rzReg x) (rzWorld x) = (Some err, e, w) \<Longrightarrow>
    reg_step E js view S x (x\<lparr>rzReg := e, rzWorld := w\<rparr>)"
| rstep_deregister: "s \<in> S \<Longrightarrow> et_Deregister E s (rzReg x) (rzWorld x) = (err', e, w) \<Longrightarrow>
    reg_step E js view S x \<lparr>rzReg = e, rzWorld = w, rzLast = (rzLast x)(svName s := None)\<rparr>"
| rstep_expire: "expires (view (rzWorld x)) (view w) \<Longrightarrow> reg_step E js view S x (x\<lparr>rzWorld := w\<rparr>)"
| rstep_others: "others_act (node_keys (erPrefix (rzReg x)) S) (view (rzWorld x)) (view w) \<Longrightarrow> reg_step E js view S x (x\<lparr>rzWorld := w\<rparr>)"

definition key_present :: "service_json \<Rightarrow> etcdv3Registry \<Rightarrow> etcd_view \<Rightarrow> Service \<Rightarrow> Node \<Rightarrow> bool" where
  "key_present js e v s n \<longleftrightarrow> (\<exists>l. vwKv v (nodePath (erPrefix e) (svName s) (ndId n)) = Some (sjEncode js (node_service s n), l) \<and>
     (l = None \<or> l = erLeases e (svName s)))"

definition lease_lost :: "etcdv3Registry \<Rightarrow> etcd_view \<Rightarrow> string \<Rightarrow> bool" where
  "lease_lost e v name \<longleftrightarrow> (\<exists>i. erLeases e name = Some i \<and> i \<notin> vwLive v)"

definition hash_of :: "service_json \<Rightarrow> Service option \<Rightarrow> uint64 option" where
  "hash_of js r = Option.bind r (\<lambda>s. case sjHash js (sjEncode js s) of Some (Inr h) \<Rightarrow> Some h | _ \<Rightarrow> None)"

lemma hash_of_simps [simp]:
  "hash_of js None = None"
  "sjHash js (sjEncode js s) = Some (Inr h) \<Longrightarrow> hash_of js (Some s) = Some h"
  by (simp_all add: hash_of_def)

lemma hash_of_Some: "hash_of js r = Some h \<Longrightarrow> \<exists>s. r = Some s \<and> sjHash js (sjEncode js s) = Some (Inr h)"
  by (cases r; cases "sjHash js (sjEncode js (the r))") (auto simp: hash_of_def split: sum.splits)

definition reg_inv :: "service_json \<Rightarrow> Service set \<Rightarrow> etcdv3Registry \<Rightarrow> etcd_view \<Rightarrow> (string \<rightharpoonup> Service) \<Rightarrow> bool" where
  "reg_inv js S e v rec \<longleftrightarrow> rooted (erPrefix e) \<and> ran (erLeases e) \<subseteq> vwUsed v \<and>
     (\<forall>name. erRegister e name = hash_of js (rec name)) \<and>
     (\<forall>name s. rec name = Some s \<longrightarrow> s \<in> S \<and> svName s = name \<and>
       (\<forall>n \<in> set (svNodes s). key_present js e v s n \<or> lease_lost e v name))"

lemma fold_put_other: "k \<notin> key ` set ns \<Longrightarrow> fold (\<lambda>n m. m(key n \<mapsto> val n)) ns m k = m k"
  by (induction ns arbitrary: m) auto

lemma fold_put_keys:
  assumes "distinct (map key ns)" and "n \<in> set ns"
  shows "fold (\<lambda>n m. m(key n \<mapsto> val n)) ns m (key n) = Some (val n)"
  using assms
proof (induction ns arbitrary: m)
  case (Cons a ns)
  show ?case
  proof (cases "n \<in> set ns")
    case False
    with Cons.prems have "n = a" "key a \<notin> key ` set ns" by auto
    then show ?thesis using fold_put_other [of "key a" key ns val "m(key a \<mapsto> val a)"] by (simp del: fun_upd_apply) simp
  qed (use Cons in simp)
qed simp

lemma fold_delete_keys: "k \<notin> key ` set ns \<Longrightarrow> fold (\<lambda>n m. m(key n := None)) ns m k = m k"
  by (induction ns arbitrary: m) auto

lemma node_paths_distinct:
  assumes "known_services js S" and "s \<in> S" and "rooted pre"
  shows "distinct (map (\<lambda>n. nodePath pre (svName s) (ndId n)) (svNodes s))"
proof -
  have d: "distinct (map (\<lambda>n. no_slash (ndId n)) (svNodes s))" and p: "plain_name (svName s)" "\<forall>n \<in> set (svNodes s). plain_name (ndId n)"
    using assms by (auto simp: known_services_def)
  have "inj_on (\<lambda>n. nodePath pre (svName s) (ndId n)) (set (svNodes s))"
    using d p nodePath_inject [OF assms(3)] unfolding distinct_map inj_on_def by metis
  with d show ?thesis by (simp add: distinct_map)
qed

lemma node_paths_apart:
  assumes "known_services js S" and "s \<in> S" and "s' \<in> S" and "rooted pre" and "svName s \<noteq> svName s'" and "n \<in> set (svNodes s)"
  shows "nodePath pre (svName s) (ndId n) \<notin> (\<lambda>n. nodePath pre (svName s') (ndId n)) ` set (svNodes s')"
proof
  assume "nodePath pre (svName s) (ndId n) \<in> (\<lambda>n. nodePath pre (svName s') (ndId n)) ` set (svNodes s')"
  then obtain n' where n': "n' \<in> set (svNodes s')" "nodePath pre (svName s) (ndId n) = nodePath pre (svName s') (ndId n')" by blast
  have "plain_name (svName s)" "plain_name (ndId n)" "plain_name (svName s')" "plain_name (ndId n')"
    using assms(1-3,6) n'(1) by (auto simp: known_services_def)
  with nodePath_inject [OF assms(4)] n'(2) have "no_slash (svName s) = no_slash (svName s')" by blast
  with assms(1-3,5) show False by (auto simp: known_services_def)
qed

lemma reg_inv_frame:
  \<comment> \<open>a change that concerns only the service \<open>name\<close>\<close>
  assumes "reg_inv js S e v rec" and "known_services js S" and "erPrefix e' = erPrefix e" and "ran (erLeases e') \<subseteq> vwUsed v'"
    and "\<And>b. b \<noteq> name \<Longrightarrow> erRegister e' b = erRegister e b \<and> erLeases e' b = erLeases e b \<and> rec' b = rec b"
    and "vwLive v' \<inter> vwUsed v = vwLive v"
    and "\<And>s n. s \<in> S \<Longrightarrow> svName s \<noteq> name \<Longrightarrow> n \<in> set (svNodes s) \<Longrightarrow>
      vwKv v' (nodePath (erPrefix e) (svName s) (ndId n)) = vwKv v (nodePath (erPrefix e) (svName s) (ndId n))"
    and "erRegister e' name = hash_of js (rec' name)"
    and "\<And>s. rec' name = Some s \<Longrightarrow> s \<in> S \<and> svName s = name \<and> (\<forall>n \<in> set (svNodes s). key_present js e' v' s n \<or> lease_lost e' v' name)"
  shows "reg_inv js S e' v' rec'"
  unfolding reg_inv_def
proof (intro conjI allI impI)
  show "rooted (erPrefix e')" using assms(1,3) by (simp add: reg_inv_def)
  show "ran (erLeases e') \<subseteq> vwUsed v'" by (rule assms(4))
  show "erRegister e' b = hash_of js (rec' b)" for b
    using assms(1,5,8) by (cases "b = name") (auto simp: reg_inv_def)
  fix b s
  assume r: "rec' b = Some s"
  have "s \<in> S \<and> svName s = b \<and> (\<forall>n \<in> set (svNodes s). key_present js e' v' s n \<or> lease_lost e' v' b)"
  proof (cases "b = name")
    case False
    with r assms(1,5) have s: "s \<in> S" "svName s = b" "\<forall>n \<in> set (svNodes s). key_present js e v s n \<or> lease_lost e v b"
      by (auto simp: reg_inv_def)
    have "lease_lost e' v' b" if "lease_lost e v b"
    proof -
      from that obtain i where i: "erLeases e b = Some i" "i \<notin> vwLive v" by (auto simp: lease_lost_def)
      then have "i \<in> vwUsed v" using assms(1) by (auto simp: reg_inv_def intro: ranI)
      with i assms(5) [OF False] assms(6) show ?thesis by (auto simp: lease_lost_def)
    qed
    moreover have "key_present js e' v' s n" if "key_present js e v s n" "n \<in> set (svNodes s)" for n
      using that assms(3) assms(5) [OF False] assms(7) [OF s(1), of n] s(2) False by (auto simp: key_present_def)
    ultimately show ?thesis using s by blast
  qed (use r assms(9) in simp)
  then show "s \<in> S" "svName s = b" "\<forall>n \<in> set (svNodes s). key_present js e' v' s n \<or> lease_lost e' v' b" by blast+
qed

lemma reg_inv_world:
  assumes "reg_inv js S e v rec" and "vwUsed v \<subseteq> vwUsed v'"
    and "\<And>s n. s \<in> S \<Longrightarrow> n \<in> set (svNodes s) \<Longrightarrow> key_present js e v s n \<Longrightarrow> key_present js e v' s n \<or> lease_lost e v' (svName s)"
    and "\<And>b. lease_lost e v b \<Longrightarrow> lease_lost e v' b"
  shows "reg_inv js S e v' rec"
proof -
  note inv = assms(1) [unfolded reg_inv_def]
  have "s \<in> S \<and> svName s = b \<and> (\<forall>n \<in> set (svNodes s). key_present js e v' s n \<or> lease_lost e v' b)" if "rec b = Some s" for b s
  proof -
    from inv that have s: "s \<in> S" "svName s = b" "\<forall>n \<in> set (svNodes s). key_present js e v s n \<or> lease_lost e v b" by blast+
    then show ?thesis using assms(3,4) by blast
  qed
  with inv assms(2) show ?thesis unfolding reg_inv_def by blast
qed

context etcd_store
begin

lemma register_keys:
  assumes "known_services js S" and "reg_inv js S e (view w) rec" and "s \<in> S" and "et_Register E js s opts e w = (None, e', w')"
  shows "reg_inv js S e' (view w') (rec(svName s \<mapsto> s)) \<and> erPrefix e' = erPrefix e \<and> (\<forall>n \<in> set (svNodes s). key_present js e' (view w') s n)"
proof -
  let ?name = "svName s" and ?pre = "erPrefix e"
  obtain h where h: "sjHash js (sjEncode js s) = Some (Inr h)" using assms(1,3) by (auto simp: known_services_def)
  from assms(1,3,4) h obtain lost w1 where rl: "refresh_lease E (erLeases e ?name) w = (Inr lost, w1)"
    by (auto simp: et_Register_def known_services_def split: prod.splits sum.splits if_splits)
  note v1 = refresh_lease_ok [OF rl]
  show ?thesis
  proof (cases "erRegister e ?name = Some h \<and> \<not> lost")
    case True
    with assms(3,4) h rl assms(1) have e: "e' = e" "w' = w1" by (auto simp: et_Register_def known_services_def)
    from True assms(2) obtain s0 where r0: "rec ?name = Some s0" "sjHash js (sjEncode js s0) = Some (Inr h)"
      using hash_of_Some [of js "rec ?name" h] unfolding reg_inv_def by auto
    with assms(2) have "s0 \<in> S" and k: "\<forall>n \<in> set (svNodes s0). key_present js e (view w) s0 n \<or> lease_lost e (view w) ?name"
      unfolding reg_inv_def by blast+
    with r0 have s0: "s0 = s" "rec ?name = Some s" using assms(1,3) h by (auto simp: known_services_def inj_on_def)
    have "\<not> lease_lost e (view w) ?name" using True v1 by (auto simp: lease_lost_def split: option.splits)
    with k s0 v1 e assms(2) show ?thesis by (auto simp: fun_upd_idem)
  next
    case False
    from assms(1,3) have ns: "svNodes s \<noteq> []" by (auto simp: known_services_def)
    obtain g w2 where g: "grant_lease E (rgoTTL (fold (\<lambda>f. f) opts \<lparr>rgoTTL = 0\<rparr>)) w1 = (g, w2)" by fastforce
    from assms(4) ns h rl False g obtain l where l: "g = Inr l" by (cases g) (simp_all add: et_Register_def)
    note g = g [unfolded l]
    obtain x w3 where p: "put_nodes E js ?pre s l (svNodes s) w2 = (x, w3)" by fastforce
    from assms(4) ns h rl False g p have x: "x = None" "w3 = w'"
      and e': "e' = e\<lparr>erRegister := (erRegister e)(?name \<mapsto> h), erLeases := (case l of None \<Rightarrow> erLeases e | Some i \<Rightarrow> (erLeases e)(?name \<mapsto> i))\<rparr>"
      by (cases x; simp add: et_Register_def)+
    note p = p [unfolded x]
    note v2 = grant_lease_ok [OF g] and v3 = put_nodes_ok [OF p]
    let ?key = "\<lambda>n. nodePath ?pre ?name (ndId n)"
    have root: "rooted ?pre" using assms(2) by (simp add: reg_inv_def)
    note d = node_paths_distinct [OF assms(1,3) root]
    have kp: "key_present js e' (view w') s n" if "n \<in> set (svNodes s)" for n
      using fold_put_keys [OF d that, of "\<lambda>n. (sjEncode js (node_service s n), l)"] v3 e' by (auto simp: key_present_def split: option.splits)
    have ov: "vwLive (view w') \<inter> vwUsed (view w) = vwLive (view w)" and us: "vwUsed (view w) \<subseteq> vwUsed (view w')"
      using v1 v2 v3 live_used [of w] by (auto split: option.splits)
    have "reg_inv js S e' (view w') (rec(?name \<mapsto> s))"
    proof (rule reg_inv_frame [OF assms(2,1), where name = ?name])
      show "ran (erLeases e') \<subseteq> vwUsed (view w')"
      proof -
        have "ran (erLeases e) \<subseteq> vwUsed (view w)" using assms(2) by (simp add: reg_inv_def)
        then show ?thesis using us v2 v3 e' by (auto simp: ran_def split: option.splits if_splits)
      qed
      show "vwKv (view w') (nodePath ?pre (svName s') (ndId n)) = vwKv (view w) (nodePath ?pre (svName s') (ndId n))"
        if "s' \<in> S" "svName s' \<noteq> ?name" "n \<in> set (svNodes s')" for s' n
        using fold_put_other [OF node_paths_apart [OF assms(1) that(1) assms(3) root that(2,3)]] v1 v2 v3 by simp
    qed (use e' ov kp assms(3) h in \<open>auto split: option.splits\<close>)
    with kp e' show ?thesis by simp
  qed
qed

lemma register_fails:
  assumes "known_services js S" and "reg_inv js S e (view w) rec" and "s \<in> S" and "rec (svName s) \<in> {None, Some s}"
    and "et_Register E js s opts e w = (Some err, e', w')"
  shows "reg_inv js S e' (view w') rec"
proof -
  let ?name = "svName s" and ?pre = "erPrefix e"
  obtain h where h: "sjHash js (sjEncode js s) = Some (Inr h)" and ns: "svNodes s \<noteq> []" using assms(1,3) by (auto simp: known_services_def)
  obtain r w1 where rl: "refresh_lease E (erLeases e ?name) w = (r, w1)" by fastforce
  show ?thesis
  proof (cases r)
    case (Inl er)
    then have "view w1 = view w" using rl keep_ok keep_lost
      by (auto simp: refresh_lease_def split: option.splits prod.splits if_splits)
    with Inl assms(2,5) rl ns show ?thesis by (auto simp: et_Register_def)
  next
    case (Inr lost)
    note v1 = refresh_lease_ok [OF rl [unfolded Inr]]
    have put: "\<not> (erRegister e ?name = Some h \<and> \<not> lost)" using assms(5) h ns rl Inr by (auto simp: et_Register_def split: if_splits)
    obtain g w2 where g: "grant_lease E (rgoTTL (fold (\<lambda>f. f) opts \<lparr>rgoTTL = 0\<rparr>)) w1 = (g, w2)" by fastforce
    obtain x w3 where p: "put_nodes E js ?pre s (projr g) (svNodes s) w2 = (x, w3)" by fastforce
    have w': "e' = e" "w' = w2 \<or> w' = w3" using assms(5) h ns rl Inr put g p
      by (cases g; cases x; auto simp: et_Register_def)+
    note v2 = grant_lease_any [OF g] and v3 = put_nodes_any [OF p]
    have ov: "vwLive (view w') \<inter> vwUsed (view w) = vwLive (view w)" and us: "vwUsed (view w) \<subseteq> vwUsed (view w')"
      and kv: "\<And>k. k \<notin> (\<lambda>n. nodePath ?pre ?name (ndId n)) ` set (svNodes s) \<Longrightarrow> vwKv (view w') k = vwKv (view w) k"
      using w'(2) v1 v2 v3 by auto
    have root: "rooted ?pre" and le: "ran (erLeases e) \<subseteq> vwUsed (view w)" and reg: "\<And>b. erRegister e b = hash_of js (rec b)"
      and names: "\<And>b t. rec b = Some t \<Longrightarrow> t \<in> S \<and> svName t = b" using assms(2) by (auto simp: reg_inv_def)
    have "reg_inv js S e (view w') rec"
    proof (rule reg_inv_frame [OF assms(2,1), where name = ?name])
      show "vwKv (view w') (nodePath ?pre (svName s') (ndId n)) = vwKv (view w) (nodePath ?pre (svName s') (ndId n))"
        if "s' \<in> S" "svName s' \<noteq> ?name" "n \<in> set (svNodes s')" for s' n
        using kv [OF node_paths_apart [OF assms(1) that(1) assms(3) root that(2,3)]] .
      fix t
      assume t: "rec ?name = Some t"
      with assms(4) have "t = s" by auto
      with t reg [of ?name] h have "erRegister e ?name = Some h" by simp
      with put v1 obtain i where i: "erLeases e ?name = Some i" "i \<notin> vwLive (view w)" by (auto split: option.splits)
      moreover have "i \<in> vwUsed (view w)" using i le by (auto intro: ranI)
      ultimately have "lease_lost e (view w') ?name" using ov by (auto simp: lease_lost_def)
      with names [OF t] show "t \<in> S \<and> svName t = ?name \<and> (\<forall>n \<in> set (svNodes t). key_present js e (view w') t n \<or> lease_lost e (view w') ?name)"
        by blast
    qed (use ov us le reg in auto)
    then show ?thesis by (simp add: w'(1))
  qed
qed

lemma deregister_keys:
  assumes "known_services js S" and "reg_inv js S e (view w) rec" and "s \<in> S" and "et_Deregister E s e w = (err, e', w')"
  shows "reg_inv js S e' (view w') (rec(svName s := None))"
proof -
  let ?name = "svName s" and ?pre = "erPrefix e"
  from assms(1,3,4) have e': "e' = e\<lparr>erRegister := (erRegister e)(?name := None), erLeases := (erLeases e)(?name := None)\<rparr>"
    and d: "delete_nodes E ?pre ?name (svNodes s) w = (err, w')"
    by (auto simp: et_Deregister_def known_services_def Let_def split: prod.splits)
  note v = delete_nodes_any [OF d]
  have root: "rooted ?pre" using assms(2) by (simp add: reg_inv_def)
  show ?thesis
  proof (rule reg_inv_frame [OF assms(2,1), where name = ?name])
    have "ran (erLeases e) \<subseteq> vwUsed (view w)" using assms(2) by (simp add: reg_inv_def)
    then show "ran (erLeases e') \<subseteq> vwUsed (view w')" using v e' by (auto simp: ran_def split: if_splits)
    show "vwKv (view w') (nodePath ?pre (svName s') (ndId n)) = vwKv (view w) (nodePath ?pre (svName s') (ndId n))"
      if "s' \<in> S" "svName s' \<noteq> ?name" "n \<in> set (svNodes s')" for s' n
      using v node_paths_apart [OF assms(1) that(1) assms(3) root that(2,3)] by blast
  qed (use e' v live_used [of w] in auto)
qed

lemma reg_step_inv:
  assumes "reg_step E js view S x y" and "known_services js S" and "reg_inv js S (rzReg x) (view (rzWorld x)) (rzLast x)"
  shows "reg_inv js S (rzReg y) (view (rzWorld y)) (rzLast y)"
  using assms
proof (cases rule: reg_step.cases)
  case (rstep_register s opts e w)
  then show ?thesis using register_keys [OF assms(2,3)] by simp
next
  case (rstep_register_fails s opts err e w)
  then show ?thesis using register_fails [OF assms(2,3)] by simp
next
  case (rstep_deregister s err' e w)
  then show ?thesis using deregister_keys [OF assms(2,3)] by simp
next
  case (rstep_expire w)
  let ?v = "view (rzWorld x)"
  have kp: "key_present js (rzReg x) (view w) s n \<or> lease_lost (rzReg x) (view w) (svName s)" if "key_present js (rzReg x) ?v s n" for s n
    using that rstep_expire(2)
    by (cases "erLeases (rzReg x) (svName s)") (auto simp: key_present_def lease_lost_def expires_def split: if_splits)
  have ll: "lease_lost (rzReg x) (view w) b" if "lease_lost (rzReg x) ?v b" for b
    using that rstep_expire(2) by (auto simp: lease_lost_def expires_def)
  have "reg_inv js S (rzReg x) (view w) (rzLast x)"
    by (rule reg_inv_world [OF assms(3)]) (use kp ll rstep_expire(2) in \<open>auto simp: expires_def\<close>)
  then show ?thesis by (simp add: rstep_expire(1))
next
  case (rstep_others w)
  let ?v = "view (rzWorld x)" and ?e = "rzReg x"
  have kp: "key_present js ?e (view w) s n" if "key_present js ?e ?v s n" "s \<in> S" "n \<in> set (svNodes s)" for s n
  proof -
    have "nodePath (erPrefix ?e) (svName s) (ndId n) \<in> node_keys (erPrefix ?e) S" using that by (auto simp: node_keys_def)
    with that(1) rstep_others(2) show ?thesis by (simp add: key_present_def others_act_def)
  qed
  have ll: "lease_lost ?e (view w) b" if "lease_lost ?e ?v b" for b
    using that rstep_others(2) assms(3) by (fastforce simp: lease_lost_def others_act_def reg_inv_def intro: ranI)
  have "reg_inv js S ?e (view w) (rzLast x)"
    by (rule reg_inv_world [OF assms(3)]) (use kp ll rstep_others(2) in \<open>auto simp: others_act_def\<close>)
  then show ?thesis by (simp add: rstep_others(1))
qed

end

lemma add_service_version:
  "s' \<in> set ss \<Longrightarrow> \<exists>t \<in> set (add_service sn ss). svVersion t = svVersion s' \<and> set (svNodes s') \<subseteq> set (svNodes t)"
  by (induction sn ss rule: add_service.induct) auto

lemma add_service_new: "\<exists>t \<in> set (add_service sn ss). svVersion t = svVersion sn \<and> set (svNodes sn) \<subseteq> set (svNodes t)"
  by (induction sn ss rule: add_service.induct) auto

lemma merge_services_fold:
  assumes "(\<exists>t \<in> set ss. svVersion t = ver \<and> n \<in> set (svNodes t)) \<or>
    (\<exists>k v sn. (k, v) \<in> set kvs \<and> sjDecode js v = Some sn \<and> svVersion sn = ver \<and> n \<in> set (svNodes sn))"
  shows "\<exists>t \<in> set (fold (\<lambda>(k, v) ss. case sjDecode js v of None \<Rightarrow> ss | Some sn \<Rightarrow> add_service sn ss) kvs ss).
    svVersion t = ver \<and> n \<in> set (svNodes t)"
  using assms
proof (induction kvs arbitrary: ss)
  case (Cons a kvs)
  obtain k v where a: "a = (k, v)" by (cases a)
  let ?ss = "case sjDecode js v of None \<Rightarrow> ss | Some sn \<Rightarrow> add_service sn ss"
  have "(\<exists>t \<in> set ?ss. svVersion t = ver \<and> n \<in> set (svNodes t)) \<or>
    (\<exists>k v sn. (k, v) \<in> set kvs \<and> sjDecode js v = Some sn \<and> svVersion sn = ver \<and> n \<in> set (svNodes sn))"
    using Cons.prems a add_service_version [of _ ss] add_service_new [of _ ss] by (fastforce split: option.split)
  from Cons.IH [OF this] show ?case by (simp add: a)
qed simp

lemma add_service_versions: "distinct (map svVersion ss) \<Longrightarrow> distinct (map svVersion (add_service sn ss)) \<and>
    svVersion ` set (add_service sn ss) = insert (svVersion sn) (svVersion ` set ss)"
  by (induction sn ss rule: add_service.induct) auto

lemma merge_services_versions: "distinct (map svVersion (merge_services js kvs))"
proof -
  have "distinct (map svVersion ss) \<Longrightarrow>
    distinct (map svVersion (fold (\<lambda>(k, v) ss. case sjDecode js v of None \<Rightarrow> ss | Some sn \<Rightarrow> add_service sn ss) kvs ss))" for ss
    by (induction kvs arbitrary: ss) (auto simp: add_service_versions split: option.split)
  then show ?thesis by (simp add: merge_services_def)
qed

lemma has_prefix_append [simp]: "has_prefix p (p @ q)"
  by (simp add: has_prefix_def)

lemma same_version_nodes:
  assumes "distinct (map svVersion ss)" and "ns \<noteq> []" and "\<And>n. n \<in> set ns \<Longrightarrow> \<exists>t \<in> set ss. svVersion t = ver \<and> n \<in> set (svNodes t)"
  shows "\<exists>t \<in> set ss. svVersion t = ver \<and> set ns \<subseteq> set (svNodes t)"
proof -
  obtain t where t: "t \<in> set ss" "svVersion t = ver" using assms(2) assms(3) [of "hd ns"] by auto
  have "n \<in> set (svNodes t)" if n: "n \<in> set ns" for n
  proof -
    obtain t' where "t' \<in> set ss" "svVersion t' = ver" "n \<in> set (svNodes t')" using assms(3) [OF n] by auto
    moreover have "inj_on svVersion (set ss)" using assms(1) by (simp add: distinct_map)
    ultimately show ?thesis using t by (metis inj_onD)
  qed
  with t show ?thesis by blast
qed

context etcd_store
begin

lemma get_registered:
  assumes "known_services js S" and "s \<in> S" and root: "rooted (erPrefix e)" and kp: "\<forall>n \<in> set (svNodes s). key_present js e (view w) s n"
    and g: "etGet E (servicePath (erPrefix e) (svName s) @ ''/'') w = (Inr kvs, w')"
  shows "\<exists>t \<in> set (merge_services js kvs). svVersion t = svVersion s \<and> set (svNodes s) \<subseteq> set (svNodes t)"
proof (rule same_version_nodes [OF merge_services_versions])
  let ?dir = "servicePath (erPrefix e) (svName s) @ ''/''"
  show "svNodes s \<noteq> []" using assms(1,2) by (auto simp: known_services_def)
  fix n
  assume n: "n \<in> set (svNodes s)"
  then have pl: "plain_name (svName s)" "plain_name (ndId n)"
    and dec: "sjDecode js (sjEncode js (node_service s n)) = Some (node_service s n)" using assms(1,2) by (auto simp: known_services_def)
  have "nodePath (erPrefix e) (svName s) (ndId n) = ?dir @ no_slash (ndId n)"
    using nodePath_dir [OF root pl] servicePath_dir [OF root pl(1)] by simp
  moreover obtain l where "vwKv (view w) (nodePath (erPrefix e) (svName s) (ndId n)) = Some (sjEncode js (node_service s n), l)"
    using kp n by (auto simp: key_present_def)
  ultimately have "has_prefix ?dir (?dir @ no_slash (ndId n)) \<and>
      (\<exists>l. vwKv (view w) (?dir @ no_slash (ndId n)) = Some (sjEncode js (node_service s n), l))"
    using has_prefix_append [of ?dir "no_slash (ndId n)"] by simp
  then have "(?dir @ no_slash (ndId n), sjEncode js (node_service s n)) \<in> set kvs" using get_ok [OF g] by blast
  with dec show "\<exists>t \<in> set (merge_services js kvs). svVersion t = svVersion s \<and> n \<in> set (svNodes t)"
    unfolding merge_services_def by (intro merge_services_fold) (force simp: node_service_def)
qed

lemma reg_reach_inv:
  assumes "(reg_step E js view S)\<^sup>*\<^sup>* x y" and "known_services js S" and "reg_inv js S (rzReg x) (view (rzWorld x)) (rzLast x)"
  shows "reg_inv js S (rzReg y) (view (rzWorld y)) (rzLast y)"
  using assms(1)
proof (induction rule: rtranclp_induct)
  case (step a b)
  then show ?case using reg_step_inv assms(2) by blast
qed (rule assms(3))

end

text \<open>C23. A process registers, updates and deregisters services, one call after the other, while leases run out at any moment and
  other clients use etcd for keys other than those of its nodes. Calls of \<open>Deregister\<close> may fail, and so may calls of \<open>Register\<close>
  that do not change the contents of a registered service; a failed update of a registered service is excluded. Whenever
  \<open>Register\<close> then returns without an error, whether it has written the keys or found that nothing had changed, \<open>GetService\<close>
  finds the service: it fails only if etcd fails to answer, and what it returns has one service for each
  version, of which the one with the registered version has all registered nodes. In particular a lease that was lost is
  noticed and the keys are written again.\<close>

theorem register_get:
  assumes "etcd_store E view" and "known_services js S" and "rooted (erPrefix (rzReg x))"
    and "erRegister (rzReg x) = Map.empty" and "erLeases (rzReg x) = Map.empty" and "rzLast x = Map.empty"
    and "(reg_step E js view S)\<^sup>*\<^sup>* x y" and "s \<in> S" and "et_Register E js s opts (rzReg y) (rzWorld y) = (None, e, w)"
    and "\<And>ss. mset (ord ss) = mset ss" and "et_GetService E js ord (svName s) e w = (r, w')"
  shows "(\<exists>err. r = Inl err \<and> fst (etGet E (servicePath (erPrefix e) (svName s) @ ''/'') w) = Inl err) \<or>
    (\<exists>ss. r = Inr ss \<and> distinct (map svVersion ss) \<and> (\<exists>t \<in> set ss. svVersion t = svVersion s \<and> set (svNodes s) \<subseteq> set (svNodes t)))"
proof -
  let ?dir = "servicePath (erPrefix e) (svName s) @ ''/''"
  have "reg_inv js S (rzReg x) (view (rzWorld x)) (rzLast x)" using assms(3-6) by (simp add: reg_inv_def)
  from etcd_store.register_keys [OF assms(1,2) etcd_store.reg_reach_inv [OF assms(1,7,2) this] assms(8,9)]
  have root: "rooted (erPrefix e)" and kp: "\<forall>n \<in> set (svNodes s). key_present js e (view w) s n"
    unfolding reg_inv_def by blast+
  obtain g w2 where g: "etGet E ?dir w = (g, w2)" by fastforce
  show ?thesis
  proof (cases g)
    case (Inl err)
    with g assms(11) show ?thesis by (simp add: et_GetService_def)
  next
    case (Inr kvs)
    let ?ss = "merge_services js kvs"
    from etcd_store.get_registered [OF assms(1,2,8) root kp g [unfolded Inr]]
    have t: "\<exists>t \<in> set ?ss. svVersion t = svVersion s \<and> set (svNodes s) \<subseteq> set (svNodes t)" .
    then have "kvs \<noteq> []" by (auto simp: merge_services_def)
    with g Inr assms(11) have r: "r = Inr (ord ?ss)" by (auto simp: et_GetService_def)
    have "mset (map svVersion (ord ?ss)) = mset (map svVersion ?ss)" using assms(10) by simp
    then have "distinct (map svVersion (ord ?ss))" using merge_services_versions mset_eq_imp_distinct_iff by blast
    moreover have "set (ord ?ss) = set ?ss" using assms(10) by (rule mset_eq_setD)
    ultimately show ?thesis using r t by simp
  qed
qed

subsection \<open>A store in memory\<close>

record mem_etcd =
  meKv :: "(string \<times> string \<times> int option) list"
  meLive :: "int list"
  meNext :: int

definition me_live :: "mem_etcd \<Rightarrow> int \<Rightarrow> bool" where
  "me_live w i \<longleftrightarrow> i \<in> set (meLive w) \<and> i < meNext w"

definition me_get :: "mem_etcd \<Rightarrow> string \<Rightarrow> (string \<times> int option) option" where
  "me_get w k =
     (case map_of (meKv w) k of
        Some (v, Some i) \<Rightarrow> if me_live w i then Some (v, Some i) else None
      | x \<Rightarrow> x)"

definition me_view :: "mem_etcd \<Rightarrow> etcd_view" where
  "me_view w = \<lparr>vwKv = me_get w, vwLive = {i. me_live w i}, vwUsed = {i. i < meNext w}\<rparr>"

definition me_keys :: "string \<Rightarrow> mem_etcd \<Rightarrow> string list" where
  "me_keys p w = rev (sort (filter (\<lambda>k. has_prefix p k \<and> me_get w k \<noteq> None) (remdups (map fst (meKv w)))))"

definition me_visible :: "mem_etcd \<Rightarrow> (string \<times> string \<times> int option) list" where
  "me_visible w = map (\<lambda>k. (k, the (me_get w k))) (filter (\<lambda>k. me_get w k \<noteq> None) (map fst (meKv w)))"

definition mem_store :: "mem_etcd etcd" where
  "mem_store =
     \<lparr>etGet = (\<lambda>p w. (Inr (map (\<lambda>k. (k, fst (the (me_get w k)))) (me_keys p w)), w)),
      etPut = (\<lambda>k v l w. if (case l of None \<Rightarrow> True | Some i \<Rightarrow> me_live w i) then (None, w\<lparr>meKv := AList.update k (v, l) (meKv w)\<rparr>)
         else (Some (GoErr lease_not_found), w)),
      etDelete = (\<lambda>k w. (None, w\<lparr>meKv := AList.delete k (meKv w)\<rparr>)),
      etGrant = (\<lambda>t w. (Inr (meNext w), w\<lparr>meKv := me_visible w, meLive := meNext w # filter (\<lambda>i. i < meNext w) (meLive w), meNext := meNext w + 1\<rparr>)),
      etKeepAliveOnce = (\<lambda>i w. (if me_live w i then None else Some (GoErr lease_not_found), w))\<rparr>"

lemma me_get_dom: "me_get w k \<noteq> None \<Longrightarrow> k \<in> fst ` set (meKv w)"
  by (auto simp: me_get_def map_of_eq_None_iff split: option.splits if_splits dest!: map_of_SomeD) (force+)

lemma me_get_delete: "me_get (w\<lparr>meKv := AList.delete k (meKv w)\<rparr>) = (me_get w)(k := None)"
  by (rule ext) (auto simp: me_get_def me_live_def delete_conv' split: option.split)

lemma me_keys_set: "k \<in> set (me_keys p w) \<longleftrightarrow> has_prefix p k \<and> me_get w k \<noteq> None"
  using me_get_dom [of w k] by (auto simp: me_keys_def)

lemma me_keys_order: "distinct (me_keys p w)" "sorted (rev (me_keys p w))"
  by (simp_all add: me_keys_def)

lemma map_of_visible: "map_of (me_visible w) = me_get w"
proof
  fix k
  show "map_of (me_visible w) k = me_get w k"
    using me_get_dom [of w k] by (cases "me_get w k") (force simp: me_visible_def map_of_map_restrict restrict_map_def comp_def)+
qed

lemma me_get_live: "me_get w k = Some (v, Some i) \<Longrightarrow> me_live w i"
  by (auto simp: me_get_def split: option.splits if_splits)

interpretation mes: etcd_store mem_store me_view
proof
  fix w w' :: mem_etcd and k v :: string and i t :: int and l p kvs err
  show "etPut mem_store k v l w = (Some err, w') \<Longrightarrow>
      me_view w' = me_view w \<or> me_view w' = (me_view w)\<lparr>vwKv := (vwKv (me_view w))(k \<mapsto> (v, l))\<rparr>"
    by (auto simp: mem_store_def split: if_splits)
  show "etDelete mem_store k w = (Some err, w') \<Longrightarrow>
      me_view w' = me_view w \<or> me_view w' = (me_view w)\<lparr>vwKv := (vwKv (me_view w))(k := None)\<rparr>"
    by (simp add: mem_store_def)
  show "etGrant mem_store t w = (Inl err, w') \<Longrightarrow> me_view w' = me_view w \<or>
      (\<exists>i. i \<notin> vwUsed (me_view w) \<and>
        me_view w' = (me_view w)\<lparr>vwLive := insert i (vwLive (me_view w)), vwUsed := insert i (vwUsed (me_view w))\<rparr>)"
    by (simp add: mem_store_def)
  show "vwKv (me_view w) k = Some (v, Some i) \<Longrightarrow> i \<in> vwLive (me_view w)"
    by (auto simp: me_view_def me_get_def split: option.splits if_splits)
  show "vwLive (me_view w) \<subseteq> vwUsed (me_view w)" by (auto simp: me_view_def me_live_def)
  show "etPut mem_store k v l w = (None, w') \<Longrightarrow> me_view w' = (me_view w)\<lparr>vwKv := (vwKv (me_view w))(k \<mapsto> (v, l))\<rparr>"
    by (auto simp: mem_store_def me_view_def me_get_def me_live_def update_conv fun_eq_iff split: if_splits option.splits)
  show "etDelete mem_store k w = (None, w') \<Longrightarrow> me_view w' = (me_view w)\<lparr>vwKv := (vwKv (me_view w))(k := None)\<rparr>"
    using me_get_delete [where w = w and k = k] by (auto simp: mem_store_def me_view_def me_live_def)
  show "etGet mem_store p w = (Inr kvs, w') \<Longrightarrow> me_view w' = me_view w \<and> distinct (map fst kvs) \<and> sorted (rev (map fst kvs)) \<and>
      (\<forall>k v. (k, v) \<in> set kvs \<longleftrightarrow> has_prefix p k \<and> (\<exists>l. vwKv (me_view w) k = Some (v, l)))"
    using me_keys_order [of p w] me_keys_set [of _ p w] by (auto simp: mem_store_def me_view_def comp_def image_iff)
  show "etGrant mem_store t w = (Inr i, w') \<Longrightarrow> i \<notin> vwUsed (me_view w) \<and>
      me_view w' = (me_view w)\<lparr>vwLive := insert i (vwLive (me_view w)), vwUsed := insert i (vwUsed (me_view w))\<rparr>"
  proof -
    assume "etGrant mem_store t w = (Inr i, w')"
    then have i: "i = meNext w" and w': "w' = w\<lparr>meKv := me_visible w, meLive := i # filter (\<lambda>i. i < meNext w) (meLive w), meNext := i + 1\<rparr>"
      by (auto simp: mem_store_def)
    have l: "me_live w' j \<longleftrightarrow> j = i \<or> me_live w j" for j by (auto simp: w' i me_live_def)
    have "map_of (meKv w') = me_get w" by (simp add: w' map_of_visible)
    then have "me_get w' k = me_get w k" for k
      unfolding me_get_def [of w'] using me_get_live [of w k] by (auto simp: l split: option.splits)
    then show ?thesis using l by (auto simp: me_view_def fun_eq_iff i w' me_live_def)
  qed
  show "etKeepAliveOnce mem_store i w = (None, w') \<Longrightarrow> i \<in> vwLive (me_view w) \<and> me_view w' = me_view w"
    by (auto simp: mem_store_def me_view_def split: if_splits)
  show "etKeepAliveOnce mem_store i w = (Some err, w') \<Longrightarrow>
      me_view w' = me_view w \<and> (EqualFold (errText err) lease_not_found \<longrightarrow> i \<notin> vwLive (me_view w))"
    by (auto simp: mem_store_def me_view_def split: if_splits)
qed

definition ex_s :: Service where
  "ex_s = \<lparr>svName = ''a/b'', svVersion = ''1'', svMetadata = None, svEndpoints = [],
     svNodes = [\<lparr>ndId = ''n'', ndAddress = ''h'', ndPort = 80, ndMetadata = None\<rparr>]\<rparr>"

definition ex_js :: service_json where
  "ex_js = \<lparr>sjEncode = \<lambda>_. ''s'', sjDecode = \<lambda>_. Some ex_s, sjHash = \<lambda>_. Some (Inr 7)\<rparr>"

definition ex_sys :: "mem_etcd reg_sys" where
  "ex_sys = \<lparr>rzReg = snd (et_NewRegistry (\<lambda>c. Inr ()) [] ''/micro-registry''), rzWorld = \<lparr>meKv = [], meLive = [], meNext = 1\<rparr>, rzLast = Map.empty\<rparr>"

lemma ex_known: "known_services ex_js {ex_s}"
  by (simp add: known_services_def ex_s_def ex_js_def plain_name_def node_service_def)

lemma ex_path: "nodePath ''/micro-registry'' ''a/b'' ''n'' = ''/micro-registry/a-b/n''"
  by (simp add: nodePath_def path_Join_def path_Clean_def path_parts_def clean_part_def no_slash_def Let_def)

theorem register_get_witness:
  "\<exists>y e w ss w'. (reg_step mem_store ex_js me_view {ex_s})\<^sup>*\<^sup>* ex_sys y \<and> rzLast y ''a/b'' = Some ex_s \<and>
    vwKv (me_view (rzWorld y)) ''/micro-registry/a-b/n'' = None \<and>
    et_Register mem_store ex_js ex_s [RegisterTTL (5 * 10 ^ 9)] (rzReg y) (rzWorld y) = (None, e, w) \<and>
    et_GetService mem_store ex_js (\<lambda>ss. ss) ''a/b'' e w = (Inr ss, w') \<and>
    (\<exists>t \<in> set ss. svVersion t = ''1'' \<and> set (svNodes ex_s) \<subseteq> set (svNodes t))"
proof -
  let ?opts = "[RegisterTTL (5 * 10 ^ 9)]"
  let ?R = "\<lambda>e w. et_Register mem_store ex_js ex_s ?opts e w"
  note reg = et_Register_def refresh_lease_def grant_lease_def mem_store_def ex_js_def ex_s_def RegisterTTL_def me_live_def ex_path
    et_NewRegistry_def et_configure_def ex_sys_def
  obtain e1 w1 where r1: "?R (rzReg ex_sys) (rzWorld ex_sys) = (None, e1, w1)" and e1: "erLeases e1 ''a/b'' = Some 1" "erPrefix e1 = ''/micro-registry''"
    "meKv w1 = [(''/micro-registry/a-b/n'', ''s'', Some 1)]"
    by (simp add: reg me_visible_def Let_def)
  let ?w2 = "w1\<lparr>meLive := []\<rparr>"
  let ?y1 = "\<lparr>rzReg = e1, rzWorld = w1, rzLast = (rzLast ex_sys)(svName ex_s \<mapsto> ex_s)\<rparr>"
  let ?y = "?y1\<lparr>rzWorld := ?w2\<rparr>"
  have exp: "expires (me_view (rzWorld ?y1)) (me_view ?w2)"
    by (auto simp: expires_def me_view_def me_get_def me_live_def split: option.split)
  have st: "(reg_step mem_store ex_js me_view {ex_s})\<^sup>*\<^sup>* ex_sys ?y"
  proof -
    have "reg_step mem_store ex_js me_view {ex_s} ex_sys ?y1" by (rule rstep_register [OF _ r1]) simp
    moreover have "reg_step mem_store ex_js me_view {ex_s} ?y1 ?y" by (rule rstep_expire [OF exp])
    ultimately show ?thesis by (meson converse_rtranclp_into_rtranclp r_into_rtranclp)
  qed
  have gone: "vwKv (me_view (rzWorld ?y)) ''/micro-registry/a-b/n'' = None"
    using e1 by (simp add: me_view_def me_get_def me_live_def)
  obtain e w where r2: "?R (rzReg ?y) (rzWorld ?y) = (None, e, w)"
    using e1 by (simp add: reg EqualFold_def Let_def)
  obtain r w' where g: "et_GetService mem_store ex_js (\<lambda>ss. ss) (svName ex_s) e w = (r, w')" by fastforce
  have i: "rooted (erPrefix (rzReg ex_sys))" "erRegister (rzReg ex_sys) = Map.empty" "erLeases (rzReg ex_sys) = Map.empty" "rzLast ex_sys = Map.empty"
    by (simp_all add: ex_sys_def et_NewRegistry_def et_configure_def rooted_def Let_def)
  from register_get [OF mes.etcd_store_axioms ex_known i st _ r2 refl g]
  obtain ss where "r = Inr ss" "\<exists>t \<in> set ss. svVersion t = svVersion ex_s \<and> set (svNodes ex_s) \<subseteq> set (svNodes t)"
    by (auto simp: mem_store_def)
  then show ?thesis using st gone r2 g
    by (intro exI [of _ ?y] exI [of _ e] exI [of _ w] exI [of _ ss] exI [of _ w']) (simp add: ex_s_def)
qed

subsection \<open>What a watcher reports\<close>

lemma next_loop_shorter: "next_loop js closed rs = Some (x, rs') \<Longrightarrow> rs \<noteq> [] \<Longrightarrow> length rs' < length rs"
proof (induction js closed rs arbitrary: rs' rule: next_loop.induct)
  case (3 js closed evs rs)
  show ?case
  proof (cases "first_result js evs = Some None")
    case True
    with 3 show ?thesis by (cases rs) (fastforce split: if_splits)+
  qed (use 3 in \<open>auto split: option.splits\<close>)
qed auto

function watch_results :: "service_json \<Rightarrow> bool \<Rightarrow> (goerr + etcd_event list) list \<Rightarrow> Result list" where
  \<comment> \<open>what \<open>Next\<close> returns, call after call, until it fails or waits\<close>
  "watch_results js closed rs =
     (if rs = [] then []
      else case next_loop js closed rs of Some (Inr r, rs') \<Rightarrow> r # watch_results js closed rs' | _ \<Rightarrow> [])"
  by pat_completeness auto
termination by (relation "measure (\<lambda>(_, _, rs). length rs)") (auto simp: next_loop_shorter)

declare watch_results.simps [simp del]

definition event_results :: "service_json \<Rightarrow> etcd_event list \<Rightarrow> Result list" where
  \<comment> \<open>all that the events of a response say\<close>
  "event_results js evs = List.map_filter (\<lambda>ev. case event_service js ev of
      Some (action, Some s) \<Rightarrow> Some \<lparr>resAction = action, resService = Some s\<rparr> | _ \<Rightarrow> None) evs"

lemma first_result_hd:
  assumes "\<forall>ev \<in> set evs. event_service js ev \<noteq> None"
  shows "first_result js evs = Some (if event_results js evs = [] then None else Some (hd (event_results js evs)))"
  using assms by (induction evs) (auto simp: event_results_def map_filter_simps split: option.splits)

text \<open>Of each response of etcd a watcher reports the first event only: call after call, \<open>Next\<close> returns for every response that has a
  readable event the first such event, and the others are never reported. A response with several events, such as the deletion of all keys of a lease that
  has run out, is therefore not seen in full.\<close>

lemma watch_first_events:
  assumes "\<forall>evs \<in> set responses. \<forall>ev \<in> set evs. event_service js ev \<noteq> None"
  shows "watch_results js closed (map Inr responses) = map hd (filter (\<lambda>rs. rs \<noteq> []) (map (event_results js) responses))"
  using assms
proof (induction responses)
  case (Cons evs responses)
  then have f: "first_result js evs = Some (if event_results js evs = [] then None else Some (hd (event_results js evs)))"
    by (simp add: first_result_hd)
  show ?case
  proof (cases "event_results js evs = []")
    case True
    have "watch_results js closed (map Inr (evs # responses)) = watch_results js closed (map Inr responses)"
      using True f by (subst (1 2) watch_results.simps) (simp split: option.splits)
    with Cons True show ?thesis by simp
  next
    case False
    have "watch_results js closed (map Inr (evs # responses)) = hd (event_results js evs) # watch_results js closed (map Inr responses)"
      using False f by (subst watch_results.simps) simp
    with Cons False show ?thesis by simp
  qed
qed (simp add: watch_results.simps)

end
