(* ===== verification/ServiceRun.thy ===== *)
theory ServiceRun
  imports Etcd NetUtil
begin

text \<open>
  \<^verbatim>\<open>service-wrapper/service.go\<close>, \<^verbatim>\<open>options.go\<close> and \<^verbatim>\<open>wrapper.go\<close>: a web service that registers itself while it runs.

  Representation. The registry is a record of its two operations on a world \<open>'w\<close>, and whether one is set is an option. The handler of requests (gin) and the
  HTTP server are outside: of the engine only matters whether there is one, and of the server whether it has been started and when
  its serving ends with an error. The addresses of the network interfaces are an argument. \<open>Run\<close>, the goroutine that serves and the one that renews
  the registration are interleaved by the steps of \<open>sw_step\<close>; when a ticker fires, a signal arrives or a context is cancelled is up to the environment.
\<close>

subsection \<open>Options\<close>

datatype go_ctx = NilCtx | TodoCtx | CancelCtx

record sw_options =
  soAddress :: string
  soAdvertise :: string
  soName :: string
  soVersion :: string
  soId :: string
  soMetadata :: "(string \<rightharpoonup> string) option"
  soDescription :: string
  soServiceInfo :: "Service option"
  soRegistry :: bool
  soRegisterTTL :: int
  soRegisterInterval :: int
  soEngine :: bool
  soSecure :: bool
  soTLSConfig :: "string \<times> string"
  soContext :: go_ctx
  soShutdownTimeout :: int
  soReadTimeout :: int
  soWriteTimeout :: int

definition sw_newOptions :: "string \<Rightarrow> (sw_options \<Rightarrow> sw_options) list \<Rightarrow> sw_options" where
  \<comment> \<open>given the identifier drawn when the package is loaded; durations in nanoseconds\<close>
  "sw_newOptions uuid opts =
     fold id opts
       \<lparr>soAddress = '':0'', soAdvertise = [], soName = ''gin-web'', soVersion = ''latest'', soId = uuid, soMetadata = None, soDescription = [],
        soServiceInfo = None, soRegistry = False, soRegisterTTL = 60 * 10 ^ 9, soRegisterInterval = 15 * 10 ^ 9, soEngine = False, soSecure = False,
        soTLSConfig = ([], []), soContext = TodoCtx, soShutdownTimeout = 3 * 10 ^ 9, soReadTimeout = 5 * 10 ^ 9, soWriteTimeout = 5 * 10 ^ 9\<rparr>"

definition sw_Name :: "string \<Rightarrow> sw_options \<Rightarrow> sw_options" where
  "sw_Name n o' = o'\<lparr>soName := n\<rparr>"

definition sw_Id :: "string \<Rightarrow> sw_options \<Rightarrow> sw_options" where
  "sw_Id i o' = o'\<lparr>soId := i\<rparr>"

definition sw_Version :: "string \<Rightarrow> sw_options \<Rightarrow> sw_options" where
  "sw_Version v o' = o'\<lparr>soVersion := v\<rparr>"

definition sw_Metadata :: "(string \<rightharpoonup> string) \<Rightarrow> sw_options \<Rightarrow> sw_options" where
  "sw_Metadata md o' = o'\<lparr>soMetadata := Some md\<rparr>"

definition sw_Address :: "string \<Rightarrow> sw_options \<Rightarrow> sw_options" where
  "sw_Address a o' = o'\<lparr>soAddress := a\<rparr>"

definition sw_Advertise :: "string \<Rightarrow> sw_options \<Rightarrow> sw_options" where
  "sw_Advertise a o' = o'\<lparr>soAdvertise := a\<rparr>"

definition sw_Description :: "string \<Rightarrow> sw_options \<Rightarrow> sw_options" where
  "sw_Description a o' = o'\<lparr>soDescription := a\<rparr>"

definition sw_Context :: "go_ctx \<Rightarrow> sw_options \<Rightarrow> sw_options" where
  "sw_Context ctx o' = o'\<lparr>soContext := ctx\<rparr>"


definition sw_RegisterTTL :: "int \<Rightarrow> sw_options \<Rightarrow> sw_options" where
  "sw_RegisterTTL t o' = o'\<lparr>soRegisterTTL := t\<rparr>"

definition sw_RegisterInterval :: "int \<Rightarrow> sw_options \<Rightarrow> sw_options" where
  "sw_RegisterInterval t o' = o'\<lparr>soRegisterInterval := t\<rparr>"

definition sw_Engine :: "bool \<Rightarrow> sw_options \<Rightarrow> sw_options" where
  "sw_Engine g o' = o'\<lparr>soEngine := g\<rparr>"

definition sw_ServiceInfo :: "Service option \<Rightarrow> sw_options \<Rightarrow> sw_options" where
  "sw_ServiceInfo s o' = o'\<lparr>soServiceInfo := s\<rparr>"

definition sw_Secure :: "bool \<Rightarrow> sw_options \<Rightarrow> sw_options" where
  "sw_Secure b o' = o'\<lparr>soSecure := b\<rparr>"

definition sw_TLSConfig :: "string \<times> string \<Rightarrow> sw_options \<Rightarrow> sw_options" where
  "sw_TLSConfig t o' = o'\<lparr>soTLSConfig := t\<rparr>"

definition sw_ReadTimeout :: "int \<Rightarrow> sw_options \<Rightarrow> sw_options" where
  "sw_ReadTimeout t o' = o'\<lparr>soReadTimeout := t\<rparr>"

definition sw_WriteTimeout :: "int \<Rightarrow> sw_options \<Rightarrow> sw_options" where
  "sw_WriteTimeout t o' = o'\<lparr>soWriteTimeout := t\<rparr>"

definition sw_ShutdownTimeout :: "int \<Rightarrow> sw_options \<Rightarrow> sw_options" where
  "sw_ShutdownTimeout t o' = o'\<lparr>soShutdownTimeout := t\<rparr>"

subsection \<open>The service\<close>

datatype notify_chan = NotifyEmpty | NotifyErr string | NotifyClosed

datatype server_state = ServerNew | ServerRunning | ServerStopping | ServerDone

record sw_service =
  swOpts :: sw_options
  swServerAddr :: string
  swServer :: server_state
  swNotify :: notify_chan
  swSrv :: "Service option"
  swRunning :: bool

definition host_port :: "string \<Rightarrow> string \<times> int" where
  \<comment> \<open>the address cut at its last colon; \<open>Atoi\<close> gives 0 or a bound with its error, which is ignored\<close>
  "host_port a =
     (let parts = split_at_char (CHR '':'') a in (join_with '':'' (butlast parts), ParseInt (last parts)))"

definition advertised :: "string \<Rightarrow> string \<Rightarrow> string \<times> int" where
  \<comment> \<open>the host and port to publish\<close>
  "advertised address advertise =
     (let (host, port) = host_port address
      in if length advertise > 0 then
           (let parts = split_at_char (CHR '':'') advertise
            in if length parts > 1 then
                 (let (ahost, aport) = host_port advertise in (ahost, if aport > 0 then aport else port))
               else (hd parts, port))
         else (host, port))"

definition genSrv :: "goerr + raw_addr list \<Rightarrow> sw_options \<Rightarrow> Service \<times> sw_options" where
  "genSrv ifaces o' =
     (let (host, port) = advertised (soAddress o') (soAdvertise o');
          addr = (case Extract ifaces host of Inl _ \<Rightarrow> ''127.0.0.1'' | Inr a \<Rightarrow> a)
      in (\<lparr>svName = soName o', svVersion = soVersion o', svMetadata = Some [''serverDescription'' \<mapsto> soDescription o'], svEndpoints = [],
           svNodes = [\<lparr>ndId = ''go.micro.api.media-proxy-'', ndAddress = addr, ndPort = port, ndMetadata = soMetadata o'\<rparr>]\<rparr>,
          o'\<lparr>soAddress := addr @ '':'' @ itoa port, soEngine := True\<rparr>))"

definition newService :: "goerr + raw_addr list \<Rightarrow> string \<Rightarrow> (sw_options \<Rightarrow> sw_options) list \<Rightarrow> sw_service" where
  "newService ifaces uuid opts =
     (let o' = sw_newOptions uuid opts;
          (srv, o') = (case soServiceInfo o' of Some s \<Rightarrow> (s, o') | None \<Rightarrow> genSrv ifaces o')
      in \<lparr>swOpts = o', swServerAddr = soAddress o', swServer = ServerNew, swNotify = NotifyEmpty, swSrv = Some srv, swRunning = False\<rparr>)"










datatype reg_call = CallRegister | CallDeregister










subsection \<open>The published address\<close>

lemma join_split: "join_with [c] (split_at_char c s) = s"
proof (induction s)
  case (Cons x s)
  then show ?case by (cases "split_at_char c s"; cases "tl (split_at_char c s)") (auto simp: neq_Nil_conv)
qed simp

lemma itoa_no_colon: "0 \<le> i \<Longrightarrow> CHR '':'' \<notin> set (itoa i)"
  using digits_digit [of "CHR '':''" "nat i"] by (auto simp: itoa_def is_digit_def)

lemma host_port_joined:
  assumes "0 \<le> p" and "p < 2 ^ 63"
  shows "host_port (h @ '':'' @ itoa p) = (h, p)"
  using assms by (simp add: host_port_def split_append split_none itoa_no_colon join_split ParseInt_itoa)

definition plain_host :: "string \<Rightarrow> bool" where
  "plain_host h \<longleftrightarrow> h \<noteq> [] \<and> h \<noteq> ''0.0.0.0'' \<and> h \<noteq> ''[::]''"

lemma Extract_plain: "plain_host h \<Longrightarrow> Extract ifaces h = Inr h"
  by (simp add: Extract_def plain_host_def)

text \<open>The address that a service publishes: with an address of the form host and port and nothing to advertise, the node that is registered and the server have
  that address. With an address to advertise, the registered node has it; but so has the server, and the address to bind to is not used at all.\<close>

lemma published_address:
  assumes "plain_host h" and "0 \<le> p" and "p < 2 ^ 63" and "plain_host h'" and "0 < p'" and "p' < 2 ^ 63"
  shows "(\<exists>n. map_option svNodes (swSrv (newService ifaces uuid [sw_Address (h @ '':'' @ itoa p)])) = Some [n] \<and> ndAddress n = h \<and> ndPort n = p \<and>
      swServerAddr (newService ifaces uuid [sw_Address (h @ '':'' @ itoa p)]) = h @ '':'' @ itoa p) \<and>
    (\<exists>n. map_option svNodes (swSrv (newService ifaces uuid [sw_Address (h @ '':'' @ itoa p), sw_Advertise (h' @ '':'' @ itoa p')])) = Some [n] \<and>
      ndAddress n = h' \<and> ndPort n = p' \<and>
      swServerAddr (newService ifaces uuid [sw_Address (h @ '':'' @ itoa p), sw_Advertise (h' @ '':'' @ itoa p')]) = h' @ '':'' @ itoa p')"
proof -
  have "length (split_at_char (CHR '':'') h') > 0" "length (split_at_char (CHR '':'') (itoa p')) > 0" by simp_all
  then have len: "length (split_at_char (CHR '':'') (h' @ '':'' @ itoa p')) > 1" unfolding append.simps split_append length_append by linarith
  have "\<exists>n. map_option svNodes (swSrv (newService ifaces uuid [sw_Address (h @ '':'' @ itoa p)])) = Some [n] \<and> ndAddress n = h \<and> ndPort n = p \<and>
      swServerAddr (newService ifaces uuid [sw_Address (h @ '':'' @ itoa p)]) = h @ '':'' @ itoa p"
    using host_port_joined [OF assms(2,3), of h] Extract_plain [OF assms(1), of ifaces]
    by (simp add: newService_def sw_newOptions_def sw_Address_def genSrv_def advertised_def)
  moreover have "\<exists>n. map_option svNodes (swSrv (newService ifaces uuid [sw_Address (h @ '':'' @ itoa p), sw_Advertise (h' @ '':'' @ itoa p')])) = Some [n] \<and>
      ndAddress n = h' \<and> ndPort n = p' \<and>
      swServerAddr (newService ifaces uuid [sw_Address (h @ '':'' @ itoa p), sw_Advertise (h' @ '':'' @ itoa p')]) = h' @ '':'' @ itoa p'"
    using host_port_joined [OF assms(2,3), of h] host_port_joined [OF less_imp_le [OF assms(5)] assms(6), of h'] Extract_plain [OF assms(4), of ifaces] len assms(5)
    by (simp add: newService_def sw_newOptions_def sw_Address_def sw_Advertise_def genSrv_def advertised_def Let_def)
  ultimately show ?thesis by blast
qed

text \<open>All nodes made by \<open>genSrv\<close> have one identifier, so that in etcd instances of one service overwrite each other.\<close>

lemma generated_nodes_collide:
  assumes "soName o1 = soName o2" and "n1 \<in> set (svNodes (fst (genSrv i1 o1)))" and "n2 \<in> set (svNodes (fst (genSrv i2 o2)))"
  shows "nodePath pre (svName (fst (genSrv i1 o1))) (ndId n1) = nodePath pre (svName (fst (genSrv i2 o2))) (ndId n2)"
  using assms by (auto simp: genSrv_def Let_def split: prod.splits)

subsection \<open>The life of a registration\<close>


definition calls_are :: "nat \<Rightarrow> bool \<Rightarrow> nat \<Rightarrow> reg_call list \<Rightarrow> bool" where
  "calls_are n dereg k cs \<longleftrightarrow> cs = replicate n CallRegister @ (if dereg then CallDeregister # replicate k CallRegister else [])"

lemma calls_are_simps [simp]:
  "calls_are 0 False k []"
  "calls_are n False k cs \<Longrightarrow> calls_are (Suc n) False k' (cs @ [CallRegister])"
  "calls_are n False k cs \<Longrightarrow> calls_are n True 0 (cs @ [CallDeregister])"
  "calls_are n True k cs \<Longrightarrow> calls_are n True (Suc k) (cs @ [CallRegister])"
  by (simp_all add: calls_are_def replicate_append_same)











end
