(* ===== verification/LogFile.thy ===== *)
theory LogFile
  imports Paths ConnPool "HOL-Library.AList"
begin

text \<open>
  \<^verbatim>\<open>log/newlog/\<close> and \<^verbatim>\<open>log/log/\<close>: loggers that write lines to a file and rotate it, the newer one with a queue and a
  goroutine that writes behind the callers.

  Representation. A file is known by its directory, in the form \<open>filepath.Clean\<close> gives it, and its name; the name of a log is a
  plain name without slashes. A directory lists its entries with the inodes of its files, so that an open file keeps its inode
  when its name is moved. Text is a list of bytes, each a character. Which calls of the operating system fail is part of the
  state of the file system, as is how much a failing write has written. The sequence of all data written to files is kept
  beside them for the proofs. The shell that creates a missing directory is a parameter, as is the sorting of \<open>sort.Sort\<close>, which is not
  stable. Messages are given as the text that \<open>fmt\<close> makes of the arguments, and the formatted time is an argument.
\<close>

subsection \<open>Files and directories\<close>

datatype dirent = File nat | Subdir

datatype fs_call = FOpen "string \<times> string" | FWrite nat | FClose nat | FReadDir string | FRename string string string | FRemove string string | FStat string string

record handle =
  hdDir :: string
  hdName :: string
  hdInode :: nat

record log_fs =
  lfDirs :: "string \<Rightarrow> (string \<times> dirent) list option"
  lfData :: "nat \<Rightarrow> string"
  lfNext :: nat
  lfFail :: "fs_call \<Rightarrow> goerr option"
  lfPart :: nat
  lfTrace :: "string list"

definition lf_OpenFile :: "string \<Rightarrow> string \<Rightarrow> log_fs \<Rightarrow> (goerr + handle) \<times> log_fs" where
  \<comment> \<open>for appending, creating the file if it does not exist\<close>
  "lf_OpenFile d n fs =
     (case lfFail fs (FOpen (d, n)) of
        Some e \<Rightarrow> (Inl e, fs)
      | None \<Rightarrow>
          (case lfDirs fs d of
             None \<Rightarrow> (Inl (GoErr ''no such file or directory''), fs)
           | Some es \<Rightarrow>
               (case map_of es n of
                  Some (File i) \<Rightarrow> (Inr \<lparr>hdDir = d, hdName = n, hdInode = i\<rparr>, fs)
                | Some Subdir \<Rightarrow> (Inl (GoErr ''is a directory''), fs)
                | None \<Rightarrow>
                    (Inr \<lparr>hdDir = d, hdName = n, hdInode = lfNext fs\<rparr>,
                     fs\<lparr>lfDirs := (lfDirs fs)(d \<mapsto> AList.update n (File (lfNext fs)) es),
                        lfData := (lfData fs)(lfNext fs := []), lfNext := lfNext fs + 1\<rparr>))))"

definition lf_Write :: "handle option \<Rightarrow> string \<Rightarrow> log_fs \<Rightarrow> goerr option \<times> log_fs" where
  \<comment> \<open>writing to a nil file is an error\<close>
  "lf_Write h data fs =
     (case h of
        None \<Rightarrow> (Some (GoErr ''invalid argument''), fs)
      | Some h \<Rightarrow>
          (let (e, part) = (case lfFail fs (FWrite (hdInode h)) of None \<Rightarrow> (None, data) | Some e \<Rightarrow> (Some e, take (lfPart fs) data))
           in (e, fs\<lparr>lfData := (lfData fs)(hdInode h := lfData fs (hdInode h) @ part), lfTrace := lfTrace fs @ [part]\<rparr>)))"

definition lf_ReadDir :: "string \<Rightarrow> log_fs \<Rightarrow> goerr + (string \<times> dirent) list" where
  "lf_ReadDir d fs =
     (case lfFail fs (FReadDir d) of
        Some e \<Rightarrow> Inl e
      | None \<Rightarrow> (case lfDirs fs d of None \<Rightarrow> Inl (GoErr ''no such file or directory'') | Some es \<Rightarrow> Inr es))"

definition lf_Remove :: "string \<Rightarrow> string \<Rightarrow> log_fs \<Rightarrow> goerr option \<times> log_fs" where
  "lf_Remove d n fs =
     (case lfFail fs (FRemove d n) of
        Some e \<Rightarrow> (Some e, fs)
      | None \<Rightarrow>
          (case lfDirs fs d of
             None \<Rightarrow> (Some (GoErr ''no such file or directory''), fs)
           | Some es \<Rightarrow>
               if map_of es n = None then (Some (GoErr ''no such file or directory''), fs)
               else (None, fs\<lparr>lfDirs := (lfDirs fs)(d \<mapsto> AList.delete n es)\<rparr>)))"

definition lf_Rename :: "string \<Rightarrow> string \<Rightarrow> string \<Rightarrow> log_fs \<Rightarrow> goerr option \<times> log_fs" where
  \<comment> \<open>within a directory; an existing file of the new name is replaced\<close>
  "lf_Rename d a b fs =
     (case lfFail fs (FRename d a b) of
        Some e \<Rightarrow> (Some e, fs)
      | None \<Rightarrow>
          (case lfDirs fs d of
             None \<Rightarrow> (Some (GoErr ''no such file or directory''), fs)
           | Some es \<Rightarrow>
               (case map_of es a of
                  None \<Rightarrow> (Some (GoErr ''no such file or directory''), fs)
                | Some x \<Rightarrow>
                    if map_of es b = Some Subdir then (Some (GoErr ''file exists''), fs)
                    else (None, fs\<lparr>lfDirs := (lfDirs fs)(d \<mapsto> AList.update b x (AList.delete a es))\<rparr>))))"

subsection \<open>Events\<close>

definition DebugLevel :: int where "DebugLevel = 0"

definition InfoLevel :: int where "InfoLevel = 1"

definition WarnLevel :: int where "WarnLevel = 2"

definition ErrorLevel :: int where "ErrorLevel = 3"

definition FatalLevel :: int where "FatalLevel = 4"

definition Levels :: "int \<Rightarrow> string" where
  \<comment> \<open>the map of level names; a missing level reads as the empty string\<close>
  "Levels l =
     (if l = DebugLevel then ''debug'' else if l = InfoLevel then ''info'' else if l = WarnLevel then ''warn''
      else if l = ErrorLevel then ''error'' else if l = FatalLevel then ''fatal'' else [])"

record log_event =
  evTimestamp :: string
  evLevel :: int
  evKey :: string
  evFields :: string
  evMessage :: string

definition generateLogInfo :: "log_event \<Rightarrow> string" where
  "generateLogInfo e =
     ''['' @ evTimestamp e @ ''] '' @ ''['' @ evFields e @ ''] '' @ ''['' @ Levels (evLevel e) @ ''] - [log/output.go] - ['' @
     evKey e @ ''] - '' @ evMessage e @ [CHR 0x0A]"

subsection \<open>The queue behind the callers\<close>

record log_pool =
  plQueue :: "log_event list"
  plSize :: nat
  plCurrent :: nat
  plBuffer :: string
  plTimer :: bool
  plClosed :: bool

definition log_newPool :: "int \<Rightarrow> int \<Rightarrow> log_pool option" where
  \<comment> \<open>\<open>make\<close> panics for a negative size\<close>
  "log_newPool poolSize bufferSize =
     (if poolSize < 0 \<or> bufferSize < 0 then None
      else Some \<lparr>plQueue = [], plSize = nat poolSize, plCurrent = 0, plBuffer = replicate (nat bufferSize) (CHR 0x00),
                 plTimer = True, plClosed = False\<rparr>)"

datatype enc_case = EncClosed | EncQueued | EncTimeout

definition pl_enc :: "enc_case \<Rightarrow> log_event \<Rightarrow> log_pool \<Rightarrow> ((goerr option \<times> bool) \<times> log_pool) option" where
  \<comment> \<open>\<open>None\<close>: the case of the select is not ready, or the timer is gone; the timer may run out at any moment, and a tick of an
    earlier run may still be in its channel. A queue of size 0, where a send meets the receiver, is outside the model.\<close>
  "pl_enc c event p =
     (if \<not> plTimer p then None
      else case c of
        EncClosed \<Rightarrow> if plClosed p then Some ((Some (GoErr ''the log event pool is closed''), False), p) else None
      | EncQueued \<Rightarrow> if length (plQueue p) < plSize p then Some ((None, False), p\<lparr>plQueue := plQueue p @ [event]\<rparr>) else None
      | EncTimeout \<Rightarrow> Some ((None, True), p))"

definition pl_write :: "string \<Rightarrow> (string \<Rightarrow> 'w \<Rightarrow> goerr option \<times> 'w) \<Rightarrow> log_pool \<Rightarrow> 'w \<Rightarrow> log_pool \<times> 'w" where
  \<comment> \<open>the length of the buffer is its length as a slice, which \<open>append\<close> sets\<close>
  "pl_write data full p w =
     (let (p, w) = (if plCurrent p + length data > length (plBuffer p) then
                      (p\<lparr>plCurrent := 0\<rparr>, snd (full (take (plCurrent p) (plBuffer p)) w))
                    else (p, w))
      in (p\<lparr>plBuffer := take (plCurrent p) (plBuffer p) @ data, plCurrent := plCurrent p + length data\<rparr>, w))"

definition pl_flush :: "(string \<Rightarrow> 'w \<Rightarrow> goerr option \<times> 'w) \<Rightarrow> log_pool \<Rightarrow> 'w \<Rightarrow> log_pool \<times> 'w" where
  "pl_flush full p w =
     (if plCurrent p > 0 then
        (p\<lparr>plCurrent := 0, plBuffer := []\<rparr>, snd (full (take (plCurrent p) (plBuffer p)) w))
      else (p, w))"

definition pl_close :: "log_pool \<Rightarrow> log_pool option" where
  \<comment> \<open>closing twice panics\<close>
  "pl_close p = (if plClosed p then None else Some (p\<lparr>plClosed := True, plTimer := False\<rparr>))"

subsection \<open>Options\<close>

record OutputOptions =
  ooName :: string
  ooDir :: string

record AsyncOptions =
  aoEnabled :: bool
  aoPoolSize :: int
  aoBufferSize :: int
  aoFlushNum :: int
  aoWriteTimeout :: int
  aoFlushInterval :: int

definition OutputName :: "string \<Rightarrow> OutputOptions \<Rightarrow> OutputOptions" where
  "OutputName name o' = o'\<lparr>ooName := name\<rparr>"

definition OutputDir :: "string \<Rightarrow> OutputOptions \<Rightarrow> OutputOptions" where
  "OutputDir dir o' = o'\<lparr>ooDir := dir\<rparr>"

definition EnableAsync :: "bool \<Rightarrow> AsyncOptions \<Rightarrow> AsyncOptions" where
  "EnableAsync enabled a = a\<lparr>aoEnabled := enabled\<rparr>"

definition log_PoolSize :: "int \<Rightarrow> AsyncOptions \<Rightarrow> AsyncOptions" where
  "log_PoolSize poolSize a = a\<lparr>aoPoolSize := poolSize\<rparr>"

definition BufferSize :: "int \<Rightarrow> AsyncOptions \<Rightarrow> AsyncOptions" where
  "BufferSize bufferSize a = a\<lparr>aoBufferSize := bufferSize\<rparr>"

definition FlushNum :: "int \<Rightarrow> AsyncOptions \<Rightarrow> AsyncOptions" where
  "FlushNum flushNum a = a\<lparr>aoFlushNum := flushNum\<rparr>"

definition WriteTimeout :: "int \<Rightarrow> AsyncOptions \<Rightarrow> AsyncOptions" where
  "WriteTimeout timeout a = a\<lparr>aoWriteTimeout := timeout\<rparr>"

definition FlushInterval :: "int \<Rightarrow> AsyncOptions \<Rightarrow> AsyncOptions" where
  "FlushInterval flushInterval a = a\<lparr>aoFlushInterval := flushInterval\<rparr>"

definition DefaultOutputName :: string where "DefaultOutputName = ''server.log''"

definition NewOutputOptions :: "(OutputOptions \<Rightarrow> OutputOptions) list \<Rightarrow> OutputOptions" where
  "NewOutputOptions opts =
     (let options = fold id opts \<lparr>ooName = [], ooDir = []\<rparr>
      in if length (ooName options) = 0 then options\<lparr>ooName := DefaultOutputName\<rparr> else options)"

definition or_default :: "int \<Rightarrow> int \<Rightarrow> int" where
  "or_default v d = (if v = 0 then d else v)"

definition NewAsyncOptions :: "(AsyncOptions \<Rightarrow> AsyncOptions) list \<Rightarrow> AsyncOptions" where
  \<comment> \<open>durations in nanoseconds\<close>
  "NewAsyncOptions opts =
     (let a = fold id opts \<lparr>aoEnabled = False, aoPoolSize = 0, aoBufferSize = 0, aoFlushNum = 0, aoWriteTimeout = 0, aoFlushInterval = 0\<rparr>
      in if aoEnabled a then
           a\<lparr>aoPoolSize := or_default (aoPoolSize a) 100, aoBufferSize := or_default (aoBufferSize a) (1024 * 1000 * 2),
             aoFlushNum := or_default (aoFlushNum a) 1000, aoWriteTimeout := or_default (aoWriteTimeout a) (10 * 10 ^ 6),
             aoFlushInterval := or_default (aoFlushInterval a) (5000 * 10 ^ 6)\<rparr>
         else a)"

subsection \<open>The output\<close>

record log_output =
  loErr :: "goerr option"
  loDirs :: string
  loFile :: "handle option"
  loCurrent :: int
  loOutputs :: OutputOptions
  loAsync :: AsyncOptions
  loPool :: "log_pool option"

type_synonym shell = "string \<Rightarrow> log_fs \<Rightarrow> log_fs"

definition clean_dir :: "string \<Rightarrow> string" where
  \<comment> \<open>\<open>filepath.Dir\<close> of the path that a file of the directory is opened with\<close>
  "clean_dir d = (if d = [] then ''.'' else path_Clean d)"

definition pathExists :: "string \<Rightarrow> log_fs \<Rightarrow> bool" where
  \<comment> \<open>of a directory; the error is ignored where it is called\<close>
  "pathExists d fs = (lfFail fs (FStat d []) = None \<and> lfDirs fs (path_Clean d) \<noteq> None)"

definition openLogFile :: "shell \<Rightarrow> OutputOptions \<Rightarrow> log_fs \<Rightarrow> (goerr + handle) \<times> log_fs" where
  "openLogFile bash options fs =
     (let fs = (if length (ooDir options) \<noteq> 0 \<and> \<not> pathExists (ooDir options) fs then bash (''mkdir -p  '' @ ooDir options) fs else fs)
      in lf_OpenFile (clean_dir (ooDir options)) (ooName options) fs)"

definition wrap32 :: "int \<Rightarrow> int" where
  "wrap32 x = signed_take_bit 31 x"

definition wrap64 :: "int \<Rightarrow> int" where
  "wrap64 x = signed_take_bit 63 x"

definition refreshFileSize :: "handle \<Rightarrow> log_fs \<Rightarrow> int" where
  \<comment> \<open>\<open>Stat\<close> of an open file does not fail; in units of 1024 bytes\<close>
  "refreshFileSize h fs = wrap32 (int (length (lfData fs (hdInode h))) div 1024)"

definition NewOutput :: "shell \<Rightarrow> (OutputOptions \<Rightarrow> OutputOptions) list \<Rightarrow> log_fs \<Rightarrow> (log_output \<times> log_fs) option" where
  \<comment> \<open>\<open>None\<close>: the panic when the file cannot be opened\<close>
  "NewOutput bash opts fs =
     (let options = NewOutputOptions opts
      in case openLogFile bash options fs of
           (Inl e, fs) \<Rightarrow> None
         | (Inr file, fs) \<Rightarrow>
             Some (\<lparr>loErr = None, loDirs = hdDir file, loFile = Some file, loCurrent = refreshFileSize file fs,
                    loOutputs = options, loAsync = NewAsyncOptions [], loPool = None\<rparr>, fs))"

definition NewOutput2 :: "shell \<Rightarrow> OutputOptions \<Rightarrow> AsyncOptions \<Rightarrow> log_fs \<Rightarrow> (log_output \<times> log_fs) option" where
  "NewOutput2 bash outputs asyncOption fs =
     (case openLogFile bash outputs fs of
        (Inl e, fs) \<Rightarrow> None
      | (Inr file, fs) \<Rightarrow>
          let o' = \<lparr>loErr = None, loDirs = hdDir file, loFile = Some file, loCurrent = refreshFileSize file fs,
                    loOutputs = outputs, loAsync = NewAsyncOptions [], loPool = None\<rparr>
          in if aoEnabled asyncOption then do {
               p \<leftarrow> log_newPool (aoPoolSize asyncOption) (aoBufferSize asyncOption);
               Some (o'\<lparr>loAsync := asyncOption, loPool := Some p\<rparr>, fs)
             }
             else Some (o', fs))"

definition lo_close :: "log_output \<Rightarrow> log_fs \<Rightarrow> goerr option \<times> log_output" where
  \<comment> \<open>the result of \<open>Sync\<close> is ignored\<close>
  "lo_close o' fs =
     (case loFile o' of
        None \<Rightarrow> (loErr o', o')
      | Some h \<Rightarrow> (lfFail fs (FClose (hdInode h)), o'\<lparr>loFile := None\<rparr>))"

definition lo_Close :: "log_output \<Rightarrow> log_fs \<Rightarrow> goerr option \<times> log_output" where
  "lo_Close o' fs = lo_close o' fs"

definition lo_dir :: "log_output \<Rightarrow> log_output option" where
  \<comment> \<open>sets the directory, which is then read; with no file the name of it is read through nil\<close>
  "lo_dir o' =
     (if length (loDirs o') = 0 then (case loFile o' of None \<Rightarrow> None | Some h \<Rightarrow> Some (o'\<lparr>loDirs := hdDir h\<rparr>)) else Some o')"

definition openNew :: "log_output \<Rightarrow> log_fs \<Rightarrow> goerr option \<times> log_output \<times> log_fs" where
  "openNew o' fs =
     (case lf_OpenFile (loDirs o') (ooName (loOutputs o')) fs of
        (Inl e, fs) \<Rightarrow> (Some e, o'\<lparr>loFile := None\<rparr>, fs)
      | (Inr h, fs) \<Rightarrow> (None, o'\<lparr>loFile := Some h\<rparr>, fs))"

definition nextFileName :: "string \<Rightarrow> int \<Rightarrow> string" where
  "nextFileName name i = name @ ''.'' @ itoa (wrap64 (i + 1))"

record logInfo =
  liSequence :: int
  liName :: string

definition sequence_of :: "string \<Rightarrow> string \<Rightarrow> int" where
  \<comment> \<open>the sequence of a file that has the prefix; the character after the prefix is skipped and errors are ignored\<close>
  "sequence_of pre filename =
     (if length filename > length pre then
        (let ts = drop (length pre + 1) filename in if ts \<noteq> [] then ParseInt ts else 0)
      else 0)"

type_synonym info_sort = "logInfo list \<Rightarrow> logInfo list"

definition has_pre :: "string \<Rightarrow> string \<Rightarrow> bool" where
  \<comment> \<open>\<open>strings.HasPrefix(s, p)\<close>\<close>
  "has_pre p s \<longleftrightarrow> take (length p) s = p"

definition log_infos :: "string \<Rightarrow> (string \<times> dirent) list \<Rightarrow> logInfo list" where
  "log_infos pre files =
     map (\<lambda>(n, _). \<lparr>liSequence = sequence_of pre n, liName = n\<rparr>) (filter (\<lambda>(n, x). x \<noteq> Subdir \<and> has_pre pre n) files)"

definition oldLogFiles :: "info_sort \<Rightarrow> string \<Rightarrow> string \<Rightarrow> log_fs \<Rightarrow> goerr + logInfo list" where
  "oldLogFiles srt dir name fs =
     (case lf_ReadDir dir fs of
        Inl e \<Rightarrow> Inl (GoErr (''can't read log file directory: '' @ errText e))
      | Inr files \<Rightarrow> Inr (srt (log_infos name files)))"

definition DefaultFileMaxNum :: int where "DefaultFileMaxNum = 50"

definition DefaultFileSize :: int where "DefaultFileSize = 512 * 1000"

definition first_err :: "goerr option \<Rightarrow> goerr option \<Rightarrow> goerr option" where
  "first_err err e = (case err of None \<Rightarrow> e | Some _ \<Rightarrow> err)"

fun roll_files :: "int \<Rightarrow> string \<Rightarrow> string \<Rightarrow> logInfo list \<Rightarrow> goerr option \<Rightarrow> log_fs \<Rightarrow> goerr option \<times> log_fs" where
  "roll_files maxNum dir name [] err fs = (err, fs)"
| "roll_files maxNum dir name (f # files) err fs =
     (if wrap64 (liSequence f + 1) \<ge> maxNum then
        (let (e, fs) = lf_Remove dir (liName f) fs in roll_files maxNum dir name files (first_err err e) fs)
      else
        (let (e, fs) = lf_Rename dir (liName f) (nextFileName name (liSequence f)) fs in roll_files maxNum dir name files (first_err err e) fs))"

definition roll_begin :: "info_sort \<Rightarrow> log_output \<Rightarrow> log_fs \<Rightarrow> ((goerr option + logInfo list) \<times> log_output) option" where
  \<comment> \<open>the first half of \<open>rollRunOnce\<close>, up to the closing of the file: an early return, or the files to move\<close>
  "roll_begin srt o' fs = do {
     o' \<leftarrow> lo_dir o';
     case oldLogFiles srt (loDirs o') (ooName (loOutputs o')) fs of
       Inl e \<Rightarrow> Some (Inl (Some e), o')
     | Inr files \<Rightarrow>
         if length files < 1 then Some (Inl None, o')
         else
           (case lo_close o' fs of
              (Some e, o') \<Rightarrow> Some (Inl (Some e), o')
            | (None, o') \<Rightarrow> do { o' \<leftarrow> lo_dir o'; Some (Inr files, o') })
   }"

definition roll_end :: "int \<Rightarrow> logInfo list \<Rightarrow> log_output \<Rightarrow> log_fs \<Rightarrow> goerr option \<times> log_output \<times> log_fs" where
  "roll_end maxNum files o' fs =
     (let (err, fs) = roll_files maxNum (loDirs o') (ooName (loOutputs o')) files None fs
      in case openNew o' fs of
           (Some e, o', fs) \<Rightarrow> (Some e, o', fs)
         | (None, o', fs) \<Rightarrow> (err, o', fs))"

definition rollRunOnce :: "info_sort \<Rightarrow> int \<Rightarrow> log_output \<Rightarrow> log_fs \<Rightarrow> (goerr option \<times> log_output \<times> log_fs) option" where
  "rollRunOnce srt maxNum o' fs = do {
     (r, o') \<leftarrow> roll_begin srt o' fs;
     case r of
       Inl err \<Rightarrow> Some (err, o', fs)
     | Inr files \<Rightarrow> Some (roll_end maxNum files o' fs)
   }"

definition send_write :: "enc_case \<Rightarrow> log_event \<Rightarrow> bool \<Rightarrow> log_output \<Rightarrow> log_fs \<Rightarrow> (goerr option \<times> log_output \<times> log_fs) option" where
  \<comment> \<open>\<open>Send\<close> after the check of the size\<close>
  "send_write c e force o' fs = do {
     (err, o', fs) \<leftarrow>
       (case (loPool o', force) of
          (Some p, False) \<Rightarrow> do {
            ((err, timeout), p) \<leftarrow> pl_enc c e p;
            let o' = o'\<lparr>loPool := Some p\<rparr>;
            if timeout then (let (err, fs) = lf_Write (loFile o') (generateLogInfo e) fs in Some (err, o', fs))
            else Some (err, o', fs)
          }
        | _ \<Rightarrow> (let (err, fs) = lf_Write (loFile o') (generateLogInfo e) fs in Some (err, o', fs)));
     Some (err, (if err = None then o'\<lparr>loCurrent := wrap32 (loCurrent o' + 1)\<rparr> else o'), fs)
   }"

definition lo_Send ::
  "info_sort \<Rightarrow> int \<Rightarrow> int \<Rightarrow> enc_case \<Rightarrow> log_event \<Rightarrow> bool \<Rightarrow> log_output \<Rightarrow> log_fs \<Rightarrow> (goerr option \<times> log_output \<times> log_fs) option" where
  \<comment> \<open>the error of the rotation is only formatted\<close>
  "lo_Send srt maxNum fileSize c e force o' fs =
     (if loFile o' = None then Some (loErr o', o', fs)
      else do {
        (o', fs) \<leftarrow>
          (if loCurrent o' \<ge> fileSize then do {
             (_, o', fs) \<leftarrow> rollRunOnce srt maxNum o' fs;
             Some (o'\<lparr>loCurrent := 0\<rparr>, fs)
           }
           else Some (o', fs));
        send_write c e force o' fs
      })"

definition lo_persist :: "handle option \<Rightarrow> string \<Rightarrow> log_fs \<Rightarrow> goerr option \<times> log_fs" where
  "lo_persist file data fs = (if length data \<noteq> 0 then lf_Write file data fs else (None, fs))"

datatype process_case = ProcClosed | ProcTick | ProcEvent

definition lo_process :: "process_case \<Rightarrow> log_output \<Rightarrow> log_fs \<Rightarrow> (bool \<times> log_output \<times> log_fs) option" where
  \<comment> \<open>one round of the loop, with whether it ends; \<open>None\<close>: the case is not ready. A tick is ready at any moment.\<close>
  "lo_process c o' fs = do {
     p \<leftarrow> loPool o';
     case c of
       ProcClosed \<Rightarrow> if plClosed p then Some (True, o', fs) else None
     | ProcTick \<Rightarrow> (let (p, fs) = pl_flush (lo_persist (loFile o')) p fs in Some (False, o'\<lparr>loPool := Some p\<rparr>, fs))
     | ProcEvent \<Rightarrow>
         (case plQueue p of
            [] \<Rightarrow> None
          | e # q \<Rightarrow>
              (let (p, fs) = pl_write (generateLogInfo e) (lo_persist (loFile o')) (p\<lparr>plQueue := q\<rparr>) fs
               in Some (False, o'\<lparr>loPool := Some p\<rparr>, fs)))
   }"

subsection \<open>The logger\<close>

type_synonym 'w Output = "log_event \<Rightarrow> bool \<Rightarrow> 'w \<Rightarrow> (goerr option \<times> 'w) option"

record 'w log_os =
  osLevel :: int
  osFields :: string
  osOutput :: "'w Output option"

definition WithLevel :: "int \<Rightarrow> 'w log_os \<Rightarrow> 'w log_os" where
  "WithLevel l o' = o'\<lparr>osLevel := l\<rparr>"

definition WithFields :: "string \<Rightarrow> 'w log_os \<Rightarrow> 'w log_os" where
  "WithFields f o' = o'\<lparr>osFields := f\<rparr>"

definition WithOutput :: "'w Output \<Rightarrow> 'w log_os \<Rightarrow> 'w log_os" where
  "WithOutput ot o' = o'\<lparr>osOutput := Some ot\<rparr>"

definition os_Init :: "('w log_os \<Rightarrow> 'w log_os) list \<Rightarrow> 'w log_os \<Rightarrow> 'w log_os option" where
  "os_Init opts o' =
     (let o' = fold id opts (o'\<lparr>osLevel := InfoLevel\<rparr>) in if osOutput o' = None then None else Some o')"

definition log_newOS :: "('w log_os \<Rightarrow> 'w log_os) list \<Rightarrow> 'w log_os option" where
  "log_newOS opts = os_Init opts \<lparr>osLevel = 0, osFields = [], osOutput = None\<rparr>"

definition log_SetOption :: "('w log_os \<Rightarrow> 'w log_os) \<Rightarrow> 'w log_os \<Rightarrow> 'w log_os" where
  "log_SetOption opt o' = opt o'"

definition os_WithFields :: "string \<Rightarrow> 'w log_os \<Rightarrow> 'w log_os" where
  \<comment> \<open>the copy of the options has an array of its own, of one cell, which both loops set\<close>
  "os_WithFields f o' = (let options = o' in options\<lparr>osFields := f\<rparr>)"

definition os_log :: "bool \<Rightarrow> string \<Rightarrow> int \<Rightarrow> string \<Rightarrow> string \<Rightarrow> 'w log_os \<Rightarrow> 'w \<Rightarrow> (goerr option \<times> 'w) option" where
  \<comment> \<open>\<open>log\<close>, and \<open>logForce\<close> when \<open>force\<close> is set\<close>
  "os_log force timestamp level key msg o' w =
     (if level < osLevel o' then Some (None, w)
      else do {
        send \<leftarrow> osOutput o';
        send \<lparr>evTimestamp = timestamp, evLevel = level, evKey = key, evFields = osFields o', evMessage = msg\<rparr> force w
      })"

definition log_methods :: "(string \<times> int \<times> bool) list" where
  \<comment> \<open>the methods of the logger, with the level and whether the message is forced\<close>
  "log_methods =
     [(''Debug'', DebugLevel, False), (''Info'', InfoLevel, False), (''Warn'', WarnLevel, False), (''Error'', ErrorLevel, False),
      (''Fatal'', FatalLevel, False), (''Sys'', InfoLevel, True), (''Debugf'', DebugLevel, False), (''Infof'', InfoLevel, False),
      (''Printf'', InfoLevel, False), (''Warnf'', WarnLevel, False), (''Errorf'', ErrorLevel, False), (''Fatalf'', FatalLevel, False),
      (''DebugK'', DebugLevel, False), (''InfoK'', InfoLevel, False), (''WarnK'', WarnLevel, False), (''ErrorK'', ErrorLevel, False),
      (''FatalK'', FatalLevel, False)]"

definition os_call :: "string \<Rightarrow> string \<Rightarrow> string \<Rightarrow> string \<Rightarrow> 'w log_os \<Rightarrow> 'w \<Rightarrow> 'w option" where
  \<comment> \<open>a call of a method by its name, with a key or the empty key and the text of its arguments; the error is dropped\<close>
  "os_call name timestamp key text o' w = do {
     (level, force) \<leftarrow> map_of log_methods name;
     (_, w) \<leftarrow> os_log force timestamp level key text o' w;
     Some w
   }"

subsection \<open>Rotation\<close>

definition log_name :: "string \<Rightarrow> nat \<Rightarrow> string" where
  \<comment> \<open>the name of a log file by its age\<close>
  "log_name name k = (if k = 0 then name else name @ ''.'' @ itoa (int k))"

lemma itoa_not_Nil [simp]: "itoa i \<noteq> []"
  by (simp add: itoa_def)

lemma sequence_log_name [simp]: "k < 2 ^ 63 \<Longrightarrow> sequence_of name (log_name name k) = int k"
  by (simp add: sequence_of_def log_name_def ParseInt_itoa)

lemma log_name_inj [simp]: "log_name name j = log_name name k \<longleftrightarrow> j = k"
  by (auto simp: log_name_def dest: itoa_inj)

lemma log_name_prefix [simp]: "has_pre name (log_name name k)"
  by (simp add: has_pre_def log_name_def)

lemma wrap64_small: "k + 1 < 2 ^ 63 \<Longrightarrow> wrap64 (int k + 1) = int (Suc k)"
  unfolding wrap64_def by (subst signed_take_bit_int_eq_self) simp_all

lemma nextFileName_log_name: "k + 1 < 2 ^ 63 \<Longrightarrow> nextFileName name (int k) = log_name name (Suc k)"
  unfolding nextFileName_def log_name_def by (simp only: wrap64_small nat.distinct if_False)

definition no_fail :: "log_fs \<Rightarrow> bool" where
  "no_fail fs \<longleftrightarrow> lfFail fs = (\<lambda>_. None)"

definition dir_map :: "log_fs \<Rightarrow> string \<Rightarrow> string \<rightharpoonup> dirent" where
  "dir_map fs d = (case lfDirs fs d of None \<Rightarrow> Map.empty | Some es \<Rightarrow> map_of es)"

fun shift_names :: "nat \<Rightarrow> string \<Rightarrow> nat list \<Rightarrow> (string \<rightharpoonup> dirent) \<Rightarrow> (string \<rightharpoonup> dirent)" where
  \<comment> \<open>what the loop of \<open>rollRunOnce\<close> does to the entries of the directory\<close>
  "shift_names m name [] M = M"
| "shift_names m name (k # ks) M =
     shift_names m name ks
       (if Suc k \<ge> m then M(log_name name k := None) else (M(log_name name k := None))(log_name name (Suc k) := M (log_name name k)))"

lemma shift_names_log:
  assumes "sorted_wrt (>) ks"
  shows "shift_names m name ks M (log_name name j) =
    (if 0 < j \<and> j - 1 \<in> set ks \<and> j < m then M (log_name name (j - 1)) else if j \<in> set ks then None else M (log_name name j))"
  using assms
proof (induction ks arbitrary: M)
  case (Cons k ks)
  then show ?case by (cases "j - 1 = k"; cases j) auto
qed simp

lemma shift_names_other:
  "(\<And>k. n \<noteq> log_name name k) \<Longrightarrow> shift_names m name ks M n = M n"
  by (induction m name ks M rule: shift_names.induct) auto

lemma fs_frame [simp]:
  "no_fail (lfDirs_update f fs) = no_fail fs" "no_fail (lfData_update g fs) = no_fail fs" "no_fail (lfNext_update h fs) = no_fail fs"
  "no_fail (lfTrace_update t fs) = no_fail fs"
  by (simp_all add: no_fail_def)

lemma roll_files_shift:
  assumes "no_fail fs" and "lfDirs fs d = Some es" and "\<forall>k \<in> set ks. k + 1 < 2 ^ 63 \<and> log_name name k \<in> dom (map_of es)"
    and "\<forall>k. map_of es (log_name name k) \<noteq> Some Subdir" and "sorted_wrt (>) ks"
  shows "\<exists>es'. roll_files (int m) d name (map (\<lambda>k. \<lparr>liSequence = int k, liName = log_name name k\<rparr>) ks) None fs =
      (None, fs\<lparr>lfDirs := (lfDirs fs)(d \<mapsto> es')\<rparr>) \<and>
    map_of es' = shift_names m name ks (map_of es) \<and> (distinct (map fst es) \<longrightarrow> distinct (map fst es'))"
  using assms
proof (induction ks arbitrary: fs es)
  case Nil
  then have "(lfDirs fs)(d \<mapsto> es) = lfDirs fs" by auto
  then show ?case by (intro exI [of _ es]) simp
next
  case (Cons k ks)
  let ?n = "log_name name k" and ?n' = "log_name name (Suc k)"
  from Cons.prems obtain x where x: "map_of es ?n = Some x" by auto
  have k: "k + 1 < 2 ^ 63" "\<forall>j \<in> set ks. j < k" using Cons.prems by auto
  let ?es1 = "if Suc k \<ge> m then AList.delete ?n es else AList.update ?n' x (AList.delete ?n es)"
  let ?fs1 = "fs\<lparr>lfDirs := (lfDirs fs)(d \<mapsto> ?es1)\<rparr>"
  have M1: "map_of ?es1 = (if Suc k \<ge> m then (map_of es)(?n := None) else ((map_of es)(?n := None))(?n' := map_of es ?n))"
    using x by (simp add: AList.update_conv' AList.delete_conv')
  have step: "roll_files (int m) d name (map (\<lambda>k. \<lparr>liSequence = int k, liName = log_name name k\<rparr>) (k # ks)) None fs =
      roll_files (int m) d name (map (\<lambda>k. \<lparr>liSequence = int k, liName = log_name name k\<rparr>) ks) None ?fs1"
    using Cons.prems(1,2,4) x wrap64_small [OF k(1)] nextFileName_log_name [OF k(1)]
    by (simp add: lf_Remove_def lf_Rename_def no_fail_def first_err_def Let_def)
  have "\<exists>es'. roll_files (int m) d name (map (\<lambda>k. \<lparr>liSequence = int k, liName = log_name name k\<rparr>) ks) None ?fs1 =
      (None, ?fs1\<lparr>lfDirs := (lfDirs ?fs1)(d \<mapsto> es')\<rparr>) \<and>
    map_of es' = shift_names m name ks (map_of ?es1) \<and> (distinct (map fst ?es1) \<longrightarrow> distinct (map fst es'))"
  proof (rule Cons.IH)
    show "\<forall>j \<in> set ks. j + 1 < 2 ^ 63 \<and> log_name name j \<in> dom (map_of ?es1)"
      using Cons.prems(3) k(2) by (auto simp: M1 domIff)
    show "\<forall>j. map_of ?es1 (log_name name j) \<noteq> Some Subdir" using Cons.prems(4) x by (auto simp: M1)
  qed (use Cons.prems in auto)
  then obtain es' where IH: "roll_files (int m) d name (map (\<lambda>k. \<lparr>liSequence = int k, liName = log_name name k\<rparr>) ks) None ?fs1 =
      (None, ?fs1\<lparr>lfDirs := (lfDirs ?fs1)(d \<mapsto> es')\<rparr>)" "map_of es' = shift_names m name ks (map_of ?es1)"
    "distinct (map fst ?es1) \<longrightarrow> distinct (map fst es')" by blast
  have same: "?fs1\<lparr>lfDirs := (lfDirs ?fs1)(d \<mapsto> es')\<rparr> = fs\<lparr>lfDirs := (lfDirs fs)(d \<mapsto> es')\<rparr>" by simp
  have "distinct (map fst es) \<longrightarrow> distinct (map fst ?es1)" by (simp add: AList.distinct_update AList.distinct_delete)
  with IH(3) have "distinct (map fst es) \<longrightarrow> distinct (map fst es')" by blast
  moreover have "map_of es' = shift_names m name (k # ks) (map_of es)" using IH(2) unfolding shift_names.simps M1 .
  ultimately show ?case using trans [OF step IH(1) [unfolded same]] by blast
qed

definition sorts_infos :: "info_sort \<Rightarrow> bool" where
  "sorts_infos srt \<longleftrightarrow> (\<forall>xs. mset (srt xs) = mset xs \<and> sorted_wrt (\<lambda>a b. liSequence a \<ge> liSequence b) (srt xs))"

definition logs_ok :: "nat \<Rightarrow> string \<Rightarrow> string \<Rightarrow> log_fs \<Rightarrow> bool" where
  \<comment> \<open>the files with the name of the log as prefix are the log and its numbered predecessors\<close>
  "logs_ok m d name fs \<longleftrightarrow>
     (\<exists>es. lfDirs fs d = Some es \<and> distinct (map fst es)) \<and>
     (\<forall>n. has_pre name n \<longrightarrow> dir_map fs d n \<noteq> None \<longrightarrow> (\<exists>k i. n = log_name name k \<and> k < m \<and> dir_map fs d n = Some (File i) \<and> i < lfNext fs))"

definition log_text :: "log_fs \<Rightarrow> string \<Rightarrow> string \<Rightarrow> nat \<Rightarrow> string option" where
  \<comment> \<open>the contents of the log of an age\<close>
  "log_text fs d name k = (case dir_map fs d (log_name name k) of Some (File i) \<Rightarrow> Some (lfData fs i) | _ \<Rightarrow> None)"

lemma strict_descending:
  assumes "sorted_wrt (\<lambda>a b. f a \<ge> (f b :: 'b :: linorder)) xs" and "distinct (map f xs)"
  shows "sorted_wrt (\<lambda>a b. f a > f b) xs"
  using assms
proof (induction xs)
  case (Cons a xs)
  then have "f b < f a" if "b \<in> set xs" for b using that by (metis distinct.simps(2) imageI list.set_map list.simps(9) order_le_less sorted_wrt.simps(2))
  with Cons show ?case by simp
qed simp

lemma log_infos_ages:
  assumes "sorts_infos srt" and "logs_ok m d name fs" and "lfDirs fs d = Some es" and "m < 2 ^ 63"
  shows "\<exists>ks. srt (log_infos name es) = map (\<lambda>k. \<lparr>liSequence = int k, liName = log_name name k\<rparr>) ks \<and>
    sorted_wrt (>) ks \<and> set ks = {k. map_of es (log_name name k) \<noteq> None} \<and> (\<forall>k \<in> set ks. k < m)"
proof -
  let ?i = "\<lambda>k. \<lparr>liSequence = int k, liName = log_name name k\<rparr>"
  from assms(2,3) have es: "distinct (map fst es)"
    "\<And>n. has_pre name n \<Longrightarrow> map_of es n \<noteq> None \<Longrightarrow> \<exists>k i. n = log_name name k \<and> k < m \<and> map_of es n = Some (File i)"
    by (auto simp: logs_ok_def dir_map_def simp del: map_of_eq_None_iff) metis
  have el: "\<exists>k. f = ?i k \<and> k < m \<and> map_of es (log_name name k) \<noteq> None" if "f \<in> set (log_infos name es)" for f
  proof -
    from that obtain n x where n: "(n, x) \<in> set es" "has_pre name n" "f = \<lparr>liSequence = sequence_of name n, liName = n\<rparr>"
      by (auto simp: log_infos_def)
    then have "map_of es n \<noteq> None" by (metis weak_map_of_SomeI option.distinct(1))
    with es(2) [OF n(2)] n(3) assms(4) show ?thesis by force
  qed
  have age: "?i k \<in> set (log_infos name es)" if "map_of es (log_name name k) \<noteq> None" for k
  proof -
    from es(2) [OF log_name_prefix that] obtain i where "k < m" "map_of es (log_name name k) = Some (File i)" by auto
    then show ?thesis using map_of_SomeD [of es "log_name name k" "File i"] assms(4) by (force simp: log_infos_def)
  qed
  let ?xs = "srt (log_infos name es)"
  have xs: "set ?xs = set (log_infos name es)" "sorted_wrt (\<lambda>a b. liSequence a \<ge> liSequence b) ?xs" "mset ?xs = mset (log_infos name es)"
    using assms(1) by (auto simp: sorts_infos_def dest: mset_eq_setD)
  have "distinct (map liName (log_infos name es))"
    using es(1) by (auto simp: log_infos_def comp_def case_prod_unfold distinct_map_filter)
  then have "distinct (map liName ?xs)" using xs(3) by (metis mset_eq_imp_distinct_iff mset_map)
  then have d: "distinct (map liSequence ?xs)"
    using el xs(1) unfolding distinct_map inj_on_def by (metis logInfo.select_convs(1) of_nat_eq_iff)
  define ks where "ks = map (\<lambda>f. nat (liSequence f)) ?xs"
  have map: "?xs = map ?i ks" unfolding ks_def map_map
  proof (rule map_idI [symmetric])
    fix f assume "f \<in> set ?xs"
    with el [of f] xs(1) show "((\<lambda>k. ?i k) \<circ> (\<lambda>f. nat (liSequence f))) f = f" by auto
  qed
  have "sorted_wrt (>) ks"
    using strict_descending [OF xs(2) d] map by (metis (mono_tags, lifting) logInfo.select_convs(1) of_nat_less_iff sorted_wrt_map sorted_wrt_mono_rel)
  moreover have "set ks = {k. map_of es (log_name name k) \<noteq> None}"
  proof (intro set_eqI iffI)
    fix k assume "k \<in> set ks"
    then have "?i k \<in> set ?xs" using map by (metis (mono_tags, lifting) image_eqI list.set_map)
    with el [of "?i k"] xs(1) show "k \<in> {k. map_of es (log_name name k) \<noteq> None}" by auto
  next
    fix k assume "k \<in> {k. map_of es (log_name name k) \<noteq> None}"
    then have "?i k \<in> set ?xs" using age xs(1) by simp
    then show "k \<in> set ks" unfolding ks_def by force
  qed
  moreover have "\<forall>k \<in> set ks. k < m"
    using es(2) [OF log_name_prefix] calculation(2) by (metis (mono_tags, lifting) log_name_inj mem_Collect_eq)
  ultimately show ?thesis using map by blast
qed

lemma log_text_file: "log_text fs d name k = Some t \<longleftrightarrow> (\<exists>i. dir_map fs d (log_name name k) = Some (File i) \<and> lfData fs i = t)"
  by (auto simp: log_text_def split: option.splits dirent.splits)

lemma rollRunOnce_shifts:
  assumes "sorts_infos srt" and "no_fail fs" and "logs_ok m d name fs" and "0 < m" and "m < 2 ^ 63"
    and "loDirs o' = d" and "d \<noteq> []" and "ooName (loOutputs o') = name" and "loFile o' \<noteq> None" and "dir_map fs d name \<noteq> None"
  shows "\<exists>h fs'. rollRunOnce srt (int m) o' fs = Some (None, o'\<lparr>loFile := Some h\<rparr>, fs') \<and>
    no_fail fs' \<and> logs_ok m d name fs' \<and> dir_map fs' d name = Some (File (hdInode h)) \<and> log_text fs' d name 0 = Some [] \<and>
    (\<forall>k. log_text fs' d name (Suc k) = (if Suc k < m then log_text fs d name k else None)) \<and>
    (\<forall>k. dir_map fs' d (log_name name (Suc k)) \<noteq> Some (File (hdInode h))) \<and>
    (\<forall>n. \<not> has_pre name n \<longrightarrow> dir_map fs' d n = dir_map fs d n) \<and> lfTrace fs' = lfTrace fs \<and> hdDir h = d \<and> hdName h = name"
proof -
  from assms(3) obtain es where es: "lfDirs fs d = Some es" "distinct (map fst es)"
    "\<And>n. has_pre name n \<Longrightarrow> map_of es n \<noteq> None \<Longrightarrow> \<exists>k i. n = log_name name k \<and> k < m \<and> map_of es n = Some (File i) \<and> i < lfNext fs"
    using dir_map_def unfolding logs_ok_def by (metis option.simps(5))
  have dm: "dir_map fs d = map_of es" using es(1) by (simp add: dir_map_def)
  from log_infos_ages [OF assms(1,3) es(1) assms(5)] obtain ks where
    ks: "srt (log_infos name es) = map (\<lambda>k. \<lparr>liSequence = int k, liName = log_name name k\<rparr>) ks"
      "sorted_wrt (>) ks" "set ks = {k. map_of es (log_name name k) \<noteq> None}" "\<forall>k \<in> set ks. k < m" by blast
  have ks0: "0 \<in> set ks" using assms(10) ks(3) by (simp add: dm log_name_def)
  have old: "oldLogFiles srt d name fs = Inr (map (\<lambda>k. \<lparr>liSequence = int k, liName = log_name name k\<rparr>) ks)"
    using ks(1) es(1) assms(2) by (simp add: oldLogFiles_def lf_ReadDir_def no_fail_def)
  have sub: "\<forall>k. map_of es (log_name name k) \<noteq> Some Subdir" using es(3) [OF log_name_prefix] by fastforce
  have keys: "\<forall>k \<in> set ks. k + 1 < 2 ^ 63 \<and> log_name name k \<in> dom (map_of es)" using ks(3,4) assms(5) by fastforce
  from roll_files_shift [OF assms(2) es(1) keys sub ks(2), of m] obtain es' where
    rf: "roll_files (int m) d name (map (\<lambda>k. \<lparr>liSequence = int k, liName = log_name name k\<rparr>) ks) None fs = (None, fs\<lparr>lfDirs := (lfDirs fs)(d \<mapsto> es')\<rparr>)"
    "map_of es' = shift_names m name ks (map_of es)" "distinct (map fst es')" using es(2) by blast
  have M': "map_of es' (log_name name j) = (if 0 < j \<and> j < m then map_of es (log_name name (j - 1)) else None)" for j
  proof (cases "map_of es (log_name name j) = None \<or> m \<le> j")
    case True
    moreover have "map_of es (log_name name j) = None" if "m \<le> j" using that ks(3,4) by fastforce
    ultimately show ?thesis unfolding rf(2) shift_names_log [OF ks(2)] using ks(3) ks0 by (cases j) (auto simp: log_name_def)
  next
    case False
    then show ?thesis unfolding rf(2) shift_names_log [OF ks(2)] using ks(3) by auto
  qed
  have name: "map_of es' name = None" using M' [of 0] by (simp add: log_name_def)
  define h where "h = \<lparr>hdDir = d, hdName = name, hdInode = lfNext fs\<rparr>"
  define fs' where "fs' = fs\<lparr>lfDirs := (lfDirs fs)(d \<mapsto> AList.update name (File (lfNext fs)) es'),
      lfData := (lfData fs)(lfNext fs := []), lfNext := lfNext fs + 1\<rparr>"
  have dm': "dir_map fs' d = (map_of es')(name \<mapsto> File (lfNext fs))" by (simp add: dir_map_def fs'_def AList.update_conv')
  have nx: "lfNext fs' = lfNext fs + 1" and data': "lfData fs' = (lfData fs)(lfNext fs := [])" by (simp_all add: fs'_def)
  have log': "dir_map fs' d (log_name name j) = (if j = 0 then Some (File (lfNext fs)) else if j < m then map_of es (log_name name (j - 1)) else None)" for j
    using M' [of j] log_name_inj [of name j 0] by (auto simp: dm' log_name_def [of name 0])
  have young: "map_of es (log_name name j) \<noteq> Some (File (lfNext fs))" for j using es(3) [OF log_name_prefix, of j] by fastforce
  have roll: "rollRunOnce srt (int m) o' fs = Some (None, o'\<lparr>loFile := Some h\<rparr>, fs')"
  proof -
    from assms(9) obtain h0 where "loFile o' = Some h0" by blast
    then have b: "roll_begin srt o' fs = Some (Inr (map (\<lambda>k. \<lparr>liSequence = int k, liName = log_name name k\<rparr>) ks), o'\<lparr>loFile := None\<rparr>)"
      using old ks0 assms(2,6,7,8) by (auto simp: roll_begin_def lo_dir_def lo_close_def no_fail_def)
    have "roll_end (int m) (map (\<lambda>k. \<lparr>liSequence = int k, liName = log_name name k\<rparr>) ks) (o'\<lparr>loFile := None\<rparr>) fs = (None, o'\<lparr>loFile := Some h\<rparr>, fs')"
      using rf(1) name assms(2,6,8) by (simp add: roll_end_def openNew_def lf_OpenFile_def no_fail_def h_def fs'_def)
    with b show ?thesis by (simp add: rollRunOnce_def)
  qed
  have "logs_ok m d name fs'"
  proof -
    have "\<exists>k i. n = log_name name k \<and> k < m \<and> dir_map fs' d n = Some (File i) \<and> i < lfNext fs'"
      if n: "has_pre name n" "dir_map fs' d n \<noteq> None" for n
    proof (cases "\<exists>k. n = log_name name k")
      case True
      then obtain k where k: "n = log_name name k" by blast
      show ?thesis
      proof (cases k)
        case 0
        with k assms(4) show ?thesis by (intro exI [of _ 0] exI [of _ "lfNext fs"]) (simp add: log' nx)
      next
        case (Suc j)
        with k n(2) log' [of k] have "k < m" "map_of es (log_name name j) \<noteq> None" by (auto split: if_splits)
        with es(3) [OF log_name_prefix, of j] log' [of k] Suc k show ?thesis by (force simp: nx)
      qed
    next
      case False
      then have "map_of es' n = map_of es n" unfolding rf(2) by (intro shift_names_other) auto
      moreover from False have "n \<noteq> name" using log_name_def [of name 0] by metis
      ultimately have "map_of es n \<noteq> None" using n(2) by (simp add: dm')
      from es(3) [OF n(1) this] False show ?thesis by blast
    qed
    moreover have "\<exists>es. lfDirs fs' d = Some es \<and> distinct (map fst es)" using rf(3) by (simp add: fs'_def AList.distinct_update)
    ultimately show ?thesis unfolding logs_ok_def by blast
  qed
  moreover have "dir_map fs' d n = dir_map fs d n" if "\<not> has_pre name n" for n
  proof -
    have n: "n \<noteq> log_name name k" for k using that by (metis log_name_prefix)
    with n [of 0] show ?thesis using shift_names_other [of n name m ks "map_of es"] by (simp add: dm' dm rf(2) log_name_def [of name 0])
  qed
  moreover have "log_text fs' d name (Suc k) = (if Suc k < m then log_text fs d name k else None)" for k
    using young [of k] by (auto simp: log_text_def log' dm data' split: option.splits dirent.splits)
  moreover have "dir_map fs' d name = Some (File (hdInode h))" "log_text fs' d name 0 = Some []" "lfTrace fs' = lfTrace fs" "no_fail fs'"
    using log' [of 0] assms(2) by (simp_all add: log_text_def log_name_def h_def fs'_def)
  moreover have "dir_map fs' d (log_name name (Suc k)) \<noteq> Some (File (hdInode h))" for k using young [of k] by (simp add: log' h_def)
  moreover have "hdDir h = d" "hdName h = name" by (simp_all add: h_def)
  ultimately show ?thesis using roll by blast
qed

subsection \<open>What the files hold\<close>

type_synonym log_call = "log_event \<times> bool \<times> enc_case"

fun send_all :: "info_sort \<Rightarrow> int \<Rightarrow> int \<Rightarrow> log_call list \<Rightarrow> log_output \<Rightarrow> log_fs \<Rightarrow> (goerr option list \<times> log_output \<times> log_fs) option" where
  \<comment> \<open>calls of \<open>Send\<close> one after the other, each with its event, whether it is forced, and what the queue would do with it\<close>
  "send_all srt maxNum fileSize [] o' fs = Some ([], o', fs)"
| "send_all srt maxNum fileSize ((e, force, c) # cs) o' fs = do {
     (err, o', fs) \<leftarrow> lo_Send srt maxNum fileSize c e force o' fs;
     (errs, o', fs) \<leftarrow> send_all srt maxNum fileSize cs o' fs;
     Some (err # errs, o', fs)
   }"

lemma send_all_snoc:
  "send_all srt maxNum fileSize (cs @ [(e, force, c)]) o' fs = do {
     (errs, o', fs) \<leftarrow> send_all srt maxNum fileSize cs o' fs;
     (err, o', fs) \<leftarrow> lo_Send srt maxNum fileSize c e force o' fs;
     Some (errs @ [err], o', fs)
   }"
  by (induction srt maxNum fileSize cs o' fs rule: send_all.induct)
    (auto split: Option.bind_split prod.splits simp: bind_eq_None_conv)

definition block_text :: "nat \<Rightarrow> log_event list \<Rightarrow> nat \<Rightarrow> string" where
  \<comment> \<open>the lines of the events that a file of a number takes, counted from the oldest\<close>
  "block_text sz es j = concat (map generateLogInfo (take sz (drop (j * sz) es)))"

definition log_state :: "nat \<Rightarrow> nat \<Rightarrow> string \<Rightarrow> string \<Rightarrow> nat \<Rightarrow> nat \<Rightarrow> log_event list \<Rightarrow> log_output \<Rightarrow> log_fs \<Rightarrow> bool" where
  \<comment> \<open>the newest file is that of number \<open>q\<close> and counts \<open>c\<close> events\<close>
  "log_state m sz d name q c es o' fs \<longleftrightarrow>
     no_fail fs \<and> logs_ok m d name fs \<and> loDirs o' = d \<and> ooName (loOutputs o') = name \<and>
     (\<exists>h. loFile o' = Some h \<and> dir_map fs d name = Some (File (hdInode h)) \<and>
        (\<forall>k. dir_map fs d (log_name name (Suc k)) \<noteq> Some (File (hdInode h)))) \<and>
     loCurrent o' = int c \<and> (\<forall>k. log_text fs d name k = (if k < m \<and> k \<le> q then Some (block_text sz es (q - k)) else None))"

lemma lf_Write_text:
  assumes "no_fail fs" and "dir_map fs d name = Some (File (hdInode h))" and "\<And>k. dir_map fs d (log_name name (Suc k)) \<noteq> Some (File (hdInode h))"
  shows "\<exists>fs'. lf_Write (Some h) data fs = (None, fs') \<and> no_fail fs' \<and> lfDirs fs' = lfDirs fs \<and> lfNext fs' = lfNext fs \<and>
    (\<forall>k. log_text fs' d name k = (if k = 0 then map_option (\<lambda>t. t @ data) (log_text fs d name 0) else log_text fs d name k))"
proof -
  let ?fs = "fs\<lparr>lfData := (lfData fs)(hdInode h := lfData fs (hdInode h) @ data), lfTrace := lfTrace fs @ [data]\<rparr>"
  have w: "lf_Write (Some h) data fs = (None, ?fs)" using assms(1) by (simp add: lf_Write_def no_fail_def)
  have dm: "dir_map ?fs d = dir_map fs d" by (simp add: dir_map_def)
  have "log_text ?fs d name k = (if k = 0 then map_option (\<lambda>t. t @ data) (log_text fs d name 0) else log_text fs d name k)" for k
    using assms(2) assms(3) [of "k - 1"] by (cases k) (auto simp: log_text_def dm log_name_def [of name 0] split: option.splits dirent.splits)
  with w assms(1) show ?thesis by auto
qed

lemma block_text_snoc:
  assumes "j * sz \<le> length es"
  shows "block_text sz (es @ [e]) j = block_text sz es j @ (if length es - j * sz < sz then generateLogInfo e else [])"
  using assms by (auto simp: block_text_def take_Cons' Suc_diff_le)

lemma block_count:
  assumes "0 < (sz :: nat)" and "0 < n"
  shows "if (n - 1) mod sz + 1 \<ge> sz then n div sz = Suc ((n - 1) div sz) \<and> n mod sz = 0
    else n div sz = (n - 1) div sz \<and> n mod sz = (n - 1) mod sz + 1"
  using assms div_Suc [of "n - 1" sz] mod_Suc [of "n - 1" sz] mod_less_divisor [of sz "n - 1"]
  by (cases n) (auto simp: not_le simp del: mod_less_divisor)

lemma send_write_now:
  assumes "no_fail fs" and "loFile o' = Some h" and "dir_map fs d name = Some (File (hdInode h))"
    and "\<And>k. dir_map fs d (log_name name (Suc k)) \<noteq> Some (File (hdInode h))" and "loPool o' = None \<or> force"
  shows "\<exists>fs'. send_write c e force o' fs = Some (None, o'\<lparr>loCurrent := wrap32 (loCurrent o' + 1)\<rparr>, fs') \<and> no_fail fs' \<and>
    lfDirs fs' = lfDirs fs \<and> lfNext fs' = lfNext fs \<and>
    (\<forall>k. log_text fs' d name k = (if k = 0 then map_option (\<lambda>t. t @ generateLogInfo e) (log_text fs d name 0) else log_text fs d name k))"
proof -
  from lf_Write_text [OF assms(1,3,4), of "generateLogInfo e"] obtain fs' where
    fs': "lf_Write (Some h) (generateLogInfo e) fs = (None, fs')" "no_fail fs'" "lfDirs fs' = lfDirs fs" "lfNext fs' = lfNext fs"
    "\<forall>k. log_text fs' d name k = (if k = 0 then map_option (\<lambda>t. t @ generateLogInfo e) (log_text fs d name 0) else log_text fs d name k)" by blast
  then have "send_write c e force o' fs = Some (None, o'\<lparr>loCurrent := wrap32 (loCurrent o' + 1)\<rparr>, fs')"
    using assms(2,5) by (cases "loPool o'") (simp_all add: send_write_def)
  with fs' show ?thesis by blast
qed

lemma log_state_roll:
  assumes "sorts_infos srt" and "log_state m sz d name q (Suc c) es o' fs" and "Suc q * sz = length es"
    and "0 < m" and "m < 2 ^ 63" and "d \<noteq> []"
  shows "\<exists>o1 fs1. rollRunOnce srt (int m) o' fs = Some (None, o1, fs1) \<and> log_state m sz d name (Suc q) 0 es (o1\<lparr>loCurrent := 0\<rparr>) fs1 \<and>
    loPool o1 = loPool o'"
proof -
  from assms(2) have st: "no_fail fs" "logs_ok m d name fs" "loDirs o' = d" "ooName (loOutputs o') = name" "loFile o' \<noteq> None" "dir_map fs d name \<noteq> None"
    "\<And>k. log_text fs d name k = (if k < m \<and> k \<le> q then Some (block_text sz es (q - k)) else None)"
    by (auto simp: log_state_def)
  from rollRunOnce_shifts [OF assms(1) st(1,2) assms(4,5) st(3) assms(6) st(4-6)] obtain h fs' where
    r: "rollRunOnce srt (int m) o' fs = Some (None, o'\<lparr>loFile := Some h\<rparr>, fs')" "no_fail fs'" "logs_ok m d name fs'"
    "dir_map fs' d name = Some (File (hdInode h))" "log_text fs' d name 0 = Some []"
    "\<And>k. log_text fs' d name (Suc k) = (if Suc k < m then log_text fs d name k else None)"
    "\<And>k. dir_map fs' d (log_name name (Suc k)) \<noteq> Some (File (hdInode h))" by blast
  have "block_text sz es (Suc q) = []" using assms(3) by (simp add: block_text_def)
  then have "log_text fs' d name k = (if k < m \<and> k \<le> Suc q then Some (block_text sz es (Suc q - k)) else None)" for k
    using r(5,6) st(7) assms(4) by (cases k) auto
  with r(1-4,7) st(3,4) show ?thesis by (intro exI [of _ "o'\<lparr>loFile := Some h\<rparr>"] exI [of _ fs']) (simp add: log_state_def)
qed

lemma log_state_write:
  assumes "log_state m sz d name (length es div sz) (length es mod sz) es o' fs" and "0 < sz" and "sz < 2 ^ 31"
    and direct: "loPool o' = None \<or> force"
  shows "\<exists>o1 fs1. send_write ec e force o' fs = Some (None, o1, fs1) \<and>
    log_state m sz d name (length es div sz) (length es mod sz + 1) (es @ [e]) o1 fs1 \<and> loPool o1 = loPool o'"
proof -
  let ?q = "length es div sz"
  from assms(1) obtain h where st: "no_fail fs" "logs_ok m d name fs" "loDirs o' = d" "ooName (loOutputs o') = name" "loFile o' = Some h"
    "dir_map fs d name = Some (File (hdInode h))" "\<And>k. dir_map fs d (log_name name (Suc k)) \<noteq> Some (File (hdInode h))"
    "loCurrent o' = int (length es mod sz)" "\<And>k. log_text fs d name k = (if k < m \<and> k \<le> ?q then Some (block_text sz es (?q - k)) else None)"
    unfolding log_state_def by blast
  from send_write_now [OF st(1,5-7) direct, of ec e] obtain fs1 where
    w: "send_write ec e force o' fs = Some (None, o'\<lparr>loCurrent := wrap32 (loCurrent o' + 1)\<rparr>, fs1)" "no_fail fs1" "lfDirs fs1 = lfDirs fs" "lfNext fs1 = lfNext fs"
    "\<And>k. log_text fs1 d name k = (if k = 0 then map_option (\<lambda>t. t @ generateLogInfo e) (log_text fs d name 0) else log_text fs d name k)" by blast
  have dm: "dir_map fs1 = dir_map fs" using w(3) by (simp add: dir_map_def fun_eq_iff)
  have c: "wrap32 (loCurrent o' + 1) = int (length es mod sz + 1)"
    unfolding wrap32_def st(8) using mod_less_divisor [OF assms(2), of "length es"] assms(3) by (subst signed_take_bit_int_eq_self) auto
  have "block_text sz (es @ [e]) (?q - k) = block_text sz es (?q - k) @ (if k = 0 then generateLogInfo e else [])" if "k \<le> ?q" for k
  proof -
    have q: "?q * sz \<le> length es" "length es - ?q * sz < sz" using assms(2) by (simp_all add: div_times_less_eq_dividend minus_div_mult_eq_mod)
    have le: "(?q - k) * sz \<le> ?q * sz" by simp
    have "\<not> length es - (?q - k) * sz < sz" if "0 < k"
    proof -
      from that \<open>k \<le> ?q\<close> have "Suc (?q - k) \<le> ?q" by simp
      then have "Suc (?q - k) * sz \<le> ?q * sz" by (rule mult_le_mono1)
      then have "Suc (?q - k) * sz \<le> length es" using q(1) by (rule le_trans)
      then show ?thesis by simp
    qed
    then show ?thesis using block_text_snoc [of "?q - k" sz es e] le q by (cases "k = 0") auto
  qed
  then have "log_text fs1 d name k = (if k < m \<and> k \<le> ?q then Some (block_text sz (es @ [e]) (?q - k)) else None)" for k
    using w(5) [of k] st(9) [of k] by auto
  moreover have "logs_ok m d name fs1" using st(2) w(3,4) by (simp add: logs_ok_def dm)
  ultimately have "log_state m sz d name ?q (length es mod sz + 1) (es @ [e]) (o'\<lparr>loCurrent := wrap32 (loCurrent o' + 1)\<rparr>) fs1"
    using w(2) st(3-7) c by (simp add: log_state_def dm)
  with w(1) show ?thesis by auto
qed

lemma log_state_send:
  assumes "sorts_infos srt" and "0 < m" and "m < 2 ^ 63" and "0 < sz" and "sz < 2 ^ 31" and "d \<noteq> []"
    and "log_state m sz d name ((length es - 1) div sz) (if es = [] then 0 else (length es - 1) mod sz + 1) es o' fs"
    and "loPool o' = None \<or> force"
  shows "\<exists>o1 fs1. lo_Send srt (int m) (int sz) ec e force o' fs = Some (None, o1, fs1) \<and>
    log_state m sz d name (length es div sz) (length es mod sz + 1) (es @ [e]) o1 fs1 \<and> loPool o1 = loPool o'"
proof -
  have st: "loFile o' \<noteq> None" "loCurrent o' = int (if es = [] then 0 else (length es - 1) mod sz + 1)" using assms(7) unfolding log_state_def by auto
  have bc: "if (length es - 1) mod sz + 1 \<ge> sz then length es div sz = Suc ((length es - 1) div sz) \<and> length es mod sz = 0
      else length es div sz = (length es - 1) div sz \<and> length es mod sz = (length es - 1) mod sz + 1" if "es \<noteq> []"
    using block_count [OF assms(4), of "length es"] that by simp
  show ?thesis
  proof (cases "loCurrent o' \<ge> int sz")
    case True
    then have ne: "es \<noteq> []" "(length es - 1) mod sz + 1 \<ge> sz" using st(2) assms(4) by (auto split: if_splits)
    with bc have q: "length es div sz = Suc ((length es - 1) div sz)" "length es mod sz = 0" by auto
    then have "Suc ((length es - 1) div sz) * sz = length es" using div_mult_mod_eq [of "length es" sz] by simp
    moreover have "log_state m sz d name ((length es - 1) div sz) (Suc ((length es - 1) mod sz)) es o' fs" using assms(7) ne(1) by simp
    ultimately obtain o1 fs1 where
      "rollRunOnce srt (int m) o' fs = Some (None, o1, fs1)" "log_state m sz d name (length es div sz) (length es mod sz) es (o1\<lparr>loCurrent := 0\<rparr>) fs1"
      "loPool (o1\<lparr>loCurrent := 0\<rparr>) = loPool o'"
      unfolding q using log_state_roll [OF assms(1) _ _ assms(2,3,6)] by fastforce
    with log_state_write [OF this(2) assms(4,5), of force ec e] assms(8) True st(1) show ?thesis by (auto simp: lo_Send_def)
  next
    case False
    then have "log_state m sz d name (length es div sz) (length es mod sz) es o' fs"
      using assms(7) bc st(2) by (cases "es = []") auto
    from log_state_write [OF this assms(4,5,8), of ec e] False st(1) show ?thesis by (auto simp: lo_Send_def)
  qed
qed

lemma send_all_state:
  assumes "sorts_infos srt" and "0 < m" and "m < 2 ^ 63" and "0 < sz" and "sz < 2 ^ 31" and "d \<noteq> []" and "log_state m sz d name 0 0 [] o0 fs0"
    and "\<forall>(e, force, c) \<in> set cs. loPool o0 = None \<or> force" and "es = map fst cs"
  shows "\<exists>o1 fs1. send_all srt (int m) (int sz) cs o0 fs0 = Some (replicate (length cs) None, o1, fs1) \<and>
    log_state m sz d name ((length es - 1) div sz) (if es = [] then 0 else (length es - 1) mod sz + 1) es o1 fs1 \<and> loPool o1 = loPool o0"
  using assms(8,9)
proof (induction cs arbitrary: es rule: rev_induct)
  case (snoc x cs)
  obtain e force c where x: "x = (e, force, c)" by (metis prod_cases3)
  let ?es = "map fst cs"
  from snoc obtain o1 fs1 where IH: "send_all srt (int m) (int sz) cs o0 fs0 = Some (replicate (length cs) None, o1, fs1)"
    "log_state m sz d name ((length ?es - 1) div sz) (if ?es = [] then 0 else (length ?es - 1) mod sz + 1) ?es o1 fs1" "loPool o1 = loPool o0" by fastforce
  have "loPool o1 = None \<or> force" using snoc.prems(1) x IH(3) by auto
  from log_state_send [OF assms(1-6) IH(2) this, of c e] obtain o2 fs2 where
    "lo_Send srt (int m) (int sz) c e force o1 fs1 = Some (None, o2, fs2)"
    "log_state m sz d name (length ?es div sz) (length ?es mod sz + 1) (?es @ [e]) o2 fs2" "loPool o2 = loPool o1" by blast
  with IH x snoc.prems(2) show ?case by (simp add: send_all_snoc replicate_append_same)
qed (use assms(7) in simp)

lemma clean_dir_not_Nil: "clean_dir d \<noteq> []"
  by (auto simp: clean_dir_def path_Clean_def Let_def)

lemma NewOutput2_fresh:
  assumes "no_fail fs" and "lfDirs fs (clean_dir (ooDir outs)) = Some es" and "distinct (map fst es)"
    and "\<forall>n \<in> fst ` set es. \<not> has_pre (ooName outs) n" and "0 < m" and "aoEnabled async \<longrightarrow> aoPoolSize async \<ge> 0 \<and> aoBufferSize async \<ge> 0"
  shows "\<exists>o0 fs0. NewOutput2 bash outs async fs = Some (o0, fs0) \<and> log_state m sz (clean_dir (ooDir outs)) (ooName outs) 0 0 [] o0 fs0 \<and>
    lfTrace fs0 = lfTrace fs \<and> loPool o0 = (if aoEnabled async then log_newPool (aoPoolSize async) (aoBufferSize async) else None)"
proof -
  let ?d = "clean_dir (ooDir outs)" and ?n = "ooName outs"
  have none: "map_of es n = None" if "has_pre ?n n" for n using assms(4) that by (auto simp: map_of_eq_None_iff)
  have pre: "has_pre ?n ?n" using log_name_prefix [of ?n 0] by (simp add: log_name_def)
  have opn: "openLogFile bash outs fs = lf_OpenFile ?d ?n fs"
    using assms(1,2) by (simp add: openLogFile_def pathExists_def no_fail_def clean_dir_def Let_def split: if_splits)
  define fs0 where "fs0 = fs\<lparr>lfDirs := (lfDirs fs)(?d \<mapsto> AList.update ?n (File (lfNext fs)) es), lfData := (lfData fs)(lfNext fs := []), lfNext := lfNext fs + 1\<rparr>"
  let ?h = "\<lparr>hdDir = ?d, hdName = ?n, hdInode = lfNext fs\<rparr>"
  have lf: "lf_OpenFile ?d ?n fs = (Inr ?h, fs0)"
    using assms(1,2) none [OF pre] by (simp add: lf_OpenFile_def no_fail_def fs0_def)
  have dm: "dir_map fs0 ?d = (map_of es)(?n \<mapsto> File (lfNext fs))" by (simp add: fs0_def dir_map_def AList.update_conv')
  have ages: "dir_map fs0 ?d (log_name ?n k) = (if k = 0 then Some (File (lfNext fs)) else None)" for k
    using none [OF log_name_prefix, of k] log_name_inj [of ?n k 0] by (simp add: dm log_name_def [of ?n 0])
  have ok: "logs_ok m ?d ?n fs0"
    unfolding logs_ok_def dm using none assms(3,5) by (auto simp: fs0_def AList.distinct_update log_name_def intro!: exI [of _ "0 :: nat"])
  have contents: "log_text fs0 ?d ?n k = (if k < m \<and> k \<le> 0 then Some (block_text sz [] (0 - k)) else None)" for k
    using assms(5) by (simp add: log_text_def ages block_text_def) (simp add: fs0_def)
  have cur: "refreshFileSize ?h fs0 = 0" by (simp add: refreshFileSize_def fs0_def wrap32_def)
  have frame: "no_fail fs0" "lfTrace fs0 = lfTrace fs" using assms(1) by (simp_all add: fs0_def)
  define o0 where "o0 = \<lparr>loErr = None, loDirs = ?d, loFile = Some ?h, loCurrent = 0, loOutputs = outs,
      loAsync = (if aoEnabled async then async else NewAsyncOptions []),
      loPool = (if aoEnabled async then log_newPool (aoPoolSize async) (aoBufferSize async) else None)\<rparr>"
  have "NewOutput2 bash outs async fs = Some (o0, fs0)"
    using assms(6) by (auto simp: NewOutput2_def opn lf cur o0_def log_newPool_def)
  moreover have "log_state m sz ?d ?n 0 0 [] o0 fs0"
    using ok contents frame ages by (simp add: log_state_def o0_def log_name_def [of ?n 0]) (use ages [of 0] in \<open>simp add: log_name_def\<close>)
  ultimately show ?thesis using frame(2) by (intro exI conjI) (assumption | simp add: o0_def)+
qed

subsection \<open>Writing behind the callers\<close>

lemma snoc_in_shuffles_leftI: "zs \<in> shuffles xs ys \<Longrightarrow> zs @ [z] \<in> shuffles (xs @ [z]) ys"
proof (induction zs arbitrary: xs ys)
  case Nil
  then show ?case by simp
next
  case (Cons a zs)
  then show ?case by (auto simp: Cons_in_shuffles_iff)
qed

lemma snoc_in_shuffles_rightI: "zs \<in> shuffles xs ys \<Longrightarrow> zs @ [z] \<in> shuffles xs (ys @ [z])"
  using snoc_in_shuffles_leftI [of zs ys xs z] by (simp add: shuffles_commutes)

datatype send_phase = Idle | is_Rolling: Rolling "logInfo list" log_event bool | Writing log_event bool

record log_sys =
  lsOut :: log_output
  lsFs :: log_fs
  lsPhase :: send_phase
  lsDirect :: "log_event list"
  lsQueued :: "log_event list"
  lsLost :: "string list"

definition enqueues :: "enc_case \<Rightarrow> bool \<Rightarrow> log_output \<Rightarrow> bool" where
  "enqueues c force o' \<longleftrightarrow> loPool o' \<noteq> None \<and> \<not> force \<and> c \<noteq> EncTimeout"

definition flushed :: "process_case \<Rightarrow> log_output \<Rightarrow> string" where
  \<comment> \<open>what a round of the goroutine hands to the file\<close>
  "flushed c o' = (case loPool o' of None \<Rightarrow> [] | Some p \<Rightarrow>
     (case c of ProcTick \<Rightarrow> take (plCurrent p) (plBuffer p)
      | ProcEvent \<Rightarrow> (case plQueue p of [] \<Rightarrow> [] | e # _ \<Rightarrow>
          if plCurrent p + length (generateLogInfo e) > length (plBuffer p) then take (plCurrent p) (plBuffer p) else [])
      | ProcClosed \<Rightarrow> []))"

inductive log_step :: "info_sort \<Rightarrow> int \<Rightarrow> int \<Rightarrow> bool \<Rightarrow> log_sys \<Rightarrow> log_sys \<Rightarrow> bool" for srt maxNum fileSize calm where
  \<comment> \<open>\<open>Send\<close> holds the lock, the goroutine does not take it; with \<open>calm\<close> it pauses during rotations\<close>
  log_start: "lsPhase s = Idle \<Longrightarrow> loFile (lsOut s) \<noteq> None \<Longrightarrow> loCurrent (lsOut s) < fileSize \<Longrightarrow>
    log_step srt maxNum fileSize calm s (s\<lparr>lsPhase := Writing e force\<rparr>)"
| log_close: "lsPhase s = Idle \<Longrightarrow> loFile (lsOut s) \<noteq> None \<Longrightarrow> loCurrent (lsOut s) \<ge> fileSize \<Longrightarrow>
    roll_begin srt (lsOut s) (lsFs s) = Some (Inr files, o1) \<Longrightarrow>
    log_step srt maxNum fileSize calm s (s\<lparr>lsPhase := Rolling files e force, lsOut := o1\<rparr>)"
| log_no_roll: "lsPhase s = Idle \<Longrightarrow> loFile (lsOut s) \<noteq> None \<Longrightarrow> loCurrent (lsOut s) \<ge> fileSize \<Longrightarrow>
    roll_begin srt (lsOut s) (lsFs s) = Some (Inl err, o1) \<Longrightarrow>
    log_step srt maxNum fileSize calm s (s\<lparr>lsPhase := Writing e force, lsOut := o1\<lparr>loCurrent := 0\<rparr>\<rparr>)"
| log_roll: "lsPhase s = Rolling files e force \<Longrightarrow> roll_end maxNum files (lsOut s) (lsFs s) = (err, o1, fs1) \<Longrightarrow>
    log_step srt maxNum fileSize calm s (s\<lparr>lsPhase := Writing e force, lsOut := o1\<lparr>loCurrent := 0\<rparr>, lsFs := fs1\<rparr>)"
| log_write: "lsPhase s = Writing e force \<Longrightarrow> send_write c e force (lsOut s) (lsFs s) = Some (err, o1, fs1) \<Longrightarrow>
    log_step srt maxNum fileSize calm s
      (s\<lparr>lsPhase := Idle, lsOut := o1, lsFs := fs1,
         lsQueued := (if err = None \<and> enqueues c force (lsOut s) then lsQueued s @ [e] else lsQueued s),
         lsDirect := (if err = None \<and> \<not> enqueues c force (lsOut s) then lsDirect s @ [e] else lsDirect s)\<rparr>)"
| log_proc: "lo_process c (lsOut s) (lsFs s) = Some (False, o1, fs1) \<Longrightarrow> \<not> (calm \<and> is_Rolling (lsPhase s)) \<Longrightarrow>
    log_step srt maxNum fileSize calm s
      (s\<lparr>lsOut := o1, lsFs := fs1,
         lsLost := (if loFile (lsOut s) = None \<and> flushed c (lsOut s) \<noteq> [] then lsLost s @ [flushed c (lsOut s)] else lsLost s)\<rparr>)"

definition pending :: "log_pool \<Rightarrow> string list" where
  \<comment> \<open>the lines that have not been handed to the file: that in the buffer, and those in the queue\<close>
  "pending p = (if plCurrent p = 0 then [] else [take (plCurrent p) (plBuffer p)]) @ map generateLogInfo (plQueue p)"

definition pool_ok :: "log_pool \<Rightarrow> bool" where
  "pool_ok p \<longleftrightarrow> plCurrent p = 0 \<or> plCurrent p = length (plBuffer p)"

definition stream :: "string list \<Rightarrow> log_pool \<Rightarrow> string list \<Rightarrow> log_event list \<Rightarrow> log_event list \<Rightarrow> string list \<Rightarrow> bool" where
  "stream t0 p tr D Q L \<longleftrightarrow>
     (\<exists>T W V. tr = t0 @ T \<and> T \<in> shuffles (map generateLogInfo D) W \<and> V \<in> shuffles W L \<and> V @ pending p = map generateLogInfo Q)"

lemma streamI:
  "tr = t0 @ T \<Longrightarrow> T \<in> shuffles (map generateLogInfo D) W \<Longrightarrow> V \<in> shuffles W L \<Longrightarrow> V @ pending p = map generateLogInfo Q \<Longrightarrow> stream t0 p tr D Q L"
  unfolding stream_def by blast

lemma line_not_Nil [simp]: "generateLogInfo e \<noteq> []"
  by (simp add: generateLogInfo_def)

lemma lo_process_effect:
  assumes "lo_process c o' fs = Some (False, o1, fs1)" and "loPool o' = Some p" and "pool_ok p"
  shows "\<exists>p1. o1 = o'\<lparr>loPool := Some p1\<rparr> \<and> pool_ok p1 \<and> pending p = (if flushed c o' = [] then [] else [flushed c o']) @ pending p1 \<and>
    fs1 = (if flushed c o' = [] then fs else snd (lf_Write (loFile o') (flushed c o') fs))"
proof (cases c)
  case ProcClosed
  with assms show ?thesis by (auto simp: lo_process_def split: if_splits)
next
  case ProcTick
  with assms show ?thesis
    by (auto simp: lo_process_def pl_flush_def lo_persist_def flushed_def pending_def pool_ok_def split: if_splits)
next
  case ProcEvent
  with assms(1,2) obtain e q where q: "plQueue p = e # q" by (auto simp: lo_process_def split: list.splits)
  define p1 where "p1 = p\<lparr>plQueue := q, plCurrent := length (generateLogInfo e), plBuffer := generateLogInfo e\<rparr>"
  have f: "flushed c o' = take (plCurrent p) (plBuffer p)" using q assms(2,3) ProcEvent by (auto simp: flushed_def pool_ok_def)
  have w: "pl_write (generateLogInfo e) (lo_persist (loFile o')) (p\<lparr>plQueue := q\<rparr>) fs =
      (p1, if flushed c o' = [] then fs else snd (lf_Write (loFile o') (flushed c o') fs))"
    using assms(3) by (cases "plCurrent p = 0") (auto simp: pl_write_def p1_def f lo_persist_def pool_ok_def)
  have "pending p = (if flushed c o' = [] then [] else [flushed c o']) @ pending p1" "pool_ok p1"
    using assms(3) q by (auto simp: pending_def f p1_def pool_ok_def)
  moreover have "o1 = o'\<lparr>loPool := Some p1\<rparr>" "fs1 = (if flushed c o' = [] then fs else snd (lf_Write (loFile o') (flushed c o') fs))"
    using assms(1,2) q w ProcEvent by (simp_all add: lo_process_def split: if_splits)
  ultimately show ?thesis by blast
qed

lemma stream_process:
  assumes "stream t0 p (lfTrace fs) D Q L" and "lo_process c o' fs = Some (False, o1, fs1)" and "loPool o' = Some p" and "pool_ok p" and "no_fail fs"
  shows "\<exists>p1. loPool o1 = Some p1 \<and> pool_ok p1 \<and> o1 = o'\<lparr>loPool := Some p1\<rparr> \<and> no_fail fs1 \<and> lfDirs fs1 = lfDirs fs \<and> lfNext fs1 = lfNext fs \<and>
    (loFile o' = None \<longrightarrow> fs1 = fs) \<and>
    stream t0 p1 (lfTrace fs1) D Q (if loFile o' = None \<and> flushed c o' \<noteq> [] then L @ [flushed c o'] else L)"
proof -
  from lo_process_effect [OF assms(2-4)] obtain p1 where
    p1: "o1 = o'\<lparr>loPool := Some p1\<rparr>" "pool_ok p1" "pending p = (if flushed c o' = [] then [] else [flushed c o']) @ pending p1"
      "fs1 = (if flushed c o' = [] then fs else snd (lf_Write (loFile o') (flushed c o') fs))" by blast
  from assms(1) obtain T W V where st: "lfTrace fs = t0 @ T" "T \<in> shuffles (map generateLogInfo D) W" "V \<in> shuffles W L"
    "V @ pending p = map generateLogInfo Q" unfolding stream_def by blast
  let ?f = "flushed c o'"
  have "stream t0 p1 (lfTrace fs1) D Q (if loFile o' = None \<and> ?f \<noteq> [] then L @ [?f] else L)"
  proof (cases "?f = []")
    case True
    with assms(1) p1 show ?thesis by (simp add: stream_def)
  next
    case f: False
    then have V: "(V @ [?f]) @ pending p1 = map generateLogInfo Q" using st(4) p1(3) by simp
    show ?thesis
    proof (cases "loFile o'")
      case None
      with f p1(4) have "lfTrace fs1 = t0 @ T" using st(1) by (simp add: lf_Write_def)
      with None f show ?thesis using streamI [OF _ st(2) snoc_in_shuffles_rightI [OF st(3), of ?f] V] by simp
    next
      case (Some h)
      with f p1(4) assms(5) have "lfTrace fs1 = t0 @ T @ [?f]" using st(1) by (simp add: lf_Write_def no_fail_def)
      with Some show ?thesis using streamI [OF _ snoc_in_shuffles_rightI [OF st(2), of ?f] snoc_in_shuffles_leftI [OF st(3), of ?f] V] by simp
    qed
  qed
  moreover have "no_fail fs1" "lfDirs fs1 = lfDirs fs" "lfNext fs1 = lfNext fs" "loFile o' = None \<longrightarrow> fs1 = fs"
    using p1(4) assms(5) by (auto simp: lf_Write_def no_fail_def Let_def split: option.splits)
  ultimately show ?thesis using p1 by auto
qed

lemma stream_write:
  assumes "stream t0 p (lfTrace fs) D Q L" and "send_write c e force o' fs = Some (err, o1, fs1)" and "loPool o' = Some p" and "pool_ok p"
    and "no_fail fs" and "loFile o' = Some h"
  shows "\<exists>p1. loPool o1 = Some p1 \<and> pool_ok p1 \<and> loFile o1 = Some h \<and> loDirs o1 = loDirs o' \<and> loOutputs o1 = loOutputs o' \<and>
    no_fail fs1 \<and> lfDirs fs1 = lfDirs fs \<and> lfNext fs1 = lfNext fs \<and>
    stream t0 p1 (lfTrace fs1) (if err = None \<and> \<not> enqueues c force o' then D @ [e] else D) (if err = None \<and> enqueues c force o' then Q @ [e] else Q) L"
proof -
  from assms(1) obtain T W V where st: "lfTrace fs = t0 @ T" "T \<in> shuffles (map generateLogInfo D) W" "V \<in> shuffles W L"
    "V @ pending p = map generateLogInfo Q" unfolding stream_def by blast
  have direct: "stream t0 p (t0 @ T @ [generateLogInfo e]) (D @ [e]) Q L"
    using streamI [OF refl _ st(3,4), of "T @ [generateLogInfo e]" "D @ [e]"] snoc_in_shuffles_leftI [OF st(2), of "generateLogInfo e"] by simp
  have queued: "stream t0 (p\<lparr>plQueue := plQueue p @ [e]\<rparr>) (t0 @ T) D (Q @ [e]) L"
  proof (rule streamI [OF refl st(2,3)])
    show "V @ pending (p\<lparr>plQueue := plQueue p @ [e]\<rparr>) = map generateLogInfo (Q @ [e])" using st(4) by (cases "plCurrent p = 0") (simp_all add: pending_def)
  qed
  show ?thesis
  proof (cases "enqueues c force o'")
    case True
    with assms(2,3) have "loPool o1 = Some p \<and> err \<noteq> None \<or> loPool o1 = Some (p\<lparr>plQueue := plQueue p @ [e]\<rparr>) \<and> err = None"
      and "fs1 = fs" "loFile o1 = loFile o'" "loDirs o1 = loDirs o'" "loOutputs o1 = loOutputs o'"
      by (cases c; auto simp: send_write_def enqueues_def pl_enc_def split: if_splits)+
    with True assms queued st(1) show ?thesis by (auto simp: pool_ok_def)
  next
    case False
    then have "force \<or> c = EncTimeout" using assms(3) by (auto simp: enqueues_def)
    with assms(2,3,5,6) have "loPool o1 = Some p" "err = None" "loFile o1 = loFile o'" "loDirs o1 = loDirs o'" "loOutputs o1 = loOutputs o'"
      "fs1 = snd (lf_Write (Some h) (generateLogInfo e) fs)"
      by (cases force; auto simp: send_write_def pl_enc_def lf_Write_def no_fail_def Let_def split: if_splits)+
    with False assms direct st(1) show ?thesis by (auto simp: lf_Write_def no_fail_def)
  qed
qed

definition dir_ok :: "nat \<Rightarrow> string \<Rightarrow> string \<Rightarrow> log_output \<Rightarrow> log_fs \<Rightarrow> bool" where
  "dir_ok m d name o' fs \<longleftrightarrow> no_fail fs \<and> logs_ok m d name fs \<and> dir_map fs d name \<noteq> None \<and> loDirs o' = d \<and> ooName (loOutputs o') = name"

definition rolls_ok :: "nat \<Rightarrow> string \<Rightarrow> string \<Rightarrow> logInfo list \<Rightarrow> log_output \<Rightarrow> log_fs \<Rightarrow> bool" where
  "rolls_ok m d name files o' fs \<longleftrightarrow>
     (\<exists>err h o1 fs1. roll_end (int m) files o' fs = (err, o1, fs1) \<and> loFile o1 = Some h \<and> loPool o1 = loPool o' \<and> dir_ok m d name o1 fs1 \<and> lfTrace fs1 = lfTrace fs)"

definition log_inv :: "string list \<Rightarrow> nat \<Rightarrow> string \<Rightarrow> string \<Rightarrow> bool \<Rightarrow> log_sys \<Rightarrow> bool" where
  "log_inv t0 m d name calm s \<longleftrightarrow>
     (\<exists>p. loPool (lsOut s) = Some p \<and> pool_ok p \<and> stream t0 p (lfTrace (lsFs s)) (lsDirect s) (lsQueued s) (lsLost s)) \<and>
     no_fail (lsFs s) \<and> (calm \<longrightarrow> lsLost s = []) \<and>
     (case lsPhase s of
        Rolling files e force \<Rightarrow> loFile (lsOut s) = None \<and> rolls_ok m d name files (lsOut s) (lsFs s)
      | _ \<Rightarrow> loFile (lsOut s) \<noteq> None \<and> dir_ok m d name (lsOut s) (lsFs s))"

lemma roll_begin_frame:
  "roll_begin srt o' fs = Some (r, o1) \<Longrightarrow> loPool o1 = loPool o' \<and> (\<forall>files. r = Inr files \<longrightarrow> loFile o1 = None)"
  by (auto simp: roll_begin_def lo_dir_def lo_close_def split: Option.bind_splits sum.splits option.splits if_splits)

lemma roll_end_pool:
  "roll_end maxNum files (o'\<lparr>loPool := p\<rparr>) fs = (case roll_end maxNum files o' fs of (err, o1, fs1) \<Rightarrow> (err, o1\<lparr>loPool := p\<rparr>, fs1))"
  by (simp add: roll_end_def openNew_def Let_def split: prod.splits sum.splits option.splits)

lemma rolls_ok_pool: "rolls_ok m d name files o' fs \<Longrightarrow> rolls_ok m d name files (o'\<lparr>loPool := p\<rparr>) fs"
  by (auto simp: rolls_ok_def roll_end_pool dir_ok_def)

lemma dir_ok_frame:
  "dir_ok m d name o' fs \<Longrightarrow> no_fail fs1 \<Longrightarrow> lfDirs fs1 = lfDirs fs \<Longrightarrow> lfNext fs1 = lfNext fs \<Longrightarrow> loDirs o1 = loDirs o' \<Longrightarrow>
   loOutputs o1 = loOutputs o' \<Longrightarrow> dir_ok m d name o1 fs1"
  by (simp add: dir_ok_def logs_ok_def dir_map_def)

lemma dir_ok_roll:
  assumes "sorts_infos srt" and "0 < m" and "m < 2 ^ 63" and "d \<noteq> []" and "dir_ok m d name o' fs" and "loFile o' \<noteq> None"
    and "roll_begin srt o' fs = Some (r, o1)"
  shows "case r of Inl _ \<Rightarrow> loFile o1 \<noteq> None \<and> dir_ok m d name o1 fs | Inr files \<Rightarrow> rolls_ok m d name files o1 fs"
proof -
  from assms(5) have st: "no_fail fs" "logs_ok m d name fs" "loDirs o' = d" "ooName (loOutputs o') = name" "dir_map fs d name \<noteq> None" by (auto simp: dir_ok_def)
  from rollRunOnce_shifts [OF assms(1) st(1,2) assms(2,3) st(3) assms(4) st(4) assms(6) st(5)] obtain h fs' where
    *: "rollRunOnce srt (int m) o' fs = Some (None, o'\<lparr>loFile := Some h\<rparr>, fs')" "no_fail fs'" "logs_ok m d name fs'"
    "dir_map fs' d name = Some (File (hdInode h))" "lfTrace fs' = lfTrace fs" by blast
  then have ok: "dir_ok m d name (o'\<lparr>loFile := Some h\<rparr>) fs'" using st(3,4) by (simp add: dir_ok_def)
  show ?thesis
  proof (cases r)
    case (Inl err)
    with * assms(7) have "o1 = o'\<lparr>loFile := Some h\<rparr>" "fs' = fs" by (simp_all add: rollRunOnce_def)
    with ok Inl show ?thesis by simp
  next
    case (Inr files)
    with * assms(7) have "roll_end (int m) files o1 fs = (None, o'\<lparr>loFile := Some h\<rparr>, fs')" by (simp add: rollRunOnce_def)
    with ok *(5) Inr roll_begin_frame [OF assms(7)] show ?thesis by (simp add: rolls_ok_def)
  qed
qed

lemma log_step_inv:
  assumes "sorts_infos srt" and "0 < m" and "m < 2 ^ 63" and "d \<noteq> []" and "log_step srt (int m) fileSize calm s s'" and "log_inv t0 m d name calm s"
  shows "log_inv t0 m d name calm s'"
  using assms(5)
proof cases
  case (log_start e force)
  with assms(6) show ?thesis by (simp add: log_inv_def)
next
  case (log_close files o1 e force)
  with assms(6) have "dir_ok m d name (lsOut s) (lsFs s)" by (simp add: log_inv_def)
  from dir_ok_roll [OF assms(1-4) this log_close(3,5)] roll_begin_frame [OF log_close(5)] assms(6) log_close show ?thesis
    by (simp add: log_inv_def)
next
  case (log_no_roll err o1 e force)
  with assms(6) have "dir_ok m d name (lsOut s) (lsFs s)" by (simp add: log_inv_def)
  from dir_ok_roll [OF assms(1-4) this log_no_roll(3,5)] roll_begin_frame [OF log_no_roll(5)] assms(6) log_no_roll show ?thesis
    by (simp add: log_inv_def dir_ok_def)
next
  case (log_roll files e force err o1 fs1)
  with assms(6) show ?thesis by (auto simp: log_inv_def rolls_ok_def dir_ok_def)
next
  case (log_write e force c err o1 fs1)
  with assms(6) obtain p h where p: "loPool (lsOut s) = Some p" "pool_ok p" "stream t0 p (lfTrace (lsFs s)) (lsDirect s) (lsQueued s) (lsLost s)"
    "no_fail (lsFs s)" "loFile (lsOut s) = Some h" "dir_ok m d name (lsOut s) (lsFs s)" "calm \<longrightarrow> lsLost s = []" by (auto simp: log_inv_def)
  from stream_write [OF p(3) log_write(3) p(1,2,4,5)] obtain p1 where
    *: "loPool o1 = Some p1" "pool_ok p1" "loFile o1 = Some h" "loDirs o1 = loDirs (lsOut s)" "loOutputs o1 = loOutputs (lsOut s)" "no_fail fs1"
    "lfDirs fs1 = lfDirs (lsFs s)" "lfNext fs1 = lfNext (lsFs s)"
    "stream t0 p1 (lfTrace fs1) (if err = None \<and> \<not> enqueues c force (lsOut s) then lsDirect s @ [e] else lsDirect s)
      (if err = None \<and> enqueues c force (lsOut s) then lsQueued s @ [e] else lsQueued s) (lsLost s)" by blast
  from dir_ok_frame [OF p(6) *(6-8,4,5)] * p(7) log_write(1) show ?thesis by (simp add: log_inv_def)
next
  case (log_proc c o1 fs1)
  from assms(6) obtain p where p: "loPool (lsOut s) = Some p" "pool_ok p" "stream t0 p (lfTrace (lsFs s)) (lsDirect s) (lsQueued s) (lsLost s)"
    "no_fail (lsFs s)" by (auto simp: log_inv_def)
  define L where "L = (if loFile (lsOut s) = None \<and> flushed c (lsOut s) \<noteq> [] then lsLost s @ [flushed c (lsOut s)] else lsLost s)"
  from stream_process [OF p(3) log_proc(2) p(1,2,4), folded L_def] obtain p1 where
    *: "loPool o1 = Some p1" "pool_ok p1" "o1 = (lsOut s)\<lparr>loPool := Some p1\<rparr>" "no_fail fs1" "lfDirs fs1 = lfDirs (lsFs s)" "lfNext fs1 = lfNext (lsFs s)"
    "loFile (lsOut s) = None \<longrightarrow> fs1 = lsFs s" "stream t0 p1 (lfTrace fs1) (lsDirect s) (lsQueued s) L" by (elim exE conjE) (rule that)
  have "calm \<longrightarrow> L = []" using assms(6) log_proc(3) by (cases "lsPhase s") (auto simp: log_inv_def L_def)
  moreover have "case lsPhase s of
        Rolling files e force \<Rightarrow> loFile o1 = None \<and> rolls_ok m d name files o1 fs1
      | _ \<Rightarrow> loFile o1 \<noteq> None \<and> dir_ok m d name o1 fs1"
    using assms(6) * dir_ok_frame [OF _ *(4-6), of m d name "lsOut s" o1] rolls_ok_pool [of m d name _ "lsOut s" "lsFs s" "Some p1"]
    by (cases "lsPhase s") (auto simp: log_inv_def)
  ultimately show ?thesis unfolding log_proc(1) L_def [symmetric] log_inv_def using *(1,2,4,8) by (cases "lsPhase s") simp_all
qed

definition log_start_sys :: "log_output \<Rightarrow> log_fs \<Rightarrow> log_sys" where
  "log_start_sys o' fs = \<lparr>lsOut = o', lsFs = fs, lsPhase = Idle, lsDirect = [], lsQueued = [], lsLost = []\<rparr>"

lemma log_start_inv:
  assumes "log_state m sz d name 0 0 [] o0 fs0" and "loPool o0 = log_newPool n b" and "loPool o0 \<noteq> None"
  shows "log_inv (lfTrace fs0) m d name calm (log_start_sys o0 fs0)"
proof -
  from assms(2,3) obtain p where p: "loPool o0 = Some p" "plCurrent p = 0" "plQueue p = []"
    by (auto simp: log_newPool_def split: if_splits)
  then have "stream (lfTrace fs0) p (lfTrace fs0) [] [] []" by (intro streamI [of _ _ "[]" _ "[]" "[]"]) (simp_all add: pending_def)
  with p assms(1) show ?thesis by (auto simp: log_inv_def log_start_sys_def log_state_def dir_ok_def pool_ok_def)
qed

text \<open>C24. A log in a directory that has no file of its name yet, and that writes every event directly (asynchronous writing is
  not enabled, or the call is forced), keeps its lines in files of equal length: however many events are sent, all of them are
  accepted, the file of age \<open>k\<close> holds the lines of one block of \<open>fileSize\<close> events, complete and in order, the files together
  hold the last blocks, and there are at most as many files as the maximal number. No operation of the file system fails.\<close>

theorem log_files_hold_blocks:
  assumes "sorts_infos srt" and "0 < m" and "m < 2 ^ 63" and "0 < sz" and "sz < 2 ^ 31"
    and "no_fail fs" and "lfDirs fs (clean_dir (ooDir outs)) = Some entries" and "distinct (map fst entries)"
    and "\<forall>n \<in> fst ` set entries. \<not> has_pre (ooName outs) n"
    and "aoEnabled async \<longrightarrow> aoPoolSize async \<ge> 0 \<and> aoBufferSize async \<ge> 0"
    and "\<forall>(e, force, c) \<in> set calls. aoEnabled async \<longrightarrow> force" and "es = map fst calls"
  shows "\<exists>o0 fs0 o1 fs1. NewOutput2 bash outs async fs = Some (o0, fs0) \<and>
    send_all srt (int m) (int sz) calls o0 fs0 = Some (replicate (length calls) None, o1, fs1) \<and>
    (\<forall>k. log_text fs1 (clean_dir (ooDir outs)) (ooName outs) k =
       (let q = (length es - 1) div sz in
        if k < m \<and> k \<le> q then Some (concat (map generateLogInfo (take sz (drop ((q - k) * sz) es)))) else None))"
proof -
  from NewOutput2_fresh [OF assms(6-9,2,10), of bash sz] obtain o0 fs0 where
    0: "NewOutput2 bash outs async fs = Some (o0, fs0)" "log_state m sz (clean_dir (ooDir outs)) (ooName outs) 0 0 [] o0 fs0"
    "loPool o0 = (if aoEnabled async then log_newPool (aoPoolSize async) (aoBufferSize async) else None)" by blast
  have "\<forall>(e, force, c) \<in> set calls. loPool o0 = None \<or> force" using assms(11) 0(3) by auto
  with 0 send_all_state [OF assms(1-5) clean_dir_not_Nil 0(2) this assms(12)] show ?thesis
    unfolding log_state_def Let_def by (fastforce simp: block_text_def)
qed

text \<open>C25. The goroutine that writes behind the callers of a log: under every interleaving of it with calls of \<open>Send\<close>, of which some write directly
  (they are forced, or the queue did not take them in time), what is written to the files are the lines of the direct events and
  the lines taken from the queue, each whole and each of the two in order, but the order between the two is not kept. Events that were put into the queue are,
  in their order, written, lost, in the buffer (at most one) or still in the queue; they are lost only when the
  goroutine writes while a \<open>Send\<close> has the file closed to rotate it.\<close>

theorem async_log_order:
  assumes "sorts_infos srt" and "0 < m" and "m < 2 ^ 63"
    and "no_fail fs" and "lfDirs fs (clean_dir (ooDir outs)) = Some entries" and "distinct (map fst entries)"
    and "\<forall>n \<in> fst ` set entries. \<not> has_pre (ooName outs) n"
    and "aoEnabled async" and "aoPoolSize async \<ge> 0" and "aoBufferSize async \<ge> 0"
    and "NewOutput2 bash outs async fs = Some (o0, fs0)" and "(log_step srt (int m) fileSize calm)\<^sup>*\<^sup>* (log_start_sys o0 fs0) s"
  shows "\<exists>p T W V. loPool (lsOut s) = Some p \<and> lfTrace (lsFs s) = lfTrace fs @ T \<and>
    T \<in> shuffles (map generateLogInfo (lsDirect s)) W \<and> V \<in> shuffles W (lsLost s) \<and>
    V @ (if plCurrent p = 0 then [] else [take (plCurrent p) (plBuffer p)]) @ map generateLogInfo (plQueue p) = map generateLogInfo (lsQueued s) \<and>
    (calm \<longrightarrow> lsLost s = [])"
proof -
  let ?d = "clean_dir (ooDir outs)" and ?n = "ooName outs"
  from NewOutput2_fresh [OF assms(4-7,2), of async bash 1] assms(8-11) have
    0: "log_state m 1 ?d ?n 0 0 [] o0 fs0" "lfTrace fs0 = lfTrace fs" "loPool o0 = log_newPool (aoPoolSize async) (aoBufferSize async)" by auto
  have "loPool o0 \<noteq> None" using 0(3) assms(9,10) by (simp add: log_newPool_def)
  from log_start_inv [OF 0(1,3) this, of calm] have "log_inv (lfTrace fs) m ?d ?n calm (log_start_sys o0 fs0)" by (simp add: 0(2))
  with assms(12) have "log_inv (lfTrace fs) m ?d ?n calm s"
  proof induction
    case (step s1 s2)
    then show ?case using log_step_inv [OF assms(1-3) clean_dir_not_Nil] by blast
  qed
  then show ?thesis unfolding log_inv_def stream_def pending_def by blast
qed

text \<open>After \<open>Close\<close>, and after a rotation that could not open the new file, events are dropped and \<open>Send\<close> reports no error; what is
  in the queue is dropped too.\<close>

lemma closed_log_drops:
  assumes "lo_Close o' fs = (e, o1)" and "loErr o' = None"
  shows "lo_Send srt maxNum fileSize c ev force o1 fs = Some (None, o1, fs)"
    and "lo_process pc o1 fs = Some (b, o2, fs2) \<Longrightarrow> fs2 = fs"
proof -
  have o1: "loFile o1 = None" "loErr o1 = None" using assms by (auto simp: lo_Close_def lo_close_def split: option.splits)
  then show "lo_Send srt maxNum fileSize c ev force o1 fs = Some (None, o1, fs)" by (simp add: lo_Send_def)
  have w: "snd (lo_persist None d fs) = fs" for d by (simp add: lo_persist_def lf_Write_def)
  then show "lo_process pc o1 fs = Some (b, o2, fs2) \<Longrightarrow> fs2 = fs"
    by (auto simp: o1 lo_process_def pl_flush_def pl_write_def Let_def w split: process_case.splits Option.bind_splits if_splits list.splits)
qed

subsection \<open>A small log\<close>

definition ex_srt :: info_sort where
  "ex_srt = sort_key (\<lambda>f. - liSequence f)"

definition ex_log_fs :: log_fs where
  "ex_log_fs = \<lparr>lfDirs = [''.'' \<mapsto> [(''x'', File 0)]], lfData = (\<lambda>_. []), lfNext = 1, lfFail = (\<lambda>_. None), lfPart = 0, lfTrace = []\<rparr>"

definition ex_event :: "string \<Rightarrow> log_event" where
  "ex_event m = \<lparr>evTimestamp = [], evLevel = InfoLevel, evKey = [], evFields = [], evMessage = m\<rparr>"

definition ex_outs :: OutputOptions where
  "ex_outs = \<lparr>ooName = ''a'', ooDir = []\<rparr>"

lemma ex_srt_sorts: "sorts_infos ex_srt"
proof -
  have "sorted_wrt (\<lambda>a b. liSequence a \<ge> liSequence b) (ex_srt xs)" for xs
    using sorted_sort_key [of "\<lambda>f. - liSequence f" xs] by (simp add: ex_srt_def sorted_map)
  then show ?thesis by (simp add: sorts_infos_def ex_srt_def)
qed

lemma ex_log_start:
  "no_fail ex_log_fs" "lfDirs ex_log_fs (clean_dir (ooDir ex_outs)) = Some [(''x'', File 0)]" "distinct (map fst [(''x'', File 0)])"
  "\<forall>n \<in> fst ` set [(''x'', File 0)]. \<not> has_pre (ooName ex_outs) n"
  by (simp_all add: no_fail_def ex_log_fs_def clean_dir_def ex_outs_def has_pre_def)

definition ex_calls :: "log_call list" where
  \<comment> \<open>ordinary calls, and one that is forced\<close>
  "ex_calls = [(ex_event ''1'', False, EncQueued), (ex_event ''2'', True, EncTimeout), (ex_event ''3'', False, EncTimeout)]"

theorem log_files_hold_blocks_witness:
  "\<exists>o0 fs0 o1 fs1. NewOutput2 (\<lambda>_ fs. fs) ex_outs (NewAsyncOptions []) ex_log_fs = Some (o0, fs0) \<and>
    send_all ex_srt 2 2 ex_calls o0 fs0 = Some ([None, None, None], o1, fs1) \<and>
    log_text fs1 ''.'' ''a'' 1 = Some (generateLogInfo (ex_event ''1'') @ generateLogInfo (ex_event ''2'')) \<and>
    log_text fs1 ''.'' ''a'' 0 = Some (generateLogInfo (ex_event ''3''))"
proof -
  have a: "aoEnabled (NewAsyncOptions []) \<longrightarrow> aoPoolSize (NewAsyncOptions []) \<ge> 0 \<and> aoBufferSize (NewAsyncOptions []) \<ge> 0"
    "\<forall>(e, force, c) \<in> set ex_calls. aoEnabled (NewAsyncOptions []) \<longrightarrow> force"
    by (simp_all add: NewAsyncOptions_def)
  define evs where "evs = map ex_event [''1'', ''2'', ''3'']"
  have d: "clean_dir (ooDir ex_outs) = ''.''" "ooName ex_outs = ''a''" "length evs = 3" "length ex_calls = 3" "evs = map fst ex_calls"
    by (simp_all add: clean_dir_def ex_outs_def evs_def ex_calls_def)
  from log_files_hold_blocks [OF ex_srt_sorts, of 2 2 ex_log_fs ex_outs, OF _ _ _ _ ex_log_start a d(5), of "\<lambda>_ fs. fs"]
  obtain o0 fs0 o1 fs1 where *: "NewOutput2 (\<lambda>_ fs. fs) ex_outs (NewAsyncOptions []) ex_log_fs = Some (o0, fs0)"
    "send_all ex_srt 2 2 ex_calls o0 fs0 = Some (replicate 3 None, o1, fs1)"
    "\<And>k. log_text fs1 ''.'' ''a'' k = (if k < 2 \<and> k \<le> 1 then Some (concat (map generateLogInfo (take 2 (drop ((1 - k) * 2) evs)))) else None)"
    by (auto simp: d(1-4))
  from *(3) [of 0] *(3) [of 1] have "log_text fs1 ''.'' ''a'' 1 = Some (generateLogInfo (ex_event ''1'') @ generateLogInfo (ex_event ''2''))"
    "log_text fs1 ''.'' ''a'' 0 = Some (generateLogInfo (ex_event ''3''))" by (simp_all add: evs_def)
  moreover have "replicate 3 None = [None, None, None]" by (simp add: numeral_3_eq_3)
  ultimately show ?thesis using *(1,2) by metis
qed

definition ex_async :: AsyncOptions where
  "ex_async = NewAsyncOptions [EnableAsync True, BufferSize 1]"

definition ex_out :: "log_pool \<Rightarrow> log_output" where
  "ex_out p = \<lparr>loErr = None, loDirs = ''.'', loFile = Some \<lparr>hdDir = ''.'', hdName = ''a'', hdInode = 1\<rparr>, loCurrent = 0,
     loOutputs = ex_outs, loAsync = ex_async, loPool = Some p\<rparr>"

definition ex_pool :: "nat \<Rightarrow> log_event list \<Rightarrow> string \<Rightarrow> log_pool" where
  "ex_pool n q b = \<lparr>plQueue = q, plSize = 100, plCurrent = n, plBuffer = b, plTimer = True, plClosed = False\<rparr>"

definition ex_fs0 :: log_fs where
  "ex_fs0 = ex_log_fs\<lparr>lfDirs := [''.'' \<mapsto> [(''x'', File 0), (''a'', File 1)]], lfNext := 2\<rparr>"

lemma ex_new_output: "NewOutput2 (\<lambda>_ fs. fs) ex_outs ex_async ex_log_fs = Some (ex_out (ex_pool 0 [] [CHR 0x00]), ex_fs0)"
  by (simp add: NewOutput2_def openLogFile_def lf_OpenFile_def ex_log_fs_def ex_outs_def clean_dir_def ex_async_def NewAsyncOptions_def EnableAsync_def
      BufferSize_def or_default_def log_newPool_def refreshFileSize_def wrap32_def ex_out_def ex_pool_def ex_fs0_def
      fun_upd_idem)

theorem async_log_order_witness:
  "\<exists>s. (log_step ex_srt 2 100 True)\<^sup>*\<^sup>* (log_start_sys (ex_out (ex_pool 0 [] [CHR 0x00])) ex_fs0) s \<and> lsQueued s = [ex_event ''1''] \<and>
    lsDirect s = [] \<and> lfTrace (lsFs s) = [] \<and> (\<exists>p. loPool (lsOut s) = Some p \<and> take (plCurrent p) (plBuffer p) = generateLogInfo (ex_event ''1''))"
proof -
  let ?e = "ex_event ''1''" and ?l = "generateLogInfo (ex_event ''1'')"
  let ?s0 = "log_start_sys (ex_out (ex_pool 0 [] [CHR 0x00])) ex_fs0"
  let ?s1 = "?s0\<lparr>lsPhase := Writing ?e False\<rparr>"
  let ?s2 = "?s0\<lparr>lsOut := (ex_out (ex_pool 0 [?e] [CHR 0x00]))\<lparr>loCurrent := 1\<rparr>, lsQueued := [?e]\<rparr>"
  let ?s3 = "?s2\<lparr>lsOut := (ex_out (ex_pool (length ?l) [] ?l))\<lparr>loCurrent := 1\<rparr>\<rparr>"
  have "log_step ex_srt 2 100 True ?s0 ?s1" by (rule log_start) (simp_all add: log_start_sys_def ex_out_def)
  moreover have "log_step ex_srt 2 100 True ?s1 ?s2"
    using log_write [of ?s1 ?e False EncQueued None "(ex_out (ex_pool 0 [?e] [CHR 0x00]))\<lparr>loCurrent := 1\<rparr>" ex_fs0 ex_srt 2 100 True]
    by (simp add: log_start_sys_def ex_out_def send_write_def pl_enc_def ex_pool_def enqueues_def wrap32_def)
  moreover have "log_step ex_srt 2 100 True ?s2 ?s3"
    using log_proc [of ProcEvent ?s2 "(ex_out (ex_pool (length ?l) [] ?l))\<lparr>loCurrent := 1\<rparr>" ex_fs0 True ex_srt 2 100]
    by (simp add: log_start_sys_def ex_out_def lo_process_def pl_write_def ex_pool_def lo_persist_def)
  ultimately have reach: "(log_step ex_srt 2 100 True)\<^sup>*\<^sup>* ?s0 ?s3" by (meson converse_rtranclp_into_rtranclp rtranclp.rtrancl_refl)
  have "aoEnabled ex_async" "aoPoolSize ex_async \<ge> 0" "aoBufferSize ex_async \<ge> 0"
    by (simp_all add: ex_async_def NewAsyncOptions_def EnableAsync_def BufferSize_def or_default_def)
  from async_log_order [OF ex_srt_sorts _ _ ex_log_start this ex_new_output, of 2 100 True ?s3] reach obtain p where
    "loPool (lsOut ?s3) = Some p" "(if plCurrent p = 0 then [] else [take (plCurrent p) (plBuffer p)]) @ map generateLogInfo (plQueue p) = [?l]"
    by (force simp: log_start_sys_def ex_fs0_def ex_log_fs_def ex_out_def ex_pool_def)
  with reach show ?thesis by (intro exI [of _ ?s3]) (auto simp: log_start_sys_def ex_fs0_def ex_log_fs_def ex_out_def ex_pool_def)
qed

end
