(* ===== verification/LogSync.thy ===== *)
theory LogSync
  imports LogFile
begin

text \<open>
  \<^verbatim>\<open>log/log/\<close>: the older logger, which writes every line at once, looks up the size of the file by its name before each line and opens the
  file again when it has been removed. Its rotation is that of \<open>LogFile\<close>, over an output without counter and queue. Sizes are in bytes; a
  directory that has taken the place of the file counts as empty.
\<close>

subsection \<open>The output\<close>

record lg_output =
  lgOpts :: OutputOptions
  lgDirs :: string
  lgErr :: "goerr option"
  lgFile :: "handle option"

definition lg_NewOutput :: "shell \<Rightarrow> (OutputOptions \<Rightarrow> OutputOptions) list \<Rightarrow> log_fs \<Rightarrow> lg_output \<times> log_fs" where
  \<comment> \<open>an error of opening the file is kept\<close>
  "lg_NewOutput bash opts fs =
     (let options = fold id opts \<lparr>ooName = [], ooDir = []\<rparr>;
          options = (if length (ooName options) = 0 then options\<lparr>ooName := DefaultOutputName\<rparr> else options);
          fs = (if ooDir options \<noteq> [] \<and> \<not> pathExists (ooDir options) fs then bash (''mkdir -p  '' @ ooDir options) fs else fs);
          (f, fs) = lf_OpenFile (clean_dir (ooDir options)) (ooName options) fs
      in (\<lparr>lgOpts = options, lgDirs = clean_dir (ooDir options), lgErr = (case f of Inl e \<Rightarrow> Some e | Inr _ \<Rightarrow> None),
           lgFile = (case f of Inl _ \<Rightarrow> None | Inr h \<Rightarrow> Some h)\<rparr>, fs))"

definition lg_close :: "lg_output \<Rightarrow> log_fs \<Rightarrow> goerr option \<times> lg_output" where
  "lg_close o' fs =
     (case lgFile o' of
        None \<Rightarrow> (None, o')
      | Some h \<Rightarrow> (lfFail fs (FClose (hdInode h)), o'\<lparr>lgFile := None\<rparr>))"

definition lg_Close :: "lg_output \<Rightarrow> log_fs \<Rightarrow> goerr option \<times> lg_output" where
  "lg_Close o' fs = lg_close o' fs"

definition lg_dir :: "lg_output \<Rightarrow> lg_output option" where
  "lg_dir o' =
     (if lgDirs o' = [] then (case lgFile o' of None \<Rightarrow> None | Some h \<Rightarrow> Some (o'\<lparr>lgDirs := hdDir h\<rparr>)) else Some o')"

definition lg_openNew :: "lg_output \<Rightarrow> log_fs \<Rightarrow> goerr option \<times> lg_output \<times> log_fs" where
  "lg_openNew o' fs =
     (case lf_OpenFile (lgDirs o') (ooName (lgOpts o')) fs of
        (Inl e, fs) \<Rightarrow> (Some e, o'\<lparr>lgFile := None\<rparr>, fs)
      | (Inr h, fs) \<Rightarrow> (None, o'\<lparr>lgFile := Some h\<rparr>, fs))"

definition lg_rollRunOnce :: "info_sort \<Rightarrow> int \<Rightarrow> lg_output \<Rightarrow> log_fs \<Rightarrow> (goerr option \<times> lg_output \<times> log_fs) option" where
  "lg_rollRunOnce srt maxNum o' fs = do {
     o' \<leftarrow> lg_dir o';
     case oldLogFiles srt (lgDirs o') (ooName (lgOpts o')) fs of
       Inl e \<Rightarrow> Some (Some e, o', fs)
     | Inr files \<Rightarrow>
         if length files < 1 then Some (None, o', fs)
         else
           (case lg_close o' fs of
              (Some e, o') \<Rightarrow> Some (Some e, o', fs)
            | (None, o') \<Rightarrow> do {
                o' \<leftarrow> lg_dir o';
                let (err, fs) = roll_files maxNum (lgDirs o') (ooName (lgOpts o')) files None fs;
                Some (case lg_openNew o' fs of
                        (Some e, o', fs) \<Rightarrow> (Some e, o', fs)
                      | (None, o', fs) \<Rightarrow> (err, o', fs))
              })
   }"

definition lg_line :: "log_event \<Rightarrow> string" where
  \<comment> \<open>\<open>fmt.Sprintf\<close> of six strings\<close>
  "lg_line e =
     ''['' @ evTimestamp e @ ''] ['' @ evFields e @ ''] ['' @ Levels (evLevel e) @ ''] - ['' @ ''log/output.go'' @ ''] - ['' @ evKey e @
     ''] - '' @ evMessage e @ [CHR 0x0A]"

datatype stat_result = StatNotExist | StatFails | StatSize int

definition os_Stat :: "string \<Rightarrow> string \<Rightarrow> log_fs \<Rightarrow> stat_result" where
  "os_Stat d n fs =
     (if lfFail fs (FStat d n) \<noteq> None then StatFails
      else case dir_map fs d n of
        None \<Rightarrow> StatNotExist
      | Some Subdir \<Rightarrow> StatSize 0
      | Some (File i) \<Rightarrow> StatSize (int (length (lfData fs i))))"

definition lg_Send :: "info_sort \<Rightarrow> int \<Rightarrow> int \<Rightarrow> log_event \<Rightarrow> lg_output \<Rightarrow> log_fs \<Rightarrow> (goerr option \<times> lg_output \<times> log_fs) option" where
  \<comment> \<open>\<open>None\<close>: the size is read of a nil result when \<open>Stat\<close> fails for another reason than a missing file\<close>
  "lg_Send srt maxNum fileSize e o' fs =
     (case lgFile o' of
        None \<Rightarrow> Some (lgErr o', o', fs)
      | Some f \<Rightarrow> do {
          (o', fs) \<leftarrow>
            (case os_Stat (hdDir f) (hdName f) fs of
               StatNotExist \<Rightarrow>
                 (case lf_OpenFile (hdDir f) (hdName f) fs of
                    (Inl _, fs) \<Rightarrow> Some (o'\<lparr>lgFile := None\<rparr>, fs)
                  | (Inr h, fs) \<Rightarrow> Some (o'\<lparr>lgFile := Some h\<rparr>, fs))
             | StatFails \<Rightarrow> None
             | StatSize n \<Rightarrow>
                 if n \<ge> fileSize then do { (_, o', fs) \<leftarrow> lg_rollRunOnce srt maxNum o' fs; Some (o', fs) }
                 else Some (o', fs));
          let (err, fs) = lf_Write (lgFile o') (lg_line e) fs;
          Some (err, o', fs)
        })"

subsection \<open>The logger\<close>

type_synonym 'w lg_Output = "log_event \<Rightarrow> 'w \<Rightarrow> (goerr option \<times> 'w) option"

record 'w lg_os =
  lgLevel :: int
  lgOp :: "'w lg_Output option"
  lgFields :: string
  lgOpOption :: OutputOptions

definition lg_WithLevel :: "int \<Rightarrow> 'w lg_os \<Rightarrow> 'w lg_os" where
  "lg_WithLevel l o' = o'\<lparr>lgLevel := l\<rparr>"

definition lg_WithOutput :: "'w lg_Output \<Rightarrow> 'w lg_os \<Rightarrow> 'w lg_os" where
  "lg_WithOutput ot o' = o'\<lparr>lgOp := Some ot\<rparr>"

definition lg_WithFields :: "string \<Rightarrow> 'w lg_os \<Rightarrow> 'w lg_os" where
  "lg_WithFields f o' = o'\<lparr>lgFields := f\<rparr>"

definition lg_WithName :: "string \<Rightarrow> 'w lg_os \<Rightarrow> 'w lg_os" where
  "lg_WithName name o' = o'\<lparr>lgOpOption := (lgOpOption o')\<lparr>ooName := name\<rparr>\<rparr>"

definition lg_WithDir :: "string \<Rightarrow> 'w lg_os \<Rightarrow> 'w lg_os" where
  "lg_WithDir dir o' = o'\<lparr>lgOpOption := (lgOpOption o')\<lparr>ooDir := dir\<rparr>\<rparr>"

definition lg_newOS ::
  "((OutputOptions \<Rightarrow> OutputOptions) list \<Rightarrow> 'w \<Rightarrow> 'w lg_Output \<times> 'w) \<Rightarrow> ('w lg_os \<Rightarrow> 'w lg_os) list \<Rightarrow> 'w \<Rightarrow> 'w lg_os \<times> 'w" where
  \<comment> \<open>\<open>mk\<close> is \<open>NewOutput\<close> with the allocation of its result\<close>
  "lg_newOS mk opts w =
     (let options = fold id opts \<lparr>lgLevel = InfoLevel, lgOp = None, lgFields = [], lgOpOption = \<lparr>ooName = [], ooDir = []\<rparr>\<rparr>
      in case lgOp options of
           Some _ \<Rightarrow> (options, w)
         | None \<Rightarrow>
             (let (ot, w) = mk [OutputDir (ooDir (lgOpOption options)), OutputName (ooName (lgOpOption options))] w
              in (options\<lparr>lgOp := Some ot\<rparr>, w)))"

definition lg_Init :: "('w lg_os \<Rightarrow> 'w lg_os) list \<Rightarrow> 'w lg_os \<Rightarrow> 'w lg_os" where
  "lg_Init opts o' = fold id opts o'"

definition lg_SetOption :: "('w lg_os \<Rightarrow> 'w lg_os) \<Rightarrow> 'w lg_os \<Rightarrow> 'w lg_os" where
  "lg_SetOption opt o' = opt o'"

definition lg_os_WithFields :: "string \<Rightarrow> 'w lg_os \<Rightarrow> 'w lg_os" where
  "lg_os_WithFields f o' = (let options = o' in options\<lparr>lgFields := f\<rparr>)"

definition lg_log :: "string \<Rightarrow> int \<Rightarrow> string \<Rightarrow> string \<Rightarrow> 'w lg_os \<Rightarrow> 'w \<Rightarrow> (goerr option \<times> 'w) option" where
  "lg_log timestamp l key m o' w =
     (if l < lgLevel o' then Some (None, w)
      else do {
        send \<leftarrow> lgOp o';
        send \<lparr>evTimestamp = timestamp, evLevel = l, evKey = key, evFields = lgFields o', evMessage = m\<rparr> w
      })"

definition lg_methods :: "(string \<times> int) list" where
  "lg_methods =
     [(''Debug'', DebugLevel), (''Info'', InfoLevel), (''Warn'', WarnLevel), (''Error'', ErrorLevel), (''Fatal'', FatalLevel),
      (''Debugf'', DebugLevel), (''Infof'', InfoLevel), (''Warnf'', WarnLevel), (''Errorf'', ErrorLevel), (''Fatalf'', FatalLevel),
      (''DebugK'', DebugLevel), (''InfoK'', InfoLevel), (''WarnK'', WarnLevel), (''ErrorK'', ErrorLevel), (''FatalK'', FatalLevel)]"

definition lg_call :: "string \<Rightarrow> string \<Rightarrow> string \<Rightarrow> string \<Rightarrow> 'w lg_os \<Rightarrow> 'w \<Rightarrow> 'w option" where
  "lg_call name timestamp key text o' w = do {
     level \<leftarrow> map_of lg_methods name;
     (_, w) \<leftarrow> lg_log timestamp level key text o' w;
     Some w
   }"

subsection \<open>The same rotation\<close>

definition as_output :: "lg_output \<Rightarrow> log_output" where
  "as_output o' =
     \<lparr>loErr = lgErr o', loDirs = lgDirs o', loFile = lgFile o', loCurrent = 0, loOutputs = lgOpts o', loAsync = NewAsyncOptions [], loPool = None\<rparr>"

lemma lg_line_same: "lg_line e = generateLogInfo e"
  by (simp add: lg_line_def generateLogInfo_def)

lemma same_rotation:
  assumes "lgFile o' \<noteq> None"
  shows "rollRunOnce srt maxNum (as_output o') fs = map_option (\<lambda>(err, o1, fs1). (err, as_output o1, fs1)) (lg_rollRunOnce srt maxNum o' fs)"
proof -
  have openNew: "openNew (as_output o1) fs1 = (case lg_openNew o1 fs1 of (e, o2, fs2) \<Rightarrow> (e, as_output o2, fs2))" for o1 fs1
    by (auto simp: openNew_def lg_openNew_def as_output_def split: prod.splits sum.splits)
  have lg_dir: "lo_dir (as_output o1) = map_option as_output (lg_dir o1)" for o1
    by (auto simp: lo_dir_def lg_dir_def as_output_def split: option.splits)
  have close: "lo_close (as_output o1) fs = (case lg_close o1 fs of (e, o2) \<Rightarrow> (e, as_output o2))" if "lgFile o1 \<noteq> None" for o1
    using that by (auto simp: lo_close_def lg_close_def as_output_def)
  have dirs: "loDirs (as_output o1) = lgDirs o1" "loOutputs (as_output o1) = lgOpts o1" for o1 by (simp_all add: as_output_def)
  show ?thesis
  proof (cases "lg_dir o'")
    case None
    then show ?thesis by (simp add: rollRunOnce_def roll_begin_def lg_rollRunOnce_def lg_dir)
  next
    case (Some o1)
    then have f: "lgFile o1 \<noteq> None" using assms by (auto simp: lg_dir_def split: if_splits option.splits)
    show ?thesis
      using Some close [OF f]
      by (auto simp: rollRunOnce_def roll_begin_def roll_end_def lg_rollRunOnce_def lg_dir dirs openNew Let_def
          split: sum.splits prod.splits option.splits Option.bind_splits)
  qed
qed

subsection \<open>What the files hold\<close>

definition lines_of :: "log_event list \<Rightarrow> string" where
  "lines_of es = concat (map lg_line es)"

definition lg_state :: "nat \<Rightarrow> string \<Rightarrow> string \<Rightarrow> log_event list list \<Rightarrow> lg_output \<Rightarrow> log_fs \<Rightarrow> bool" where
  \<comment> \<open>the blocks of events, the newest first\<close>
  "lg_state m d name bs o' fs \<longleftrightarrow>
     bs \<noteq> [] \<and> no_fail fs \<and> logs_ok m d name fs \<and> lgDirs o' = d \<and> ooName (lgOpts o') = name \<and>
     (\<exists>h. lgFile o' = Some h \<and> hdDir h = d \<and> hdName h = name \<and> dir_map fs d name = Some (File (hdInode h)) \<and>
        (\<forall>k. dir_map fs d (log_name name (Suc k)) \<noteq> Some (File (hdInode h)))) \<and>
     (\<forall>k. log_text fs d name k = (if k < m \<and> k < length bs then Some (lines_of (bs ! k)) else None))"

lemma lg_state_roll:
  assumes "sorts_infos srt" and "0 < m" and "m < 2 ^ 63" and "d \<noteq> []" and "lg_state m d name bs o' fs"
  shows "\<exists>o1 fs1. lg_rollRunOnce srt (int m) o' fs = Some (None, o1, fs1) \<and> lg_state m d name ([] # bs) o1 fs1"
proof -
  from assms(5) have st: "no_fail fs" "logs_ok m d name fs" "lgDirs o' = d" "ooName (lgOpts o') = name" "lgFile o' \<noteq> None" "dir_map fs d name \<noteq> None"
    "\<And>k. log_text fs d name k = (if k < m \<and> k < length bs then Some (lines_of (bs ! k)) else None)" by (auto simp: lg_state_def)
  then have "loDirs (as_output o') = d" "ooName (loOutputs (as_output o')) = name" "loFile (as_output o') \<noteq> None" by (simp_all add: as_output_def)
  from rollRunOnce_shifts [OF assms(1) st(1,2) assms(2,3) this(1) assms(4) this(2,3) st(6)] obtain h fs' where
    r: "rollRunOnce srt (int m) (as_output o') fs = Some (None, (as_output o')\<lparr>loFile := Some h\<rparr>, fs')" "no_fail fs'" "logs_ok m d name fs'"
    "dir_map fs' d name = Some (File (hdInode h))" "log_text fs' d name 0 = Some []"
    "\<And>k. log_text fs' d name (Suc k) = (if Suc k < m then log_text fs d name k else None)"
    "\<And>k. dir_map fs' d (log_name name (Suc k)) \<noteq> Some (File (hdInode h))" "hdDir h = d" "hdName h = name" by blast
  from r(1) same_rotation [OF st(5), of srt "int m" fs] obtain o1 where
    o1: "lg_rollRunOnce srt (int m) o' fs = Some (None, o1, fs')" "as_output o1 = (as_output o')\<lparr>loFile := Some h\<rparr>" by auto
  then have "lgFile o1 = Some h" "lgDirs o1 = d" "lgOpts o1 = lgOpts o'" using st(3) by (auto simp: as_output_def)
  moreover have "log_text fs' d name k = (if k < m \<and> k < length ([] # bs) then Some (lines_of (([] # bs) ! k)) else None)" for k
    using r(5,6) st(7) assms(2) by (cases k) (auto simp: lines_of_def)
  ultimately have "lg_state m d name ([] # bs) o1 fs'" using r(2-4,7-9) st(4) unfolding lg_state_def by auto
  with o1(1) show ?thesis by blast
qed

lemma lg_state_write:
  assumes "lg_state m d name (b # bs) o' fs" and "0 < m"
  shows "\<exists>fs1. lf_Write (lgFile o') (lg_line e) fs = (None, fs1) \<and> lg_state m d name ((b @ [e]) # bs) o' fs1"
proof -
  from assms(1) obtain h where st: "no_fail fs" "logs_ok m d name fs" "lgDirs o' = d" "ooName (lgOpts o') = name" "lgFile o' = Some h" "hdDir h = d" "hdName h = name"
    "dir_map fs d name = Some (File (hdInode h))" "\<And>k. dir_map fs d (log_name name (Suc k)) \<noteq> Some (File (hdInode h))"
    "\<And>k. log_text fs d name k = (if k < m \<and> k < length (b # bs) then Some (lines_of ((b # bs) ! k)) else None)" unfolding lg_state_def by blast
  from lf_Write_text [OF st(1,8,9), of "lg_line e"] obtain fs1 where
    w: "lf_Write (Some h) (lg_line e) fs = (None, fs1)" "no_fail fs1" "lfDirs fs1 = lfDirs fs" "lfNext fs1 = lfNext fs"
    "\<And>k. log_text fs1 d name k = (if k = 0 then map_option (\<lambda>t. t @ lg_line e) (log_text fs d name 0) else log_text fs d name k)" by blast
  have dm: "dir_map fs1 = dir_map fs" using w(3) by (simp add: dir_map_def fun_eq_iff)
  have "log_text fs1 d name k = (if k < m \<and> k < length ((b @ [e]) # bs) then Some (lines_of (((b @ [e]) # bs) ! k)) else None)" for k
    using w(5) [of k] st(10) [of k] st(10) [of 0] assms(2) by (cases k) (auto simp: lines_of_def)
  moreover have "logs_ok m d name fs1" using st(2) w(3,4) by (simp add: logs_ok_def dm)
  ultimately have "lg_state m d name ((b @ [e]) # bs) o' fs1" using st w(2) by (simp add: lg_state_def dm)
  with w(1) st(5) show ?thesis by auto
qed

definition blocks_ok :: "int \<Rightarrow> log_event list list \<Rightarrow> bool" where
  \<comment> \<open>every block but the newest has reached the size, and none had before its last line\<close>
  "blocks_ok sz bs \<longleftrightarrow> (\<forall>b \<in> set (tl bs). int (length (lines_of b)) \<ge> sz) \<and> (\<forall>b \<in> set bs. b \<noteq> [] \<longrightarrow> int (length (lines_of (butlast b))) < sz)"

lemma lg_Send_state:
  assumes "sorts_infos srt" and "0 < m" and "m < 2 ^ 63" and "d \<noteq> []" and "0 < sz" and "lg_state m d name bs o' fs" and "blocks_ok sz bs"
  shows "\<exists>o1 fs1 bs1. lg_Send srt (int m) sz e o' fs = Some (None, o1, fs1) \<and> lg_state m d name bs1 o1 fs1 \<and> blocks_ok sz bs1 \<and>
    concat (rev bs1) = concat (rev bs) @ [e]"
proof -
  from assms(6) obtain b cs where bs: "bs = b # cs" by (cases bs) (auto simp: lg_state_def)
  from assms(6) obtain h where h: "lgFile o' = Some h" "hdDir h = d" "hdName h = name" "dir_map fs d name = Some (File (hdInode h))" "no_fail fs"
    "log_text fs d name 0 = Some (lines_of b)" using assms(2) by (auto simp: lg_state_def bs)
  have stat: "os_Stat (hdDir h) (hdName h) fs = StatSize (int (length (lines_of b)))"
    using h by (auto simp: os_Stat_def no_fail_def log_text_def log_name_def)
  show ?thesis
  proof (cases "int (length (lines_of b)) \<ge> sz")
    case True
    from lg_state_roll [OF assms(1-4,6)] obtain o1 fs1 where r: "lg_rollRunOnce srt (int m) o' fs = Some (None, o1, fs1)" "lg_state m d name ([] # bs) o1 fs1" by blast
    from lg_state_write [OF r(2) assms(2), of e] obtain fs2 where w: "lf_Write (lgFile o1) (lg_line e) fs1 = (None, fs2)" "lg_state m d name ([e] # bs) o1 fs2" by auto
    have "blocks_ok sz ([e] # bs)" using assms(5,7) True bs by (auto simp: blocks_ok_def lines_of_def)
    moreover have "lg_Send srt (int m) sz e o' fs = Some (None, o1, fs2)" using h(1) stat True r(1) w(1) by (simp add: lg_Send_def)
    moreover have "concat (rev ([e] # bs)) = concat (rev bs) @ [e]" by simp
    ultimately show ?thesis using w(2) by blast
  next
    case False
    from lg_state_write [OF assms(6) [unfolded bs] assms(2), of e] obtain fs2 where
      w: "lf_Write (lgFile o') (lg_line e) fs = (None, fs2)" "lg_state m d name ((b @ [e]) # cs) o' fs2" by blast
    have "blocks_ok sz ((b @ [e]) # cs)" using assms(7) False bs by (auto simp: blocks_ok_def)
    moreover have "lg_Send srt (int m) sz e o' fs = Some (None, o', fs2)" using h(1) stat False w(1) by (simp add: lg_Send_def)
    moreover have "concat (rev ((b @ [e]) # cs)) = concat (rev bs) @ [e]" by (simp add: bs)
    ultimately show ?thesis using w(2) by blast
  qed
qed

fun lg_sends :: "info_sort \<Rightarrow> int \<Rightarrow> int \<Rightarrow> log_event list \<Rightarrow> lg_output \<Rightarrow> log_fs \<Rightarrow> (goerr option list \<times> lg_output \<times> log_fs) option" where
  "lg_sends srt maxNum fileSize [] o' fs = Some ([], o', fs)"
| "lg_sends srt maxNum fileSize (e # es) o' fs = do {
     (err, o', fs) \<leftarrow> lg_Send srt maxNum fileSize e o' fs;
     (errs, o', fs) \<leftarrow> lg_sends srt maxNum fileSize es o' fs;
     Some (err # errs, o', fs)
   }"

lemma lg_sends_state:
  assumes "sorts_infos srt" and "0 < m" and "m < 2 ^ 63" and "d \<noteq> []" and "0 < sz" and "lg_state m d name bs o' fs" and "blocks_ok sz bs"
  shows "\<exists>o1 fs1 bs1. lg_sends srt (int m) sz es o' fs = Some (replicate (length es) None, o1, fs1) \<and> lg_state m d name bs1 o1 fs1 \<and>
    blocks_ok sz bs1 \<and> concat (rev bs1) = concat (rev bs) @ es"
  using assms(6,7)
proof (induction es arbitrary: bs o' fs)
  case Nil
  then show ?case by auto
next
  case (Cons e es)
  from lg_Send_state [OF assms(1-5) Cons.prems, of e] obtain o1 fs1 bs1 where
    s: "lg_Send srt (int m) sz e o' fs = Some (None, o1, fs1)" "lg_state m d name bs1 o1 fs1" "blocks_ok sz bs1" "concat (rev bs1) = concat (rev bs) @ [e]" by blast
  from Cons.IH [OF s(2,3)] obtain o2 fs2 bs2 where
    "lg_sends srt (int m) sz es o1 fs1 = Some (replicate (length es) None, o2, fs2)" "lg_state m d name bs2 o2 fs2" "blocks_ok sz bs2"
    "concat (rev bs2) = concat (rev bs1) @ es" by blast
  with s(1,4) show ?case by (intro exI [of _ o2] exI [of _ fs2] exI [of _ bs2]) simp
qed

lemma lf_OpenFile_handle: "lf_OpenFile d n fs = (Inr h, fs1) \<Longrightarrow> hdDir h = d \<and> hdName h = n"
  by (auto simp: lf_OpenFile_def split: option.splits dirent.splits)

lemma lg_NewOutput_fresh:
  assumes "no_fail fs" and "lfDirs fs (clean_dir dir) = Some entries" and "distinct (map fst entries)"
    and "\<forall>n \<in> fst ` set entries. \<not> has_pre name n" and "0 < m" and "name \<noteq> []"
  shows "\<exists>o0 fs0. lg_NewOutput bash [OutputDir dir, OutputName name] fs = (o0, fs0) \<and> lg_state m (clean_dir dir) name [[]] o0 fs0"
proof -
  let ?outs = "\<lparr>ooName = name, ooDir = dir\<rparr>" and ?a = "NewAsyncOptions []"
  have a: "\<not> aoEnabled ?a" by (simp add: NewAsyncOptions_def)
  from NewOutput2_fresh [of fs ?outs entries m ?a bash 1] a assms obtain o0 fs0 where
    n: "NewOutput2 bash ?outs ?a fs = Some (o0, fs0)" "log_state m 1 (clean_dir dir) name 0 0 [] o0 fs0" by auto
  then obtain h where h: "openLogFile bash ?outs fs = (Inr h, fs0)" "loFile o0 = Some h" using a
    by (auto simp: NewOutput2_def split: prod.splits sum.splits)
  then have "hdDir h = clean_dir dir" "hdName h = name"
    by (auto simp: openLogFile_def Let_def dest: lf_OpenFile_handle)
  moreover have "lg_NewOutput bash [OutputDir dir, OutputName name] fs =
      (\<lparr>lgOpts = ?outs, lgDirs = clean_dir dir, lgErr = None, lgFile = Some h\<rparr>, fs0)"
    using h(1) assms(6) by (auto simp: lg_NewOutput_def openLogFile_def OutputDir_def OutputName_def Let_def)
  moreover have "log_text fs0 (clean_dir dir) name k = (if k < m \<and> k < length [[]] then Some (lines_of ([[]] ! k)) else None)" for k
    using n(2) by (auto simp: log_state_def block_text_def lines_of_def)
  ultimately show ?thesis using n(2) h(2) by (auto simp: lg_state_def log_state_def)
qed

text \<open>The older logger, started in a directory that has no file of its name yet: however many events are sent, all of them are accepted, and the files
  hold the last of a sequence of blocks into which the events fall in their order. Every block but the newest has reached the size limit, with its last
  line: a line is never split, and no file goes on after the line that reaches the limit.\<close>

lemma size_rotated_blocks:
  assumes "sorts_infos srt" and "0 < m" and "m < 2 ^ 63" and "0 < sz" and "name \<noteq> []"
    and "no_fail fs" and "lfDirs fs (clean_dir dir) = Some entries" and "distinct (map fst entries)" and "\<forall>n \<in> fst ` set entries. \<not> has_pre name n"
  shows "\<exists>o0 fs0 o1 fs1 bs. lg_NewOutput bash [OutputDir dir, OutputName name] fs = (o0, fs0) \<and>
    lg_sends srt (int m) sz es o0 fs0 = Some (replicate (length es) None, o1, fs1) \<and> concat (rev bs) = es \<and>
    (\<forall>k. log_text fs1 (clean_dir dir) name k = (if k < m \<and> k < length bs then Some (lines_of (bs ! k)) else None)) \<and>
    (\<forall>b \<in> set (tl bs). int (length (lines_of b)) \<ge> sz) \<and> (\<forall>b \<in> set bs. b \<noteq> [] \<longrightarrow> int (length (lines_of (butlast b))) < sz)"
proof -
  from lg_NewOutput_fresh [OF assms(6-9,2,5), of bash] obtain o0 fs0 where
    0: "lg_NewOutput bash [OutputDir dir, OutputName name] fs = (o0, fs0)" "lg_state m (clean_dir dir) name [[]] o0 fs0" by blast
  have "blocks_ok sz [[]]" by (simp add: blocks_ok_def)
  from lg_sends_state [OF assms(1-3) clean_dir_not_Nil assms(4) 0(2) this, of es] obtain o1 fs1 bs where
    "lg_sends srt (int m) sz es o0 fs0 = Some (replicate (length es) None, o1, fs1)" "lg_state m (clean_dir dir) name bs o1 fs1"
    "blocks_ok sz bs" "concat (rev bs) = es" by auto
  with 0(1) show ?thesis unfolding lg_state_def blocks_ok_def by blast
qed

end
