(* ===== verification/Apollo.thy ===== *)
theory Apollo
  imports Paths NetUtil "HOL-Library.AList"
begin

text \<open>
  \<^verbatim>\<open>apollo-config/\<close>: a client of the Apollo configuration service. It keeps the configuration in a cache, asks the service by long polls whether it
  has changed, fetches it, tells a listener what has changed, and keeps a copy in a file.

  Representation. The cache is a third-party package: a record of its operations on a state \<open>'c\<close>, of which the locale \<open>config_cache\<close> states what is relied on.
  HTTP is a function \<open>H\<close> from the URL and the timeout to what a request gives and how many seconds it takes. JSON is a parameter. Go maps are
  association lists in the order of their iteration. The global variables are two records: \<open>ap_net\<close> for the servers and the time, \<open>ap_store\<close> for the configuration.
  A call that blocks for ever is \<open>None\<close>. The map of servers is also written by the goroutine that refreshes the list of servers; here its
  update is an operation between others. The configuration of the program (\<open>appConfig\<close>) has been set and is the only one: every call in the package passes nil for
  another one. Timeouts are nanoseconds, the time is seconds. What is written to the log is left out.
\<close>

subsection \<open>Changes\<close>

datatype ConfigChangeType = ADDED | MODIFIED | DELETED

record ConfigChange =
  ccOldValue :: string
  ccNewValue :: string
  ccChangeType :: ConfigChangeType

record ChangeEvent =
  ceNamespace :: string
  ceChanges :: "string \<rightharpoonup> ConfigChange"

definition CreateModifyConfigChange :: "string \<Rightarrow> string \<Rightarrow> ConfigChange" where
  "CreateModifyConfigChange oldValue newValue = \<lparr>ccOldValue = oldValue, ccNewValue = newValue, ccChangeType = MODIFIED\<rparr>"

definition CreateAddConfigChange :: "string \<Rightarrow> ConfigChange" where
  "CreateAddConfigChange newValue = \<lparr>ccOldValue = [], ccNewValue = newValue, ccChangeType = ADDED\<rparr>"

definition CreateDeletedConfigChange :: "string \<Rightarrow> ConfigChange" where
  "CreateDeletedConfigChange oldValue = \<lparr>ccOldValue = oldValue, ccNewValue = [], ccChangeType = DELETED\<rparr>"

record ApolloConnConfig =
  acAppId :: string
  acCluster :: string
  acNamespaceName :: string
  acReleaseKey :: string

record ApolloConfig =
  apConn :: ApolloConnConfig
  apConfigurations :: "(string \<times> string) list"

record AppConfig =
  cfAppId :: string
  cfCluster :: string
  cfNamespaceName :: string
  cfIp :: string
  cfNextTryConnTime :: int
  cfBackupConfigPath :: string

subsection \<open>The cache\<close>

record 'c kv_cache =
  kcIter :: "'c \<Rightarrow> (string \<times> string) list"
  kcCount :: "'c \<Rightarrow> nat"
  kcGet :: "string \<Rightarrow> 'c \<Rightarrow> string option"
  kcSet :: "string \<Rightarrow> string \<Rightarrow> int \<Rightarrow> 'c \<Rightarrow> 'c"
  kcDel :: "string \<Rightarrow> 'c \<Rightarrow> 'c"

definition configCacheExpireTime :: int where "configCacheExpireTime = 120"

definition cached_or_empty :: "'c kv_cache \<Rightarrow> string \<Rightarrow> 'c \<Rightarrow> string" where
  \<comment> \<open>\<open>string(oldValue)\<close>, where the error is ignored\<close>
  "cached_or_empty K key c = (case kcGet K key c of None \<Rightarrow> [] | Some v \<Rightarrow> v)"

fun update_new ::
  "'c kv_cache \<Rightarrow> int \<Rightarrow> (string \<times> string) list \<Rightarrow> string list \<Rightarrow> (string \<rightharpoonup> ConfigChange) \<Rightarrow> 'c \<Rightarrow>
   string list \<times> (string \<rightharpoonup> ConfigChange) \<times> 'c" where
  \<comment> \<open>the loop over the configurations, with the old keys that have not been met\<close>
  "update_new K expireTime [] mp changes c = (mp, changes, c)"
| "update_new K expireTime ((key, value) # conf) mp changes c =
     (let changes =
        (if key \<notin> set mp then changes(key \<mapsto> CreateAddConfigChange value)
         else let oldValue = cached_or_empty K key c
              in if oldValue \<noteq> value then changes(key \<mapsto> CreateModifyConfigChange oldValue value) else changes)
      in update_new K expireTime conf (removeAll key mp) changes (kcSet K key value expireTime c))"

fun remove_old :: "'c kv_cache \<Rightarrow> string list \<Rightarrow> (string \<rightharpoonup> ConfigChange) \<Rightarrow> 'c \<Rightarrow> (string \<rightharpoonup> ConfigChange) \<times> 'c" where
  "remove_old K [] changes c = (changes, c)"
| "remove_old K (key # mp) changes c =
     remove_old K mp (changes(key \<mapsto> CreateDeletedConfigChange (cached_or_empty K key c))) (kcDel K key c)"

definition updateApolloConfigCache :: "'c kv_cache \<Rightarrow> (string \<times> string) list \<Rightarrow> int \<Rightarrow> 'c \<Rightarrow> (string \<rightharpoonup> ConfigChange) \<times> 'c" where
  \<comment> \<open>the nil map of changes is the empty map\<close>
  "updateApolloConfigCache K configurations expireTime c =
     (if length configurations = 0 \<and> kcCount K c = 0 then (Map.empty, c)
      else
        let mp = remdups (map fst (kcIter K c));
            (mp, changes, c) = update_new K expireTime configurations mp Map.empty c
        in remove_old K mp changes c)"

definition createConfigChangeEvent :: "(string \<rightharpoonup> ConfigChange) \<Rightarrow> string \<Rightarrow> ChangeEvent" where
  "createConfigChangeEvent changes nameSpace = \<lparr>ceNamespace = nameSpace, ceChanges = changes\<rparr>"

fun touch_loop :: "'c kv_cache \<Rightarrow> int \<Rightarrow> (string \<times> string) list \<Rightarrow> nat \<Rightarrow> 'c \<Rightarrow> 'c" where
  \<comment> \<open>setting an entry again does not disturb the iteration\<close>
  "touch_loop K expireTime [] i c = c"
| "touch_loop K expireTime ((k, v) # es) i c =
     (if i < kcCount K c then touch_loop K expireTime es (Suc i) (kcSet K k v expireTime c) else c)"

definition updateApolloConfigCacheTime :: "'c kv_cache \<Rightarrow> int \<Rightarrow> 'c \<Rightarrow> 'c" where
  "updateApolloConfigCacheTime K expireTime c = touch_loop K expireTime (kcIter K c) 0 c"

record 'c ap_store =
  asCache :: 'c
  asConn :: "ApolloConnConfig option"
  asListener :: "ChangeEvent list option"
  asNotifications :: "(string \<times> int) list option"
  asBackups :: "ApolloConfig list"

definition ListenChangeEvent :: "'c ap_store \<Rightarrow> 'c ap_store" where
  "ListenChangeEvent st = (if asListener st = None then st\<lparr>asListener := Some []\<rparr> else st)"

definition PushChangeEvent :: "ChangeEvent \<Rightarrow> 'c ap_store \<Rightarrow> 'c ap_store option" where
  \<comment> \<open>the channel holds one event; \<open>None\<close>: it is full and the listener does not take the event\<close>
  "PushChangeEvent event st =
     (case asListener st of
        None \<Rightarrow> Some st
      | Some [] \<Rightarrow> Some (st\<lparr>asListener := Some [event]\<rparr>)
      | Some _ \<Rightarrow> None)"

definition updateApolloConfig :: "'c kv_cache \<Rightarrow> ApolloConfig option \<Rightarrow> bool \<Rightarrow> 'c ap_store \<Rightarrow> 'c ap_store option" where
  \<comment> \<open>the configurations to be written by a goroutine are collected\<close>
  "updateApolloConfig K apolloConfig isBackupConfig st =
     (case apolloConfig of
        None \<Rightarrow> Some st
      | Some config \<Rightarrow> do {
          let (changeList, c) = updateApolloConfigCache K (apConfigurations config) configCacheExpireTime (asCache st);
          let st = st\<lparr>asCache := c\<rparr>;
          st \<leftarrow> (if changeList \<noteq> Map.empty then PushChangeEvent (createConfigChangeEvent changeList (acNamespaceName (apConn config))) st else Some st);
          let st = st\<lparr>asConn := Some (apConn config)\<rparr>;
          Some (if isBackupConfig then st\<lparr>asBackups := asBackups st @ [config]\<rparr> else st)
        })"

definition touchApolloConfigCache :: "'c kv_cache \<Rightarrow> 'c ap_store \<Rightarrow> goerr option \<times> 'c ap_store" where
  "touchApolloConfigCache K st = (None, st\<lparr>asCache := updateApolloConfigCacheTime K configCacheExpireTime (asCache st)\<rparr>)"

definition getValue :: "'c kv_cache \<Rightarrow> string \<Rightarrow> 'c \<Rightarrow> string" where
  \<comment> \<open>\<open>getConfigValue\<close> never gives nil\<close>
  "getValue K key c = (case kcGet K key c of None \<Rightarrow> [] | Some v \<Rightarrow> v)"

definition GetStringValue :: "'c kv_cache \<Rightarrow> string \<Rightarrow> string \<Rightarrow> 'c \<Rightarrow> string" where
  "GetStringValue K key defaultValue c = (let value = getValue K key c in if value = [] then defaultValue else value)"

definition GetIntValue :: "'c kv_cache \<Rightarrow> string \<Rightarrow> int \<Rightarrow> 'c \<Rightarrow> int" where
  "GetIntValue K key defaultValue c = (case Atoi (getValue K key c) of None \<Rightarrow> defaultValue | Some i \<Rightarrow> i)"

definition GetFloatValue :: "'c kv_cache \<Rightarrow> (string \<Rightarrow> 'f option) \<Rightarrow> string \<Rightarrow> 'f \<Rightarrow> 'c \<Rightarrow> 'f" where
  \<comment> \<open>given \<open>strconv.ParseFloat\<close>\<close>
  "GetFloatValue K parse key defaultValue c = (case parse (getValue K key c) of None \<Rightarrow> defaultValue | Some f \<Rightarrow> f)"

definition ParseBool :: "string \<Rightarrow> bool option" where
  "ParseBool s =
     (if s \<in> {''1'', ''t'', ''T'', ''true'', ''TRUE'', ''True''} then Some True
      else if s \<in> {''0'', ''f'', ''F'', ''false'', ''FALSE'', ''False''} then Some False else None)"

definition GetBoolValue :: "'c kv_cache \<Rightarrow> string \<Rightarrow> bool \<Rightarrow> 'c \<Rightarrow> bool" where
  "GetBoolValue K key defaultValue c = (case ParseBool (getValue K key c) of None \<Rightarrow> defaultValue | Some b \<Rightarrow> b)"

subsection \<open>Hosts\<close>

record 'w ap_net =
  anConfig :: AppConfig
  anServers :: "(string \<times> bool) list"
  anNow :: nat
  anNet :: 'w

definition getHost :: "AppConfig \<Rightarrow> string" where
  "getHost c =
     (if take 4 (cfIp c) = ''http'' then (if cfIp c = [] \<or> last (cfIp c) \<noteq> CHR ''/'' then cfIp c @ ''/'' else cfIp c)
      else ''http://'' @ cfIp c @ ''/'')"

definition setNextTryConnTime :: "int \<Rightarrow> int \<Rightarrow> AppConfig \<Rightarrow> AppConfig" where
  "setNextTryConnTime now nextTryConnectPeriod c = c\<lparr>cfNextTryConnTime := now + nextTryConnectPeriod\<rparr>"

definition isConnectDirectly :: "int \<Rightarrow> AppConfig \<Rightarrow> bool" where
  "isConnectDirectly now c \<longleftrightarrow> cfNextTryConnTime c \<ge> 0 \<and> cfNextTryConnTime c > now"

definition selectHost :: "'w ap_net \<Rightarrow> string" where
  "selectHost N =
     (if \<not> isConnectDirectly (int (anNow N)) (anConfig N) then getHost (anConfig N)
      else case find (\<lambda>(host, isDown). \<not> isDown) (anServers N) of None \<Rightarrow> [] | Some (host, _) \<Rightarrow> host)"

definition mark_down :: "string \<Rightarrow> (string \<times> bool) list \<Rightarrow> (string \<times> bool) list" where
  \<comment> \<open>the loop stops at the key it looks for; a map has it once at most\<close>
  "mark_down host ss = map (\<lambda>(key, isDown). (key, isDown \<or> key = host)) ss"

definition setDownNode :: "string \<Rightarrow> 'w ap_net \<Rightarrow> 'w ap_net" where
  "setDownNode host N =
     (if host = [] then N
      else N\<lparr>anConfig := (if host = getHost (anConfig N) then setNextTryConnTime (int (anNow N)) 60 (anConfig N) else anConfig N),
             anServers := mark_down host (anServers N)\<rparr>)"

definition update_servers :: "(string list) option \<Rightarrow> 'w ap_net \<Rightarrow> 'w ap_net" where
  \<comment> \<open>\<open>syncServerIpListSuccessCallBack\<close>, given the home pages in the answer if it could be read; a server that is set again is no longer down\<close>
  "update_servers tmpServerInfo N =
     (case tmpServerInfo of
        None \<Rightarrow> N
      | Some hs \<Rightarrow> N\<lparr>anServers := fold (\<lambda>h ss. AList.update h False ss) hs (anServers N)\<rparr>)"

subsection \<open>Requests\<close>

datatype get_result = GetFails | GetNoBody | GetResponse nat string

type_synonym 'w http_get = "string \<Rightarrow> int \<Rightarrow> 'w \<Rightarrow> get_result \<times> nat \<times> 'w"

record ('r, 's) CallBack =
  cbSuccess :: "string \<Rightarrow> 's \<Rightarrow> ((goerr + 'r option) \<times> 's) option"
  cbNotModify :: "'s \<Rightarrow> goerr option \<times> 's"

definition max_retries :: nat where "max_retries = 5"

fun request_loop ::
  "'w http_get \<Rightarrow> string \<Rightarrow> int \<Rightarrow> ('r, 's) CallBack \<Rightarrow> nat \<Rightarrow> nat \<Rightarrow> 'w \<Rightarrow> 's \<Rightarrow> ((goerr + 'r option) \<times> nat \<times> 'w \<times> 's) option" where
  \<comment> \<open>the number of attempts left, the seconds passed; after a status that is neither success nor not modified the client sleeps for a second\<close>
  "request_loop H url timeout cb 0 t w s = Some (Inl (GoErr ''Over Max Retry Still Error! ''), t, w, s)"
| "request_loop H url timeout cb (Suc n) t w s =
     (case H url timeout w of
        (GetFails, dt, w) \<Rightarrow> request_loop H url timeout cb n (t + dt) w s
      | (GetNoBody, dt, w) \<Rightarrow> request_loop H url timeout cb n (t + dt) w s
      | (GetResponse status body, dt, w) \<Rightarrow>
          if status = 200 then do { (r, s) \<leftarrow> cbSuccess cb body s; Some (r, t + dt, w, s) }
          else if status = 304 then
            (let (err, s) = cbNotModify cb s in Some (case err of None \<Rightarrow> Inr None | Some e \<Rightarrow> Inl e, t + dt, w, s))
          else request_loop H url timeout cb n (t + dt + 1) w s)"

definition request ::
  "'w http_get \<Rightarrow> string \<Rightarrow> int \<Rightarrow> ('r, 's) CallBack \<Rightarrow> 'w \<Rightarrow> 's \<Rightarrow> ((goerr + 'r option) \<times> nat \<times> 'w \<times> 's) option" where
  "request H requestUrl timeout cb w s =
     request_loop H requestUrl (if timeout \<noteq> 0 then timeout else 10 ^ 9) cb max_retries 0 w s"

lemma mark_down_le: "length (filter (\<lambda>(h, d). \<not> d) (mark_down host ss)) \<le> length (filter (\<lambda>(h, d). \<not> d) ss)"
  by (induction ss) (auto simp: mark_down_def)

lemma mark_down_count:
  assumes "find (\<lambda>(h, d). \<not> d) ss = Some (host, b)"
  shows "length (filter (\<lambda>(h, d). \<not> d) (mark_down host ss)) < length (filter (\<lambda>(h, d). \<not> d) ss)"
  using assms
proof (induction ss)
  case (Cons a ss)
  with mark_down_le [of host ss] show ?case by (cases a) (auto simp: mark_down_def split: if_splits)
qed simp

definition tries_left :: "'w ap_net \<Rightarrow> nat" where
  "tries_left N = 2 * length (filter (\<lambda>(h, d). \<not> d) (anServers N)) + (if isConnectDirectly (int (anNow N)) (anConfig N) then 0 else 1)"

lemma setDownNode_tries:
  assumes "host = selectHost N" and "host \<noteq> []"
  shows "tries_left (setDownNode host (N\<lparr>anNow := now, anNet := w\<rparr>)) < tries_left N"
proof (cases "isConnectDirectly (int (anNow N)) (anConfig N)")
  case False
  then have h: "host = getHost (anConfig N)" using assms(1) by (simp add: selectHost_def)
  have "length (filter (\<lambda>(h, d). \<not> d) (mark_down host (anServers N))) \<le> length (filter (\<lambda>(h, d). \<not> d) (anServers N))" by (rule mark_down_le)
  moreover have "isConnectDirectly (int now) (setNextTryConnTime (int now) 60 (anConfig N))" by (simp add: setNextTryConnTime_def isConnectDirectly_def)
  ultimately show ?thesis using False assms(2) h by (simp add: tries_left_def setDownNode_def)
next
  case True
  then obtain b where "find (\<lambda>(h, d). \<not> d) (anServers N) = Some (host, b)"
    using assms by (auto simp: selectHost_def split: option.splits)
  from mark_down_count [OF this] True assms(2) show ?thesis by (simp add: tries_left_def setDownNode_def)
qed

function requestRecovery ::
  "'w http_get \<Rightarrow> string \<Rightarrow> int \<Rightarrow> ('r, 's) CallBack \<Rightarrow> 'w ap_net \<Rightarrow> 's \<Rightarrow> ((goerr + 'r option) \<times> 'w ap_net \<times> 's) option" where
  "requestRecovery H uri timeout cb N s =
     (let host = selectHost N
      in if host = [] then Some (Inl (GoErr ''Try all Nodes Still Error! ''), N, s)
         else case request H (host @ uri) timeout cb (anNet N) s of
           None \<Rightarrow> None
         | Some (Inr r, dt, w, s) \<Rightarrow> Some (Inr r, N\<lparr>anNow := anNow N + dt, anNet := w\<rparr>, s)
         | Some (Inl _, dt, w, s) \<Rightarrow> requestRecovery H uri timeout cb (setDownNode host (N\<lparr>anNow := anNow N + dt, anNet := w\<rparr>)) s)"
  by pat_completeness auto
termination
  by (relation "measure (\<lambda>(H, uri, timeout, cb, N, s). tries_left N)") (auto intro: setDownNode_tries)

subsection \<open>URLs\<close>

definition hex_digit :: "nat \<Rightarrow> char" where
  "hex_digit n = ''0123456789ABCDEF'' ! (n mod 16)"

definition url_safe :: "char \<Rightarrow> bool" where
  "url_safe c \<longleftrightarrow> (let n = of_char c :: nat in 48 \<le> n \<and> n \<le> 57 \<or> 65 \<le> n \<and> n \<le> 90 \<or> 97 \<le> n \<and> n \<le> 122) \<or> c \<in> {CHR ''-'', CHR ''_'', CHR ''.'', CHR ''~''}"

definition QueryEscape :: "string \<Rightarrow> string" where
  "QueryEscape s =
     concat (map (\<lambda>c. if url_safe c then [c] else if c = CHR '' '' then ''+'' else [CHR ''%'', hex_digit (of_char c div 16), hex_digit (of_char c)]) s)"

definition getNotifyUrlSuffix :: "string \<Rightarrow> AppConfig \<Rightarrow> string" where
  \<comment> \<open>for the configuration of the program\<close>
  "getNotifyUrlSuffix notifications config =
     ''notifications/v2?appId='' @ QueryEscape (cfAppId config) @ ''&cluster='' @ QueryEscape (cfCluster config) @ ''&notifications='' @
     QueryEscape notifications"

definition getServicesConfigUrl :: "string \<Rightarrow> AppConfig \<Rightarrow> string" where
  "getServicesConfigUrl ip config = getHost config @ ''services/config?appId='' @ QueryEscape (cfAppId config) @ ''&ip='' @ ip"

definition getConfigUrlSuffix :: "string \<Rightarrow> AppConfig \<Rightarrow> ApolloConnConfig option \<Rightarrow> string option" where
  \<comment> \<open>\<open>None\<close>: the release key is read of a nil configuration\<close>
  "getConfigUrlSuffix ip config current = do {
     cur \<leftarrow> current;
     Some (''configs/'' @ QueryEscape (cfAppId config) @ ''/'' @ QueryEscape (cfCluster config) @ ''/'' @ QueryEscape (cfNamespaceName config) @
       ''?releaseKey='' @ QueryEscape (acReleaseKey cur) @ ''&ip='' @ ip)
   }"

subsection \<open>Notifications\<close>

record ap_json =
  ajNotifies :: "(string \<times> int) list \<Rightarrow> string"
  ajReadNotifies :: "string \<Rightarrow> goerr + (string \<times> int) list"
  ajReadConfig :: "string \<Rightarrow> goerr + ApolloConfig"
  ajWriteConfig :: "ApolloConfig \<Rightarrow> string"
  ajReadServers :: "string \<Rightarrow> goerr + string list"

definition setNotify :: "string \<Rightarrow> int \<Rightarrow> 'c ap_store \<Rightarrow> 'c ap_store option" where
  \<comment> \<open>\<open>None\<close>: the map has not been made\<close>
  "setNotify namespaceName notificationId st = do {
     n \<leftarrow> asNotifications st;
     Some (st\<lparr>asNotifications := Some (AList.update namespaceName notificationId n)\<rparr>)
   }"

definition initAllNotifications :: "AppConfig \<Rightarrow> 'c ap_store \<Rightarrow> 'c ap_store" where
  "initAllNotifications appConfig st = st\<lparr>asNotifications := Some [(cfNamespaceName appConfig, - 1)]\<rparr>"

fun updateAllNotifications :: "(string \<times> int) list \<Rightarrow> 'c ap_store \<Rightarrow> 'c ap_store option" where
  "updateAllNotifications [] st = Some st"
| "updateAllNotifications ((ns, i) # rs) st =
     (if ns = [] then updateAllNotifications rs st
      else do { st \<leftarrow> setNotify ns i st; updateAllNotifications rs st })"

definition notify_callback :: "'c kv_cache \<Rightarrow> ap_json \<Rightarrow> ((string \<times> int) list, 'c ap_store) CallBack" where
  "notify_callback K js =
     \<lparr>cbSuccess = (\<lambda>body st. Some (case ajReadNotifies js body of Inl e \<Rightarrow> Inl e | Inr ns \<Rightarrow> Inr (Some ns), st)),
      cbNotModify = touchApolloConfigCache K\<rparr>"

definition notifyRemoteConfig ::
  "'c kv_cache \<Rightarrow> ap_json \<Rightarrow> 'w http_get \<Rightarrow> 'w ap_net \<Rightarrow> 'c ap_store \<Rightarrow> ((goerr + (string \<times> int) list option) \<times> 'w ap_net \<times> 'c ap_store) option" where
  "notifyRemoteConfig K js H N st = do {
     n \<leftarrow> asNotifications st;
     requestRecovery H (getNotifyUrlSuffix (ajNotifies js n) (anConfig N)) (600 * 10 ^ 9) (notify_callback K js) N st
   }"

definition sync_callback :: "'c kv_cache \<Rightarrow> ap_json \<Rightarrow> (unit, 'c ap_store) CallBack" where
  "sync_callback K js =
     \<lparr>cbSuccess = (\<lambda>body st.
        (case ajReadConfig js body of
           Inl e \<Rightarrow> Some (Inl e, st)
         | Inr config \<Rightarrow> do { st \<leftarrow> updateApolloConfig K (Some config) True st; Some (Inr None, st) })),
      cbNotModify = touchApolloConfigCache K\<rparr>"

definition autoSyncConfigServices ::
  "'c kv_cache \<Rightarrow> ap_json \<Rightarrow> string \<Rightarrow> 'w http_get \<Rightarrow> 'w ap_net \<Rightarrow> 'c ap_store \<Rightarrow> (goerr option \<times> 'w ap_net \<times> 'c ap_store) option" where
  "autoSyncConfigServices K js ip H N st = do {
     urlSuffix \<leftarrow> getConfigUrlSuffix ip (anConfig N) (asConn st);
     (r, N, st) \<leftarrow> requestRecovery H urlSuffix 0 (sync_callback K js) N st;
     Some (case r of Inl e \<Rightarrow> Some e | Inr _ \<Rightarrow> None, N, st)
   }"

definition notifySyncConfigServices ::
  "'c kv_cache \<Rightarrow> ap_json \<Rightarrow> string \<Rightarrow> 'w http_get \<Rightarrow> 'w ap_net \<Rightarrow> 'c ap_store \<Rightarrow> (goerr option \<times> 'w ap_net \<times> 'c ap_store) option" where
  \<comment> \<open>the error of fetching the configuration is ignored\<close>
  "notifySyncConfigServices K js ip H N st = do {
     (r, N, st) \<leftarrow> notifyRemoteConfig K js H N st;
     case r of
       Inl e \<Rightarrow> Some (Some e, N, st)
     | Inr None \<Rightarrow> Some (None, N, st)
     | Inr (Some remoteConfigs) \<Rightarrow>
         if length remoteConfigs = 0 then Some (None, N, st)
         else do {
           st \<leftarrow> updateAllNotifications remoteConfigs st;
           (_, N, st) \<leftarrow> autoSyncConfigServices K js ip H N st;
           Some (None, N, st)
         }
   }"

definition syncServerIpList :: "ap_json \<Rightarrow> string \<Rightarrow> 'w http_get \<Rightarrow> 'w ap_net \<Rightarrow> (goerr option \<times> 'w ap_net) option" where
  \<comment> \<open>the success callback with its effect on the servers; an empty answer changes nothing\<close>
  "syncServerIpList js ip H N = do {
     (r, dt, w, hs) \<leftarrow> request H (getServicesConfigUrl ip (anConfig N)) 0
       \<lparr>cbSuccess = (\<lambda>body hs. Some (case ajReadServers js body of Inl e \<Rightarrow> (Inl e, hs) | Inr hs \<Rightarrow> (Inr (None :: unit option), Some hs))),
        cbNotModify = (\<lambda>hs. (None, hs))\<rparr> (anNet N) None;
     Some (case r of Inl e \<Rightarrow> Some e | Inr _ \<Rightarrow> None, update_servers hs (N\<lparr>anNow := anNow N + dt, anNet := w\<rparr>))
   }"

subsection \<open>The copy in a file and the start\<close>

record ap_files =
  afConfigFile :: string
  afFiles :: "string \<rightharpoonup> string"
  afCreate :: "string \<Rightarrow> bool"

definition getConfigFile :: "string \<Rightarrow> ap_files \<Rightarrow> string \<times> ap_files" where
  \<comment> \<open>the path is made once\<close>
  "getConfigFile configDir F =
     (let F = (if afConfigFile F = [] then F\<lparr>afConfigFile := (if configDir \<noteq> [] then configDir @ ''/'' @ ''apolloConfig.json'' else ''apolloConfig.json'')\<rparr> else F)
      in (afConfigFile F, F))"

definition writeConfigFile :: "ap_json \<Rightarrow> ApolloConfig option \<Rightarrow> string \<Rightarrow> ap_files \<Rightarrow> goerr option \<times> ap_files" where
  "writeConfigFile js config configPath F =
     (case config of
        None \<Rightarrow> (Some (GoErr ''apollo config is null can not write backup file''), F)
      | Some config \<Rightarrow>
          (let (p, F) = getConfigFile configPath F
           in if afCreate F p then (None, F\<lparr>afFiles := (afFiles F)(p \<mapsto> ajWriteConfig js config)\<rparr>)
              else (Some (GoErr ''cannot create''), F)))"

definition loadConfigFile :: "ap_json \<Rightarrow> string \<Rightarrow> ap_files \<Rightarrow> (goerr + ApolloConfig) \<times> ap_files" where
  "loadConfigFile js configDir F =
     (let (p, F) = getConfigFile configDir F
      in (case afFiles F p of None \<Rightarrow> Inl (GoErr ''no such file'') | Some t \<Rightarrow> ajReadConfig js t, F))"

definition initCache :: "'c kv_cache \<Rightarrow> AppConfig \<Rightarrow> 'c ap_store \<Rightarrow> 'c ap_store option" where
  "initCache K appConfig st =
     updateApolloConfig K (Some \<lparr>apConn = \<lparr>acAppId = cfAppId appConfig, acCluster = cfCluster appConfig, acNamespaceName = cfNamespaceName appConfig, acReleaseKey = []\<rparr>,
       apConfigurations = []\<rparr>) False st"

definition StartApolloClient ::
  "'c kv_cache \<Rightarrow> ap_json \<Rightarrow> string \<Rightarrow> 'w http_get \<Rightarrow> bool \<Rightarrow> 'w ap_net \<Rightarrow> 'c ap_store \<Rightarrow> ap_files \<Rightarrow> ('w ap_net \<times> 'c ap_store \<times> ap_files) option" where
  \<comment> \<open>\<open>first\<close>: no configuration of the program has been loaded; the goroutines that it starts then call \<open>syncServerIpList\<close> and \<open>notifySyncConfigServices\<close> periodically\<close>
  "StartApolloClient K js ip H first N st F = do {
     st \<leftarrow> (if first then initCache K (anConfig N) st else Some st);
     let st = initAllNotifications (anConfig N) st;
     (err, N, st) \<leftarrow> notifySyncConfigServices K js ip H N st;
     if err \<noteq> None then
       (case loadConfigFile js (cfBackupConfigPath (anConfig N)) F of
          (Inl _, F) \<Rightarrow> Some (N, st, F)
        | (Inr config, F) \<Rightarrow> do { st \<leftarrow> updateApolloConfig K (Some config) False st; Some (N, st, F) })
     else Some (N, st, F)
   }"

definition loadJsonConfig ::
  "(string \<Rightarrow> goerr + string) \<Rightarrow> (string \<Rightarrow> AppConfig \<Rightarrow> goerr option \<times> AppConfig) \<Rightarrow> string \<Rightarrow> AppConfig option \<Rightarrow> goerr option \<times> AppConfig option" where
  \<comment> \<open>given the contents of files and \<open>json.Unmarshal\<close> into a value, which may have changed it when it fails; \<open>appConfig\<close> is set before it is filled\<close>
  "loadJsonConfig readFile unmarshal fileName appConfig =
     (case readFile fileName of
        Inl e \<Rightarrow> (Some (GoErr (''Fail to read config file:'' @ errText e)), appConfig)
      | Inr fs \<Rightarrow>
          (case unmarshal fs \<lparr>cfAppId = [], cfCluster = ''default'', cfNamespaceName = ''application'', cfIp = [], cfNextTryConnTime = 0, cfBackupConfigPath = []\<rparr> of
             (None, c) \<Rightarrow> (None, Some c)
           | (Some e, c) \<Rightarrow> (Some (GoErr (''Load Json Config fail:'' @ errText e)), Some c)))"

definition InitAndStartApollo ::
  "'c kv_cache \<Rightarrow> ap_json \<Rightarrow> string \<Rightarrow> 'w http_get \<Rightarrow> (string \<Rightarrow> goerr + string) \<Rightarrow> (string \<Rightarrow> AppConfig \<Rightarrow> goerr option \<times> AppConfig) \<Rightarrow>
   'w ap_net \<Rightarrow> 'c ap_store \<Rightarrow> ap_files \<Rightarrow> (goerr option \<times> 'w ap_net \<times> 'c ap_store \<times> ap_files) option" where
  "InitAndStartApollo K js ip H readFile unmarshal N st F =
     (let (err, c) = loadJsonConfig readFile unmarshal ''app.properties'' None;
          N = (case c of None \<Rightarrow> N | Some c \<Rightarrow> N\<lparr>anConfig := c\<rparr>)
      in if err \<noteq> None then Some (err, N, st, F)
         else do {
           st \<leftarrow> initCache K (anConfig N) st;
           (N, st, F) \<leftarrow> StartApolloClient K js ip H False N st F;
           Some (None, N, st, F)
         })"

subsection \<open>What is relied on of the cache\<close>

locale config_cache =
  fixes K :: "'c kv_cache"
    and view :: "'c \<Rightarrow> string \<rightharpoonup> string"
    and fits :: "(string \<rightharpoonup> string) \<Rightarrow> string \<Rightarrow> string \<Rightarrow> bool"
  assumes iter_view: "map_of (kcIter K c) = view c"
    and iter_distinct: "distinct (map fst (kcIter K c))"
    and count_view: "kcCount K c = 0 \<Longrightarrow> view c = Map.empty"
    and get_view: "kcGet K k c = view c k"
    and set_view: "fits (view c) k v \<Longrightarrow> view (kcSet K k v e c) = (view c)(k \<mapsto> v)"
    and del_view: "view (kcDel K k c) = (view c)(k := None)"
begin

lemma cached_view: "view c k = Some v \<Longrightarrow> cached_or_empty K k c = v"
  by (simp add: cached_or_empty_def get_view)

lemma iter_keys: "set (map fst (kcIter K c)) = dom (view c)"
  by (simp add: iter_view [symmetric] dom_map_of_conv_image_fst)

lemma update_new_view:
  assumes "\<And>M k v. dom M \<subseteq> D \<Longrightarrow> (k, v) \<in> set conf \<Longrightarrow> fits M k v" and "distinct (map fst conf)" and "dom (view c) \<subseteq> D" and "fst ` set conf \<subseteq> D"
    and "\<forall>k \<in> fst ` set conf. k \<in> set mp \<longleftrightarrow> view c k \<noteq> None"
    and "update_new K e conf mp ch c = (mp', ch', c')"
  shows "view c' = view c ++ map_of conf \<and> set mp' = set mp - fst ` set conf \<and> (distinct mp \<longrightarrow> distinct mp') \<and>
    ch' = (\<lambda>k. case map_of conf k of None \<Rightarrow> ch k | Some v \<Rightarrow>
      (case view c k of None \<Rightarrow> Some (CreateAddConfigChange v) | Some u \<Rightarrow> if u = v then ch k else Some (CreateModifyConfigChange u v)))"
  using assms
proof (induction conf arbitrary: mp ch c)
  case (Cons kv conf)
  obtain k v where kv: "kv = (k, v)" by (rule prod.exhaust)
  let ?c = "kcSet K k v e c"
  define ch1 where "ch1 = (case view c k of None \<Rightarrow> ch(k \<mapsto> CreateAddConfigChange v) | Some u \<Rightarrow> if u = v then ch else ch(k \<mapsto> CreateModifyConfigChange u v))"
  have set: "view ?c = (view c)(k \<mapsto> v)" using Cons.prems(1,3) kv by (intro set_view) auto
  have k: "k \<notin> fst ` set conf" "k \<in> set mp \<longleftrightarrow> view c k \<noteq> None" "k \<in> D" using Cons.prems(2,4,5) kv by auto
  have up: "update_new K e conf (removeAll k mp) ch1 ?c = (mp', ch', c')"
    using Cons.prems(6) k(2) cached_view [of c k] by (cases "view c k") (auto simp: kv ch1_def Let_def)
  have IH: "view c' = view ?c ++ map_of conf \<and> set mp' = set (removeAll k mp) - fst ` set conf \<and> (distinct (removeAll k mp) \<longrightarrow> distinct mp') \<and>
    ch' = (\<lambda>j. case map_of conf j of None \<Rightarrow> ch1 j | Some w \<Rightarrow>
      (case view ?c j of None \<Rightarrow> Some (CreateAddConfigChange w) | Some u \<Rightarrow> if u = w then ch1 j else Some (CreateModifyConfigChange u w)))"
  proof (rule Cons.IH [OF _ _ _ _ _ up])
    show "dom (view ?c) \<subseteq> D" using Cons.prems(3) k(3) by (simp add: set)
    show "\<forall>j \<in> fst ` set conf. j \<in> set (removeAll k mp) \<longleftrightarrow> view ?c j \<noteq> None" using Cons.prems(5) k(1) by (auto simp: set kv)
    show "fits M j w" if "dom M \<subseteq> D" "(j, w) \<in> set conf" for M j w using Cons.prems(1) [of M j w] that by simp
    show "distinct (map fst conf)" "fst ` set conf \<subseteq> D" using Cons.prems(2,4) by auto
  qed
  have "map_of conf k = None" using k(1) by (simp add: map_of_eq_None_iff)
  then have "view c' = view c ++ map_of (kv # conf)" using IH set by (auto simp: kv map_add_def fun_eq_iff split: option.splits)
  moreover have "ch' = (\<lambda>j. case map_of (kv # conf) j of None \<Rightarrow> ch j | Some w \<Rightarrow>
      (case view c j of None \<Rightarrow> Some (CreateAddConfigChange w) | Some u \<Rightarrow> if u = w then ch j else Some (CreateModifyConfigChange u w)))"
  proof
    fix j
    show "ch' j = (case map_of (kv # conf) j of None \<Rightarrow> ch j | Some w \<Rightarrow>
      (case view c j of None \<Rightarrow> Some (CreateAddConfigChange w) | Some u \<Rightarrow> if u = w then ch j else Some (CreateModifyConfigChange u w)))"
      using IH set \<open>map_of conf k = None\<close> by (cases "j = k") (auto simp: kv ch1_def split: option.splits)
  qed
  moreover have "set mp' = set mp - fst ` set (kv # conf)" "distinct mp \<longrightarrow> distinct mp'" using IH by (auto simp: kv distinct_removeAll)
  ultimately show ?case by blast
qed (auto simp: map_add_def)

lemma remove_old_view:
  assumes "distinct mp" and "set mp \<subseteq> dom (view c)" and "remove_old K mp ch c = (ch', c')"
  shows "view c' = (\<lambda>k. if k \<in> set mp then None else view c k) \<and>
    ch' = (\<lambda>k. if k \<in> set mp then Some (CreateDeletedConfigChange (the (view c k))) else ch k)"
  using assms
proof (induction mp arbitrary: ch c)
  case (Cons k mp)
  let ?c = "kcDel K k c"
  have del: "view ?c = (view c)(k := None)" by (rule del_view)
  obtain u where u: "view c k = Some u" using Cons.prems(2) by auto
  have "view c' = (\<lambda>j. if j \<in> set mp then None else view ?c j) \<and>
    ch' = (\<lambda>j. if j \<in> set mp then Some (CreateDeletedConfigChange (the (view ?c j))) else (ch(k \<mapsto> CreateDeletedConfigChange u)) j)"
  proof (rule Cons.IH)
    show "distinct mp" "set mp \<subseteq> dom (view ?c)" using Cons.prems(1,2) by (auto simp: del)
    show "remove_old K mp (ch(k \<mapsto> CreateDeletedConfigChange u)) ?c = (ch', c')" using Cons.prems(3) by (simp add: cached_view [OF u])
  qed
  then show ?case using Cons.prems(1) u by (auto simp: del fun_eq_iff)
qed simp

lemma touch_empty: "view c = Map.empty \<Longrightarrow> updateApolloConfigCacheTime K e c = c"
  using iter_keys [of c] by (simp add: updateApolloConfigCacheTime_def)

end

text \<open>A cache in memory without a bound on its size: an entry is given with the second at which it expires, 0 for never.\<close>

record mem_cache =
  mcNow :: int
  mcEntries :: "(string \<times> string \<times> int) list"

definition mem_live :: "mem_cache \<Rightarrow> (string \<times> string) list" where
  "mem_live c = map (\<lambda>(k, v, x). (k, v)) (filter (\<lambda>(k, v, x). x = 0 \<or> mcNow c < x) (AList.clearjunk (mcEntries c)))"

definition mem_del :: "string \<Rightarrow> mem_cache \<Rightarrow> mem_cache" where
  "mem_del k c = c\<lparr>mcEntries := AList.delete k (mcEntries c)\<rparr>"

definition mem_set :: "string \<Rightarrow> string \<Rightarrow> int \<Rightarrow> mem_cache \<Rightarrow> mem_cache" where
  "mem_set k v e c = c\<lparr>mcEntries := (k, v, if e > 0 then mcNow c + e else 0) # mcEntries (mem_del k c)\<rparr>"

definition mem_kv :: "mem_cache kv_cache" where
  "mem_kv = \<lparr>kcIter = mem_live, kcCount = (\<lambda>c. length (mcEntries c)), kcGet = (\<lambda>k c. map_of (mem_live c) k), kcSet = mem_set, kcDel = mem_del\<rparr>"

lemma mem_live_distinct: "distinct (map fst (mem_live c))"
proof -
  have "map fst (mem_live c) = map fst (filter (\<lambda>(k, v, x). x = 0 \<or> mcNow c < x) (AList.clearjunk (mcEntries c)))"
    by (simp add: mem_live_def case_prod_beta comp_def)
  then show ?thesis by (simp add: distinct_map_filter)
qed

lemma live_delete:
  "map_of (map (\<lambda>(k, v, x). (k, v)) (filter (\<lambda>(k, v, x). P x) (AList.delete k es))) =
   (map_of (map (\<lambda>(k, v, x). (k, v)) (filter (\<lambda>(k, v, x). P x) es)))(k := None)"
  by (induction es) (auto simp: fun_eq_iff)

interpretation mc: config_cache mem_kv "\<lambda>c. map_of (mem_live c)" "\<lambda>M k v. True"
proof
  fix c k v e
  show "map_of (mem_live (kcDel mem_kv k c)) = (map_of (mem_live c))(k := None)"
    using live_delete [of "\<lambda>x. x = 0 \<or> mcNow c < x" k] by (simp add: mem_kv_def mem_live_def mem_del_def clearjunk_delete)
  show "map_of (mem_live (kcSet mem_kv k v e c)) = (map_of (mem_live c))(k \<mapsto> v)"
    by (simp add: mem_kv_def mem_live_def mem_set_def mem_del_def clearjunk_delete delete_idem live_delete [of "\<lambda>x. x = 0 \<or> mcNow c < x"])
qed (simp_all add: mem_kv_def mem_live_distinct, simp_all add: mem_live_def)

text \<open>C27. An update of the cache is exact: afterwards the cache holds the new configurations and nothing else, and the changes that are reported are the
  differences between what it held and what it holds, each with its kind, its old value and its new value.\<close>

theorem config_update_exact:
  assumes "config_cache K view fits" and "distinct (map fst conf)"
    and "\<And>M k v. dom M \<subseteq> dom (view c) \<union> fst ` set conf \<Longrightarrow> (k, v) \<in> set conf \<Longrightarrow> fits M k v"
    and "updateApolloConfigCache K conf e c = (changes, c')"
  shows "view c' = map_of conf \<and>
    changes = (\<lambda>k. case (view c k, map_of conf k) of
        (None, None) \<Rightarrow> None
      | (None, Some v) \<Rightarrow> Some \<lparr>ccOldValue = [], ccNewValue = v, ccChangeType = ADDED\<rparr>
      | (Some u, Some v) \<Rightarrow> if u = v then None else Some \<lparr>ccOldValue = u, ccNewValue = v, ccChangeType = MODIFIED\<rparr>
      | (Some u, None) \<Rightarrow> Some \<lparr>ccOldValue = u, ccNewValue = [], ccChangeType = DELETED\<rparr>)"
proof (cases "length conf = 0 \<and> kcCount K c = 0")
  case True
  then have "view c = Map.empty" using config_cache.count_view [OF assms(1)] by simp
  with True assms(4) show ?thesis by (simp add: updateApolloConfigCache_def)
next
  case False
  let ?mp = "remdups (map fst (kcIter K c))"
  obtain mp1 ch1 c1 where u: "update_new K e conf ?mp Map.empty c = (mp1, ch1, c1)" by (metis prod_cases3)
  with False assms(4) have r: "remove_old K mp1 ch1 c1 = (changes, c')" by (simp add: updateApolloConfigCache_def Let_def split: if_splits)
  have keys: "set ?mp = dom (view c)" using config_cache.iter_keys [OF assms(1), of c] by simp
  have U: "view c1 = view c ++ map_of conf \<and> set mp1 = set ?mp - fst ` set conf \<and> (distinct ?mp \<longrightarrow> distinct mp1) \<and>
    ch1 = (\<lambda>k. case map_of conf k of None \<Rightarrow> None | Some v \<Rightarrow>
      (case view c k of None \<Rightarrow> Some (CreateAddConfigChange v) | Some u \<Rightarrow> if u = v then None else Some (CreateModifyConfigChange u v)))"
    using config_cache.update_new_view [OF assms(1) assms(3,2) _ _ _ u] keys by auto
  then have mp1: "distinct mp1" "set mp1 \<subseteq> dom (view c1)" "set mp1 = dom (view c) - dom (map_of conf)"
    unfolding keys dom_map_of_conv_image_fst by auto
  from config_cache.remove_old_view [OF assms(1) mp1(1,2) r] have
    R: "view c' = (\<lambda>k. if k \<in> set mp1 then None else view c1 k)"
       "changes = (\<lambda>k. if k \<in> set mp1 then Some (CreateDeletedConfigChange (the (view c1 k))) else ch1 k)" by blast+
  have c1: "view c1 k = (case map_of conf k of None \<Rightarrow> view c k | Some v \<Rightarrow> Some v)" for k using U by (simp add: map_add_def)
  have ch1: "ch1 k = (case map_of conf k of None \<Rightarrow> None | Some v \<Rightarrow>
      (case view c k of None \<Rightarrow> Some (CreateAddConfigChange v) | Some u \<Rightarrow> if u = v then None else Some (CreateModifyConfigChange u v)))" for k
    using U by simp
  have k: "k \<in> set mp1 \<longleftrightarrow> view c k \<noteq> None \<and> map_of conf k = None" for k unfolding mp1(3) by (simp add: dom_def)
  have "view c' k = map_of conf k" for k unfolding R c1 k by (cases "map_of conf k"; cases "view c k") simp_all
  moreover have "changes k = (case (view c k, map_of conf k) of
        (None, None) \<Rightarrow> None
      | (None, Some v) \<Rightarrow> Some (CreateAddConfigChange v)
      | (Some u, Some v) \<Rightarrow> if u = v then None else Some (CreateModifyConfigChange u v)
      | (Some u, None) \<Rightarrow> Some (CreateDeletedConfigChange u))" for k
    unfolding R c1 ch1 k by (cases "map_of conf k"; cases "view c k") simp_all
  ultimately show ?thesis unfolding CreateAddConfigChange_def CreateModifyConfigChange_def CreateDeletedConfigChange_def by (simp add: fun_eq_iff)
qed

theorem config_update_exact_witness:
  "map_of (mem_live (snd (updateApolloConfigCache mem_kv [(''a'', ''1''), (''c'', ''3'')] 120 \<lparr>mcNow = 7, mcEntries = [(''a'', ''2'', 0), (''b'', ''5'', 9)]\<rparr>))) =
     [''a'' \<mapsto> ''1'', ''c'' \<mapsto> ''3'']"
proof -
  let ?u = "updateApolloConfigCache mem_kv [(''a'', ''1''), (''c'', ''3'')] 120 \<lparr>mcNow = 7, mcEntries = [(''a'', ''2'', 0), (''b'', ''5'', 9)]\<rparr>"
  have "?u = (fst ?u, snd ?u)" by simp
  from config_update_exact [OF mc.config_cache_axioms _ _ this] show ?thesis by (auto simp: fun_eq_iff)
qed

subsection \<open>Requests to several servers\<close>

lemma request_loop_returns: "(\<And>b s. cbSuccess cb b s \<noteq> None) \<Longrightarrow> request_loop H url timeout cb n t w s \<noteq> None"
proof (induction n arbitrary: t w s)
  case (Suc n)
  obtain a dt w' where H: "H url timeout w = (a, dt, w')" by (rule prod_cases3)
  show ?case
  proof (cases a)
    case (GetResponse status b)
    with Suc.IH [OF Suc.prems] H Suc.prems [of b s] show ?thesis by (auto simp: Let_def split: prod.splits)
  qed (use Suc H in simp_all)
qed simp

lemma request_answered:
  assumes "H url (if timeout \<noteq> 0 then timeout else 10 ^ 9) w = (GetResponse 200 b, dt, w')" and "cbSuccess cb b s = Some (Inr r, s')"
  shows "request H url timeout cb w s = Some (Inr r, dt, w', s')"
  using assms by (simp add: request_def max_retries_def numeral_eq_Suc)

lemma getHost_nonempty: "getHost c \<noteq> []"
  by (auto simp: getHost_def)

lemma up_server_selected:
  assumes "(g, False) \<in> set (anServers N)" and "\<And>h d. (h, d) \<in> set (anServers N) \<Longrightarrow> h \<noteq> []"
  shows "selectHost N \<noteq> []"
proof (cases "find (\<lambda>(h, d). \<not> d) (anServers N)")
  case None
  with assms(1) show ?thesis by (auto simp: find_None_iff)
next
  case (Some p)
  then have "p \<in> set (anServers N)" by (metis find_Some_iff nth_mem)
  with Some assms(2) [of "fst p" "snd p"] show ?thesis by (cases p) (auto simp: selectHost_def getHost_nonempty)
qed

lemma setDownNode_servers: "(h, d) \<in> set (anServers (setDownNode host N)) \<Longrightarrow> \<exists>d. (h, d) \<in> set (anServers N)"
  by (auto simp: setDownNode_def mark_down_def split: if_splits)

lemma setDownNode_others: "(g, False) \<in> set (anServers N) \<Longrightarrow> host \<noteq> g \<Longrightarrow> (g, False) \<in> set (anServers (setDownNode host N))"
  by (force simp: setDownNode_def mark_down_def)

declare requestRecovery.simps [simp del]

lemma recovery_induct [case_names retry]:
  assumes "\<And>N s. (\<And>e dt w s1. selectHost N \<noteq> [] \<Longrightarrow> request H (selectHost N @ uri) timeout cb (anNet N) s = Some (Inl e, dt, w, s1) \<Longrightarrow>
      P (setDownNode (selectHost N) (N\<lparr>anNow := anNow N + dt, anNet := w\<rparr>)) s1) \<Longrightarrow> P N s"
  shows "P N s"
proof (induction N arbitrary: s rule: measure_induct_rule [of tries_left])
  case (less N)
  show ?case by (rule assms) (rule less.IH [OF setDownNode_tries [OF refl]])
qed

text \<open>C28. A request reaches a server that works: if one of the servers is not marked as down and answers, and the answer is accepted, then the request succeeds, whatever
  the main host and the other servers do, and that server is still not marked as down.\<close>

theorem recovery_failover:
  assumes "(g, False) \<in> set (anServers N)" and "\<And>h d. (h, d) \<in> set (anServers N) \<Longrightarrow> h \<noteq> []"
    and "\<And>w. \<exists>b dt w'. H (g @ uri) (if timeout \<noteq> 0 then timeout else 10 ^ 9) w = (GetResponse 200 b, dt, w') \<and> (\<forall>s. \<exists>r s'. cbSuccess cb b s = Some (Inr r, s'))"
    and "\<And>b s. cbSuccess cb b s \<noteq> None"
  shows "\<exists>r N' s'. requestRecovery H uri timeout cb N s = Some (Inr r, N', s') \<and> (g, False) \<in> set (anServers N')"
  using assms
proof (induction N s rule: recovery_induct [of H uri timeout cb])
  case (retry N s)
  note 1 = this
  let ?host = "selectHost N"
  have h: "?host \<noteq> []" using up_server_selected [OF 1(2,3)] .
  obtain r dt w s' where q: "request H (?host @ uri) timeout cb (anNet N) s = Some (r, dt, w, s')"
    using request_loop_returns [OF 1(5)] unfolding request_def by (metis not_None_eq prod_cases4)
  show ?case
  proof (cases r)
    case (Inr x)
    with q h 1(2) show ?thesis by (simp add: requestRecovery.simps [of H uri timeout cb N s])
  next
    case (Inl e)
    have "?host \<noteq> g"
    proof
      assume "?host = g"
      then obtain b dt' w' r' s'' where "H (?host @ uri) (if timeout \<noteq> 0 then timeout else 10 ^ 9) (anNet N) = (GetResponse 200 b, dt', w')" "cbSuccess cb b s = Some (Inr r', s'')"
        using 1(4) [of "anNet N"] by metis
      from request_answered [of H "?host @ uri" timeout "anNet N", OF this] q Inl show False by simp
    qed
    let ?N = "setDownNode ?host (N\<lparr>anNow := anNow N + dt, anNet := w\<rparr>)"
    have "\<exists>r N' s''. requestRecovery H uri timeout cb ?N s' = Some (Inr r, N', s'') \<and> (g, False) \<in> set (anServers N')"
    proof (rule 1(1) [OF h _ _ _ 1(4,5)])
      show "request H (?host @ uri) timeout cb (anNet N) s = Some (Inl e, dt, w, s')" using q Inl by simp
      show "(g, False) \<in> set (anServers ?N)" using 1(2) \<open>?host \<noteq> g\<close> by (intro setDownNode_others) simp_all
      show "k \<noteq> []" if "(k, d) \<in> set (anServers ?N)" for k d using setDownNode_servers [OF that] 1(3) by auto
    qed
    with q h Inl show ?thesis by (simp add: requestRecovery.simps [of H uri timeout cb N s])
  qed
qed

lemma request_loop_store:
  assumes "request_loop H url timeout cb n t w s = Some (r, t', w', s')"
    and "\<And>b s r s'. cbSuccess cb b s = Some (r, s') \<Longrightarrow> Q r s s'"
    and "\<And>s s'. cbNotModify cb s = (None, s') \<Longrightarrow> Q (Inr None) s s'" and "\<And>s e s'. cbNotModify cb s = (Some e, s') \<Longrightarrow> Q (Inl e) s s'"
    and "\<And>e s s'. Q (Inl e) s s' \<longleftrightarrow> s' = s"
  shows "Q r s s'"
  using assms
proof (induction H url timeout cb n t w s rule: request_loop.induct)
  case (2 H url timeout cb n t w s)
  then show ?case by (auto split: get_result.splits prod.splits if_splits option.splits bind_splits simp: Let_def)
qed auto

lemma recovery_store:
  assumes "requestRecovery H uri timeout cb N s = Some (r, N', s')"
    and "\<And>b s r s'. cbSuccess cb b s = Some (r, s') \<Longrightarrow> Q r s s'"
    and "\<And>s s'. cbNotModify cb s = (None, s') \<Longrightarrow> Q (Inr None) s s'" and "\<And>s e s'. cbNotModify cb s = (Some e, s') \<Longrightarrow> Q (Inl e) s s'"
    and "\<And>e s s'. Q (Inl e) s s' \<longleftrightarrow> s' = s"
  shows "Q r s s'"
  using assms
proof (induction N s rule: recovery_induct [of H uri timeout cb])
  case (retry N s)
  note 1 = this
  show ?case
  proof (cases "selectHost N = []")
    case False
    then obtain r1 dt w s1 where q: "request H (selectHost N @ uri) timeout cb (anNet N) s = Some (r1, dt, w, s1)"
      using 1(2) by (cases "request H (selectHost N @ uri) timeout cb (anNet N) s") (auto simp: requestRecovery.simps [of H uri timeout cb N s])
    have s1: "Q r1 s s1" by (rule request_loop_store [OF q [unfolded request_def]]) (fact 1(3-6))+
    show ?thesis
    proof (cases r1)
      case (Inl e)
      with s1 1(6) have [simp]: "s1 = s" by simp
      have "requestRecovery H uri timeout cb (setDownNode (selectHost N) (N\<lparr>anNow := anNow N + dt, anNet := w\<rparr>)) s1 = Some (r, N', s')"
        using 1(2) False q Inl by (simp add: requestRecovery.simps [of H uri timeout cb N s])
      from 1(1) [OF False q [unfolded Inl] this 1(3-6)] show ?thesis by simp
    next
      case (Inr x)
      with 1(2) False q s1 show ?thesis by (simp add: requestRecovery.simps [of H uri timeout cb N s])
    qed
  qed (use 1(2,6) in \<open>auto simp: requestRecovery.simps [of H uri timeout cb N s]\<close>)
qed

theorem recovery_failover_witness:
  "\<exists>r N' s'. requestRecovery (\<lambda>url t w. if take 1 url = ''b'' then (GetResponse 200 ''ok'', 0, w) else (GetFails, 1, w)) ''/x'' 0
     \<lparr>cbSuccess = (\<lambda>b s. Some (Inr (Some b), s)), cbNotModify = (\<lambda>s. (None, s))\<rparr>
     \<lparr>anConfig = \<lparr>cfAppId = ''a'', cfCluster = ''c'', cfNamespaceName = ''n'', cfIp = ''1.2.3.4'', cfNextTryConnTime = 0, cfBackupConfigPath = []\<rparr>,
      anServers = [(''a'', False), (''b'', False)], anNow = 100, anNet = ()\<rparr> () = Some (Inr r, N', s') \<and> (''b'', False) \<in> set (anServers N')"
  by (rule recovery_failover) auto

subsection \<open>Notifications and the configuration\<close>

lemma notify_store:
  assumes "notifyRemoteConfig K js H N st = Some (Inr (Some rs), N', st')"
  shows "st' = st"
proof -
  obtain n where "requestRecovery H (getNotifyUrlSuffix (ajNotifies js n) (anConfig N)) (600 * 10 ^ 9) (notify_callback K js) N st = Some (Inr (Some rs), N', st')"
    using assms by (auto simp: notifyRemoteConfig_def split: bind_splits)
  then have "Inr (Some rs) \<noteq> (Inr None :: goerr + (string \<times> int) list option) \<longrightarrow> st' = st"
    by (rule recovery_store [where Q = "\<lambda>r s s'. r \<noteq> Inr None \<longrightarrow> s' = s"]) (auto simp: notify_callback_def touchApolloConfigCache_def)
  then show ?thesis by simp
qed

lemma sync_store:
  assumes "autoSyncConfigServices K js ip H N st = Some (Some e, N', st')"
  shows "st' = st"
proof -
  obtain suffix where "requestRecovery H suffix 0 (sync_callback K js) N st = Some (Inl e, N', st')"
    using assms by (auto simp: autoSyncConfigServices_def split: bind_splits sum.splits)
  then have "isl (Inl e :: goerr + unit option) \<longrightarrow> st' = st"
    by (rule recovery_store [where Q = "\<lambda>r s s'. isl r \<longrightarrow> s' = s"]) (auto simp: sync_callback_def touchApolloConfigCache_def split: sum.splits bind_splits)
  then show ?thesis by simp
qed

lemma updateAllNotifications_spec:
  assumes "updateAllNotifications rs st = Some st'" and "asNotifications st = Some n"
  shows "\<exists>n'. st' = st\<lparr>asNotifications := Some n'\<rparr> \<and> map_of n' = map_of n ++ map_of (rev (filter (\<lambda>(ns, i). ns \<noteq> []) rs))"
  using assms
proof (induction rs st arbitrary: n rule: updateAllNotifications.induct)
  case (1 st)
  then show ?case by (intro exI [of _ n]) simp
next
  case (2 ns i rs st)
  show ?case
  proof (cases "ns = []")
    case False
    let ?n = "AList.update ns i n" and ?rs = "rev (filter (\<lambda>(ns, i). ns \<noteq> []) rs)"
    have "setNotify ns i st = Some (st\<lparr>asNotifications := Some ?n\<rparr>)" using 2(4) by (simp add: setNotify_def)
    with False 2(2) [of _ ?n] 2(3) obtain n' where n': "st' = st\<lparr>asNotifications := Some n'\<rparr>" "map_of n' = map_of ?n ++ map_of ?rs" by auto
    with False show ?thesis by (intro exI [of _ n']) (auto simp: update_conv' map_add_def fun_eq_iff split: option.splits)
  qed (use 2 in auto)
qed

text \<open>A program without servers other than its main host, whose service announces a change.\<close>

definition js_example :: ap_json where
  "js_example = \<lparr>ajNotifies = (\<lambda>n. ''[]''), ajReadNotifies = (\<lambda>b. Inr [(''application'', 5)]), ajReadConfig = (\<lambda>b. Inl (GoErr ''json'')),
     ajWriteConfig = (\<lambda>c. []), ajReadServers = (\<lambda>b. Inr [])\<rparr>"

definition net_example :: "unit ap_net" where
  "net_example = \<lparr>anConfig = \<lparr>cfAppId = ''a'', cfCluster = ''c'', cfNamespaceName = ''application'', cfIp = ''h'', cfNextTryConnTime = 0, cfBackupConfigPath = []\<rparr>,
     anServers = [], anNow = 100, anNet = ()\<rparr>"

definition store_example :: "mem_cache ap_store" where
  "store_example = \<lparr>asCache = \<lparr>mcNow = 100, mcEntries = [(''k'', ''v'', 90)]\<rparr>,
     asConn = Some \<lparr>acAppId = ''a'', acCluster = ''c'', acNamespaceName = ''application'', acReleaseKey = ''r''\<rparr>,
     asListener = None, asNotifications = Some [(''application'', - 1)], asBackups = []\<rparr>"

lemmas example_defs = js_example_def net_example_def store_example_def

text \<open>C29. A change can be missed: when the service has announced new notifications and the configuration cannot be fetched, the error is not reported, the cache keeps the old
  configuration, but the new notification numbers have been recorded, so that the service has nothing more to announce.\<close>

theorem missed_update:
  assumes "notifyRemoteConfig K js H N st = Some (Inr (Some rs), N1, st1)" and "rs \<noteq> []" and "asNotifications st = Some n"
    and "updateAllNotifications rs st1 = Some st2" and "autoSyncConfigServices K js ip H N1 st2 = Some (Some e, N2, st3)"
  shows "notifySyncConfigServices K js ip H N st = Some (None, N2, st3) \<and>
    (\<exists>n'. st3 = st\<lparr>asNotifications := Some n'\<rparr> \<and> map_of n' = map_of n ++ map_of (rev (filter (\<lambda>(ns, i). ns \<noteq> []) rs)))"
  using assms sync_store [OF assms(5)] notify_store [OF assms(1)] updateAllNotifications_spec [of rs st1 st2 n]
  by (auto simp: notifySyncConfigServices_def)

theorem missed_update_witness:
  "\<exists>N2 st3. notifySyncConfigServices mem_kv js_example ''i'' (\<lambda>url t w. if t = 600 * 10 ^ 9 then (GetResponse 200 ''n'', 0, w) else (GetFails, 1, w)) net_example store_example
     = Some (None, N2, st3) \<and> asCache st3 = asCache store_example"
proof -
  let ?H = "\<lambda>url t w :: unit. if t = 600 * 10 ^ 9 then (GetResponse 200 ''n'', 0, w) else (GetFails, 1, w)"
  let ?st = "store_example\<lparr>asNotifications := Some [(''application'', 5)]\<rparr>"
  have n: "notifyRemoteConfig mem_kv js_example ?H net_example store_example = Some (Inr (Some [(''application'', 5)]), net_example, store_example)"
    by (simp add: notifyRemoteConfig_def requestRecovery.simps selectHost_def isConnectDirectly_def getHost_def request_def max_retries_def numeral_eq_Suc notify_callback_def example_defs)
  have u: "updateAllNotifications [(''application'', 5)] store_example = Some ?st" by (simp add: setNotify_def example_defs)
  have s: "\<exists>e N2 st3. autoSyncConfigServices mem_kv js_example ''i'' ?H net_example ?st = Some (Some e, N2, st3)"
    by (simp add: autoSyncConfigServices_def getConfigUrlSuffix_def requestRecovery.simps selectHost_def isConnectDirectly_def getHost_def request_def max_retries_def numeral_eq_Suc
      setDownNode_def setNextTryConnTime_def mark_down_def example_defs)
  then obtain e N2 st3 where s: "autoSyncConfigServices mem_kv js_example ''i'' ?H net_example ?st = Some (Some e, N2, st3)" by blast
  have "asNotifications store_example = Some [(''application'', - 1)]" by (simp add: example_defs)
  from missed_update [OF n _ this u s] show ?thesis by auto
qed

text \<open>A configuration whose entries have expired is lost: the service answers that nothing has been modified, no error is reported, nothing is set in the cache, and every
  value that is asked for is the default.\<close>

lemma expired_configuration_lost:
  assumes "config_cache K view fits" and "view (asCache st) = Map.empty" and "asNotifications st = Some n" and "selectHost N \<noteq> []"
    and "H (selectHost N @ getNotifyUrlSuffix (ajNotifies js n) (anConfig N)) (600 * 10 ^ 9) (anNet N) = (GetResponse 304 body, dt, w)"
  shows "notifySyncConfigServices K js ip H N st = Some (None, N\<lparr>anNow := anNow N + dt, anNet := w\<rparr>, st) \<and> GetStringValue K key d (asCache st) = d"
proof -
  have "touchApolloConfigCache K st = (None, st)"
    by (simp add: touchApolloConfigCache_def config_cache.touch_empty [OF assms(1,2)])
  then have "request H (selectHost N @ getNotifyUrlSuffix (ajNotifies js n) (anConfig N)) (600 * 10 ^ 9) (notify_callback K js) (anNet N) st = Some (Inr None, dt, w, st)"
    using assms(5) by (simp add: request_def max_retries_def numeral_eq_Suc notify_callback_def)
  then show ?thesis using assms(2-4) config_cache.get_view [OF assms(1), of key "asCache st"]
    by (simp add: notifySyncConfigServices_def notifyRemoteConfig_def requestRecovery.simps GetStringValue_def getValue_def)
qed

lemma mem_expires:
  \<comment> \<open>the entries of an update expire when there is no answer for two minutes\<close>
  assumes "\<forall>(k, v, x) \<in> set (mcEntries c). x = mcNow c + configCacheExpireTime" and "mcNow c \<ge> 0"
  shows "mem_live (c\<lparr>mcNow := mcNow c + 120\<rparr>) = []"
proof -
  have "set (AList.clearjunk (mcEntries c)) \<subseteq> set (mcEntries c)"
    unfolding graph_map_of [symmetric] by (auto dest: in_graphD intro: map_of_SomeD)
  with assms show ?thesis by (fastforce simp: mem_live_def filter_empty_conv configCacheExpireTime_def)
qed

lemma config_file_roundtrip:
  assumes "ajReadConfig js (ajWriteConfig js config) = Inr config" and "writeConfigFile js (Some config) dir F = (None, F')"
  shows "fst (loadConfigFile js dir' F') = Inr config"
  using assms by (auto simp: writeConfigFile_def loadConfigFile_def getConfigFile_def Let_def split: if_splits)

end
