(* ===== verification/FileCache.thy ===== *)
theory FileCache
  imports ConnPool "HOL-Library.AList"
begin

text \<open>
  \<^verbatim>\<open>util/mem/cache/\<close> and \<^verbatim>\<open>util/mem/XCache.go\<close>: a cache of files with a life span, an index file beside each
  file, and a cache of two layers made of four such tables.

  Representation. The file system is a map from paths to contents; runs of slashes in a path count as one. Whether
  a file can be created and written are predicates of the file system, which also stand for missing
  directories. Times are nanoseconds, the current time is an argument. The text form of a time
  (\<open>MarshalText\<close>, \<open>UnmarshalText\<close>) is a pair of parameters, \<open>time_text\<close>. A callback of the user is a function
  of the item's path and of the file system, which it may change (it may have moved the file). The items of a
  table, a \<open>sync.Map\<close>, are an association list in the order of an iteration; what a lookup returns is a
  pointer in the code, here a copy of the item as it then is. The timer is the time at which it fires, if it
  is running. The counters of sizes are kept although the code no longer updates them.
  The callback \<open>addedItem\<close> only observes and is left out.
\<close>

subsection \<open>Files\<close>

record file_sys =
  fsFiles :: "string \<rightharpoonup> byte list"
  fsCanCreate :: "string \<Rightarrow> bool"
  fsCanWrite :: "string \<Rightarrow> bool"

fun clean :: "string \<Rightarrow> string" where
  "clean (c # d # xs) = (if c = CHR ''/'' \<and> d = CHR ''/'' then clean (d # xs) else c # clean (d # xs))"
| "clean xs = xs"

definition os_Create :: "string \<Rightarrow> file_sys \<Rightarrow> file_sys option" where
  "os_Create p fs = (if fsCanCreate fs (clean p) then Some (fs\<lparr>fsFiles := (fsFiles fs)(clean p \<mapsto> [])\<rparr>) else None)"

definition os_Write :: "string \<Rightarrow> byte list \<Rightarrow> file_sys \<Rightarrow> bool \<times> file_sys" where
  \<comment> \<open>to a file just created\<close>
  "os_Write p d fs = (if fsCanWrite fs (clean p) then (True, fs\<lparr>fsFiles := (fsFiles fs)(clean p \<mapsto> d)\<rparr>) else (False, fs))"

definition os_Remove :: "string \<Rightarrow> file_sys \<Rightarrow> file_sys" where
  \<comment> \<open>the error for a missing file is only logged\<close>
  "os_Remove p fs = fs\<lparr>fsFiles := (fsFiles fs)(clean p := None)\<rparr>"

definition os_ReadFile :: "string \<Rightarrow> file_sys \<Rightarrow> byte list option" where
  "os_ReadFile p fs = fsFiles fs (clean p)"

definition PathExists :: "string \<Rightarrow> file_sys \<Rightarrow> bool" where
  "PathExists p fs = (fsFiles fs (clean p) \<noteq> None)"

type_synonym time_text = "(int \<Rightarrow> byte list) \<times> (byte list \<Rightarrow> int option)"

definition zero_time :: int where
  \<comment> \<open>the zero \<open>time.Time\<close>, the first of January of the year 1, before the epoch\<close>
  "zero_time = - 62135596800 * 10 ^ 9"

subsection \<open>Items\<close>

type_synonym callback = "string \<Rightarrow> file_sys \<Rightarrow> bool \<times> file_sys"

record FileItem =
  fiKey :: string
  fiDatapath :: string
  fiFilepath :: string
  fiFileIdx :: string
  fiLifeSpan :: int
  fiCreatedOn :: int
  fiAccessedOn :: int
  fiAccessSize :: int
  fiAccessCount :: int
  fiExpire :: "callback option"
  fiDelete :: "callback option"

definition data_path :: "string \<Rightarrow> string \<Rightarrow> string" where
  "data_path dataPath key = dataPath @ ''/'' @ key"

definition idx_path :: "string \<Rightarrow> string \<Rightarrow> string" where
  "idx_path dataPath key = dataPath @ ''/'' @ key @ ''.idx''"

definition write_idx :: "time_text \<Rightarrow> FileItem \<Rightarrow> file_sys \<Rightarrow> bool \<times> file_sys" where
  \<comment> \<open>the second half of \<open>createAndStoreToFile\<close>, which is all of \<open>storeIdxFile\<close>\<close>
  "write_idx tt item fs =
     (case os_Create (fiFileIdx item) fs of
        None \<Rightarrow> (False, os_Remove (fiFilepath item) fs)
      | Some fs \<Rightarrow>
          (case os_Write (fiFileIdx item) (fst tt (fiAccessedOn item)) fs of
             (True, fs) \<Rightarrow> (True, fs)
           | (False, fs) \<Rightarrow> (False, os_Remove (fiFileIdx item) (os_Remove (fiFilepath item) fs))))"

definition createAndStoreToFile :: "time_text \<Rightarrow> byte list \<Rightarrow> FileItem \<Rightarrow> file_sys \<Rightarrow> bool \<times> file_sys" where
  \<comment> \<open>whether it succeeded; the paths of the item are set by its constructor\<close>
  "createAndStoreToFile tt data item fs =
     (case os_Create (fiFilepath item) fs of
        None \<Rightarrow> (False, fs)
      | Some fs \<Rightarrow>
          (case os_Write (fiFilepath item) data fs of
             (False, fs) \<Rightarrow> (False, os_Remove (fiFilepath item) fs)
           | (True, fs) \<Rightarrow> write_idx tt item fs))"

definition storeIdxFile :: "time_text \<Rightarrow> FileItem \<Rightarrow> file_sys \<Rightarrow> bool \<times> file_sys" where
  "storeIdxFile tt item fs = write_idx tt item fs"

definition blank_item :: "string \<Rightarrow> string \<Rightarrow> int \<Rightarrow> int \<Rightarrow> int \<Rightarrow> FileItem" where
  "blank_item key dataPath lifeSpan t sz =
     \<lparr>fiKey = key, fiDatapath = dataPath, fiFilepath = data_path dataPath key, fiFileIdx = idx_path dataPath key,
      fiLifeSpan = lifeSpan, fiCreatedOn = t, fiAccessedOn = t, fiAccessSize = sz, fiAccessCount = 0,
      fiExpire = None, fiDelete = None\<rparr>"

definition NewFileItem ::
  "time_text \<Rightarrow> int \<Rightarrow> string \<Rightarrow> string \<Rightarrow> byte list \<Rightarrow> int \<Rightarrow> file_sys \<Rightarrow> FileItem option \<times> file_sys" where
  "NewFileItem tt now key dataPath data lifeSpan fs =
     (let item = blank_item key dataPath lifeSpan now (int (length data))
      in case createAndStoreToFile tt data item fs of
           (True, fs) \<Rightarrow> (Some item, fs)
         | (False, fs) \<Rightarrow> (None, fs))"

definition LoadFileItem :: "time_text \<Rightarrow> int \<Rightarrow> string \<Rightarrow> string \<Rightarrow> int \<Rightarrow> file_sys \<Rightarrow> FileItem option \<times> file_sys" where
  "LoadFileItem tt now key dataPath lifeSpan fs =
     (case (os_ReadFile (idx_path dataPath key) fs, os_ReadFile (data_path dataPath key) fs) of
        (None, Some b) \<Rightarrow>
          \<comment> \<open>no index: the item starts now; failing to write one is ignored\<close>
          let item = blank_item key dataPath lifeSpan now (int (length b))
          in (Some item, snd (storeIdxFile tt item fs))
      | (None, None) \<Rightarrow> (None, fs)
      | (Some _, None) \<Rightarrow> (None, os_Remove (idx_path dataPath key) fs)
      | (Some b, Some body) \<Rightarrow>
          let created = (case snd tt b of None \<Rightarrow> zero_time | Some t \<Rightarrow> t)
          in (Some (blank_item key dataPath lifeSpan created (int (length body))), fs))"

definition fi_delete :: "bool \<Rightarrow> bool \<Rightarrow> FileItem \<Rightarrow> file_sys \<Rightarrow> FileItem \<times> file_sys" where
  "fi_delete bCallBack sourceDelete item fs =
     (let (sourceDelete, fs) =
        (case fiDelete item of
           Some f \<Rightarrow> if bCallBack then f (fiFilepath item) fs else (sourceDelete, fs)
         | None \<Rightarrow> (sourceDelete, fs));
          fs = (if sourceDelete then os_Remove (fiFilepath item) fs else fs);
          fs = os_Remove (fiFileIdx item) fs
      in (item\<lparr>fiKey := [], fiAccessSize := 0\<rparr>, fs))"

definition AddCount :: "FileItem \<Rightarrow> FileItem" where
  "AddCount item = item\<lparr>fiAccessCount := fiAccessCount item + 1\<rparr>"


definition Octal2bytes :: "64 word \<Rightarrow> byte list" where
  \<comment> \<open>the arithmetic shift of an \<open>int64\<close>; each byte keeps the low eight bits\<close>
  "Octal2bytes row = map (\<lambda>i. ucast (drop_bit ((7 - i) * 8) row)) [0..<8]"

definition Bytes2Octal :: "byte list \<Rightarrow> 64 word" where
  \<comment> \<open>from the eighth byte on the shift count is negative, as a \<open>uint\<close> larger than 63, and the term is 0\<close>
  "Bytes2Octal bb =
     fold (\<lambda>(i, b) value. value OR (if i \<le> 7 then push_bit ((7 - i) * 8) (ucast b) else 0)) (zip [0..<length bb] bb) 0"

record CacheItem =
  ciKey :: string
  ciData :: "byte list"
  ciLifeSpan :: int
  ciCreatedOn :: int
  ciAccessedOn :: int
  ciAccessSize :: int
  ciAboutToExpire :: "(string \<Rightarrow> unit) list"

definition NewCacheItem :: "int \<Rightarrow> string \<Rightarrow> byte list \<Rightarrow> int \<Rightarrow> CacheItem" where
  "NewCacheItem now key data lifeSpan =
     \<lparr>ciKey = key, ciData = data, ciLifeSpan = lifeSpan, ciCreatedOn = now, ciAccessedOn = now, ciAccessSize = int (length data),
      ciAboutToExpire = []\<rparr>"

definition KeepAlive :: "int \<Rightarrow> CacheItem \<Rightarrow> CacheItem" where
  "KeepAlive now item = item\<lparr>ciAccessedOn := now\<rparr>"

definition RemoveAboutToExpireCallback :: "CacheItem \<Rightarrow> CacheItem" where
  "RemoveAboutToExpireCallback item = item\<lparr>ciAboutToExpire := []\<rparr>"

definition AddAboutToExpireCallback :: "(string \<Rightarrow> unit) \<Rightarrow> CacheItem \<Rightarrow> CacheItem" where
  "AddAboutToExpireCallback f item = item\<lparr>ciAboutToExpire := ciAboutToExpire item @ [f]\<rparr>"

definition SetAboutToExpireCallback :: "(string \<Rightarrow> unit) \<Rightarrow> CacheItem \<Rightarrow> CacheItem" where
  "SetAboutToExpireCallback f item =
     (let item = (if length (ciAboutToExpire item) > 0 then RemoveAboutToExpireCallback item else item)
      in item\<lparr>ciAboutToExpire := ciAboutToExpire item @ [f]\<rparr>)"

lemma SetAboutToExpireCallback_one: "ciAboutToExpire (SetAboutToExpireCallback f item) = [f]"
  by (simp add: SetAboutToExpireCallback_def RemoveAboutToExpireCallback_def)

subsection \<open>Tables\<close>

record FileItems =
  ftName :: string
  ftTimer :: "int option"
  ftInterval :: int
  ftLoad :: "(string \<Rightarrow> FileItem option) option"
  ftTotalSize :: int
  ftLimitSize :: int
  ftLifeSpan :: int
  ftItems :: "(string \<times> FileItem) list"
  ftExpire :: "callback option"
  ftDelete :: "callback option"

definition addInternal :: "FileItem \<Rightarrow> FileItems \<Rightarrow> FileItems" where
  "addInternal item table =
     table\<lparr>ftItems := AList.update (fiKey item) (item\<lparr>fiExpire := ftExpire table, fiDelete := ftDelete table\<rparr>) (ftItems table)\<rparr>"

definition fc_Add ::
  "time_text \<Rightarrow> int \<Rightarrow> string \<Rightarrow> string \<Rightarrow> int \<Rightarrow> byte list \<Rightarrow> FileItems \<Rightarrow> file_sys \<Rightarrow> FileItem option \<times> FileItems \<times> file_sys" where
  \<comment> \<open>\<open>AddUnsafe\<close>; the total size is not changed\<close>
  "fc_Add tt now key datapath lifeSpan data table fs =
     (if map_of (ftItems table) key \<noteq> None then (None, table, fs)
      else case NewFileItem tt now key datapath data lifeSpan fs of
        (None, fs) \<Rightarrow> (None, table, fs)
      | (Some item, fs) \<Rightarrow> (Some item, addInternal item table, fs))"

definition run_callback :: "callback option \<Rightarrow> FileItem \<Rightarrow> file_sys \<Rightarrow> bool \<times> file_sys" where
  \<comment> \<open>without a callback the file is deleted\<close>
  "run_callback cb item fs = (case cb of None \<Rightarrow> (True, fs) | Some f \<Rightarrow> f (fiFilepath item) fs)"

definition AddFromFile ::
  "time_text \<Rightarrow> int \<Rightarrow> string \<Rightarrow> string \<Rightarrow> int \<Rightarrow> FileItems \<Rightarrow> file_sys \<Rightarrow> FileItem option \<times> FileItems \<times> file_sys" where
  "AddFromFile tt now key datapath lifeSpan table fs =
     (if map_of (ftItems table) key \<noteq> None then (None, table, fs)
      else case LoadFileItem tt now key datapath lifeSpan fs of
        (None, fs) \<Rightarrow> (None, table, fs)
      | (Some item, fs) \<Rightarrow>
          if now - fiAccessedOn item \<ge> lifeSpan then
            let (bDelete, fs) = run_callback (if fiExpire item \<noteq> None then fiExpire item else ftExpire table) item fs
            in (None, table, snd (fi_delete False bDelete item fs))
          else (Some item, addInternal item table, fs))"

definition deleteInternal :: "string \<Rightarrow> FileItems \<Rightarrow> file_sys \<Rightarrow> FileItems \<times> file_sys" where
  "deleteInternal key table fs =
     (case map_of (ftItems table) key of
        None \<Rightarrow> (table, fs)
      | Some item \<Rightarrow>
          let (bDelete, fs) = run_callback (ftExpire table) item fs;
              (item, fs) = fi_delete False bDelete item fs
          in (table\<lparr>ftItems := AList.delete key (ftItems table)\<rparr>, fs))"

definition fc_Delete ::
  "string \<Rightarrow> bool \<Rightarrow> FileItems \<Rightarrow> file_sys \<Rightarrow> (FileItem option \<times> goerr option) \<times> FileItems \<times> file_sys" where
  "fc_Delete key bDeleteCallBack table fs =
     (case map_of (ftItems table) key of
        None \<Rightarrow> ((None, Some (GoErr ''Key not found in cache '')), table, fs)
      | Some item \<Rightarrow>
          let (item, fs) = fi_delete bDeleteCallBack True item fs
          in ((Some item, Some (GoErr ''Key not found in cache '')), table\<lparr>ftItems := AList.delete key (ftItems table)\<rparr>, fs))"

definition fc_Exists :: "string \<Rightarrow> FileItems \<Rightarrow> bool" where
  "fc_Exists key table = (map_of (ftItems table) key \<noteq> None)"

definition NotFoundAdd ::
  "time_text \<Rightarrow> int \<Rightarrow> string \<Rightarrow> int \<Rightarrow> byte list \<Rightarrow> FileItems \<Rightarrow> file_sys \<Rightarrow> (bool \<times> FileItems \<times> file_sys) option" where
  \<comment> \<open>an item that could not be stored is a \<open>nil\<close> pointer, which \<open>addInternal\<close> dereferences\<close>
  "NotFoundAdd tt now key lifeSpan data table fs =
     (if map_of (ftItems table) key \<noteq> None then Some (False, table, fs)
      else case NewFileItem tt now key (ftName table) data lifeSpan fs of
        (None, fs) \<Rightarrow> None
      | (Some item, fs) \<Rightarrow> Some (True, addInternal item table, fs))"

definition fc_Value :: "string \<Rightarrow> FileItems \<Rightarrow> (goerr + FileItem) \<times> FileItems" where
  "fc_Value key table =
     (case map_of (ftItems table) key of
        Some item \<Rightarrow> let item = AddCount item in (Inr item, table\<lparr>ftItems := AList.update key item (ftItems table)\<rparr>)
      | None \<Rightarrow>
          (case ftLoad table of
             None \<Rightarrow> (Inl (GoErr ''Key not found in cache ''), table)
           | Some load \<Rightarrow>
               (case load key of
                  Some item \<Rightarrow> (Inr item, table)
                | None \<Rightarrow> (Inl (GoErr ''Key not found and could not be loaded into cache. ''), table))))"

definition Flush :: "FileItems \<Rightarrow> FileItems" where
  "Flush table = table\<lparr>ftItems := [], ftInterval := 0, ftTimer := None, ftTotalSize := 0\<rparr>"

fun scan_items :: "int \<Rightarrow> (string \<times> FileItem) list \<Rightarrow> int \<Rightarrow> string list \<Rightarrow> int \<times> string list" where
  \<comment> \<open>the iteration of \<open>expirationCheck\<close>: the smallest remaining time (0 at first) and the expired keys\<close>
  "scan_items now [] smallest keys = (smallest, keys)"
| "scan_items now ((key, item) # items) smallest keys =
     (let age = now - fiAccessedOn item
      in if age \<ge> fiLifeSpan item then scan_items now items smallest (keys @ [key])
         else if smallest = 0 \<or> fiLifeSpan item - age < smallest then scan_items now items (fiLifeSpan item - age) keys
         else scan_items now items smallest keys)"

definition expirationCheck :: "int \<Rightarrow> FileItems \<Rightarrow> file_sys \<Rightarrow> FileItems \<times> file_sys" where
  "expirationCheck now table fs =
     (let (smallest, keys) = scan_items now (ftItems table) 0 [];
          (table, fs) = fold (\<lambda>key (table, fs). deleteInternal key table fs) keys (table, fs)
      in (table\<lparr>ftInterval := smallest, ftTimer := Some (now + (if smallest > 0 then smallest else 5 * 10 ^ 9))\<rparr>, fs))"

definition new_table :: "string \<Rightarrow> int \<Rightarrow> int \<Rightarrow> FileItems" where
  "new_table name limits span =
     \<lparr>ftName = name, ftTimer = None, ftInterval = 0, ftLoad = None, ftTotalSize = 0, ftLimitSize = limits, ftLifeSpan = span,
      ftItems = [], ftExpire = None, ftDelete = None\<rparr>"

definition contains_idx :: "string \<Rightarrow> bool" where
  \<comment> \<open>\<open>strings.Contains(s, ".idx")\<close>\<close>
  "contains_idx s = list_ex (\<lambda>i. take 4 (drop i s) = ''.idx'') [0..<length s]"

fun last_part :: "string \<Rightarrow> string" where
  \<comment> \<open>the last of the parts between slashes\<close>
  "last_part s = rev (takeWhile (\<lambda>c. c \<noteq> CHR ''/'') (rev s))"

definition load_one :: "time_text \<Rightarrow> int \<Rightarrow> string \<times> bool \<Rightarrow> FileItems \<times> file_sys \<Rightarrow> FileItems \<times> file_sys" where
  \<comment> \<open>one entry of the directory tree: its path, and whether it is a directory\<close>
  "load_one tt now e s =
     (case e of (name, isDir) \<Rightarrow> case s of (t, fs) \<Rightarrow>
        if \<not> PathExists name fs \<or> isDir then (t, fs)
        else
          let isIdx = contains_idx name;
              filename = (if isIdx then take (length name - 4) name else name);
              other = (if isIdx then filename else name @ ''.idx'')
          in if \<not> PathExists other fs then (t, os_Remove name fs)
             else
               let key = last_part filename;
                   path = take (length filename - length key) filename
               in snd (AddFromFile tt now key path (ftLifeSpan t) t fs))"

definition LoadFileItems ::
  "time_text \<Rightarrow> int \<Rightarrow> (string \<times> bool) list option \<Rightarrow> string \<Rightarrow> int \<Rightarrow> int \<Rightarrow> bool \<Rightarrow> file_sys \<Rightarrow> FileItems \<times> file_sys" where
  \<comment> \<open>given the result of walking the tree, \<open>None\<close> for an error; the first check runs when all is loaded\<close>
  "LoadFileItems tt now walk name limits span bLoad fs =
     (let t = new_table name limits span;
          (t, fs) = (case walk of
             None \<Rightarrow> (t, fs)
           | Some files \<Rightarrow> if \<not> bLoad then (t, fs) else fold (load_one tt now) files (t, fs))
      in expirationCheck now t fs)"

subsection \<open>The cache of two layers\<close>

record XCacheOptions =
  xoEarlyTfs :: string
  xoStoreTfs :: string
  xoEarlyBlock :: string
  xoStoreBlock :: string
  xoLimitStoreTempFs :: int
  xoLimitEarlyTempFs :: int
  xoSpanTempFs :: int
  xoSpanCallTempFs :: int
  xoLimitStoreBlock :: int
  xoLimitEarlyBlock :: int
  xoSpanBlock :: int
  xoSpanCallBlock :: int

definition DirEarlyTfs :: "string \<Rightarrow> XCacheOptions \<Rightarrow> XCacheOptions" where "DirEarlyTfs dir o' = o'\<lparr>xoEarlyTfs := dir\<rparr>"

definition DirStoreTfs :: "string \<Rightarrow> XCacheOptions \<Rightarrow> XCacheOptions" where "DirStoreTfs dir o' = o'\<lparr>xoStoreTfs := dir\<rparr>"

definition DirEarlyBlock :: "string \<Rightarrow> XCacheOptions \<Rightarrow> XCacheOptions" where "DirEarlyBlock dir o' = o'\<lparr>xoEarlyBlock := dir\<rparr>"

definition DirStoreBlock :: "string \<Rightarrow> XCacheOptions \<Rightarrow> XCacheOptions" where "DirStoreBlock dir o' = o'\<lparr>xoStoreBlock := dir\<rparr>"

definition LimitsEarlyFs :: "int \<Rightarrow> XCacheOptions \<Rightarrow> XCacheOptions" where "LimitsEarlyFs l o' = o'\<lparr>xoLimitEarlyTempFs := l\<rparr>"

definition LimitsStoreFs :: "int \<Rightarrow> XCacheOptions \<Rightarrow> XCacheOptions" where "LimitsStoreFs l o' = o'\<lparr>xoLimitStoreTempFs := l\<rparr>"

definition LimitsEarlyBlock :: "int \<Rightarrow> XCacheOptions \<Rightarrow> XCacheOptions" where "LimitsEarlyBlock l o' = o'\<lparr>xoLimitEarlyBlock := l\<rparr>"

definition LimitsStoreBlock :: "int \<Rightarrow> XCacheOptions \<Rightarrow> XCacheOptions" where "LimitsStoreBlock l o' = o'\<lparr>xoLimitStoreBlock := l\<rparr>"

definition SpanMemFs :: "int \<Rightarrow> XCacheOptions \<Rightarrow> XCacheOptions" where "SpanMemFs s o' = o'\<lparr>xoSpanTempFs := s\<rparr>"

definition SpanBlock :: "int \<Rightarrow> XCacheOptions \<Rightarrow> XCacheOptions" where "SpanBlock s o' = o'\<lparr>xoSpanBlock := s\<rparr>"

definition SpanCallMemFs :: "int \<Rightarrow> XCacheOptions \<Rightarrow> XCacheOptions" where "SpanCallMemFs s o' = o'\<lparr>xoSpanCallTempFs := s\<rparr>"

definition SpanCallBlock :: "int \<Rightarrow> XCacheOptions \<Rightarrow> XCacheOptions" where "SpanCallBlock s o' = o'\<lparr>xoSpanCallBlock := s\<rparr>"

record XCache =
  xcTempFsStore :: FileItems
  xcBlockStore :: FileItems
  xcTempFsEarly :: FileItems
  xcBlockEarly :: FileItems
  xcOptions :: XCacheOptions

definition default_xoptions :: XCacheOptions where
  "default_xoptions = \<lparr>xoEarlyTfs = ''/tmp/earlymedia'', xoStoreTfs = ''/tmp/storemedia'', xoEarlyBlock = ''/data/earlymedia'',
     xoStoreBlock = ''/data/storemedia'', xoLimitStoreTempFs = 14 * 2 ^ 30, xoLimitEarlyTempFs = 2 * 2 ^ 30,
     xoSpanTempFs = 10 * 60 * 10 ^ 9, xoSpanCallTempFs = 10 * 60 * 10 ^ 9, xoLimitStoreBlock = 140 * 2 ^ 30, xoLimitEarlyBlock = 20 * 2 ^ 30,
     xoSpanBlock = 20 * 60 * 10 ^ 9, xoSpanCallBlock = 120 * 60 * 10 ^ 9\<rparr>"

definition NewXCache ::
  "time_text \<Rightarrow> int \<Rightarrow> (string \<Rightarrow> (string \<times> bool) list option) \<Rightarrow> bool \<Rightarrow> (XCacheOptions \<Rightarrow> XCacheOptions) list \<Rightarrow> file_sys \<Rightarrow> XCache \<times> file_sys" where
  \<comment> \<open>\<open>walk\<close> gives the tree below each directory\<close>
  "NewXCache tt now walk bLoad opts fs =
     (let os = fold (\<lambda>f. f) opts default_xoptions;
          (te, fs) = LoadFileItems tt now (walk (xoEarlyTfs os)) (xoEarlyTfs os) (xoLimitEarlyTempFs os) (xoSpanTempFs os) bLoad fs;
          (ts, fs) = LoadFileItems tt now (walk (xoStoreTfs os)) (xoStoreTfs os) (xoLimitStoreTempFs os) (xoSpanCallTempFs os) bLoad fs;
          (be, fs) = LoadFileItems tt now (walk (xoEarlyBlock os)) (xoEarlyBlock os) (xoLimitEarlyBlock os) (xoSpanBlock os) bLoad fs;
          (bs, fs) = LoadFileItems tt now (walk (xoStoreBlock os)) (xoStoreBlock os) (xoLimitStoreBlock os) (xoSpanCallBlock os) bLoad fs
      in (\<lparr>xcTempFsStore = ts, xcBlockStore = bs, xcTempFsEarly = te, xcBlockEarly = be, xcOptions = os\<rparr>, fs))"

definition AddEarlyTfsFromFile :: "time_text \<Rightarrow> int \<Rightarrow> string \<Rightarrow> string \<Rightarrow> XCache \<Rightarrow> file_sys \<Rightarrow> FileItem option \<times> XCache \<times> file_sys" where
  "AddEarlyTfsFromFile tt now key datapath X fs =
     (let (i, t, fs) = AddFromFile tt now key datapath (xoSpanTempFs (xcOptions X)) (xcTempFsEarly X) fs in (i, X\<lparr>xcTempFsEarly := t\<rparr>, fs))"

definition AddStoreTfsFromFile :: "time_text \<Rightarrow> int \<Rightarrow> string \<Rightarrow> string \<Rightarrow> XCache \<Rightarrow> file_sys \<Rightarrow> FileItem option \<times> XCache \<times> file_sys" where
  "AddStoreTfsFromFile tt now key datapath X fs =
     (let (i, t, fs) = AddFromFile tt now key datapath (xoSpanCallTempFs (xcOptions X)) (xcTempFsStore X) fs in (i, X\<lparr>xcTempFsStore := t\<rparr>, fs))"

definition AddEarlyBlockFromFile :: "time_text \<Rightarrow> int \<Rightarrow> string \<Rightarrow> string \<Rightarrow> XCache \<Rightarrow> file_sys \<Rightarrow> FileItem option \<times> XCache \<times> file_sys" where
  "AddEarlyBlockFromFile tt now key datapath X fs =
     (let (i, t, fs) = AddFromFile tt now key datapath (xoSpanBlock (xcOptions X)) (xcBlockEarly X) fs in (i, X\<lparr>xcBlockEarly := t\<rparr>, fs))"

definition AddStoreBlockFromFile :: "time_text \<Rightarrow> int \<Rightarrow> string \<Rightarrow> string \<Rightarrow> XCache \<Rightarrow> file_sys \<Rightarrow> FileItem option \<times> XCache \<times> file_sys" where
  "AddStoreBlockFromFile tt now key datapath X fs =
     (let (i, t, fs) = AddFromFile tt now key datapath (xoSpanCallBlock (xcOptions X)) (xcBlockStore X) fs in (i, X\<lparr>xcBlockStore := t\<rparr>, fs))"

definition GetEarlyFromFile :: "string \<Rightarrow> XCache \<Rightarrow> (goerr + FileItem) \<times> XCache" where
  "GetEarlyFromFile key X =
     (case fc_Value key (xcTempFsEarly X) of
        (Inr item, t) \<Rightarrow> (Inr item, X\<lparr>xcTempFsEarly := t\<rparr>)
      | (Inl _, t) \<Rightarrow> let (r, b) = fc_Value key (xcBlockEarly X) in (r, X\<lparr>xcTempFsEarly := t, xcBlockEarly := b\<rparr>))"

definition GetStoreFromFile :: "string \<Rightarrow> XCache \<Rightarrow> (goerr + FileItem) \<times> XCache" where
  "GetStoreFromFile key X =
     (case fc_Value key (xcTempFsStore X) of
        (Inr item, t) \<Rightarrow> (Inr item, X\<lparr>xcTempFsStore := t\<rparr>)
      | (Inl _, t) \<Rightarrow> let (r, b) = fc_Value key (xcBlockStore X) in (r, X\<lparr>xcTempFsStore := t, xcBlockStore := b\<rparr>))"

definition DeleteEarlyFromFile :: "string \<Rightarrow> XCache \<Rightarrow> file_sys \<Rightarrow> (FileItem option \<times> goerr option) \<times> XCache \<times> file_sys" where
  "DeleteEarlyFromFile key X fs =
     (case fc_Delete key False (xcTempFsEarly X) fs of
        ((Some item, err), t, fs) \<Rightarrow> ((Some item, err), X\<lparr>xcTempFsEarly := t\<rparr>, fs)
      | ((None, _), t, fs) \<Rightarrow>
          let (r, b, fs) = fc_Delete key False (xcBlockEarly X) fs in (r, X\<lparr>xcTempFsEarly := t, xcBlockEarly := b\<rparr>, fs))"

definition DeleteStoreFromFile :: "string \<Rightarrow> XCache \<Rightarrow> file_sys \<Rightarrow> (FileItem option \<times> goerr option) \<times> XCache \<times> file_sys" where
  "DeleteStoreFromFile key X fs =
     (case fc_Delete key True (xcTempFsStore X) fs of
        ((Some item, err), t, fs) \<Rightarrow> ((Some item, err), X\<lparr>xcTempFsStore := t\<rparr>, fs)
      | ((None, _), t, fs) \<Rightarrow>
          let (r, b, fs) = fc_Delete key True (xcBlockStore X) fs in (r, X\<lparr>xcTempFsStore := t, xcBlockStore := b\<rparr>, fs))"

subsection \<open>Paths\<close>

definition is_idx :: "string \<Rightarrow> bool" where
  "is_idx s \<longleftrightarrow> (\<exists>k. s = k @ ''.idx'')"

definition good_key :: "string \<Rightarrow> bool" where
  "good_key k \<longleftrightarrow> CHR ''/'' \<notin> set k \<and> \<not> is_idx k"

definition base :: "string \<Rightarrow> string" where
  "base dp = clean (dp @ ''/'')"

lemma clean_plain: "CHR ''/'' \<notin> set k \<Longrightarrow> clean k = k"
  by (induction k rule: clean.induct) auto

lemma clean_append: "CHR ''/'' \<notin> set k \<Longrightarrow> clean (xs @ k) = clean xs @ k"
  by (induction xs rule: clean.induct) (cases k; auto simp: clean_plain)+

lemma clean_paths:
  assumes "good_key k"
  shows "clean (data_path dp k) = base dp @ k" and "clean (idx_path dp k) = base dp @ k @ ''.idx''"
proof -
  have "CHR ''/'' \<notin> set k" "CHR ''/'' \<notin> set (k @ ''.idx'')" using assms by (simp_all add: good_key_def)
  then show "clean (data_path dp k) = base dp @ k" "clean (idx_path dp k) = base dp @ k @ ''.idx''"
    using clean_append [of k "dp @ ''/''"] clean_append [of "k @ ''.idx''" "dp @ ''/''"]
    by (simp_all add: data_path_def idx_path_def base_def)
qed

lemma idx_not_key: "good_key k \<Longrightarrow> base dp @ k \<noteq> base dp @ k' @ ''.idx''"
  by (auto simp: good_key_def is_idx_def)

definition own_files :: "string \<Rightarrow> string \<Rightarrow> string set" where
  "own_files dp k = {base dp @ k, base dp @ k @ ''.idx''}"

lemma own_files_disjoint: "good_key k \<Longrightarrow> good_key k' \<Longrightarrow> k \<noteq> k' \<Longrightarrow> own_files dp k \<inter> own_files dp k' = {}"
  using idx_not_key [of k dp k'] idx_not_key [of k' dp k] by (auto simp: own_files_def)


subsection \<open>Every item has its files\<close>

definition backed :: "time_text \<Rightarrow> string \<Rightarrow> string \<times> FileItem \<Rightarrow> file_sys \<Rightarrow> bool" where
  "backed tt dp e fs \<longleftrightarrow> (case e of (k, it) \<Rightarrow>
     good_key k \<and> fiKey it = k \<and> clean (fiFilepath it) = base dp @ k \<and> clean (fiFileIdx it) = base dp @ k @ ''.idx'' \<and>
     fiAccessedOn it = fiCreatedOn it \<and> fiDelete it = None \<and>
     (\<exists>d. fsFiles fs (base dp @ k) = Some d \<and> int (length d) = fiAccessSize it) \<and>
     (\<exists>b. fsFiles fs (base dp @ k @ ''.idx'') = Some b \<and> snd tt b = Some (fiCreatedOn it)))"

definition table_ok :: "time_text \<Rightarrow> string \<Rightarrow> FileItems \<times> file_sys \<Rightarrow> bool" where
  \<comment> \<open>a table without callbacks in which every item has its data and index files\<close>
  "table_ok tt dp s \<longleftrightarrow> (case s of (t, fs) \<Rightarrow>
     ftName t = dp \<and> ftExpire t = None \<and> ftDelete t = None \<and> distinct (map fst (ftItems t)) \<and>
     (\<forall>e \<in> set (ftItems t). backed tt dp e fs))"

definition same_files :: "string set \<Rightarrow> file_sys \<Rightarrow> file_sys \<Rightarrow> bool" where
  \<comment> \<open>the two differ only in the files of the set\<close>
  "same_files P fs fs' \<longleftrightarrow> (\<forall>p. p \<notin> P \<longrightarrow> fsFiles fs' p = fsFiles fs p) \<and>
     fsCanCreate fs' = fsCanCreate fs \<and> fsCanWrite fs' = fsCanWrite fs"

lemma same_files_refl [simp]: "same_files P fs fs"
  by (simp add: same_files_def)

lemma same_files_trans: "same_files P a b \<Longrightarrow> same_files P b c \<Longrightarrow> same_files P a c"
  by (simp add: same_files_def)

lemma backed_other:
  assumes "backed tt dp (k', it) fs" and "same_files (own_files dp k) fs fs'" and "good_key k" and "k \<noteq> k'"
  shows "backed tt dp (k', it) fs'"
proof -
  have k': "good_key k'" using assms(1) by (simp add: backed_def)
  have "base dp @ k' \<notin> own_files dp k" "base dp @ k' @ ''.idx'' \<notin> own_files dp k"
    using own_files_disjoint [OF assms(3) k' assms(4), of dp] by (auto simp: own_files_def)
  then have "fsFiles fs' (base dp @ k') = fsFiles fs (base dp @ k')" "fsFiles fs' (base dp @ k' @ ''.idx'') = fsFiles fs (base dp @ k' @ ''.idx'')"
    using assms(2) by (simp_all add: same_files_def)
  with assms(1) show ?thesis by (simp add: backed_def)
qed

lemma os_same_files:
  "clean p \<in> P \<Longrightarrow> os_Create p fs = Some fs' \<Longrightarrow> same_files P fs fs'"
  "clean p \<in> P \<Longrightarrow> same_files P fs (snd (os_Write p d fs))"
  "clean p \<in> P \<Longrightarrow> same_files P fs (os_Remove p fs)"
  by (auto simp: same_files_def os_Create_def os_Write_def os_Remove_def split: if_splits)

lemma write_idx_effect:
  assumes "clean (fiFilepath it) = P" and "clean (fiFileIdx it) = I" and "P \<noteq> I" and "write_idx tt it fs = (ok, fs')"
  shows "same_files {P, I} fs fs'"
    and "ok \<Longrightarrow> fsFiles fs' P = fsFiles fs P \<and> fsFiles fs' I = Some (fst tt (fiAccessedOn it))"
proof -
  have e: "write_idx tt it fs =
    (if \<not> fsCanCreate fs I then (False, fs\<lparr>fsFiles := (fsFiles fs)(P := None)\<rparr>)
     else if fsCanWrite fs I then (True, fs\<lparr>fsFiles := (fsFiles fs)(I \<mapsto> fst tt (fiAccessedOn it))\<rparr>)
     else (False, fs\<lparr>fsFiles := (fsFiles fs)(I \<mapsto> [], P := None, I := None)\<rparr>))"
    unfolding write_idx_def os_Create_def os_Write_def os_Remove_def assms(1,2) by simp
  show "same_files {P, I} fs fs'" using assms(4) unfolding e by (auto simp: same_files_def split: if_splits)
  show "ok \<Longrightarrow> fsFiles fs' P = fsFiles fs P \<and> fsFiles fs' I = Some (fst tt (fiAccessedOn it))"
    using assms(3,4) unfolding e by (auto split: if_splits)
qed

lemma create_effect:
  assumes "clean (fiFilepath it) = P" and "clean (fiFileIdx it) = I" and "P \<noteq> I" and "createAndStoreToFile tt d it fs = (ok, fs')"
  shows "same_files {P, I} fs fs'"
    and "ok \<Longrightarrow> fsFiles fs' P = Some d \<and> fsFiles fs' I = Some (fst tt (fiAccessedOn it))"
proof -
  let ?fs2 = "fs\<lparr>fsFiles := (fsFiles fs)(P \<mapsto> d)\<rparr>"
  have e: "createAndStoreToFile tt d it fs =
    (if \<not> fsCanCreate fs P then (False, fs)
     else if fsCanWrite fs P then write_idx tt it ?fs2
     else (False, fs\<lparr>fsFiles := (fsFiles fs)(P := None)\<rparr>))"
    unfolding createAndStoreToFile_def os_Create_def os_Write_def os_Remove_def assms(1) by simp
  have s2: "same_files {P, I} fs ?fs2" by (simp add: same_files_def)
  show "same_files {P, I} fs fs'"
  proof (cases "fsCanCreate fs P \<and> fsCanWrite fs P")
    case True
    then have w: "write_idx tt it ?fs2 = (ok, fs')" using assms(4) unfolding e by simp
    show ?thesis using write_idx_effect(1) [OF assms(1-3) w] by (rule same_files_trans [OF s2])
  next
    case False
    with assms(4) show ?thesis unfolding e by (auto simp: same_files_def split: if_splits)
  qed
  show "fsFiles fs' P = Some d \<and> fsFiles fs' I = Some (fst tt (fiAccessedOn it))" if ok
  proof -
    have w: "write_idx tt it ?fs2 = (ok, fs')" using assms(4) that unfolding e by (auto split: if_splits)
    show ?thesis using write_idx_effect(2) [OF assms(1-3) w that] by simp
  qed
qed

lemma blank_paths:
  assumes "good_key k"
  shows "clean (fiFilepath (blank_item k dp span t sz)) = base dp @ k" "clean (fiFileIdx (blank_item k dp span t sz)) = base dp @ k @ ''.idx''"
    "base dp @ k \<noteq> base dp @ k @ ''.idx''"
  using clean_paths [OF assms] idx_not_key [OF assms, of dp k] by (simp_all add: blank_item_def)

lemma NewFileItem_effect:
  assumes "good_key k" and "NewFileItem tt now k dp d span fs = (r, fs')"
  shows "same_files (own_files dp k) fs fs'"
    and "\<And>it. r = Some it \<Longrightarrow> it = blank_item k dp span now (int (length d)) \<and>
      fsFiles fs' (base dp @ k) = Some d \<and> fsFiles fs' (base dp @ k @ ''.idx'') = Some (fst tt now)"
proof -
  let ?it = "blank_item k dp span now (int (length d))"
  obtain ok where c: "createAndStoreToFile tt d ?it fs = (ok, fs')" and r: "r = (if ok then Some ?it else None)"
    using assms(2) by (auto simp: NewFileItem_def Let_def split: prod.splits bool.splits)
  note eff = create_effect [OF blank_paths [OF assms(1)] c]
  show "same_files (own_files dp k) fs fs'" using eff(1) by (simp add: own_files_def)
  show "it = ?it \<and> fsFiles fs' (base dp @ k) = Some d \<and> fsFiles fs' (base dp @ k @ ''.idx'') = Some (fst tt now)"
    if "r = Some it" for it
    using eff(2) that r by (simp add: blank_item_def split: if_splits)
qed

lemma items_frame:
  assumes "table_ok tt dp (t, fs)" and "same_files (own_files dp k) fs fs'" and "good_key k"
    and "e \<in> set (ftItems t)" and "fst e \<noteq> k"
  shows "backed tt dp e fs'"
proof -
  obtain k' it where e: "e = (k', it)" by (cases e)
  have "backed tt dp (k', it) fs" using assms(1,4) e by (simp add: table_ok_def)
  from backed_other [OF this assms(2,3)] assms(5) show ?thesis unfolding e by simp
qed

lemma addInternal_ok:
  assumes "table_ok tt dp (t, fs)" and "same_files (own_files dp k) fs fs'" and "good_key k" and "map_of (ftItems t) k = None"
    and "backed tt dp (k, it\<lparr>fiExpire := None, fiDelete := None\<rparr>) fs'" and "fiKey it = k"
  shows "table_ok tt dp (addInternal it t, fs')"
proof -
  have k: "k \<notin> fst ` set (ftItems t)" using assms(4) by (simp add: map_of_eq_None_iff)
  have u: "AList.update k v xs = xs @ [(k, v)]" if "k \<notin> fst ` set xs" for v and xs :: "(string \<times> FileItem) list"
    using that by (induction xs) auto
  have "backed tt dp e fs'" if "e \<in> set (ftItems t)" for e
    by (rule items_frame [OF assms(1-3) that]) (use that k in force)
  with assms k show ?thesis by (simp add: table_ok_def addInternal_def u)
qed

lemma table_ok_frame:
  assumes "table_ok tt dp (t, fs)" and "same_files (own_files dp k) fs fs'" and "good_key k" and "map_of (ftItems t) k = None"
  shows "table_ok tt dp (t, fs')"
proof -
  have k: "k \<notin> fst ` set (ftItems t)" using assms(4) by (simp add: map_of_eq_None_iff)
  have "backed tt dp e fs'" if "e \<in> set (ftItems t)" for e
    by (rule items_frame [OF assms(1-3) that]) (use that k in force)
  with assms show ?thesis by (simp add: table_ok_def)
qed

definition time_ok :: "time_text \<Rightarrow> bool" where
  \<comment> \<open>a time that was written is read back\<close>
  "time_ok tt \<longleftrightarrow> (\<forall>t. snd tt (fst tt t) = Some t)"

lemma blank_backed:
  assumes "good_key k" and "fsFiles fs (base dp @ k) = Some d" and "fsFiles fs (base dp @ k @ ''.idx'') = Some b" and "snd tt b = Some t"
    and "sz = int (length d)"
  shows "backed tt dp (k, (blank_item k dp span t sz)\<lparr>fiExpire := None, fiDelete := None\<rparr>) fs"
  using assms clean_paths [OF assms(1)] by (simp add: backed_def blank_item_def)

lemma fi_delete_effect:
  assumes "clean (fiFilepath it) = base dp @ k" and "clean (fiFileIdx it) = base dp @ k @ ''.idx''" and "fiDelete it = None"
  shows "same_files (own_files dp k) fs (snd (fi_delete cb sd it fs))"
  using assms by (simp add: fi_delete_def os_Remove_def same_files_def own_files_def Let_def)

lemma delete_ok:
  assumes "table_ok tt dp (t, fs)" and "map_of (ftItems t) k = Some it"
  shows "table_ok tt dp (t\<lparr>ftItems := AList.delete k (ftItems t)\<rparr>, snd (fi_delete cb sd it fs))"
proof -
  let ?fs = "snd (fi_delete cb sd it fs)"
  have "(k, it) \<in> set (ftItems t)" using assms(2) by (rule map_of_SomeD)
  then have b: "backed tt dp (k, it) fs" using assms(1) by (simp add: table_ok_def)
  then have sf: "same_files (own_files dp k) fs ?fs" by (intro fi_delete_effect) (simp_all add: backed_def)
  have "backed tt dp e ?fs" if "e \<in> set (AList.delete k (ftItems t))" for e
    by (rule items_frame [OF assms(1) sf]) (use b that in \<open>auto simp: backed_def AList.delete_eq\<close>)
  moreover have "distinct (map fst (AList.delete k (ftItems t)))" using assms(1) by (simp add: table_ok_def distinct_delete)
  ultimately show ?thesis using assms(1) by (simp add: table_ok_def)
qed

lemma NewFileItem_ok:
  assumes "table_ok tt dp (t, fs)" and "time_ok tt" and "good_key k" and "map_of (ftItems t) k = None"
    and "NewFileItem tt now k dp d span fs = (r, fs')"
  shows "table_ok tt dp (case r of None \<Rightarrow> t | Some it \<Rightarrow> addInternal it t, fs')"
proof (cases r)
  case None
  with table_ok_frame [OF assms(1) NewFileItem_effect(1) [OF assms(3,5)] assms(3,4)] show ?thesis by simp
next
  case (Some it)
  note e = NewFileItem_effect [OF assms(3,5)]
  have it: "it = blank_item k dp span now (int (length d))" using e(2) [OF Some] by blast
  have "backed tt dp (k, it\<lparr>fiExpire := None, fiDelete := None\<rparr>) fs'"
    unfolding it using e(2) [OF Some] assms(2) by (intro blank_backed [OF assms(3)]) (auto simp: time_ok_def)
  with addInternal_ok [OF assms(1) e(1) assms(3,4)] Some it show ?thesis by (simp add: blank_item_def)
qed

lemma fc_Add_ok:
  assumes "table_ok tt dp (t, fs)" and "time_ok tt" and "good_key k" and "fc_Add tt now k dp span d t fs = (r, s)"
  shows "table_ok tt dp s"
proof (cases "map_of (ftItems t) k")
  case None
  obtain x fs' where "NewFileItem tt now k dp d span fs = (x, fs')" by (metis prod.exhaust)
  with NewFileItem_ok [OF assms(1-3) None this] assms(4) None show ?thesis by (cases x) (auto simp: fc_Add_def)
qed (use assms(1,4) in \<open>simp add: fc_Add_def\<close>)

lemma NotFoundAdd_ok:
  assumes "table_ok tt dp (t, fs)" and "time_ok tt" and "good_key k" and "NotFoundAdd tt now k span d t fs = Some (r, s)"
  shows "table_ok tt dp s"
proof (cases "map_of (ftItems t) k")
  case None
  have dp: "ftName t = dp" using assms(1) by (simp add: table_ok_def)
  obtain x fs' where "NewFileItem tt now k dp d span fs = (x, fs')" by (metis prod.exhaust)
  with NewFileItem_ok [OF assms(1-3) None this] assms(4) None dp show ?thesis by (cases x) (auto simp: NotFoundAdd_def)
qed (use assms(1,4) in \<open>simp add: NotFoundAdd_def\<close>)

definition writable :: "file_sys \<Rightarrow> bool" where
  "writable fs \<longleftrightarrow> (\<forall>p. fsCanCreate fs p \<and> fsCanWrite fs p)"

lemma LoadFileItem_effect:
  assumes "good_key k" and "LoadFileItem tt now k dp span fs = (r, fs')" and "time_ok tt"
    and "os_ReadFile (idx_path dp k) fs \<noteq> None \<or> writable fs"
  shows "same_files (own_files dp k) fs fs'"
    and "\<And>it. r = Some it \<Longrightarrow> \<exists>t sz. it = blank_item k dp span t sz \<and>
      (t = zero_time \<or> backed tt dp (k, it\<lparr>fiExpire := None, fiDelete := None\<rparr>) fs')"
proof -
  note c = clean_paths [OF assms(1), of dp]
  show "same_files (own_files dp k) fs fs'"
  proof (cases "\<exists>b. os_ReadFile (idx_path dp k) fs = None \<and> os_ReadFile (data_path dp k) fs = Some b")
    case True
    then obtain b where b: "os_ReadFile (idx_path dp k) fs = None" "os_ReadFile (data_path dp k) fs = Some b" by blast
    let ?it = "blank_item k dp span now (int (length b))"
    obtain ok fs1 where w: "write_idx tt ?it fs = (ok, fs1)" by (metis prod.exhaust)
    with b assms(2) have "fs' = fs1" by (simp add: LoadFileItem_def storeIdxFile_def Let_def)
    with write_idx_effect(1) [OF blank_paths [OF assms(1)] w] show ?thesis by (simp add: own_files_def)
  next
    case False
    with assms(2) c show ?thesis
      by (auto simp: LoadFileItem_def os_Remove_def same_files_def own_files_def Let_def split: option.splits)
  qed
  fix it
  assume r: "r = Some it"
  then obtain body where body: "os_ReadFile (data_path dp k) fs = Some body"
    using assms(2) by (auto simp: LoadFileItem_def split: option.splits)
  show "\<exists>t sz. it = blank_item k dp span t sz \<and> (t = zero_time \<or> backed tt dp (k, it\<lparr>fiExpire := None, fiDelete := None\<rparr>) fs')"
  proof (cases "os_ReadFile (idx_path dp k) fs")
    case None
    let ?it = "blank_item k dp span now (int (length body))"
    have w: "write_idx tt ?it fs = (True, fs')"
      using None assms(2,4) body blank_paths [OF assms(1)]
      by (auto simp: LoadFileItem_def storeIdxFile_def writable_def write_idx_def os_Create_def os_Write_def Let_def split: prod.splits)
    have "it = ?it" using None body assms(2) r by (auto simp: LoadFileItem_def Let_def)
    moreover have "backed tt dp (k, ?it\<lparr>fiExpire := None, fiDelete := None\<rparr>) fs'"
      by (rule blank_backed [OF assms(1)])
        (use write_idx_effect(2) [OF blank_paths [OF assms(1)] w] body c assms(3) in \<open>auto simp: os_ReadFile_def time_ok_def blank_item_def\<close>)
    ultimately show ?thesis by blast
  next
    case (Some b)
    let ?t = "case snd tt b of None \<Rightarrow> zero_time | Some t \<Rightarrow> t"
    have it: "it = blank_item k dp span ?t (int (length body))" "fs' = fs"
      using Some body assms(2) r by (auto simp: LoadFileItem_def Let_def)
    have "backed tt dp (k, (blank_item k dp span ?t (int (length body)))\<lparr>fiExpire := None, fiDelete := None\<rparr>) fs'" if "snd tt b = Some u" for u
      by (rule blank_backed [OF assms(1)]) (use Some body c it that in \<open>auto simp: os_ReadFile_def\<close>)
    with it show ?thesis by (cases "snd tt b") auto
  qed
qed

lemma AddFromFile_ok:
  assumes ok: "table_ok tt dp (t, fs)" and tt: "time_ok tt" and k: "good_key k" and span: "span < 2 ^ 63" and now: "0 \<le> now"
    and idx: "os_ReadFile (idx_path dp k) fs \<noteq> None \<or> writable fs" and add: "AddFromFile tt now k dp span t fs = (r, s)"
  shows "table_ok tt dp s"
proof (cases "map_of (ftItems t) k")
  case None
  obtain x fs1 where l: "LoadFileItem tt now k dp span fs = (x, fs1)" by (metis prod.exhaust)
  note e = LoadFileItem_effect [OF k l tt idx]
  show ?thesis
  proof (cases x)
    case no: None
    with table_ok_frame [OF ok e(1) k None] l add None show ?thesis by (simp add: AddFromFile_def)
  next
    case (Some it)
    then obtain u sz where it: "it = blank_item k dp span u sz" "u = zero_time \<or> backed tt dp (k, it\<lparr>fiExpire := None, fiDelete := None\<rparr>) fs1"
      using e(2) by blast
    show ?thesis
    proof (cases "now - fiAccessedOn it \<ge> span")
      case True
      have cb: "ftExpire t = None" using ok by (simp add: table_ok_def)
      have "same_files (own_files dp k) fs1 (snd (fi_delete False True it fs1))"
        by (rule fi_delete_effect) (use clean_paths [OF k] it(1) in \<open>simp_all add: blank_item_def\<close>)
      from table_ok_frame [OF ok same_files_trans [OF e(1) this] k None] True Some l add None cb it(1) show ?thesis
        by (auto simp: AddFromFile_def run_callback_def blank_item_def)
    next
      case False
      then have "u \<noteq> zero_time" using span now it(1) by (auto simp: zero_time_def blank_item_def)
      with it have b: "backed tt dp (k, it\<lparr>fiExpire := None, fiDelete := None\<rparr>) fs1" by blast
      have "fiKey it = k" by (simp add: it(1) blank_item_def)
      from addInternal_ok [OF ok e(1) k None b this] False Some l add None show ?thesis by (simp add: AddFromFile_def)
    qed
  qed
qed (use ok add in \<open>simp add: AddFromFile_def\<close>)

lemma fc_Value_ok:
  assumes "table_ok tt dp (t, fs)" and "fc_Value k t = (r, t')"
  shows "table_ok tt dp (t', fs)"
proof (cases "map_of (ftItems t) k")
  case None
  with assms show ?thesis by (auto simp: fc_Value_def split: option.splits)
next
  case (Some it)
  then have m: "(k, it) \<in> set (ftItems t)" by (rule map_of_SomeD)
  have t': "t' = t\<lparr>ftItems := AList.update k (AddCount it) (ftItems t)\<rparr>" using assms(2) Some by (auto simp: fc_Value_def Let_def)
  have d: "distinct (map fst (ftItems t))" using assms(1) by (simp add: table_ok_def)
  have "e = (k, AddCount it) \<or> e \<in> set (ftItems t)" if "e \<in> set (AList.update k (AddCount it) (ftItems t))" for e
  proof -
    have "map_of (AList.update k (AddCount it) (ftItems t)) (fst e) = Some (snd e)"
      using that distinct_update [OF d, of k "AddCount it"] by simp
    then show ?thesis by (cases e) (auto simp: update_conv split: if_splits dest: map_of_SomeD)
  qed
  moreover have "backed tt dp (k, AddCount it) fs" using assms(1) m by (auto simp: table_ok_def backed_def AddCount_def)
  ultimately show ?thesis using assms(1) d unfolding t' by (auto simp: table_ok_def distinct_update)
qed

lemma deleteInternal_plain:
  assumes "ftExpire t = None"
  shows "deleteInternal k t fs = (case map_of (ftItems t) k of
      None \<Rightarrow> (t, fs)
    | Some it \<Rightarrow> (t\<lparr>ftItems := AList.delete k (ftItems t)\<rparr>, snd (fi_delete False True it fs)))"
  using assms by (simp add: deleteInternal_def run_callback_def split: option.split prod.split)

lemma deleteInternal_ok:
  assumes "table_ok tt dp (t, fs)"
  shows "table_ok tt dp (deleteInternal k t fs)"
proof -
  have "ftExpire t = None" using assms by (simp add: table_ok_def)
  with assms delete_ok [OF assms] show ?thesis by (simp add: deleteInternal_plain split: option.split)
qed

lemma fold_delete_ok:
  "table_ok tt dp s \<Longrightarrow> table_ok tt dp (fold (\<lambda>key (t, fs). deleteInternal key t fs) ks s)"
proof (induction ks arbitrary: s)
  case (Cons k ks)
  obtain t fs where s: "s = (t, fs)" by (cases s)
  show ?case using Cons.IH [OF deleteInternal_ok [of tt dp t fs k]] Cons.prems s by simp
qed simp

lemma expirationCheck_ok:
  assumes "table_ok tt dp (t, fs)"
  shows "table_ok tt dp (expirationCheck now t fs)"
proof -
  obtain sm ks where k: "scan_items now (ftItems t) 0 [] = (sm, ks)" by (metis prod.exhaust)
  obtain t1 fs1 where f: "fold (\<lambda>key (t, fs). deleteInternal key t fs) ks (t, fs) = (t1, fs1)" by (metis prod.exhaust)
  have "table_ok tt dp (t1, fs1)" using fold_delete_ok [OF assms, of ks] unfolding f .
  then show ?thesis by (simp add: expirationCheck_def k f table_ok_def)
qed

inductive fc_step :: "time_text \<Rightarrow> string \<Rightarrow> FileItems \<times> file_sys \<Rightarrow> FileItems \<times> file_sys \<Rightarrow> bool" for tt dp where
  step_add: "good_key k \<Longrightarrow> fc_Add tt now k dp span d t fs = (r, s) \<Longrightarrow> fc_step tt dp (t, fs) s"
| step_not_found_add: "good_key k \<Longrightarrow> NotFoundAdd tt now k span d t fs = Some (r, s) \<Longrightarrow> fc_step tt dp (t, fs) s"
| step_load: "good_key k \<Longrightarrow> 0 \<le> now \<Longrightarrow> span < 2 ^ 63 \<Longrightarrow> os_ReadFile (idx_path dp k) fs \<noteq> None \<or> writable fs \<Longrightarrow>
    AddFromFile tt now k dp span t fs = (r, s) \<Longrightarrow> fc_step tt dp (t, fs) s"
| step_value: "fc_Value k t = (r', t') \<Longrightarrow> fc_step tt dp (t, fs) (t', fs)"
| step_delete: "fc_Delete k cb t fs = (r'', s) \<Longrightarrow> fc_step tt dp (t, fs) s"
| step_flush: "fc_step tt dp (t, fs) (Flush t, fs)"
| step_check: "ftTimer t = Some due \<Longrightarrow> due \<le> now \<Longrightarrow> fc_step tt dp (t, fs) (expirationCheck now t fs)"

lemma fc_Delete_ok:
  assumes "table_ok tt dp (t, fs)" and "fc_Delete k cb t fs = (r, s)"
  shows "table_ok tt dp s"
proof (cases "map_of (ftItems t) k")
  case None
  with assms show ?thesis by (simp add: fc_Delete_def)
next
  case (Some it)
  with assms(2) have "s = (t\<lparr>ftItems := AList.delete k (ftItems t)\<rparr>, snd (fi_delete cb True it fs))"
    by (simp add: fc_Delete_def case_prod_beta)
  then show ?thesis using delete_ok [OF assms(1) Some, of cb True] by (simp only:)
qed

lemma fc_step_ok: "fc_step tt dp s s' \<Longrightarrow> time_ok tt \<Longrightarrow> table_ok tt dp s \<Longrightarrow> table_ok tt dp s'"
proof (induction rule: fc_step.induct)
  case (step_add k now span d t fs r s)
  show ?case by (rule fc_Add_ok [OF step_add.prems(2,1) step_add.hyps])
next
  case (step_not_found_add k now span d t fs r s)
  show ?case by (rule NotFoundAdd_ok [OF step_not_found_add.prems(2,1) step_not_found_add.hyps])
next
  case (step_load k now span fs t r s)
  show ?case by (rule AddFromFile_ok [OF step_load.prems(2,1) step_load.hyps(1,3,2,4,5)])
next
  case (step_value k t r' t' fs)
  show ?case by (rule fc_Value_ok [OF step_value.prems(2) step_value.hyps])
next
  case (step_delete k cb t fs r'' s)
  show ?case by (rule fc_Delete_ok [OF step_delete.prems(2) step_delete.hyps])
next
  case (step_flush t fs)
  then show ?case by (simp add: table_ok_def Flush_def)
next
  case (step_check t due now fs)
  show ?case by (rule expirationCheck_ok [OF step_check.prems(2)])
qed

lemma new_table_ok: "table_ok tt dp (new_table dp limits span, fs)"
  by (simp add: table_ok_def new_table_def)

text \<open>The life of a table that \<open>LoadFileItems\<close> has made without loading files. It starts a goroutine for
  the first check, which runs at any later moment and starts the timer.\<close>

inductive fc_run :: "time_text \<Rightarrow> string \<Rightarrow> int \<Rightarrow> int \<Rightarrow> file_sys \<Rightarrow> bool \<Rightarrow> FileItems \<times> file_sys \<Rightarrow> bool"
  for tt dp limits span fs0 where
  \<comment> \<open>the flag: the first check has still to run\<close>
  run_new: "fc_run tt dp limits span fs0 True (new_table dp limits span, fs0)"
| run_first: "fc_run tt dp limits span fs0 True (t, fs) \<Longrightarrow> fc_run tt dp limits span fs0 False (expirationCheck now t fs)"
| run_step: "fc_run tt dp limits span fs0 b s \<Longrightarrow> fc_step tt dp s s' \<Longrightarrow> fc_run tt dp limits span fs0 b s'"

lemma fc_run_ok: "fc_run tt dp limits span fs0 b s \<Longrightarrow> time_ok tt \<Longrightarrow> table_ok tt dp s"
  by (induction rule: fc_run.induct) (auto intro: new_table_ok expirationCheck_ok fc_step_ok)

lemma LoadFileItems_run:
  "fc_run tt dp limits span fs0 False (LoadFileItems tt now walk dp limits span False fs0)"
  using run_first [OF run_new, of tt dp limits span fs0 now] by (cases walk) (simp_all add: LoadFileItems_def Let_def)

lemma fc_run_item:
  assumes "time_ok tt" and "fc_run tt dp limits span fs0 b (t, fs)" and "map_of (ftItems t) k = Some it"
  shows "backed tt dp (k, it) fs"
  using fc_run_ok [OF assms(2,1)] map_of_SomeD [OF assms(3)] by (simp add: table_ok_def)


text \<open>Reading does not keep an item alive: the time of last access stays the time of creation, however often it is read.\<close>

lemma access_time_fixed:
  assumes "time_ok tt" and "fc_run tt dp limits span fs0 b (t, fs)" and "map_of (ftItems t) k = Some it"
  shows "fiAccessedOn it = fiCreatedOn it"
  using fc_run_item [OF assms] by (simp add: backed_def)











subsection \<open>Expiry\<close>

definition alive :: "int \<Rightarrow> string \<times> FileItem \<Rightarrow> bool" where
  "alive now e \<longleftrightarrow> now < fiAccessedOn (snd e) + fiLifeSpan (snd e)"

definition ends :: "string \<times> FileItem \<Rightarrow> int" where
  "ends e = fiAccessedOn (snd e) + fiLifeSpan (snd e)"

lemma scan_items_keys: "snd (scan_items now xs sm ks) = ks @ map fst (filter (\<lambda>e. \<not> alive now e) xs)"
  by (induction now xs sm ks rule: scan_items.induct) (auto simp: Let_def alive_def)

lemma scan_items_smallest:
  "0 \<le> sm \<Longrightarrow> fst (scan_items now xs sm ks) =
    (if sm = 0 then (if filter (alive now) xs = [] then 0 else Min (ends ` set (filter (alive now) xs)) - now)
     else Min (insert (now + sm) (ends ` set (filter (alive now) xs))) - now)"
proof (induction now xs sm ks rule: scan_items.induct)
  case (2 now key item items sm ks)
  let ?L = "ends ` set (filter (alive now) items)" and ?e = "ends (key, item)"
  show ?case
  proof (cases "alive now (key, item)")
    case False
    with 2 show ?thesis by (simp add: alive_def Let_def)
  next
    case True
    then have pos: "?e - now > 0" by (simp add: alive_def ends_def)
    show ?thesis
    proof (cases "sm = 0 \<or> ?e - now < sm")
      case lt: True
      have "fst (scan_items now ((key, item) # items) sm ks) = fst (scan_items now items (?e - now) ks)"
        using True lt by (auto simp: alive_def ends_def Let_def algebra_simps)
      also have "\<dots> = Min (insert ?e ?L) - now"
        using 2(2) [OF refl] True lt pos 2(4) by (auto simp: alive_def ends_def algebra_simps)
      finally have f: "fst (scan_items now ((key, item) # items) sm ks) = Min (insert ?e ?L) - now" .
      have "Min (insert (now + sm) (insert ?e ?L)) = Min (insert ?e ?L)" if "sm \<noteq> 0"
        using lt that by (subst Min_insert) (auto simp: min_def)
      with f True show ?thesis by simp
    next
      case ge: False
      have "fst (scan_items now ((key, item) # items) sm ks) = fst (scan_items now items sm ks)"
        using True ge by (auto simp: alive_def ends_def Let_def algebra_simps)
      also have "\<dots> = Min (insert (now + sm) ?L) - now"
        using 2(3) [OF refl] True ge 2(4) by (auto simp: alive_def ends_def algebra_simps)
      also have "Min (insert (now + sm) ?L) = Min (insert (now + sm) (insert ?e ?L))"
      proof -
        have "Min (insert (now + sm) ?L) \<le> now + sm" by simp
        with ge have "min ?e (Min (insert (now + sm) ?L)) = Min (insert (now + sm) ?L)" by linarith
        then show ?thesis by (simp add: insert_commute [of "now + sm"])
      qed
      finally show ?thesis using True ge by simp
    qed
  qed
qed simp

lemma deleteInternal_items:
  "ftItems (fst (deleteInternal k t fs)) = AList.delete k (ftItems t)" "ftExpire (fst (deleteInternal k t fs)) = ftExpire t"
proof -
  have "map_of (ftItems t) k = None \<Longrightarrow> AList.delete k (ftItems t) = ftItems t"
    by (simp add: AList.delete_eq map_of_eq_None_iff) (force intro!: filter_True)
  then show "ftItems (fst (deleteInternal k t fs)) = AList.delete k (ftItems t)" "ftExpire (fst (deleteInternal k t fs)) = ftExpire t"
    by (simp_all add: deleteInternal_def case_prod_beta Let_def split: option.split)
qed

lemma fold_delete_items:
  "ftItems (fst (fold (\<lambda>key (t, fs). deleteInternal key t fs) ks s)) = filter (\<lambda>e. fst e \<notin> set ks) (ftItems (fst s))"
proof (induction ks arbitrary: s)
  case (Cons k ks)
  obtain t fs where s: "s = (t, fs)" by (cases s)
  have "filter (\<lambda>e. fst e \<notin> set ks) (AList.delete k (ftItems t)) = filter (\<lambda>e. fst e \<notin> set (k # ks)) (ftItems t)"
    unfolding AList.delete_eq filter_filter by (rule filter_cong) auto
  then show ?case by (simp add: s Cons.IH deleteInternal_items)
qed simp

lemma filter_not_scanned:
  assumes "distinct (map fst xs)" and "ks = map fst (filter (\<lambda>e. \<not> alive now e) xs)"
  shows "filter (\<lambda>e. fst e \<notin> set ks) xs = filter (alive now) xs"
proof (rule filter_cong [OF refl])
  fix e
  assume e: "e \<in> set xs"
  obtain k it where ki: "e = (k, it)" by (cases e)
  have uni: "it' = it" if "(k, it') \<in> set xs" for it'
    by (rule eq_key_imp_eq_value [OF assms(1) that]) (use e ki in simp)
  have "k \<in> set ks \<longleftrightarrow> \<not> alive now (k, it)"
  proof
    assume "k \<in> set ks"
    then obtain it' where it': "(k, it') \<in> set xs" "\<not> alive now (k, it')" by (auto simp: assms(2))
    with uni [OF it'(1)] show "\<not> alive now (k, it)" by simp
  next
    assume "\<not> alive now (k, it)"
    with e ki have "(k, it) \<in> set (filter (\<lambda>e. \<not> alive now e) xs)" by simp
    then have "fst (k, it) \<in> set ks" unfolding assms(2) set_map by (rule imageI)
    then show "k \<in> set ks" by simp
  qed
  then show "fst e \<notin> set ks \<longleftrightarrow> alive now e" by (simp add: ki)
qed

lemma scan_positive:
  assumes "sm = (if filter (alive now) xs = [] then 0 else Min (ends ` set (filter (alive now) xs)) - now)"
  shows "sm > 0 \<longleftrightarrow> filter (alive now) xs \<noteq> []"
proof (cases "filter (alive now) xs = []")
  case False
  then have "\<forall>x \<in> ends ` set (filter (alive now) xs). now < x" by (auto simp: alive_def ends_def)
  moreover have "ends ` set (filter (alive now) xs) \<noteq> {}" using False by (simp only: image_is_empty set_empty) simp
  ultimately have "now < Min (ends ` set (filter (alive now) xs))" using Min_gr_iff [of "ends ` set (filter (alive now) xs)" now] by blast
  with False assms show ?thesis by simp
qed (use assms in simp)

text \<open>A check of the table drops exactly the items whose life span has passed, and starts the timer for the moment when the first
  of the remaining items will have to go, or for five seconds later if there are none.\<close>

lemma expiration_exact:
  assumes "distinct (map fst (ftItems t))" and "expirationCheck now t fs = (t', fs')"
  shows "ftItems t' = filter (\<lambda>(k, it). now < fiAccessedOn it + fiLifeSpan it) (ftItems t) \<and>
    ftTimer t' = Some (if ftItems t' = [] then now + 5 * 10 ^ 9
      else Min ((\<lambda>(k, it). fiAccessedOn it + fiLifeSpan it) ` set (ftItems t')))"
proof -
  obtain sm ks where sc: "scan_items now (ftItems t) 0 [] = (sm, ks)" by (metis prod.exhaust)
  let ?live = "filter (alive now) (ftItems t)"
  have ks: "ks = map fst (filter (\<lambda>e. \<not> alive now e) (ftItems t))" using scan_items_keys [of now "ftItems t" 0 "[]"] sc by simp
  have sm: "sm = (if ?live = [] then 0 else Min (ends ` set ?live) - now)"
    using scan_items_smallest [of 0 now "ftItems t" "[]"] sc by simp
  have "filter (\<lambda>e. fst e \<notin> set ks) (ftItems t) = ?live" by (rule filter_not_scanned [OF assms(1) ks])
  then have items: "ftItems t' = ?live"
    using assms(2) fold_delete_items [of ks "(t, fs)"] by (auto simp: expirationCheck_def sc split: prod.splits)
  have al: "alive now = (\<lambda>(k, it). now < fiAccessedOn it + fiLifeSpan it)" "ends = (\<lambda>(k, it). fiAccessedOn it + fiLifeSpan it)"
    by (auto simp: alive_def ends_def fun_eq_iff)
  have pos: "sm > 0 \<longleftrightarrow> ?live \<noteq> []" by (rule scan_positive [OF sm])
  have "ftTimer t' = Some (now + (if sm > 0 then sm else 5 * 10 ^ 9))"
    using assms(2) by (auto simp: expirationCheck_def sc split: prod.splits)
  then have "ftTimer t' = Some (if ?live = [] then now + 5 * 10 ^ 9 else Min (ends ` set ?live))"
    using pos sm by auto
  then show ?thesis unfolding items al by simp
qed

lemma addInternal_timer: "ftTimer (addInternal it t) = ftTimer t \<and> (fc_Exists k t \<longrightarrow> fc_Exists k (addInternal it t))"
  by (simp add: addInternal_def fc_Exists_def update_conv)

lemma stopped_step:
  assumes "fc_step tt dp (t, fs) (t', fs')" and "ftTimer t = None"
  shows "ftTimer t' = None \<and> (fc_Exists k t \<longrightarrow>
     fc_Exists k t' \<or> (t', fs') = (Flush t, fs) \<or> (\<exists>cb. (t', fs') = snd (fc_Delete k cb t fs)))"
  using assms
proof (cases rule: fc_step.cases)
  case (step_add k now span d r)
  then show ?thesis using assms(2) addInternal_timer by (auto simp: fc_Add_def split: if_splits prod.splits option.splits)
next
  case (step_not_found_add k now span d r)
  then show ?thesis using assms(2) addInternal_timer by (auto simp: NotFoundAdd_def split: if_splits prod.splits option.splits)
next
  case (step_load k now span r)
  then show ?thesis using assms(2) addInternal_timer by (auto simp: AddFromFile_def Let_def split: if_splits prod.splits option.splits)
next
  case (step_value k' r')
  then show ?thesis using assms(2) by (auto simp: fc_Value_def fc_Exists_def update_conv Let_def split: option.splits if_splits)
next
  case (step_delete k' cb r'')
  then have "ftTimer t' = None" using assms(2) by (auto simp: fc_Delete_def Let_def split: option.splits prod.splits)
  moreover have "fc_Exists k t'" if "fc_Exists k t" "k' \<noteq> k"
    using step_delete that by (auto simp: fc_Delete_def fc_Exists_def delete_conv' Let_def split: option.splits prod.splits)
  moreover have "(t', fs') = snd (fc_Delete k' cb t fs)" using step_delete by simp
  ultimately show ?thesis by metis
next
  case step_flush
  then show ?thesis by (simp add: Flush_def)
next
  case (step_check due now)
  with assms(2) show ?thesis by simp
qed

text \<open>Flushing a table stops its timer, and nothing starts it again: in no state reached afterwards is a check due, and an item added then
  stays, however old, until it is deleted by its key or the table is flushed again.\<close>

lemma flush_stops_expiry:
  assumes "(fc_step tt dp)\<^sup>*\<^sup>* (Flush t0, fs0) (t, fs)"
  shows "ftTimer t = None \<and>
    (\<forall>s. fc_step tt dp (t, fs) s \<longrightarrow> fc_Exists k t \<longrightarrow>
       fc_Exists k (fst s) \<or> s = (Flush t, fs) \<or> (\<exists>cb. s = snd (fc_Delete k cb t fs)))"
proof -
  have "ftTimer (fst s) = None" if "(fc_step tt dp)\<^sup>*\<^sup>* (Flush t0, fs0) s" for s
    using that
  proof (induction rule: rtranclp_induct)
    case (step y z)
    then show ?case using stopped_step [of tt dp "fst y" "snd y" "fst z" "snd z"] by simp
  qed (simp add: Flush_def)
  from this [OF assms] show ?thesis using stopped_step [of tt dp t fs] by (metis fst_conv prod.collapse)
qed

subsection \<open>Eight bytes\<close>

lemma octal_round_trip: "Bytes2Octal (Octal2bytes v) = v"
proof -
  have l: "[0..<8] = [0, 1, 2, 3, 4, 5, 6, 7 :: nat]" by (simp add: upt_rec)
  have "Bytes2Octal (Octal2bytes v) = foldr (\<lambda>j w. w OR push_bit (8 * j) (take_bit 8 (drop_bit (8 * j) v))) [0, 1, 2, 3, 4, 5, 6, 7] 0"
    by (simp add: Bytes2Octal_def Octal2bytes_def l unsigned_ucast_eq)
  also have "\<dots> = v"
  proof (rule bit_word_eqI)
    fix n
    assume "n < LENGTH(64)"
    then have n: "n < 8 \<or> 8 \<le> n \<and> n < 16 \<or> 16 \<le> n \<and> n < 24 \<or> 24 \<le> n \<and> n < 32 \<or> 32 \<le> n \<and> n < 40 \<or>
        40 \<le> n \<and> n < 48 \<or> 48 \<le> n \<and> n < 56 \<or> 56 \<le> n \<and> n < 64" by auto
    have b: "bit (push_bit (8 * j) (take_bit 8 (drop_bit (8 * j) v))) n \<longleftrightarrow> bit v n \<and> 8 * j \<le> n \<and> n < 8 * j + 8" for j
      using bit_imp_le_length [of v n] by (auto simp: bit_simps)
    show "bit (foldr (\<lambda>j w. w OR push_bit (8 * j) (take_bit 8 (drop_bit (8 * j) v))) [0, 1, 2, 3, 4, 5, 6, 7] 0) n \<longleftrightarrow> bit v n"
      unfolding foldr.simps o_def id_def bit_or_iff b using n by (cases "bit v n"; simp; blast)
  qed
  finally show ?thesis .
qed

end
