(* ===== verification/MemUtil.thy ===== *)
theory MemUtil
  imports Prelude "HOL-Library.AList"
begin

text \<open>
  \<^verbatim>\<open>util/mem/ring/buffer.go\<close>, \<^verbatim>\<open>util/mem/SyncArray.go\<close>, \<^verbatim>\<open>util/mem/ChannelBuf.go\<close>, \<^verbatim>\<open>util/mem/BytesPool.go\<close>
  and \<^verbatim>\<open>util/sync/spinlock.go\<close>: a ring buffer with followers, small containers, and a spin lock.

  Representation. Times are nanoseconds, the zero \<open>time.Time\<close> is \<open>None\<close>. A buffered channel is the list of its
  elements. The map of streams is an association list in the order of its iteration; when several cases of
  a \<open>select\<close> are ready, \<open>pick\<close> says for each stream whether the stop is taken. \<open>Put\<close> that has to wait for a reader is
  \<open>None\<close>. Every operation holds the lock of its container and is one step. The operations on the word of the spin lock are
  atomic: each is a step of its own.
\<close>

subsection \<open>The ring buffer\<close>

record 'v Entry =
  enValue :: 'v
  enTimestamp :: int

record 'v Stream =
  smEntries :: "'v Entry list" \<comment> \<open>the channel, of capacity 128\<close>
  smStop :: bool \<comment> \<open>the channel \<open>Stop\<close> is closed\<close>

record 'v ring_buffer =
  rbSize :: int
  rbVals :: "'v Entry list"
  rbStreams :: "(string \<times> 'v Stream) list"

definition ring_New :: "int \<Rightarrow> 'v ring_buffer" where
  "ring_New i = \<lparr>rbSize = i, rbVals = [], rbStreams = []\<rparr>"

definition stream_cap :: nat where
  "stream_cap = 128"

fun put_streams :: "(string \<Rightarrow> bool) \<Rightarrow> 'v Entry \<Rightarrow> (string \<times> 'v Stream) list \<Rightarrow> (string \<times> 'v Stream) list option" where
  \<comment> \<open>the loop over the streams: the stop removes a stream, otherwise the entry needs room in its channel\<close>
  "put_streams pick entry [] = Some []"
| "put_streams pick entry ((i, s) # ss) =
     (let room = length (smEntries s) < stream_cap
      in if smStop s \<and> (pick i \<or> \<not> room) then put_streams pick entry ss
         else if room then
           map_option (\<lambda>ss. (i, s\<lparr>smEntries := smEntries s @ [entry]\<rparr>) # ss) (put_streams pick entry ss)
         else None)"

definition Put :: "(string \<Rightarrow> bool) \<Rightarrow> int \<Rightarrow> 'v \<Rightarrow> 'v ring_buffer \<Rightarrow> 'v ring_buffer option" where
  "Put pick now v b =
     (let entry = \<lparr>enValue = v, enTimestamp = now\<rparr>;
          vals = rbVals b @ [entry];
          vals = (if int (length vals) > rbSize b then tl vals else vals)
      in map_option (\<lambda>ss. b\<lparr>rbVals := vals, rbStreams := ss\<rparr>) (put_streams pick entry (rbStreams b)))"

definition ring_Get :: "int \<Rightarrow> 'v ring_buffer \<Rightarrow> 'v Entry list" where
  "ring_Get n b =
     (let len = int (length (rbVals b));
          n = (if n > len \<or> n < 0 then len else n)
      in drop (nat (len - n)) (rbVals b))"

definition Since :: "int \<Rightarrow> int option \<Rightarrow> 'v ring_buffer \<Rightarrow> 'v Entry list" where
  "Since now t b =
     (case t of
        None \<Rightarrow> rbVals b
      | Some t \<Rightarrow>
          if now - t < 0 then []
          else dropWhile (\<lambda>v. \<not> enTimestamp v - t > 0) (rbVals b))"

definition ring_Stream :: "string \<Rightarrow> 'v ring_buffer \<Rightarrow> 'v ring_buffer" where
  \<comment> \<open>with a fresh identifier\<close>
  "ring_Stream i b = b\<lparr>rbStreams := AList.update i \<lparr>smEntries = [], smStop = False\<rparr> (rbStreams b)\<rparr>"

subsection \<open>The array\<close>

record 'v Element =
  elBEmpty :: bool
  elWhen :: int
  elValue :: "'v option" \<comment> \<open>\<open>None\<close> is \<open>nil\<close>\<close>

record 'v SyncArray =
  saArrays :: "'v Element list"
  saSelectKey :: int
  saOutDate :: int

definition zero_element :: "'v Element" where
  "zero_element = \<lparr>elBEmpty = False, elWhen = 0, elValue = None\<rparr>"

definition NewSyncList :: "nat \<Rightarrow> int \<Rightarrow> 'v SyncArray" where
  \<comment> \<open>the loop that marks the elements empty assigns to copies of them\<close>
  "NewSyncList upLimits out =
     \<lparr>saArrays = replicate upLimits zero_element, saSelectKey = 0, saOutDate = out\<rparr>"

fun push_loop :: "'v Element list \<Rightarrow> bool" where
  \<comment> \<open>whether a loop of \<open>PushBack\<close> finds an empty element and returns; what it assigns, it assigns to a copy\<close>
  "push_loop [] = False"
| "push_loop (e # es) = (if elBEmpty e then True else push_loop es)"

definition sa_PushBack :: "'v \<Rightarrow> 'v SyncArray \<Rightarrow> 'v SyncArray" where
  "sa_PushBack v l =
     (let l = (if saSelectKey l \<ge> int (length (saArrays l)) then l\<lparr>saSelectKey := 0\<rparr> else l)
      in if push_loop (drop (nat (saSelectKey l)) (saArrays l)) then l\<lparr>saSelectKey := saSelectKey l + 1\<rparr>
         else if push_loop (saArrays l) then l\<lparr>saSelectKey := saSelectKey l + 1\<rparr>
         else l)"

definition sa_PopFront :: "'v SyncArray \<Rightarrow> 'v option" where
  \<comment> \<open>the element is emptied in a copy\<close>
  "sa_PopFront l = (case filter (\<lambda>e. \<not> elBEmpty e) (saArrays l) of [] \<Rightarrow> None | e # _ \<Rightarrow> elValue e)"

definition sa_Clear :: "'v SyncArray \<Rightarrow> 'v SyncArray" where
  "sa_Clear l = l\<lparr>saSelectKey := 0\<rparr>"

subsection \<open>The channel buffer and the pool of byte slices\<close>

record 'v ChannelBuf =
  cbCap :: nat
  cbFreeList :: "'v list"

definition NewChannelBuf :: "nat \<Rightarrow> 'v ChannelBuf" where
  "NewChannelBuf upLimits = \<lparr>cbCap = upLimits, cbFreeList = []\<rparr>"

definition cb_PushBack :: "'v \<Rightarrow> 'v ChannelBuf \<Rightarrow> 'v ChannelBuf" where
  "cb_PushBack v l = (if length (cbFreeList l) < cbCap l then l\<lparr>cbFreeList := cbFreeList l @ [v]\<rparr> else l)"

definition cb_PopFront :: "'v ChannelBuf \<Rightarrow> 'v option \<times> 'v ChannelBuf" where
  \<comment> \<open>the value received is not the one returned\<close>
  "cb_PopFront l = (None, l\<lparr>cbFreeList := tl (cbFreeList l)\<rparr>)"

record BytesPool =
  bpPool :: "byte list list"
  bpByteSize :: nat

definition NewBytesPool :: "nat \<Rightarrow> BytesPool" where
  "NewBytesPool iSize = \<lparr>bpPool = [], bpByteSize = iSize\<rparr>"

definition NewBytes :: "BytesPool \<Rightarrow> byte list" where
  "NewBytes b = replicate (bpByteSize b) 0"

definition AcquireBytes :: "nat option \<Rightarrow> BytesPool \<Rightarrow> byte list \<times> BytesPool" where
  \<comment> \<open>\<open>sync.Pool\<close> hands out any slice it has kept, here the one at the given position, or a new one\<close>
  "AcquireBytes i b =
     (case i of
        Some n \<Rightarrow> if n < length (bpPool b) then (bpPool b ! n, b\<lparr>bpPool := take n (bpPool b) @ drop (n + 1) (bpPool b)\<rparr>) else (NewBytes b, b)
      | None \<Rightarrow> (NewBytes b, b))"

definition ReleaseBytes :: "byte list \<Rightarrow> BytesPool \<Rightarrow> BytesPool" where
  "ReleaseBytes bs b = b\<lparr>bpPool := bs # bpPool b\<rparr>"

subsection \<open>The spin lock\<close>

definition maxBackoff :: nat where
  "maxBackoff = 64"

definition next_backoff :: "nat \<Rightarrow> nat" where
  "next_backoff backoff = (if backoff < maxBackoff then 2 * backoff else backoff)"

definition TryToAcquire :: "uint32 \<Rightarrow> bool \<times> uint32" where
  "TryToAcquire state = (state = 0, 1)"

definition spin_Release :: "uint32 \<Rightarrow> uint32" where
  "spin_Release state = 0"

definition cas :: "uint32 \<Rightarrow> uint32 \<Rightarrow> uint32 \<Rightarrow> bool \<times> uint32" where
  \<comment> \<open>\<open>atomic.CompareAndSwapUint32\<close>\<close>
  "cas old new state = (if state = old then (True, new) else (False, state))"

datatype task_pc = Idle | Spinning nat | Yielding nat nat | Holding
  \<comment> \<open>in \<open>Lock\<close>: about to compare and swap, with its back-off; between two calls of \<open>Gosched\<close>, with those still to make\<close>

record spin_sys =
  spState :: uint32
  spPc :: "nat \<Rightarrow> task_pc"

inductive spin_step :: "spin_sys \<Rightarrow> spin_sys \<Rightarrow> bool" where
  spin_lock: "spPc s t = Idle \<Longrightarrow> spin_step s (s\<lparr>spPc := (spPc s)(t := Spinning 1)\<rparr>)"
| spin_cas_ok: "spPc s t = Spinning b \<Longrightarrow> cas 0 1 (spState s) = (True, x) \<Longrightarrow>
    spin_step s \<lparr>spState = x, spPc = (spPc s)(t := Holding)\<rparr>"
| spin_cas_fail: "spPc s t = Spinning b \<Longrightarrow> cas 0 1 (spState s) = (False, x) \<Longrightarrow>
    spin_step s \<lparr>spState = x, spPc = (spPc s)(t := Yielding b b)\<rparr>"
| spin_yield: "spPc s t = Yielding (Suc i) b \<Longrightarrow> spin_step s (s\<lparr>spPc := (spPc s)(t := Yielding i b)\<rparr>)"
| spin_again: "spPc s t = Yielding 0 b \<Longrightarrow> spin_step s (s\<lparr>spPc := (spPc s)(t := Spinning (next_backoff b))\<rparr>)"
| spin_try: "spPc s t = Idle \<Longrightarrow> TryToAcquire (spState s) = (ok, x) \<Longrightarrow>
    spin_step s \<lparr>spState = x, spPc = (spPc s)(t := if ok then Holding else Idle)\<rparr>"
| spin_unlock: "spPc s t = Holding \<Longrightarrow> spin_step s \<lparr>spState = spin_Release (spState s), spPc = (spPc s)(t := Idle)\<rparr>"

definition NewSpinLock :: spin_sys where
  "NewSpinLock = \<lparr>spState = 0, spPc = \<lambda>_. Idle\<rparr>"

subsection \<open>What the ring buffer keeps, and what its followers see\<close>

record 'v ring_sys =
  ryBuf :: "'v ring_buffer"
  ryLog :: "'v Entry list" \<comment> \<open>all that was put\<close>
  ryStart :: "string \<Rightarrow> nat" \<comment> \<open>the length of the log when a stream was opened\<close>
  ryGot :: "string \<Rightarrow> 'v Entry list" \<comment> \<open>what its reader has received\<close>

inductive ring_step :: "'v ring_sys \<Rightarrow> 'v ring_sys \<Rightarrow> bool" where
  ring_put: "Put pick now v (ryBuf s) = Some b \<Longrightarrow>
    ring_step s (s\<lparr>ryBuf := b, ryLog := ryLog s @ [\<lparr>enValue = v, enTimestamp = now\<rparr>]\<rparr>)"
| ring_open: "i \<notin> fst ` set (rbStreams (ryBuf s)) \<Longrightarrow>
    ring_step s (s\<lparr>ryBuf := ring_Stream i (ryBuf s), ryStart := (ryStart s)(i := length (ryLog s)), ryGot := (ryGot s)(i := [])\<rparr>)"
| ring_recv: "rbStreams (ryBuf s) = xs @ (i, \<lparr>smEntries = e # es, smStop = st\<rparr>) # ys \<Longrightarrow>
    ring_step s (s\<lparr>ryBuf := (ryBuf s)\<lparr>rbStreams := xs @ (i, \<lparr>smEntries = es, smStop = st\<rparr>) # ys\<rparr>, ryGot := (ryGot s)(i := ryGot s i @ [e])\<rparr>)"
| ring_stop: "rbStreams (ryBuf s) = xs @ (i, m) # ys \<Longrightarrow>
    ring_step s (s\<lparr>ryBuf := (ryBuf s)\<lparr>rbStreams := xs @ (i, m\<lparr>smStop := True\<rparr>) # ys\<rparr>\<rparr>)"

definition last_n :: "int \<Rightarrow> 'a list \<Rightarrow> 'a list" where
  "last_n n xs = drop (length xs - nat n) xs"

definition follows :: "'v ring_sys \<Rightarrow> string \<times> 'v Stream \<Rightarrow> bool" where
  "follows s e \<longleftrightarrow> ryStart s (fst e) \<le> length (ryLog s) \<and> length (smEntries (snd e)) \<le> stream_cap \<and>
     ryGot s (fst e) @ smEntries (snd e) = drop (ryStart s (fst e)) (ryLog s)"

definition ring_inv :: "int \<Rightarrow> 'v ring_sys \<Rightarrow> bool" where
  "ring_inv n s \<longleftrightarrow> rbSize (ryBuf s) = n \<and> rbVals (ryBuf s) = last_n n (ryLog s) \<and>
     distinct (map fst (rbStreams (ryBuf s))) \<and> (\<forall>e \<in> set (rbStreams (ryBuf s)). follows s e)"

lemma last_n_snoc: "(let vals = last_n n xs @ [x] in if int (length vals) > n then tl vals else vals) = last_n n (xs @ [x])"
proof (cases "length xs < nat n")
  case True
  then have "\<not> n < 1 + int (length xs)" by linarith
  with True show ?thesis by (simp add: last_n_def Let_def)
next
  case False
  then have l: "length (last_n n xs) = nat n" by (simp add: last_n_def)
  have "tl (last_n n xs @ [x]) = last_n n (xs @ [x])"
    using False by (cases "nat n = 0") (simp_all add: last_n_def Suc_diff_le tl_append2 tl_drop drop_Suc)
  with l show ?thesis by (simp add: Let_def)
qed

lemma put_streams_keys: "put_streams pick e ss = Some ss' \<Longrightarrow> fst ` set ss' \<subseteq> fst ` set ss"
proof (induction ss arbitrary: ss')
  case (Cons a ss)
  obtain i s where a: "a = (i, s)" by (cases a)
  show ?case
  proof (cases "put_streams pick e ss")
    case (Some ts)
    from Cons.prems Some have "ss' = ts \<or> fst ` set ss' = insert i (fst ` set ts)" by (auto simp: a Let_def split: if_splits)
    with Cons.IH [OF Some] show ?thesis by (metis a fst_conv image_insert insert_mono list.simps(15) subset_insertI2)
  qed (use Cons.prems in \<open>auto simp: a Let_def split: if_splits\<close>)
qed simp

lemma put_streams_distinct: "put_streams pick e ss = Some ss' \<Longrightarrow> distinct (map fst ss) \<Longrightarrow> distinct (map fst ss')"
proof (induction ss arbitrary: ss')
  case (Cons a ss)
  obtain i s where a: "a = (i, s)" by (cases a)
  show ?case
  proof (cases "put_streams pick e ss")
    case (Some ts)
    have "i \<notin> fst ` set ts" using Cons.prems(2) put_streams_keys [OF Some] by (auto simp: a)
    with Cons.IH [OF Some] Cons.prems Some show ?thesis by (auto simp: a Let_def split: if_splits)
  qed (use Cons.prems in \<open>auto simp: a Let_def split: if_splits\<close>)
qed simp

lemma put_streams_entry:
  "put_streams pick e ss = Some ss' \<Longrightarrow> (i, m) \<in> set ss' \<Longrightarrow>
   \<exists>m0. (i, m0) \<in> set ss \<and> smEntries m = smEntries m0 @ [e] \<and> length (smEntries m0) < stream_cap"
proof (induction ss arbitrary: ss')
  case (Cons a ss)
  obtain j s where a: "a = (j, s)" by (cases a)
  show ?case
  proof (cases "put_streams pick e ss")
    case (Some ts)
    from Cons.prems Some consider "(i, m) \<in> set ts" | "i = j" "m = s\<lparr>smEntries := smEntries s @ [e]\<rparr>" "length (smEntries s) < stream_cap"
      by (auto simp: a Let_def split: if_splits)
    then show ?thesis
    proof cases
      case 1
      from Cons.IH [OF Some 1] show ?thesis by auto
    qed (auto simp: a)
  qed (use Cons.prems in \<open>auto simp: a Let_def split: if_splits\<close>)
qed simp

lemma ring_step_inv: "ring_step s s' \<Longrightarrow> ring_inv n s \<Longrightarrow> ring_inv n s'"
proof (induction rule: ring_step.induct)
  case (ring_put pick now v s b)
  let ?e = "\<lparr>enValue = v, enTimestamp = now\<rparr>"
  from ring_put(1) obtain ss where ss: "put_streams pick ?e (rbStreams (ryBuf s)) = Some ss"
    and b: "rbStreams b = ss" "rbSize b = rbSize (ryBuf s)"
    "rbVals b = (let vals = rbVals (ryBuf s) @ [?e] in if int (length vals) > rbSize (ryBuf s) then tl vals else vals)"
    by (auto simp: Put_def Let_def)
  have v: "rbVals b = last_n n (ryLog s @ [?e])"
    using ring_put(2) last_n_snoc [of n "ryLog s" ?e] b(3) by (simp add: ring_inv_def)
  have "follows (s\<lparr>ryBuf := b, ryLog := ryLog s @ [?e]\<rparr>) x" if "x \<in> set ss" for x
  proof -
    obtain i m where x: "x = (i, m)" by (cases x)
    from put_streams_entry [OF ss that [unfolded x]] obtain m0 where m0: "(i, m0) \<in> set (rbStreams (ryBuf s))"
      "smEntries m = smEntries m0 @ [?e]" "length (smEntries m0) < stream_cap" by blast
    then have "follows s (i, m0)" using ring_put(2) by (auto simp: ring_inv_def)
    then have "ryStart s i \<le> length (ryLog s)" "ryGot s i @ smEntries m0 = drop (ryStart s i) (ryLog s)" by (auto simp: follows_def)
    then show ?thesis using m0 by (simp add: x follows_def flip: append_assoc)
  qed
  with ring_put(2) v b put_streams_distinct [OF ss] show ?case by (simp add: ring_inv_def)
next
  case (ring_open i s)
  have "AList.update i x xs = xs @ [(i, x)]" if "i \<notin> fst ` set xs" for x and xs :: "(string \<times> 'a Stream) list"
    using that by (induction xs) auto
  with ring_open show ?case by (auto simp: ring_inv_def ring_Stream_def follows_def)
next
  case (ring_recv s xs i e es st ys)
  then show ?case by (auto simp: ring_inv_def follows_def)
next
  case (ring_stop s xs i m ys)
  then show ?case by (auto simp: ring_inv_def follows_def)
qed

text \<open>C21. The ring buffer holds the entries put last, as many as its size; \<open>Get(n)\<close> returns the last \<open>n\<close> of them; and a follower has received, or has waiting
  in its channel, exactly the entries put since it was opened, in order and without a gap.\<close>

theorem ring_keeps_last:
  assumes "ring_step\<^sup>*\<^sup>* \<lparr>ryBuf = ring_New n, ryLog = [], ryStart = start, ryGot = got\<rparr> s"
  shows "rbVals (ryBuf s) = last_n n (ryLog s) \<and>
    (\<forall>k. 0 \<le> k \<longrightarrow> k \<le> n \<longrightarrow> ring_Get k (ryBuf s) = last_n k (ryLog s)) \<and>
    (\<forall>i m. (i, m) \<in> set (rbStreams (ryBuf s)) \<longrightarrow>
       ryGot s i @ smEntries m = drop (ryStart s i) (ryLog s) \<and> length (smEntries m) \<le> 128)"
proof -
  have "ring_inv n s" using assms
  proof (induction rule: rtranclp_induct)
    case base
    show ?case by (simp add: ring_inv_def ring_New_def last_n_def)
  next
    case (step y z)
    then show ?case by (blast intro: ring_step_inv)
  qed
  then have v: "rbVals (ryBuf s) = last_n n (ryLog s)" and f: "\<forall>e \<in> set (rbStreams (ryBuf s)). follows s e"
    by (simp_all add: ring_inv_def)
  have "ring_Get k (ryBuf s) = last_n k (ryLog s)" if "0 \<le> k" "k \<le> n" for k
  proof (cases "k > int (length (rbVals (ryBuf s)))")
    case True
    then have "length (ryLog s) \<le> nat k" "length (ryLog s) \<le> nat n" using v that by (auto simp: last_n_def)
    with v True show ?thesis by (simp add: ring_Get_def last_n_def)
  next
    case False
    with that v show ?thesis by (auto simp: ring_Get_def last_n_def nat_diff_distrib intro!: arg_cong2 [of _ _ _ _ drop])
  qed
  with v f show ?thesis by (auto simp: follows_def stream_cap_def)
qed

theorem ring_keeps_last_witness:
  "\<exists>s. ring_step\<^sup>*\<^sup>* \<lparr>ryBuf = ring_New 1, ryLog = [], ryStart = \<lambda>_. 0, ryGot = \<lambda>_. []\<rparr> s \<and>
    ring_Get 1 (ryBuf s) = [\<lparr>enValue = (7 :: nat), enTimestamp = 2\<rparr>]"
proof -
  let ?s0 = "\<lparr>ryBuf = ring_New 1, ryLog = [], ryStart = \<lambda>_. 0, ryGot = \<lambda>_. []\<rparr> :: nat ring_sys"
  let ?b1 = "\<lparr>rbSize = 1, rbVals = [\<lparr>enValue = 5, enTimestamp = 1\<rparr>], rbStreams = []\<rparr>"
  let ?s1 = "?s0\<lparr>ryBuf := ?b1, ryLog := [\<lparr>enValue = 5, enTimestamp = 1\<rparr>]\<rparr>"
  let ?b2 = "\<lparr>rbSize = 1, rbVals = [\<lparr>enValue = 7, enTimestamp = 2\<rparr>], rbStreams = []\<rparr>"
  let ?s2 = "?s0\<lparr>ryBuf := ?b2, ryLog := [\<lparr>enValue = 5, enTimestamp = 1\<rparr>, \<lparr>enValue = 7, enTimestamp = 2\<rparr>]\<rparr>"
  have "ring_step ?s0 ?s1" using ring_put [of "\<lambda>_. False" 1 5 ?s0 ?b1] by (simp add: Put_def ring_New_def)
  moreover have "ring_step ?s1 ?s2" using ring_put [of "\<lambda>_. False" 2 7 ?s1 ?b2] by (simp add: Put_def)
  ultimately have r: "ring_step\<^sup>*\<^sup>* ?s0 ?s2" by (meson converse_rtranclp_into_rtranclp r_into_rtranclp)
  from ring_keeps_last [OF r] have "ring_Get 1 (ryBuf ?s2) = last_n 1 (ryLog ?s2)" by simp
  then show ?thesis using r by (intro exI [of _ ?s2]) (simp add: last_n_def)
qed

subsection \<open>Containers that keep nothing\<close>

lemma push_loop_zero: "push_loop (replicate n zero_element) = False"
  by (induction n) (simp_all add: zero_element_def)

text \<open>The array made by \<open>NewSyncList\<close> keeps nothing: its methods change copies of its elements. The channel buffer keeps values but never returns one.\<close>

lemma sync_array_keeps_nothing:
  assumes "saArrays l = replicate n zero_element"
  shows "saArrays (sa_PushBack v l) = saArrays l \<and> sa_PopFront (sa_PushBack v l) = None"
proof -
  have p: "saArrays (sa_PushBack v l) = replicate n zero_element"
    using assms by (simp add: sa_PushBack_def push_loop_zero Let_def)
  then show ?thesis using assms by (cases n) (simp_all add: sa_PopFront_def zero_element_def)
qed

lemma channel_buf_returns_nil: "fst (cb_PopFront l) = None"
  by (simp add: cb_PopFront_def)

subsection \<open>Mutual exclusion\<close>

definition good_backoff :: "nat \<Rightarrow> bool" where
  "good_backoff b \<longleftrightarrow> b \<in> {1, 2, 4, 8, 16, 32, 64}"

definition pc_ok :: "task_pc \<Rightarrow> bool" where
  "pc_ok pc \<longleftrightarrow> (case pc of Spinning b \<Rightarrow> good_backoff b | Yielding i b \<Rightarrow> good_backoff b | _ \<Rightarrow> True)"

definition spin_inv :: "spin_sys \<Rightarrow> bool" where
  "spin_inv s \<longleftrightarrow> spState s \<in> {0, 1} \<and> (\<forall>t. spPc s t = Holding \<longrightarrow> spState s = 1) \<and>
     (\<forall>t u. spPc s t = Holding \<longrightarrow> spPc s u = Holding \<longrightarrow> t = u) \<and> (\<forall>t. pc_ok (spPc s t))"

lemma next_backoff_good: "good_backoff b \<Longrightarrow> good_backoff (next_backoff b)"
  by (auto simp: good_backoff_def next_backoff_def maxBackoff_def)

lemma pc_ok_simps [simp]:
  "pc_ok Idle" "pc_ok Holding" "pc_ok (Spinning b) = good_backoff b" "pc_ok (Yielding i b) = good_backoff b"
  by (simp_all add: pc_ok_def)

lemma spin_inv_move:
  assumes "spin_inv s" and "pc_ok pc" and "pc \<noteq> Holding"
  shows "spin_inv (s\<lparr>spPc := (spPc s)(t := pc)\<rparr>)"
  using assms by (auto simp: spin_inv_def)

lemma spin_inv_pc: "spin_inv s \<Longrightarrow> spPc s t = pc \<Longrightarrow> pc_ok pc"
  by (auto simp: spin_inv_def)

lemma spin_step_inv: "spin_step s s' \<Longrightarrow> spin_inv s \<Longrightarrow> spin_inv s'"
proof (induction rule: spin_step.induct)
  case (spin_lock s t)
  then show ?case by (intro spin_inv_move) (simp_all add: good_backoff_def)
next
  case (spin_yield s t i b)
  with spin_inv_pc [of s t] show ?case by (intro spin_inv_move) auto
next
  case (spin_again s t b)
  with spin_inv_pc [of s t] show ?case by (intro spin_inv_move) (auto intro: next_backoff_good)
next
  case (spin_cas_fail s t b x)
  then have "pc_ok (Spinning b)" by (intro spin_inv_pc)
  with spin_cas_fail show ?case by (auto simp: spin_inv_def cas_def split: if_splits)
qed (auto simp: spin_inv_def cas_def TryToAcquire_def spin_Release_def split: if_splits)

text \<open>Tasks that only release the lock they hold exclude each other: at most one holds the spin lock at a time, and the lock's word is 1 then.
  The number of yields between two attempts is a power of two and at most 64.\<close>

lemma spin_lock_exclusive:
  assumes "spin_step\<^sup>*\<^sup>* NewSpinLock s"
  shows "(spPc s t = Holding \<longrightarrow> spPc s u = Holding \<longrightarrow> t = u) \<and> (spPc s t = Holding \<longrightarrow> spState s = 1) \<and>
    (spPc s t = Spinning b \<longrightarrow> b \<in> {1, 2, 4, 8, 16, 32, 64})"
proof -
  have inv: "spin_inv s" using assms
  proof (induction rule: rtranclp_induct)
    case base
    show ?case by (simp add: spin_inv_def NewSpinLock_def)
  next
    case (step y z)
    then show ?case by (blast intro: spin_step_inv)
  qed
  with spin_inv_pc [OF inv, of t "Spinning b"] show ?thesis by (auto simp: spin_inv_def good_backoff_def)
qed

end
