(* ===== verification/Ping.thy ===== *)
theory Ping
  imports Strconv
begin

unbundle bit_operations_syntax

text \<open>
  \<^verbatim>\<open>util/net/ping.go\<close>: echo requests, their checksum and the statistics of the answers.

  Representation. An \<open>int\<close> that sums bytes is an unbounded natural number: a message has to be far longer than a datagram to overflow it. What the network does
  is an argument: whether the host can be dialled, and for every request what is read back and how many milliseconds it takes. The loop is a function of the list
  of these outcomes; \<open>None\<close> is a panic, and for an exhausted list that \<open>Ping\<close> has not returned yet. What is printed is left out.
\<close>

subsection \<open>The checksum\<close>

fun sum_words :: "byte list \<Rightarrow> nat" where
  \<comment> \<open>the loop and the treatment of a last odd byte\<close>
  "sum_words [] = 0"
| "sum_words [a] = unat a * 256"
| "sum_words (a # b # bs) = (unat a * 256 + unat b) + sum_words bs"

definition fold_sum :: "nat \<Rightarrow> nat" where
  "fold_sum s = (let s = drop_bit 16 s + (s AND 0xffff) in s + drop_bit 16 s)"

definition checkSum :: "byte list \<Rightarrow> uint16" where
  "checkSum msg = NOT (of_nat (fold_sum (sum_words msg)))"

definition gensequence :: "16 word \<Rightarrow> byte \<times> byte" where
  \<comment> \<open>an arithmetic shift\<close>
  "gensequence v = (ucast (signed_drop_bit 8 v), ucast (v AND 255))"

definition genidentifier :: "byte list \<Rightarrow> (byte \<times> byte) option" where
  "genidentifier host = do { a \<leftarrow> go_index host 0; b \<leftarrow> go_index host 1; Some (a, b) }"

definition echo_request :: "byte \<Rightarrow> byte \<Rightarrow> 16 word \<Rightarrow> nat \<Rightarrow> byte list" where
  "echo_request id0 id1 seq sz =
     (let msg = [8, 0, 0, 0, id0, id1, fst (gensequence seq), snd (gensequence seq)] @ replicate sz 0;
          check = checkSum msg
      in msg[2 := ucast (drop_bit 8 check), 3 := ucast (check AND 255)])"

subsection \<open>The loop of requests\<close>

record PingStat =
  psIp :: string
  psSendN :: int
  psLostN :: int
  psRecvN :: int
  psShortT :: int
  psLongT :: int
  psSumT :: int

record ping_args =
  paN :: int
  paL :: int
  paW :: int
  paT :: bool

datatype ping_outcome = DialFails | Answered "byte list option" int

definition reply_lost :: "byte list \<Rightarrow> byte list option \<Rightarrow> int \<Rightarrow> int \<Rightarrow> bool" where
  \<comment> \<open>\<open>receive\<close> is filled with zeroes; it has room for the header of an IP packet and a message\<close>
  "reply_lost msg got endduration timeout =
     (case got of
        None \<Rightarrow> True
      | Some bs \<Rightarrow>
          (let receive = take (20 + length msg) (bs @ replicate (20 + length msg) 0)
           in receive ! 24 \<noteq> msg ! 4 \<or> receive ! 25 \<noteq> msg ! 5 \<or> receive ! 26 \<noteq> msg ! 6 \<or> receive ! 27 \<noteq> msg ! 7 \<or>
              endduration \<ge> timeout \<or> receive ! 20 = 11))"

definition ping_count :: "byte list \<Rightarrow> int \<Rightarrow> byte list option \<Rightarrow> int \<Rightarrow> PingStat \<Rightarrow> PingStat" where
  "ping_count msg timeout got endduration st =
     (let st = st\<lparr>psSumT := psSumT st + endduration\<rparr>
      in if reply_lost msg got endduration timeout then st\<lparr>psLostN := psLostN st + 1\<rparr>
         else st\<lparr>psShortT := (if psShortT st = - 1 then endduration else if psShortT st > endduration then endduration else psShortT st),
                 psLongT := (if psLongT st = - 1 then endduration else if psLongT st < endduration then endduration else psLongT st),
                 psRecvN := psRecvN st + 1\<rparr>)"

fun ping_loop :: "byte \<Rightarrow> byte \<Rightarrow> nat \<Rightarrow> int \<Rightarrow> bool \<Rightarrow> int \<Rightarrow> 16 word \<Rightarrow> PingStat \<Rightarrow> ping_outcome list \<Rightarrow> PingStat option" where
  "ping_loop id0 id1 sz timeout neverstop cnt seq st os =
     (if cnt > 0 \<or> neverstop then
        (case os of
           [] \<Rightarrow> None
         | o1 # os \<Rightarrow>
             (let st = st\<lparr>psSendN := psSendN st + 1\<rparr>
              in case o1 of
                   DialFails \<Rightarrow> Some (st\<lparr>psLostN := psSendN st, psRecvN := 0, psShortT := - 1, psLongT := - 1, psSumT := - 1\<rparr>)
                 | Answered got endduration \<Rightarrow>
                     ping_loop id0 id1 sz timeout neverstop (cnt - 1) (seq + 1)
                       (ping_count (echo_request id0 id1 seq sz) timeout got endduration st) os))
      else Some st)"

definition Ping :: "byte list \<Rightarrow> string \<Rightarrow> ping_args \<Rightarrow> bool \<Rightarrow> ping_outcome list \<Rightarrow> PingStat option" where
  \<comment> \<open>given the address of the host and whether it can be dialled first: if not, the address is asked of a nil connection. A negative size makes a slice too short for the header.\<close>
  "Ping host ip args dialled os =
     (if \<not> dialled then None
      else do {
        (id0, id1) \<leftarrow> genidentifier host;
        if paL args < 0 \<and> (paN args > 0 \<or> paT args) then None
        else ping_loop id0 id1 (nat (paL args)) (paW args) (paT args) (paN args) 1
               \<lparr>psIp = ip, psSendN = 0, psLostN = 0, psRecvN = 0, psShortT = - 1, psLongT = - 1, psSumT = 0\<rparr> os
      })"

definition go_quot :: "int \<Rightarrow> int \<Rightarrow> int" where
  \<comment> \<open>the quotient of Go is rounded towards zero\<close>
  "go_quot a b = sgn a * sgn b * (\<bar>a\<bar> div \<bar>b\<bar>)"

definition Stat :: "PingStat \<Rightarrow> (int \<times> int option) option" where
  \<comment> \<open>the share of lost requests and the mean time that are printed; a division by zero panics\<close>
  "Stat result =
     (if psSendN result = 0 then None
      else Some (go_quot (psLostN result * 100) (psSendN result), if psRecvN result \<noteq> 0 then Some (go_quot (psSumT result) (psSendN result)) else None))"

declare ping_loop.simps [simp del]

subsection \<open>The checksum is that of RFC 1071\<close>

lemma fold_sum_mod:
  assumes "s < 2 ^ 32"
  shows "fold_sum s mod 65536 mod 65535 = s mod 65535 \<and> (fold_sum s mod 65536 = 0 \<longleftrightarrow> s = 0)"
proof -
  define h where "h = s div 65536"
  define l where "l = s mod 65536"
  have s: "s = 65535 * h + (h + l)" by (simp add: h_def l_def)
  have sm: "s mod 65535 = (h + l) mod 65535" unfolding s by (rule mod_mult_self4)
  have hl: "h < 65536" "l < 65536" using assms by (auto simp: h_def l_def)
  have "s AND 65535 = l" using take_bit_eq_mask [of 16 s] by (simp add: l_def mask_eq_exp_minus_1 take_bit_eq_mod)
  then have f: "fold_sum s = (h + l) + (h + l) div 65536" by (simp add: fold_sum_def h_def drop_bit_eq_div Let_def)
  show ?thesis
  proof (cases "h + l < 65536")
    case True
    then have "fold_sum s mod 65536 = h + l" by (simp add: f)
    moreover have "s = 0 \<longleftrightarrow> h + l = 0" unfolding s by simp
    ultimately show ?thesis by (simp add: sm)
  next
    case False
    then have "(h + l) div 65536 = 1" using hl by (intro div_nat_eqI) auto
    then have "fold_sum s mod 65536 = h + l - 65535" using False hl by (simp add: f le_mod_geq)
    moreover have "(h + l - 65535) mod 65535 = s mod 65535" using False by (simp add: sm le_mod_geq [of 65535 "h + l"])
    moreover have "h + l - 65535 \<noteq> 0 \<and> s \<noteq> 0" unfolding s using False by (simp, linarith)
    ultimately show ?thesis by simp
  qed
qed

lemma sum_words_bound: "sum_words bs \<le> 65535 * ((length bs + 1) div 2)"
proof (induction bs rule: sum_words.induct)
  case (2 a)
  then show ?case using unsigned_less [of a, where ?'a = nat] by simp
next
  case (3 a b bs)
  then show ?case using unsigned_less [of a, where ?'a = nat] unsigned_less [of b, where ?'a = nat] by simp
qed simp

lemma unat_checkSum: "unat (checkSum msg) = 65535 - fold_sum (sum_words msg) mod 65536"
proof -
  have "unat (NOT w) = 65535 - unat w" for w :: uint16
  proof -
    have "NOT w = - 1 - w" unfolding not_eq_complement by simp
    then have "unat (NOT w) = unat (- 1 - w)" by (rule arg_cong)
    also have "\<dots> = unat (- 1 :: uint16) - unat w" by (rule unat_sub) simp
    finally show ?thesis by (simp add: unsigned_minus_1_eq_mask mask_eq_exp_minus_1)
  qed
  then show ?thesis by (simp add: checkSum_def unat_of_nat)
qed

lemma unat_bytes: "unat (ucast (drop_bit 8 (c :: uint16)) :: byte) * 256 + unat (ucast (c AND 255) :: byte) = unat c"
proof -
  have c: "unat c < 65536" using unsigned_less [of c, where ?'a = nat] by simp
  have "unat (ucast (drop_bit 8 c) :: byte) = unat c div 256" 
    by (simp add: unsigned_ucast_eq unsigned_drop_bit_eq) (use c in \<open>simp add: drop_bit_eq_div take_bit_eq_mod\<close>)
  moreover have "unat (ucast (c AND 255) :: byte) = unat c mod 256"
    using take_bit_eq_mask [of 8 "unat c"] by (simp add: unsigned_ucast_eq unsigned_and_eq mask_eq_exp_minus_1 take_bit_eq_mod)
  ultimately show ?thesis by simp
qed

lemma echo_request_sequence:
  \<comment> \<open>the sequence number is sent with its high byte first\<close>
  "length (echo_request id0 id1 seq sz) = sz + 8 \<and>
   unat (echo_request id0 id1 seq sz ! 6) * 256 + unat (echo_request id0 id1 seq sz ! 7) = unat seq"
proof -
  have "ucast (signed_drop_bit 8 seq) = (ucast (drop_bit 8 seq) :: byte)"
    by (rule bit_word_eqI) (simp add: bit_ucast_iff bit_signed_drop_bit_iff bit_drop_bit_eq)
  then show ?thesis using unat_bytes [of seq] by (simp add: echo_request_def gensequence_def Let_def)
qed

text \<open>The receiver's side, as RFC 1071 has it: the message is read as 16-bit words in network byte order, a last odd byte being padded with zero, and the words are added in
  one's complement, a carry out of the word being added back.\<close>

definition net_word :: "byte list \<Rightarrow> nat \<Rightarrow> nat" where
  "net_word msg i = 256 * unat (msg ! (2 * i)) + (if 2 * i + 1 < length msg then unat (msg ! (2 * i + 1)) else 0)"

definition net_words :: "byte list \<Rightarrow> nat list" where
  "net_words msg = map (net_word msg) [0..<(length msg + 1) div 2]"

definition ones_add :: "nat \<Rightarrow> nat \<Rightarrow> nat" where
  "ones_add a b = (if a + b < 65536 then a + b else a + b - 65535)"

definition ones_sum :: "nat list \<Rightarrow> nat" where
  "ones_sum ws = fold ones_add ws 0"

lemma net_words_Cons: "net_words (a # b # bs) = (256 * unat a + unat b) # net_words bs"
proof -
  have "[0..<(length (a # b # bs) + 1) div 2] = 0 # map Suc [0..<(length bs + 1) div 2]" by (simp add: upt_conv_Cons map_Suc_upt del: upt_Suc)
  then show ?thesis by (simp add: net_words_def net_word_def comp_def)
qed

lemma sum_net_words: "sum_list (net_words msg) = sum_words msg \<and> (\<forall>w \<in> set (net_words msg). w < 65536)"
proof (induction msg rule: sum_words.induct)
  case (2 a)
  then show ?case using unsigned_less [of a, where ?'a = nat] by (simp add: net_words_def net_word_def)
next
  case (3 a b bs)
  then show ?case using unsigned_less [of a, where ?'a = nat] unsigned_less [of b, where ?'a = nat] by (simp add: net_words_Cons)
qed (simp add: net_words_def)

lemma fold_ones_add:
  assumes "\<forall>w \<in> set ws. w < 65536" and "a < 65536"
  shows "fold ones_add ws a < 65536 \<and> fold ones_add ws a mod 65535 = (a + sum_list ws) mod 65535 \<and> (fold ones_add ws a = 0 \<longleftrightarrow> a + sum_list ws = 0)"
  using assms
proof (induction ws arbitrary: a)
  case (Cons w ws)
  have m: "ones_add w a < 65536" "ones_add w a mod 65535 = (w + a) mod 65535" "ones_add w a = 0 \<longleftrightarrow> w + a = 0"
    using Cons.prems by (auto simp: ones_add_def le_mod_geq [of 65535 "w + a"])
  have "(ones_add w a + sum_list ws) mod 65535 = (w + a + sum_list ws) mod 65535" using m(2) by (rule mod_add_cong) simp
  with Cons.IH [OF _ m(1)] Cons.prems(1) m(3) show ?case by (auto simp: ac_simps)
qed simp

lemma ones_sum_words:
  "ones_sum (net_words msg) < 65536" "ones_sum (net_words msg) mod 65535 = sum_words msg mod 65535" "ones_sum (net_words msg) = 0 \<longleftrightarrow> sum_words msg = 0"
proof -
  have "sum_list (net_words msg) = sum_words msg" "\<forall>w \<in> set (net_words msg). w < 65536" using sum_net_words by blast+
  from fold_ones_add [OF this(2), of 0, unfolded this(1)] show "ones_sum (net_words msg) < 65536"
    "ones_sum (net_words msg) mod 65535 = sum_words msg mod 65535" "ones_sum (net_words msg) = 0 \<longleftrightarrow> sum_words msg = 0" by (simp_all add: ones_sum_def)
qed

lemma same_residue:
  assumes "x < 65536" and "y < 65536" and "x mod 65535 = y mod 65535" and "x = 0 \<longleftrightarrow> y = 0"
  shows "x = (y :: nat)"
  using assms by (cases "x = 65535"; cases "y = 65535") auto

lemma checkSum_ones:
  assumes "length msg \<le> 131070"
  shows "unat (checkSum msg) = 65535 - ones_sum (net_words msg)"
proof -
  let ?s = "sum_words msg"
  have "(length msg + 1) div 2 \<le> 65535" using assms by linarith
  then have "65535 * ((length msg + 1) div 2) \<le> 65535 * 65535" by (rule mult_le_mono2)
  with sum_words_bound [of msg] have "?s \<le> 65535 * 65535" by (rule order_trans)
  then have f: "fold_sum ?s mod 65536 mod 65535 = ?s mod 65535" "fold_sum ?s mod 65536 = 0 \<longleftrightarrow> ?s = 0" using fold_sum_mod [of ?s] by auto
  have "fold_sum ?s mod 65536 = ones_sum (net_words msg)"
    by (rule same_residue) (simp_all add: f ones_sum_words)
  then show ?thesis by (simp add: unat_checkSum)
qed

lemma ones_sum_inserted:
  assumes "sum_words (a # b # 0 # 0 # bs) > 0" and "length bs \<le> 100000"
  shows "ones_sum (net_words ((a # b # 0 # 0 # bs)[2 := ucast (drop_bit 8 (checkSum (a # b # 0 # 0 # bs))), 3 := ucast (checkSum (a # b # 0 # 0 # bs) AND 255)])) = 65535"
proof -
  let ?m = "a # b # 0 # 0 # bs"
  let ?c = "checkSum ?m"
  let ?msg = "?m[2 := ucast (drop_bit 8 ?c), 3 := ucast (?c AND 255)]"
  define s where "s = ones_sum (net_words ?m)"
  have s: "s < 65536" "s mod 65535 = sum_words ?m mod 65535"
    unfolding s_def by (rule ones_sum_words)+
  have c: "unat ?c = 65535 - s" using checkSum_ones [of ?m] assms(2) by (simp add: s_def)
  have "sum_words ?msg = sum_words ?m + (65535 - s)" using unat_bytes [of ?c] c by (simp add: numeral_2_eq_2 numeral_3_eq_3)
  moreover have "(sum_words ?m + (65535 - s)) mod 65535 = (s + (65535 - s)) mod 65535" by (rule mod_add_cong) (simp_all add: s)
  moreover have "(s + (65535 - s)) mod 65535 = 0" using s(1) by simp
  ultimately have t: "sum_words ?msg mod 65535 = 0" "sum_words ?msg \<noteq> 0" using assms(1) by (metis, metis add_is_0 less_irrefl)
  show ?thesis
    by (rule same_residue) (simp_all only: ones_sum_words t, simp_all)
qed

text \<open>C34. The checksum is that of RFC 1071: for every message up to 131070 bytes \<open>checkSum\<close> is the complement of the one's complement sum of all its 16-bit words in network byte order, a last odd byte
  included. The echo request that is sent is right: type 8 and code 0, the identifier and the sequence number in network byte order, a payload of zeroes, and a checksum with which the words
  of the whole message add up to the word of ones, which is what a receiver checks. This holds for every payload that fits into a datagram.\<close>

theorem ping_checksum:
  assumes "length msg \<le> 131070" and "sz \<le> 65507" and "request = echo_request id0 id1 seq sz"
  shows "unat (checkSum msg) = 65535 - ones_sum (net_words msg) \<and> ones_sum (net_words request) = 65535 \<and>
    length request = sz + 8 \<and> take 2 request = [8, 0] \<and> request ! 4 = id0 \<and> request ! 5 = id1 \<and> net_word request 3 = unat seq \<and> drop 8 request = replicate sz 0"
proof -
  have "sum_words ([8, 0, 0, 0, id0, id1, fst (gensequence seq), snd (gensequence seq)] @ replicate sz 0) > 0" by simp
  then have "ones_sum (net_words request) = 65535"
    using ones_sum_inserted [of 8 0 "[id0, id1, fst (gensequence seq), snd (gensequence seq)] @ replicate sz 0"] assms(2,3) by (simp add: echo_request_def Let_def)
  moreover have "length request = sz + 8 \<and> take 2 request = [8, 0] \<and> request ! 4 = id0 \<and> request ! 5 = id1 \<and> net_word request 3 = unat seq \<and> drop 8 request = replicate sz 0"
    using echo_request_sequence [of id0 id1 seq sz] unfolding assms(3)
    by (simp add: net_word_def) (simp add: echo_request_def Let_def numeral_2_eq_2 numeral_3_eq_3)
  ultimately show ?thesis using checkSum_ones [OF assms(1)] by blast
qed

theorem ping_checksum_witness:
  "unat (checkSum [1, 2, 3]) = 65535 - ones_sum [258, 768] \<and> ones_sum (net_words (echo_request 49 50 258 32)) = 65535"
proof -
  have "net_words [1, 2, 3] = [258, 768]" by (simp add: net_words_def net_word_def upt_rec)
  with ping_checksum [of "[1, 2, 3]" 32 _ 49 50 258, OF _ _ refl] show ?thesis by simp
qed

subsection \<open>The statistics\<close>

definition ping_inv :: "int \<Rightarrow> PingStat \<Rightarrow> bool" where
  "ping_inv timeout st \<longleftrightarrow> psSendN st = psRecvN st + psLostN st \<and> psRecvN st \<ge> 0 \<and> psLostN st \<ge> 0 \<and> psSumT st \<ge> 0 \<and>
     (if psRecvN st = 0 then psShortT st = - 1 \<and> psLongT st = - 1
      else 0 \<le> psShortT st \<and> psShortT st \<le> psLongT st \<and> psLongT st < timeout \<and> psLongT st \<le> psSumT st)"

lemma ping_count_inv:
  assumes "ping_inv timeout st" and "d \<ge> 0"
  shows "ping_inv timeout (ping_count msg timeout got d (st\<lparr>psSendN := psSendN st + 1\<rparr>))"
proof (cases "reply_lost msg got d timeout")
  case True
  with assms show ?thesis by (auto simp: ping_inv_def ping_count_def)
next
  case False
  then have "d < timeout" by (auto simp: reply_lost_def Let_def split: option.splits)
  with False assms show ?thesis by (auto simp: ping_inv_def ping_count_def Let_def split: if_splits)
qed

lemma ping_count_frame [simp]:
  "psIp (ping_count msg timeout got d st) = psIp st" "psSendN (ping_count msg timeout got d st) = psSendN st"
  by (simp_all add: ping_count_def Let_def)

lemma ping_loop_answered:
  "ping_loop id0 id1 sz timeout neverstop (1 + int n) seq st (Answered got d # os) =
     ping_loop id0 id1 sz timeout neverstop (int n) (seq + 1) (ping_count (echo_request id0 id1 seq sz) timeout got d (st\<lparr>psSendN := psSendN st + 1\<rparr>)) os"
  by (subst ping_loop.simps) (simp add: Let_def)

text \<open>The statistics add up: a run of \<open>Ping\<close> for a number of requests, none of which fails to be dialled, returns when as many have been made, every request is
  counted either as answered or as lost, and if one was answered, the shortest and the longest time are those of answers within the timeout, in this order.\<close>

lemma ping_statistics:
  assumes "genidentifier host = Some (id0, id1)" and "paL args \<ge> 0" and "\<not> paT args" and "paN args = int (length os)"
    and "\<forall>x \<in> set os. \<exists>got d. x = Answered got d \<and> d \<ge> 0"
  shows "\<exists>st. Ping host ip args True os = Some st \<and> psIp st = ip \<and> psSendN st = paN args \<and> psRecvN st + psLostN st = paN args \<and>
    psRecvN st \<ge> 0 \<and> psLostN st \<ge> 0 \<and>
    (psRecvN st > 0 \<longrightarrow> 0 \<le> psShortT st \<and> psShortT st \<le> psLongT st \<and> psLongT st < paW args)"
proof -
  have loop: "\<exists>st'. ping_loop id0 id1 sz timeout False (int (length os)) seq st os = Some st' \<and> ping_inv timeout st' \<and> psIp st' = psIp st \<and>
      psSendN st' = psSendN st + int (length os)"
    if "ping_inv timeout st" "\<forall>x \<in> set os. \<exists>got d. x = Answered got d \<and> d \<ge> 0" for sz timeout seq st os
    using that
  proof (induction os arbitrary: seq st)
    case Nil
    then show ?case by (simp add: ping_loop.simps)
  next
    case (Cons x os)
    then obtain got d where x: "x = Answered got d" "d \<ge> 0" by auto
    let ?st = "ping_count (echo_request id0 id1 seq sz) timeout got d (st\<lparr>psSendN := psSendN st + 1\<rparr>)"
    have "ping_inv timeout ?st" using ping_count_inv Cons.prems(1) x(2) .
    from Cons.IH [OF this, of "seq + 1"] Cons.prems(2) x(1) show ?case by (auto simp: ping_loop_answered algebra_simps)
  qed
  let ?st = "\<lparr>psIp = ip, psSendN = 0, psLostN = 0, psRecvN = 0, psShortT = - 1, psLongT = - 1, psSumT = 0\<rparr>"
  have "ping_inv (paW args) ?st" by (simp add: ping_inv_def)
  from loop [OF this assms(5)] obtain st where
    st: "ping_loop id0 id1 (nat (paL args)) (paW args) False (int (length os)) 1 ?st os = Some st" "ping_inv (paW args) st" "psIp st = ip" "psSendN st = int (length os)" by auto
  then have "Ping host ip args True os = Some st" using assms by (simp add: Ping_def)
  with st assms(4) show ?thesis by (auto simp: ping_inv_def)
qed

lemma ping_dial_failure:
  \<comment> \<open>a request that cannot be dialled makes \<open>Ping\<close> report all requests as lost, also those that were answered\<close>
  "ping_loop id0 id1 sz timeout neverstop (1 + int (length os)) seq st (map (\<lambda>(got, d). Answered got d) os @ [DialFails]) =
     Some \<lparr>psIp = psIp st, psSendN = psSendN st + int (length os) + 1, psLostN = psSendN st + int (length os) + 1, psRecvN = 0,
       psShortT = - 1, psLongT = - 1, psSumT = - 1\<rparr>"
proof (induction os arbitrary: seq st)
  case Nil
  then show ?case by (simp add: ping_loop.simps)
next
  case (Cons x os)
  obtain got d where x: "x = (got, d)" by (rule prod.exhaust)
  show ?case
    using Cons.IH [of "seq + 1" "ping_count (echo_request id0 id1 seq sz) timeout got d (st\<lparr>psSendN := psSendN st + 1\<rparr>)"]
    ping_loop_answered [where n = "Suc (length os)"] by (simp add: x add.assoc [symmetric])
qed

lemma Stat_no_requests: "Stat st = None \<longleftrightarrow> psSendN st = 0"
  by (simp add: Stat_def)

end
