(* ===== verification/Promise.thy ===== *)
theory Promise
  imports Prelude
begin

text \<open>
  \<^verbatim>\<open>util/process/\<close>: promises (\<^verbatim>\<open>progoroutine.go\<close>), the report of panics (\<^verbatim>\<open>panicmachine.go\<close>) and helpers (\<^verbatim>\<open>helper.go\<close>).

  Representation. Every promise has one goroutine, which runs its executor, so that a system is a list of promises, each with what its goroutine still has
  to do; a pointer to a promise is its position. The executor of a user calls \<open>resolve\<close> and \<open>reject\<close> some number of times and then returns or panics; those of
  the package are the other program points. A section under the mutex of a promise is one step: only its own goroutine takes this mutex. The wait group of a promise
  counts down exactly when the promise stops being pending, so \<open>Await\<close> returns when it is not. A step that has to wait changes nothing. The two channels of
  \<open>All\<close> have room for everything that is sent to them and belong to its goroutine.
\<close>

subsection \<open>Promises\<close>

datatype 'v any = ANil | APlain 'v | AProm nat | AList "'v any list"

datatype panic_value = PanicError string | PanicOther string

datatype 'v fn_result = FRet "'v any" | FPanic panic_value

datatype catch_result = ERet "string option" | EPanic panic_value

record 'v ProGoroutine =
  prPending :: bool
  prResult :: "'v any"
  prErr :: "string option"

datatype 'v fulfillment = FUser "'v any \<Rightarrow> 'v fn_result" | FAll nat nat

datatype rejection = CUser "string \<Rightarrow> catch_result" | CAll nat

datatype 'v p_call = CResolve "'v any" | CReject "string option"

datatype 'v p_pc =
    PCalls "'v p_call list" "panic_value option"
  | PThen nat "'v fulfillment"
  | PCatch nat rejection
  | PAllStart "nat list"
  | PAllRun "'v any list" nat "(nat \<times> 'v any) list" "string list"
  | PDone

type_synonym 'v p_sys = "('v ProGoroutine \<times> 'v p_pc) list"

definition p_New :: "'v p_pc \<Rightarrow> 'v p_sys \<Rightarrow> nat \<times> 'v p_sys" where
  "p_New executor s = (length s, s @ [(\<lparr>prPending = True, prResult = ANil, prErr = None\<rparr>, executor)])"

definition p_Resolve :: "'v any \<Rightarrow> 'v p_sys \<Rightarrow> nat \<times> 'v p_sys" where
  "p_Resolve resolution = p_New (PCalls [CResolve resolution] None)"

definition p_Reject :: "string option \<Rightarrow> 'v p_sys \<Rightarrow> nat \<times> 'v p_sys" where
  "p_Reject err = p_New (PCalls [CReject err] None)"

definition p_Then :: "nat \<Rightarrow> ('v any \<Rightarrow> 'v fn_result) \<Rightarrow> 'v p_sys \<Rightarrow> nat \<times> 'v p_sys" where
  "p_Then promise fulfillment = p_New (PThen promise (FUser fulfillment))"

definition p_Catch :: "nat \<Rightarrow> (string \<Rightarrow> catch_result) \<Rightarrow> 'v p_sys \<Rightarrow> nat \<times> 'v p_sys" where
  "p_Catch promise rejection = p_New (PCatch promise (CUser rejection))"

definition p_All :: "nat list \<Rightarrow> 'v p_sys \<Rightarrow> nat \<times> 'v p_sys" where
  "p_All promises s = (if length promises = 0 then p_Resolve (AList []) s else p_New (PAllStart promises) s)"

definition p_Await :: "nat \<Rightarrow> 'v p_sys \<Rightarrow> ('v any \<times> string option) option" where
  \<comment> \<open>\<open>None\<close>: it waits\<close>
  "p_Await p s = (if p < length s \<and> \<not> prPending (fst (s ! p)) then Some (prResult (fst (s ! p)), prErr (fst (s ! p))) else None)"

definition p_reject :: "nat \<Rightarrow> string option \<Rightarrow> 'v p_sys \<Rightarrow> 'v p_sys" where
  "p_reject i err s =
     (let (pr, pc) = s ! i in if \<not> prPending pr then s else s[i := (pr\<lparr>prErr := err, prPending := False\<rparr>, pc)])"

definition p_resolve :: "nat \<Rightarrow> 'v any \<Rightarrow> 'v p_sys \<Rightarrow> 'v p_sys option" where
  \<comment> \<open>\<open>None\<close>: it waits for the promise that it is given\<close>
  "p_resolve i resolution s =
     (let (pr, pc) = s ! i
      in if \<not> prPending pr then Some s
         else case resolution of
           AProm q \<Rightarrow> do {
             (flattenedResult, err) \<leftarrow> p_Await q s;
             Some (case err of
               Some e \<Rightarrow> p_reject i (Some e) s
             | None \<Rightarrow> s[i := (pr\<lparr>prResult := flattenedResult, prPending := False\<rparr>, pc)])
           }
         | _ \<Rightarrow> Some (s[i := (pr\<lparr>prResult := resolution, prPending := False\<rparr>, pc)]))"

definition panic_text :: "panic_value \<Rightarrow> string" where
  "panic_text e = (case e of PanicError t \<Rightarrow> ''panic recovery with error: '' @ t | PanicOther t \<Rightarrow> ''panic recovery with unknown error: '' @ t)"

definition handlePanic :: "nat \<Rightarrow> panic_value option \<Rightarrow> 'v p_sys \<Rightarrow> 'v p_sys" where
  "handlePanic i e s = (case e of None \<Rightarrow> s | Some e \<Rightarrow> p_reject i (Some (panic_text e)) s)"

definition set_pc :: "nat \<Rightarrow> 'v p_pc \<Rightarrow> 'v p_sys \<Rightarrow> 'v p_sys" where
  "set_pc i pc s = s[i := (fst (s ! i), pc)]"

definition send_resolution :: "nat \<Rightarrow> nat \<times> 'v any \<Rightarrow> 'v p_sys \<Rightarrow> 'v p_sys" where
  \<comment> \<open>into a channel that nobody reads any more: without effect\<close>
  "send_resolution a r s = (case snd (s ! a) of PAllRun res n rq eq \<Rightarrow> set_pc a (PAllRun res n (rq @ [r]) eq) s | _ \<Rightarrow> s)"

definition send_error :: "nat \<Rightarrow> string \<Rightarrow> 'v p_sys \<Rightarrow> 'v p_sys" where
  "send_error a e s = (case snd (s ! a) of PAllRun res n rq eq \<Rightarrow> set_pc a (PAllRun res n rq (eq @ [e])) s | _ \<Rightarrow> s)"

definition then_step :: "nat \<Rightarrow> nat \<Rightarrow> 'v fulfillment \<Rightarrow> 'v p_sys \<Rightarrow> 'v p_sys" where
  "then_step i p f s =
     (case p_Await p s of
        None \<Rightarrow> s
      | Some (_, Some e) \<Rightarrow> set_pc i PDone (p_reject i (Some e) s)
      | Some (r, None) \<Rightarrow>
          (case f of
             FUser g \<Rightarrow> (case g r of FRet v \<Rightarrow> set_pc i (PCalls [CResolve v] None) s | FPanic x \<Rightarrow> set_pc i (PCalls [] (Some x)) s)
           | FAll a k \<Rightarrow> set_pc i (PCalls [CResolve r] None) (send_resolution a (k, r) s)))"

definition catch_step :: "nat \<Rightarrow> nat \<Rightarrow> rejection \<Rightarrow> 'v p_sys \<Rightarrow> 'v p_sys" where
  "catch_step i p f s =
     (case p_Await p s of
        None \<Rightarrow> s
      | Some (r, None) \<Rightarrow> set_pc i (PCalls [CResolve r] None) s
      | Some (_, Some e) \<Rightarrow>
          (case f of
             CUser g \<Rightarrow> (case g e of ERet e' \<Rightarrow> set_pc i (PCalls [CReject e'] None) s | EPanic x \<Rightarrow> set_pc i (PCalls [] (Some x)) s)
           | CAll a \<Rightarrow> set_pc i (PCalls [CReject (Some e)] None) (send_error a e s)))"

fun all_spawn :: "nat \<Rightarrow> nat \<Rightarrow> nat list \<Rightarrow> 'v p_sys \<Rightarrow> 'v p_sys" where
  \<comment> \<open>the promises of \<open>All\<close>: for every promise one by \<open>Then\<close> and one on it by \<open>Catch\<close>\<close>
  "all_spawn a k [] s = s"
| "all_spawn a k (p # ps) s =
     (let (t, s) = p_New (PThen p (FAll a k)) s; (_, s) = p_New (PCatch t (CAll a)) s in all_spawn a (Suc k) ps s)"

definition p_step :: "nat \<Rightarrow> bool \<Rightarrow> 'v p_sys \<Rightarrow> 'v p_sys" where
  \<comment> \<open>a step of the goroutine of a promise; the flag says which case a select with two ready cases takes\<close>
  "p_step i b s =
     (case snd (s ! i) of
        PDone \<Rightarrow> s
      | PCalls [] e \<Rightarrow> set_pc i PDone (handlePanic i e s)
      | PCalls (CResolve v # cs) e \<Rightarrow> (case p_resolve i v s of None \<Rightarrow> s | Some s \<Rightarrow> set_pc i (PCalls cs e) s)
      | PCalls (CReject e' # cs) e \<Rightarrow> set_pc i (PCalls cs e) (p_reject i e' s)
      | PThen p f \<Rightarrow> then_step i p f s
      | PCatch p f \<Rightarrow> catch_step i p f s
      | PAllStart ps \<Rightarrow> set_pc i (PAllRun (replicate (length ps) ANil) (length ps) [] []) (all_spawn i 0 ps s)
      | PAllRun res n rq eq \<Rightarrow>
          (if n = 0 then set_pc i (PCalls [CResolve (AList res)] None) s
           else case (rq, eq) of
             ([], []) \<Rightarrow> s
           | ((k, v) # rq', []) \<Rightarrow> set_pc i (PAllRun (res[k := v]) (n - 1) rq' eq) s
           | ([], e # eq') \<Rightarrow> set_pc i (PCalls [CReject (Some e)] None) s
           | ((k, v) # rq', e # eq') \<Rightarrow> if b then set_pc i (PAllRun (res[k := v]) (n - 1) rq' eq) s else set_pc i (PCalls [CReject (Some e)] None) s))"

fun p_run :: "(nat \<times> bool) list \<Rightarrow> 'v p_sys \<Rightarrow> 'v p_sys" where
  "p_run [] s = s"
| "p_run ((i, b) # sched) s = p_run sched (if i < length s then p_step i b s else s)"

subsection \<open>A promise is settled once\<close>

definition p_outcome :: "'v p_sys \<Rightarrow> nat \<Rightarrow> (string + 'v any) option" where
  "p_outcome s p = map_option (\<lambda>(r, e). case e of None \<Rightarrow> Inr r | Some e \<Rightarrow> Inl e) (p_Await p s)"

lemma length_ops [simp]:
  "length (set_pc i pc s) = length s" "length (p_reject i e s) = length s" "length (handlePanic i x s) = length s"
  "length (send_resolution a r s) = length s" "length (send_error a e' s) = length s"
  by (simp_all add: set_pc_def p_reject_def handlePanic_def send_resolution_def send_error_def case_prod_beta split: option.splits p_pc.splits)

lemma length_resolve: "p_resolve i v s = Some s' \<Longrightarrow> length s' = length s"
  by (auto simp: p_resolve_def case_prod_beta Let_def split: if_splits any.splits bind_splits option.splits)

lemma p_resolve_eq:
  "\<not> prPending (fst (s ! i)) \<Longrightarrow> p_resolve i v s = Some s"
  "prPending (fst (s ! i)) \<Longrightarrow> \<forall>q. v \<noteq> AProm q \<Longrightarrow> p_resolve i v s = Some (s[i := ((fst (s ! i))\<lparr>prResult := v, prPending := False\<rparr>, snd (s ! i))])"
  "prPending (fst (s ! i)) \<Longrightarrow> p_resolve i (AProm q) s =
     (case p_Await q s of
        None \<Rightarrow> None
      | Some (r, Some e) \<Rightarrow> Some (p_reject i (Some e) s)
      | Some (r, None) \<Rightarrow> Some (s[i := ((fst (s ! i))\<lparr>prResult := r, prPending := False\<rparr>, snd (s ! i))]))"
  by (auto simp: p_resolve_def case_prod_beta Let_def split: any.splits option.splits)

lemma upd_nth: "j < length s \<Longrightarrow> s[i := x] ! j = (if i = j then x else s ! j)"
  by (cases "i = j") auto

lemma set_pc_nth [simp]:
  "j < length s \<Longrightarrow> fst (set_pc i pc s ! j) = fst (s ! j)"
  "j < length s \<Longrightarrow> snd (set_pc i pc s ! j) = (if j = i then pc else snd (s ! j))"
  by (simp_all add: set_pc_def upd_nth)

lemma reject_nth [simp]:
  "j < length s \<Longrightarrow> fst (p_reject i e s ! j) = (if j = i \<and> prPending (fst (s ! i)) then (fst (s ! i))\<lparr>prErr := e, prPending := False\<rparr> else fst (s ! j))"
  "j < length s \<Longrightarrow> snd (p_reject i e s ! j) = snd (s ! j)"
  by (auto simp: p_reject_def upd_nth case_prod_beta Let_def)

lemma send_nth [simp]:
  "j < length s \<Longrightarrow> fst (send_resolution a r s ! j) = fst (s ! j)" "j < length s \<Longrightarrow> fst (send_error a e s ! j) = fst (s ! j)"
  "j < length s \<Longrightarrow> j \<noteq> a \<Longrightarrow> snd (send_resolution a r s ! j) = snd (s ! j)" "j < length s \<Longrightarrow> j \<noteq> a \<Longrightarrow> snd (send_error a e s ! j) = snd (s ! j)"
  by (auto simp: send_resolution_def send_error_def split: p_pc.splits)

lemma resolve_nth:
  assumes "p_resolve i v s = Some s'" and "j < length s"
  shows "snd (s' ! j) = snd (s ! j) \<and> (j \<noteq> i \<or> \<not> prPending (fst (s ! j)) \<longrightarrow> fst (s' ! j) = fst (s ! j))"
  using assms by (auto simp: p_resolve_def case_prod_beta Let_def upd_nth split: if_splits any.splits bind_splits option.splits)

lemma all_spawn_prefix:
  "length s \<le> length (all_spawn a k ps s) \<and> (\<forall>j < length s. all_spawn a k ps s ! j = s ! j)"
proof (induction ps arbitrary: k s)
  case (Cons p ps)
  have "all_spawn a k (p # ps) s = all_spawn a (Suc k) ps (s @ [(\<lparr>prPending = True, prResult = ANil, prErr = None\<rparr>, PThen p (FAll a k)), (\<lparr>prPending = True, prResult = ANil, prErr = None\<rparr>, PCatch (length s) (CAll a))])"
    by (simp add: p_New_def Let_def)
  with Cons [of "s @ [(\<lparr>prPending = True, prResult = ANil, prErr = None\<rparr>, PThen p (FAll a k)), (\<lparr>prPending = True, prResult = ANil, prErr = None\<rparr>, PCatch (length s) (CAll a))]" "Suc k"]
  show ?case by (auto simp: nth_append)
qed simp

lemma all_spawn_less [simp]:
  "j < length s \<Longrightarrow> j < length (all_spawn a k ps s)" "j < length s \<Longrightarrow> all_spawn a k ps s ! j = s ! j"
  using all_spawn_prefix [of s a k ps] by auto

lemma step_frame:
  assumes "i < length s" and "j < length s"
  shows "length s \<le> length (p_step i b s)"
    and "j \<noteq> i \<or> \<not> prPending (fst (s ! j)) \<Longrightarrow> fst (p_step i b s ! j) = fst (s ! j)"
    and "j \<noteq> i \<Longrightarrow> (\<forall>p k. snd (s ! i) \<noteq> PThen p (FAll j k)) \<Longrightarrow> (\<forall>q. snd (s ! i) \<noteq> PCatch q (CAll j)) \<Longrightarrow> snd (p_step i b s ! j) = snd (s ! j)"
proof -
  note splits = p_pc.splits p_call.splits list.splits option.splits prod.splits fulfillment.splits rejection.splits fn_result.splits catch_result.splits
  show "length s \<le> length (p_step i b s)"
    using all_spawn_prefix [of s i 0] by (auto simp: p_step_def then_step_def catch_step_def length_resolve split: splits)
  show "fst (p_step i b s ! j) = fst (s ! j)" if "j \<noteq> i \<or> \<not> prPending (fst (s ! j))"
    using that assms
    by (auto simp: p_step_def then_step_def catch_step_def handlePanic_def length_resolve resolve_nth split: splits)
  show "snd (p_step i b s ! j) = snd (s ! j)" if "j \<noteq> i" "\<forall>p k. snd (s ! i) \<noteq> PThen p (FAll j k)" "\<forall>q. snd (s ! i) \<noteq> PCatch q (CAll j)"
    using that assms
    by (auto simp: p_step_def then_step_def catch_step_def handlePanic_def length_resolve resolve_nth split: splits)
qed

lemma outcome_stable:
  assumes "i < length s" and "p_outcome s j = Some x"
  shows "p_outcome (p_step i b s) j = Some x"
proof -
  have j: "j < length s" "\<not> prPending (fst (s ! j))" using assms(2) by (auto simp: p_outcome_def p_Await_def split: if_splits)
  with step_frame [OF assms(1) j(1), of b] assms(2) show ?thesis by (auto simp: p_outcome_def p_Await_def)
qed

lemma outcome_pending: "j < length s \<Longrightarrow> prPending (fst (s ! j)) \<longleftrightarrow> p_outcome s j = None"
  by (auto simp: p_outcome_def p_Await_def)

lemma outcome_bound: "p_outcome s j = Some x \<Longrightarrow> j < length s"
  by (auto simp: p_outcome_def p_Await_def split: if_splits)

text \<open>The promises of a system are flat: what they are resolved with is not a promise, and a promise that is pending holds nothing yet.\<close>

definition flat_pr :: "'v ProGoroutine \<Rightarrow> bool" where
  "flat_pr pr \<longleftrightarrow> (\<forall>q. prResult pr \<noteq> AProm q) \<and> (prPending pr \<or> prErr pr \<noteq> None \<longrightarrow> prResult pr = ANil) \<and> (prPending pr \<longrightarrow> prErr pr = None)"

definition flat :: "'v p_sys \<Rightarrow> bool" where
  "flat s \<longleftrightarrow> (\<forall>j < length s. flat_pr (fst (s ! j)))"

lemma flat_upd: "flat s \<Longrightarrow> (i < length s \<Longrightarrow> flat_pr pr) \<Longrightarrow> flat (s[i := (pr, pc)])"
  by (auto simp: flat_def upd_nth)

lemma flat_set_pc: "flat s \<Longrightarrow> flat (set_pc i pc s)"
  by (auto simp: flat_def)

lemma flat_reject: "flat s \<Longrightarrow> flat (p_reject i e s)"
  by (auto simp: flat_def flat_pr_def)

lemma flat_send: "flat s \<Longrightarrow> flat (send_resolution a r s)" "flat s \<Longrightarrow> flat (send_error a e s)"
  by (auto simp: send_resolution_def send_error_def flat_set_pc split: p_pc.splits)

lemma flat_New: "flat s \<Longrightarrow> flat (snd (p_New pc s))"
  by (auto simp: flat_def p_New_def nth_append flat_pr_def less_Suc_eq)

lemma flat_resolve:
  assumes "flat s" and "p_resolve i v s = Some s'"
  shows "flat s'"
proof -
  have pr: "flat_pr (fst (s ! j))" if "j < length s" for j using assms(1) that by (simp add: flat_def)
  show ?thesis
  proof (cases "prPending (fst (s ! i))")
    case True
    show ?thesis
    proof (cases "\<exists>q. v = AProm q")
      case prom: True
      then obtain q where v: "v = AProm q" by blast
      with True assms(2) obtain r e where q: "p_Await q s = Some (r, e)"
        "s' = (case e of None \<Rightarrow> s[i := ((fst (s ! i))\<lparr>prResult := r, prPending := False\<rparr>, snd (s ! i))] | Some e \<Rightarrow> p_reject i (Some e) s)"
        by (auto simp: p_resolve_eq split: option.splits)
      then have "\<forall>q'. r \<noteq> AProm q'" using pr [of q] by (auto simp: p_Await_def flat_pr_def split: if_splits)
      with q True pr [of i] assms(1) show ?thesis by (auto simp: flat_pr_def split: option.splits intro!: flat_reject flat_upd)
    next
      case False
      with True assms(2) pr [of i] assms(1) show ?thesis by (auto simp: p_resolve_eq flat_pr_def intro!: flat_upd)
    qed
  qed (use assms in \<open>simp add: p_resolve_eq\<close>)
qed

lemma flat_spawn: "flat s \<Longrightarrow> flat (all_spawn a k ps s)"
proof (induction ps arbitrary: k s)
  case (Cons p ps)
  then show ?case by (simp add: Let_def case_prod_beta flat_New)
qed simp

lemma flat_step: "flat s \<Longrightarrow> flat (p_step i b s)"
  by (auto simp: p_step_def then_step_def catch_step_def handlePanic_def flat_set_pc flat_reject flat_send flat_spawn flat_resolve
    split: p_pc.splits p_call.splits list.splits option.splits prod.splits fulfillment.splits rejection.splits fn_result.splits catch_result.splits)

text \<open>A user makes promises by executors of his own and by the functions of the package; goroutines take steps in any order.\<close>

fun user_pc :: "'v p_pc \<Rightarrow> bool" where
  "user_pc (PCalls cs e) = True"
| "user_pc (PThen p f) = (case f of FUser _ \<Rightarrow> True | FAll _ _ \<Rightarrow> False)"
| "user_pc (PCatch p f) = (case f of CUser _ \<Rightarrow> True | CAll _ \<Rightarrow> False)"
| "user_pc (PAllStart ps) = True"
| "user_pc _ = False"

inductive p_more :: "'v p_sys \<Rightarrow> 'v p_sys \<Rightarrow> bool" where
  same: "p_more s s"
| make: "p_more s s' \<Longrightarrow> user_pc pc \<Longrightarrow> p_more s (snd (p_New pc s'))"
| step: "p_more s s' \<Longrightarrow> i < length s' \<Longrightarrow> p_more s (p_step i b s')"

lemma p_more_flat: "p_more s s' \<Longrightarrow> flat s \<Longrightarrow> flat s'"
  by (induction rule: p_more.induct) (simp_all add: flat_New flat_step)

lemma outcome_New: "p_outcome (snd (p_New pc s)) = p_outcome s"
  by (auto simp: p_outcome_def p_Await_def p_New_def nth_append fun_eq_iff less_Suc_eq)

lemma p_more_outcome: "p_more s s' \<Longrightarrow> p_outcome s j = Some x \<Longrightarrow> p_outcome s' j = Some x"
  by (induction rule: p_more.induct) (simp_all add: outcome_New outcome_stable)

subsection \<open>Waiting for all of several promises\<close>

lemma outcome_ops [simp]:
  "p_outcome (set_pc i pc s) = p_outcome s" "p_outcome (send_resolution a r s) = p_outcome s" "p_outcome (send_error a e s) = p_outcome s"
  by (auto simp: p_outcome_def p_Await_def fun_eq_iff)

lemma outcome_reject: "i < length s \<Longrightarrow> p_outcome s i = None \<Longrightarrow> p_outcome (p_reject i (Some e) s) = (p_outcome s)(i \<mapsto> Inl e)"
  by (auto simp: p_outcome_def p_Await_def fun_eq_iff split: if_splits)

lemma outcome_resolve:
  assumes "flat s" and "i < length s" and "p_outcome s i = None" and "\<forall>q. v \<noteq> AProm q"
  obtains s' where "p_resolve i v s = Some s'" and "p_outcome s' = (p_outcome s)(i \<mapsto> Inr v)" and "length s' = length s" and "\<forall>j < length s. snd (s' ! j) = snd (s ! j)"
proof -
  let ?s = "s[i := ((fst (s ! i))\<lparr>prResult := v, prPending := False\<rparr>, snd (s ! i))]"
  have "prPending (fst (s ! i))" "prErr (fst (s ! i)) = None" using assms(1-3) outcome_pending [of i s] by (auto simp: flat_def flat_pr_def)
  with assms(2,4) show thesis
    by (intro that [of ?s]) (auto simp: p_resolve_eq p_outcome_def p_Await_def fun_eq_iff upd_nth)
qed

text \<open>What the goroutine \<open>a\<close> of \<open>All\<close> and those that it starts, from \<open>base\<close> on, have got of the promises \<open>ps\<close>; \<open>out\<close> gives the outcomes and \<open>pc\<close> what is still to do.\<close>

definition t_view :: "nat \<Rightarrow> nat \<Rightarrow> nat list \<Rightarrow> (nat \<Rightarrow> (string + 'v any) option) \<Rightarrow> (nat \<Rightarrow> 'v p_pc) \<Rightarrow> nat \<Rightarrow> bool" where
  "t_view a base ps out pc k \<longleftrightarrow>
     (let t = base + 2 * k
      in (pc t = PThen (ps ! k) (FAll a k) \<and> out t = None) \<or>
         (\<exists>r. out (ps ! k) = Some (Inr r) \<and> (\<forall>q. r \<noteq> AProm q) \<and>
           (pc t = PCalls [CResolve r] None \<and> out t = None \<or> pc t \<in> {PCalls [] None, PDone} \<and> out t = Some (Inr r))) \<or>
         (\<exists>e. out (ps ! k) = Some (Inl e) \<and> pc t = PDone \<and> out t = Some (Inl e)))"

definition c_view :: "nat \<Rightarrow> nat \<Rightarrow> (nat \<Rightarrow> (string + 'v any) option) \<Rightarrow> (nat \<Rightarrow> 'v p_pc) \<Rightarrow> nat \<Rightarrow> bool" where
  "c_view a base out pc k \<longleftrightarrow> pc (base + 2 * k + 1) = PCatch (base + 2 * k) (CAll a) \<or> out (base + 2 * k) \<noteq> None \<and> (pc (base + 2 * k + 1) = PDone \<or> (\<exists>cs x. pc (base + 2 * k + 1) = PCalls cs x))"

definition all_ok :: "nat list \<Rightarrow> (nat \<Rightarrow> (string + 'v any) option) \<Rightarrow> 'v any list \<Rightarrow> bool" where
  "all_ok ps out rs \<longleftrightarrow> length rs = length ps \<and> (\<forall>k < length ps. out (ps ! k) = Some (Inr (rs ! k)))"

definition run_view :: "nat \<Rightarrow> nat \<Rightarrow> nat list \<Rightarrow> (nat \<Rightarrow> (string + 'v any) option) \<Rightarrow> (nat \<Rightarrow> 'v p_pc) \<Rightarrow> 'v any list \<Rightarrow> nat \<Rightarrow> (nat \<times> 'v any) list \<Rightarrow> string list \<Rightarrow> nat set \<Rightarrow> bool" where
  "run_view a base ps out pc res n rq eq D \<longleftrightarrow>
     D \<subseteq> {..<length ps} \<and> card D + n = length ps \<and> length res = length ps \<and> (\<forall>k \<in> D. out (ps ! k) = Some (Inr (res ! k))) \<and>
     distinct (map fst rq) \<and> fst ` set rq \<inter> D = {} \<and> (\<forall>(k, v) \<in> set rq. k < length ps \<and> out (ps ! k) = Some (Inr v)) \<and>
     (\<forall>k < length ps. k \<in> D \<union> fst ` set rq \<longleftrightarrow> pc (base + 2 * k) \<noteq> PThen (ps ! k) (FAll a k) \<and> (\<exists>r. out (ps ! k) = Some (Inr r))) \<and>
     (\<forall>e \<in> set eq. \<exists>p \<in> set ps. out p = Some (Inl e)) \<and>
     (\<forall>k < length ps. \<forall>e. out (base + 2 * k) = Some (Inl e) \<and> pc (base + 2 * k + 1) \<noteq> PCatch (base + 2 * k) (CAll a) \<longrightarrow> eq \<noteq> [])"

definition a_view :: "nat \<Rightarrow> nat \<Rightarrow> nat list \<Rightarrow> (nat \<Rightarrow> (string + 'v any) option) \<Rightarrow> (nat \<Rightarrow> 'v p_pc) \<Rightarrow> bool" where
  "a_view a base ps out pc \<longleftrightarrow>
     (\<exists>res n rq eq D. pc a = PAllRun res n rq eq \<and> out a = None \<and> run_view a base ps out pc res n rq eq D) \<or>
     (\<exists>rs. all_ok ps out rs \<and> (pc a = PCalls [CResolve (AList rs)] None \<and> out a = None \<or> pc a \<in> {PCalls [] None, PDone} \<and> out a = Some (Inr (AList rs)))) \<or>
     (\<exists>e. (\<exists>p \<in> set ps. out p = Some (Inl e)) \<and> (pc a = PCalls [CReject (Some e)] None \<and> out a = None \<or> pc a \<in> {PCalls [] None, PDone} \<and> out a = Some (Inl e)))"

definition all_view :: "nat \<Rightarrow> nat \<Rightarrow> nat list \<Rightarrow> (nat \<Rightarrow> (string + 'v any) option) \<Rightarrow> (nat \<Rightarrow> 'v p_pc) \<Rightarrow> bool" where
  "all_view a base ps out pc \<longleftrightarrow> a_view a base ps out pc \<and> (\<forall>k < length ps. t_view a base ps out pc k \<and> c_view a base out pc k)"

lemma t_view_mono:
  assumes "t_view a base ps out pc k" and "out \<subseteq>\<^sub>m out'" and "out' (base + 2 * k) = out (base + 2 * k)" and "pc' (base + 2 * k) = pc (base + 2 * k)"
  shows "t_view a base ps out' pc' k"
proof -
  have o: "out' j = Some x" if "out j = Some x" for j x using assms(2) that by (metis domI map_le_def)
  from assms(1,3,4) show ?thesis unfolding t_view_def Let_def by (elim disjE exE conjE) (simp_all add: o)
qed

lemma all_ok_map: "all_ok ps out rs \<longleftrightarrow> map out ps = map (\<lambda>r. Some (Inr r)) rs"
  by (auto simp: all_ok_def list_eq_iff_nth_eq)

lemma run_viewD:
  assumes "run_view a base ps out pc res n rq eq D"
  shows "D \<subseteq> {..<length ps}" and "card D + n = length ps" and "length res = length ps" and "\<forall>k \<in> D. out (ps ! k) = Some (Inr (res ! k))"
    and "distinct (map fst rq)" and "fst ` set rq \<inter> D = {}" and "\<forall>(k, v) \<in> set rq. k < length ps \<and> out (ps ! k) = Some (Inr v)"
    and "\<forall>k < length ps. k \<in> D \<union> fst ` set rq \<longleftrightarrow> pc (base + 2 * k) \<noteq> PThen (ps ! k) (FAll a k) \<and> (\<exists>r. out (ps ! k) = Some (Inr r))"
    and "\<forall>e \<in> set eq. \<exists>p \<in> set ps. out p = Some (Inl e)"
    and "\<forall>k < length ps. \<forall>e. out (base + 2 * k) = Some (Inl e) \<and> pc (base + 2 * k + 1) \<noteq> PCatch (base + 2 * k) (CAll a) \<longrightarrow> eq \<noteq> []"
  using assms unfolding run_view_def by - (elim conjE, assumption)+

lemma run_view_mono:
  assumes run: "run_view a base ps out pc res n rq eq D" and "out \<subseteq>\<^sub>m out'" and "\<And>k. k < length ps \<Longrightarrow> t_view a base ps out pc k"
    and same: "\<And>k. k < length ps \<Longrightarrow> out' (base + 2 * k) = out (base + 2 * k) \<and> pc' (base + 2 * k) = pc (base + 2 * k) \<and> pc' (base + 2 * k + 1) = pc (base + 2 * k + 1)"
  shows "run_view a base ps out' pc' res n rq eq D"
proof -
  have o: "out' j = Some x" if "out j = Some x" for j x using assms(2) that by (metis domI map_le_def)
  have T: "(\<exists>r. out' (ps ! k) = Some (Inr r)) \<longleftrightarrow> (\<exists>r. out (ps ! k) = Some (Inr r))" if "k < length ps" "pc (base + 2 * k) \<noteq> PThen (ps ! k) (FAll a k)" for k
    using assms(3) [OF that(1)] that(2) unfolding t_view_def Let_def by (elim disjE exE conjE) (simp_all add: o)
  note R = run_viewD [OF run]
  have sent: "\<forall>k < length ps. k \<in> D \<union> fst ` set rq \<longleftrightarrow> pc' (base + 2 * k) \<noteq> PThen (ps ! k) (FAll a k) \<and> (\<exists>r. out' (ps ! k) = Some (Inr r))"
  proof (intro allI impI)
    fix k assume k: "k < length ps"
    then have "k \<in> D \<union> fst ` set rq \<longleftrightarrow> pc (base + 2 * k) \<noteq> PThen (ps ! k) (FAll a k) \<and> (\<exists>r. out (ps ! k) = Some (Inr r))" by (rule R(8) [rule_format])
    with T [OF k] same [OF k] show "k \<in> D \<union> fst ` set rq \<longleftrightarrow> pc' (base + 2 * k) \<noteq> PThen (ps ! k) (FAll a k) \<and> (\<exists>r. out' (ps ! k) = Some (Inr r))" by metis
  qed
  have queued: "\<forall>(k, v) \<in> set rq. k < length ps \<and> out' (ps ! k) = Some (Inr v)" using R(7) o by fast
  have taken: "\<forall>k \<in> D. out' (ps ! k) = Some (Inr (res ! k))" using R(4) o by blast
  have errors: "\<forall>e \<in> set eq. \<exists>p \<in> set ps. out' p = Some (Inl e)" using R(9) o by blast
  have failed: "\<forall>k < length ps. \<forall>e. out' (base + 2 * k) = Some (Inl e) \<and> pc' (base + 2 * k + 1) \<noteq> PCatch (base + 2 * k) (CAll a) \<longrightarrow> eq \<noteq> []"
    using R(10) same by metis
  show ?thesis unfolding run_view_def by (intro conjI R(1-3,5,6) sent queued taken errors failed)
qed

lemma a_view_cases [consumes 1, case_names run ok failed]:
  assumes "a_view a base ps out pc"
  obtains res n rq eq D where "pc a = PAllRun res n rq eq" and "out a = None" and "run_view a base ps out pc res n rq eq D"
  | rs where "all_ok ps out rs" and "pc a = PCalls [CResolve (AList rs)] None \<and> out a = None \<or> pc a \<in> {PCalls [] None, PDone} \<and> out a = Some (Inr (AList rs))"
  | e where "\<exists>p \<in> set ps. out p = Some (Inl e)" and "pc a = PCalls [CReject (Some e)] None \<and> out a = None \<or> pc a \<in> {PCalls [] None, PDone} \<and> out a = Some (Inl e)"
  using assms unfolding a_view_def by blast

lemma a_viewI:
  "pc a = PAllRun res n rq eq \<Longrightarrow> out a = None \<Longrightarrow> run_view a base ps out pc res n rq eq D \<Longrightarrow> a_view a base ps out pc"
  "all_ok ps out rs \<Longrightarrow> pc a = PCalls [CResolve (AList rs)] None \<and> out a = None \<or> pc a \<in> {PCalls [] None, PDone} \<and> out a = Some (Inr (AList rs)) \<Longrightarrow> a_view a base ps out pc"
  "\<exists>p \<in> set ps. out p = Some (Inl e) \<Longrightarrow> pc a = PCalls [CReject (Some e)] None \<and> out a = None \<or> pc a \<in> {PCalls [] None, PDone} \<and> out a = Some (Inl e) \<Longrightarrow> a_view a base ps out pc"
  unfolding a_view_def by blast+

lemma all_view_mono:
  assumes view: "all_view a base ps out pc" and le: "out \<subseteq>\<^sub>m out'" and a: "out' a = out a" "pc' a = pc a"
    and same: "\<And>k. k < length ps \<Longrightarrow> out' (base + 2 * k) = out (base + 2 * k) \<and> pc' (base + 2 * k) = pc (base + 2 * k) \<and> pc' (base + 2 * k + 1) = pc (base + 2 * k + 1)"
  shows "all_view a base ps out' pc'"
proof -
  have o: "out' j = Some x" if "out j = Some x" for j x using le that by (metis domI map_le_def)
  have "a_view a base ps out pc" using view by (simp add: all_view_def)
  then have "a_view a base ps out' pc'"
  proof (cases rule: a_view_cases)
    case (run res n rq eq D)
    have "run_view a base ps out' pc' res n rq eq D" using run_view_mono [OF run(3) le _ same] view by (simp add: all_view_def)
    with run a show ?thesis by (intro a_viewI(1)) simp_all
  next
    case (ok rs)
    then have "all_ok ps out' rs" using o by (simp add: all_ok_def)
    with ok a show ?thesis by (intro a_viewI(2)) simp_all
  next
    case (failed e)
    then have "\<exists>p \<in> set ps. out' p = Some (Inl e)" using o by blast
    with failed a show ?thesis by (intro a_viewI(3)) simp_all
  qed
  moreover have "t_view a base ps out' pc' k" "c_view a base out' pc' k" if "k < length ps" for k
    using view le same [OF that] that t_view_mono [of a base ps out pc k out' pc'] by (simp_all add: all_view_def c_view_def)
  ultimately show ?thesis by (simp add: all_view_def)
qed

lemma a_view_change:
  assumes "a_view a base ps out pc" and "out' a = out a" and "pc' a = pc a" and "\<And>p. p \<in> set ps \<Longrightarrow> out' p = out p"
    and "\<And>k. k < length ps \<Longrightarrow> (pc' (base + 2 * k) \<noteq> PThen (ps ! k) (FAll a k) \<and> (\<exists>r. out (ps ! k) = Some (Inr r))) =
      (pc (base + 2 * k) \<noteq> PThen (ps ! k) (FAll a k) \<and> (\<exists>r. out (ps ! k) = Some (Inr r)))"
    and "\<And>k e. k < length ps \<Longrightarrow> out' (base + 2 * k) = Some (Inl e) \<Longrightarrow> pc' (base + 2 * k + 1) \<noteq> PCatch (base + 2 * k) (CAll a) \<Longrightarrow>
      out (base + 2 * k) = Some (Inl e) \<and> pc (base + 2 * k + 1) \<noteq> PCatch (base + 2 * k) (CAll a)"
  shows "a_view a base ps out' pc'"
  using assms(1)
proof (cases rule: a_view_cases)
  case (run res n rq eq D)
  note R = run_viewD [OF run(3)]
  have sent: "\<forall>k < length ps. k \<in> D \<union> fst ` set rq \<longleftrightarrow> pc' (base + 2 * k) \<noteq> PThen (ps ! k) (FAll a k) \<and> (\<exists>r. out' (ps ! k) = Some (Inr r))"
    using R(8) assms(4,5) by simp
  have queued: "\<forall>(k, v) \<in> set rq. k < length ps \<and> out' (ps ! k) = Some (Inr v)" using R(7) assms(4) by fastforce
  have taken: "\<forall>k \<in> D. out' (ps ! k) = Some (Inr (res ! k))" using R(1,4) assms(4) by (simp add: subset_iff)
  have errors: "\<forall>e \<in> set eq. \<exists>p \<in> set ps. out' p = Some (Inl e)" using R(9) assms(4) by metis
  have failed: "\<forall>k < length ps. \<forall>e. out' (base + 2 * k) = Some (Inl e) \<and> pc' (base + 2 * k + 1) \<noteq> PCatch (base + 2 * k) (CAll a) \<longrightarrow> eq \<noteq> []"
    using R(10) assms(6) by metis
  have "run_view a base ps out' pc' res n rq eq D" unfolding run_view_def by (intro conjI R(1-3,5,6) sent queued taken errors failed)
  with run assms(2,3) show ?thesis by (intro a_viewI(1)) simp_all
next
  case (ok rs)
  then have "all_ok ps out' rs" using assms(4) by (simp add: all_ok_def)
  with ok assms(2,3) show ?thesis by (intro a_viewI(2)) simp_all
next
  case (failed e)
  then have "\<exists>p \<in> set ps. out' p = Some (Inl e)" using assms(4) by auto
  with failed assms(2,3) show ?thesis by (intro a_viewI(3)) simp_all
qed

text \<open>What a goroutine that \<open>All\<close> has started for one of its promises does to the view.\<close>

lemma view_then:
  assumes view: "all_view a base ps out pc" and k: "k < length ps" and a: "a < base" and ps: "\<And>p. p \<in> set ps \<Longrightarrow> p < base"
    and t: "pc (base + 2 * k) = PThen (ps ! k) (FAll a k)" and r: "out (ps ! k) = Some (Inr r)" "\<forall>q. r \<noteq> AProm q"
  shows "all_view a base ps out (pc(a := case pc a of PAllRun res n rq eq \<Rightarrow> PAllRun res n (rq @ [(k, r)]) eq | x \<Rightarrow> x, base + 2 * k := PCalls [CResolve r] None))"
proof -
  let ?t = "base + 2 * k"
  let ?pc = "pc(a := case pc a of PAllRun res n rq eq \<Rightarrow> PAllRun res n (rq @ [(k, r)]) eq | x \<Rightarrow> x, ?t := PCalls [CResolve r] None)"
  have other: "?pc (base + 2 * j) = (if j = k then PCalls [CResolve r] None else pc (base + 2 * j))" "?pc (base + 2 * j + 1) = pc (base + 2 * j + 1)" for j
    using a by (auto, presburger+)
  have "out ?t = None" using view k t unfolding all_view_def t_view_def by fastforce
  then have "t_view a base ps out ?pc j" "c_view a base out ?pc j" if "j < length ps" for j
    using view that r other [of j] by (auto simp: all_view_def t_view_def c_view_def Let_def)
  moreover have "a_view a base ps out pc" using view by (simp add: all_view_def)
  then have "a_view a base ps out ?pc"
  proof (cases rule: a_view_cases)
    case (run res n rq eq D)
    note R = run_viewD [OF run(3)]
    have k': "k \<notin> D \<union> fst ` set rq" using R(8) k t by simp
    have "run_view a base ps out ?pc res n (rq @ [(k, r)]) eq D" unfolding run_view_def
    proof (intro conjI R(1-4,9))
      show "distinct (map fst (rq @ [(k, r)]))" "fst ` set (rq @ [(k, r)]) \<inter> D = {}" "\<forall>(j, v) \<in> set (rq @ [(k, r)]). j < length ps \<and> out (ps ! j) = Some (Inr v)"
        using R(5-7) k' k r by auto
      show "\<forall>j < length ps. j \<in> D \<union> fst ` set (rq @ [(k, r)]) \<longleftrightarrow> ?pc (base + 2 * j) \<noteq> PThen (ps ! j) (FAll a j) \<and> (\<exists>r. out (ps ! j) = Some (Inr r))"
        unfolding other(1) using R(8) r by auto
      show "\<forall>j < length ps. \<forall>e. out (base + 2 * j) = Some (Inl e) \<and> ?pc (base + 2 * j + 1) \<noteq> PCatch (base + 2 * j) (CAll a) \<longrightarrow> eq \<noteq> []"
        unfolding other(2) by (rule R(10))
    qed
    with run a show ?thesis by (intro a_viewI(1) [of ?pc a res n "rq @ [(k, r)]" eq]) simp_all
  next
    case (ok rs)
    with a show ?thesis by (intro a_viewI(2) [of ps out rs]) auto
  next
    case (failed e)
    with a show ?thesis by (intro a_viewI(3) [of ps out e]) auto
  qed
  ultimately show ?thesis by (simp add: all_view_def)
qed

lemma view_t_moves:
  \<comment> \<open>the promise by \<open>Then\<close> is rejected, resolved, or its goroutine ends\<close>
  assumes view: "all_view a base ps out pc" and k: "k < length ps" and a: "a < base" and ps: "\<And>p. p \<in> set ps \<Longrightarrow> p < base"
    and move: "pc (base + 2 * k) = PThen (ps ! k) (FAll a k) \<and> out (ps ! k) = Some (Inl e) \<and> out' = out(base + 2 * k \<mapsto> Inl e) \<and> pc' = pc(base + 2 * k := PDone) \<or>
      pc (base + 2 * k) = PCalls [CResolve r] None \<and> out' = out(base + 2 * k \<mapsto> Inr r) \<and> pc' = pc(base + 2 * k := PCalls [] None) \<or>
      pc (base + 2 * k) = PCalls [] None \<and> out' = out \<and> pc' = pc(base + 2 * k := PDone)"
  shows "all_view a base ps out' pc'"
proof -
  let ?t = "base + 2 * k"
  have odd: "base + 2 * j \<noteq> base + 2 * i + 1" "base + 2 * i + 1 \<noteq> base + 2 * j" for i j by presburger+
  have t: "t_view a base ps out pc k" and c: "c_view a base out pc j" if "j < length ps" for j using view k that by (auto simp: all_view_def)
  have pcs: "pc' a = pc a" "\<And>j. j \<noteq> k \<Longrightarrow> pc' (base + 2 * j) = pc (base + 2 * j)" "\<And>j. pc' (base + 2 * j + 1) = pc (base + 2 * j + 1)" "\<And>f. pc' ?t \<noteq> PThen (ps ! k) f"
    using a move odd by auto
  have outs: "out' a = out a" "\<And>p. p \<in> set ps \<Longrightarrow> out' p = out p" "\<And>j. j \<noteq> k \<Longrightarrow> out' (base + 2 * j) = out (base + 2 * j)"
    using a move ps by fastforce+
  have tk: "t_view a base ps out' pc' k" using move t [OF k] outs(2) [of "ps ! k"] k unfolding t_view_def Let_def by auto
  have "t_view a base ps out' pc' j" if "j < length ps" for j
  proof (cases "j = k")
    case False
    have "t_view a base ps out pc j" using view that by (simp add: all_view_def)
    with False pcs outs(2) [of "ps ! j"] outs(3) [of j] that show ?thesis by (simp add: t_view_def)
  qed (use tk in simp)
  moreover have "c_view a base out' pc' j" if "j < length ps" for j
    using c [OF that] pcs(3) [of j] outs(3) [of j] move by (cases "j = k") (auto simp: c_view_def)
  moreover have "a_view a base ps out' pc'"
  proof (rule a_view_change [where a = a and out = out and out' = out' and pc = pc and pc' = pc', OF _ outs(1) pcs(1) outs(2)])
    show "a_view a base ps out pc" using view by (simp add: all_view_def)
    show "(pc' (base + 2 * j) \<noteq> PThen (ps ! j) (FAll a j) \<and> (\<exists>r. out (ps ! j) = Some (Inr r))) =
      (pc (base + 2 * j) \<noteq> PThen (ps ! j) (FAll a j) \<and> (\<exists>r. out (ps ! j) = Some (Inr r)))" if "j < length ps" for j
      using move pcs(2) [of j] pcs(4) by (cases "j = k") auto
    show "out (base + 2 * j) = Some (Inl x) \<and> pc (base + 2 * j + 1) \<noteq> PCatch (base + 2 * j) (CAll a)"
      if "j < length ps" "out' (base + 2 * j) = Some (Inl x)" "pc' (base + 2 * j + 1) \<noteq> PCatch (base + 2 * j) (CAll a)" for j x
      using that move t [OF k] c [OF that(1)] pcs(3) [of j] outs(3) [of j] by (cases "j = k") (auto simp: t_view_def c_view_def Let_def)
  qed
  ultimately show ?thesis by (simp add: all_view_def)
qed

lemma view_c_moves:
  \<comment> \<open>the goroutine by \<open>Catch\<close> goes on without an error to send\<close>
  assumes view: "all_view a base ps out pc" and k: "k < length ps" and a: "a < base" and ps: "\<And>p. p \<in> set ps \<Longrightarrow> p < base"
    and old: "(\<exists>r. out (base + 2 * k) = Some (Inr r)) \<or> pc (base + 2 * k + 1) \<noteq> PCatch (base + 2 * k) (CAll a)" "x = PDone \<or> (\<exists>cs e. x = PCalls cs e)"
    and out': "\<And>j. j \<noteq> base + 2 * k + 1 \<Longrightarrow> out' j = out j"
  shows "all_view a base ps out' (pc(base + 2 * k + 1 := x))"
proof -
  let ?pc = "pc(base + 2 * k + 1 := x)"
  have odd: "base + 2 * j \<noteq> base + 2 * k + 1" for j by presburger
  have outs: "out' a = out a" "\<And>p. p \<in> set ps \<Longrightarrow> out' p = out p" "\<And>j. out' (base + 2 * j) = out (base + 2 * j)" using a ps out' odd by fastforce+
  have pcs: "?pc a = pc a" "\<And>j. ?pc (base + 2 * j) = pc (base + 2 * j)" using a odd by auto
  have c: "c_view a base out pc k" using view k by (simp add: all_view_def)
  have "t_view a base ps out' ?pc j" "c_view a base out' ?pc j" if "j < length ps" for j
  proof -
    have "t_view a base ps out pc j" "c_view a base out pc j" using view that by (auto simp: all_view_def)
    then show "t_view a base ps out' ?pc j" "c_view a base out' ?pc j"
      using pcs(2) outs(2) [of "ps ! j"] outs(3) that old c by (auto simp: t_view_def c_view_def Let_def)
  qed
  moreover have "a_view a base ps out' ?pc"
  proof (rule a_view_change [where a = a and out = out and out' = out' and pc = pc and pc' = ?pc, OF _ outs(1) pcs(1) outs(2)])
    show "a_view a base ps out pc" using view by (simp add: all_view_def)
    show "(?pc (base + 2 * j) \<noteq> PThen (ps ! j) (FAll a j) \<and> (\<exists>r. out (ps ! j) = Some (Inr r))) =
      (pc (base + 2 * j) \<noteq> PThen (ps ! j) (FAll a j) \<and> (\<exists>r. out (ps ! j) = Some (Inr r)))" for j unfolding pcs(2) ..
    show "out (base + 2 * j) = Some (Inl e) \<and> pc (base + 2 * j + 1) \<noteq> PCatch (base + 2 * j) (CAll a)"
      if "out' (base + 2 * j) = Some (Inl e)" "?pc (base + 2 * j + 1) \<noteq> PCatch (base + 2 * j) (CAll a)" for j e
      using that old outs(3) [of j] by (cases "j = k") auto
  qed
  ultimately show ?thesis by (simp add: all_view_def)
qed

lemma view_catch:
  assumes view: "all_view a base ps out pc" and k: "k < length ps" and a: "a < base" and e: "out (base + 2 * k) = Some (Inl e)"
  shows "all_view a base ps out (pc(a := case pc a of PAllRun res n rq eq \<Rightarrow> PAllRun res n rq (eq @ [e]) | x \<Rightarrow> x, base + 2 * k + 1 := PCalls [CReject (Some e)] None))"
proof -
  let ?pc = "pc(a := case pc a of PAllRun res n rq eq \<Rightarrow> PAllRun res n rq (eq @ [e]) | x \<Rightarrow> x, base + 2 * k + 1 := PCalls [CReject (Some e)] None)"
  have pcs: "?pc (base + 2 * j) = pc (base + 2 * j)" "j \<noteq> k \<Longrightarrow> ?pc (base + 2 * j + 1) = pc (base + 2 * j + 1)" "?pc (base + 2 * k + 1) = PCalls [CReject (Some e)] None" for j
    using a by (auto, presburger)
  have p: "out (ps ! k) = Some (Inl e)" using view k e unfolding all_view_def t_view_def by fastforce
  have "t_view a base ps out ?pc j" "c_view a base out ?pc j" if "j < length ps" for j
  proof -
    have v: "t_view a base ps out pc j" "c_view a base out pc j" using view that by (auto simp: all_view_def)
    from v(1) pcs(1) show "t_view a base ps out ?pc j" by (simp only: t_view_def Let_def)
    from v(2) pcs(2) [of j] pcs(3) e show "c_view a base out ?pc j" by (cases "j = k") (auto simp: c_view_def)
  qed
  moreover have "a_view a base ps out pc" using view by (simp add: all_view_def)
  then have "a_view a base ps out ?pc"
  proof (cases rule: a_view_cases)
    case (run res n rq eq D)
    note R = run_viewD [OF run(3)]
    have "run_view a base ps out ?pc res n rq (eq @ [e]) D" unfolding run_view_def
    proof (intro conjI R(1-7))
      show "\<forall>j < length ps. j \<in> D \<union> fst ` set rq \<longleftrightarrow> ?pc (base + 2 * j) \<noteq> PThen (ps ! j) (FAll a j) \<and> (\<exists>r. out (ps ! j) = Some (Inr r))"
        unfolding pcs(1) by (rule R(8))
      show "\<forall>x \<in> set (eq @ [e]). \<exists>p \<in> set ps. out p = Some (Inl x)" using R(9) p k by auto
    qed simp
    with run a show ?thesis by (intro a_viewI(1) [of ?pc a res n rq "eq @ [e]"]) simp_all
  next
    case (ok rs)
    with a show ?thesis by (intro a_viewI(2) [of ps out rs]) auto
  next
    case (failed x)
    with a show ?thesis by (intro a_viewI(3) [of ps out x]) auto
  qed
  ultimately show ?thesis by (simp add: all_view_def)
qed

lemma run_view_complete:
  assumes "run_view a base ps out pc res 0 rq eq D"
  shows "all_ok ps out res"
proof -
  note R = run_viewD [OF assms]
  have "card D = card {..<length ps}" using R(2) by simp
  with R(1) have "D = {..<length ps}" by (simp add: card_subset_eq)
  with R(3,4) show ?thesis by (simp add: all_ok_def)
qed

lemma run_view_receive:
  assumes "run_view a base ps out pc res (Suc n) ((k, v) # rq) eq D"
  shows "run_view a base ps out pc (res[k := v]) n rq eq (insert k D)"
proof -
  note R = run_viewD [OF assms]
  have k: "k < length ps" "out (ps ! k) = Some (Inr v)" "k \<notin> D" using R(6,7) by auto
  have "finite D" using R(1) finite_subset by blast
  then have c: "card (insert k D) + n = length ps" using R(2) k(3) by simp
  have taken: "\<forall>j \<in> insert k D. out (ps ! j) = Some (Inr (res[k := v] ! j))"
  proof
    fix j assume "j \<in> insert k D"
    then show "out (ps ! j) = Some (Inr (res[k := v] ! j))" using R(3,4) k by (cases "j = k") auto
  qed
  show ?thesis unfolding run_view_def
  proof (intro conjI c taken R(9,10))
    show "insert k D \<subseteq> {..<length ps}" "length (res[k := v]) = length ps" "distinct (map fst rq)" "\<forall>(j, w) \<in> set rq. j < length ps \<and> out (ps ! j) = Some (Inr w)"
      using R(1,3,5,7) k(1) by auto
    show "fst ` set rq \<inter> insert k D = {}" using R(5,6) by auto
    show "\<forall>j < length ps. j \<in> insert k D \<union> fst ` set rq \<longleftrightarrow> pc (base + 2 * j) \<noteq> PThen (ps ! j) (FAll a j) \<and> (\<exists>r. out (ps ! j) = Some (Inr r))"
      using R(8) by auto
  qed
qed

lemma view_a_moves:
  assumes view: "all_view a base ps out pc" and a: "a < base" and ps: "\<And>p. p \<in> set ps \<Longrightarrow> p < a"
    and out': "\<And>j. j \<noteq> a \<Longrightarrow> out' j = out j" and pc': "\<And>j. j \<noteq> a \<Longrightarrow> pc' j = pc j"
    and move: "(\<exists>res n rq eq D. pc' a = PAllRun res n rq eq \<and> out' a = None \<and> run_view a base ps out pc res n rq eq D) \<or>
      (\<exists>rs. all_ok ps out rs \<and> (pc' a = PCalls [CResolve (AList rs)] None \<and> out' a = None \<or> pc' a \<in> {PCalls [] None, PDone} \<and> out' a = Some (Inr (AList rs)))) \<or>
      (\<exists>e. (\<exists>p \<in> set ps. out p = Some (Inl e)) \<and> (pc' a = PCalls [CReject (Some e)] None \<and> out' a = None \<or> pc' a \<in> {PCalls [] None, PDone} \<and> out' a = Some (Inl e)))"
  shows "all_view a base ps out' pc'"
proof -
  have outs: "\<And>p. p \<in> set ps \<Longrightarrow> out' p = out p" "\<And>j. out' (base + 2 * j) = out (base + 2 * j)" using ps out' a by fastforce+
  have pcs: "\<And>j. pc' (base + 2 * j) = pc (base + 2 * j)" "\<And>j. pc' (base + 2 * j + 1) = pc (base + 2 * j + 1)" using pc' a by fastforce+
  have "t_view a base ps out' pc' j" "c_view a base out' pc' j" if "j < length ps" for j
    using view that outs(1) [of "ps ! j"] unfolding all_view_def t_view_def c_view_def outs(2) pcs Let_def by simp_all
  moreover have nth: "out' (ps ! j) = out (ps ! j)" if "j < length ps" for j using outs(1) that by simp
  have "run_view a base ps out' pc' res n rq eq D" if "run_view a base ps out pc res n rq eq D" for res n rq eq D
  proof -
    note R = run_viewD [OF that]
    have 4: "\<forall>k \<in> D. out' (ps ! k) = Some (Inr (res ! k))" using R(1,4) nth by (simp add: subset_iff)
    have 7: "\<forall>(k, v) \<in> set rq. k < length ps \<and> out' (ps ! k) = Some (Inr v)" using R(7) nth by fastforce
    have 8: "\<forall>k < length ps. k \<in> D \<union> fst ` set rq \<longleftrightarrow> pc' (base + 2 * k) \<noteq> PThen (ps ! k) (FAll a k) \<and> (\<exists>r. out' (ps ! k) = Some (Inr r))" using R(8) nth pcs(1) by simp
    have 9: "\<forall>e \<in> set eq. \<exists>p \<in> set ps. out' p = Some (Inl e)" using R(9) outs(1) by metis
    show ?thesis unfolding run_view_def pcs(2) outs(2) by (intro conjI R(1-3,5,6,10) 4 7 8 9)
  qed
  moreover have "all_ok ps out' rs" if "all_ok ps out rs" for rs using that nth by (simp add: all_ok_def)
  moreover have "\<exists>p \<in> set ps. out' p = Some (Inl e)" if "\<exists>p \<in> set ps. out p = Some (Inl e)" for e using that outs(1) by metis
  ultimately show ?thesis using move unfolding all_view_def a_view_def by (elim disjE exE conjE) (blast+)?
qed

text \<open>The goroutines that \<open>All\<close> starts, and what a step does to what the others have still to do.\<close>

definition pcs :: "'v p_sys \<Rightarrow> nat \<Rightarrow> 'v p_pc" where
  "pcs s j = snd (s ! j)"

lemma pcs_upd: "i < length s \<Longrightarrow> pcs (s[i := (x, pc)]) = (pcs s)(i := pc)"
  by (auto simp: pcs_def fun_eq_iff)

lemma pcs_upd_same [simp]: "pcs (s[i := (x, snd (s ! i))]) = pcs s"
  by (cases "i < length s") (simp_all add: pcs_upd pcs_def fun_eq_iff list_update_beyond)

lemma pcs_ops [simp]:
  "i < length s \<Longrightarrow> pcs (set_pc i pc s) = (pcs s)(i := pc)" "pcs (p_reject i e s) = pcs s"
  "a < length s \<Longrightarrow> pcs (send_resolution a r s) = (pcs s)(a := case pcs s a of PAllRun res n rq eq \<Rightarrow> PAllRun res n (rq @ [r]) eq | x \<Rightarrow> x)"
  "a < length s \<Longrightarrow> pcs (send_error a e' s) = (pcs s)(a := case pcs s a of PAllRun res n rq eq \<Rightarrow> PAllRun res n rq (eq @ [e']) | x \<Rightarrow> x)"
  by (auto simp: set_pc_def pcs_upd p_reject_def send_resolution_def send_error_def case_prod_beta Let_def pcs_def fun_upd_idem split: p_pc.splits)

lemma spawn_all:
  "length (all_spawn a k ps s) = length s + 2 * length ps \<and> p_outcome (all_spawn a k ps s) = p_outcome s \<and>
   (\<forall>m < length ps. pcs (all_spawn a k ps s) (length s + 2 * m) = PThen (ps ! m) (FAll a (k + m)) \<and>
     pcs (all_spawn a k ps s) (length s + 2 * m + 1) = PCatch (length s + 2 * m) (CAll a))"
proof (induction ps arbitrary: k s)
  case (Cons p ps)
  let ?s = "snd (p_New (PCatch (length s) (CAll a)) (snd (p_New (PThen p (FAll a k)) s)))"
  have eq: "all_spawn a k (p # ps) s = all_spawn a (Suc k) ps ?s" by (simp add: p_New_def Let_def)
  have out: "p_outcome ?s = p_outcome s" by (simp add: outcome_New)
  have len: "length ?s = length s + 2" and new: "pcs ?s (length s) = PThen p (FAll a k)" "pcs ?s (length s + 1) = PCatch (length s) (CAll a)"
    by (auto simp: p_New_def pcs_def nth_append)
  have old: "pcs (all_spawn a (Suc k) ps ?s) j = pcs ?s j" if "j < length s + 2" for j using that len by (simp add: pcs_def)
  have "pcs (all_spawn a k (p # ps) s) (length s + 2 * m) = PThen ((p # ps) ! m) (FAll a (k + m)) \<and>
     pcs (all_spawn a k (p # ps) s) (length s + 2 * m + 1) = PCatch (length s + 2 * m) (CAll a)" if "m < length (p # ps)" for m
  proof (cases m)
    case 0
    with old [of "length s"] old [of "length s + 1"] new show ?thesis unfolding eq by simp
  next
    case (Suc m')
    with that Cons [of "Suc k" ?s] show ?thesis unfolding eq len by auto
  qed
  moreover have "length (all_spawn a k (p # ps) s) = length s + 2 * length (p # ps)" using Cons [of "Suc k" ?s] unfolding eq len by simp
  moreover have "p_outcome (all_spawn a k (p # ps) s) = p_outcome s" using Cons [of "Suc k" ?s] unfolding eq out by blast
  ultimately show ?case by blast
qed simp

lemma spawn_nth:
  "length (all_spawn a k ps s) = length s + 2 * length ps" "p_outcome (all_spawn a k ps s) = p_outcome s"
  "m < length ps \<Longrightarrow> pcs (all_spawn a k ps s) (length s + 2 * m) = PThen (ps ! m) (FAll a (k + m))"
  "m < length ps \<Longrightarrow> pcs (all_spawn a k ps s) (length s + 2 * m + 1) = PCatch (length s + 2 * m) (CAll a)"
  using spawn_all [of a k ps s] by blast+

lemma step_pcs:
  assumes "i < length s" and "j < length s"
  shows "pcs (p_step i b s) j = pcs s j \<or> (\<exists>cs e. pcs (p_step i b s) j = PCalls cs e) \<or> pcs (p_step i b s) j = PDone \<or> (\<exists>res n rq eq. pcs (p_step i b s) j = PAllRun res n rq eq)"
    and "j \<noteq> i \<Longrightarrow> \<forall>res n rq eq. pcs s j \<noteq> PAllRun res n rq eq \<Longrightarrow> pcs (p_step i b s) j = pcs s j"
    and "\<forall>ps. pcs s i \<noteq> PAllStart ps \<Longrightarrow> length (p_step i b s) = length s"
proof -
  note splits = p_pc.splits p_call.splits list.splits option.splits prod.splits fulfillment.splits rejection.splits fn_result.splits catch_result.splits
  have sent: "snd (send_resolution a r s ! j) = snd (s ! j) \<or> (\<exists>res n rq eq. snd (send_resolution a r s ! j) = PAllRun res n rq eq)"
    "snd (send_error a e s ! j) = snd (s ! j) \<or> (\<exists>res n rq eq. snd (send_error a e s ! j) = PAllRun res n rq eq)" for a r e
    using assms(2) by (auto simp: send_resolution_def send_error_def split: p_pc.splits)
  have kept: "snd (send_resolution a r s ! j) = snd (s ! j)" "snd (send_error a e s ! j) = snd (s ! j)" if "\<forall>res n rq eq. snd (s ! j) \<noteq> PAllRun res n rq eq" for a r e
    using assms(2) that by (auto simp: send_resolution_def send_error_def split: p_pc.splits)
  show "pcs (p_step i b s) j = pcs s j \<or> (\<exists>cs e. pcs (p_step i b s) j = PCalls cs e) \<or> pcs (p_step i b s) j = PDone \<or> (\<exists>res n rq eq. pcs (p_step i b s) j = PAllRun res n rq eq)"
    using assms
    by (cases "j = i") (auto simp: pcs_def p_step_def then_step_def catch_step_def handlePanic_def length_resolve resolve_nth split: splits, (metis sent)+)
  show "pcs (p_step i b s) j = pcs s j" if "j \<noteq> i" "\<forall>res n rq eq. pcs s j \<noteq> PAllRun res n rq eq"
    using that assms by (auto simp: pcs_def p_step_def then_step_def catch_step_def handlePanic_def length_resolve resolve_nth kept split: splits)
  show "length (p_step i b s) = length s" if "\<forall>ps. pcs s i \<noteq> PAllStart ps"
    using that by (auto simp: pcs_def p_step_def then_step_def catch_step_def length_resolve split: splits)
qed

lemma step_start:
  assumes "i < length s" and "pcs s i = PAllStart ps"
  shows "p_step i b s = set_pc i (PAllRun (replicate (length ps) ANil) (length ps) [] []) (all_spawn i 0 ps s)"
  using assms by (simp add: pcs_def p_step_def)

definition all_refs :: "nat \<Rightarrow> 'v p_pc \<Rightarrow> bool" where
  \<comment> \<open>a goroutine that \<open>a\<close> has started\<close>
  "all_refs a pc \<longleftrightarrow> (\<exists>p k. pc = PThen p (FAll a k)) \<or> (\<exists>q. pc = PCatch q (CAll a))"

lemma pc_origin:
  assumes "i < length s" and "j < length (p_step i b s)" and "all_refs a (pcs (p_step i b s) j)"
  shows "j < length s \<and> pcs (p_step i b s) j = pcs s j \<or> i = a \<and> length s \<le> j \<and> (\<exists>ps. pcs s i = PAllStart ps)"
proof (cases "j < length s")
  case True
  with step_pcs(1) [OF assms(1) True, of b] assms(3) show ?thesis by (auto simp: all_refs_def)
next
  case False
  with assms(2) step_pcs(3) [OF assms(1) assms(1), of b] obtain ps where ps: "pcs s i = PAllStart ps" by force
  note st = step_start [OF assms(1) ps, of b]
  from assms(2) False have "j - length s < 2 * length ps" by (simp add: st spawn_nth)
  define m where "m = (j - length s) div 2"
  have m: "m < length ps" "j = length s + 2 * m \<or> j = length s + 2 * m + 1" using \<open>j - length s < 2 * length ps\<close> False unfolding m_def by presburger+
  have "pcs (p_step i b s) j = pcs (all_spawn i 0 ps s) j" unfolding st using assms(1) False by (simp add: spawn_nth)
  with m spawn_nth(3,4) [of m ps i 0 s] assms(3) have "i = a" by (auto simp: all_refs_def)
  with False ps show ?thesis by auto
qed

definition all_started :: "nat \<Rightarrow> nat list \<Rightarrow> 'v p_sys \<Rightarrow> bool" where
  "all_started a ps s \<longleftrightarrow> a < length s \<and> pcs s a = PAllStart ps \<and> p_outcome s a = None \<and> (\<forall>j < length s. \<not> all_refs a (pcs s j))"

definition all_running :: "nat \<Rightarrow> nat list \<Rightarrow> nat \<Rightarrow> 'v p_sys \<Rightarrow> bool" where
  "all_running a ps base s \<longleftrightarrow>
     a < base \<and> base + 2 * length ps \<le> length s \<and> all_view a base ps (p_outcome s) (pcs s) \<and>
     (\<forall>j < length s. all_refs a (pcs s j) \<longrightarrow> base \<le> j \<and> j < base + 2 * length ps)"

lemma view_pcs:
  assumes "all_view a base ps out pc"
  shows "pc a \<noteq> PAllStart qs" and "k < length ps \<Longrightarrow> pc (base + 2 * k) \<noteq> PAllRun res n rq eq" and "k < length ps \<Longrightarrow> pc (base + 2 * k + 1) \<noteq> PAllRun res n rq eq"
  using assms by (auto simp: all_view_def a_view_def t_view_def c_view_def Let_def)

lemma outcome_other: "i < length s \<Longrightarrow> j < length s \<Longrightarrow> j \<noteq> i \<Longrightarrow> p_outcome (p_step i b s) j = p_outcome s j"
  using step_frame(1,2) [of i s j b] by (auto simp: p_outcome_def p_Await_def)

lemma outcome_le: "i < length s \<Longrightarrow> p_outcome s \<subseteq>\<^sub>m p_outcome (p_step i b s)"
  by (auto simp: map_le_def outcome_stable)

lemma refs_step:
  assumes "i < length s" and "i = a \<longrightarrow> (\<forall>ps. pcs s a \<noteq> PAllStart ps)" and "\<forall>j < length s. all_refs a (pcs s j) \<longrightarrow> P j"
  shows "\<forall>j < length (p_step i b s). all_refs a (pcs (p_step i b s) j) \<longrightarrow> P j"
  using pc_origin [OF assms(1), of _ b a] assms(2,3) by metis

lemma started_step:
  assumes "all_started a ps s" and "i < length s"
  shows "if i = a then all_running a ps (length s) (p_step i b s) else all_started a ps (p_step i b s)"
proof (cases "i = a")
  case True
  note S = assms(1) [unfolded all_started_def]
  let ?base = "length s" and ?pc = "(pcs (all_spawn a 0 ps s))(a := PAllRun (replicate (length ps) ANil) (length ps) [] [])"
  have st: "p_step i b s = set_pc a (PAllRun (replicate (length ps) ANil) (length ps) [] []) (all_spawn a 0 ps s)"
    using S True step_start [of a s ps b] by simp
  have pc: "pcs (p_step i b s) = ?pc" and out: "p_outcome (p_step i b s) = p_outcome s" and len: "length (p_step i b s) = ?base + 2 * length ps"
    using S by (simp_all add: st spawn_nth)
  have none: "p_outcome s j = None" if "?base \<le> j" for j using that by (simp add: p_outcome_def p_Await_def)
  have new: "?pc (?base + 2 * k) = PThen (ps ! k) (FAll a k)" "?pc (?base + 2 * k + 1) = PCatch (?base + 2 * k) (CAll a)" if "k < length ps" for k
    using that S by (simp_all add: spawn_nth spawn_nth(4) [simplified])
  have "run_view a ?base ps (p_outcome s) ?pc (replicate (length ps) ANil) (length ps) [] [] {}"
    unfolding run_view_def using new(1) by (simp add: none)
  then have "a_view a ?base ps (p_outcome s) ?pc" using S by (intro a_viewI(1)) simp_all
  then have "all_view a ?base ps (p_outcome s) ?pc" using new none by (simp add: all_view_def t_view_def c_view_def)
  moreover have "?base \<le> j \<and> j < ?base + 2 * length ps" if "j < length (p_step i b s)" "all_refs a (pcs (p_step i b s) j)" for j
    using pc_origin [OF assms(2) that] S that len by auto
  ultimately show ?thesis using True S len pc out by (simp add: all_running_def)
next
  case False
  note S = assms(1) [unfolded all_started_def]
  have "\<forall>j < length (p_step i b s). all_refs a (pcs (p_step i b s) j) \<longrightarrow> False" by (rule refs_step) (use assms(2) False S in auto)
  moreover have "a < length (p_step i b s)" using step_frame(1) [OF assms(2,2), of b] S by simp
  moreover have "pcs (p_step i b s) a = PAllStart ps" using step_pcs(2) [OF assms(2), of a b] S False by simp
  ultimately show ?thesis using False S outcome_other [OF assms(2), of a b] by (simp add: all_started_def)
qed

lemma view_other:
  assumes "all_running a ps base s" and i: "i < length s" "i \<noteq> a" "\<not> (base \<le> i \<and> i < base + 2 * length ps)"
  shows "all_view a base ps (p_outcome (p_step i b s)) (pcs (p_step i b s))"
proof (rule all_view_mono)
  note R = assms(1) [unfolded all_running_def]
  from R show view: "all_view a base ps (p_outcome s) (pcs s)" by simp
  show "p_outcome s \<subseteq>\<^sub>m p_outcome (p_step i b s)" using i(1) by (rule outcome_le)
  show "p_outcome (p_step i b s) a = p_outcome s a" using outcome_other [OF i(1)] R i by simp
  have "\<not> all_refs a (pcs s i)" using R i by blast
  then show "pcs (p_step i b s) a = pcs s a" using step_frame(3) [OF i(1), of a b] R i by (auto simp: all_refs_def pcs_def)
  show "p_outcome (p_step i b s) (base + 2 * k) = p_outcome s (base + 2 * k) \<and> pcs (p_step i b s) (base + 2 * k) = pcs s (base + 2 * k) \<and>
      pcs (p_step i b s) (base + 2 * k + 1) = pcs s (base + 2 * k + 1)" if k: "k < length ps" for k
  proof -
    have "base + 2 * k < length s" "base + 2 * k + 1 < length s" "base + 2 * k \<noteq> i" "base + 2 * k + 1 \<noteq> i" using k R i by auto
    then show ?thesis using outcome_other [OF i(1)] step_pcs(2) [OF i(1)] view_pcs(2,3) [OF view k] by simp
  qed
qed

lemma await_outcome:
  "p_Await p s = None \<longleftrightarrow> p_outcome s p = None" "p_Await p s = Some (r, None) \<Longrightarrow> p_outcome s p = Some (Inr r)" "p_Await p s = Some (r, Some e) \<Longrightarrow> p_outcome s p = Some (Inl e)"
  by (simp_all add: p_outcome_def)

lemma resolve_step:
  assumes "flat s" and "i < length s" and "p_outcome s i = None" and "pcs s i = PCalls (CResolve v # cs) e" and "\<forall>q. v \<noteq> AProm q"
  shows "p_outcome (p_step i b s) = (p_outcome s)(i \<mapsto> Inr v) \<and> pcs (p_step i b s) = (pcs s)(i := PCalls cs e)"
proof -
  obtain s' where s': "p_resolve i v s = Some s'" "p_outcome s' = (p_outcome s)(i \<mapsto> Inr v)" "length s' = length s"
    using outcome_resolve [OF assms(1-3,5)] by metis
  moreover have "pcs s' = pcs s"
    using s'(1) by (auto simp: p_resolve_def case_prod_beta Let_def split: if_splits any.splits bind_splits option.splits)
  ultimately show ?thesis using assms(2,4) by (simp add: p_step_def pcs_def [symmetric])
qed

lemma view_a_step:
  assumes run: "all_running a ps base s" and "flat s" and ps: "\<And>p. p \<in> set ps \<Longrightarrow> p < a"
  shows "all_view a base ps (p_outcome (p_step a b s)) (pcs (p_step a b s))"
proof -
  note R = run [unfolded all_running_def]
  have a: "a < base" "a < length s" and view: "all_view a base ps (p_outcome s) (pcs s)" using R by auto
  have av: "a_view a base ps (p_outcome s) (pcs s)" using view by (simp add: all_view_def)
  note move = view_a_moves [OF view a(1) ps]
  from av show ?thesis
  proof (cases rule: a_view_cases)
    case (run res n rq eq D)
    note V = run(3) and out = run(2)
    have st: "p_step a b s = (if n = 0 then set_pc a (PCalls [CResolve (AList res)] None) s
        else case (rq, eq) of
          ([], []) \<Rightarrow> s
        | ((k, v) # rq', []) \<Rightarrow> set_pc a (PAllRun (res[k := v]) (n - 1) rq' eq) s
        | ([], e # eq') \<Rightarrow> set_pc a (PCalls [CReject (Some e)] None) s
        | ((k, v) # rq', e # eq') \<Rightarrow> if b then set_pc a (PAllRun (res[k := v]) (n - 1) rq' eq) s else set_pc a (PCalls [CReject (Some e)] None) s)"
      using run(1) by (simp add: p_step_def pcs_def)
    have finish: ?thesis if "n = 0" "p_step a b s = set_pc a (PCalls [CResolve (AList res)] None) s"
      using run_view_complete [of a base ps "p_outcome s" "pcs s" res rq eq D] V that a out by (intro move) auto
    have receive: ?thesis if "n \<noteq> 0" "rq = (k, v) # rq'" "p_step a b s = set_pc a (PAllRun (res[k := v]) (n - 1) rq' eq) s" for k v rq'
    proof -
      have "run_view a base ps (p_outcome s) (pcs s) (res[k := v]) (n - 1) rq' eq (insert k D)"
        using V that(1,2) run_view_receive [of a base ps "p_outcome s" "pcs s" res "n - 1" k v rq' eq D] by simp
      with that(3) a out show ?thesis by (intro move) auto
    qed
    have fail: ?thesis if "eq = e # eq'" "p_step a b s = set_pc a (PCalls [CReject (Some e)] None) s" for e eq'
    proof -
      have "\<exists>p \<in> set ps. p_outcome s p = Some (Inl e)" using run_viewD(9) [OF V] that(1) by simp
      with that(2) a out show ?thesis by (intro move) auto
    qed
    have "n = 0 \<and> p_step a b s = set_pc a (PCalls [CResolve (AList res)] None) s \<or> p_step a b s = s \<or>
        n \<noteq> 0 \<and> (\<exists>k v rq'. rq = (k, v) # rq' \<and> p_step a b s = set_pc a (PAllRun (res[k := v]) (n - 1) rq' eq) s) \<or>
        (\<exists>e eq'. eq = e # eq' \<and> p_step a b s = set_pc a (PCalls [CReject (Some e)] None) s)"
      unfolding st by (auto split: list.split prod.split)
    with finish receive fail view show ?thesis by metis
  next
    case (ok rs)
    from ok(2) show ?thesis
    proof (elim disjE conjE)
      assume o: "pcs s a = PCalls [CResolve (AList rs)] None" "p_outcome s a = None"
      have "p_outcome (p_step a b s) = (p_outcome s)(a \<mapsto> Inr (AList rs)) \<and> pcs (p_step a b s) = (pcs s)(a := PCalls [] None)"
        using resolve_step [OF assms(2) a(2) o(2,1)] by simp
      with ok(1) show ?thesis by (intro move) auto
    next
      assume o: "pcs s a \<in> {PCalls [] None, PDone}" "p_outcome s a = Some (Inr (AList rs))"
      then have "p_outcome (p_step a b s) = p_outcome s" "pcs (p_step a b s) = (pcs s)(a := PDone)"
        using a by (auto simp: p_step_def pcs_def [symmetric] handlePanic_def fun_upd_idem)
      with o ok(1) show ?thesis by (intro move) auto
    qed
  next
    case (failed e)
    from failed(2) show ?thesis
    proof (elim disjE conjE)
      assume o: "pcs s a = PCalls [CReject (Some e)] None" "p_outcome s a = None"
      then have "p_outcome (p_step a b s) = (p_outcome s)(a \<mapsto> Inl e)" "pcs (p_step a b s) = (pcs s)(a := PCalls [] None)"
        using a by (simp_all add: p_step_def pcs_def [symmetric] outcome_reject)
      with failed(1) show ?thesis by (intro move) auto
    next
      assume o: "pcs s a \<in> {PCalls [] None, PDone}" "p_outcome s a = Some (Inl e)"
      then have "p_outcome (p_step a b s) = p_outcome s" "pcs (p_step a b s) = (pcs s)(a := PDone)"
        using a by (auto simp: p_step_def pcs_def [symmetric] handlePanic_def fun_upd_idem)
      with o failed(1) show ?thesis by (intro move) auto
    qed
  qed
qed

lemma view_t_step:
  assumes run: "all_running a ps base s" and "flat s" and ps: "\<And>p. p \<in> set ps \<Longrightarrow> p < a" and k: "k < length ps"
  shows "all_view a base ps (p_outcome (p_step (base + 2 * k) b s)) (pcs (p_step (base + 2 * k) b s))"
proof -
  let ?t = "base + 2 * k"
  note R = run [unfolded all_running_def]
  have a: "a < base" "a < length s" "?t < length s" and view: "all_view a base ps (p_outcome s) (pcs s)" using R k by auto
  have ps': "\<And>p. p \<in> set ps \<Longrightarrow> p < base" using ps a by fastforce
  note moves = view_t_moves [OF view k a(1) ps']
  have "t_view a base ps (p_outcome s) (pcs s) k" using view k by (simp add: all_view_def)
  then consider (waiting) "pcs s ?t = PThen (ps ! k) (FAll a k)" "p_outcome s ?t = None"
    | (resolving) r where "pcs s ?t = PCalls [CResolve r] None" "p_outcome s ?t = None" "\<forall>q. r \<noteq> AProm q"
    | (ending) "pcs s ?t = PCalls [] None" | (ended) "pcs s ?t = PDone"
    unfolding t_view_def Let_def insert_iff empty_iff by (elim disjE exE conjE) metis+
  then show ?thesis
  proof cases
    case waiting
    then have st: "p_step ?t b s = then_step ?t (ps ! k) (FAll a k) s" by (simp add: p_step_def pcs_def)
    show ?thesis
    proof (cases "p_Await (ps ! k) s")
      case (Some x)
      obtain r e where x: "x = (r, e)" by (cases x)
      show ?thesis
      proof (cases e)
        case None
        have r: "p_outcome s (ps ! k) = Some (Inr r)" "\<forall>q. r \<noteq> AProm q"
          using Some x None \<open>flat s\<close> by (auto simp: p_outcome_def p_Await_def flat_def flat_pr_def split: if_splits)
        from view_then [OF view k a(1) ps' waiting(1) r] show ?thesis using Some x None a by (simp add: st then_step_def)
      next
        case (Some e')
        with \<open>p_Await (ps ! k) s = Some x\<close> x have "p_outcome s (ps ! k) = Some (Inl e')" by (simp add: await_outcome)
        moreover have "p_outcome (p_step ?t b s) = (p_outcome s)(?t \<mapsto> Inl e')" "pcs (p_step ?t b s) = (pcs s)(?t := PDone)"
          using Some x \<open>p_Await (ps ! k) s = Some x\<close> a waiting(2) by (simp_all add: st then_step_def outcome_reject)
        ultimately show ?thesis using waiting by (intro moves [where e = e']) auto
      qed
    qed (use view in \<open>simp add: st then_step_def\<close>)
  next
    case (resolving r)
    from resolve_step [OF \<open>flat s\<close> a(3) resolving(2,1,3)] resolving show ?thesis by (intro moves [where r = r]) auto
  next
    case ending
    then have "p_outcome (p_step ?t b s) = p_outcome s" "pcs (p_step ?t b s) = (pcs s)(?t := PDone)" using a by (simp_all add: p_step_def pcs_def [symmetric] handlePanic_def)
    with ending show ?thesis by (intro moves) auto
  next
    case ended
    from ended have "p_step ?t b s = s" by (simp add: p_step_def pcs_def)
    with view show ?thesis by simp
  qed
qed

lemma calling_step:
  assumes "i < length s" and "pcs s i = PCalls cs x"
  shows "pcs (p_step i b s) = (pcs s)(i := pcs (p_step i b s) i) \<and> (pcs (p_step i b s) i = PDone \<or> (\<exists>cs e. pcs (p_step i b s) i = PCalls cs e))"
proof (cases cs)
  case Nil
  then show ?thesis using assms by (simp add: p_step_def pcs_def [symmetric] handlePanic_def split: option.split)
next
  case (Cons c cs')
  show ?thesis
  proof (cases c)
    case (CResolve v)
    have same: "pcs s' = pcs s" if "p_resolve i v s = Some s'" for s'
      using that by (auto simp: p_resolve_def case_prod_beta Let_def split: if_splits any.splits bind_splits option.splits)
    from Cons CResolve assms show ?thesis by (auto simp: p_step_def pcs_def [symmetric] same length_resolve split: option.split)
  next
    case (CReject e)
    from Cons CReject assms show ?thesis by (simp add: p_step_def pcs_def [symmetric])
  qed
qed

lemma view_c_step:
  assumes run: "all_running a ps base s" and ps: "\<And>p. p \<in> set ps \<Longrightarrow> p < a" and k: "k < length ps"
  shows "all_view a base ps (p_outcome (p_step (base + 2 * k + 1) b s)) (pcs (p_step (base + 2 * k + 1) b s))"
proof -
  let ?c = "base + 2 * k + 1"
  note R = run [unfolded all_running_def]
  have a: "a < base" "a < length s" "?c < length s" and view: "all_view a base ps (p_outcome s) (pcs s)" using R k by auto
  have ps': "\<And>p. p \<in> set ps \<Longrightarrow> p < base" using ps a by fastforce
  have others: "p_outcome (p_step ?c b s) j = p_outcome s j" if "j \<noteq> ?c" "\<forall>ps. pcs s ?c \<noteq> PAllStart ps" for j
    using outcome_other [OF a(3), of j b] that step_pcs(3) [OF a(3,3)] by (cases "j < length s") (auto simp: p_outcome_def p_Await_def)
  note moves = view_c_moves [OF view k a(1) ps']
  have "c_view a base (p_outcome s) (pcs s) k" using view k by (simp add: all_view_def)
  then consider (waiting) "pcs s ?c = PCatch (base + 2 * k) (CAll a)" | (ended) "pcs s ?c = PDone" | (calling) cs x where "pcs s ?c = PCalls cs x"
    unfolding c_view_def by blast
  then show ?thesis
  proof cases
    case waiting
    then have st: "p_step ?c b s = catch_step ?c (base + 2 * k) (CAll a) s" by (simp add: p_step_def pcs_def)
    show ?thesis
    proof (cases "p_Await (base + 2 * k) s")
      case (Some x)
      obtain r e where x: "x = (r, e)" by (cases x)
      show ?thesis
      proof (cases e)
        case None
        with Some x have "p_outcome s (base + 2 * k) = Some (Inr r)" "p_step ?c b s = set_pc ?c (PCalls [CResolve r] None) s"
          unfolding st by (simp_all add: await_outcome catch_step_def)
        then show ?thesis using a(3) moves [of "PCalls [CResolve r] None" "p_outcome s"] by simp
      next
        case (Some e')
        with \<open>p_Await (base + 2 * k) s = Some x\<close> x have "p_outcome s (base + 2 * k) = Some (Inl e')" by (simp add: await_outcome)
        from view_catch [OF view k a(1) this] show ?thesis unfolding st using Some x \<open>p_Await (base + 2 * k) s = Some x\<close> a by (simp add: catch_step_def)
      qed
    qed (use view in \<open>simp add: st [simplified] catch_step_def\<close>)
  next
    case ended
    then have "p_step ?c b s = s" by (simp add: p_step_def pcs_def)
    with view show ?thesis by simp
  next
    case (calling cs x)
    have "pcs (p_step ?c b s) = (pcs s)(?c := pcs (p_step ?c b s) ?c) \<and> (pcs (p_step ?c b s) ?c = PDone \<or> (\<exists>cs e. pcs (p_step ?c b s) ?c = PCalls cs e))"
      using calling_step [OF a(3) calling] .
    with moves [of "pcs (p_step ?c b s) ?c" "p_outcome (p_step ?c b s)"] calling others show ?thesis by simp
  qed
qed

lemma running_step:
  assumes run: "all_running a ps base s" and "flat s" and ps: "\<And>p. p \<in> set ps \<Longrightarrow> p < a" and i: "i < length s"
  shows "all_running a ps base (p_step i b s)"
proof -
  note R = run [unfolded all_running_def]
  have "all_view a base ps (p_outcome (p_step i b s)) (pcs (p_step i b s))"
  proof (cases "base \<le> i \<and> i < base + 2 * length ps")
    case True
    define k where "k = (i - base) div 2"
    have k: "k < length ps" "i = base + 2 * k \<or> i = base + 2 * k + 1" using True unfolding k_def by presburger+
    then show ?thesis using view_t_step [OF run \<open>flat s\<close> ps k(1)] view_c_step [OF run ps k(1)] by blast
  next
    case False
    then show ?thesis using view_other [OF run i _ False] view_a_step [OF run \<open>flat s\<close> ps] by blast
  qed
  moreover have "\<forall>j < length (p_step i b s). all_refs a (pcs (p_step i b s) j) \<longrightarrow> base \<le> j \<and> j < base + 2 * length ps"
    by (rule refs_step [OF i]) (use R view_pcs(1) [of a base ps "p_outcome s" "pcs s"] in auto)
  ultimately show ?thesis using R step_frame(1) [OF i i, of b] by (simp add: all_running_def)
qed

definition all_phase :: "nat \<Rightarrow> nat list \<Rightarrow> 'v p_sys \<Rightarrow> bool" where
  "all_phase a ps s \<longleftrightarrow> all_started a ps s \<or> (\<exists>base. all_running a ps base s)"

lemma refs_New:
  assumes "user_pc pc" and "\<forall>j < length s. all_refs a (pcs s j) \<longrightarrow> P j"
  shows "\<forall>j < length (snd (p_New pc s)). all_refs a (pcs (snd (p_New pc s)) j) \<longrightarrow> P j"
  using assms by (cases pc rule: user_pc.cases) (auto simp: p_New_def pcs_def nth_append less_Suc_eq all_refs_def)

lemma pcs_New: "j < length s \<Longrightarrow> pcs (snd (p_New pc s)) j = pcs s j" "length (snd (p_New pc s)) = Suc (length s)"
  by (simp_all add: p_New_def pcs_def nth_append)

lemma phase_New:
  assumes "all_phase a ps s" and "user_pc pc"
  shows "all_phase a ps (snd (p_New pc s))"
  using assms(1) unfolding all_phase_def
proof (elim disjE exE)
  assume "all_started a ps s"
  then have "all_started a ps (snd (p_New pc s))"
    using refs_New [OF assms(2), of s a "\<lambda>_. False"] by (simp add: all_started_def pcs_New outcome_New)
  then show "all_started a ps (snd (p_New pc s)) \<or> (\<exists>base. all_running a ps base (snd (p_New pc s)))" ..
next
  fix base assume run: "all_running a ps base s"
  note R = run [unfolded all_running_def]
  have "all_view a base ps (p_outcome (snd (p_New pc s))) (pcs (snd (p_New pc s)))"
    by (rule all_view_mono [of a base ps "p_outcome s" "pcs s"]) (use R in \<open>auto simp: pcs_New outcome_New\<close>)
  then have "all_running a ps base (snd (p_New pc s))"
    using R refs_New [OF assms(2), of s a "\<lambda>j. base \<le> j \<and> j < base + 2 * length ps"] by (simp add: all_running_def pcs_New)
  then show "all_started a ps (snd (p_New pc s)) \<or> (\<exists>base. all_running a ps base (snd (p_New pc s)))" by blast
qed

lemma phase_more:
  assumes "p_more s s'" and "all_phase a ps s" and "flat s" and "\<And>p. p \<in> set ps \<Longrightarrow> p < a"
  shows "all_phase a ps s'"
  using assms
proof (induction rule: p_more.induct)
  case (step s s' i b)
  then have ph: "all_phase a ps s'" and fl: "flat s'" by (auto intro: p_more_flat)
  from ph show ?case unfolding all_phase_def
    using started_step [of a ps s' i b] running_step [OF _ fl step(6)] step(2) by (metis (full_types))
qed (auto intro: phase_New)

lemma refs_below:
  assumes "p_more s s'" and "\<forall>a \<ge> length s. \<forall>j < length s. \<not> all_refs a (pcs s j)"
  shows "\<forall>a \<ge> length s'. \<forall>j < length s'. \<not> all_refs a (pcs s' j)"
  using assms
proof (induction rule: p_more.induct)
  case (make s s' pc)
  then show ?case using refs_New [OF make(2), of s' _ "\<lambda>_. False"] by (auto simp: pcs_New(2))
next
  case (step s s' i b)
  have "length s' \<le> length (p_step i b s')" using step(2) step_frame(1) by blast
  then show ?case using refs_step [OF step(2), of _ "\<lambda>_. False" b] step by fastforce
qed

text \<open>Nothing stops \<open>All\<close>: while its promise is pending and the promises that it waits for are settled, its goroutine or one that it has started goes on.\<close>

lemma pcs_changed: "pcs s' i \<noteq> pcs s i \<Longrightarrow> s' \<noteq> s"
  by auto

lemma run_goes_on:
  assumes run: "all_running a ps base s" and a: "pcs s a = PAllRun res n rq eq" and V: "run_view a base ps (p_outcome s) (pcs s) res n rq eq D"
    and settled: "\<And>p. p \<in> set ps \<Longrightarrow> p_outcome s p \<noteq> None"
  shows "\<exists>i \<ge> a. i < length s \<and> p_step i b s \<noteq> s"
proof -
  note R = run [unfolded all_running_def]
  have l: "a < length s" and view: "all_view a base ps (p_outcome s) (pcs s)" using R by auto
  show ?thesis
  proof (cases "n = 0 \<or> rq \<noteq> [] \<or> eq \<noteq> []")
    case True
    have "pcs (p_step a b s) a \<noteq> pcs s a"
      using True a l by (auto simp: p_step_def pcs_def [symmetric] neq_Nil_conv split: list.split prod.split)
    with l show ?thesis using pcs_changed by blast
  next
    case False
    then have "\<not> {..<length ps} \<subseteq> D" using run_viewD(1,2) [OF V] by (metis add.commute card_lessThan le_add_same_cancel1 neq0_conv less_add_same_cancel1 order_less_irrefl subset_antisym)
    then obtain k where k: "k < length ps" "k \<notin> D" by auto
    let ?t = "base + 2 * k"
    have t: "?t < length s" "?t + 1 < length s" "a \<le> ?t" using R k by auto
    have "p_outcome s (ps ! k) \<noteq> None" using settled k by simp
    then obtain r e where aw: "p_Await (ps ! k) s = Some (r, e)" by (auto simp: p_outcome_def)
    show ?thesis
    proof (cases "pcs s ?t = PThen (ps ! k) (FAll a k)")
      case True
      then have "p_step ?t b s = then_step ?t (ps ! k) (FAll a k) s" by (simp add: p_step_def pcs_def)
      then have "pcs (p_step ?t b s) ?t \<noteq> pcs s ?t" using True aw t by (cases e) (simp_all add: then_step_def)
      with t show ?thesis using pcs_changed by blast
    next
      case False
      have "\<nexists>r. p_outcome s (ps ! k) = Some (Inr r)" using run_viewD(8) [OF V] k False \<open>\<not> (n = 0 \<or> rq \<noteq> [] \<or> eq \<noteq> [])\<close> by simp
      moreover have "t_view a base ps (p_outcome s) (pcs s) k" using view k by (simp add: all_view_def)
      ultimately obtain x where x: "p_outcome s ?t = Some (Inl x)" using False by (auto simp: t_view_def Let_def)
      with run_viewD(10) [OF V] k \<open>\<not> (n = 0 \<or> rq \<noteq> [] \<or> eq \<noteq> [])\<close> have c: "pcs s (?t + 1) = PCatch ?t (CAll a)" by blast
      then have st: "p_step (?t + 1) b s = catch_step (?t + 1) ?t (CAll a) s" by (simp add: p_step_def pcs_def)
      obtain r' where "p_Await ?t s = Some (r', Some x)" using x by (auto simp: p_outcome_def split: option.splits)
      then have "pcs (p_step (?t + 1) b s) (?t + 1) \<noteq> pcs s (?t + 1)" unfolding st c using t by (simp add: catch_step_def)
      with t show ?thesis using pcs_changed [of "p_step (?t + 1) b s" "?t + 1" s] by (intro exI [of _ "?t + 1"]) simp
    qed
  qed
qed

lemma all_goes_on:
  assumes "all_phase a ps s" and "flat s" and "p_outcome s a = None" and "\<And>p. p \<in> set ps \<Longrightarrow> p_outcome s p \<noteq> None"
  shows "\<exists>i \<ge> a. i < length s \<and> p_step i b s \<noteq> s"
  using assms(1) unfolding all_phase_def
proof (elim disjE exE)
  assume st: "all_started a ps s"
  then have "pcs (p_step a b s) a \<noteq> pcs s a" by (simp add: all_started_def step_start spawn_nth)
  with st show ?thesis using pcs_changed unfolding all_started_def by blast
next
  fix base assume run: "all_running a ps base s"
  then have l: "a < length s" and av: "a_view a base ps (p_outcome s) (pcs s)" by (auto simp: all_running_def all_view_def)
  from av show ?thesis
  proof (cases rule: a_view_cases)
    case (run res n rq eq D)
    then show ?thesis using run_goes_on [OF \<open>all_running a ps base s\<close> _ _ assms(4)] by blast
  next
    case (ok rs)
    with assms(3) have "pcs s a = PCalls [CResolve (AList rs)] None" by auto
    with resolve_step [OF assms(2) l assms(3) this] have "pcs (p_step a b s) a \<noteq> pcs s a" by simp
    with l show ?thesis using pcs_changed by blast
  next
    case (failed e)
    with assms(3) have "pcs s a = PCalls [CReject (Some e)] None" by auto
    then have "pcs (p_step a b s) a \<noteq> pcs s a" using l by (simp add: p_step_def pcs_def [symmetric])
    with l show ?thesis using pcs_changed by blast
  qed
qed

lemma phase_outcome:
  assumes "all_phase a ps s"
  shows "p_outcome s a = Some (Inr v) \<Longrightarrow> \<exists>rs. v = AList rs \<and> all_ok ps (p_outcome s) rs"
    and "p_outcome s a = Some (Inl e) \<Longrightarrow> \<exists>p \<in> set ps. p_outcome s p = Some (Inl e)"
  using assms by (auto simp: all_phase_def all_started_def all_running_def all_view_def a_view_def)

text \<open>C32. Once the promise that \<^verbatim>\<open>All\<close> returns is settled, it either holds the results of all the promises it was given, each at the place of its promise whatever the order in which they were settled,
  or it is rejected with the error of one of them; and as long as it is pending although they are all settled, its goroutine or one that it has started can go on. This is so after every further use of the package.\<close>
theorem all_outcome:
  assumes "p_more [] s" and "ps \<noteq> []" and "\<forall>p \<in> set ps. p < length s" and "p_All ps s = (a, s1)" and "p_more s1 s2"
  shows "case p_outcome s2 a of
      Some (Inr v) \<Rightarrow> \<exists>rs. v = AList rs \<and> map (p_outcome s2) ps = map (\<lambda>r. Some (Inr r)) rs
    | Some (Inl e) \<Rightarrow> \<exists>p \<in> set ps. p_outcome s2 p = Some (Inl e)
    | None \<Rightarrow> (\<forall>p \<in> set ps. p_outcome s2 p \<noteq> None) \<longrightarrow> (\<exists>i \<ge> a. i < length s2 \<and> p_step i b s2 \<noteq> s2)"
proof -
  have s1: "a = length s" "s1 = snd (p_New (PAllStart ps) s)" using assms(2,4) by (auto simp: p_All_def p_New_def)
  have "flat s" using p_more_flat [OF assms(1)] by (simp add: flat_def)
  then have fl: "flat s1" "flat s2" using flat_New p_more_flat [OF assms(5)] s1 by auto
  have "\<forall>a \<ge> length s. \<forall>j < length s. \<not> all_refs a (pcs s j)" by (rule refs_below [OF assms(1)]) simp
  then have "all_started a ps s1" unfolding all_started_def s1
    using refs_New [of "PAllStart ps" s "length s" "\<lambda>_. False"] by (simp add: pcs_New(2) outcome_New) (simp add: p_outcome_def p_Await_def p_New_def pcs_def)
  then have ph: "all_phase a ps s2" using assms(3) s1 by (intro phase_more [OF assms(5)] fl) (auto simp: all_phase_def)
  show ?thesis
    using phase_outcome(1) [OF ph] phase_outcome(2) [OF ph] all_goes_on [OF ph fl(2)]
    by (auto simp: all_ok_map split: option.split sum.split)
qed

lemma p_run_more: "p_more s s' \<Longrightarrow> p_more s (p_run sched s')"
proof (induction sched arbitrary: s')
  case (Cons x sched)
  obtain i b where "x = (i, b)" by (cases x)
  with Cons show ?case by (auto intro: step)
qed simp

lemma p_Resolve_more: "p_more s s' \<Longrightarrow> p_more s (snd (p_Resolve v s'))"
  unfolding p_Resolve_def by (rule make) simp_all

lemmas promise_simps = p_All_def p_Resolve_def p_Reject_def p_New_def p_step_def p_resolve_def p_reject_def handlePanic_def set_pc_def then_step_def catch_step_def
  send_resolution_def send_error_def p_Await_def p_outcome_def numeral_eq_Suc Let_def

theorem all_outcome_witness:
  "let s = snd (p_Resolve (APlain (8 :: int)) (snd (p_Resolve (APlain 7) [])));
       s2 = p_run [(0, True), (1, True), (2, True), (5, True), (3, True), (2, True), (2, True), (2, True), (2, True)] (snd (p_All [1, 0] s))
   in p_outcome s2 2 = Some (Inr (AList [APlain 8, APlain 7])) \<and> map (p_outcome s2) [1, 0] = map (\<lambda>r. Some (Inr r)) [APlain 8, APlain 7]"
proof -
  define s :: "int p_sys" where "s = snd (p_Resolve (APlain 8) (snd (p_Resolve (APlain 7) [])))"
  define s1 where "s1 = snd (p_All [1, 0] s)"
  define s2 where "s2 = p_run [(0, True), (1, True), (2, True), (5, True), (3, True), (2, True), (2, True), (2, True), (2, True)] s1"
  have o: "p_outcome s2 2 = Some (Inr (AList [APlain 8, APlain 7]))"
    by (simp add: s_def s1_def s2_def promise_simps)
  have "p_more [] s" unfolding s_def by (intro p_Resolve_more same)
  moreover have "p_more s1 s2" unfolding s2_def by (intro p_run_more same)
  moreover have "p_All [1, 0] s = (2, s1)" "length s = 2" by (simp_all add: s1_def s_def p_All_def p_Resolve_def p_New_def)
  ultimately have "map (p_outcome s2) [1, 0] = map (\<lambda>r. Some (Inr r)) [APlain 8, APlain 7]" using all_outcome [of s "[1, 0]" 2 s1 s2] o by simp
  with o show ?thesis unfolding Let_def s_def [symmetric] s1_def [symmetric] s2_def [symmetric] by blast
qed

text \<open>C33. A settled promise never changes: whatever the goroutines and the user do, \<^verbatim>\<open>Await\<close> goes on to return what it returned first. What it returns is never itself a promise (a promise resolved with a
  promise takes the outcome of that promise), and with an error there is no result.\<close>
theorem promise_settled:
  assumes "p_more [] s" and "p_Await p s = Some (r, e)"
  shows "(\<forall>q. r \<noteq> AProm q) \<and> (e \<noteq> None \<longrightarrow> r = ANil) \<and> (\<forall>s'. p_more s s' \<longrightarrow> p_Await p s' = Some (r, e))"
proof (intro conjI allI impI)
  have flat: "flat s" using p_more_flat [OF assms(1)] by (simp add: flat_def)
  have settled: "(\<forall>q. x \<noteq> AProm q) \<and> (y \<noteq> None \<longrightarrow> x = ANil)" if "flat t" "p_Await p t = Some (x, y)" for t x y
    using that by (auto simp: p_Await_def flat_def flat_pr_def split: if_splits)
  show "r \<noteq> AProm q" for q using settled [OF flat assms(2)] by blast
  show "r = ANil" if "e \<noteq> None" using settled [OF flat assms(2)] that by blast
  fix s' assume more: "p_more s s'"
  have "p_outcome s p = Some (case e of None \<Rightarrow> Inr r | Some e \<Rightarrow> Inl e)" using assms(2) by (simp add: p_outcome_def)
  with p_more_outcome [OF more] have "p_outcome s' p = Some (case e of None \<Rightarrow> Inr r | Some e \<Rightarrow> Inl e)" by simp
  then obtain x y where xy: "p_Await p s' = Some (x, y)" "(case y of None \<Rightarrow> Inr x | Some e \<Rightarrow> Inl e) = (case e of None \<Rightarrow> Inr r | Some e \<Rightarrow> Inl e)"
    by (auto simp: p_outcome_def)
  with settled [OF p_more_flat [OF more flat] xy(1)] settled [OF flat assms(2)] show "p_Await p s' = Some (r, e)"
    by (auto split: option.splits)
qed

theorem promise_settled_witness:
  "let s = p_run [(0, True)] (snd (p_Resolve (APlain (7 :: int)) []))
   in p_Await 0 s = Some (APlain 7, None) \<and> p_Await 0 (p_run [(0, True), (1, True)] (snd (p_Resolve ANil s))) = Some (APlain 7, None)"
proof -
  define s :: "int p_sys" where "s = p_run [(0, True)] (snd (p_Resolve (APlain 7) []))"
  have "p_Await 0 s = Some (APlain 7, None)" by (simp add: s_def promise_simps)
  moreover have "p_more [] s" unfolding s_def by (intro p_run_more p_Resolve_more same)
  moreover have "p_more s (p_run [(0, True), (1, True)] (snd (p_Resolve ANil s)))" by (intro p_run_more p_Resolve_more same)
  ultimately show ?thesis unfolding Let_def s_def [symmetric] using promise_settled [of s 0 "APlain 7" None] by blast
qed

text \<open>A promise that is resolved with itself waits for itself under its own mutex, and one whose executor returns without a call is never settled.\<close>

lemma resolve_itself:
  assumes "i < length s" and "p_outcome s i = None" and "pcs s i = PCalls (CResolve (AProm i) # cs) e"
  shows "p_step i b s = s"
  using assms by (auto simp: p_step_def pcs_def p_resolve_eq p_Await_def p_outcome_def split: if_splits)

lemma never_settled:
  assumes "p_more s s'" and "i < length s" and "p_outcome s i = None" and "pcs s i = PCalls [] None \<or> pcs s i = PDone"
  shows "p_outcome s' i = None \<and> (pcs s' i = PCalls [] None \<or> pcs s' i = PDone) \<and> i < length s'"
  using assms
proof (induction rule: p_more.induct)
  case (make s s' pc)
  then show ?case by (auto simp: pcs_New outcome_New)
next
  case (step s s' j b)
  then have IH: "p_outcome s' i = None" "pcs s' i = PCalls [] None \<or> pcs s' i = PDone" "i < length s'" by auto
  have "i < length (p_step j b s')" using step_frame(1) [OF step(2,2), of b] IH(3) by simp
  moreover have "p_outcome (p_step j b s') i = None" "pcs (p_step j b s') i = PCalls [] None \<or> pcs (p_step j b s') i = PDone"
    using IH step(2) outcome_other [OF step(2) IH(3), of b] step_pcs(2) [OF step(2) IH(3), of b]
    by (cases "j = i"; auto simp: p_step_def pcs_def [symmetric] handlePanic_def)+
  ultimately show ?case by blast
qed simp

end
