(* ===== verification/Web.thy ===== *)
theory Web
  imports HttpTransport
begin

text \<open>
  \<^verbatim>\<open>web/web.go\<close>, \<^verbatim>\<open>web/options.go\<close>, \<^verbatim>\<open>web/roundshardtripper.go\<close>: HTTP requests to a service that is found in the registry, with a header field that keeps the requests of a
  session at one server.

  Representation. The registry of the options is any value \<open>'r\<close>; what it answers goes through the cache of the theory \<open>Rcache\<close>. The transport below and the registry's
  \<open>Deregister\<close> are functions on a state \<open>'w\<close> of the world. Of an \<open>http.Request\<close> the code changes \<open>URL.Host\<close>, which is the field \<open>hqHost\<close>; the changed request is returned. What
  \<open>rand.Int()\<close> draws and the variable \<open>selectKey\<close> of the strategies are passed as in the theory \<open>Selector\<close>, an index out of range being \<open>None\<close>. The strategies never return a
  \<open>nil\<close> node, so the test for it is left out, and so is what is written to the log.
\<close>

subsection \<open>Options\<close>

record 'r web_Options =
  woRegistry :: 'r
  woSelector :: Strategy
  woDestination :: string
  woRouteTag :: string
  woTtl :: "int option" \<comment> \<open>the value \<open>selector_ttl\<close> of the context\<close>

definition web_WithRegistry :: "'r \<Rightarrow> 'r web_Options \<Rightarrow> 'r web_Options" where
  "web_WithRegistry r = woRegistry_update (\<lambda>_. r)"

definition web_WithSelector :: "Strategy \<Rightarrow> 'r web_Options \<Rightarrow> 'r web_Options" where
  "web_WithSelector s = woSelector_update (\<lambda>_. s)"

definition web_WithDestination :: "string \<Rightarrow> 'r web_Options \<Rightarrow> 'r web_Options" where
  "web_WithDestination d = woDestination_update (\<lambda>_. d)"

definition web_WithRouteTag :: "string \<Rightarrow> 'r web_Options \<Rightarrow> 'r web_Options" where
  "web_WithRouteTag d = woRouteTag_update (\<lambda>_. d)"

record 'r roundShardTripper =
  rtOpts :: "'r web_Options"
  rtCache :: cache

definition web_newRCache :: "'r web_Options \<Rightarrow> cache" where
  "web_newRCache opts = New_cache (case woTtl opts of None \<Rightarrow> [] | Some t \<Rightarrow> [WithTTL t])"

definition NewRoundShardTripper :: "'r \<Rightarrow> ('r web_Options \<Rightarrow> 'r web_Options) list \<Rightarrow> 'r roundShardTripper" where
  "NewRoundShardTripper defaultRegistry opts =
     (let options = fold (\<lambda>f. f) opts \<lparr>woRegistry = defaultRegistry, woSelector = Random, woDestination = ''X-Media-Server'', woRouteTag = ''serverId'', woTtl = None\<rparr>
      in \<lparr>rtOpts = options, rtCache = web_newRCache options\<rparr>)"

subsection \<open>Sending a request\<close>

record 'w web_world =
  wwTrip :: "http_request \<Rightarrow> 'w \<Rightarrow> (goerr + http_response) \<times> 'w"
  wwDereg :: "Service \<Rightarrow> 'w \<Rightarrow> goerr option \<times> 'w"

datatype web_error = WebDestinationFailed | WebFailed

definition header_Add :: "string \<Rightarrow> string \<Rightarrow> http_header \<Rightarrow> http_header" where
  "header_Add k v h = h(CanonicalHeaderKey k \<mapsto> (case h (CanonicalHeaderKey k) of None \<Rightarrow> [] | Some vs \<Rightarrow> vs) @ [v])"

definition node_host :: "Node \<Rightarrow> string" where
  "node_host n = ndAddress n @ '':'' @ itoa (ndPort n)"

definition route :: "'r web_Options \<Rightarrow> Node \<Rightarrow> string" where
  \<comment> \<open>\<open>n.Metadata[r.opts.RouteTag]\<close>: the empty string if there is none\<close>
  "route opts n = (case meta n (woRouteTag opts) of None \<Rightarrow> [] | Some t \<Rightarrow> t)"

definition add_destination :: "'r web_Options \<Rightarrow> Node \<Rightarrow> http_response \<Rightarrow> http_response" where
  "add_destination opts n w = w\<lparr>hpHeader := header_Add (woDestination opts) (route opts n) (hpHeader w)\<rparr>"

fun dereg_nodes :: "'w web_world \<Rightarrow> Service \<Rightarrow> Node \<Rightarrow> Node list \<Rightarrow> 'w \<Rightarrow> 'w" where
  \<comment> \<open>the inner loop, whose variable has the name of the parameter \<open>node\<close> and hides it\<close>
  "dereg_nodes W service arg [] w = w"
| "dereg_nodes W service arg (node # nodes) w =
     (if ndAddress node = ndAddress node \<and> ndPort node = ndPort node
      then snd (wwDereg W \<lparr>svName = svName service, svVersion = svVersion service, svMetadata = None, svEndpoints = [], svNodes = [arg]\<rparr> w)
      else dereg_nodes W service arg nodes w)"

definition deRegisterNode :: "'w web_world \<Rightarrow> Service list \<Rightarrow> Node \<Rightarrow> 'w \<Rightarrow> 'w" where
  "deRegisterNode W s node w = fold (\<lambda>service. dereg_nodes W service node (svNodes service)) s w"

fun try_loop :: "'w web_world \<Rightarrow> 'r web_Options \<Rightarrow> Service list \<Rightarrow> nat list \<Rightarrow> Next \<Rightarrow> http_request \<Rightarrow> uint64 \<Rightarrow> 'w \<Rightarrow>
    ((web_error + http_response) \<times> http_request \<times> uint64 \<times> 'w) option" where
  \<comment> \<open>the loop of \<open>roundTrip\<close>, given a draw for every round\<close>
  "try_loop W opts s [] next req key w = Some (Inl WebFailed, req, key, w)"
| "try_loop W opts s (r # rs) next req key w = do {
     (n, next, key) \<leftarrow> next_call r (next, key);
     case n of
       Inl err \<Rightarrow> try_loop W opts s rs next req key w
     | Inr n \<Rightarrow>
         let req = req\<lparr>hqHost := node_host n\<rparr>; (resp, w) = wwTrip W req w
         in case resp of
              Inl err \<Rightarrow> try_loop W opts s rs next req key (deRegisterNode W s n w)
            | Inr resp \<Rightarrow> Some (Inr (add_destination opts n resp), req, key, w) }"

definition roundTrip :: "'w web_world \<Rightarrow> 'r web_Options \<Rightarrow> (nat \<Rightarrow> nat) \<Rightarrow> Service list \<Rightarrow> http_request \<Rightarrow> uint64 \<Rightarrow> 'w \<Rightarrow>
    ((web_error + http_response) \<times> http_request \<times> uint64 \<times> 'w) option" where
  "roundTrip W opts rnd s req key w = try_loop W opts s [rnd 0, rnd 1, rnd 2] (woSelector opts s) req key w"

fun last_routed :: "'r web_Options \<Rightarrow> string \<Rightarrow> Node list \<Rightarrow> Node option \<Rightarrow> Node option" where
  \<comment> \<open>the two loops over the services and their nodes: the last node with the tag\<close>
  "last_routed opts serverId [] nodeResult = nodeResult"
| "last_routed opts serverId (node # nodes) nodeResult =
     last_routed opts serverId nodes (if route opts node = serverId then Some node else nodeResult)"

definition trip_to :: "'w web_world \<Rightarrow> 'r web_Options \<Rightarrow> Node \<Rightarrow> http_request \<Rightarrow> uint64 \<Rightarrow> 'w \<Rightarrow>
    ((web_error + http_response) \<times> http_request \<times> uint64 \<times> 'w) option" where
  \<comment> \<open>the end of \<open>RoundTrip\<close>\<close>
  "trip_to W opts node req key w =
     (let req = req\<lparr>hqHost := node_host node\<rparr>; (resp, w) = wwTrip W req w
      in case resp of
           Inl err \<Rightarrow> Some (Inl WebDestinationFailed, req, key, w)
         | Inr resp \<Rightarrow> Some (Inr (add_destination opts node resp), req, key, w))"

definition route_request :: "'w web_world \<Rightarrow> 'r web_Options \<Rightarrow> (nat \<Rightarrow> nat) \<Rightarrow> Service list \<Rightarrow> http_request \<Rightarrow> uint64 \<Rightarrow> 'w \<Rightarrow>
    ((web_error + http_response) \<times> http_request \<times> uint64 \<times> 'w) option" where
  \<comment> \<open>\<open>RoundTrip\<close> after the services have been found; the header is indexed with the name as it is given\<close>
  "route_request W opts rnd s req key w =
     (case hqHeader req (woDestination opts) of
        None \<Rightarrow> roundTrip W opts rnd s req key w
      | Some val \<Rightarrow>
          (if length val < 1 then roundTrip W opts rnd s req key w
           else
             let serverId = hd val
             in if length serverId < 1 then roundTrip W opts rnd s req key w
                else case last_routed opts serverId (all_nodes s) None of
                  None \<Rightarrow> roundTrip W opts rnd s req key w
                | Some nodeResult \<Rightarrow> trip_to W opts nodeResult req key w))"

definition RoundTrip :: "'w web_world \<Rightarrow> (string \<Rightarrow> 'e + Service list) \<Rightarrow> int \<Rightarrow> int \<Rightarrow> (nat \<Rightarrow> nat) \<Rightarrow> http_request \<Rightarrow> 'r roundShardTripper \<Rightarrow> uint64 \<Rightarrow> 'w \<Rightarrow>
    ((('e rc_error + web_error) + http_response) \<times> http_request \<times> 'r roundShardTripper \<times> uint64 \<times> 'w) option" where
  "RoundTrip W reg now now' rnd req r key w =
     (let (s, rc) = rc_GetService reg now now' (hqHost req) (rtCache r); r = r\<lparr>rtCache := rc\<rparr>
      in case s of
           Inl err \<Rightarrow> Some (Inl (Inl err), req, r, key, w)
         | Inr s \<Rightarrow> do { (x, req, key, w) \<leftarrow> route_request W (rtOpts r) rnd s req key w; Some (map_sum Inr id x, req, r, key, w) })"

fun node_topics :: "string \<Rightarrow> Node list \<Rightarrow> (string \<times> string) option" where
  "node_topics ip [] = None"
| "node_topics ip (node # nodes) =
     (if ndAddress node = ip
      then Some (case meta node ''storeTopic'' of None \<Rightarrow> [] | Some t \<Rightarrow> t, case meta node ''audioTopic'' of None \<Rightarrow> [] | Some t \<Rightarrow> t)
      else node_topics ip nodes)"

definition GetServiceNodeByIp :: "(string \<Rightarrow> 'e + Service list) \<Rightarrow> string \<Rightarrow> string \<Rightarrow> string \<times> string" where
  "GetServiceNodeByIp reg srvName ip =
     (case reg srvName of
        Inl err \<Rightarrow> ([], [])
      | Inr s \<Rightarrow> (case node_topics ip (all_nodes s) of Some t \<Rightarrow> t | None \<Rightarrow> ([], [])))"

subsection \<open>The node with a tag\<close>

lemma last_routed_spec:
  "last_routed opts t ns x = (case filter (\<lambda>n. route opts n = t) ns of [] \<Rightarrow> x | ms \<Rightarrow> Some (last ms))"
  by (induction ns arbitrary: x) (auto split: list.splits)

lemma last_routed_found:
  assumes "n \<in> set ns" and "route opts n = t"
  obtains m where "last_routed opts t ns None = Some m" and "m \<in> set ns" and "route opts m = t"
proof -
  have "filter (\<lambda>n. route opts n = t) ns \<noteq> []" using assms by (auto simp: filter_empty_conv)
  then have "last_routed opts t ns None = Some (last (filter (\<lambda>n. route opts n = t) ns))" "last (filter (\<lambda>n. route opts n = t) ns) \<in> set (filter (\<lambda>n. route opts n = t) ns)"
    using last_in_set [of "filter (\<lambda>n. route opts n = t) ns"] by (auto simp: last_routed_spec split: list.splits)
  with that show thesis by auto
qed

fun offered :: "Next \<Rightarrow> Node set" where
  \<comment> \<open>the nodes that a strategy chooses from\<close>
  "offered (NextRandom nodes) = set nodes"
| "offered (NextRoundRobin nodes i) = set nodes"
| "offered NextNotFound = {}"
| "offered (NextRoundBin nodes) = set nodes"

lemma next_call_offered:
  assumes "next_call r (next, key) = Some (x, next', key')"
  shows "offered next' = offered next \<and> (\<forall>n. x = Inr n \<longrightarrow> n \<in> offered next)"
proof -
  have "y \<in> set ys" if "go_index ys i = Some y" for i y and ys :: "Node list" using that by (auto simp: go_index_def intro!: nth_mem split: if_splits)
  with assms show ?thesis by (cases "next") (auto simp: Let_def split: if_splits bind_splits)
qed

lemma strategies_offer:
  assumes "st \<in> insert Random (range RoundRobin \<union> range RoundBinSelect)"
  shows "offered (st s) \<subseteq> set (all_nodes s)"
  using assms by (auto simp: Random_def RoundRobin_def RoundBinSelect_def split_nodes_filter Let_def split: if_splits)

lemma try_loop_answer:
  assumes "try_loop W opts s rs next req key w = Some (Inr resp, req', key', w')"
  obtains n raw w0 where "n \<in> offered next" and "req' = req\<lparr>hqHost := node_host n\<rparr>" and "wwTrip W req' w0 = (Inr raw, w')" and "resp = add_destination opts n raw"
  using assms
proof (induction W opts s rs "next" req key w rule: try_loop.induct)
  case (2 W opts s r rs "next" req key w)
  from "2.prems"(2) obtain x next' key'' where c: "next_call r (next, key) = Some (x, next', key'')" by (auto split: bind_splits)
  show ?case
  proof (cases x)
    case (Inl err)
    with c "2.prems" "2.IH"(1) [OF c] next_call_offered [OF c] show ?thesis by simp
  next
    case (Inr n)
    obtain y w1 where t: "wwTrip W (req\<lparr>hqHost := node_host n\<rparr>) w = (y, w1)" by (cases "wwTrip W (req\<lparr>hqHost := node_host n\<rparr>) w")
    show ?thesis
    proof (cases y)
      case (Inl e)
      show ?thesis using "2.IH"(2) [OF c refl refl \<open>x = Inr n\<close> refl refl t [symmetric] Inl] "2.prems" c \<open>x = Inr n\<close> t Inl next_call_offered [OF c] by simp
    next
      case (Inr raw)
      with c \<open>x = Inr n\<close> t "2.prems"(2) have "resp = add_destination opts n raw" "req' = req\<lparr>hqHost := node_host n\<rparr>" "w' = w1" by auto
      moreover have "n \<in> offered next" using next_call_offered [OF c] \<open>x = Inr n\<close> by simp
      ultimately show ?thesis using t Inr by (intro "2.prems"(1) [of n w raw]) simp_all
    qed
  qed
qed simp

lemma trip_to_answer:
  assumes "trip_to W opts n req key w = Some (Inr resp, req', key', w')"
  shows "req' = req\<lparr>hqHost := node_host n\<rparr>" and "\<exists>raw. wwTrip W req' w = (Inr raw, w') \<and> resp = add_destination opts n raw"
  using assms by (auto simp: trip_to_def Let_def split: prod.splits sum.splits)

lemma route_request_answer:
  assumes "route_request W opts rnd s req key w = Some (Inr resp, req', key', w')" and "offered (woSelector opts s) \<subseteq> set (all_nodes s)"
  obtains n raw w0 where "n \<in> set (all_nodes s)" and "req' = req\<lparr>hqHost := node_host n\<rparr>" and "wwTrip W req' w0 = (Inr raw, w')" and "resp = add_destination opts n raw"
proof -
  from assms(1) consider "roundTrip W opts rnd s req key w = Some (Inr resp, req', key', w')"
    | n t where "last_routed opts t (all_nodes s) None = Some n" "trip_to W opts n req key w = Some (Inr resp, req', key', w')"
    by (auto simp: route_request_def Let_def split: option.splits if_splits)
  then show thesis
  proof cases
    case 1
    from try_loop_answer [OF this [unfolded roundTrip_def]] that assms(2) show thesis by (metis subsetD)
  next
    case (2 n t)
    have "n \<in> set (all_nodes s)" using 2(1) last_in_set [of "filter (\<lambda>n. route opts n = t) (all_nodes s)"] by (auto simp: last_routed_spec split: list.splits if_splits)
    with trip_to_answer [OF 2(2)] that show thesis by metis
  qed
qed

lemma RoundTrip_answer:
  assumes "RoundTrip W reg now now' rnd req r key w = Some (Inr resp, req', r', key', w')" and "woSelector (rtOpts r) \<in> insert Random (range RoundRobin \<union> range RoundBinSelect)"
  obtains s n raw w0 where "fst (rc_GetService reg now now' (hqHost req) (rtCache r)) = Inr s" and "n \<in> set (all_nodes s)" and "req' = req\<lparr>hqHost := node_host n\<rparr>"
    and "wwTrip W req' w0 = (Inr raw, w')" and "resp = add_destination (rtOpts r) n raw"
proof -
  obtain x rc where s: "rc_GetService reg now now' (hqHost req) (rtCache r) = (x, rc)" by (cases "rc_GetService reg now now' (hqHost req) (rtCache r)")
  with assms(1) obtain ss where ss: "x = Inr ss" "route_request W (rtOpts r) rnd ss req key w = Some (Inr resp, req', key', w')"
    by (auto simp: RoundTrip_def Let_def map_sum_def split: sum.splits bind_splits)
  from route_request_answer [OF ss(2) strategies_offer [OF assms(2)]] s ss(1) that show thesis by (metis fst_conv)
qed

text \<open>C35. Sessions stay at one server. With a strategy of the package, and a name of the header field in canonical form that servers do not set themselves, an answer comes from a node of the service, and its
  header field has the tag in that node's metadata. If the tag is not empty, a later request for the service with this field is sent once, to the same address, whatever the strategy's state and draws are,
  as long as what the registry then answers has the tag, and with that address only; its answer carries the tag again, or it fails without another node being tried.\<close>

theorem session_affinity:
  fixes reg :: "string \<Rightarrow> 'e + Service list"
  assumes "CanonicalHeaderKey (woDestination (rtOpts r)) = woDestination (rtOpts r)"
    and "\<forall>q w raw w'. wwTrip W q w = (Inr raw, w') \<longrightarrow> hpHeader raw (woDestination (rtOpts r)) = None"
    and "woSelector (rtOpts r) \<in> insert Random (range RoundRobin \<union> range RoundBinSelect)"
    and "RoundTrip W reg now now' rnd req r key w = Some (Inr resp, req', r', key', w')"
  shows "\<exists>s n tag. fst (rc_GetService reg now now' (hqHost req) (rtCache r)) = Inr s \<and> n \<in> set (all_nodes s) \<and> hqHost req' = node_host n \<and>
    tag = (case meta n (woRouteTag (rtOpts r)) of None \<Rightarrow> [] | Some t \<Rightarrow> t) \<and> hpHeader resp (woDestination (rtOpts r)) = Some [tag] \<and>
    (\<forall>(reg2 :: string \<Rightarrow> 'e + Service list) t t' req2 r2 s2 rc2 rnd2 key2 w2.
       tag \<noteq> [] \<and> rtOpts r2 = rtOpts r \<and> hqHeader req2 (woDestination (rtOpts r)) = Some [tag] \<and>
       rc_GetService reg2 t t' (hqHost req2) (rtCache r2) = (Inr s2, rc2) \<and> tag \<in> route (rtOpts r) ` set (all_nodes s2) \<and>
       (\<forall>m \<in> set (all_nodes s2). route (rtOpts r) m = tag \<longrightarrow> node_host m = hqHost req') \<longrightarrow>
       (let req2' = req2\<lparr>hqHost := hqHost req'\<rparr>; (raw, w2') = wwTrip W req2' w2
        in \<exists>x. RoundTrip W reg2 t t' rnd2 req2 r2 key2 w2 = Some (x, req2', r2\<lparr>rtCache := rc2\<rparr>, key2, w2') \<and>
           (case raw of Inl _ \<Rightarrow> x = Inl (Inr WebDestinationFailed)
            | Inr raw \<Rightarrow> x = Inr (raw\<lparr>hpHeader := (hpHeader raw)(woDestination (rtOpts r) \<mapsto> [tag])\<rparr>))))"
proof -
  let ?d = "woDestination (rtOpts r)"
  obtain s n raw w0 where s: "fst (rc_GetService reg now now' (hqHost req) (rtCache r)) = Inr s" "n \<in> set (all_nodes s)"
    and n: "req' = req\<lparr>hqHost := node_host n\<rparr>" "wwTrip W req' w0 = (Inr raw, w')" "resp = add_destination (rtOpts r) n raw"
    using RoundTrip_answer [OF assms(4,3)] by metis
  have fresh: "hpHeader raw' ?d = None" if "wwTrip W q v = (Inr raw', v')" for q v raw' v' using assms(2) that by blast
  have added: "hpHeader (add_destination (rtOpts r) m raw') = (hpHeader raw')(?d \<mapsto> [route (rtOpts r) m])" if "hpHeader raw' ?d = None" for m raw'
    using that assms(1) by (simp add: add_destination_def header_Add_def)
  have "hpHeader resp ?d = Some [route (rtOpts r) n]" using n fresh added by simp
  with s n(1) show ?thesis
  proof (intro exI [of _ s] exI [of _ n] exI [of _ "route (rtOpts r) n"] conjI allI impI, goal_cases)
    case (6 reg2 t t' req2 r2 s2 rc2 rnd2 key2 w2)
    then have tag: "route (rtOpts r) n \<noteq> []" and opts: "rtOpts r2 = rtOpts r" and hd: "hqHeader req2 ?d = Some [route (rtOpts r) n]"
      and got: "rc_GetService reg2 t t' (hqHost req2) (rtCache r2) = (Inr s2, rc2)" and mem: "route (rtOpts r) n \<in> route (rtOpts r) ` set (all_nodes s2)"
      and uniq: "\<forall>m \<in> set (all_nodes s2). route (rtOpts r) m = route (rtOpts r) n \<longrightarrow> node_host m = hqHost req'" by blast+
    from mem obtain m0 where "m0 \<in> set (all_nodes s2)" "route (rtOpts r) m0 = route (rtOpts r) n" by (auto simp del: image_eqI)
    then obtain m where m: "last_routed (rtOpts r) (route (rtOpts r) n) (all_nodes s2) None = Some m" "m \<in> set (all_nodes s2)" "route (rtOpts r) m = route (rtOpts r) n"
      by (rule last_routed_found)
    have h: "node_host m = hqHost req'" using uniq m by blast
    have "route_request W (rtOpts r2) rnd2 s2 req2 key2 w2 = trip_to W (rtOpts r) m req2 key2 w2"
      using hd tag opts m by (simp add: route_request_def Suc_le_eq)
    then have rt: "RoundTrip W reg2 t t' rnd2 req2 r2 key2 w2 =
        do { (x, req, key, w) \<leftarrow> trip_to W (rtOpts r) m req2 key2 w2; Some (map_sum Inr id x, req, r2\<lparr>rtCache := rc2\<rparr>, key, w) }"
      using got opts by (simp add: RoundTrip_def)
    obtain raw' w2' where t: "wwTrip W (req2\<lparr>hqHost := hqHost req'\<rparr>) w2 = (raw', w2')" by (cases "wwTrip W (req2\<lparr>hqHost := hqHost req'\<rparr>) w2")
    show ?case
    proof (cases raw')
      case (Inl e)
      with rt t h show ?thesis by (simp add: trip_to_def)
    next
      case (Inr a)
      then have "hpHeader (add_destination (rtOpts r) m a) = (hpHeader a)(?d \<mapsto> [route (rtOpts r) n])" using fresh [OF t [unfolded Inr]] added m(3) by simp
      then have "add_destination (rtOpts r) m a = a\<lparr>hpHeader := (hpHeader a)(?d \<mapsto> [route (rtOpts r) n])\<rparr>" by (simp add: add_destination_def)
      with rt t h Inr show ?thesis by (simp add: trip_to_def)
    qed
  qed (simp_all add: route_def)
qed

subsection \<open>Trying other nodes\<close>

fun try_nodes :: "'w web_world \<Rightarrow> 'r web_Options \<Rightarrow> Service list \<Rightarrow> Node list \<Rightarrow> http_request \<Rightarrow> 'w \<Rightarrow> (web_error + http_response) \<times> http_request \<times> nat \<times> 'w" where
  \<comment> \<open>the request to one node after the other, each that fails being taken out of the registry; with the number of requests\<close>
  "try_nodes W opts s [] req w = (Inl WebFailed, req, 0, w)"
| "try_nodes W opts s (n # ns) req w =
     (case wwTrip W (req\<lparr>hqHost := node_host n\<rparr>) w of
        (Inr resp, w) \<Rightarrow> (Inr (add_destination opts n resp), req\<lparr>hqHost := node_host n\<rparr>, 1, w)
      | (Inl _, w) \<Rightarrow> let (x, req, k, w) = try_nodes W opts s ns (req\<lparr>hqHost := node_host n\<rparr>) (deRegisterNode W s n w) in (x, req, Suc k, w))"

lemma try_loop_RoundBin:
  assumes "nodes \<noteq> []" and "unat key + length rs < 2 ^ 64"
  shows "try_loop W opts s rs (NextRoundBin nodes) req key w =
    (let (x, req', k, w') = try_nodes W opts s (turns nodes (Suc (unat key)) (length rs)) req w in Some (x, req', key + of_nat k, w'))"
  using assms(2)
proof (induction rs arbitrary: req key w)
  case (Cons r rs)
  let ?n = "nodes ! (unat (key + 1) mod length nodes)"
  have u: "unat (key + 1) = Suc (unat key)" using Cons.prems by (intro unat_Suc64) simp
  have t: "turns nodes (Suc (unat key)) (length (r # rs)) = ?n # turns nodes (Suc (unat (key + 1))) (length rs)" by (simp add: turns_Suc u)
  obtain y w1 where trip: "wwTrip W (req\<lparr>hqHost := node_host ?n\<rparr>) w = (y, w1)" by (cases "wwTrip W (req\<lparr>hqHost := node_host ?n\<rparr>) w")
  have nc: "next_call r (NextRoundBin nodes, key) = Some (Inr ?n, NextRoundBin nodes, key + 1)" by (rule next_call_RoundBin [OF assms(1)])
  show ?case
  proof (cases y)
    case (Inl e)
    have IH: "try_loop W opts s rs (NextRoundBin nodes) (req\<lparr>hqHost := node_host ?n\<rparr>) (key + 1) (deRegisterNode W s ?n w1) =
        (let (x, req', k, w') = try_nodes W opts s (turns nodes (Suc (unat (key + 1))) (length rs)) (req\<lparr>hqHost := node_host ?n\<rparr>) (deRegisterNode W s ?n w1)
         in Some (x, req', key + 1 + of_nat k, w'))"
      by (rule Cons.IH) (use Cons.prems u in simp)
    have "try_loop W opts s (r # rs) (NextRoundBin nodes) req key w = try_loop W opts s rs (NextRoundBin nodes) (req\<lparr>hqHost := node_host ?n\<rparr>) (key + 1) (deRegisterNode W s ?n w1)"
      by (simp only: try_loop.simps nc) (simp add: trip Inl)
    then show ?thesis unfolding t IH by (simp add: trip Inl split: prod.split)
  next
    case (Inr resp)
    have "try_loop W opts s (r # rs) (NextRoundBin nodes) req key w = Some (Inr (add_destination opts ?n resp), req\<lparr>hqHost := node_host ?n\<rparr>, key + 1, w1)"
      by (simp only: try_loop.simps nc) (simp add: trip Inr)
    then show ?thesis unfolding t by (simp add: trip Inr)
  qed
qed (simp add: turns_def)

lemma distinct_turns:
  assumes "distinct nodes" and "m \<le> length nodes"
  shows "distinct (turns nodes k m)"
proof -
  have "distinct (rotate k nodes)" using assms(1) by simp
  moreover have "turns nodes k m = take m (rotate k nodes)"
    unfolding turns_round [symmetric] using assms(2) by (simp add: turns_def take_map)
  ultimately show ?thesis by simp
qed

definition no_destination :: "'r web_Options \<Rightarrow> Service list \<Rightarrow> http_request \<Rightarrow> bool" where
  \<comment> \<open>the field is missing, has no value or an empty one, or no node has the tag\<close>
  "no_destination opts s req \<longleftrightarrow>
     (case hqHeader req (woDestination opts) of None \<Rightarrow> True | Some [] \<Rightarrow> True | Some (t # _) \<Rightarrow> t = [] \<or> t \<notin> route opts ` set (all_nodes s))"

lemma route_request_no_destination:
  assumes "no_destination opts s req"
  shows "route_request W opts rnd s req key w = roundTrip W opts rnd s req key w"
proof -
  have "last_routed opts t (all_nodes s) None = None" if "t \<notin> route opts ` set (all_nodes s)" for t
  proof -
    have "filter (\<lambda>n. route opts n = t) (all_nodes s) = []" using that by (auto simp: filter_empty_conv)
    then show ?thesis by (simp add: last_routed_spec)
  qed
  with assms show ?thesis
    by (auto simp: no_destination_def route_request_def Let_def split: option.splits list.splits)
qed

text \<open>C36. With the strategy \<^verbatim>\<open>RoundBinSelect\<close>, and at least one healthy node, a request without a tag that some node has goes to the healthy nodes next in turn until one answers, three requests at most, each node that fails being deregistered before the next is tried.
  So it fails only after three requests have failed, and the counter of the strategy advances by the number of requests sent (as long as it does not overflow). The three nodes are different if there are three healthy nodes or more and none is listed
  twice; otherwise one may be tried again.\<close>

theorem failover_order:
  assumes "woSelector (rtOpts r) = RoundBinSelect now" and "rc_GetService reg t t' (hqHost req) (rtCache r) = (Inr s, rc)" and "no_destination (rtOpts r) s req"
    and "healthy = filter (bHealthNodesByWeights now) (all_nodes s)" and "healthy \<noteq> []" and "unat key + 3 < 2 ^ 64"
    and "nodes = turns healthy (Suc (unat key)) 3" and "try_nodes W (rtOpts r) s nodes req w = (x, req', k, w')"
  shows "RoundTrip W reg t t' rnd req r key w = Some (map_sum Inr id x, req', r\<lparr>rtCache := rc\<rparr>, key + of_nat k, w') \<and>
    set nodes \<subseteq> set healthy \<and> (distinct healthy \<and> 3 \<le> length healthy \<longrightarrow> distinct nodes)"
proof -
  obtain n where "n \<in> set (all_nodes s)" "bHealthNodesByWeights now n" using assms(4,5) by (auto simp: filter_empty_conv)
  then have "RoundBinSelect now s = NextRoundBin healthy" unfolding assms(4) by (rule RoundBinSelect_healthy)
  then have "roundTrip W (rtOpts r) rnd s req key w = Some (x, req', key + of_nat k, w')"
    using try_loop_RoundBin [OF assms(5), of key "[rnd 0, rnd 1, rnd 2]" W "rtOpts r" s req w] assms(1,6-8) by (simp add: roundTrip_def numeral_3_eq_3)
  then have "RoundTrip W reg t t' rnd req r key w = Some (map_sum Inr id x, req', r\<lparr>rtCache := rc\<rparr>, key + of_nat k, w')"
    using assms(2) by (simp add: RoundTrip_def route_request_no_destination [OF assms(3)])
  moreover have "set nodes \<subseteq> set healthy" using assms(5) unfolding assms(7) turns_def by auto
  moreover have "distinct nodes" if "distinct healthy" "3 \<le> length healthy" unfolding assms(7) using that by (rule distinct_turns)
  ultimately show ?thesis by blast
qed

text \<open>Every version of the service is deregistered with the node, not only the one that has it.\<close>

lemma deRegisterNode_all_versions:
  "deRegisterNode W s n w =
     fold (\<lambda>sv w. snd (wwDereg W \<lparr>svName = svName sv, svVersion = svVersion sv, svMetadata = None, svEndpoints = [], svNodes = [n]\<rparr> w)) (filter (\<lambda>sv. svNodes sv \<noteq> []) s) w"
proof (induction s arbitrary: w)
  case (Cons sv s)
  then show ?case by (cases "svNodes sv") (simp_all add: deRegisterNode_def)
qed (simp add: deRegisterNode_def)

text \<open>Of nodes with the same tag the last one gets the request.\<close>

lemma last_routed_last:
  assumes "route opts n = t" and "\<forall>m \<in> set ms. route opts m \<noteq> t"
  shows "last_routed opts t (ns @ n # ms) None = Some n"
proof -
  have "filter (\<lambda>n. route opts n = t) ms = []" using assms(2) by (simp add: filter_empty_conv)
  with assms(1) show ?thesis by (auto simp: last_routed_spec split: list.split) (metis last_ConsR last_snoc)
qed

lemma GetServiceNodeByIp_unknown: "(\<And>ss n. reg name = Inr ss \<Longrightarrow> n \<in> set (all_nodes ss) \<Longrightarrow> ndAddress n \<noteq> ip) \<Longrightarrow> GetServiceNodeByIp reg name ip = ([], [])"
proof -
  assume *: "\<And>ss n. reg name = Inr ss \<Longrightarrow> n \<in> set (all_nodes ss) \<Longrightarrow> ndAddress n \<noteq> ip"
  have "node_topics ip ns = None" if "\<forall>n \<in> set ns. ndAddress n \<noteq> ip" for ns using that by (induction ns) auto
  with * show ?thesis by (auto simp: GetServiceNodeByIp_def split: sum.split)
qed

subsection \<open>A service with three nodes\<close>

definition web_node :: "string \<Rightarrow> Node" where
  "web_node a = \<lparr>ndId = a, ndAddress = a, ndPort = 80, ndMetadata = Some [''serverId'' \<mapsto> a @ ''-tag'']\<rparr>"

definition web_services :: "Service list" where
  "web_services = [\<lparr>svName = ''media'', svVersion = ''1'', svMetadata = None, svEndpoints = [], svNodes = [web_node ''a'', web_node ''b'', web_node ''c'']\<rparr>]"

definition web_W :: "string list web_world" where
  \<comment> \<open>the second node does not answer; the state is the list of hosts that got a request and of nodes that were deregistered\<close>
  "web_W = \<lparr>wwTrip = (\<lambda>q w. (if hqHost q = ''b:80'' then Inl (GoErr ''refused'') else Inr \<lparr>hpStatusCode = 200, hpStatus = ''OK'', hpHeader = Map.empty, hpBody = []\<rparr>, w @ [hqHost q])),
     wwDereg = (\<lambda>sv w. (None, w @ map ndId (svNodes sv)))\<rparr>"

definition web_request :: "http_header \<Rightarrow> http_request" where
  "web_request h = \<lparr>hqMethod = ''GET'', hqHost = ''media'', hqPath = ''/'', hqHeader = h, hqBody = [], hqProtoMajor = 1, hqRemoteAddr = []\<rparr>"

definition web_opts :: "unit web_Options" where
  "web_opts = rtOpts (NewRoundShardTripper () [web_WithSelector (RoundBinSelect 0)])"

definition web_tripper :: "unit roundShardTripper" where
  "web_tripper = NewRoundShardTripper () []"

lemma web_port: "itoa 80 = ''80''"
  by code_simp

lemma web_header: "CanonicalHeaderKey ''X-Media-Server'' = ''X-Media-Server''"
  by code_simp

lemma web_hosts: "node_host (web_node ''a'') = ''a:80''" "node_host (web_node ''b'') = ''b:80''" "node_host (web_node ''c'') = ''c:80''"
  by (simp_all add: node_host_def web_node_def web_port)

lemma web_trip:
  "wwTrip web_W q w = (if hqHost q = ''b:80'' then Inl (GoErr ''refused'') else Inr \<lparr>hpStatusCode = 200, hpStatus = ''OK'', hpHeader = Map.empty, hpBody = []\<rparr>, w @ [hqHost q])"
  by (simp add: web_W_def)

lemma web_dereg: "deRegisterNode web_W web_services n w = w @ [ndId n]"
  by (simp add: deRegisterNode_def web_services_def web_W_def)

lemma web_options:
  "woDestination web_opts = ''X-Media-Server''" "woRouteTag web_opts = ''serverId''" "woSelector web_opts = RoundBinSelect 0"
  "woDestination (rtOpts web_tripper) = ''X-Media-Server''" "woRouteTag (rtOpts web_tripper) = ''serverId''" "woSelector (rtOpts web_tripper) = Random"
  by (simp_all add: web_opts_def web_tripper_def NewRoundShardTripper_def web_WithSelector_def Let_def)

lemma web_answer:
  assumes "woDestination opts = ''X-Media-Server''" and "woRouteTag opts = ''serverId''" and "hpHeader resp = Map.empty"
  shows "add_destination opts (web_node a) resp = resp\<lparr>hpHeader := [''X-Media-Server'' \<mapsto> [a @ ''-tag'']]\<rparr>"
  using assms by (simp add: add_destination_def header_Add_def web_header route_def meta_def web_node_def)

lemma web_healthy: "filter (bHealthNodesByWeights 0) (all_nodes web_services) = [web_node ''a'', web_node ''b'', web_node ''c'']"
  by (simp add: all_nodes_def web_services_def bHealthNodesByWeights_def meta_def web_node_def ServiceStatus_def)

lemma web_turns: "turns [web_node ''a'', web_node ''b'', web_node ''c''] (Suc (unat (0 :: uint64))) 3 = [web_node ''b'', web_node ''c'', web_node ''a'']"
proof -
  have "[0..<3] = [0, 1, 2 :: nat]" by (simp add: upt_rec)
  then show ?thesis by (simp add: turns_def)
qed

lemma web_tries:
  "try_nodes web_W web_opts web_services [web_node ''b'', web_node ''c'', web_node ''a''] (web_request Map.empty) [] =
    (Inr \<lparr>hpStatusCode = 200, hpStatus = ''OK'', hpHeader = [''X-Media-Server'' \<mapsto> [''c-tag'']], hpBody = []\<rparr>, (web_request Map.empty)\<lparr>hqHost := ''c:80''\<rparr>, 2, [''b:80'', ''b'', ''c:80''])"
  by (simp add: web_hosts web_trip web_dereg web_answer web_options) (simp add: web_node_def)

definition web_registry :: "string \<Rightarrow> string + Service list" where
  "web_registry name = (if name = ''media'' then Inr web_services else Inl ''none'')"

definition web_bin :: "unit roundShardTripper" where
  "web_bin = NewRoundShardTripper () [web_WithSelector (RoundBinSelect 0)]"

lemma web_get:
  "rc_GetService web_registry 0 0 ''media'' (rtCache r) = (Inr web_services, rc_set 0 ''media'' web_services (rc_watch_start ''media'' (rtCache r)))"
  if "rtCache r = New_cache []" for r :: "unit roundShardTripper"
  unfolding that by (simp add: rc_GetService_def rc_get_def rc_lookup_def isValid_def rc_fetch_def web_registry_def New_cache_def web_services_def Let_def)

theorem failover_order_witness:
  "\<exists>rc. RoundTrip web_W web_registry 0 0 (\<lambda>_. 0) (web_request Map.empty) web_bin 0 [] =
     Some (Inr \<lparr>hpStatusCode = 200, hpStatus = ''OK'', hpHeader = [''X-Media-Server'' \<mapsto> [''c-tag'']], hpBody = []\<rparr>,
       (web_request Map.empty)\<lparr>hqHost := ''c:80''\<rparr>, web_bin\<lparr>rtCache := rc\<rparr>, 0 + of_nat 2, [''b:80'', ''b'', ''c:80''])"
proof -
  have o: "rtOpts web_bin = web_opts" "rtCache web_bin = New_cache []"
    by (simp_all add: web_bin_def web_opts_def NewRoundShardTripper_def web_newRCache_def web_WithSelector_def Let_def)
  have g: "rc_GetService web_registry 0 0 (hqHost (web_request Map.empty)) (rtCache web_bin) = (Inr web_services, rc_set 0 ''media'' web_services (rc_watch_start ''media'' (rtCache web_bin)))"
    using web_get [of web_bin] o(2) by (simp add: web_request_def)
  have n: "no_destination (rtOpts web_bin) web_services (web_request Map.empty)" by (simp add: no_destination_def web_request_def)
  from failover_order [OF web_options(3) [folded o(1)] g n web_healthy [symmetric] _ _ web_turns [symmetric] web_tries [folded o(1)], THEN conjunct1, of "\<lambda>_. 0"]
  show ?thesis by auto
qed

theorem session_affinity_witness:
  "\<exists>resp r'. RoundTrip web_W web_registry 0 0 (\<lambda>_. 2) (web_request Map.empty) web_tripper 0 [] = Some (Inr resp, (web_request Map.empty)\<lparr>hqHost := ''c:80''\<rparr>, r', 0, [''c:80'']) \<and>
     hpHeader resp ''X-Media-Server'' = Some [''c-tag''] \<and>
     (\<exists>x r2'. RoundTrip web_W web_registry 9 9 (\<lambda>_. 0) (web_request [''X-Media-Server'' \<mapsto> [''c-tag'']]) r' 0 [] =
        Some (Inr x, (web_request [''X-Media-Server'' \<mapsto> [''c-tag'']])\<lparr>hqHost := ''c:80''\<rparr>, r2', 0, [''c:80'']))"
proof -
  define resp where "resp = \<lparr>hpStatusCode = 200, hpStatus = ''OK'', hpHeader = [''X-Media-Server'' \<mapsto> [''c-tag'']], hpBody = []\<rparr>"
  define r' where "r' = web_tripper\<lparr>rtCache := rc_set 0 ''media'' web_services (rc_watch_start ''media'' (rtCache web_tripper))\<rparr>"
  let ?req = "(web_request Map.empty)\<lparr>hqHost := ''c:80''\<rparr>" and ?req2 = "web_request [''X-Media-Server'' \<mapsto> [''c-tag'']]"
  note i = web_port and c = web_header
  note o = web_options(4-6)
  have g: "rc_GetService web_registry 0 0 ''media'' (rtCache web_tripper) = (Inr web_services, rtCache r')"
    by (simp add: rc_GetService_def rc_get_def rc_lookup_def isValid_def rc_fetch_def web_registry_def r'_def web_tripper_def NewRoundShardTripper_def web_newRCache_def New_cache_def web_services_def Let_def)
  have g2: "rc_GetService web_registry 9 9 ''media'' (rtCache r') = (Inr web_services, rtCache r')"
    by (simp add: rc_GetService_def rc_get_def rc_lookup_def isValid_def r'_def rc_set_def rc_watch_start_def web_tripper_def NewRoundShardTripper_def web_newRCache_def New_cache_def web_services_def DefaultTTL_def Let_def)
  have nodes: "all_nodes web_services = [web_node ''a'', web_node ''b'', web_node ''c'']" by (simp add: all_nodes_def web_services_def)
  have first: "RoundTrip web_W web_registry 0 0 (\<lambda>_. 2) (web_request Map.empty) web_tripper 0 [] = Some (Inr resp, ?req, r', 0, [''c:80''])"
    using g o by (simp add: RoundTrip_def route_request_def web_request_def roundTrip_def Random_def nodes go_index_def web_hosts web_trip web_answer resp_def) (simp add: r'_def)
  have r: "\<forall>q w raw w'. wwTrip web_W q w = (Inr raw, w') \<longrightarrow> hpHeader raw (woDestination (rtOpts web_tripper)) = None" by (auto simp: web_trip)
  have tags: "map (route (rtOpts web_tripper)) (all_nodes web_services) = [''a-tag'', ''b-tag'', ''c-tag'']"
    by (simp add: nodes route_def meta_def web_node_def o)
  have req2: "rtOpts r' = rtOpts web_tripper" "hqHeader ?req2 ''X-Media-Server'' = Some [''c-tag'']" "hqHost ?req2 = ''media''" by (simp_all add: r'_def web_request_def)
  have mem: "''c-tag'' \<in> route (rtOpts web_tripper) ` set (all_nodes web_services)" using tags by (metis list.set_intros list.set_map)
  have uniq: "\<forall>m \<in> set (all_nodes web_services). route (rtOpts web_tripper) m = ''c-tag'' \<longrightarrow> node_host m = hqHost ?req" using tags unfolding nodes by (simp add: web_hosts)
  note aff = session_affinity [of web_tripper web_W, unfolded o, OF c r [unfolded o] insertI1 first]
  from aff show ?thesis
  proof (elim exE conjE, goal_cases)
    case (1 s n tag)
    then have "tag = ''c-tag''" by (simp add: resp_def)
    with 1(6) [rule_format, of r' ?req2 web_registry 9 9 web_services "rtCache r'" "[]" "\<lambda>_. 0" 0] req2 mem uniq g2
    have "\<exists>x r2'. RoundTrip web_W web_registry 9 9 (\<lambda>_. 0) ?req2 r' 0 [] = Some (Inr x, ?req2\<lparr>hqHost := ''c:80''\<rparr>, r2', 0, [''c:80''])"
      by (auto simp: web_trip Let_def)
    with first resp_def show ?case by auto
  qed
qed

end
