(* ===== verification/WebSocket.thy ===== *)
theory WebSocket
  imports Web
begin

text \<open>
  \<^verbatim>\<open>web/websocket.go\<close>: a web socket with callbacks, over the package \<open>gorilla/websocket\<close>.

  Representation. A callback is a flag, whether it is set; a call of it is an event, with the copy of the field \<open>IsConnected\<close> that it is given. The connection below is not under \<^verbatim>\<open>src/\<close>: dialling is
  a function, a write is a function of the message, and reading is given by the sequence of what arrives. As its documentation says, the connection hands pings, pongs and closes to their handlers
  while it reads, an error of a handler being returned by the read, and a read after a close fails. The handlers that were installed before are the functions of \<open>ws_handlers\<close>. Using a connection that is \<open>nil\<close> is
  \<open>None\<close>. The mutexes make a read and a write one step each. The function \<open>proxy\<close>, which nothing uses, is left out.
\<close>

datatype ws_event =
    OnConnected | OnTextMessage string | OnBinaryMessage "byte list" | OnConnectError goerr
  | OnDisconnected "goerr option" | OnPingReceived string | OnPongReceived string

record ws_dialer =
  wdEnableCompression :: bool
  wdInsecureSkipVerify :: bool
  wdSubprotocols :: "string list"

record ws_callbacks =
  wcConnected :: bool
  wcText :: bool
  wcBinary :: bool
  wcConnectError :: bool
  wcDisconnected :: bool
  wcPing :: bool
  wcPong :: bool

record 'r WSocket =
  wsConn :: bool \<comment> \<open>not \<open>nil\<close>\<close>
  wsDialer :: ws_dialer
  wsUrl :: string
  wsUseCompression :: bool
  wsUseSSL :: bool
  wsSubprotocols :: "string list"
  wsOpts :: "'r web_Options option" \<comment> \<open>\<open>None\<close>: the zero value\<close>
  wsRequestHeader :: http_header
  wsCalls :: ws_callbacks
  wsIsConnected :: bool

definition no_callbacks :: ws_callbacks where
  "no_callbacks = \<lparr>wcConnected = False, wcText = False, wcBinary = False, wcConnectError = False, wcDisconnected = False, wcPing = False, wcPong = False\<rparr>"

definition ws_New :: "string \<Rightarrow> 'r WSocket" where
  "ws_New url =
     \<lparr>wsConn = False, wsDialer = \<lparr>wdEnableCompression = False, wdInsecureSkipVerify = False, wdSubprotocols = []\<rparr>, wsUrl = url, wsUseCompression = False, wsUseSSL = True,
      wsSubprotocols = [], wsOpts = None, wsRequestHeader = Map.empty, wsCalls = no_callbacks, wsIsConnected = False\<rparr>"

definition ws_NewWithRegistry :: "int \<Rightarrow> 'r \<Rightarrow> string \<Rightarrow> ('r web_Options \<Rightarrow> 'r web_Options) list \<Rightarrow> 'r WSocket" where
  "ws_NewWithRegistry now defaultRegistry url opts =
     (ws_New url)\<lparr>wsOpts := Some (fold (\<lambda>f. f) opts
        \<lparr>woRegistry = defaultRegistry, woSelector = RoundBinSelect now, woDestination = ''X-Media-Server'', woRouteTag = ''serverId'', woTtl = None\<rparr>)\<rparr>"

subsection \<open>The address\<close>

fun first_node :: "nat list \<Rightarrow> Next \<Rightarrow> uint64 \<Rightarrow> (Node option \<times> uint64) option" where
  \<comment> \<open>the loop: the first of three calls without an error\<close>
  "first_node [] next key = Some (None, key)"
| "first_node (r # rs) next key = do {
     (n, next, key) \<leftarrow> next_call r (next, key);
     case n of Inl err \<Rightarrow> first_node rs next key | Inr n \<Rightarrow> Some (Some n, key) }"

definition getUrlFromRegistry :: "(string \<Rightarrow> 'e + Service list) \<Rightarrow> (nat \<Rightarrow> nat) \<Rightarrow> 'r WSocket \<Rightarrow> uint64 \<Rightarrow> (string \<times> uint64) option" where
  \<comment> \<open>without a selector, calling it is a panic\<close>
  "getUrlFromRegistry reg rnd socket key =
     (if length (wsUrl socket) < 7 then Some ([], key)
      else
        let subUrl = drop 5 (wsUrl socket)
        in case index_byte (CHR ''/'') subUrl of
             None \<Rightarrow> Some ([], key)
           | Some firtPos \<Rightarrow>
               if firtPos < 1 then Some ([], key)
               else
                 let serviceName = take firtPos subUrl; suffix = drop firtPos subUrl
                 in case reg serviceName of
                      Inl err \<Rightarrow> Some ([], key)
                    | Inr services \<Rightarrow>
                        if length services = 0 then Some ([], key)
                        else do {
                          opts \<leftarrow> wsOpts socket;
                          (n, key) \<leftarrow> first_node [rnd 0, rnd 1, rnd 2] (woSelector opts services) key;
                          Some (case n of None \<Rightarrow> [] | Some n \<Rightarrow> ''ws://'' @ node_host n @ suffix, key) })"

definition setConnectionOptions :: "'r WSocket \<Rightarrow> 'r WSocket" where
  "setConnectionOptions socket =
     socket\<lparr>wsDialer := \<lparr>wdEnableCompression = wsUseCompression socket, wdInsecureSkipVerify = wsUseSSL socket, wdSubprotocols = wsSubprotocols socket\<rparr>\<rparr>"

subsection \<open>Connecting, receiving, sending\<close>

definition ws_emit :: "bool \<Rightarrow> ws_event \<Rightarrow> 'r WSocket \<Rightarrow> (ws_event \<times> bool) list" where
  "ws_emit is_set ev socket = (if is_set then [(ev, wsIsConnected socket)] else [])"

definition ws_Connect ::
  "(string \<Rightarrow> 'e + Service list) \<Rightarrow> (nat \<Rightarrow> nat) \<Rightarrow> (ws_dialer \<Rightarrow> string \<Rightarrow> http_header \<Rightarrow> goerr option) \<Rightarrow> 'r WSocket \<Rightarrow> uint64 \<Rightarrow>
   ((ws_event \<times> bool) list \<times> bool \<times> 'r WSocket \<times> uint64) option" where
  \<comment> \<open>the events, whether a goroutine that receives is started, the socket\<close>
  "ws_Connect reg rnd dial socket key = do {
     let socket = setConnectionOptions socket;
     (destUrl, key) \<leftarrow> getUrlFromRegistry reg rnd socket key;
     let destUrl = (if destUrl = [] then wsUrl socket else destUrl);
     case dial (wsDialer socket) destUrl (wsRequestHeader socket) of
       Some err \<Rightarrow>
         let socket = socket\<lparr>wsConn := False, wsIsConnected := False\<rparr>
         in Some (ws_emit (wcConnectError (wsCalls socket)) (OnConnectError err) socket, False, socket, key)
     | None \<Rightarrow>
         let socket = socket\<lparr>wsConn := True\<rparr>
         in if wcConnected (wsCalls socket) then
              let socket = socket\<lparr>wsIsConnected := True\<rparr> in Some (ws_emit True OnConnected socket, True, socket, key)
            else Some ([], True, socket, key) }"

definition NewWSocket :: "(ws_event \<times> bool) list \<times> 'r WSocket" where
  \<comment> \<open>for a connection of a server; the socket is new, so its callbacks are not set\<close>
  "NewWSocket =
     (let socket = (ws_New [])\<lparr>wsConn := True\<rparr>
      in if wcConnected (wsCalls socket) then let socket = socket\<lparr>wsIsConnected := True\<rparr> in (ws_emit True OnConnected socket, socket) else ([], socket))"

datatype ws_frame = WText string | WBinary "byte list" | WPing string | WPong string | WClose int string | WReadError goerr

record ws_handlers =
  whPing :: "string \<Rightarrow> goerr option"
  whPong :: "string \<Rightarrow> goerr option"
  whClose :: "int \<Rightarrow> string \<Rightarrow> goerr option"

definition pingHandler :: "ws_handlers \<Rightarrow> string \<Rightarrow> 'r WSocket \<Rightarrow> (ws_event \<times> bool) list \<times> goerr option" where
  "pingHandler H appData socket = (ws_emit (wcPing (wsCalls socket)) (OnPingReceived appData) socket, whPing H appData)"

definition pongHandler :: "ws_handlers \<Rightarrow> string \<Rightarrow> 'r WSocket \<Rightarrow> (ws_event \<times> bool) list \<times> goerr option" where
  "pongHandler H appData socket = (ws_emit (wcPong (wsCalls socket)) (OnPongReceived appData) socket, whPong H appData)"

definition closeHandler :: "ws_handlers \<Rightarrow> int \<Rightarrow> string \<Rightarrow> 'r WSocket \<Rightarrow> (ws_event \<times> bool) list \<times> goerr option \<times> 'r WSocket" where
  "closeHandler H code t socket =
     (let result = whClose H code t
      in if wcDisconnected (wsCalls socket) then
           let socket = socket\<lparr>wsIsConnected := False\<rparr> in (ws_emit True (OnDisconnected (Some (GoErr t))) socket, result, socket)
         else ([], result, socket))"

fun ws_receive :: "ws_handlers \<Rightarrow> ws_frame list \<Rightarrow> 'r WSocket \<Rightarrow> (ws_event \<times> bool) list \<times> bool \<times> 'r WSocket" where
  \<comment> \<open>the goroutine of \<open>Connect\<close> and \<open>Start\<close>: the events, whether it has ended, the socket\<close>
  "ws_receive H [] socket = ([], False, socket)"
| "ws_receive H (WReadError e # fs) socket = ([], True, socket)"
| "ws_receive H (WClose code t # fs) socket = (let (evs, result, socket) = closeHandler H code t socket in (evs, True, socket))"
| "ws_receive H (WPing d # fs) socket =
     (let (evs, err) = pingHandler H d socket
      in if err = None then let (evs', x) = ws_receive H fs socket in (evs @ evs', x) else (evs, True, socket))"
| "ws_receive H (WPong d # fs) socket =
     (let (evs, err) = pongHandler H d socket
      in if err = None then let (evs', x) = ws_receive H fs socket in (evs @ evs', x) else (evs, True, socket))"
| "ws_receive H (WText m # fs) socket = (let (evs', x) = ws_receive H fs socket in (ws_emit (wcText (wsCalls socket)) (OnTextMessage m) socket @ evs', x))"
| "ws_receive H (WBinary m # fs) socket = (let (evs', x) = ws_receive H fs socket in (ws_emit (wcBinary (wsCalls socket)) (OnBinaryMessage m) socket @ evs', x))"

definition TextMessage :: int where "TextMessage = 1"

definition BinaryMessage :: int where "BinaryMessage = 2"

definition CloseMessage :: int where "CloseMessage = 8"

definition ws_send :: "(int \<Rightarrow> byte list \<Rightarrow> 'w \<Rightarrow> goerr option \<times> 'w) \<Rightarrow> int \<Rightarrow> byte list \<Rightarrow> 'r WSocket \<Rightarrow> 'w \<Rightarrow> (goerr option \<times> 'w) option" where
  "ws_send write messageType data socket w = (if wsConn socket then Some (write messageType data w) else None)"

definition SendText :: "(int \<Rightarrow> byte list \<Rightarrow> 'w \<Rightarrow> goerr option \<times> 'w) \<Rightarrow> string \<Rightarrow> 'r WSocket \<Rightarrow> 'w \<Rightarrow> 'w option" where
  \<comment> \<open>an error is only logged\<close>
  "SendText write message socket w = map_option snd (ws_send write TextMessage (map of_char message) socket w)"

definition SendBinary :: "(int \<Rightarrow> byte list \<Rightarrow> 'w \<Rightarrow> goerr option \<times> 'w) \<Rightarrow> byte list \<Rightarrow> 'r WSocket \<Rightarrow> 'w \<Rightarrow> 'w option" where
  "SendBinary write data socket w = map_option snd (ws_send write BinaryMessage data socket w)"

definition ws_Close :: "(int \<Rightarrow> byte list \<Rightarrow> 'w \<Rightarrow> goerr option \<times> 'w) \<Rightarrow> ('w \<Rightarrow> 'w) \<Rightarrow> 'r WSocket \<Rightarrow> 'w \<Rightarrow> ((ws_event \<times> bool) list \<times> 'r WSocket \<times> 'w) option" where
  \<comment> \<open>the content of the message is the code 1000, a normal closure\<close>
  "ws_Close write close socket w = do {
     (err, w) \<leftarrow> ws_send write CloseMessage [3, 232] socket w;
     let w = close w;
     Some (if wcDisconnected (wsCalls socket) then
             let socket = socket\<lparr>wsIsConnected := False\<rparr> in (ws_emit True (OnDisconnected err) socket, socket, w)
           else ([], socket, w)) }"

subsection \<open>What arrives and what is called\<close>

fun ws_stops :: "ws_handlers \<Rightarrow> ws_frame \<Rightarrow> bool" where
  "ws_stops H (WReadError e) = True"
| "ws_stops H (WClose code t) = True"
| "ws_stops H (WPing d) = (whPing H d \<noteq> None)"
| "ws_stops H (WPong d) = (whPong H d \<noteq> None)"
| "ws_stops H (WText m) = False"
| "ws_stops H (WBinary m) = False"

fun frame_events :: "ws_callbacks \<Rightarrow> ws_frame \<Rightarrow> ws_event list" where
  "frame_events c (WText m) = (if wcText c then [OnTextMessage m] else [])"
| "frame_events c (WBinary m) = (if wcBinary c then [OnBinaryMessage m] else [])"
| "frame_events c (WPing d) = (if wcPing c then [OnPingReceived d] else [])"
| "frame_events c (WPong d) = (if wcPong c then [OnPongReceived d] else [])"
| "frame_events c (WClose code t) = (if wcDisconnected c then [OnDisconnected (Some (GoErr t))] else [])"
| "frame_events c (WReadError e) = []"

definition is_close :: "ws_frame \<Rightarrow> bool" where
  "is_close f = (case f of WClose _ _ \<Rightarrow> True | _ \<Rightarrow> False)"

lemma ws_receive_spec:
  "ws_receive H fs s =
     (let good = takeWhile (\<lambda>f. \<not> ws_stops H f) fs; rest = dropWhile (\<lambda>f. \<not> ws_stops H f) fs;
          closes = (rest \<noteq> [] \<and> is_close (hd rest) \<and> wcDisconnected (wsCalls s))
      in (map (\<lambda>e. (e, wsIsConnected s)) (concat (map (frame_events (wsCalls s)) good)) @
            map (\<lambda>e. (e, wsIsConnected s \<and> \<not> closes)) (concat (map (frame_events (wsCalls s)) (take 1 rest))),
          rest \<noteq> [], if closes then s\<lparr>wsIsConnected := False\<rparr> else s))"
  by (induction H fs s rule: ws_receive.induct)
    (auto simp: Let_def is_close_def ws_emit_def pingHandler_def pongHandler_def closeHandler_def split: prod.splits)

text \<open>C37. A run of the goroutine that receives for a web socket, while the program calls neither \<open>Close\<close> nor \<open>Connect\<close> (which change the socket as well): it calls the callbacks for what arrives, each once and in the order of arrival,
  until a read fails, a handler fails or the peer closes, and then ends. Every callback is given a socket with \<open>IsConnected\<close> as it was at the start of the run; the goroutine itself sets it to false only on a close by the peer, if there is a callback for it, and
  before that call.\<close>
theorem ws_delivery:
  assumes "fs = good @ rest" and "\<forall>f \<in> set good. \<not> ws_stops H f" and "rest = [] \<or> ws_stops H (hd rest)" and "ws_receive H fs s = (events, over, s')"
  shows "map fst events = concat (map (frame_events (wsCalls s)) (good @ take 1 rest)) \<and> over = (rest \<noteq> []) \<and>
    s' = s\<lparr>wsIsConnected := wsIsConnected s'\<rparr> \<and> wsIsConnected s' = (wsIsConnected s \<and> (\<forall>v. OnDisconnected v \<notin> fst ` set events)) \<and>
    (\<forall>(e, c) \<in> set events. c = (wsIsConnected s \<and> (\<forall>v. e \<noteq> OnDisconnected v)))"
proof -
  have tw: "takeWhile (\<lambda>f. \<not> ws_stops H f) fs = good" "dropWhile (\<lambda>f. \<not> ws_stops H f) fs = rest"
    using assms(1-3) by (cases rest; simp add: takeWhile_append2 dropWhile_append2)+
  have data: "OnDisconnected v \<notin> set (frame_events c f)" if "\<not> is_close f" for v c f using that by (cases f) (auto simp: is_close_def)
  have good: "OnDisconnected v \<notin> set (frame_events c f)" if "f \<in> set good" for v c f
    using that assms(2) by (intro data) (auto simp: is_close_def split: ws_frame.splits)
  note ev = assms(4) [unfolded ws_receive_spec tw Let_def, symmetric]
  show ?thesis
  proof (cases "rest \<noteq> [] \<and> is_close (hd rest) \<and> wcDisconnected (wsCalls s)")
    case True
    then obtain code t rest' where "rest = WClose code t # rest'" by (cases rest) (auto simp: is_close_def split: ws_frame.splits)
    with True ev good show ?thesis by (auto simp: comp_def map_concat is_close_def)
  next
    case False
    then have rest: "OnDisconnected v \<notin> set (frame_events (wsCalls s) f)" if "f \<in> set (take 1 rest)" for v f
      using that by (cases rest; cases f) (auto simp: is_close_def)
    with False ev good show ?thesis by (auto simp: comp_def map_concat)
  qed
qed

theorem ws_delivery_witness:
  "\<exists>events s'. ws_receive \<lparr>whPing = \<lambda>_. None, whPong = \<lambda>_. None, whClose = \<lambda>_ _. None\<rparr> [WText ''a'', WPing ''p'', WBinary [1], WClose 1000 ''bye'', WText ''late'']
      ((ws_New [] :: unit WSocket)\<lparr>wsCalls := no_callbacks\<lparr>wcText := True, wcBinary := True, wcDisconnected := True\<rparr>, wsIsConnected := True\<rparr>) = (events, True, s') \<and>
    map fst events = [OnTextMessage ''a'', OnBinaryMessage [1], OnDisconnected (Some (GoErr ''bye''))] \<and> \<not> wsIsConnected s'"
proof -
  let ?H = "\<lparr>whPing = \<lambda>_. None, whPong = \<lambda>_. None, whClose = \<lambda>_ _. None\<rparr>" and ?fs = "[WText ''a'', WPing ''p'', WBinary [1], WClose 1000 ''bye'', WText ''late'']"
  let ?s = "(ws_New [] :: unit WSocket)\<lparr>wsCalls := no_callbacks\<lparr>wcText := True, wcBinary := True, wcDisconnected := True\<rparr>, wsIsConnected := True\<rparr>"
  obtain events over s' where r: "ws_receive ?H ?fs ?s = (events, over, s')" by (metis prod_cases3)
  moreover have "OnDisconnected (Some (GoErr ''bye'')) \<in> fst ` set events"
    using r by (auto simp: closeHandler_def pingHandler_def ws_emit_def Let_def no_callbacks_def)
  ultimately show ?thesis
    using ws_delivery [of ?fs "[WText ''a'', WPing ''p'', WBinary [1]]" "[WClose 1000 ''bye'', WText ''late'']" ?H ?s events over s']
    by (auto simp: no_callbacks_def)
qed

text \<open>A connection that is lost without a close by the peer ends the goroutine without a callback, and the socket goes on to say that it is connected.\<close>

lemma ws_lost_silently: "ws_receive H (WReadError e # fs) s = ([], True, s)"
  by simp

text \<open>Without a callback for the connection \<open>IsConnected\<close> is never set, and the socket that a server makes has none when it is made.\<close>

lemma ws_Connect_unset:
  assumes "\<not> wcConnected (wsCalls s)" and "\<not> wsIsConnected s" and "ws_Connect reg rnd dial s key = Some (evs, started, s', key')"
  shows "\<not> wsIsConnected s'"
  using assms by (auto simp: ws_Connect_def setConnectionOptions_def Let_def split: bind_splits option.splits)

lemma NewWSocket_unset: "NewWSocket = ([], (ws_New [])\<lparr>wsConn := True\<rparr>)"
  by (simp add: NewWSocket_def ws_New_def no_callbacks_def Let_def)

text \<open>Closing a socket that the peer has closed calls the callback again.\<close>

lemma ws_disconnected_twice:
  assumes "wcDisconnected (wsCalls s)" and "wsConn s" and "ws_receive H (WClose code t # fs) s = (evs, over, s')"
  shows "evs = [(OnDisconnected (Some (GoErr t)), False)] \<and>
    (\<exists>err w'. ws_Close write close s' w = Some ([(OnDisconnected err, False)], s', w'))"
  using assms by (auto simp: closeHandler_def ws_emit_def ws_Close_def ws_send_def Let_def case_prod_beta)

text \<open>With the option \<open>UseSSL\<close> certificates are not verified.\<close>

lemma ws_New_unverified: "wdInsecureSkipVerify (wsDialer (setConnectionOptions (ws_New url)))"
  by (simp add: setConnectionOptions_def ws_New_def)

text \<open>The address of a service: the name between the scheme and the first slash is looked up, and the rest of the URL is kept. A URL with the scheme \<open>wss\<close> is never looked up.\<close>

lemma getUrl_service:
  assumes "wsUrl s = ''ws://'' @ name @ ''/'' @ path" and "CHR ''/'' \<notin> set name" and "name \<noteq> []"
    and "reg name = Inr services" and "services \<noteq> []" and "wsOpts s = Some opts" and "next_call (rnd 0) (woSelector opts services, key) = Some (Inr n, next', key')"
  shows "getUrlFromRegistry reg rnd s key = Some (''ws://'' @ node_host n @ ''/'' @ path, key')"
proof -
  have "index_byte (CHR ''/'') (name @ ''/'' @ path) = Some (length name)"
    using assms(2) by (simp add: index_byte_def takeWhile_no)
  moreover have "\<not> length (wsUrl s) < 7" using assms(1,3) by (cases name) auto
  ultimately show ?thesis using assms by (cases name) (simp_all add: getUrlFromRegistry_def)
qed

lemma getUrl_wss: "wsUrl s = ''wss://'' @ rest \<Longrightarrow> getUrlFromRegistry reg rnd s key = Some ([], key)"
  by (auto simp: getUrlFromRegistry_def index_byte_def)

end
