(* ===== verification/Trace.thy ===== *)
theory Trace
  imports Metadata MemUtil Rcache ConnPool
begin

text \<open>
  \<^verbatim>\<open>trace/\<close> and \<^verbatim>\<open>util/trace/\<close>: spans of calls, carried in contexts and headers, collected in batches; and a tracer that keeps spans in memory.

  Representation. Of a context the metadata (as in the theory \<open>Metadata\<close>) and the spans are kept. A span is a value; where the code goes on to change one that a context points to, the context is given the
  span as it is when it is read. Identifiers that \<open>uuid.New\<close> makes and clock readings are functions of their number in a call. The client that is wrapped is a function. The buffered channel of the collector is a list of at
  most 100 spans; its goroutine and the ticker are steps. A batch counts as sent
  when the goroutine that will publish it is started; that goroutine itself has no step. The package \<open>opentracing\<close> is the record \<open>ot_tracer\<close>. Times are nanoseconds, the zero time being \<open>None\<close>.
\<close>

subsection \<open>Spans\<close>

datatype AnnotationType =
    AnnUnknown | AnnStart | AnnEnd | AnnTimeout | AnnClientRequest | AnnClientResponse | AnnClientPublication
  | AnnServerRequest | AnnServerResponse | AnnServerSubscription

record Annotation =
  anTimestamp :: "int option"
  anType :: AnnotationType
  anKey :: string
  anValue :: "byte list"
  anDebug :: "(string \<times> string) list"
  anService :: "Service option"

record Span =
  spName :: string
  spId :: string
  spTraceId :: string
  spParentId :: string
  spTimestamp :: "int option"
  spDuration :: int
  spDebug :: bool
  spSource :: "Service option"
  spDestination :: "Service option"
  spAnnotations :: "Annotation list"

definition zero_span :: Span where
  "zero_span = \<lparr>spName = [], spId = [], spTraceId = [], spParentId = [], spTimestamp = None, spDuration = 0, spDebug = False, spSource = None, spDestination = None, spAnnotations = []\<rparr>"

definition span_Topic :: "Span \<Rightarrow> string" where "span_Topic s = spName s"

definition span_ContentType :: "Span \<Rightarrow> string" where "span_ContentType s = ''application/json''"

definition TraceHeader :: string where "TraceHeader = ''X-Micro-Trace-Id''"

definition SpanHeader :: string where "SpanHeader = ''X-Micro-Span-Id''"

definition ParentHeader :: string where "ParentHeader = ''X-Micro-Parent-Id''"

definition DebugHeader :: string where "DebugHeader = ''X-Micro-Trace-Debug''"

definition md_value :: "string \<Rightarrow> MetaData \<Rightarrow> string" where
  \<comment> \<open>\<open>md[k]\<close>\<close>
  "md_value k md = (case md_lookup k md of None \<Rightarrow> [] | Some v \<Rightarrow> v)"

definition SpanFromHeader :: "int \<Rightarrow> MetaData \<Rightarrow> Span option" where
  "SpanFromHeader now md =
     (let debug = (md_value DebugHeader md = ''1'')
      in if length (md_value SpanHeader md) = 0 \<and> length (md_value TraceHeader md) = 0 then None
         else Some (zero_span\<lparr>spId := md_value SpanHeader md, spTraceId := md_value TraceHeader md, spParentId := md_value ParentHeader md, spDebug := debug, spTimestamp := Some now\<rparr>))"

definition HeaderWithSpan :: "MetaData \<Rightarrow> Span \<Rightarrow> MetaData" where
  "HeaderWithSpan md s =
     (let debug = (if spDebug s then ''1'' else ''0'')
      in md_put DebugHeader debug (md_put ParentHeader (spParentId s) (md_put TraceHeader (spTraceId s) (md_put SpanHeader (spId s) md))))"

subsection \<open>The collector\<close>

record tr_options =
  toBatchSize :: int
  toBatchInterval :: int
  toCollectTimeout :: int
  toCollectors :: "string list"
  toTopic :: string
  toService :: "Service option"

definition tr_BatchSize :: "int \<Rightarrow> tr_options \<Rightarrow> tr_options" where "tr_BatchSize b = toBatchSize_update (\<lambda>_. b)"

definition tr_BatchInterval :: "int \<Rightarrow> tr_options \<Rightarrow> tr_options" where "tr_BatchInterval b = toBatchInterval_update (\<lambda>_. b)"

definition tr_Collectors :: "string list \<Rightarrow> tr_options \<Rightarrow> tr_options" where "tr_Collectors c = toCollectors_update (\<lambda>_. c)"

definition tr_Topic :: "string \<Rightarrow> tr_options \<Rightarrow> tr_options" where "tr_Topic t = toTopic_update (\<lambda>_. t)"

definition tr_Service :: "Service option \<Rightarrow> tr_options \<Rightarrow> tr_options" where "tr_Service s = toService_update (\<lambda>_. s)"

definition tr_CollectTimeout :: "int \<Rightarrow> tr_options \<Rightarrow> tr_options" where "tr_CollectTimeout t = toCollectTimeout_update (\<lambda>_. t)"

record os_trace =
  osOpts :: tr_options
  osSpans :: "Span list" \<comment> \<open>the channel\<close>
  osExit :: bool \<comment> \<open>closed\<close>
  osRunning :: bool \<comment> \<open>the goroutine \<open>run\<close> has not returned\<close>
  osBuf :: "Span list" \<comment> \<open>the variable \<open>buf\<close> of \<open>run\<close>\<close>
  osBatches :: "Span list list" \<comment> \<open>the arguments of \<open>send\<close>, in the order in which its goroutines were started\<close>

definition newOSTrace :: "(tr_options \<Rightarrow> tr_options) list \<Rightarrow> os_trace" where
  "newOSTrace opts =
     (let opt = fold (\<lambda>f. f) opts \<lparr>toBatchSize = 0, toBatchInterval = 0, toCollectTimeout = 0, toCollectors = [], toTopic = [], toService = None\<rparr>;
          opt = (if toBatchSize opt = 0 then opt\<lparr>toBatchSize := 100\<rparr> else opt);
          opt = (if toBatchInterval opt = 0 then opt\<lparr>toBatchInterval := 5 * 10 ^ 9\<rparr> else opt);
          opt = (if length (toTopic opt) = 0 then opt\<lparr>toTopic := ''micro.trace.span''\<rparr> else opt)
      in \<lparr>osOpts = opt, osSpans = [], osExit = False, osRunning = True, osBuf = [], osBatches = []\<rparr>)"

definition os_send :: "(Span \<Rightarrow> 'w \<Rightarrow> goerr option \<times> 'w) \<Rightarrow> Span list \<Rightarrow> 'w \<Rightarrow> 'w" where
  \<comment> \<open>errors are dropped; the topic of the options is not used\<close>
  "os_send publish buf w = fold (\<lambda>s w. snd (publish s w)) buf w"

definition os_flush :: "os_trace \<Rightarrow> os_trace" where
  "os_flush o' = o'\<lparr>osBatches := osBatches o' @ [osBuf o'], osBuf := []\<rparr>"

definition run_span :: "os_trace \<Rightarrow> os_trace" where
  \<comment> \<open>the first case of the select\<close>
  "run_span o' =
     (case osSpans o' of
        [] \<Rightarrow> o'
      | s # spans \<Rightarrow>
          let o' = o'\<lparr>osSpans := spans, osBuf := osBuf o' @ [s]\<rparr>
          in if int (length (osBuf o')) \<ge> toBatchSize (osOpts o') then os_flush o' else o')"

definition run_tick :: "os_trace \<Rightarrow> os_trace" where
  "run_tick o' = (if length (osBuf o') > 0 then os_flush o' else o')"

definition os_Close :: "os_trace \<Rightarrow> os_trace" where
  "os_Close o' = (if osExit o' then o' else o'\<lparr>osExit := True\<rparr>)"

definition Collect :: "bool \<Rightarrow> Span \<Rightarrow> os_trace \<Rightarrow> goerr option \<times> os_trace" where
  \<comment> \<open>the flag: the timer fires first, as it may at any time with the timeout 0 that the options have unless it is set, and must if there is no room\<close>
  "Collect timer s o' =
     (if timer \<or> length (osSpans o') \<ge> 100 then (Some (GoErr ''Timed out sending span''), o')
      else (None, o'\<lparr>osSpans := osSpans o' @ [s]\<rparr>))"

definition os_NewSpan :: "(nat \<Rightarrow> string) \<Rightarrow> int \<Rightarrow> Span option \<Rightarrow> os_trace \<Rightarrow> Span" where
  "os_NewSpan uuid now s o' =
     (case s of
        None \<Rightarrow> zero_span\<lparr>spId := uuid 0, spTraceId := uuid 1, spParentId := ''0'', spTimestamp := Some now, spSource := toService (osOpts o')\<rparr>
      | Some s \<Rightarrow>
          let cp = s;
              cp = (if length (spTraceId s) = 0 then cp\<lparr>spTraceId := uuid 1\<rparr> else cp);
              cp = (if length (spParentId s) = 0 then cp\<lparr>spParentId := ''0''\<rparr> else cp);
              cp = (if length (spId s) = 0 then cp\<lparr>spId := uuid 0\<rparr> else cp);
              cp = (if spTimestamp s = None then cp\<lparr>spTimestamp := Some now\<rparr> else cp)
          in if spSource s = None then cp\<lparr>spSource := toService (osOpts o')\<rparr> else cp)"

inductive os_step :: "Span list \<times> os_trace \<Rightarrow> Span list \<times> os_trace \<Rightarrow> bool" where
  \<comment> \<open>with the spans that \<open>Collect\<close> has taken\<close>
  os_collect: "Collect timer s o' = (None, p) \<Longrightarrow> os_step (log, o') (log @ [s], p)"
| os_refuse: "Collect timer s o' = (Some e, p) \<Longrightarrow> os_step (log, o') (log, p)"
| os_span: "osRunning o' \<Longrightarrow> os_step (log, o') (log, run_span o')"
| os_tick: "osRunning o' \<Longrightarrow> os_step (log, o') (log, run_tick o')"
| os_exit: "osRunning o' \<Longrightarrow> osExit o' \<Longrightarrow> os_step (log, o') (log, o'\<lparr>osRunning := False\<rparr>)"
| os_close: "os_step (log, o') (log, os_Close o')"

subsection \<open>The client wrapper\<close>

record tr_ctx =
  cxMd :: md_context
  cxSpan :: "Span option"

definition SpanFromContext :: "tr_ctx \<Rightarrow> Span option" where "SpanFromContext ctx = cxSpan ctx"

definition ContextWithSpan :: "tr_ctx \<Rightarrow> Span \<Rightarrow> tr_ctx" where "ContextWithSpan ctx s = ctx\<lparr>cxSpan := Some s\<rparr>"

definition annotate :: "int \<Rightarrow> AnnotationType \<Rightarrow> (string \<times> string) list \<Rightarrow> Service option \<Rightarrow> Span \<Rightarrow> Span" where
  "annotate now t debug service span =
     span\<lparr>spAnnotations := spAnnotations span @ [\<lparr>anTimestamp = Some now, anType = t, anKey = [], anValue = [], anDebug = debug, anService = service\<rparr>]\<rparr>"

definition call_span :: "(nat \<Rightarrow> string) \<Rightarrow> (nat \<Rightarrow> int) \<Rightarrow> os_trace \<Rightarrow> tr_ctx \<Rightarrow> Span" where
  \<comment> \<open>the first part of \<open>Call\<close>: a child of the span in the context, or of the one in the metadata, or a new one\<close>
  "call_span uuid clk t ctx =
     (let (md, mk) = (case FromContext (cxMd ctx) of None \<Rightarrow> ([], False) | Some md \<Rightarrow> (md, True));
          (span, ok, okk) =
            (case SpanFromContext ctx of
               Some span \<Rightarrow> (span, True, False)
             | None \<Rightarrow>
                 if \<not> mk then (os_NewSpan uuid (clk 0) None t, False, False)
                 else (case SpanFromHeader (clk 0) md of
                         Some span \<Rightarrow> (span, False, True)
                       | None \<Rightarrow> (os_NewSpan uuid (clk 0) None t, False, False)))
      in if okk \<or> ok
         then os_NewSpan uuid (clk 1) (Some (zero_span\<lparr>spTraceId := spTraceId span, spParentId := spId span, spDebug := spDebug span\<rparr>)) t
         else span)"

definition wrapper_Call ::
  "(nat \<Rightarrow> string) \<Rightarrow> (nat \<Rightarrow> int) \<Rightarrow> bool \<Rightarrow> (tr_ctx \<Rightarrow> goerr option) \<Rightarrow> Service option \<Rightarrow> os_trace \<Rightarrow> string \<Rightarrow> string \<Rightarrow> tr_ctx \<Rightarrow>
   goerr option \<times> tr_ctx \<times> Span \<times> os_trace" where
  \<comment> \<open>with the context that the client below gets and the span that is collected\<close>
  "wrapper_Call uuid clk timer call serv t service method ctx =
     (let md = (case FromContext (cxMd ctx) of None \<Rightarrow> [] | Some md \<Rightarrow> md);
          span = annotate (clk 2) AnnStart [] serv (call_span uuid clk t ctx);
          span = span\<lparr>spDebug := True, spName := service @ ''.'' @ method, spSource := serv,
            spDestination := Some \<lparr>svName = service, svVersion = [], svMetadata = None, svEndpoints = [], svNodes = []\<rparr>\<rparr>;
          newMd = md_NewContext (HeaderWithSpan md span);
          span = annotate (clk 3) AnnClientRequest [] serv span;
          newCtx = (ContextWithSpan ctx span)\<lparr>cxMd := newMd\<rparr>;
          err = call newCtx;
          span = annotate (clk 4) AnnClientResponse [] serv span;
          debug = (case err of None \<Rightarrow> [] | Some e \<Rightarrow> [(''error'', errText e)]);
          span = annotate (clk 5) AnnEnd debug serv span;
          span = span\<lparr>spDuration := clk 6 - (case spTimestamp span of None \<Rightarrow> 0 | Some ts \<Rightarrow> ts)\<rparr>;
          (_, t) = Collect timer span t
      in (err, newCtx, span, t))"

subsection \<open>Spans in memory\<close>

datatype SpanType = SpanTypeRequestInbound | SpanTypeRequestOutbound

record mt_span =
  msTrace :: string
  msName :: string
  msId :: string
  msParent :: string
  msStarted :: int
  msDuration :: int
  msMetadata :: MetaData
  msType :: SpanType

type_synonym memTracer = "mt_span ring_buffer"

definition traceIDKey :: string where "traceIDKey = ''Micro-Trace-Id''"

definition spanIDKey :: string where "spanIDKey = ''Micro-Span-Id''"

definition tr_FromContext :: "md_context \<Rightarrow> string \<times> string \<times> bool" where
  "tr_FromContext ctx =
     (let traceID = ctx_Get traceIDKey ctx; microID = ctx_Get ''Micro-Id'' ctx
      in if traceID = None \<and> microID = None then ([], [], False)
         else
           let traceID = (case traceID of Some t \<Rightarrow> t | None \<Rightarrow> (case microID of Some m \<Rightarrow> m | None \<Rightarrow> []))
           in case ctx_Get spanIDKey ctx of None \<Rightarrow> (traceID, [], False) | Some p \<Rightarrow> (traceID, p, True))"

definition tr_ToContext :: "md_context \<Rightarrow> string \<Rightarrow> string \<Rightarrow> md_context" where
  "tr_ToContext ctx traceID parentSpanID = MergeContext [(traceIDKey, traceID), (spanIDKey, parentSpanID)] True ctx"

definition NewTracer :: "(int \<Rightarrow> int) list \<Rightarrow> memTracer" where
  \<comment> \<open>the size in the options is not used\<close>
  "NewTracer opts = ring_New 256"

definition mt_Start :: "(nat \<Rightarrow> string) \<Rightarrow> int \<Rightarrow> md_context option \<Rightarrow> string \<Rightarrow> md_context \<times> mt_span" where
  \<comment> \<open>\<open>None\<close>: the context is \<open>nil\<close>\<close>
  "mt_Start uuid now ctx name =
     (let span = \<lparr>msTrace = uuid 0, msName = name, msId = uuid 1, msParent = [], msStarted = now, msDuration = 0, msMetadata = [], msType = SpanTypeRequestInbound\<rparr>
      in case ctx of
           None \<Rightarrow> (tr_ToContext None (msTrace span) (msId span), span)
         | Some ctx \<Rightarrow>
             let (traceID, parentSpanID, ok) = tr_FromContext ctx
             in if \<not> ok then (tr_ToContext ctx (msTrace span) (msId span), span)
                else let span = span\<lparr>msTrace := traceID, msParent := parentSpanID\<rparr> in (tr_ToContext ctx (msTrace span) (msId span), span))"

definition mt_Finish :: "int \<Rightarrow> mt_span \<Rightarrow> memTracer \<Rightarrow> memTracer option" where
  "mt_Finish now s t = Put (\<lambda>_. False) now (s\<lparr>msDuration := now - msStarted s\<rparr>) t"

definition ReadTrace :: "string \<Rightarrow> string \<Rightarrow> string" where
  \<comment> \<open>the only field of the options is the trace\<close>
  "ReadTrace t = (\<lambda>_. t)"

definition mt_Read :: "(string \<Rightarrow> string) list \<Rightarrow> memTracer \<Rightarrow> mt_span list" where
  "mt_Read opts t =
     (let trace = fold (\<lambda>f. f) opts []
      in filter (\<lambda>val. \<not> (length trace > 0 \<and> msTrace val \<noteq> trace)) (map enValue (ring_Get (rbSize t) t)))"

subsection \<open>Open tracing\<close>

record 'c ot_tracer =
  otExtract :: "MetaData \<Rightarrow> 'c option"
  otStart :: "string \<Rightarrow> 'c list \<Rightarrow> 'c"
  otInject :: "'c \<Rightarrow> goerr + MetaData"

record 'c ot_ctx =
  ocMd :: md_context
  ocSpan :: "'c option"

datatype 'c ot_event = OtLogError 'c string | OtTagError 'c | OtFinish 'c

definition StartSpanFromContext :: "'c ot_tracer \<Rightarrow> string \<Rightarrow> 'c list \<Rightarrow> 'c ot_ctx \<Rightarrow> goerr + ('c ot_ctx \<times> 'c)" where
  "StartSpanFromContext tracer name opts ctx =
     (let md = (case FromContext (ocMd ctx) of None \<Rightarrow> [] | Some md \<Rightarrow> md);
          opts = (case ocSpan ctx of
                    Some parentSpan \<Rightarrow> opts @ [parentSpan]
                  | None \<Rightarrow> (case otExtract tracer md of Some spanCtx \<Rightarrow> opts @ [spanCtx] | None \<Rightarrow> opts));
          sp = otStart tracer name opts
      in case otInject tracer sp of
           Inl err \<Rightarrow> Inl err
         | Inr nmd \<Rightarrow>
             let md = fold (\<lambda>(k, v). md_Set (Title k) v) nmd md
             in Inr (ctx\<lparr>ocSpan := Some sp, ocMd := md_NewContext md\<rparr>, sp))"

definition ot_traced :: "'c ot_tracer \<Rightarrow> string \<Rightarrow> ('c ot_ctx \<Rightarrow> goerr option \<times> 'x) \<Rightarrow> 'x \<Rightarrow> 'c ot_ctx \<Rightarrow> goerr option \<times> 'x \<times> 'c ot_event list" where
  \<comment> \<open>what the methods of the wrapper have in common; \<open>none\<close> is what they return with an error of the tracer\<close>
  "ot_traced tracer name f none ctx =
     (case StartSpanFromContext tracer name [] ctx of
        Inl err \<Rightarrow> (Some err, none, [])
      | Inr (ctx, span) \<Rightarrow>
          let (err, x) = f ctx
          in (err, x, (case err of None \<Rightarrow> [] | Some e \<Rightarrow> [OtLogError span (errText e), OtTagError span]) @ [OtFinish span]))"

definition ot_Call :: "'c ot_tracer \<Rightarrow> ('c ot_ctx \<Rightarrow> goerr option) \<Rightarrow> string \<Rightarrow> string \<Rightarrow> 'c ot_ctx \<Rightarrow> goerr option \<times> 'c ot_event list" where
  "ot_Call ot call service endpoint ctx = (let (err, _, evs) = ot_traced ot (service @ ''.'' @ endpoint) (\<lambda>ctx. (call ctx, ())) () ctx in (err, evs))"

definition ot_Stream :: "'c ot_tracer \<Rightarrow> ('c ot_ctx \<Rightarrow> goerr option \<times> 's option) \<Rightarrow> string \<Rightarrow> string \<Rightarrow> 'c ot_ctx \<Rightarrow> goerr option \<times> 's option \<times> 'c ot_event list" where
  "ot_Stream ot stream service endpoint ctx = ot_traced ot (service @ ''.'' @ endpoint) stream None ctx"

definition ot_Publish :: "'c ot_tracer \<Rightarrow> ('c ot_ctx \<Rightarrow> goerr option) \<Rightarrow> string \<Rightarrow> 'c ot_ctx \<Rightarrow> goerr option \<times> 'c ot_event list" where
  "ot_Publish ot publish topic ctx = (let (err, _, evs) = ot_traced ot (''Pub to '' @ topic) (\<lambda>ctx. (publish ctx, ())) () ctx in (err, evs))"

definition NewCallWrapper :: "'c ot_tracer \<Rightarrow> 'c ot_tracer option \<Rightarrow> ('c ot_ctx \<Rightarrow> Node \<Rightarrow> goerr option) \<Rightarrow> string \<Rightarrow> string \<Rightarrow> 'c ot_ctx \<Rightarrow> Node \<Rightarrow> goerr option \<times> 'c ot_event list" where
  "NewCallWrapper globalTracer ot cf service endpoint ctx node =
     (let ot = (case ot of None \<Rightarrow> globalTracer | Some ot \<Rightarrow> ot); (err, _, evs) = ot_traced ot (service @ ''.'' @ endpoint) (\<lambda>ctx. (cf ctx node, ())) () ctx
      in (err, evs))"

subsection \<open>Batches\<close>

definition os_inv :: "int \<Rightarrow> Span list \<times> os_trace \<Rightarrow> bool" where
  "os_inv n = (\<lambda>(log, o').
     toBatchSize (osOpts o') = n \<and> concat (osBatches o') @ osBuf o' @ osSpans o' = log \<and> length (osSpans o') \<le> 100 \<and>
     (\<forall>b \<in> set (osBatches o'). b \<noteq> [] \<and> int (length b) \<le> max 1 n) \<and> int (length (osBuf o')) < max 1 n)"

lemma os_step_inv: "os_step s s' \<Longrightarrow> os_inv n s \<Longrightarrow> os_inv n s'"
  by (induction rule: os_step.induct)
    (auto simp: os_inv_def Collect_def run_span_def run_tick_def os_flush_def os_Close_def Let_def split: if_splits list.splits)

text \<open>C38. Every span that \<^verbatim>\<open>Collect\<close> has taken is in exactly one place, in the order of collection: in a batch that was sent, in the buffer, or in the channel. Batches are not empty and not longer than
  the batch size, and a full buffer is sent at once. What is in the buffer or the channel when the goroutine returns after \<^verbatim>\<open>Close\<close> is never sent.\<close>
theorem collector_batches:
  assumes "os_step\<^sup>*\<^sup>* ([], newOSTrace opts) (log, t)" and "n = toBatchSize (osOpts (newOSTrace opts))" and "os_step\<^sup>*\<^sup>* (log, t) (log', t')"
  shows "concat (osBatches t) @ osBuf t @ osSpans t = log \<and> (\<forall>b \<in> set (osBatches t). b \<noteq> [] \<and> int (length b) \<le> max 1 n) \<and> int (length (osBuf t)) < max 1 n \<and>
    (\<not> osRunning t \<longrightarrow> osBatches t' = osBatches t \<and> osBuf t' = osBuf t)"
proof -
  have "os_inv n ([], newOSTrace opts)" unfolding os_inv_def assms(2) by (auto simp: newOSTrace_def Let_def)
  with assms(1) have inv: "os_inv n (log, t)" by (induction rule: rtranclp_induct) (auto intro: os_step_inv)
  have ended: "osBatches t' = osBatches t \<and> osBuf t' = osBuf t \<and> \<not> osRunning t'" if "\<not> osRunning t"
    using assms(3) that
  proof (induction "(log', t')" arbitrary: log' t' rule: rtranclp_induct)
    case (step y)
    obtain l u where y: "y = (l, u)" by (cases y)
    with step have "osBatches u = osBatches t \<and> osBuf u = osBuf t \<and> \<not> osRunning u" by blast
    with step(2) y show ?case by (cases rule: os_step.cases) (auto simp: Collect_def os_Close_def split: if_splits)
  qed simp
  with inv show ?thesis by (auto simp: os_inv_def)
qed

theorem collector_batches_witness:
  "\<exists>s1 s2 s3 t. spId s1 = ''1'' \<and> spId s2 = ''2'' \<and> spId s3 = ''3'' \<and> os_step\<^sup>*\<^sup>* ([], newOSTrace [tr_BatchSize 2]) ([s1, s2, s3], t) \<and>
    osBatches t = [[s1, s2]] \<and> concat (osBatches t) @ osBuf t @ osSpans t = [s1, s2, s3]"
proof -
  define u where "u = newOSTrace [tr_BatchSize 2]"
  define s1 s2 s3 where "s1 = zero_span\<lparr>spId := ''1''\<rparr>" and "s2 = zero_span\<lparr>spId := ''2''\<rparr>" and "s3 = zero_span\<lparr>spId := ''3''\<rparr>"
  have n: "osRunning u" "osSpans u = []" "osBuf u = []" "osBatches u = []" "toBatchSize (osOpts u) = 2"
    by (simp_all add: u_def newOSTrace_def tr_BatchSize_def Let_def)
  define t1 t2 t3 where "t1 = u\<lparr>osSpans := [s1]\<rparr>" and "t2 = u\<lparr>osSpans := [s1, s2]\<rparr>" and "t3 = u\<lparr>osSpans := [s2], osBuf := [s1]\<rparr>"
  define t4 t where "t4 = u\<lparr>osSpans := [], osBuf := [], osBatches := [[s1, s2]]\<rparr>" and "t = t4\<lparr>osSpans := [s3]\<rparr>"
  have c: "Collect False s1 u = (None, t1)" "Collect False s2 t1 = (None, t2)" "Collect False s3 t4 = (None, t)" by (simp_all add: Collect_def n t1_def t2_def t4_def t_def)
  have r: "run_span t2 = t3" "run_span t3 = t4" by (simp_all add: run_span_def os_flush_def n t2_def t3_def t4_def Let_def)
  have st: "os_step ([], u) ([s1], t1)" "os_step ([s1], t1) ([s1, s2], t2)" "os_step ([s1, s2], t2) ([s1, s2], t3)" "os_step ([s1, s2], t3) ([s1, s2], t4)" "os_step ([s1, s2], t4) ([s1, s2, s3], t)"
    using os_collect [OF c(1), of "[]"] os_collect [OF c(2), of "[s1]"] os_span [of t2 "[s1, s2]"] os_span [of t3 "[s1, s2]"] os_collect [OF c(3), of "[s1, s2]"] r n
    by (simp_all add: t2_def t3_def)
  then have run: "os_step\<^sup>*\<^sup>* ([], newOSTrace [tr_BatchSize 2]) ([s1, s2, s3], t)" unfolding u_def [symmetric] by (meson converse_rtranclp_into_rtranclp rtranclp.rtrancl_refl)
  moreover have "concat (osBatches t) @ osBuf t @ osSpans t = [s1, s2, s3]" using collector_batches [OF run refl rtranclp.rtrancl_refl] by blast
  moreover have "osBatches t = [[s1, s2]]" "spId s1 = ''1''" "spId s2 = ''2''" "spId s3 = ''3''" by (simp_all add: t_def t4_def s1_def s2_def s3_def)
  ultimately show ?thesis by blast
qed

subsection \<open>Headers and contexts\<close>

lemma trace_keys: "Title TraceHeader = TraceHeader" "Title SpanHeader = SpanHeader" "Title ParentHeader = ParentHeader" "Title DebugHeader = DebugHeader"
  "Title traceIDKey = traceIDKey" "Title spanIDKey = spanIDKey"
  by (code_simp)+

lemma md_value_put [simp]: "md_value k' (md_put k v md) = (if k' = k then v else md_value k' md)"
  by (simp add: md_value_def)

lemma trace_keys_differ [simp]:
  "TraceHeader \<noteq> SpanHeader" "SpanHeader \<noteq> TraceHeader" "TraceHeader \<noteq> ParentHeader" "ParentHeader \<noteq> TraceHeader" "TraceHeader \<noteq> DebugHeader" "DebugHeader \<noteq> TraceHeader"
  "SpanHeader \<noteq> ParentHeader" "ParentHeader \<noteq> SpanHeader" "SpanHeader \<noteq> DebugHeader" "DebugHeader \<noteq> SpanHeader" "ParentHeader \<noteq> DebugHeader" "DebugHeader \<noteq> ParentHeader"
  "traceIDKey \<noteq> spanIDKey" "spanIDKey \<noteq> traceIDKey"
  by (simp_all add: TraceHeader_def SpanHeader_def ParentHeader_def DebugHeader_def traceIDKey_def spanIDKey_def)

lemma header_values:
  "md_value SpanHeader (HeaderWithSpan md s) = spId s" "md_value TraceHeader (HeaderWithSpan md s) = spTraceId s"
  "md_value ParentHeader (HeaderWithSpan md s) = spParentId s" "md_value DebugHeader (HeaderWithSpan md s) = (if spDebug s then ''1'' else ''0'')"
  by (simp_all add: HeaderWithSpan_def Let_def)

text \<open>A span is read back from the header, except for what the header does not hold.\<close>

lemma span_header_roundtrip:
  "SpanFromHeader now (HeaderWithSpan md s) =
     (if spId s = [] \<and> spTraceId s = [] then None
      else Some (zero_span\<lparr>spId := spId s, spTraceId := spTraceId s, spParentId := spParentId s, spDebug := spDebug s, spTimestamp := Some now\<rparr>))"
  by (auto simp: SpanFromHeader_def header_values Let_def)

lemma titled_put: "titled md \<Longrightarrow> Title k = k \<Longrightarrow> titled (md_put k v md)"
  by (simp add: titled_def keys_put)

lemma titled_header: "titled md \<Longrightarrow> titled (HeaderWithSpan md s)"
  by (simp add: HeaderWithSpan_def titled_put trace_keys Let_def)

lemma titled_FromContext:
  assumes "titled md" and "mset md' = mset md"
  shows "\<exists>m. FromContext (Some md') = Some m \<and> md_lookup k m = md_lookup k md"
proof -
  have t: "distinct (map fst md')" "\<forall>k \<in> fst ` set md'. Title k = k" "set md' = set md" "distinct (map fst md)"
    using assms mset_eq_setD [OF assms(2)] mset_eq_imp_distinct_iff [of "map fst md'" "map fst md"] by (auto simp: titled_def)
  have f: "filter (\<lambda>(k', _). Title k' = k) md' = filter (\<lambda>e. fst e = k) md'" using t(2) by (intro filter_cong) auto
  have "md_lookup k (fold (\<lambda>(k, v). md_put (Title k) v) md' []) = md_lookup k md"
  proof (cases "md_lookup k md")
    case None
    then have "filter (\<lambda>e. fst e = k) md' = []" using t(3) by (auto simp: md_lookup_def map_of_eq_None_iff filter_empty_conv)
    with None show ?thesis unfolding fold_title_lookup f by (simp add: md_lookup_def)
  next
    case (Some v)
    have "v' = v" if "(k, v') \<in> set md'" for v' using that Some t(3,4) by (simp add: md_lookup_def)
    moreover have "(k, v) \<in> set md'" using Some t(3) by (auto simp: md_lookup_def dest: map_of_SomeD)
    then have ne: "filter (\<lambda>e. fst e = k) md' \<noteq> []" by (force simp: filter_empty_conv)
    moreover have "last (filter (\<lambda>e. fst e = k) md') \<in> set (filter (\<lambda>e. fst e = k) md')" using ne by (rule last_in_set)
    ultimately have "snd (last (filter (\<lambda>e. fst e = k) md')) = v" by (cases "last (filter (\<lambda>e. fst e = k) md')") auto
    with ne Some show ?thesis unfolding fold_title_lookup f by (auto split: list.split)
  qed
  then show ?thesis by (simp add: FromContext_def)
qed

lemma SpanFromHeader_cong:
  assumes "\<And>k. md_lookup k m = md_lookup k md"
  shows "SpanFromHeader now m = SpanFromHeader now md"
  by (simp add: SpanFromHeader_def md_value_def assms)

lemma call_span_ids:
  assumes "\<And>i. uuid i \<noteq> []"
  shows "spId (call_span uuid clk t ctx) = uuid 0" and "spTraceId (call_span uuid clk t ctx) \<noteq> []" and "spParentId (call_span uuid clk t ctx) \<noteq> []"
  using assms by (auto simp: call_span_def os_NewSpan_def zero_span_def Let_def split: option.split prod.split if_split)

lemma wrapper_Call_span:
  assumes "wrapper_Call uuid clk timer call serv t service method ctx = (err, ctx', span, t')"
  shows "spId span = spId (call_span uuid clk t ctx)" and "spTraceId span = spTraceId (call_span uuid clk t ctx)" and "spParentId span = spParentId (call_span uuid clk t ctx)"
    and "\<exists>s. cxSpan ctx' = Some s \<and> spId s = spId span \<and> spTraceId s = spTraceId span \<and> spDebug s"
    and "\<exists>s. cxMd ctx' = Some (HeaderWithSpan (md_base (cxMd ctx)) s) \<and> spId s = spId span \<and> spTraceId s = spTraceId span"
proof -
  show "\<exists>s. cxMd ctx' = Some (HeaderWithSpan (md_base (cxMd ctx)) s) \<and> spId s = spId span \<and> spTraceId s = spTraceId span"
    by (rule exI [of _ "(annotate (clk 2) AnnStart [] serv (call_span uuid clk t ctx))\<lparr>spDebug := True, spName := service @ ''.'' @ method, spSource := serv,
        spDestination := Some \<lparr>svName = service, svVersion = [], svMetadata = None, svEndpoints = [], svNodes = []\<rparr>\<rparr>"])
      (use assms in \<open>auto simp: wrapper_Call_def annotate_def ContextWithSpan_def md_NewContext_def md_base_def Let_def split: prod.splits\<close>)
qed (use assms in \<open>auto simp: wrapper_Call_def annotate_def ContextWithSpan_def Let_def split: prod.splits\<close>)

text \<open>C39. Traces are carried along: a call made with the context that a call gave to its client, and a call made by a server that got its metadata as headers, in any order of the entries, has
  the same trace identifier and the identifier of the first call's span as its parent.\<close>
theorem trace_propagation:
  assumes "\<forall>i. uuid i \<noteq> []" and "wrapper_Call uuid clk timer call serv t service method ctx = (err, ctx1, span1, t1)"
    and "ctx2 = ctx1 \<or> cxSpan ctx2 = None \<and> (\<exists>md. cxMd ctx2 = Some md \<and> mset md = mset (the (cxMd ctx1)))"
    and "wrapper_Call uuid2 clk2 timer2 call2 serv2 t2 service2 method2 ctx2 = (err2, ctx3, span2, t3)"
  shows "spTraceId span2 = spTraceId span1 \<and> spParentId span2 = spId span1 \<and> spTraceId span1 \<noteq> []"
proof -
  note C = wrapper_Call_span [OF assms(2)]
  have ids: "spId span1 \<noteq> []" "spTraceId span1 \<noteq> []" using call_span_ids [of uuid clk t ctx] assms(1) C(1,2) by auto
  have child: "spTraceId (os_NewSpan uuid2 n (Some (zero_span\<lparr>spTraceId := spTraceId s, spParentId := spId s, spDebug := d\<rparr>)) t2) = spTraceId span1 \<and>
      spParentId (os_NewSpan uuid2 n (Some (zero_span\<lparr>spTraceId := spTraceId s, spParentId := spId s, spDebug := d\<rparr>)) t2) = spId span1"
    if "spId s = spId span1" "spTraceId s = spTraceId span1" for s n d
    using that ids by (auto simp: os_NewSpan_def zero_span_def Let_def)
  have "spTraceId (call_span uuid2 clk2 t2 ctx2) = spTraceId span1 \<and> spParentId (call_span uuid2 clk2 t2 ctx2) = spId span1"
    using assms(3)
  proof
    assume "ctx2 = ctx1"
    with C(4) obtain s where s: "cxSpan ctx2 = Some s" "spId s = spId span1" "spTraceId s = spTraceId span1" by blast
    then have "call_span uuid2 clk2 t2 ctx2 = os_NewSpan uuid2 (clk2 1) (Some (zero_span\<lparr>spTraceId := spTraceId s, spParentId := spId s, spDebug := spDebug s\<rparr>)) t2"
      by (simp add: call_span_def SpanFromContext_def Let_def split: prod.split)
    with child [OF s(2,3)] show ?thesis by simp
  next
    assume ctx2: "cxSpan ctx2 = None \<and> (\<exists>md. cxMd ctx2 = Some md \<and> mset md = mset (the (cxMd ctx1)))"
    define md where "md = md_base (cxMd ctx)"
    from C(5) obtain s where s: "titled md" "cxMd ctx1 = Some (HeaderWithSpan md s)" "spId s = spId span1" "spTraceId s = spTraceId span1" using md_base_titled unfolding md_def by blast
    with ctx2 obtain md' where md': "cxMd ctx2 = Some md'" "mset md' = mset (HeaderWithSpan md s)" by auto
    obtain m where m: "FromContext (Some md') = Some m" using titled_FromContext [OF titled_header [OF s(1)] md'(2)] by blast
    then have "SpanFromHeader (clk2 0) m = SpanFromHeader (clk2 0) (HeaderWithSpan md s)"
      using titled_FromContext [OF titled_header [OF s(1)] md'(2)] by (intro SpanFromHeader_cong) fastforce
    with s ids have h: "SpanFromHeader (clk2 0) m = Some (zero_span\<lparr>spId := spId s, spTraceId := spTraceId s, spParentId := spParentId s, spDebug := spDebug s, spTimestamp := Some (clk2 0)\<rparr>)"
      by (simp add: span_header_roundtrip)
    then have "call_span uuid2 clk2 t2 ctx2 = os_NewSpan uuid2 (clk2 1) (Some (zero_span\<lparr>spTraceId := spTraceId s, spParentId := spId s, spDebug := spDebug s\<rparr>)) t2"
      using m md'(1) ctx2 by (simp add: call_span_def SpanFromContext_def Let_def)
    with child [OF s(3,4)] show ?thesis by simp
  qed
  with wrapper_Call_span(2,3) [OF assms(4)] ids show ?thesis by simp
qed

theorem trace_propagation_witness:
  "\<exists>span1 span2 ctx1 x y z w.
     wrapper_Call (\<lambda>i. if i = 0 then ''id-1'' else ''trace'') (\<lambda>_. 5) False (\<lambda>_. None) None (newOSTrace []) ''svc'' ''m'' \<lparr>cxMd = None, cxSpan = None\<rparr> = (None, ctx1, span1, x) \<and>
     wrapper_Call (\<lambda>_. ''id-2'') (\<lambda>_. 9) False (\<lambda>_. None) None (newOSTrace []) ''other'' ''m'' \<lparr>cxMd = cxMd ctx1, cxSpan = None\<rparr> = (y, z, span2, w) \<and>
     spTraceId span1 = ''trace'' \<and> spTraceId span2 = ''trace'' \<and> spParentId span2 = ''id-1''"
proof -
  let ?uu = "\<lambda>i :: nat. if i = 0 then ''id-1'' else ''trace''" and ?ctx = "\<lparr>cxMd = None, cxSpan = None\<rparr>"
  obtain e ctx1 span1 x where c1: "wrapper_Call ?uu (\<lambda>_. 5) False (\<lambda>_. None) None (newOSTrace []) ''svc'' ''m'' ?ctx = (e, ctx1, span1, x)" by (metis prod_cases4)
  obtain y z span2 w where c2: "wrapper_Call (\<lambda>_. ''id-2'') (\<lambda>_. 9) False (\<lambda>_. None) None (newOSTrace []) ''other'' ''m'' \<lparr>cxMd = cxMd ctx1, cxSpan = None\<rparr> = (y, z, span2, w)" by (metis prod_cases4)
  have "call_span ?uu (\<lambda>_. 5) (newOSTrace []) ?ctx = os_NewSpan ?uu 5 None (newOSTrace [])" by (simp add: call_span_def FromContext_def SpanFromContext_def)
  then have ids: "spId span1 = ''id-1''" "spTraceId span1 = ''trace''" using wrapper_Call_span(1,2) [OF c1] by (simp_all add: os_NewSpan_def)
  have "e = None" using c1 by (auto simp: wrapper_Call_def Let_def split: prod.splits)
  moreover have "spTraceId span2 = spTraceId span1 \<and> spParentId span2 = spId span1"
    using trace_propagation [OF _ c1 _ c2] wrapper_Call_span(5) [OF c1] by auto
  ultimately show ?thesis using c1 c2 ids by (intro exI [of _ span1] exI [of _ span2] exI [of _ ctx1]) auto
qed

subsection \<open>The tracer in memory\<close>

text \<open>A span that is started in the context of another one belongs to its trace and has it as its parent, if no other key of the metadata becomes one of the two keys in title case.\<close>

lemma ctx_Get_titled:
  assumes "titled md" and "Title k = k"
  shows "ctx_Get k (Some md) = md_lookup k md"
proof -
  obtain m where "FromContext (Some md) = Some m" "md_lookup k m = md_lookup k md" using titled_FromContext [OF assms(1) refl] by blast
  with assms(2) show ?thesis by (simp add: ctx_Get_def split: option.split)
qed

lemma tr_context:
  assumes "traceID \<noteq> []" and "parent \<noteq> []" and "\<forall>md. ctx = Some md \<longrightarrow> titled md"
  shows "tr_FromContext (tr_ToContext ctx traceID parent) = (traceID, parent, True)"
proof -
  let ?b = "case ctx of None \<Rightarrow> [] | Some md \<Rightarrow> md"
  have copy: "titled (fold (\<lambda>(k, v). md_put k v) md acc)" if "titled acc" "\<forall>k \<in> fst ` set md. Title k = k" for md acc
    using that
  proof (induction md arbitrary: acc)
    case (Cons e md)
    then show ?case using titled_put [of acc "fst e" "snd e"] by (cases e) auto
  qed simp
  have "titled ?b" using assms(3) by (cases ctx) (simp_all add: titled_def [of "[]"])
  then have "titled (fold (\<lambda>(k, v). md_put k v) ?b [])" by (intro copy) (simp_all add: titled_def)
  then have t: "titled (md_put spanIDKey parent (md_put traceIDKey traceID (fold (\<lambda>(k, v). md_put k v) ?b [])))" by (simp add: titled_put trace_keys)
  have c: "tr_ToContext ctx traceID parent = Some (md_put spanIDKey parent (md_put traceIDKey traceID (fold (\<lambda>(k, v). md_put k v) ?b [])))"
    using assms(1,2) by (simp add: tr_ToContext_def MergeContext_def Let_def)
  with t show ?thesis by (simp add: tr_FromContext_def ctx_Get_titled trace_keys Let_def)
qed

lemma mt_nested:
  assumes "\<And>i. uuid i \<noteq> []" and "\<forall>md. ctx = Some md \<longrightarrow> titled md" and "mt_Start uuid now (Some ctx) name = (ctx', span)" and "msTrace span \<noteq> []"
    and "mt_Start uuid2 now2 (Some ctx') name2 = (ctx'', span2)"
  shows "msTrace span2 = msTrace span \<and> msParent span2 = msId span"
proof -
  have "ctx' = tr_ToContext ctx (msTrace span) (msId span)" "msId span = uuid 1"
    using assms(3) by (auto simp: mt_Start_def Let_def split: prod.splits if_splits)
  with tr_context [OF assms(4), of "msId span" ctx] assms(1,2) have "tr_FromContext ctx' = (msTrace span, msId span, True)" by simp
  with assms(5) show ?thesis by (auto simp: mt_Start_def Let_def)
qed

fun mt_finishes :: "(int \<times> mt_span) list \<Rightarrow> memTracer \<Rightarrow> memTracer option" where
  "mt_finishes [] t = Some t"
| "mt_finishes ((now, s) # xs) t = Option.bind (mt_Finish now s t) (mt_finishes xs)"

lemma mt_finishes_ring:
  assumes "rbStreams t = []"
  shows "\<exists>t'. mt_finishes xs t = Some t' \<and> rbSize t' = rbSize t \<and>
    (rbVals t = last_n (rbSize t) log \<longrightarrow> rbVals t' = last_n (rbSize t) (log @ map (\<lambda>(now, s). \<lparr>enValue = s\<lparr>msDuration := now - msStarted s\<rparr>, enTimestamp = now\<rparr>) xs))"
  using assms
proof (induction xs arbitrary: t log)
  case (Cons x xs)
  obtain now s where x: "x = (now, s)" by (cases x)
  let ?e = "\<lparr>enValue = s\<lparr>msDuration := now - msStarted s\<rparr>, enTimestamp = now\<rparr>"
  obtain t1 where t1: "mt_Finish now s t = Some t1" "rbStreams t1 = []" "rbSize t1 = rbSize t"
    "rbVals t1 = (let vals = rbVals t @ [?e] in if int (length vals) > rbSize t then tl vals else vals)"
    by (rule that [of "the (mt_Finish now s t)"]) (use Cons.prems in \<open>simp_all add: mt_Finish_def Put_def Let_def\<close>)
  moreover have "rbVals t = last_n (rbSize t) log \<Longrightarrow> rbVals t1 = last_n (rbSize t) (log @ [?e])"
    using t1(4) last_n_snoc [of "rbSize t" log ?e] by simp
  ultimately show ?case using Cons.IH [of t1 "log @ [?e]"] x by auto
qed simp

text \<open>The tracer returns the spans of a trace that were finished last, of the last 256 in all, in the order in which they were finished.\<close>

lemma mt_Read_last:
  assumes "mt_finishes xs (NewTracer opts) = Some t" and "tr \<noteq> []"
  shows "mt_Read [ReadTrace tr] t = filter (\<lambda>s. msTrace s = tr) (last_n 256 (map (\<lambda>(now, s). s\<lparr>msDuration := now - msStarted s\<rparr>) xs))"
proof -
  have t: "rbSize t = 256" "rbVals t = last_n 256 (map (\<lambda>(now, s). \<lparr>enValue = s\<lparr>msDuration := now - msStarted s\<rparr>, enTimestamp = now\<rparr>) xs)"
    using mt_finishes_ring [of "NewTracer opts" xs "[]"] assms(1) by (auto simp: NewTracer_def ring_New_def last_n_def)
  have "int (length (rbVals t)) \<le> 256" unfolding t(2) by (simp add: last_n_def)
  then have "ring_Get 256 t = rbVals t" by (auto simp: ring_Get_def Let_def)
  with t assms(2) show ?thesis by (simp add: mt_Read_def ReadTrace_def last_n_def drop_map comp_def case_prod_unfold)
qed

subsection \<open>Spans of open tracing\<close>

text \<open>A span that was started is finished, once and last, and carries the error of the call if there is one; it is the child of the span in the context, or else of the one in the metadata.\<close>

lemma ot_traced_finishes:
  assumes "ot_traced tracer name f none ctx = (err, x, evs)"
  shows "evs = [] \<and> x = none \<and> err \<noteq> None \<or> (\<exists>sp. evs = (case err of None \<Rightarrow> [] | Some e \<Rightarrow> [OtLogError sp (errText e), OtTagError sp]) @ [OtFinish sp])"
  using assms by (auto simp: ot_traced_def split: sum.splits prod.splits)

lemma StartSpan_parent:
  assumes "StartSpanFromContext tracer name [] ctx = Inr (ctx', sp)"
  shows "ocSpan ctx' = Some sp" and "ocSpan ctx = Some p \<Longrightarrow> sp = otStart tracer name [p]"
    and "ocSpan ctx = None \<Longrightarrow> otExtract tracer (md_base (ocMd ctx)) = Some p \<Longrightarrow> sp = otStart tracer name [p]"
    and "ocSpan ctx = None \<Longrightarrow> otExtract tracer (md_base (ocMd ctx)) = None \<Longrightarrow> sp = otStart tracer name []"
  using assms by (auto simp: StartSpanFromContext_def md_base_def Let_def split: sum.splits option.splits)

end
