(* ===== verification/FileTree.thy ===== *)
theory FileTree
  imports Paths
begin

text \<open>
  \<^verbatim>\<open>util/file/\<close>: walking a directory, searching a file, locks on files, commands of the shell.

  Representation. The file system is a record of functions on paths that does not change meanwhile: what \<open>Lstat\<close> and reading a directory give (\<open>None\<close>: an error), in the order of the system. The function that is called for the entries works on a
  state \<open>'s\<close> and returns an error or none. The list that \<^verbatim>\<open>walkFiles\<close> uses as a queue of slices of names is a list of lists, and the loop over it, which ends only if the directories do, is a
  partial function. Running a command of the shell is a function of its text.
\<close>

subsection \<open>Walking a directory\<close>

record finfo =
  fiDir :: bool
  fiSymlink :: bool
  fiSize :: int
  fiMtime :: int
  fiPerm :: nat

record fsys =
  fsLstat :: "string \<Rightarrow> finfo option"
  fsNames :: "string \<Rightarrow> string list option"

datatype ferr = SkipDir | FErr string

type_synonym 's walk_fn = "string \<Rightarrow> finfo option \<Rightarrow> ferr option \<Rightarrow> 's \<Rightarrow> ferr option \<times> 's"

definition readDirNames :: "fsys \<Rightarrow> string \<Rightarrow> string list option" where
  "readDirNames fs dirname = fsNames fs dirname"

fun walk_names :: "fsys \<Rightarrow> 's walk_fn \<Rightarrow> string \<Rightarrow> string list \<Rightarrow> 's \<Rightarrow> 's \<times> string list list" where
  \<comment> \<open>the inner loop, with the slices that it pushes\<close>
  "walk_names fs walkFn path [] s = (s, [])"
| "walk_names fs walkFn path (name # names) s =
     (let filename = path_Join [path, name]
      in case fsLstat fs filename of
           None \<Rightarrow> walk_names fs walkFn path names s
         | Some fileInfo \<Rightarrow>
             let s = snd (walkFn filename (Some fileInfo) None s)
             in if fiDir fileInfo then
                  case readDirNames fs filename of
                    None \<Rightarrow> walk_names fs walkFn path names s
                  | Some namesTemp \<Rightarrow>
                      if length namesTemp < 1 then walk_names fs walkFn path names s
                      else let (s, pushed) = walk_names fs walkFn path names s in (s, map (\<lambda>n. name @ ''/'' @ n) namesTemp # pushed)
                else walk_names fs walkFn path names s)"

partial_function (option) walk_loop :: "fsys \<Rightarrow> 's walk_fn \<Rightarrow> string \<Rightarrow> string list list \<Rightarrow> 's \<Rightarrow> 's option" where
  "walk_loop fs walkFn path stack s =
     (case stack of
        [] \<Rightarrow> Some s
      | curNames # stack \<Rightarrow> let (s, pushed) = walk_names fs walkFn path curNames s in walk_loop fs walkFn path (stack @ pushed) s)"

definition walkFiles :: "fsys \<Rightarrow> 's walk_fn \<Rightarrow> string \<Rightarrow> finfo \<Rightarrow> 's \<Rightarrow> (ferr option \<times> 's) option" where
  "walkFiles fs walkFn path info s =
     (if \<not> fiDir info then Some (walkFn path (Some info) None s)
      else
        let names = readDirNames fs path; (err1, s) = walkFn path (Some info) (case names of None \<Rightarrow> Some (FErr path) | Some _ \<Rightarrow> None) s
        in case (names, err1) of
             (Some names, None) \<Rightarrow> map_option (\<lambda>s. (None, s)) (walk_loop fs walkFn path [names] s)
           | _ \<Rightarrow> Some (err1, s))"

definition Walk :: "fsys \<Rightarrow> 's walk_fn \<Rightarrow> string \<Rightarrow> 's \<Rightarrow> (ferr option \<times> 's) option" where
  "Walk fs walkFn root s = do {
     (err, s) \<leftarrow> (case fsLstat fs root of None \<Rightarrow> Some (walkFn root None (Some (FErr root)) s) | Some info \<Rightarrow> walkFiles fs walkFn root info s);
     Some (if err = Some SkipDir then None else err, s) }"

subsection \<open>What a walk visits\<close>

datatype ftree = FtFile finfo | FtDir finfo "(string \<times> ftree) list"

fun ft_info :: "ftree \<Rightarrow> finfo" where
  "ft_info (FtFile i) = i"
| "ft_info (FtDir i ks) = i"

fun ft_below :: "string \<times> ftree \<Rightarrow> (string \<times> ftree) list" where
  \<comment> \<open>the entries of a directory, under its relative name\<close>
  "ft_below (rel, FtFile i) = []"
| "ft_below (rel, FtDir i ks) = map (\<lambda>(n, k). (rel @ ''/'' @ n, k)) ks"

fun ft_all :: "string \<Rightarrow> ftree \<Rightarrow> (string \<times> ftree) list" where
  \<comment> \<open>an entry and all that is below it\<close>
  "ft_all rel (FtFile i) = [(rel, FtFile i)]"
| "ft_all rel (FtDir i ks) = (rel, FtDir i ks) # concat (map (\<lambda>(n, k). ft_all (rel @ ''/'' @ n) k) ks)"

fun ft_ok :: "fsys \<Rightarrow> string \<Rightarrow> string \<Rightarrow> ftree \<Rightarrow> bool" where
  \<comment> \<open>the file system has the tree at a name relative to the root\<close>
  "ft_ok fs root rel (FtFile i) = (fsLstat fs (path_Join [root, rel]) = Some i \<and> \<not> fiDir i)"
| "ft_ok fs root rel (FtDir i ks) =
     (fsLstat fs (path_Join [root, rel]) = Some i \<and> fiDir i \<and> fsNames fs (path_Join [root, rel]) = Some (map fst ks) \<and> list_all (\<lambda>(n, k). ft_ok fs root (rel @ ''/'' @ n) k) ks)"

fun ft_size :: "ftree \<Rightarrow> nat" where
  "ft_size (FtFile i) = 1"
| "ft_size (FtDir i ks) = Suc (sum_list (map (\<lambda>(n, k). ft_size k) ks))"

definition ft_sizes :: "(string \<times> ftree) list \<Rightarrow> nat" where
  "ft_sizes xs = sum_list (map (\<lambda>(n, k). ft_size k) xs)"

lemma ft_sizes_below: "ft_sizes (ft_below x) < ft_size (snd x)"
  by (cases x rule: ft_below.cases) (simp_all add: ft_sizes_def comp_def case_prod_unfold)

lemma ft_sizes_simps [simp]: "ft_sizes [] = 0" "ft_sizes (x # xs) = ft_size (snd x) + ft_sizes xs" "ft_sizes (xs @ ys) = ft_sizes xs + ft_sizes ys"
  by (simp_all add: ft_sizes_def case_prod_unfold)

function bfs :: "(string \<times> ftree) list \<Rightarrow> (string \<times> ftree) list" where
  \<comment> \<open>breadth first, with a queue\<close>
  "bfs [] = []"
| "bfs (x # xs) = x # bfs (xs @ ft_below x)"
  by pat_completeness auto
termination
proof (relation "measure ft_sizes")
  fix x xs
  show "(xs @ ft_below x, x # xs) \<in> measure ft_sizes" using ft_sizes_below [of x] by simp
qed simp

lemma bfs_append: "bfs (xs @ ys) = xs @ bfs (ys @ concat (map ft_below xs))"
  by (induction xs arbitrary: ys) simp_all

lemma ft_all_below: "ft_all rel t = (rel, t) # concat (map (\<lambda>(n, k). ft_all n k) (ft_below (rel, t)))"
  by (cases t) (simp_all add: comp_def case_prod_unfold)

lemma bfs_all: "mset (bfs xs) = mset (concat (map (\<lambda>(n, k). ft_all n k) xs))"
proof (induction xs rule: bfs.induct)
  case (2 x xs)
  obtain rel t where x: "x = (rel, t)" by (cases x)
  have "mset (ft_all rel t) = add_mset x (mset (concat (map (\<lambda>(n, k). ft_all n k) (ft_below x))))" unfolding x by (subst ft_all_below) simp
  with 2 x show ?case by simp
qed simp

definition visit :: "'s walk_fn \<Rightarrow> string \<Rightarrow> string \<times> ftree \<Rightarrow> 's \<Rightarrow> 's" where
  "visit walkFn root x s = snd (walkFn (path_Join [root, fst x]) (Some (ft_info (snd x))) None s)"

lemma ft_ok_below: "ft_ok fs root (fst x) (snd x) \<Longrightarrow> list_all (\<lambda>(n, k). ft_ok fs root n k) (ft_below x)"
  by (cases x rule: ft_below.cases) (auto simp: list_all_iff)

lemma visit_simp [simp]: "visit walkFn root (rel, t) s = snd (walkFn (path_Join [root, rel]) (Some (ft_info t)) None s)"
  by (simp add: visit_def)

lemma concat_nonempty [simp]: "concat (filter (\<lambda>ns. ns \<noteq> []) xss) = concat xss"
  by (induction xss) auto

lemma walk_names_visits:
  assumes "list_all (\<lambda>(n, k). ft_ok fs root n k) xs"
  shows "walk_names fs walkFn root (map fst xs) s = (fold (visit walkFn root) xs s, map (map fst) (filter (\<lambda>ns. ns \<noteq> []) (map ft_below xs)))"
  using assms
proof (induction xs arbitrary: s)
  case (Cons x xs)
  obtain rel t where x: "x = (rel, t)" by (cases x)
  note IH = Cons.IH [of "visit walkFn root x s"]
  show ?case
  proof (cases t)
    case (FtFile i)
    with Cons.prems x IH show ?thesis by simp
  next
    case (FtDir i ks)
    with Cons.prems x IH show ?thesis
      by (cases "ks = []") (simp_all add: readDirNames_def Suc_le_eq comp_def case_prod_unfold)
  qed
qed simp

lemma walk_loop_visits:
  assumes "\<forall>ns \<in> set nss. list_all (\<lambda>(n, k). ft_ok fs root n k) ns"
  shows "walk_loop fs walkFn root (map (map fst) nss) s = Some (fold (visit walkFn root) (bfs (concat nss)) s)"
  using assms
proof (induction nss arbitrary: s rule: measure_induct_rule [where f = "\<lambda>nss. ft_sizes (concat nss) + length nss"])
  case (less nss)
  show ?case
  proof (cases nss)
    case Nil
    then show ?thesis by (simp add: walk_loop.simps)
  next
    case (Cons ns rest)
    define next' where "next' = rest @ filter (\<lambda>ns. ns \<noteq> []) (map ft_below ns)"
    have ns: "list_all (\<lambda>(n, k). ft_ok fs root n k) ns" using less.prems Cons by simp
    have below: "ft_sizes (concat (map ft_below ms)) + length ms \<le> ft_sizes ms" for ms
    proof (induction ms)
      case (Cons x ms)
      with ft_sizes_below [of x] show ?case by simp
    qed simp
    have c: "concat next' = concat rest @ concat (map ft_below ns)" by (simp add: next'_def)
    have "length next' \<le> length rest + length ns" by (simp add: next'_def)
    then have smaller: "ft_sizes (concat next') + length next' < ft_sizes (concat nss) + length nss" using below [of ns] Cons by (simp add: c)
    have "list_all (\<lambda>(n, k). ft_ok fs root n k) (ft_below x)" if "x \<in> set ns" for x
      using ns that by (intro ft_ok_below) (auto simp: list_all_iff case_prod_unfold)
    then have ok: "\<forall>ms \<in> set next'. list_all (\<lambda>(n, k). ft_ok fs root n k) ms" using less.prems Cons by (auto simp: next'_def)
    have st: "walk_loop fs walkFn root (map (map fst) nss) s = walk_loop fs walkFn root (map (map fst) next') (fold (visit walkFn root) ns s)"
      unfolding Cons by (subst walk_loop.simps) (simp add: walk_names_visits [OF ns] next'_def)
    have "bfs (concat nss) = ns @ bfs (concat next')" unfolding Cons c concat.simps by (rule bfs_append)
    then show ?thesis unfolding st less.IH [OF smaller ok] by (simp only: fold_append comp_apply)
  qed
qed

text \<open>The order is that of a search in breadth, not the lexical one, and what the function returns below the root has no effect.\<close>

lemma walk_breadth_first:
  assumes "fsLstat fs root = Some i" and "fiDir i" and "fsNames fs root = Some (map fst ks)" and "list_all (\<lambda>(n, k). ft_ok fs root n k) ks"
    and "walkFn root (Some i) None s = (None, s')"
  shows "Walk fs walkFn root s = Some (None, fold (visit walkFn root) (bfs ks) s')"
  using assms walk_loop_visits [of "[ks]" fs root walkFn s'] by (simp add: Walk_def walkFiles_def readDirNames_def)

text \<open>C40. A walk of a directory whose entries can all be read, with a function that reports no error, ends and returns no error; it calls the function for the root first and then for every entry below it, files and directories of every
  depth, exactly once, with its path and its information. Nothing is said of the order below the root.\<close>
theorem walk_visits:
  assumes "fsLstat fs root = Some i" and "fiDir i" and "fsNames fs root = Some (map fst ks)" and "list_all (\<lambda>(n, k). ft_ok fs root n k) ks"
    and "\<And>p f e s. fst (walkFn p f e s) = None"
  shows "\<exists>entries. mset entries = mset (concat (map (\<lambda>(n, k). ft_all n k) ks)) \<and>
    Walk fs walkFn root s = Some (None, fold (\<lambda>(rel, t) s. snd (walkFn (path_Join [root, rel]) (Some (ft_info t)) None s)) entries (snd (walkFn root (Some i) None s)))"
proof -
  have "walkFn root (Some i) None s = (None, snd (walkFn root (Some i) None s))" using assms(5) [of root "Some i" None s] by (metis prod.collapse)
  from walk_breadth_first [where walkFn = walkFn, OF assms(1-4) this]
  have "Walk fs walkFn root s = Some (None, fold (visit walkFn root) (bfs ks) (snd (walkFn root (Some i) None s)))" .
  moreover have "visit walkFn root = (\<lambda>(rel, t) s. snd (walkFn (path_Join [root, rel]) (Some (ft_info t)) None s))" by (simp add: fun_eq_iff)
  ultimately show ?thesis using bfs_all [of ks] by auto
qed

definition walk_info :: "bool \<Rightarrow> int \<Rightarrow> finfo" where
  "walk_info d n = \<lparr>fiDir = d, fiSymlink = False, fiSize = n, fiMtime = 0, fiPerm = 0\<rparr>"

definition walk_fs :: fsys where
  "walk_fs = \<lparr>fsLstat = (\<lambda>p. if p \<in> {''/r'', ''/r/d''} then Some (walk_info True 0) else if p \<in> {''/r/f'', ''/r/d/g''} then Some (walk_info False 7) else None),
     fsNames = (\<lambda>p. if p = ''/r'' then Some [''d'', ''f''] else if p = ''/r/d'' then Some [''g''] else None)\<rparr>"

lemma walk_joins: "path_Join [''/r'', ''d''] = ''/r/d''" "path_Join [''/r'', ''f''] = ''/r/f''" "path_Join [''/r'', ''d/g''] = ''/r/d/g''"
  by code_simp+

theorem walk_visits_witness:
  "\<exists>rest. mset rest = {#''/r/d'', ''/r/f'', ''/r/d/g''#} \<and> Walk walk_fs (\<lambda>p i e ps. (None, ps @ [p])) ''/r'' [] = Some (None, ''/r'' # rest)"
proof -
  let ?ks = "[(''d'', FtDir (walk_info True 0) [(''g'', FtFile (walk_info False 7))]), (''f'', FtFile (walk_info False 7))]"
  have "list_all (\<lambda>(n, k). ft_ok walk_fs ''/r'' n k) ?ks" by (simp add: walk_fs_def walk_joins) (simp add: walk_info_def)
  then obtain es where es: "mset es = mset (concat (map (\<lambda>(n, k). ft_all n k) ?ks))"
    "Walk walk_fs (\<lambda>p i e ps. (None, ps @ [p])) ''/r'' [] = Some (None, fold (\<lambda>(rel, t) ps. ps @ [path_Join [''/r'', rel]]) es [''/r''])"
    using walk_visits [of walk_fs "''/r''" "walk_info True 0" ?ks "\<lambda>p i e ps. (None, ps @ [p])" "[]"]
    by (auto simp: walk_fs_def walk_info_def case_prod_unfold)
  have f: "fold (\<lambda>(rel, t) ps. ps @ [path_Join [''/r'', rel]]) xs ys = ys @ map (\<lambda>x. path_Join [''/r'', fst x]) xs" for xs :: "(string \<times> ftree) list" and ys
    by (induction xs arbitrary: ys) (auto simp: case_prod_unfold)
  have "mset (map (\<lambda>x. path_Join [''/r'', fst x]) es) = image_mset (\<lambda>x. path_Join [''/r'', fst x]) (mset (concat (map (\<lambda>(n, k). ft_all n k) ?ks)))" by (simp add: es(1))
  then have "mset (map (\<lambda>x. path_Join [''/r'', fst x]) es) = {#''/r/d'', ''/r/f'', ''/r/d/g''#}" by (simp add: walk_joins)
  with es(2) show ?thesis unfolding f by (intro exI [of _ "map (\<lambda>x. path_Join [''/r'', fst x]) es"]) simp
qed

text \<open>The errors that the function returns below the root, \<open>SkipDir\<close> among them, have no effect: two functions that change the state in the same way visit the same entries.\<close>

lemma walk_names_errors:
  assumes "\<And>p i e s. snd (f p i e s) = snd (g p i e s)"
  shows "walk_names fs f path names s = walk_names fs g path names s"
  by (induction names arbitrary: s) (simp_all add: assms Let_def split: option.split)

subsection \<open>Files\<close>

datatype SysFileType = IsDirectory | IsRegular | IsSymlink

record SysFile =
  sfType :: SysFileType
  sfName :: string
  sfSize :: int
  sfMtime :: int
  sfPerm :: nat

definition Visit :: "string \<Rightarrow> finfo option \<Rightarrow> ferr option \<Rightarrow> SysFile list \<Rightarrow> ferr option \<times> SysFile list" where
  "Visit path f err tree =
     (case f of
        None \<Rightarrow> (err, tree)
      | Some f \<Rightarrow>
          let tp = (if fiDir f then IsDirectory else if fiSymlink f then IsSymlink else IsRegular)
          in (None, tree @ [\<lparr>sfType = tp, sfName = path, sfSize = fiSize f, sfMtime = fiMtime f, sfPerm = fiPerm f\<rparr>]))"

datatype stat_error = StatNotExist | StatExist | StatOther

definition dir_PathExists :: "(string \<Rightarrow> stat_error option) \<Rightarrow> string \<Rightarrow> bool \<times> stat_error option" where
  \<comment> \<open>given the error of \<open>os.Stat\<close>\<close>
  "dir_PathExists stat path =
     (case stat path of
        None \<Rightarrow> (True, None)
      | Some err \<Rightarrow> if err = StatExist then (True, None) else (False, Some err))"

definition ShellCmd :: "(string \<Rightarrow> 'w \<Rightarrow> (string option \<times> string \<times> string) \<times> 'w) \<Rightarrow> string \<Rightarrow> string \<Rightarrow> string \<Rightarrow> 'w \<Rightarrow> (string option \<times> string \<times> string) \<times> 'w" where
  \<comment> \<open>running a command gives the text of an error or none, and the two outputs\<close>
  "ShellCmd bash shell source dest w =
     (let command = shell @ '' '' @ source @ '' '' @ dest; ((err, out, errOut), w) = bash command w
      in (if err = Some ''exit status 1'' then (None, out, errOut) else (err, out, errOut), w))"

definition CreateSubDirIfNotExist :: "(string \<Rightarrow> 'w \<Rightarrow> (string option \<times> string \<times> string) \<times> 'w) \<Rightarrow> ('w \<Rightarrow> string \<Rightarrow> stat_error option) \<Rightarrow> string \<Rightarrow> string \<Rightarrow> 'w \<Rightarrow> string \<times> 'w" where
  "CreateSubDirIfNotExist bash stat dir sub w =
     (let subDir = dir @ ''/'' @ sub
      in if fst (dir_PathExists (stat w) subDir) then (subDir, w)
         else
           let (_, w) = ShellCmd bash ''mkdir -p'' subDir [] w; (_, w) = ShellCmd bash ''chmod -R 777'' subDir [] w
           in (subDir, w))"

definition base_name :: "string \<Rightarrow> string" where
  "base_name p = last (split_at_char (CHR ''/'') p)"

fun find_file :: "string \<Rightarrow> SysFile list \<Rightarrow> string option" where
  "find_file fileName [] = None"
| "find_file fileName (v # vs) = (if sfType v = IsRegular \<and> base_name (sfName v) = fileName then Some (sfName v) else find_file fileName vs)"

definition SearchFileByName :: "(SysFile list walk_fn \<Rightarrow> string \<Rightarrow> SysFile list \<Rightarrow> ferr option \<times> SysFile list) \<Rightarrow> string \<Rightarrow> string \<Rightarrow> ferr option \<times> string" where
  \<comment> \<open>given \<open>filepath.Walk\<close>\<close>
  "SearchFileByName walk dir fileName =
     (case walk Visit dir [] of
        (Some err, _) \<Rightarrow> (Some err, [])
      | (None, files) \<Rightarrow> (case find_file fileName files of Some p \<Rightarrow> (None, p) | None \<Rightarrow> (Some (FErr ''File not found. ''), [])))"

lemma find_file_first:
  "find_file n fs = (case filter (\<lambda>v. sfType v = IsRegular \<and> base_name (sfName v) = n) fs of [] \<Rightarrow> None | v # vs \<Rightarrow> Some (sfName v))"
  by (induction fs) auto

text \<open>A command that fails with the exit status 1 is reported as a success.\<close>

lemma ShellCmd_failure: "bash (shell @ '' '' @ source @ '' '' @ dest) w = ((Some ''exit status 1'', out, err), w') \<Longrightarrow> ShellCmd bash shell source dest w = ((None, out, err), w')"
  by (simp add: ShellCmd_def)

subsection \<open>Locks\<close>

text \<open>Locks of \<open>flock\<close>: every opening of a file is a description of its own, and an exclusive lock belongs to one description. A lock ends when its description is closed.\<close>

record lock_sys =
  lkOpen :: "nat \<rightharpoonup> string" \<comment> \<open>the open descriptions with their paths\<close>
  lkOwner :: "string \<rightharpoonup> nat" \<comment> \<open>which of them has the lock of a path\<close>
  lkNext :: nat

record LockFile =
  lfPath :: string
  lfFile :: "nat option"

definition NewFileLock :: "string \<Rightarrow> LockFile" where
  "NewFileLock fullPath = \<lparr>lfPath = fullPath, lfFile = None\<rparr>"

definition lf_Open :: "(string \<Rightarrow> bool) \<Rightarrow> LockFile \<Rightarrow> lock_sys \<Rightarrow> bool \<times> LockFile \<times> lock_sys" where
  \<comment> \<open>whether it succeeds; the parameter says which paths can be opened\<close>
  "lf_Open can l s =
     (if \<not> can (lfPath l) then (False, l, s)
      else
        let fd = lkNext s; s = s\<lparr>lkOpen := (lkOpen s)(fd \<mapsto> lfPath l), lkNext := Suc fd\<rparr>; l = l\<lparr>lfFile := Some fd\<rparr>
        in if lkOwner s (lfPath l) \<noteq> None then (False, l, s) else (True, l, s\<lparr>lkOwner := (lkOwner s)(lfPath l \<mapsto> fd)\<rparr>))"

definition OpenAndLock :: "(string \<Rightarrow> bool) \<Rightarrow> string \<Rightarrow> lock_sys \<Rightarrow> bool \<times> LockFile \<times> lock_sys" where
  "OpenAndLock can fullPath s = lf_Open can \<lparr>lfPath = fullPath, lfFile = None\<rparr> s"

definition unlock_fd :: "nat \<Rightarrow> lock_sys \<Rightarrow> lock_sys" where
  "unlock_fd fd s = s\<lparr>lkOwner := (\<lambda>p. if lkOwner s p = Some fd then None else lkOwner s p)\<rparr>"

definition lf_Close :: "LockFile \<Rightarrow> lock_sys \<Rightarrow> (bool \<times> lock_sys) option" where
  \<comment> \<open>unlocking and closing; \<open>None\<close>: the file is \<open>nil\<close>\<close>
  "lf_Close l s = do {
     fd \<leftarrow> lfFile l;
     Some (if lkOpen s fd = None then (False, s) else (True, (unlock_fd fd s)\<lparr>lkOpen := (lkOpen s)(fd := None)\<rparr>)) }"

definition lock_inv :: "lock_sys \<Rightarrow> bool" where
  "lock_inv s \<longleftrightarrow> (\<forall>p fd. lkOwner s p = Some fd \<longrightarrow> lkOpen s fd = Some p) \<and> (\<forall>fd. lkOpen s fd \<noteq> None \<longrightarrow> fd < lkNext s)"

lemma lock_inv_Open: "lf_Open can l s = (ok, l', s') \<Longrightarrow> lock_inv s \<Longrightarrow> lock_inv s'"
  by (auto simp: lf_Open_def lock_inv_def Let_def less_Suc_eq split: if_splits) (metis less_irrefl)+

lemma lock_inv_Close: "lf_Close l s = Some (ok, s') \<Longrightarrow> lock_inv s \<Longrightarrow> lock_inv s'"
  by (auto simp: lf_Close_def unlock_fd_def lock_inv_def split: option.splits if_splits bind_splits)

text \<open>While one lock on a path is held every other attempt fails, and it leaves the file that it opened open; after the holder has closed its lock the next attempt succeeds.\<close>

lemma lock_exclusive:
  assumes "lock_inv s" and "lkOwner s (lfPath l) = Some fd" and "can (lfPath l)" and "lf_Open can l s = (ok, l', s')"
  shows "\<not> ok \<and> lkOwner s' = lkOwner s \<and> lfFile l' = Some (lkNext s) \<and> lkOpen s' (lkNext s) = Some (lfPath l)"
  using assms by (auto simp: lf_Open_def Let_def split: if_splits)

lemma lock_released:
  assumes "lock_inv s" and "can p" and "OpenAndLock can p s = (True, l, s1)" and "lf_Close l s1 = Some (ok, s2)" and "OpenAndLock can p s2 = (ok', l', s3)"
  shows "ok \<and> ok'"
  using assms by (auto simp: OpenAndLock_def lf_Open_def lf_Close_def unlock_fd_def lock_inv_def Let_def split: if_splits)

end
