(* ===== verification/ProcUtil.thy ===== *)
theory ProcUtil
  imports Strconv
begin

text \<open>
  \<^verbatim>\<open>util/process/helper.go\<close>, \<^verbatim>\<open>util/process/panicmachine.go\<close>, \<^verbatim>\<open>util/helper/\<close>, \<^verbatim>\<open>util/app/errcode/\<close>: processes, reports of panics, delayed calls and small helpers.

  Representation. What the command \<open>ps\<close> prints is an argument. A channel is its buffer, the senders that wait, and whether it is closed; a panic is \<open>None\<close>. A function that is executed may panic with a value, given by its text. Timers are the list of
  those that are set, with the time at which they fire; \<open>Stop\<close> removes one.
\<close>

subsection \<open>Processes\<close>

definition blank_byte :: "char \<Rightarrow> bool" where
  "blank_byte c \<longleftrightarrow> of_char c \<in> {9, 10, 11, 12, 13, 32 :: nat}"

fun fields_from :: "string \<Rightarrow> string \<Rightarrow> string list" where
  \<comment> \<open>\<open>strings.Fields\<close> on ASCII, with the field that is being read\<close>
  "fields_from cur [] = (if cur = [] then [] else [cur])"
| "fields_from cur (c # cs) =
     (if blank_byte c then (if cur = [] then fields_from [] cs else cur # fields_from [] cs) else fields_from (cur @ [c]) cs)"

definition IsProcessExist :: "(string \<Rightarrow> string) \<Rightarrow> string \<Rightarrow> bool" where
  "IsProcessExist run appName = (appName \<in> set (fields_from [] (run (''ps  -C '' @ appName))))"

definition ProcessCount :: "(string \<Rightarrow> string) \<Rightarrow> string \<Rightarrow> nat" where
  "ProcessCount run appName = length (filter (\<lambda>v. v = appName) (fields_from [] (run (''ps  -C '' @ appName))))"

definition ExecProcess :: "(string \<Rightarrow> string) \<Rightarrow> string \<Rightarrow> string \<Rightarrow> string" where
  "ExecProcess run path appName = run (''cd '' @ path @ '';'' @ ''./'' @ appName @ '' &'')"

lemma process_exists_count: "IsProcessExist run app \<longleftrightarrow> ProcessCount run app > 0"
  by (auto simp: IsProcessExist_def ProcessCount_def filter_empty_conv)

subsection \<open>Closing a channel\<close>

record 'v chan_state =
  csBuf :: "'v list"
  csSenders :: "'v list" \<comment> \<open>they wait for room\<close>
  csClosed :: bool

datatype 'v recv = Received 'v | RecvClosed | RecvBlocks

definition chan_recv :: "'v chan_state \<Rightarrow> 'v recv \<times> 'v chan_state" where
  "chan_recv c =
     (case csBuf c @ csSenders c of
        [] \<Rightarrow> (if csClosed c then RecvClosed else RecvBlocks, c)
      | v # _ \<Rightarrow>
          (Received v,
           if csBuf c = [] then c\<lparr>csSenders := tl (csSenders c)\<rparr>
           else c\<lparr>csBuf := tl (csBuf c) @ take 1 (csSenders c), csSenders := drop 1 (csSenders c)\<rparr>))"

definition chan_close :: "'v chan_state \<Rightarrow> 'v chan_state option" where
  \<comment> \<open>the senders that wait panic in their goroutines\<close>
  "chan_close c = (if csClosed c then None else Some (c\<lparr>csClosed := True, csSenders := []\<rparr>))"

definition SafeCloseNull :: "'v chan_state option option \<Rightarrow> ('v chan_state option \<times> bool) option" where
  \<comment> \<open>given a pointer to a channel: the channel afterwards, and whether the variable was set to \<open>nil\<close>\<close>
  "SafeCloseNull e =
     (case e of
        None \<Rightarrow> Some (None, False)
      | Some None \<Rightarrow> Some (None, False)
      | Some (Some c) \<Rightarrow>
          let (r, c) = chan_recv c
          in if r = RecvClosed then Some (Some c, False)
             else do { c \<leftarrow> chan_close c; let (r, c) = chan_recv c; Some (Some c, r = RecvClosed) })"

text \<open>A channel with at most one value is closed and the variable set to \<open>nil\<close>; the value is lost. With more values two of them are lost and the variable keeps the closed channel. A closed channel that still holds a value makes it panic.\<close>

lemma SafeCloseNull_open:
  assumes "\<not> csClosed c" and "csSenders c = []"
  shows "SafeCloseNull (Some (Some c)) =
    (if length (csBuf c) \<le> 1 then Some (Some (c\<lparr>csBuf := [], csClosed := True\<rparr>), True) else Some (Some (c\<lparr>csBuf := drop 2 (csBuf c), csClosed := True\<rparr>), False))"
proof (cases "csBuf c")
  case Nil
  with assms show ?thesis by (simp add: SafeCloseNull_def chan_recv_def chan_close_def Let_def)
next
  case (Cons v vs)
  with assms show ?thesis by (cases vs) (simp_all add: SafeCloseNull_def chan_recv_def chan_close_def Let_def)
qed

lemma SafeCloseNull_closed:
  assumes "csClosed c" and "csSenders c = []"
  shows "SafeCloseNull (Some (Some c)) = (if csBuf c = [] then Some (Some c, False) else None)"
  using assms by (auto simp: SafeCloseNull_def chan_recv_def chan_close_def Let_def split: list.split)

subsection \<open>Reports of panics\<close>

record PanicReq =
  pqService :: string
  pqErrorInfo :: string
  pqStack :: string
  pqFuncName :: string
  pqHost :: string
  pqCallId :: string

record PanicReport =
  prService :: string
  prHost :: string
  prCallback :: bool \<comment> \<open>set\<close>

definition InitPanicReport :: "string \<Rightarrow> string \<Rightarrow> bool \<Rightarrow> PanicReport option" where
  \<comment> \<open>the variable \<open>DefaultPanicReport\<close>, which is \<open>nil\<close> before\<close>
  "InitPanicReport serviceName hostName callback = Some \<lparr>prService = serviceName, prHost = hostName, prCallback = callback\<rparr>"

definition SetPanicReportCallBack :: "bool \<Rightarrow> PanicReport \<Rightarrow> PanicReport" where
  "SetPanicReportCallBack callback r = r\<lparr>prCallback := callback\<rparr>"

definition ReportPanic :: "string \<Rightarrow> string \<Rightarrow> string \<Rightarrow> string \<Rightarrow> PanicReport \<Rightarrow> PanicReq" where
  \<comment> \<open>what the callback is given\<close>
  "ReportPanic i funcName errInfo stack r =
     \<lparr>pqService = prService r, pqErrorInfo = errInfo, pqStack = stack, pqFuncName = funcName, pqHost = prHost r, pqCallId = i\<rparr>"

definition RecoverFromPanic :: "string \<Rightarrow> string \<Rightarrow> string \<Rightarrow> string \<Rightarrow> PanicReport option \<Rightarrow> PanicReq list option" where
  \<comment> \<open>the reports that goroutines are started for; \<open>None\<close>: the report is \<open>nil\<close> and its callback is read\<close>
  "RecoverFromPanic stack i funcName err r =
     (let i = (if length i = 0 then ''-'' else i)
      in case r of
           None \<Rightarrow> None
         | Some r \<Rightarrow> Some (if prCallback r then [ReportPanic i funcName err stack r] else []))"

definition SafeExecuteFuncWithName :: "string \<Rightarrow> PanicReport option \<Rightarrow> string \<Rightarrow> string \<Rightarrow> ('w \<Rightarrow> string option \<times> 'w) \<Rightarrow> 'w \<Rightarrow> (PanicReq list \<times> 'w) option" where
  \<comment> \<open>the function returns the text of its panic, if it panics; \<open>None\<close>: a panic leaves this function. \<open>SafeExecuteFunc\<close> is the same with the name that the runtime gives\<close>
  "SafeExecuteFuncWithName stack report i funcName exec w =
     (let (panic, w) = exec w
      in case panic of None \<Rightarrow> Some ([], w) | Some v \<Rightarrow> map_option (\<lambda>reqs. (reqs, w)) (RecoverFromPanic stack i funcName v report))"

lemma safe_execute:
  "SafeExecuteFuncWithName stack (InitPanicReport sv h True) i f exec w = Some (reqs, w') \<Longrightarrow> w' = snd (exec w) \<and> length reqs = (if fst (exec w) = None then 0 else 1)"
  by (auto simp: SafeExecuteFuncWithName_def RecoverFromPanic_def InitPanicReport_def case_prod_beta split: option.splits)

lemma safe_execute_total: "\<exists>reqs. SafeExecuteFuncWithName stack (InitPanicReport sv h cb) i f exec w = Some (reqs, snd (exec w))"
  by (auto simp: SafeExecuteFuncWithName_def RecoverFromPanic_def InitPanicReport_def case_prod_beta Let_def split: option.splits)

text \<open>Before \<open>InitPanicReport\<close> the panic of the function is not caught: handling it panics.\<close>

lemma unsafe_execute: "fst (exec w) = Some v \<Longrightarrow> SafeExecuteFuncWithName stack None i f exec w = None"
  by (simp add: SafeExecuteFuncWithName_def RecoverFromPanic_def case_prod_beta)

subsection \<open>Delayed calls\<close>

record 'f debouncer =
  dbAfter :: int
  dbTimer :: "(int \<times> 'f) option" \<comment> \<open>when it fires and what it calls\<close>

definition debounce_New :: "int \<Rightarrow> 'f debouncer" where
  "debounce_New after = \<lparr>dbAfter = after, dbTimer = None\<rparr>"

definition debounce_add :: "int \<Rightarrow> 'f \<Rightarrow> 'f debouncer \<Rightarrow> 'f debouncer" where
  \<comment> \<open>at a time; a timer that has not fired is stopped\<close>
  "debounce_add now f d = d\<lparr>dbTimer := Some (now + dbAfter d, f)\<rparr>"

definition debounce_fire :: "int \<Rightarrow> 'f debouncer \<Rightarrow> 'f list \<times> 'f debouncer" where
  \<comment> \<open>time passes\<close>
  "debounce_fire now d = (case dbTimer d of Some (t, f) \<Rightarrow> if t \<le> now then ([f], d\<lparr>dbTimer := None\<rparr>) else ([], d) | None \<Rightarrow> ([], d))"

fun debounce_run :: "(int \<times> 'f) list \<Rightarrow> 'f debouncer \<Rightarrow> 'f list \<times> 'f debouncer" where
  \<comment> \<open>calls at given times\<close>
  "debounce_run [] d = ([], d)"
| "debounce_run ((now, f) # cs) d =
     (let (fired, d) = debounce_fire now d; (fired', d) = debounce_run cs (debounce_add now f d) in (fired @ fired', d))"

definition quiet_calls :: "int \<Rightarrow> (int \<times> 'f) list \<Rightarrow> 'f list" where
  \<comment> \<open>the functions of the calls that no other call follows within the delay, the last one apart\<close>
  "quiet_calls after cs = map (\<lambda>(c, d). snd c) (filter (\<lambda>(c, d). fst c + after \<le> fst d) (zip cs (tl cs)))"

text \<open>The functions that are executed are those of the calls after which it was quiet for the delay, in order; the last call's is waiting.\<close>

lemma debounce_run_quiet:
  assumes "debounce_run cs d = (fired, d')"
  shows "dbAfter d' = dbAfter d \<and> fired = (case (dbTimer d, cs) of (Some (t, f), c # _) \<Rightarrow> if t \<le> fst c then [f] else [] | _ \<Rightarrow> []) @ quiet_calls (dbAfter d) cs \<and>
    (cs \<noteq> [] \<longrightarrow> dbTimer d' = Some (fst (last cs) + dbAfter d, snd (last cs)))"
  using assms
proof (induction cs arbitrary: d fired d')
  case (Cons c cs)
  obtain now f where c: "c = (now, f)" by (cases c)
  let ?d = "debounce_add now f (snd (debounce_fire now d))"
  obtain fired' d2 where r0: "debounce_run cs ?d = (fired', d2)" by (cases "debounce_run cs ?d")
  with Cons.prems c have r: "debounce_run cs ?d = (fired', d')" "fired = fst (debounce_fire now d) @ fired'" by (simp_all add: case_prod_beta)
  have d: "dbAfter ?d = dbAfter d" "dbTimer ?d = Some (now + dbAfter d, f)"
    by (auto simp: debounce_add_def debounce_fire_def split: option.split)
  have q: "quiet_calls a (c # cs) = (case cs of [] \<Rightarrow> [] | c' # _ \<Rightarrow> (if now + a \<le> fst c' then [f] else [])) @ quiet_calls a cs" for a
    using c by (cases cs) (auto simp: quiet_calls_def)
  have first: "fst (debounce_fire now d) = (case dbTimer d of Some (t, f) \<Rightarrow> if t \<le> now then [f] else [] | None \<Rightarrow> [])"
    by (auto simp: debounce_fire_def split: option.split)
  from Cons.IH [OF r(1)] d r first q c show ?case by (cases cs) (auto simp: quiet_calls_def split: option.split)
qed (simp add: quiet_calls_def split: option.split)

subsection \<open>Numbers\<close>

definition GetTimeStampFromSessionId :: "string \<Rightarrow> int" where
  \<comment> \<open>in 64 bits; the shift is arithmetic\<close>
  "GetTimeStampFromSessionId sessionId = sint (of_int (ParseInt sessionId div 2 ^ 21 * 100 + 1561690135700) :: 64 word)"


fun cipher_digit :: "string \<Rightarrow> string" where
  "cipher_digit k =
     (case map_of [(''acd'', ''0''), (''bfg'', ''1''), (''cjk'', ''2''), (''dop'', ''3''), (''eqz'', ''4''), (''fyt'', ''5''), (''gmx'', ''6''), (''hvn'', ''7''), (''jpw'', ''8''), (''kri'', ''9'')] k of
        None \<Rightarrow> [] | Some d \<Rightarrow> d)"

fun DecodeCompanyId :: "string \<Rightarrow> string option" where
  \<comment> \<open>\<open>None\<close>: the slice of the last key is out of range\<close>
  "DecodeCompanyId [] = Some []"
| "DecodeCompanyId (a # b # c # source) = map_option (\<lambda>dest. cipher_digit [a, b, c] @ dest) (DecodeCompanyId source)"
| "DecodeCompanyId source = None"

lemma decode_panics: "DecodeCompanyId s = None \<longleftrightarrow> length s mod 3 \<noteq> 0"
  by (induction s rule: DecodeCompanyId.induct) (auto simp: mod_Suc)

lemma timestamp_exact: "GetTimeStampFromSessionId s = ParseInt s div 2 ^ 21 * 100 + 1561690135700"
proof -
  have "- (2 ^ 63) \<le> ParseInt s \<and> ParseInt s \<le> 2 ^ 63 - 1"
    by (auto simp: ParseInt_def Let_def split: list.split option.split)
  then have b: "- (2 ^ 42) \<le> ParseInt s div 2 ^ 21 \<and> ParseInt s div 2 ^ 21 \<le> 2 ^ 42" by auto
  define x where "x = ParseInt s div 2 ^ 21 * 100 + 1561690135700"
  have "- (2 ^ 63) \<le> x" "x < 2 ^ 63" using b unfolding x_def by auto
  then have "signed_take_bit 63 x = x" by (intro signed_take_bit_int_eq_self) simp_all
  then have "sint (of_int x :: 64 word) = x" by (simp add: sint_sbintrunc')
  then have "sint (of_int (ParseInt s div 2 ^ 21 * 100 + 1561690135700) :: 64 word) = ParseInt s div 2 ^ 21 * 100 + 1561690135700"
    unfolding x_def .
  then show ?thesis by (simp only: GetTimeStampFromSessionId_def)
qed

subsection \<open>Errors with a code\<close>

record code_Error =
  ceCode :: int
  ceMsg :: string
  ceDetail :: string

definition NewError :: "int \<Rightarrow> string \<Rightarrow> code_Error" where
  "NewError code message = \<lparr>ceCode = code, ceMsg = message, ceDetail = []\<rparr>"

definition WithDetail :: "string \<Rightarrow> code_Error \<Rightarrow> code_Error" where
  \<comment> \<open>of a copy\<close>
  "WithDetail detail e = e\<lparr>ceDetail := detail\<rparr>"

definition code_text :: "code_Error \<Rightarrow> string" where
  \<comment> \<open>the detail is not part of it\<close>
  "code_text e = ''code: '' @ itoa (ceCode e) @ '', message: '' @ ceMsg e"

lemma WithDetail_text: "code_text (WithDetail d e) = code_text e"
  by (simp add: code_text_def WithDetail_def)

end
