(* ===== verification/Middleware.thy ===== *)
theory Middleware
  imports ProcUtil HttpTransport
begin

text \<open>
  \<^verbatim>\<open>metrics/\<close>, \<^verbatim>\<open>util/app/\<close>, \<^verbatim>\<open>media/\<close>: handlers that count, log and recover around other handlers of the package \<open>gin\<close>, and the energy of sound.

  Representation. The packages \<open>gin\<close> and \<open>prometheus\<close> are not under \<^verbatim>\<open>src/\<close>. Of a context of \<open>gin\<close> the request, the status, what was written, whether it was aborted and the values that were set are kept, and \<open>Next\<close> is a function on
  it that may panic; of \<open>prometheus\<close> the number of increments for each pair of labels and the number of observations for each label. Samples are 16-bit words and \<open>int\<close> has 64 bits.
\<close>

subsection \<open>Contexts\<close>

record gin_ctx =
  gcHost :: string
  gcURL :: "(string \<times> string) option" \<comment> \<open>host and path; \<open>None\<close>: \<open>nil\<close>\<close>
  gcRequestURI :: string
  gcMethod :: string
  gcHeader :: http_header
  gcBody :: "byte list"
  gcValues :: "string \<rightharpoonup> string"
  gcStatus :: int
  gcRespHeader :: http_header
  gcWritten :: "byte list"
  gcErrors :: "(int \<times> code_Error) list" \<comment> \<open>errors that were written as JSON, with the status\<close>
  gcAborted :: bool

datatype 'a outcome_of = Returns 'a | Panics string 'a

definition header_Get :: "string \<Rightarrow> http_header \<Rightarrow> string" where
  "header_Get k h = (case h (CanonicalHeaderKey k) of Some (v # _) \<Rightarrow> v | _ \<Rightarrow> [])"

subsection \<open>Metrics\<close>

record metrics_Options =
  moNamespace :: string
  moId :: string
  moVersion :: string
  moBHostMethod :: bool
  moUrlField :: string
  moMetaData :: "(string \<times> string) list"
  moMerge :: "string list"

definition mo_Id :: "string \<Rightarrow> metrics_Options \<Rightarrow> metrics_Options" where "mo_Id n = moId_update (\<lambda>_. n)"

definition mo_Namespace :: "string \<Rightarrow> metrics_Options \<Rightarrow> metrics_Options" where "mo_Namespace n = moNamespace_update (\<lambda>_. n)"

definition mo_Version :: "string \<Rightarrow> metrics_Options \<Rightarrow> metrics_Options" where "mo_Version n = moVersion_update (\<lambda>_. n)"

definition mo_HostMethod :: "bool \<Rightarrow> metrics_Options \<Rightarrow> metrics_Options" where "mo_HostMethod n = moBHostMethod_update (\<lambda>_. n)"

definition mo_MetaData :: "(string \<times> string) list \<Rightarrow> metrics_Options \<Rightarrow> metrics_Options" where "mo_MetaData n = moMetaData_update (\<lambda>_. n)"

definition mo_Merge :: "string list \<Rightarrow> metrics_Options \<Rightarrow> metrics_Options" where "mo_Merge n = moMerge_update (\<lambda>_. n)"

definition mo_UrlField :: "string \<Rightarrow> metrics_Options \<Rightarrow> metrics_Options" where "mo_UrlField n = moUrlField_update (\<lambda>_. n)"

definition metric_labels :: "metrics_Options \<Rightarrow> (string \<rightharpoonup> string)" where
  \<comment> \<open>the labels of all metrics: the map \<open>md\<close>\<close>
  "metric_labels o' =
     (let md = fold (\<lambda>(k, v) md. md(''gin_'' @ k \<mapsto> v)) (moMetaData o') Map.empty;
          md = (if length (moNamespace o') > 0 then md(''gin_name'' \<mapsto> moNamespace o') else md);
          md = (if length (moId o') > 0 then md(''gin_id'' \<mapsto> moId o') else md)
      in if length (moVersion o') > 0 then md(''gin_version'' \<mapsto> moVersion o') else md)"

definition prefixed :: "string \<Rightarrow> string \<Rightarrow> bool" where
  "prefixed s p = (take (length p) s = p)"

fun merge_name :: "string list \<Rightarrow> string \<Rightarrow> string" where
  \<comment> \<open>the first prefix that fits\<close>
  "merge_name [] name = name"
| "merge_name (p # ps) name = (if prefixed name p then p else merge_name ps name)"

definition metric_name :: "metrics_Options \<Rightarrow> gin_ctx \<Rightarrow> string option" where
  \<comment> \<open>the label \<open>method\<close> of a request; \<open>None\<close>: the URL is \<open>nil\<close> and its host is read\<close>
  "metric_name o' ctx = do {
     name \<leftarrow> (if moBHostMethod o' then
                if gcHost ctx \<noteq> [] then Some (gcHost ctx) else map_option fst (gcURL ctx)
              else Some (case gcURL ctx of Some (_, path) \<Rightarrow> path | None \<Rightarrow> gcRequestURI ctx));
     let name = (if moUrlField o' \<noteq> [] \<and> header_Get (moUrlField o') (gcHeader ctx) \<noteq> [] then header_Get (moUrlField o') (gcHeader ctx) else name);
     let name = (if length name > 0 \<and> prefixed name ''/'' then drop 1 name else name);
     Some (if length (moMerge o') \<noteq> 0 \<and> length name \<noteq> 0 then merge_name (moMerge o') name else name) }"

record metrics_state =
  msTotal :: "string \<times> string \<Rightarrow> nat" \<comment> \<open>\<open>request_total\<close> by method and status\<close>
  msObserved :: "string \<Rightarrow> nat" \<comment> \<open>observations of the two duration metrics by method\<close>

definition NewGinHandlerWrapper ::
  "metrics_Options \<Rightarrow> (gin_ctx \<Rightarrow> gin_ctx outcome_of) \<Rightarrow> gin_ctx \<Rightarrow> metrics_state \<Rightarrow> (gin_ctx outcome_of \<times> metrics_state) option" where
  \<comment> \<open>the handler that it returns; the duration is observed on every way out, the counter only when \<open>Next\<close> returns\<close>
  "NewGinHandlerWrapper o' next ctx m = do {
     name \<leftarrow> metric_name o' ctx;
     let observed = (msObserved m)(name := Suc (msObserved m name));
     Some (case next ctx of
       Panics v ctx \<Rightarrow> (Panics v ctx, m\<lparr>msObserved := observed\<rparr>)
     | Returns ctx \<Rightarrow>
         let l = (name, if gcStatus ctx < 300 then ''success'' else ''fail'')
         in (Returns ctx, m\<lparr>msTotal := (msTotal m)(l := Suc (msTotal m l)), msObserved := observed\<rparr>)) }"

subsection \<open>Recovering and logging\<close>

definition ResponseErr2 :: "int \<Rightarrow> code_Error option \<Rightarrow> gin_ctx \<Rightarrow> gin_ctx" where
  "ResponseErr2 statusCode err c =
     (let err = (case err of None \<Rightarrow> NewError 3 ''server internal error'' | Some err \<Rightarrow> err)
      in c\<lparr>gcStatus := statusCode, gcErrors := gcErrors c @ [(statusCode, err)]\<rparr>)"

definition ResponseErr :: "code_Error option \<Rightarrow> gin_ctx \<Rightarrow> gin_ctx" where
  "ResponseErr err c = ResponseErr2 500 err c"

definition Recovery :: "string \<Rightarrow> PanicReport option \<Rightarrow> string \<Rightarrow> (gin_ctx \<Rightarrow> gin_ctx outcome_of) \<Rightarrow> gin_ctx \<Rightarrow> (PanicReq list \<times> gin_ctx) option" where
  \<comment> \<open>given the URI of the request; \<open>None\<close>: a panic leaves the handler\<close>
  "Recovery stack report uri next c =
     (case next c of
        Returns c \<Rightarrow> Some ([], c)
      | Panics v c \<Rightarrow> do {
          reqs \<leftarrow> RecoverFromPanic stack [] (''Recovery '' @ uri) v report;
          Some (reqs, (ResponseErr (Some (WithDetail v (NewError 3 ''server internal error''))) c)\<lparr>gcAborted := True\<rparr>) })"

fun contains :: "string \<Rightarrow> string \<Rightarrow> bool" where
  "contains [] t = (t = [])"
| "contains (c # cs) t = (prefixed (c # cs) t \<or> contains cs t)"

definition AccessLogWriter_Write :: "byte list \<Rightarrow> byte list \<times> gin_ctx \<Rightarrow> byte list \<times> gin_ctx" where
  \<comment> \<open>with the copy of the response, to which writing does not fail; \<open>WriteString\<close> is the same\<close>
  "AccessLogWriter_Write data = (\<lambda>(responseBody, c).
     let responseBody = (if contains (header_Get ''Content-Type'' (gcRespHeader c)) ''application/json'' then responseBody @ data else responseBody)
     in (responseBody, c\<lparr>gcWritten := gcWritten c @ data\<rparr>))"

definition request_log :: "string \<Rightarrow> gin_ctx \<Rightarrow> string \<times> byte list option" where
  \<comment> \<open>what is logged of a request: a large body is left out\<close>
  "request_log uri c = (gcMethod c @ '' '' @ uri, if length (gcBody c) > 512 then None else Some (gcBody c))"

definition AccessLog ::
  "string \<Rightarrow> (byte list \<times> gin_ctx \<Rightarrow> byte list \<times> gin_ctx) \<Rightarrow> gin_ctx \<Rightarrow> ((string \<times> byte list option) \<times> string \<times> int \<times> byte list \<times> gin_ctx) option" where
  \<comment> \<open>the two log entries; the handlers after it write by \<open>AccessLogWriter_Write\<close>. \<open>None\<close>: no value \<open>router.id\<close> was set and it is taken for a string\<close>
  "AccessLog uri next c =
     (let first = request_log uri c; (responseBody, c) = next ([], c)
      in do { rId \<leftarrow> gcValues c ''router.id''; Some (first, rId, gcStatus c, responseBody, c) })"

subsection \<open>Sound\<close>

fun Transform :: "byte list \<Rightarrow> 16 word list" where
  "Transform (lo # hi # message) = (push_bit 8 (ucast hi) + ucast lo) # Transform message"
| "Transform message = []"

definition AvgEnergy :: "byte list \<Rightarrow> int option" where
  \<comment> \<open>\<open>None\<close>: a division by zero\<close>
  "AvgEnergy data =
     (if length data = 0 then Some 0
      else
        let waves = Transform data; sum = sum_list (map (\<lambda>wave. \<bar>sint wave\<bar>) waves)
        in if length waves = 0 then None else Some (sum div int (length waves)))"

subsection \<open>What is counted\<close>

definition zero_metrics :: metrics_state where
  "zero_metrics = \<lparr>msTotal = (\<lambda>_. 0), msObserved = (\<lambda>_. 0)\<rparr>"

fun gin_serve :: "metrics_Options \<Rightarrow> (gin_ctx \<Rightarrow> gin_ctx outcome_of) \<Rightarrow> gin_ctx list \<Rightarrow> metrics_state \<Rightarrow> metrics_state option" where
  "gin_serve o' next [] m = Some m"
| "gin_serve o' next (c # cs) m = do { (_, m) \<leftarrow> NewGinHandlerWrapper o' next c m; gin_serve o' next cs m }"

definition returns_with :: "(int \<Rightarrow> bool) \<Rightarrow> gin_ctx outcome_of \<Rightarrow> bool" where
  "returns_with P x = (case x of Returns c \<Rightarrow> P (gcStatus c) | Panics _ _ \<Rightarrow> False)"

text \<open>The counters of a method are the numbers of its requests that returned with a status below 300 and of those that returned with another one; requests whose handler panics are in neither of them, but their duration is observed.\<close>

lemma metrics_step:
  assumes "NewGinHandlerWrapper o' next c m = Some (x, m1)"
  shows "msTotal m1 (name, ''success'') = msTotal m (name, ''success'') + (if metric_name o' c = Some name \<and> returns_with (\<lambda>s. s < 300) (next c) then 1 else 0)"
    and "msTotal m1 (name, ''fail'') = msTotal m (name, ''fail'') + (if metric_name o' c = Some name \<and> returns_with (\<lambda>s. \<not> s < 300) (next c) then 1 else 0)"
    and "msObserved m1 name = msObserved m name + (if metric_name o' c = Some name then 1 else 0)"
  using assms by (cases "next c"; auto simp: NewGinHandlerWrapper_def returns_with_def Let_def split: bind_splits)+

lemma metrics_count:
  assumes "gin_serve o' next cs m = Some m'"
  shows "msTotal m' (name, ''success'') = msTotal m (name, ''success'') + length (filter (\<lambda>c. metric_name o' c = Some name \<and> returns_with (\<lambda>s. s < 300) (next c)) cs)"
    and "msTotal m' (name, ''fail'') = msTotal m (name, ''fail'') + length (filter (\<lambda>c. metric_name o' c = Some name \<and> returns_with (\<lambda>s. \<not> s < 300) (next c)) cs)"
    and "msObserved m' name = msObserved m name + length (filter (\<lambda>c. metric_name o' c = Some name) cs)"
  using assms by (induction cs arbitrary: m) (auto simp: metrics_step split: bind_splits)

text \<open>The label of a request never begins with a slash unless there were two of them or a prefix to merge with begins with one.\<close>

lemma merge_name_prefix: "merge_name ps n = n \<or> merge_name ps n \<in> set ps \<and> prefixed n (merge_name ps n)"
  by (induction ps) auto

lemma recovery_reported:
  "Recovery stack (InitPanicReport sv h cb) uri next c =
     (case next c of
        Returns c' \<Rightarrow> Some ([], c')
      | Panics v c' \<Rightarrow>
          Some (if cb then [\<lparr>pqService = sv, pqErrorInfo = v, pqStack = stack, pqFuncName = ''Recovery '' @ uri, pqHost = h, pqCallId = ''-''\<rparr>] else [],
            c'\<lparr>gcStatus := 500, gcErrors := gcErrors c' @ [(500, \<lparr>ceCode = 3, ceMsg = ''server internal error'', ceDetail = v\<rparr>)], gcAborted := True\<rparr>))"
  by (simp add: Recovery_def InitPanicReport_def RecoverFromPanic_def ReportPanic_def ResponseErr_def ResponseErr2_def WithDetail_def NewError_def Let_def split: outcome_of.split)

text \<open>Before \<open>InitPanicReport\<close> the recovery of a panic panics, and nothing is answered.\<close>

lemma recovery_unset: "next c = Panics v c' \<Longrightarrow> Recovery stack None uri next c = None"
  by (simp add: Recovery_def RecoverFromPanic_def)

lemma access_log_copy:
  assumes "contains (header_Get ''Content-Type'' (gcRespHeader c)) ''application/json''"
  shows "fold AccessLogWriter_Write ds (r, c) = (r @ concat ds, c\<lparr>gcWritten := gcWritten c @ concat ds\<rparr>)"
  using assms by (induction ds arbitrary: r c) (simp_all add: AccessLogWriter_Write_def)

subsection \<open>Samples\<close>

definition sample_bytes :: "16 word \<Rightarrow> byte list" where
  "sample_bytes w = [ucast w, ucast (drop_bit 8 w)]"

lemma sample_join: "push_bit 8 (ucast (ucast (drop_bit 8 w) :: byte)) + ucast (ucast w :: byte) = (w :: 16 word)"
proof -
  have "push_bit 8 (ucast (ucast (drop_bit 8 w) :: byte)) + ucast (ucast w :: byte) = (push_bit 8 (ucast (ucast (drop_bit 8 w) :: byte)) OR ucast (ucast w :: byte) :: 16 word)"
    by (rule disjunctive_add) (auto simp: bit_simps)
  also have "\<dots> = w" by (rule bit_word_eqI) (auto simp: bit_simps)
  finally show ?thesis .
qed

lemma transform_roundtrip: "Transform (concat (map sample_bytes ws)) = ws"
  by (induction ws) (simp_all add: sample_bytes_def sample_join)

lemma length_Transform: "length (Transform data) = length data div 2"
  by (induction data rule: Transform.induct) simp_all

lemma abs_sample: "\<bar>sint (w :: 16 word)\<bar> \<le> 32768"
  using sint_ge [of w] sint_lt [of w] by auto

text \<open>The energy lies between 0 and 32768; a single byte makes it divide by zero.\<close>

lemma energy_bounds:
  "AvgEnergy data = None \<longleftrightarrow> length data = 1" "AvgEnergy data = Some e \<Longrightarrow> 0 \<le> e \<and> e \<le> 32768"
proof -
  show "AvgEnergy data = None \<longleftrightarrow> length data = 1"
    using length_Transform [of data] by (cases data rule: Transform.cases) (auto simp: AvgEnergy_def Let_def)
  have sum: "0 \<le> sum_list (map (\<lambda>wave. \<bar>sint wave\<bar>) ws) \<and> sum_list (map (\<lambda>wave. \<bar>sint wave\<bar>) ws) \<le> 32768 * int (length ws)" for ws :: "16 word list"
  proof (induction ws)
    case (Cons w ws)
    with abs_sample [of w] show ?case by simp
  qed simp
  show "0 \<le> e \<and> e \<le> 32768" if "AvgEnergy data = Some e"
  proof (cases "length data = 0")
    case False
    then have l: "Transform data \<noteq> []" and e: "e = sum_list (map (\<lambda>wave. \<bar>sint wave\<bar>) (Transform data)) div int (length (Transform data))"
      using that by (auto simp: AvgEnergy_def Let_def split: if_splits)
    have "sum_list (map (\<lambda>wave. \<bar>sint wave\<bar>) (Transform data)) div int (length (Transform data)) \<le> (32768 * int (length (Transform data))) div int (length (Transform data))"
      using sum l by (intro zdiv_mono1) auto
    then show ?thesis using sum [of "Transform data"] l e by (simp add: pos_imp_zdiv_nonneg_iff)
  qed (use that in \<open>simp add: AvgEnergy_def\<close>)
qed

end
