(* ===== verification/Spec2Isabelle.thy ===== *)
theory Spec2Isabelle
  imports NlAttribute NlTest NlConnLinux Gpool Fsm EventManager Selector Slab
    HttpTransport Monitor ServiceRun LogSync Apollo Rabbit FileCache MemUtil
    Ping Promise WebSocket Trace FileTree Middleware
begin

text \<open>
  \<^bold>\<open>A verification of the gocommon library.\<close>

  The repository is a collection of Go packages for building services. The parts verified here are
  those with state and logic of their own; paths are relative to \<^verbatim>\<open>src/\<close>.

  \<^item> \<^verbatim>\<open>netlink-client/\<close>: netlink messages and attributes, a connection (\<open>Conn\<close>) over an interface
    \<open>Socket\<close>, the Linux socket below it (\<open>conn\<close> over \<open>sysSocket\<close> over system calls run on a locked
    goroutine), and a socket for tests that answers requests by a function.
  \<^item> \<^verbatim>\<open>util/mem/queue.go\<close>: a double-ended queue in a circular buffer.
  \<^item> \<^verbatim>\<open>gpool/\<close>: a goroutine pool over one of two arrays of idle workers (a stack, or a ring when the
    memory is pre-allocated).
  \<^item> \<^verbatim>\<open>util/fsm/\<close>: a finite state machine with checks and callbacks.
  \<^item> \<^verbatim>\<open>event/\<close>: an event manager with named and wildcard listeners.
  \<^item> \<^verbatim>\<open>registry/\<close>, \<^verbatim>\<open>rcache/\<close>, \<^verbatim>\<open>selector/\<close> and \<^verbatim>\<open>monitor/\<close>: service records, the registry kept in etcd, the cache in front of a
    registry, which a watcher updates, the choice of a node out of what the cache serves, and the load status of nodes that this choice
    respects.
  \<^item> \<^verbatim>\<open>transport/\<close>: the interface of transports, a pool of connections over any of them, the transport within
    one process and the transport over HTTP; \<^verbatim>\<open>util/net\<close> and \<^verbatim>\<open>util/addr\<close>, the addresses they use.
  \<^item> \<^verbatim>\<open>codec/\<close>, \<^verbatim>\<open>client/\<close> and \<^verbatim>\<open>service-wrapper/metadata.go\<close>: a remote procedure call. A node is selected, a
    connection taken from the pool, a stream over it writes the request and reads the response through a
    codec, and failed attempts are repeated.
  \<^item> \<^verbatim>\<open>service-wrapper/\<close>: a web service that publishes itself in a registry while it runs.
  \<^item> \<^verbatim>\<open>log/\<close>: two loggers that write to rotated files.
  \<^item> \<^verbatim>\<open>apollo-config/\<close>: a client of a configuration service with a cache.
  \<^item> \<^verbatim>\<open>broker/\<close>, \<^verbatim>\<open>rabbitmq/\<close>: publishing and subscribing over a connection that is kept up.
  \<^item> \<^verbatim>\<open>web/\<close>: HTTP requests and web sockets to services that are found in the registry.
  \<^item> \<^verbatim>\<open>trace/\<close>, \<^verbatim>\<open>util/trace/\<close>: spans of calls, carried along in headers and collected.
  \<^item> \<^verbatim>\<open>util/process\<close>, \<^verbatim>\<open>util/file\<close>, \<^verbatim>\<open>util/helper\<close>, \<^verbatim>\<open>util/net/ping.go\<close>, \<^verbatim>\<open>util/app\<close>, \<^verbatim>\<open>metrics/\<close>, \<^verbatim>\<open>media/\<close>: promises, reports of panics, walks of directories and locks, delayed calls, echo
    requests, handlers around web handlers, the energy of sound.
  \<^item> \<^verbatim>\<open>util/mem\<close>, \<^verbatim>\<open>util/sync\<close>: a slab buffer, a cache of files with expiry and its two-layer front, a ring buffer with
    followers, small containers, a spin lock.

  \<^bold>\<open>Conventions.\<close> Theory \<open>Prelude\<close> fixes how Go values are represented: a panic or a call that never
  returns is \<open>None\<close>, a Go error is a value, slices are lists with the bounds checks written out, words
  keep their width where the code depends on it, and clocks, random draws and the iteration order of
  maps are arguments. It also has the generic lemmas on slices and the locale \<open>refinement\<close>, by
  which an implementation simulates a specification step by step, panics included. Definitions have
  the names of the source, with a prefix where several types have a method of one name.

  \<^bold>\<open>The theories.\<close>

  \<^descr> \<open>Nlenc\<close> (\<^verbatim>\<open>nlenc/int.go\<close>, \<^verbatim>\<open>string.go\<close>, \<^verbatim>\<open>endian.go\<close>) and \<open>NlErrors\<close> (\<^verbatim>\<open>errors.go\<close>): the integer and string
    codecs for either byte order, with their round trips, and the error values.
  \<^descr> \<open>NlMessage\<close> (\<^verbatim>\<open>align.go\<close>, \<^verbatim>\<open>message.go\<close>): \<open>MarshalBinary\<close> and \<open>UnmarshalBinary\<close> are inverse in both
    directions, never panic, and fail exactly on the inputs the errors name.
  \<^descr> \<open>NlAttribute\<close> (\<^verbatim>\<open>attribute.go\<close>): packing, unpacking, decoder and encoder. Unpacking ends on every
    input; typed sessions of the encoder are read back by the decoder; an attribute too long for its
    16-bit length field is packed without an error.
  \<^descr> \<open>NlConn\<close> (\<^verbatim>\<open>conn.go\<close>): the connection over any socket. Replies that \<open>Execute\<close> returns answer the request;
    sequence numbers are distinct; multi-part replies are put together. The locales \<open>draining_socket\<close>
    and \<open>request_socket\<close> say what a socket promises for the receive loop to return.
  \<^descr> \<open>NlTest\<close> (\<^verbatim>\<open>nltest/nltest.go\<close>): the test socket, an interpretation (\<open>ts\<close>) of both locales, so that
    \<open>Execute\<close> over it returns.
  \<^descr> \<open>NlConnLinux\<close> (\<^verbatim>\<open>conn_linux.go\<close>, \<^verbatim>\<open>netns_linux.go\<close>, \<^verbatim>\<open>fdcall_gteq_1.12.go\<close>): the Linux socket. The kernel is a
    parameter; the locale \<open>netlink_kernel\<close> states the documented behaviour that is relied on and gives
    \<open>datagram_socket\<close>. A pending datagram of any size is received whole, a failed dial stops the
    goroutine it started unless the failing call was \<open>socket\<close>, and a closed socket answers every operation
    with an error.
  \<^descr> \<open>Deque\<close> (\<^verbatim>\<open>util/mem/queue.go\<close>): the circular buffer refines lists (interpretation \<open>dq\<close> of
    \<open>refinement\<close>) for every sequence of operations; its capacity is zero or a power of two.
  \<^descr> \<open>WorkerArray\<close> (\<^verbatim>\<open>gpool/work_stack.go\<close>, \<^verbatim>\<open>worker_loop_queue.go\<close>): the contract \<open>worker_array\<close> of the
    interface \<open>workerArray\<close>, with interpretations for the stack (\<open>ws\<close>) and the ring (\<open>lq\<close>); the binary
    search agrees with a linear scan; the ring is a bounded queue.
  \<^descr> \<open>Gpool\<close> (\<^verbatim>\<open>gpool/pool.go\<close>, \<^verbatim>\<open>worker.go\<close>, \<^verbatim>\<open>options.go\<close>, \<^verbatim>\<open>gpool.go\<close>): sections under the lock and tests outside it are
    the steps of the relation \<open>pool_step\<close>, the purging goroutine and each of its messages included. Its invariant holds
    under every interleaving and for both arrays, provided that a closed pool is rebooted only after its purging goroutine has ended; how
    far the number of workers exceeds the capacity is bounded by the number of callers between the check and the count, and nothing else bounds it.
  \<^descr> \<open>Fsm\<close> (\<^verbatim>\<open>util/fsm/\<close>): a machine does, event after event, what its declared transitions, checks and callbacks
    mean (\<open>described_run\<close>); the queries agree with \<open>Event\<close>, and errors
    before and after a transition differ in whether it was made.
  \<^descr> \<open>EventManager\<close> (\<^verbatim>\<open>event/data.go\<close>, \<^verbatim>\<open>event.go\<close>, \<^verbatim>\<open>listener.go\<close>, \<^verbatim>\<open>manager.go\<close>): firing is one pass over an ordered list of
    listeners; registered names are valid; a store of listener items shows which of them share
    memory.
  \<^descr> \<open>Rcache\<close> (\<^verbatim>\<open>rcache/\<close>, \<^verbatim>\<open>registry/base.go\<close>, \<^verbatim>\<open>watcher.go\<close>): how long an entry is served and what happens when the
    registry fails; what watcher results can change.
  \<^descr> \<open>Selector\<close> (\<^verbatim>\<open>selector/\<close>): filters and strategies over the interface \<open>service_source\<close>, which the cache
    provides (\<open>rcs\<close>); the round-robin strategies are fair.
  \<^descr> \<open>Slab\<close> (\<^verbatim>\<open>util/mem/SlabBuffer.go\<close>, part of \<^verbatim>\<open>directio.go\<close>): a growing byte buffer in slabs against the byte sequence it
    stands for.
  \<^descr> \<open>ConnPool\<close> (\<^verbatim>\<open>transport/pool/\<close>, \<^verbatim>\<open>transport/transport.go\<close>, \<^verbatim>\<open>options.go\<close>): the locale \<open>tracked_transport\<close> is what a
    transport promises; every open connection is idle in the pool once or with a user.
  \<^descr> \<open>Strconv\<close>, \<open>Paths\<close>, \<open>NetUtil\<close> (\<^verbatim>\<open>util/net/net.go\<close>, \<^verbatim>\<open>util/addr/addr.go\<close>) and \<open>Metadata\<close> (\<^verbatim>\<open>service-wrapper/metadata.go\<close>): decimal
    numbers, host and port, private addresses, listening on the first free port of a range; metadata keys
    in a map whose iteration order is explicit.
  \<^descr> \<open>MemTransport\<close> (\<^verbatim>\<open>transport/memory.go\<close>): dialling, listening and the two ends of a connection; it keeps the
    contract of the pool (interpretation \<open>mt\<close>).
  \<^descr> \<open>RpcCodec\<close> (\<^verbatim>\<open>codec/\<close>, \<^verbatim>\<open>client/rpc_codec.go\<close>, \<^verbatim>\<open>rpc_request.go\<close>, \<^verbatim>\<open>rpc_response.go\<close>, \<^verbatim>\<open>rpc_stream.go\<close>): what is sent comes back
    unchanged from a peer that echoes it; what the errors of \<open>Recv\<close> mean. The connection and the encoder of
    bodies are parameters.
  \<^descr> \<open>RpcClient\<close> (\<^verbatim>\<open>client/rpc_client.go\<close>, \<^verbatim>\<open>options.go\<close>, \<^verbatim>\<open>backoff.go\<close>, \<^verbatim>\<open>retry.go\<close>, \<^verbatim>\<open>rpc_message.go\<close>): calls and streams. Which of the
    goroutines of a call is first is an argument; however that goes, a call gives its connections back, except the one that an attempt still blocked at
    the deadline holds. This is
    proved in the locale \<open>rpc_transport\<close>, which extends \<open>tracked_transport\<close> and is interpreted on the transport within
    the process (\<open>mrt\<close>). The attempts of \<open>Call\<close> are compared with a specification of retrying.
  \<^descr> \<open>HttpTransport\<close> (\<^verbatim>\<open>transport/http_transport.go\<close>, \<^verbatim>\<open>http_proxy.go\<close>, part of \<^verbatim>\<open>options.go\<close>): the client and the socket of an HTTP connection,
    dialling through a proxy, listening. Requests and responses are what the other side reads of them; the network is a parameter, and a
    socket served by a function is one instance. Exchanges are answered in order; what happens to pipelined requests and to the
    mutex of the client; connections are not leaked by \<open>Dial\<close>. It keeps the contracts of the pool and of the client (interpretations
    \<open>ht\<close> and \<open>hrt\<close>), so that what is proved of these holds over HTTP.
  \<^descr> \<open>Etcd\<close> (\<^verbatim>\<open>registry/etcdv3.go\<close>, \<^verbatim>\<open>etcdv3watcher.go\<close>, \<^verbatim>\<open>options.go\<close>, \<^verbatim>\<open>authoptions.go\<close>): the registry over the locale \<open>etcd_store\<close>, the documented
    behaviour of a key-value store with leases, interpreted on a store in memory (\<open>mes\<close>). After a successful registration a
    service is found with its nodes, however leases ran out and calls failed before, except updates of a registered service; of the events of one response the watcher reports the first.
  \<^descr> \<open>Monitor\<close> (\<^verbatim>\<open>monitor/os.go\<close>, \<^verbatim>\<open>common.go\<close>, \<^verbatim>\<open>options.go\<close>): the limits, with their single-precision products, the status of nodes
    and the heartbeats. Reported loads make the selector avoid and take up nodes again with hysteresis; heartbeats do not carry
    the load.
  \<^descr> \<open>ServiceRun\<close> (\<^verbatim>\<open>service-wrapper/service.go\<close>, \<^verbatim>\<open>options.go\<close>): the record that a service publishes and the run of a service, with the goroutine that renews
    the registration, as steps: when it is registered and deregistered.
  \<^descr> \<open>LogFile\<close> (\<^verbatim>\<open>log/newlog/\<close>) and \<open>LogSync\<close> (\<^verbatim>\<open>log/log/\<close>): log files that are rotated, over a model of directories whose calls may fail. The files
    hold the last lines in order when events are written directly; the goroutine that writes behind the callers keeps the order of the lines it is given and loses them
    only during a rotation. The older package rotates as the newer one does (\<open>same_rotation\<close>).
  \<^descr> \<open>Apollo\<close> (\<^verbatim>\<open>apollo-config/\<close>): the cache is a parameter with the locale \<open>config_cache\<close>, interpreted on a cache in memory (\<open>mc\<close>). An update leaves exactly the new
    configuration and reports exactly the differences; a request reaches a server that works; two ways to lose a configuration or a change of it.
  \<^descr> \<open>Rabbit\<close> (\<^verbatim>\<open>broker/\<close>, \<^verbatim>\<open>rabbitmq/\<close>): the AMQP library is a parameter. The goroutines that share a connection are steps between assignments: along repeated
    connects a connection marked as connected can be used; closing can be undone by the goroutine that reconnects. Subscriptions back off up to half a minute; how often a delivery is acknowledged.
  \<^descr> \<open>FileCache\<close> (\<^verbatim>\<open>util/mem/cache/\<close>, \<^verbatim>\<open>XCache.go\<close>, \<^verbatim>\<open>options.go\<close>): tables of items over a file system given by its files and by
    which creations and writes fail. Items are backed by files that survive a restart; the expiry check is exact, and
    flushing ends it.
  \<^descr> \<open>MemUtil\<close> (\<^verbatim>\<open>util/mem/ring/buffer.go\<close>, \<^verbatim>\<open>SyncArray.go\<close>, \<^verbatim>\<open>ChannelBuf.go\<close>, \<^verbatim>\<open>BytesPool.go\<close>, \<^verbatim>\<open>util/sync/spinlock.go\<close>): the ring buffer keeps
    the last entries and its followers miss none; the array keeps nothing; the spin lock is exclusive under
    every interleaving of its atomic accesses.
  \<^descr> \<open>Promise\<close> (\<^verbatim>\<open>util/process/progoroutine.go\<close>): a system of promises, each with its goroutine, as steps in any order. A promise is settled once and never with a promise; \<open>All\<close> ends with all
    results in order or with the error of one, and is never stuck while the promises that it waits for are settled.
  \<^descr> \<open>Ping\<close> (\<^verbatim>\<open>util/net/ping.go\<close>): the checksum of echo requests is the one of RFC 1071, stated independently, for every size up to 64 KB; the numbers of sent, lost and received requests agree.
  \<^descr> \<open>Web\<close> (\<^verbatim>\<open>web/web.go\<close>, \<^verbatim>\<open>options.go\<close>, \<^verbatim>\<open>roundshardtripper.go\<close>) and \<open>WebSocket\<close> (\<^verbatim>\<open>web/websocket.go\<close>): requests over the cache and the strategies of the theories above. Sessions stay at the server
    that answered first; other requests go on to the next healthy node when one fails. What arrives at a socket reaches its callbacks in order.
  \<^descr> \<open>Trace\<close> (\<^verbatim>\<open>trace/\<close>, \<^verbatim>\<open>util/trace/\<close>): identifiers of traces and parents pass through contexts and, by the theory \<open>Metadata\<close>, through headers; the collector batches spans in order; the tracer in memory uses the ring
    buffer of \<open>MemUtil\<close>; spans of open tracing are finished.
  \<^descr> \<open>FileTree\<close> (\<^verbatim>\<open>util/file/\<close>): a walk visits every entry of a tree once, in breadth-first order; locks exclude each other. \<open>ProcUtil\<close> (\<^verbatim>\<open>util/process/helper.go\<close>, \<^verbatim>\<open>panicmachine.go\<close>, \<^verbatim>\<open>util/helper/\<close>,
    \<^verbatim>\<open>util/app/errcode\<close>) and \<open>Middleware\<close> (\<^verbatim>\<open>metrics/\<close>, \<^verbatim>\<open>util/app/\<close>, \<^verbatim>\<open>media/\<close>): which values closing a channel loses, which delayed calls are made, when a recovery recovers, what is counted.
  \<^descr> \<open>Spec2Isabelle\<close>, this theory: the property that spans cache and selector, that nodes reported as gone
    are not selected.

  \<^bold>\<open>Loops.\<close> Loops that end on every input are total functions with their
  measures. Two take fuel, the size of the buffer that they run over: \<open>clear_loop\<close> of the deque and \<open>expiry_loop\<close> of the ring of workers; both
  are proved to return with it. The loops that wait for a peer, the kernel or a worker (\<open>receive_loop\<close>, \<open>peek_loop\<close>,
  \<open>poll_loop\<close>, \<open>send_nil_loop\<close>) and the walk of a directory (\<open>walk_loop\<close>) are partial functions in the option monad, for which not returning is \<open>None\<close>:
  that they return is proved under the laws of the locales or for a finite tree, and that \<open>send_nil_loop\<close> does not return
  for a pre-allocated pool with an idle worker is proved too. The watcher loops of the cache and of the etcd registry are
  functions of the list of outcomes their environment produces, as is the ticker of the monitor.

  \<^bold>\<open>Not modelled.\<close> Code that only forwards to libraries outside the repository or to a default object of its package, and so has no behaviour of its own to verify: certificates and sockets with options
  (\<^verbatim>\<open>util/tls\<close>, \<^verbatim>\<open>util/reuse\<close>), the registration of Prometheus collectors, the answers of gin, the authentication type of RabbitMQ, package functions of loggers, registries and events. The serving loop of HTTP and its parser belong
  to the library. Left out as well: the netlink debugger and the variants for other systems or older Go versions, which are stubs; code that is commented out (\<^verbatim>\<open>util/trace/opentrace.go\<close>); sample programs and
  tests. Panics of user callbacks are modelled only where the code recovers from them. Memory reuse through \<open>sync.Pool\<close> is not visible in the model, except that the pool hands out workers that are not in use.
  An executor of a promise that hands its two functions to another goroutine is outside the model of promises. What is left of the parts that are modelled in part is stated with them in the manifest: loops that repeat a modelled operation by
  a timer, and output that is only logged.
\<close>

subsection \<open>Cache and selector together\<close>

lemma deleted_nodes_marked:
  assumes "rc_update t (Some \<lparr>resAction = ''delete'', resService = Some r\<rparr>) c = Some c'"
    and "svNodes r \<noteq> []" and "rcCache c' (svName r) = Some ss" and "s \<in> set ss" and "svVersion s = svVersion r"
    and "n \<in> set (svNodes s)" and "ndId n \<in> ndId ` set (svNodes r)"
  shows "\<not> bHealthNodesByWeights now n"
proof -
  from assms(1-3) obtain old where "replace_services mark_deleted r old = Some ss"
    by (auto simp: rc_update_def update_delete_def split: option.splits Option.bind_splits)
  from replace_services_marked [OF this assms(4-7)] show ?thesis by (auto dest: deleted_not_healthy)
qed

lemma select_hit:
  assumes "rc_lookup now name (rsCache sel) = Hit ss" and "ss \<noteq> []"
  shows "Select reg now now' [WithStrategy str] name sel = (Inr (str ss), sel)"
  using assms by (simp add: Select_def select_from_def WithStrategy_def rc_GetService_def rc_get_def Let_def)

text \<open>C15. Once the watcher has reported that nodes of a service went away, a client that selects with
  \<open>RoundBinSelect\<close> while the cached entry is valid and holds at least one healthy node always gets a
  healthy node of the entry, and never one of the nodes reported as gone.\<close>

theorem deleted_node_avoided:
  assumes "rc_update t (Some \<lparr>resAction = ''delete'', resService = Some r\<rparr>) c = Some c'"
    and "svNodes r \<noteq> []" and "rc_lookup now (svName r) c' = Hit ss"
    and "h \<in> set (all_nodes ss)" and "bHealthNodesByWeights clock h"
  shows "\<exists>next n. Select reg now now' [WithStrategy (RoundBinSelect clock)] (svName r) (sel\<lparr>rsCache := c'\<rparr>) =
      (Inr next, sel\<lparr>rsCache := c'\<rparr>) \<and>
    next_call rnd (next, key) = Some (Inr n, next, key + 1) \<and>
    n \<in> set (all_nodes ss) \<and> bHealthNodesByWeights clock n \<and>
    \<not> (\<exists>s. s \<in> set ss \<and> svVersion s = svVersion r \<and> n \<in> set (svNodes s) \<and> ndId n \<in> ndId ` set (svNodes r))"
proof -
  let ?hs = "filter (bHealthNodesByWeights clock) (all_nodes ss)"
  have ss: "ss \<noteq> []" using assms(4) by (auto simp: all_nodes_def)
  with assms(3) have cached: "rcCache c' (svName r) = Some ss"
    by (auto simp: rc_lookup_def Let_def split: if_splits option.splits)
  have hs: "?hs \<noteq> []" using assms(4,5) by (auto simp: filter_empty_conv)
  define n where "n = ?hs ! (unat (key + 1) mod length ?hs)"
  have "n \<in> set ?hs" unfolding n_def using hs by (intro nth_mem) simp
  moreover from hs have "next_call rnd (NextRoundBin ?hs, key) = Some (Inr n, NextRoundBin ?hs, key + 1)"
    unfolding n_def by (rule next_call_RoundBin)
  moreover have "Select reg now now' [WithStrategy (RoundBinSelect clock)] (svName r) (sel\<lparr>rsCache := c'\<rparr>) =
      (Inr (NextRoundBin ?hs), sel\<lparr>rsCache := c'\<rparr>)"
    using assms(3) ss RoundBinSelect_healthy [OF assms(4,5)] by (simp add: select_hit)
  ultimately show ?thesis
    using deleted_nodes_marked [OF assms(1,2) cached] by auto
qed

definition ex_deleted :: cache where
  "ex_deleted = rc_set 0 ''greeter''
     [ex_service ''1'' [ex_node ''a'' Map.empty, ex_node ''b'' [ServiceStatus \<mapsto> DeleteState]]] (New_cache [])"

theorem deleted_node_avoided_witness:
  "\<exists>next n. Select (\<lambda>_. Inl ()) 5 6 [WithStrategy (RoundBinSelect 5)] ''greeter'' ((NewSelector [])\<lparr>rsCache := ex_deleted\<rparr>) =
      (Inr next, (NewSelector [])\<lparr>rsCache := ex_deleted\<rparr>) \<and>
    next_call 0 (next, 0) = Some (Inr n, next, 0 + 1) \<and> bHealthNodesByWeights 5 n"
proof -
  let ?r = "ex_service ''1'' [ex_node ''b'' Map.empty]"
  have "rc_update 2 (Some \<lparr>resAction = ''delete'', resService = Some ?r\<rparr>) ex_cache = Some ex_deleted"
    by (simp add: rc_update_def update_delete_def mark_deleted_def ex_cache_def ex_deleted_def ex_service_def ex_node_def
        rc_set_def New_cache_def)
  moreover have "svNodes ?r \<noteq> []" by (simp add: ex_service_def)
  moreover have "rc_lookup 5 (svName ?r) ex_deleted =
      Hit [ex_service ''1'' [ex_node ''a'' Map.empty, ex_node ''b'' [ServiceStatus \<mapsto> DeleteState]]]"
    by (simp add: ex_deleted_def ex_service_def rc_lookup_after_set New_cache_def DefaultTTL_def)
  moreover have "ex_node ''a'' Map.empty \<in> set (all_nodes
      [ex_service ''1'' [ex_node ''a'' Map.empty, ex_node ''b'' [ServiceStatus \<mapsto> DeleteState]]])"
    by (simp add: all_nodes_def ex_service_def)
  moreover have "bHealthNodesByWeights 5 (ex_node ''a'' Map.empty)"
    by (simp add: bHealthNodesByWeights_def meta_def ex_node_def)
  ultimately show ?thesis
    using deleted_node_avoided [of 2 ?r ex_cache ex_deleted 5 _ "ex_node ''a'' Map.empty" 5 "\<lambda>_. Inl ()" 6 "NewSelector []" 0 0]
    by (simp add: ex_service_def) blast
qed

end
